(* ===== verification/Prelude.thy ===== *)
theory Prelude
  imports Complex_Main "HOL-Library.Word" "HOL-Library.AList"
    "HOL-Library.List_Lexorder" "HOL-Library.Product_Lexorder"
begin

text \<open>
  Shared vocabulary of the development: results with errors, bytes and big-endian
  integers, insertion-ordered dictionaries, and the contract of a component that keeps
  an invariant over every sequence of its operations.
\<close>

section \<open>Results: every raise is a value\<close>

text \<open>
  A Python function that may raise returns \<open>Inl e\<close> for the exception and \<open>Inr v\<close> for
  the value. \<open>res_bind\<close> sequences two such computations, \<open>res_mapM\<close> is a
  comprehension whose first failing element aborts the whole expression.
\<close>

fun res_bind :: "'e + 'a \<Rightarrow> ('a \<Rightarrow> 'e + 'b) \<Rightarrow> 'e + 'b" where
  "res_bind (Inl e) f = Inl e"
| "res_bind (Inr v) f = f v"

fun is_ok :: "'e + 'a \<Rightarrow> bool" where
  "is_ok (Inl _) = False"
| "is_ok (Inr _) = True"

fun res_mapM :: "('a \<Rightarrow> 'e + 'b) \<Rightarrow> 'a list \<Rightarrow> 'e + 'b list" where
  "res_mapM f [] = Inr []"
| "res_mapM f (x # xs) =
     (case f x of Inl e \<Rightarrow> Inl e
      | Inr y \<Rightarrow> (case res_mapM f xs of Inl e \<Rightarrow> Inl e | Inr ys \<Rightarrow> Inr (y # ys)))"

lemma res_bind_Inr_iff [simp]:
  "res_bind r f = Inr v \<longleftrightarrow> (\<exists>x. r = Inr x \<and> f x = Inr v)"
  by (cases r) auto

lemma is_ok_iff: "is_ok r \<longleftrightarrow> (\<exists>v. r = Inr v)"
  by (cases r) auto

lemma res_mapM_Inr_iff:
  "res_mapM f xs = Inr ys \<longleftrightarrow> map f xs = map Inr ys"
proof (induction xs arbitrary: ys)
  case Nil
  then show ?case by (cases ys) auto
next
  case (Cons x xs)
  then show ?case
    by (cases ys; cases "f x"; cases "res_mapM f xs") (auto dest: sym)
qed

lemma res_mapM_all_Inr:
  "(\<And>x. x \<in> set xs \<Longrightarrow> f x = Inr (g x)) \<Longrightarrow> res_mapM f xs = Inr (map g xs)"
  by (simp add: res_mapM_Inr_iff)

section \<open>Bytes\<close>

type_synonym byte = "8 word"
type_synonym bytes = "byte list"

text \<open>Unsigned big-endian integers of a fixed width, as \<open>struct\<close> packs them.\<close>

primrec be_enc :: "nat \<Rightarrow> nat \<Rightarrow> bytes" where
  "be_enc 0 x = []"
| "be_enc (Suc n) x = be_enc n (x div 256) @ [word_of_nat (x mod 256)]"

definition be_dec :: "bytes \<Rightarrow> nat" where
  "be_dec bs = foldl (\<lambda>a b. a * 256 + unat b) 0 bs"

lemma length_be_enc [simp]: "length (be_enc n x) = n"
  by (induction n arbitrary: x) auto

lemma be_dec_Nil [simp]: "be_dec [] = 0"
  by (simp add: be_dec_def)

lemma be_dec_snoc [simp]: "be_dec (bs @ [b]) = be_dec bs * 256 + unat b"
  by (simp add: be_dec_def)

lemma unat_byte_of_nat [simp]: "x < 256 \<Longrightarrow> unat (word_of_nat x :: byte) = x"
  by (simp add: unat_of_nat take_bit_eq_mod)

lemma unat_byte_less [simp]: "unat (b :: byte) < 256"
  using unsigned_less [where w = b and 'a = nat] by simp

lemma byte_of_nat_unat [simp]: "word_of_nat (unat (b :: byte)) = b"
  by simp

lemma be_dec_be_enc: "x < 256 ^ n \<Longrightarrow> be_dec (be_enc n x) = x"
proof (induction n arbitrary: x)
  case 0
  then show ?case by simp
next
  case (Suc n)
  have "x div 256 < 256 ^ n"
    using Suc.prems by (simp add: less_mult_imp_div_less mult.commute)
  then have "be_dec (be_enc n (x div 256)) = x div 256" by (rule Suc.IH)
  then show ?case by simp
qed

lemma be_enc_be_dec: "be_enc (length bs) (be_dec bs) = bs"
proof (induction bs rule: rev_induct)
  case Nil
  then show ?case by simp
next
  case (snoc b bs)
  have "(be_dec bs * 256 + unat b) div 256 = be_dec bs"
    using unat_byte_less [of b] by simp
  moreover have "(be_dec bs * 256 + unat b) mod 256 = unat b"
    using unat_byte_less [of b] by simp
  ultimately show ?case using snoc.IH by simp
qed

lemma be_dec_bound: "be_dec bs < 256 ^ length bs"
proof (induction bs rule: rev_induct)
  case Nil
  then show ?case by simp
next
  case (snoc b bs)
  have "be_dec bs * 256 + unat b < (be_dec bs + 1) * 256"
    using unat_byte_less [of b] by simp
  also have "\<dots> \<le> 256 ^ length bs * 256"
    using snoc.IH by (intro mult_right_mono) auto
  finally show ?case by simp
qed

declare be_enc.simps [simp del]

text \<open>\<open>xs[i:j]\<close> for non-negative bounds.\<close>

definition slice :: "nat \<Rightarrow> nat \<Rightarrow> 'a list \<Rightarrow> 'a list" where
  "slice i j xs = take (j - i) (drop i xs)"

lemma length_slice: "j \<le> length xs \<Longrightarrow> length (slice i j xs) = j - i"
  by (simp add: slice_def)

lemma slice_append:
  "slice i j (xs @ ys) = slice i j xs @ slice (i - length xs) (j - length xs) ys"
proof (cases "i \<le> length xs")
  case True
  then show ?thesis by (cases "j \<le> length xs") (auto simp: slice_def)
next
  case False
  then have "j - length xs - (i - length xs) = j - i" by simp
  with False show ?thesis by (simp add: slice_def)
qed

lemma slice_out [simp]: "length xs \<le> i \<Longrightarrow> slice i j xs = []"
  by (simp add: slice_def)

lemma slice_empty [simp]: "j \<le> i \<Longrightarrow> slice i j xs = []"
  by (simp add: slice_def)

lemma slice_all [simp]: "length xs \<le> j \<Longrightarrow> slice 0 j xs = xs"
  by (simp add: slice_def)

lemma slice_join:
  assumes "i \<le> j" and "j \<le> k"
  shows "slice i j xs @ slice j k xs = slice i k xs"
proof -
  have "take (k - i) (drop i xs) = take ((j - i) + (k - j)) (drop i xs)"
    using assms by simp
  also have "\<dots> = take (j - i) (drop i xs) @ take (k - j) (drop (j - i) (drop i xs))"
    by (rule take_add)
  finally show ?thesis using assms by (simp add: slice_def)
qed

lemma slice_to_end: "length xs \<le> j \<Longrightarrow> slice i j xs = drop i xs"
  by (simp add: slice_def)

lemma slice_shift: "slice (i + length ys) (j + length ys) (ys @ xs) = slice i j xs"
  by (simp add: slice_def)

lemma concat_slices: "concat (map (\<lambda>i. slice (i * n) ((i + 1) * n) xs) [0..<k]) = take (k * n) xs"
proof (induction k)
  case 0
  then show ?case by simp
next
  case (Suc k)
  have "take (k * n) xs @ slice (k * n) ((k + 1) * n) xs = take (Suc k * n) xs"
    using slice_join [of 0 "k * n" "(k + 1) * n" xs] by (simp add: slice_def)
  with Suc.IH show ?case by simp
qed

lemma slice_concat_nth:
  assumes "\<And>j. j < i \<Longrightarrow> length (ps ! j) = n" and "i < length ps"
    and "Suc i < length ps \<Longrightarrow> length (ps ! i) = n" and "length (ps ! i) \<le> n"
  shows "slice (i * n) ((i + 1) * n) (concat ps) = ps ! i"
  using assms
proof (induction ps arbitrary: i)
  case Nil
  then show ?case by simp
next
  case (Cons p ps)
  show ?case
  proof (cases i)
    case 0
    show ?thesis
    proof (cases "ps = []")
      case True
      with 0 Cons.prems(4) show ?thesis by simp
    next
      case False
      with 0 Cons.prems(3) have "length p = n" by (cases ps) auto
      with 0 show ?thesis by (simp add: slice_append)
    qed
  next
    case (Suc k)
    have p: "length p = n" using Cons.prems(1) [of 0] Suc by simp
    have "slice (k * n) ((k + 1) * n) (concat ps) = ps ! k"
    proof (rule Cons.IH)
      show "length (ps ! j) = n" if "j < k" for j using Cons.prems(1) [of "Suc j"] that Suc by simp
    qed (use Cons.prems Suc in simp_all)
    then show ?thesis using p Suc by (simp add: slice_append)
  qed
qed

section \<open>Feeding records to a stateful consumer\<close>

fun feed_all :: "('s \<Rightarrow> 'r \<Rightarrow> 'o \<times> 's) \<Rightarrow> 's \<Rightarrow> 'r list \<Rightarrow> 'o list \<times> 's" where
  "feed_all f s [] = ([], s)"
| "feed_all f s (r # rs) =
     (let (out, s1) = f s r; (outs, s2) = feed_all f s1 rs in (out # outs, s2))"

lemma feed_all_append:
  "feed_all f s (xs @ ys) =
     (let (o1, s1) = feed_all f s xs; (o2, s2) = feed_all f s1 ys in (o1 @ o2, s2))"
  by (induction xs arbitrary: s) (auto simp: Let_def split: prod.splits)

lemma length_feed_all: "length (fst (feed_all f s rs)) = length rs"
  by (induction rs arbitrary: s) (simp_all add: Let_def case_prod_beta)

text \<open>The values a consumer has delivered, in order.\<close>

fun delivered :: "('e + 'v option) list \<Rightarrow> 'v list" where
  "delivered [] = []"
| "delivered (Inr (Some v) # os) = v # delivered os"
| "delivered (Inr None # os) = delivered os"
| "delivered (Inl e # os) = delivered os"

lemma delivered_append [simp]: "delivered (xs @ ys) = delivered xs @ delivered ys"
  by (induction xs rule: delivered.induct) auto

lemma delivered_pending [simp]: "delivered (replicate n (Inr None)) = []"
  by (induction n) auto

text \<open>
  The contract between a splitter and its consumer: an idle consumer that is fed the
  records of one admissible message stays silent until the last record, delivers the
  message there, and is idle again. The client's theorem is that whole streams of
  messages come out unchanged, in order, with no error in between.
\<close>

locale record_stream =
  fixes split :: "'m \<Rightarrow> 'r list"
    and feed :: "'s \<Rightarrow> 'r \<Rightarrow> ('e + 'v option) \<times> 's"
    and idle :: "'s \<Rightarrow> bool"
    and ok :: "'m \<Rightarrow> bool"
    and out :: "'m \<Rightarrow> 'v"
  assumes deliver: "idle s \<Longrightarrow> ok m \<Longrightarrow>
    \<exists>s'. idle s' \<and> feed_all feed s (split m) =
      (replicate (length (split m) - 1) (Inr None) @ [Inr (Some (out m))], s')"
begin

lemma deliver_stream:
  assumes "idle s" and "\<forall>m \<in> set ms. ok m"
  shows "\<exists>s' os. idle s' \<and> feed_all feed s (concat (map split ms)) = (os, s')
    \<and> delivered os = map out ms \<and> Inl e \<notin> set os"
  using assms
proof (induction ms arbitrary: s)
  case Nil
  then show ?case by auto
next
  case (Cons m ms)
  then obtain s1 where s1: "idle s1"
    "feed_all feed s (split m) =
       (replicate (length (split m) - 1) (Inr None) @ [Inr (Some (out m))], s1)"
    using deliver [of s m] by auto
  from Cons.IH [OF s1(1)] Cons.prems obtain s2 os where s2: "idle s2"
    "feed_all feed s1 (concat (map split ms)) = (os, s2)"
    "delivered os = map out ms" "Inl e \<notin> set os"
    by auto
  then show ?case using s1 by (auto simp: feed_all_append)
qed

end

section \<open>One direction of a queue between two parties\<close>

text \<open>
  A port is written by one party and read by another while unrelated events change the
  same state. \<open>port_run\<close> collects what was accepted and what was handed out, in order.
\<close>

datatype ('x, 'o) port_event = PPut 'x | PGet | POther 'o

fun port_run ::
  "('s \<Rightarrow> 'x \<Rightarrow> ('e + unit) \<times> 's) \<Rightarrow> ('s \<Rightarrow> 'a option \<times> 's) \<Rightarrow> ('o \<Rightarrow> 's \<Rightarrow> 's) \<Rightarrow> ('x \<Rightarrow> 'a)
     \<Rightarrow> 's \<Rightarrow> ('x, 'o) port_event list \<Rightarrow> 'a list \<times> 'a list \<times> 's" where
  "port_run put get other img s [] = ([], [], s)"
| "port_run put get other img s (PPut x # es) =
     (case put s x of (r, s1) \<Rightarrow>
      case port_run put get other img s1 es of (acc, got, s2) \<Rightarrow>
        (if is_ok r then img x # acc else acc, got, s2))"
| "port_run put get other img s (PGet # es) =
     (case get s of (r, s1) \<Rightarrow>
      case port_run put get other img s1 es of (acc, got, s2) \<Rightarrow>
        (acc, case r of None \<Rightarrow> got | Some a \<Rightarrow> a # got, s2))"
| "port_run put get other img s (POther e # es) = port_run put get other img (other e s) es"

locale fifo_port =
  fixes put :: "'s \<Rightarrow> 'x \<Rightarrow> ('e + unit) \<times> 's"
    and get :: "'s \<Rightarrow> 'a option \<times> 's"
    and other :: "'o \<Rightarrow> 's \<Rightarrow> 's"
    and img :: "'x \<Rightarrow> 'a"
    and content :: "'s \<Rightarrow> 'a list"
    and dead :: "'s \<Rightarrow> bool"
    and inv :: "'s \<Rightarrow> bool"
  assumes put_ok: "inv s \<Longrightarrow> put s x = (Inr (), s') \<Longrightarrow>
      inv s' \<and> content s' = content s @ [img x] \<and> \<not> dead s \<and> \<not> dead s'"
    and put_err: "inv s \<Longrightarrow> put s x = (Inl e, s') \<Longrightarrow>
      inv s' \<and> (dead s' \<or> content s' = content s \<and> dead s' = dead s)"
    and get_some: "inv s \<Longrightarrow> get s = (Some a, s') \<Longrightarrow>
      inv s' \<and> content s = a # content s' \<and> dead s' = dead s"
    and get_none: "inv s \<Longrightarrow> get s = (None, s') \<Longrightarrow>
      inv s' \<and> content s' = content s \<and> dead s' = dead s"
    and other_keeps: "inv s \<Longrightarrow> inv (other ev s) \<and>
      (dead (other ev s) \<or> content (other ev s) = content s \<and> dead (other ev s) = dead s)"
    and dead_empty: "inv s \<Longrightarrow> dead s \<Longrightarrow> content s = []"
begin

lemma dead_run:
  assumes "port_run put get other img s es = (acc, got, s')" and "inv s" and "dead s"
  shows "acc = [] \<and> got = [] \<and> dead s' \<and> inv s' \<and> content s' = []"
  using assms
proof (induction es arbitrary: s acc got)
  case Nil
  then show ?case using dead_empty by simp
next
  case (Cons ev es)
  show ?case
  proof (cases ev)
    case (PPut x)
    obtain r s1 where p: "put s x = (r, s1)" by (cases "put s x")
    have "\<not> is_ok r" using put_ok [of s x s1] p Cons.prems(2,3) by (cases r) auto
    moreover from this have "inv s1 \<and> dead s1" using put_err [of s x _ s1] p Cons.prems(2,3) by (cases r) auto
    ultimately show ?thesis using Cons.IH [of s1] Cons.prems(1) PPut p by (auto split: prod.splits)
  next
    case PGet
    obtain r s1 where p: "get s = (r, s1)" by (cases "get s")
    have "r = None" using get_some [of s _ s1] p dead_empty [OF Cons.prems(2,3)] Cons.prems(2)
      by (cases r) auto
    moreover from this have "inv s1 \<and> dead s1" using get_none [of s s1] p Cons.prems(2,3) by auto
    ultimately show ?thesis using Cons.IH [of s1] Cons.prems(1) PGet p by (auto split: prod.splits)
  next
    case (POther e)
    have "inv (other e s) \<and> dead (other e s)" using other_keeps [OF Cons.prems(2), of e] Cons.prems(3) by auto
    then show ?thesis using Cons.IH [of "other e s"] Cons.prems(1) POther by simp
  qed
qed

lemma fifo_from:
  assumes "port_run put get other img s es = (acc, got, s')" and "inv s"
  shows "\<exists>lost. content s @ acc = got @ content s' @ lost \<and> (\<not> dead s' \<longrightarrow> lost = [])"
  using assms
proof (induction es arbitrary: s acc got)
  case Nil
  then show ?case by simp
next
  case (Cons ev es)
  show ?case
  proof (cases "dead s")
    case True
    with dead_run [OF Cons.prems] dead_empty [OF Cons.prems(2)] show ?thesis by simp
  next
    case alive: False
    show ?thesis
    proof (cases ev)
      case (PPut x)
      obtain r s1 where p: "put s x = (r, s1)" by (cases "put s x")
      obtain acc1 got1 where run: "port_run put get other img s1 es = (acc1, got1, s')"
        and eqs: "acc = (if is_ok r then img x # acc1 else acc1)" "got = got1"
        using Cons.prems(1) PPut p by (auto split: prod.splits)
      show ?thesis
      proof (cases r)
        case (Inl e)
        from put_err [OF Cons.prems(2), of x e s1] p Inl
        have s1: "inv s1" "dead s1 \<or> content s1 = content s" by auto
        show ?thesis
        proof (cases "dead s1")
          case True
          with dead_run [OF run s1(1)] eqs Inl show ?thesis by auto
        next
          case False
          with Cons.IH [OF run s1(1)] s1(2) eqs Inl show ?thesis by auto
        qed
      next
        case (Inr u)
        from put_ok [OF Cons.prems(2), of x s1] p Inr
        have "inv s1" "content s1 = content s @ [img x]" by auto
        with Cons.IH [OF run] eqs Inr show ?thesis by auto
      qed
    next
      case PGet
      obtain r s1 where p: "get s = (r, s1)" by (cases "get s")
      obtain got1 where run: "port_run put get other img s1 es = (acc, got1, s')"
        and eqs: "got = (case r of None \<Rightarrow> got1 | Some a \<Rightarrow> a # got1)"
        using Cons.prems(1) PGet p by (auto split: prod.splits)
      show ?thesis
        using get_some [OF Cons.prems(2), of _ s1] get_none [OF Cons.prems(2), of s1] p Cons.IH [OF run] eqs
        by (cases r) auto
    next
      case (POther e)
      then have run: "port_run put get other img (other e s) es = (acc, got, s')" using Cons.prems(1) by simp
      note o = other_keeps [OF Cons.prems(2), of e]
      show ?thesis
      proof (cases "dead (other e s)")
        case True
        with dead_run [OF run] o show ?thesis by auto
      next
        case False
        with Cons.IH [OF run] o show ?thesis by auto
      qed
    qed
  qed
qed

text \<open>From an empty queue: what was handed out is a prefix of what was accepted.\<close>

lemma fifo:
  assumes "port_run put get other img s es = (acc, got, s')" and "inv s" and "content s = []"
  shows "(\<exists>rest. acc = got @ rest) \<and> (\<not> dead s' \<longrightarrow> acc = got @ content s')"
  using fifo_from [OF assms(1,2)] assms(3) by auto

end

section \<open>Insertion-ordered dictionaries\<close>

text \<open>
  A Python \<open>dict\<close> or \<open>OrderedDict\<close> is an association list with distinct keys:
  \<open>map_of\<close> reads it, \<open>AList.update\<close> overwrites in place or appends, \<open>AList.delete\<close>
  removes, \<open>od_move_to_end\<close> is \<open>move_to_end\<close> and \<open>od_trim\<close> is the loop
  \<open>while len(d) > n: d.popitem(last=False)\<close>.
\<close>

type_synonym ('k, 'v) odict = "('k \<times> 'v) list"

abbreviation od_wf :: "('k, 'v) odict \<Rightarrow> bool" where
  "od_wf d \<equiv> distinct (map fst d)"

definition od_move_to_end :: "'k \<Rightarrow> ('k, 'v) odict \<Rightarrow> ('k, 'v) odict" where
  "od_move_to_end k d =
     (case map_of d k of None \<Rightarrow> d | Some v \<Rightarrow> AList.delete k d @ [(k, v)])"

definition od_trim :: "nat \<Rightarrow> ('k, 'v) odict \<Rightarrow> ('k, 'v) odict" where
  "od_trim n d = drop (length d - n) d"

definition last_n :: "nat \<Rightarrow> 'a list \<Rightarrow> 'a list" where
  \<comment> \<open>\<open>xs[-n:]\<close> for a positive \<open>n\<close>\<close>
  "last_n n xs = drop (length xs - n) xs"

lemma length_od_trim [simp]: "length (od_trim n d) = min n (length d)"
  by (simp add: od_trim_def)

lemma length_last_n [simp]: "length (last_n n xs) = min n (length xs)"
  by (simp add: last_n_def)

lemma set_last_n_subset: "set (last_n n xs) \<subseteq> set xs"
  by (auto simp: last_n_def dest: in_set_dropD)

lemma od_wf_trim: "od_wf d \<Longrightarrow> od_wf (od_trim n d)"
  by (simp add: od_trim_def drop_map [symmetric])

lemma od_wf_update: "od_wf d \<Longrightarrow> od_wf (AList.update k v d)"
  by (rule distinct_update)

lemma od_wf_delete: "od_wf d \<Longrightarrow> od_wf (AList.delete k d)"
  by (rule distinct_delete)

lemma length_update_le: "length (AList.update k v d) \<le> Suc (length d)"
  by (induction d) (auto)

lemma length_update_new: "map_of d k = None \<Longrightarrow> length (AList.update k v d) = Suc (length d)"
  by (induction d) (auto split: if_splits)

lemma length_update_old: "map_of d k = Some w \<Longrightarrow> length (AList.update k v d) = length d"
  by (induction d) (auto split: if_splits)

lemma length_delete_le: "length (AList.delete k d) \<le> length d"
  by (simp add: AList.delete_eq)

lemma set_delete_subset: "set (AList.delete k d) \<subseteq> set d"
  by (auto simp: AList.delete_eq)

lemma set_update_subset: "set (AList.update k v d) \<subseteq> insert (k, v) (set d)"
  by (induction d) auto

lemma set_move_to_end: "set (od_move_to_end k d) \<subseteq> set d"
  using set_delete_subset [of k d] by (auto simp: od_move_to_end_def dest: map_of_SomeD split: option.splits)

lemma set_od_trim: "set (od_trim n d) \<subseteq> set d"
  by (auto simp: od_trim_def dest: in_set_dropD)

lemma od_wf_map_of_eq: "od_wf d \<Longrightarrow> (k, v) \<in> set d \<longleftrightarrow> map_of d k = Some v"
  by (auto dest: map_of_SomeD)

section \<open>Components that keep an invariant\<close>

text \<open>
  The contract shared by every stateful component: an initial condition, one function
  that performs an event, and an invariant that the initial states satisfy and every
  event keeps. A run is the fold of the events in the order in which they happen.
\<close>

locale invariant_component =
  fixes init :: "'s \<Rightarrow> bool"
    and step :: "'e \<Rightarrow> 's \<Rightarrow> 's"
    and inv :: "'s \<Rightarrow> bool"
  assumes inv_init: "init s \<Longrightarrow> inv s"
    and inv_step: "inv s \<Longrightarrow> inv (step e s)"
begin

lemma inv_run: "inv s \<Longrightarrow> inv (fold step es s)"
  by (induction es arbitrary: s) (auto intro: inv_step)

lemma inv_reachable: "init s \<Longrightarrow> inv (fold step es s)"
  by (rule inv_run) (rule inv_init)

lemma inv_prefix: "init s \<Longrightarrow> es = us @ vs \<Longrightarrow> inv (fold step us s) \<and> inv (fold step es s)"
  using inv_reachable [of s us] inv_reachable [of s es] by simp

end

text \<open>
  The same contract when only some events are admissible: a run of admissible events keeps
  the invariant. A component that keeps its invariant under every event is the special case.
\<close>

locale guarded_component =
  fixes ginit :: "'s \<Rightarrow> bool"
    and gstep :: "'e \<Rightarrow> 's \<Rightarrow> 's"
    and gok :: "'e \<Rightarrow> bool"
    and ginv :: "'s \<Rightarrow> bool"
  assumes ginv_init: "ginit s \<Longrightarrow> ginv s"
    and ginv_step: "ginv s \<Longrightarrow> gok e \<Longrightarrow> ginv (gstep e s)"
begin

lemma ginv_run: "ginv s \<Longrightarrow> \<forall>e \<in> set es. gok e \<Longrightarrow> ginv (fold gstep es s)"
  by (induction es arbitrary: s) (auto intro: ginv_step)

lemma ginv_reachable: "ginit s \<Longrightarrow> \<forall>e \<in> set es. gok e \<Longrightarrow> ginv (fold gstep es s)"
  by (rule ginv_run) (rule ginv_init)

end

sublocale invariant_component \<subseteq> guarded: guarded_component init step "\<lambda>_. True" inv
  by unfold_locales (auto intro: inv_init inv_step)

named_theorems step_defs \<open>definitions of the operations of the component under proof\<close>

end
