(* ===== verification/Framing.thy ===== *)
theory Framing
  imports Prelude
begin

text \<open>
  The plaintext record layer of \<^verbatim>\<open>framing.py\<close>: constants, the 50-byte header, record and
  message encoding, strict decoding, and the one-message \<open>Reassembler\<close>. Python's type
  checks on arguments are discharged by HOL's types; every value check is a branch.
\<close>

section \<open>Constants and errors\<close>

definition MAGIC :: bytes where "MAGIC = [0x4D, 0x52]"
definition PROTOCOL_VERSION :: int where "PROTOCOL_VERSION = 1"
definition KIND_HERMES_BYTES :: int where "KIND_HERMES_BYTES = 1"
definition FLAGS_NONE :: int where "FLAGS_NONE = 0"
definition RESERVED_NONE :: int where "RESERVED_NONE = 0"
definition CHANNEL_ID_SIZE :: nat where "CHANNEL_ID_SIZE = 16"
definition MESSAGE_ID_SIZE :: nat where "MESSAGE_ID_SIZE = 16"
definition MAX_NOISE_PLAINTEXT_BYTES :: int where "MAX_NOISE_PLAINTEXT_BYTES = 65519"
definition MAX_LOGICAL_MESSAGE_BYTES :: int where "MAX_LOGICAL_MESSAGE_BYTES = 16 * 2 ^ 20"
definition FRAME_HEADER_SIZE :: nat where
  \<comment> \<open>\<open>struct.Struct("!2sBBBBHHII16s16s").size\<close>\<close>
  "FRAME_HEADER_SIZE = 2 + 1 + 1 + 1 + 1 + 2 + 2 + 4 + 4 + 16 + 16"
definition MAX_PAYLOAD_BYTES :: int where
  "MAX_PAYLOAD_BYTES = MAX_NOISE_PLAINTEXT_BYTES - int FRAME_HEADER_SIZE"

text \<open>
  \<open>math.ceil(a / b)\<close>. The source divides floats; for \<open>0 \<le> a \<le> 2\<^sup>2\<^sup>4\<close> and
  \<open>b = 65469\<close> the quotient differs from the nearest integer by at least \<open>1/b\<close> or not at
  all, far above the rounding error of a double, so the exact ceiling is its value.
\<close>

definition ceil_div :: "int \<Rightarrow> int \<Rightarrow> int" where
  "ceil_div a b = - ((- a) div b)"

definition MAX_FRAGMENT_COUNT :: int where
  "MAX_FRAGMENT_COUNT = ceil_div MAX_LOGICAL_MESSAGE_BYTES MAX_PAYLOAD_BYTES"

datatype framing_error =
    FValueError string
  | DecodeError string
  | ReassemblyError string

record frame =
  fr_channel_id :: bytes
  fr_message_id :: bytes
  fr_kind :: int
  fr_flags :: int
  fr_fragment_index :: int
  fr_fragment_count :: int
  fr_logical_length :: int
  fr_payload :: bytes

section \<open>Encoding\<close>

definition view_sized :: "bytes \<Rightarrow> nat \<Rightarrow> framing_error + bytes" where
  "view_sized v n = (if length v \<noteq> n then Inl (FValueError ''exact size'') else Inr v)"

definition validate_kind_flags :: "int \<Rightarrow> int \<Rightarrow> framing_error + unit" where
  "validate_kind_flags kind flags =
     (if kind \<noteq> KIND_HERMES_BYTES then Inl (FValueError ''unknown kind'')
      else if flags \<noteq> FLAGS_NONE then Inl (FValueError ''unknown flags'')
      else Inr ())"

definition fragment_count_of :: "int \<Rightarrow> framing_error + int" where
  "fragment_count_of logical_length =
     (if logical_length < 0 \<or> logical_length > MAX_LOGICAL_MESSAGE_BYTES
      then Inl (FValueError ''logical length exceeds v1 limit'')
      else Inr (max 1 (ceil_div logical_length MAX_PAYLOAD_BYTES)))"

definition payload_length_of :: "int \<Rightarrow> int \<Rightarrow> framing_error + int" where
  "payload_length_of logical_length fragment_index =
     (case fragment_count_of logical_length of
        Inl e \<Rightarrow> Inl e
      | Inr count \<Rightarrow>
          if \<not> (0 \<le> fragment_index \<and> fragment_index < count)
          then Inl (FValueError ''fragment index is outside the fragment count'')
          else let start = fragment_index * MAX_PAYLOAD_BYTES
               in Inr (min MAX_PAYLOAD_BYTES (logical_length - start)))"

definition pack_header ::
  "int \<Rightarrow> int \<Rightarrow> int \<Rightarrow> int \<Rightarrow> int \<Rightarrow> int \<Rightarrow> bytes \<Rightarrow> bytes \<Rightarrow> bytes" where
  "pack_header kind flags fragment_index fragment_count logical_length payload_length channel message =
     MAGIC @ be_enc 1 (nat PROTOCOL_VERSION) @ be_enc 1 (nat kind) @ be_enc 1 (nat flags)
       @ be_enc 1 (nat RESERVED_NONE) @ be_enc 2 (nat fragment_index)
       @ be_enc 2 (nat fragment_count) @ be_enc 4 (nat logical_length)
       @ be_enc 4 (nat payload_length) @ channel @ message"

definition record_of ::
  "bytes \<Rightarrow> bytes \<Rightarrow> bytes \<Rightarrow> int \<Rightarrow> int \<Rightarrow> int \<Rightarrow> int \<Rightarrow> int \<Rightarrow> framing_error + bytes" where
  "record_of channel_id message_id payload fragment_index fragment_count logical_length kind flags =
     (case payload_length_of logical_length fragment_index of
        Inl e \<Rightarrow> Inl e
      | Inr expected_payload_length \<Rightarrow>
          (case fragment_count_of logical_length of
             Inl e \<Rightarrow> Inl e
           | Inr expected_count \<Rightarrow>
               if fragment_count \<noteq> expected_count
               then Inl (FValueError ''fragment count is not canonical'')
               else if int (length payload) \<noteq> expected_payload_length
               then Inl (FValueError ''payload length is not canonical'')
               else Inr (pack_header kind flags fragment_index fragment_count logical_length
                           (int (length payload)) channel_id message_id @ payload)))"

definition encode_record ::
  "bytes \<Rightarrow> bytes \<Rightarrow> bytes \<Rightarrow> int \<Rightarrow> int \<Rightarrow> int \<Rightarrow> int \<Rightarrow> int \<Rightarrow> framing_error + bytes" where
  "encode_record channel_id message_id payload fragment_index fragment_count logical_length kind flags =
     res_bind (view_sized channel_id CHANNEL_ID_SIZE) (\<lambda>channel.
     res_bind (view_sized message_id MESSAGE_ID_SIZE) (\<lambda>message.
     res_bind (validate_kind_flags kind flags) (\<lambda>_.
       if \<not> (0 \<le> fragment_index \<and> fragment_index < 2 ^ 16)
       then Inl (FValueError ''fragment_index is outside the unsigned 16-bit range'')
       else if \<not> (0 \<le> fragment_count \<and> fragment_count < 2 ^ 16)
       then Inl (FValueError ''fragment_count is outside the unsigned 16-bit range'')
       else if \<not> (0 \<le> logical_length \<and> logical_length \<le> MAX_LOGICAL_MESSAGE_BYTES)
       then Inl (FValueError ''logical length exceeds v1 limit'')
       else if int (length payload) > MAX_PAYLOAD_BYTES
       then Inl (FValueError ''payload exceeds one Noise plaintext record'')
       else record_of channel message payload fragment_index fragment_count logical_length kind flags)))"

definition encode_message ::
  "bytes \<Rightarrow> bytes \<Rightarrow> bytes \<Rightarrow> int \<Rightarrow> int \<Rightarrow> framing_error + bytes list" where
  "encode_message channel_id message_id payload kind flags =
     res_bind (view_sized channel_id CHANNEL_ID_SIZE) (\<lambda>channel.
     res_bind (view_sized message_id MESSAGE_ID_SIZE) (\<lambda>message.
     res_bind (validate_kind_flags kind flags) (\<lambda>_.
       let logical_length = int (length payload) in
       if logical_length > MAX_LOGICAL_MESSAGE_BYTES
       then Inl (FValueError ''logical length exceeds v1 limit'')
       else res_bind (fragment_count_of logical_length) (\<lambda>count.
         res_mapM (\<lambda>index.
             record_of channel message
               (slice (index * nat MAX_PAYLOAD_BYTES) ((index + 1) * nat MAX_PAYLOAD_BYTES) payload)
               (int index) count logical_length kind flags)
           [0..<nat count]))))"

section \<open>Decoding\<close>

definition record_view :: "bytes \<Rightarrow> framing_error + bytes" where
  "record_view r =
     (if length r < FRAME_HEADER_SIZE then Inl (DecodeError ''truncated record header'')
      else if int (length r) > MAX_NOISE_PLAINTEXT_BYTES
      then Inl (DecodeError ''record exceeds Noise plaintext limit'')
      else Inr r)"

definition decode_record :: "bytes \<Rightarrow> framing_error + frame" where
  "decode_record r =
     res_bind (record_view r) (\<lambda>view.
       let magic = slice 0 2 view;
           version = int (be_dec (slice 2 3 view));
           kind = int (be_dec (slice 3 4 view));
           flags = int (be_dec (slice 4 5 view));
           reserved = int (be_dec (slice 5 6 view));
           fragment_index = int (be_dec (slice 6 8 view));
           fragment_count = int (be_dec (slice 8 10 view));
           logical_length = int (be_dec (slice 10 14 view));
           payload_length = int (be_dec (slice 14 18 view));
           channel_id = slice 18 34 view;
           message_id = slice 34 50 view
       in
       if magic \<noteq> MAGIC then Inl (DecodeError ''invalid magic'')
       else if version \<noteq> PROTOCOL_VERSION then Inl (DecodeError ''unknown version'')
       else if kind \<noteq> KIND_HERMES_BYTES then Inl (DecodeError ''unknown kind'')
       else if flags \<noteq> FLAGS_NONE then Inl (DecodeError ''unknown flags'')
       else if reserved \<noteq> RESERVED_NONE then Inl (DecodeError ''reserved value is nonzero'')
       else if fragment_count = 0 \<or> fragment_count > MAX_FRAGMENT_COUNT
       then Inl (DecodeError ''fragment count is outside the v1 range'')
       else if logical_length > MAX_LOGICAL_MESSAGE_BYTES
       then Inl (DecodeError ''logical length exceeds v1 limit'')
       else (case (fragment_count_of logical_length, payload_length_of logical_length fragment_index) of
           (Inr expected_count, Inr expected_payload_length) \<Rightarrow>
             if fragment_count \<noteq> expected_count
             then Inl (DecodeError ''fragment count is not canonical'')
             else if payload_length \<noteq> expected_payload_length
             then Inl (DecodeError ''payload length is not canonical'')
             else if int (length view) \<noteq> int FRAME_HEADER_SIZE + payload_length
             then Inl (DecodeError ''record length does not match payload length'')
             else Inr \<lparr>fr_channel_id = channel_id, fr_message_id = message_id, fr_kind = kind,
                       fr_flags = flags, fr_fragment_index = fragment_index,
                       fr_fragment_count = fragment_count, fr_logical_length = logical_length,
                       fr_payload = drop FRAME_HEADER_SIZE view\<rparr>
         | _ \<Rightarrow> Inl (DecodeError ''fragment index or length is not canonical'')))"

section \<open>Reassembler\<close>

record reassembler =
  ra_channel_id :: "bytes option"
  ra_expected_kind :: int
  ra_expected_flags :: int
  ra_active_channel_id :: "bytes option"
  ra_message_id :: "bytes option"
  ra_fragment_count :: int
  ra_logical_length :: int
  ra_next_index :: int
  ra_received_length :: int
  ra_parts :: "bytes list"

definition ra_reset :: "reassembler \<Rightarrow> reassembler" where
  "ra_reset s = s\<lparr>ra_active_channel_id := None, ra_message_id := None, ra_fragment_count := 0,
     ra_logical_length := 0, ra_next_index := 0, ra_received_length := 0, ra_parts := []\<rparr>"

definition new_reassembler :: "bytes option \<Rightarrow> int \<Rightarrow> int \<Rightarrow> framing_error + reassembler" where
  "new_reassembler channel_id kind flags =
     res_bind (case channel_id of None \<Rightarrow> Inr None
               | Some c \<Rightarrow> res_bind (view_sized c CHANNEL_ID_SIZE) (\<lambda>v. Inr (Some v))) (\<lambda>channel.
     res_bind (validate_kind_flags kind flags) (\<lambda>_.
       Inr \<lparr>ra_channel_id = channel, ra_expected_kind = kind, ra_expected_flags = flags,
            ra_active_channel_id = None, ra_message_id = None, ra_fragment_count = 0,
            ra_logical_length = 0, ra_next_index = 0, ra_received_length = 0, ra_parts = []\<rparr>))"

definition ra_in_progress :: "reassembler \<Rightarrow> bool" where
  "ra_in_progress s \<longleftrightarrow> ra_message_id s \<noteq> None"

text \<open>
  The body of \<open>push\<close> up to the first raise: the checks on one decoded frame, the adoption
  of a fresh message, and the append. \<open>push\<close> itself resets the state on every rejection,
  and after a complete message.
\<close>

definition ra_accept :: "reassembler \<Rightarrow> frame \<Rightarrow> framing_error + reassembler" where
  "ra_accept s f =
     (if fr_kind f \<noteq> ra_expected_kind s \<or> fr_flags f \<noteq> ra_expected_flags s
      then Inl (ReassemblyError ''metadata kind or flags mismatch'')
      else if ra_channel_id s \<noteq> None \<and> Some (fr_channel_id f) \<noteq> ra_channel_id s
      then Inl (ReassemblyError ''metadata channel mismatch'')
      else if ra_message_id s = None
      then (if fr_fragment_index f \<noteq> 0
            then Inl (ReassemblyError ''order requires fragment zero first'')
            else Inr (s\<lparr>ra_active_channel_id := Some (fr_channel_id f),
                        ra_message_id := Some (fr_message_id f),
                        ra_fragment_count := fr_fragment_count f,
                        ra_logical_length := fr_logical_length f\<rparr>))
      else if Some (fr_channel_id f) \<noteq> ra_active_channel_id s
              \<or> Some (fr_message_id f) \<noteq> ra_message_id s
              \<or> fr_fragment_count f \<noteq> ra_fragment_count s
              \<or> fr_logical_length f \<noteq> ra_logical_length s
      then Inl (ReassemblyError ''metadata channel, message, or length mismatch'')
      else Inr s)"

definition ra_append :: "reassembler \<Rightarrow> frame \<Rightarrow> framing_error + reassembler" where
  "ra_append s f =
     (if fr_fragment_index f \<noteq> ra_next_index s
      then Inl (ReassemblyError ''order is not contiguous'')
      else if ra_received_length s + int (length (fr_payload f)) > ra_logical_length s
      then Inl (ReassemblyError ''received length exceeds logical length'')
      else Inr (s\<lparr>ra_parts := ra_parts s @ [fr_payload f],
                  ra_received_length := ra_received_length s + int (length (fr_payload f)),
                  ra_next_index := ra_next_index s + 1\<rparr>))"

definition ra_finish :: "reassembler \<Rightarrow> framing_error + bytes option" where
  "ra_finish s =
     (if ra_next_index s \<noteq> ra_fragment_count s then Inr None
      else if ra_received_length s \<noteq> ra_logical_length s
      then Inl (ReassemblyError ''received length is incomplete'')
      else Inr (Some (concat (ra_parts s))))"

definition push :: "reassembler \<Rightarrow> bytes \<Rightarrow> (framing_error + bytes option) \<times> reassembler" where
  "push s record =
     (case res_bind (decode_record record) (\<lambda>f. res_bind (ra_accept s f) (\<lambda>s1. ra_append s1 f)) of
        Inl e \<Rightarrow> (Inl e, ra_reset s)
      | Inr s2 \<Rightarrow>
          (case ra_finish s2 of
             Inl e \<Rightarrow> (Inl e, ra_reset s2)
           | Inr None \<Rightarrow> (Inr None, s2)
           | Inr (Some message) \<Rightarrow> (Inr (Some message), ra_reset s2)))"

section \<open>Arithmetic of the canonical fragmentation\<close>

lemma frame_constants [simp]:
  "FRAME_HEADER_SIZE = 50" "CHANNEL_ID_SIZE = 16" "MESSAGE_ID_SIZE = 16"
  "MAX_PAYLOAD_BYTES = 65469" "MAX_NOISE_PLAINTEXT_BYTES = 65519"
  "MAX_LOGICAL_MESSAGE_BYTES = 16777216" "MAX_FRAGMENT_COUNT = 257"
  "KIND_HERMES_BYTES = 1" "FLAGS_NONE = 0" "PROTOCOL_VERSION = 1" "RESERVED_NONE = 0"
  by (simp_all add: FRAME_HEADER_SIZE_def CHANNEL_ID_SIZE_def MESSAGE_ID_SIZE_def
      MAX_PAYLOAD_BYTES_def MAX_NOISE_PLAINTEXT_BYTES_def MAX_LOGICAL_MESSAGE_BYTES_def
      MAX_FRAGMENT_COUNT_def ceil_div_def KIND_HERMES_BYTES_def FLAGS_NONE_def
      PROTOCOL_VERSION_def RESERVED_NONE_def)

lemma length_MAGIC [simp]: "length MAGIC = 2"
  by (simp add: MAGIC_def)

lemma ceil_div_bounds:
  assumes "0 < b"
  shows "(ceil_div a b - 1) * b < a" and "a \<le> ceil_div a b * b"
proof -
  define q where "q = (- a) div b"
  define m where "m = (- a) mod b"
  have "- a = q * b + m" unfolding q_def m_def by simp
  moreover have "0 \<le> m" "m < b" unfolding m_def using assms by simp_all
  moreover have "ceil_div a b = - q" by (simp add: ceil_div_def q_def)
  ultimately show "(ceil_div a b - 1) * b < a" "a \<le> ceil_div a b * b"
    by (simp_all add: algebra_simps)
qed

lemma fragment_count_of_Inr:
  assumes "fragment_count_of l = Inr c"
  shows "0 \<le> l" "l \<le> 16777216" "1 \<le> c" "c \<le> 257" "(c - 1) * 65469 \<le> l" "l \<le> c * 65469"
proof -
  from assms show l: "0 \<le> l" "l \<le> 16777216"
    by (auto simp: fragment_count_of_def split: if_splits)
  from assms have c: "c = max 1 (ceil_div l 65469)"
    by (auto simp: fragment_count_of_def split: if_splits)
  show "1 \<le> c" using c by simp
  have b: "(ceil_div l 65469 - 1) * 65469 < l" "l \<le> ceil_div l 65469 * 65469"
    by (rule ceil_div_bounds; simp)+
  show "c \<le> 257" using b l c by (auto simp: max_def)
  show "(c - 1) * 65469 \<le> l" using b l c by (cases "1 \<le> ceil_div l 65469") (auto simp: max_def)
  show "l \<le> c * 65469" using b c by (auto simp: max_def)
qed

lemma fragment_count_of_ok:
  "0 \<le> l \<Longrightarrow> l \<le> 16777216 \<Longrightarrow> \<exists>c. fragment_count_of l = Inr c"
  by (auto simp: fragment_count_of_def)

lemma payload_length_of_Inr_iff:
  "payload_length_of l i = Inr n \<longleftrightarrow>
     (\<exists>c. fragment_count_of l = Inr c \<and> 0 \<le> i \<and> i < c \<and> n = min 65469 (l - i * 65469))"
  by (auto simp: payload_length_of_def Let_def split: sum.splits)

lemma fragment_payload_bounds:
  assumes "fragment_count_of l = Inr c" and "0 \<le> i" and "i < c"
  shows "0 \<le> min 65469 (l - i * 65469)"
proof -
  have "i * 65469 \<le> (c - 1) * 65469"
    using assms(3) by simp
  with fragment_count_of_Inr(5) [OF assms(1)] show ?thesis by simp
qed

lemma record_of_Inr_iff:
  "record_of ch mid p i c l k fl = Inr r \<longleftrightarrow>
     fragment_count_of l = Inr c \<and> 0 \<le> i \<and> i < c \<and> int (length p) = min 65469 (l - i * 65469) \<and>
     r = pack_header k fl i c l (int (length p)) ch mid @ p"
  by (auto simp: record_of_def payload_length_of_Inr_iff payload_length_of_def Let_def
      split: sum.splits if_splits)

lemma length_pack_header:
  "length ch = 16 \<Longrightarrow> length mid = 16 \<Longrightarrow> length (pack_header k fl i c l n ch mid) = 50"
  by (simp add: pack_header_def)

section \<open>Records round-trip in both directions\<close>

definition header_fits :: "int \<Rightarrow> int \<Rightarrow> int \<Rightarrow> int \<Rightarrow> bool" where
  "header_fits i c l n \<longleftrightarrow>
     0 \<le> i \<and> i < 2 ^ 16 \<and> 0 \<le> c \<and> c < 2 ^ 16 \<and> 0 \<le> l \<and> l < 2 ^ 32 \<and> 0 \<le> n \<and> n < 2 ^ 32"

lemma slices_of_packed:
  fixes k fl i c l n :: int and p :: bytes
  assumes "length ch = 16" and "length mid = 16"
  defines "v \<equiv> pack_header k fl i c l n ch mid @ p"
  shows "slice 0 2 v = MAGIC" "slice 2 3 v = be_enc 1 (Suc 0)" "slice 3 4 v = be_enc 1 (nat k)"
    "slice 4 5 v = be_enc 1 (nat fl)" "slice 5 6 v = be_enc 1 0" "slice 6 8 v = be_enc 2 (nat i)"
    "slice 8 10 v = be_enc 2 (nat c)" "slice 10 14 v = be_enc 4 (nat l)"
    "slice 14 18 v = be_enc 4 (nat n)" "slice 18 34 v = ch" "slice 34 50 v = mid"
    "drop 50 v = p"
  unfolding v_def pack_header_def using assms(1,2) by (simp_all add: slice_append del: One_nat_def)

lemma be_dec_enc_int:
  "0 \<le> x \<Longrightarrow> x < 256 ^ m \<Longrightarrow> int (be_dec (be_enc m (nat x))) = x"
  by (simp add: be_dec_be_enc nat_less_iff)

lemma packed_fields:
  assumes "header_fits i c l n"
  shows "int (be_dec (be_enc 2 (nat i))) = i" "int (be_dec (be_enc 2 (nat c))) = c"
    "int (be_dec (be_enc 4 (nat l))) = l" "int (be_dec (be_enc 4 (nat n))) = n"
  by (rule be_dec_enc_int; use assms in \<open>simp add: header_fits_def\<close>)+

lemma be_dec_enc_1: "be_dec (be_enc 1 0) = 0" "be_dec (be_enc 1 (Suc 0)) = 1"
  by (simp_all add: be_dec_be_enc del: One_nat_def)

lemma canonical_header_fits:
  assumes "fragment_count_of l = Inr c" "0 \<le> i" "i < c" "n = min 65469 (l - i * 65469)"
  shows "header_fits i c l n"
  using fragment_count_of_Inr [OF assms(1)] fragment_payload_bounds [OF assms(1-3)] assms
  by (auto simp: header_fits_def)

lemma decode_packed:
  assumes "length ch = 16" "length mid = 16" and c: "fragment_count_of l = Inr c"
    and i: "0 \<le> i" "i < c" and p: "int (length p) = min 65469 (l - i * 65469)"
  shows "decode_record (pack_header 1 0 i c l (int (length p)) ch mid @ p) =
     Inr \<lparr>fr_channel_id = ch, fr_message_id = mid, fr_kind = 1, fr_flags = 0,
          fr_fragment_index = i, fr_fragment_count = c, fr_logical_length = l, fr_payload = p\<rparr>"
proof -
  have fits: "header_fits i c l (int (length p))"
    using canonical_header_fits [OF c i] p by simp
  have len: "int (length p) \<le> 65469" using p by simp
  have pl: "payload_length_of l i = Inr (int (length p))"
    using c i p by (simp add: payload_length_of_Inr_iff)
  have n: "be_dec (be_enc 4 (length p)) = length p"
    using len by (simp add: be_dec_be_enc)
  show ?thesis
    using len pl c n fragment_count_of_Inr [OF c]
    by (simp add: decode_record_def record_view_def length_pack_header assms(1,2)
        slices_of_packed [OF assms(1,2)] packed_fields [OF fits] be_dec_enc_1 Let_def
        del: One_nat_def)
qed

lemma split_header_50:
  assumes "50 \<le> length r"
  shows "r = slice 0 2 r @ slice 2 3 r @ slice 3 4 r @ slice 4 5 r @ slice 5 6 r @ slice 6 8 r
    @ slice 8 10 r @ slice 10 14 r @ slice 14 18 r @ slice 18 34 r @ slice 34 50 r @ drop 50 r"
    (is "r = ?rhs")
proof -
  have "slice 34 50 r @ drop 50 r = slice 34 (length r) r"
    using assms slice_join [of 34 50 "length r" r] by (simp add: slice_to_end)
  then have "?rhs = slice 0 (length r) r"
    using assms by (simp add: slice_join)
  then show ?thesis by simp
qed

lemma be_enc_slice:
  "j \<le> length r \<Longrightarrow> be_enc (j - i) (be_dec (slice i j r)) = slice i j r"
  using be_enc_be_dec [of "slice i j r"] by (simp add: length_slice)

lemma decode_record_Inr:
  assumes "decode_record r = Inr f"
  shows "fr_kind f = 1" "fr_flags f = 0"
    "length (fr_channel_id f) = 16" "length (fr_message_id f) = 16"
    "fragment_count_of (fr_logical_length f) = Inr (fr_fragment_count f)"
    "0 \<le> fr_fragment_index f" "fr_fragment_index f < fr_fragment_count f"
    "int (length (fr_payload f)) =
       min 65469 (fr_logical_length f - fr_fragment_index f * 65469)"
    "r = pack_header 1 0 (fr_fragment_index f) (fr_fragment_count f) (fr_logical_length f)
           (int (length (fr_payload f))) (fr_channel_id f) (fr_message_id f) @ fr_payload f"
proof -
  let ?n = "be_dec (slice 14 18 r)"
  from assms have len: "50 \<le> length r" "int (length r) = 50 + int ?n"
    and fields: "slice 0 2 r = MAGIC" "be_dec (slice 2 3 r) = 1" "be_dec (slice 3 4 r) = 1"
      "be_dec (slice 4 5 r) = 0" "be_dec (slice 5 6 r) = 0"
    and f: "f = \<lparr>fr_channel_id = slice 18 34 r, fr_message_id = slice 34 50 r, fr_kind = 1,
       fr_flags = 0, fr_fragment_index = int (be_dec (slice 6 8 r)),
       fr_fragment_count = int (be_dec (slice 8 10 r)),
       fr_logical_length = int (be_dec (slice 10 14 r)), fr_payload = drop 50 r\<rparr>"
    and c: "fragment_count_of (int (be_dec (slice 10 14 r))) = Inr (int (be_dec (slice 8 10 r)))"
    and pl: "payload_length_of (int (be_dec (slice 10 14 r))) (int (be_dec (slice 6 8 r))) = Inr (int ?n)"
    by (auto simp: decode_record_def record_view_def Let_def split: if_splits sum.splits)
  have n: "length (drop 50 r) = ?n" using len by simp
  show "fr_kind f = 1" "fr_flags f = 0" "0 \<le> fr_fragment_index f"
    "length (fr_channel_id f) = 16" "length (fr_message_id f) = 16"
    using f len by (simp_all add: length_slice)
  show "fragment_count_of (fr_logical_length f) = Inr (fr_fragment_count f)"
    using f c by simp
  show "fr_fragment_index f < fr_fragment_count f"
    and "int (length (fr_payload f)) = min 65469 (fr_logical_length f - fr_fragment_index f * 65469)"
    using pl c f n by (auto simp: payload_length_of_Inr_iff)
  have enc: "be_enc 1 (Suc 0) = slice 2 3 r" "be_enc 1 (Suc 0) = slice 3 4 r" "be_enc 1 0 = slice 4 5 r"
      "be_enc 1 0 = slice 5 6 r" "be_enc 2 (be_dec (slice 6 8 r)) = slice 6 8 r"
      "be_enc 2 (be_dec (slice 8 10 r)) = slice 8 10 r"
      "be_enc 4 (be_dec (slice 10 14 r)) = slice 10 14 r" "be_enc 4 ?n = slice 14 18 r"
    using len fields be_enc_slice [of 3 r 2] be_enc_slice [of 4 r 3] be_enc_slice [of 5 r 4]
      be_enc_slice [of 6 r 5] be_enc_slice [of 8 r 6] be_enc_slice [of 10 r 8]
      be_enc_slice [of 14 r 10] be_enc_slice [of 18 r 14]
    by simp_all
  have "pack_header 1 0 (fr_fragment_index f) (fr_fragment_count f) (fr_logical_length f)
      (int (length (fr_payload f))) (fr_channel_id f) (fr_message_id f) @ fr_payload f
     = slice 0 2 r @ slice 2 3 r @ slice 3 4 r @ slice 4 5 r @ slice 5 6 r @ slice 6 8 r
    @ slice 8 10 r @ slice 10 14 r @ slice 14 18 r @ slice 18 34 r @ slice 34 50 r @ drop 50 r"
    unfolding pack_header_def f using n enc(5-8) fields(1)
    by (simp add: enc(1-4) [symmetric] del: One_nat_def)
  then show "r = pack_header 1 0 (fr_fragment_index f) (fr_fragment_count f) (fr_logical_length f)
           (int (length (fr_payload f))) (fr_channel_id f) (fr_message_id f) @ fr_payload f"
    using split_header_50 [OF len(1)] by simp
qed

section \<open>Messages\<close>

text \<open>The records of one admissible message, written out.\<close>

definition frag_payload :: "bytes \<Rightarrow> nat \<Rightarrow> bytes" where
  "frag_payload payload i = slice (i * 65469) ((i + 1) * 65469) payload"

definition frag_record :: "bytes \<Rightarrow> bytes \<Rightarrow> bytes \<Rightarrow> int \<Rightarrow> nat \<Rightarrow> bytes" where
  "frag_record ch mid payload c i =
     pack_header 1 0 (int i) c (int (length payload)) (int (length (frag_payload payload i))) ch mid
       @ frag_payload payload i"

lemma length_frag_payload:
  assumes "fragment_count_of (int (length payload)) = Inr c" and "int i < c"
  shows "int (length (frag_payload payload i)) = min 65469 (int (length payload) - int i * 65469)"
proof -
  have "int i * 65469 \<le> (c - 1) * 65469" using assms(2) by simp
  with fragment_count_of_Inr(5) [OF assms(1)] have "i * 65469 \<le> length payload" by simp
  then show ?thesis by (auto simp: frag_payload_def slice_def min_def of_nat_diff)
qed

lemma encode_message_canonical:
  assumes "length ch = 16" "length mid = 16" "int (length payload) \<le> 16777216"
  shows "\<exists>c. fragment_count_of (int (length payload)) = Inr c \<and>
    encode_message ch mid payload 1 0 = Inr (map (frag_record ch mid payload c) [0..<nat c])"
proof -
  obtain c where c: "fragment_count_of (int (length payload)) = Inr c"
    using fragment_count_of_ok [of "int (length payload)"] assms(3) by auto
  have "record_of ch mid (frag_payload payload i) (int i) c (int (length payload)) 1 0 =
      Inr (frag_record ch mid payload c i)" if "i < nat c" for i
    using that c length_frag_payload [OF c, of i]
    by (simp add: record_of_Inr_iff frag_record_def)
  then have "res_mapM (\<lambda>i. record_of ch mid (frag_payload payload i) (int i) c
        (int (length payload)) 1 0) [0..<nat c] =
      Inr (map (frag_record ch mid payload c) [0..<nat c])"
    by (intro res_mapM_all_Inr) simp
  then show ?thesis using c assms
    by (auto simp: encode_message_def view_sized_def validate_kind_flags_def Let_def frag_payload_def
        simp del: res_bind_Inr_iff)
qed

lemma encode_message_Inr:
  assumes "encode_message ch mid payload k fl = Inr rs"
  shows "k = 1" "fl = 0" "length ch = 16" "length mid = 16" "int (length payload) \<le> 16777216"
  using assms
  by (auto simp: encode_message_def view_sized_def validate_kind_flags_def Let_def split: if_splits)

lemma encode_message_shape:
  assumes r: "encode_message ch mid payload kind flags = Inr rs"
  shows "1 \<le> length rs \<and> length rs \<le> 257 \<and> list_all (\<lambda>r. length r \<le> 65519) rs"
proof -
  note e = encode_message_Inr [OF r]
  from encode_message_canonical [OF e(3-5)] r e(1,2) obtain c where
    c: "fragment_count_of (int (length payload)) = Inr c"
    and rs: "rs = map (frag_record ch mid payload c) [0..<nat c]" by auto
  have "length (frag_record ch mid payload c i) \<le> 65519" if "i < nat c" for i
  proof -
    have "int (length (frag_payload payload i)) \<le> 65469"
      using length_frag_payload [OF c, of i] that by simp
    then show ?thesis by (simp add: frag_record_def length_pack_header [OF e(3,4)])
  qed
  then have "list_all (\<lambda>r. length r \<le> 65519) rs" by (simp add: rs list_all_iff)
  then show ?thesis using rs fragment_count_of_Inr [OF c] by auto
qed

section \<open>Reassembly of one message\<close>

definition ra_ready :: "bytes \<Rightarrow> reassembler \<Rightarrow> bool" where
  "ra_ready ch s \<longleftrightarrow> ra_reset s = s \<and> ra_expected_kind s = 1 \<and> ra_expected_flags s = 0
     \<and> (ra_channel_id s = None \<or> ra_channel_id s = Some ch)"

definition ra_at :: "reassembler \<Rightarrow> bytes \<Rightarrow> bytes \<Rightarrow> bytes \<Rightarrow> int \<Rightarrow> nat \<Rightarrow> reassembler" where
  "ra_at s ch mid payload c k =
     (if k = 0 then s
      else s\<lparr>ra_active_channel_id := Some ch, ra_message_id := Some mid, ra_fragment_count := c,
             ra_logical_length := int (length payload), ra_next_index := int k,
             ra_received_length := int (length (take (k * 65469) payload)),
             ra_parts := map (frag_payload payload) [0..<k]\<rparr>)"

lemma ra_idle_fields:
  assumes "ra_reset s = s"
  shows "ra_active_channel_id s = None" "ra_message_id s = None" "ra_next_index s = 0"
    "ra_received_length s = 0" "ra_parts s = []" "ra_fragment_count s = 0" "ra_logical_length s = 0"
proof -
  show "ra_active_channel_id s = None"
    using arg_cong [OF assms, of ra_active_channel_id] by (simp add: ra_reset_def)
  show "ra_message_id s = None" using arg_cong [OF assms, of ra_message_id] by (simp add: ra_reset_def)
  show "ra_next_index s = 0" using arg_cong [OF assms, of ra_next_index] by (simp add: ra_reset_def)
  show "ra_received_length s = 0"
    using arg_cong [OF assms, of ra_received_length] by (simp add: ra_reset_def)
  show "ra_parts s = []" using arg_cong [OF assms, of ra_parts] by (simp add: ra_reset_def)
  show "ra_fragment_count s = 0"
    using arg_cong [OF assms, of ra_fragment_count] by (simp add: ra_reset_def)
  show "ra_logical_length s = 0"
    using arg_cong [OF assms, of ra_logical_length] by (simp add: ra_reset_def)
qed

lemma take_frag_payload:
  "take (k * 65469) payload @ frag_payload payload k = take (Suc k * 65469) payload"
  using slice_join [of 0 "k * 65469" "(k + 1) * 65469" payload]
  by (simp add: frag_payload_def slice_def)

lemma length_take_frag:
  "int (length (take (k * 65469) payload)) + int (length (frag_payload payload k)) =
     int (length (take (Suc k * 65469) payload))"
  using arg_cong [OF take_frag_payload [of k payload], of length] by simp

lemma push_fragment:
  assumes s: "ra_ready ch s" and ids: "length ch = 16" "length mid = 16"
    and c: "fragment_count_of (int (length payload)) = Inr c" and k: "int k < c"
  shows "push (ra_at s ch mid payload c k) (frag_record ch mid payload c k) =
    (if int (Suc k) = c then (Inr (Some payload), s)
     else (Inr None, ra_at s ch mid payload c (Suc k)))"
proof -
  let ?f = "\<lparr>fr_channel_id = ch, fr_message_id = mid, fr_kind = 1, fr_flags = 0,
      fr_fragment_index = int k, fr_fragment_count = c, fr_logical_length = int (length payload),
      fr_payload = frag_payload payload k\<rparr>"
  have dec: "decode_record (frag_record ch mid payload c k) = Inr ?f"
    unfolding frag_record_def
    by (rule decode_packed [OF ids c]) (use k length_frag_payload [OF c k] in auto)
  have rs: "ra_reset s = s" using s by (simp add: ra_ready_def)
  note idle = ra_idle_fields [OF rs]
  have next_state: "res_bind (ra_accept (ra_at s ch mid payload c k) ?f) (\<lambda>s1. ra_append s1 ?f) =
      Inr (ra_at s ch mid payload c (Suc k))"
  proof (cases k)
    case 0
    then show ?thesis using s idle length_take_frag [of 0 payload]
      by (auto simp: ra_accept_def ra_append_def ra_at_def ra_ready_def)
  next
    case (Suc j)
    then show ?thesis using s length_take_frag [of k payload]
      by (auto simp: ra_accept_def ra_append_def ra_at_def ra_ready_def)
  qed
  have reset: "ra_reset (ra_at s ch mid payload c (Suc k)) = s"
    using rs by (simp add: ra_reset_def ra_at_def)
  have whole: "take (Suc k * 65469) payload = payload" if "int (Suc k) = c"
  proof -
    have "int (length payload) \<le> int (Suc k) * 65469"
      using that fragment_count_of_Inr(6) [OF c] by simp
    then have "length payload \<le> Suc k * 65469" by linarith
    then show ?thesis by simp
  qed
  have joined: "concat (map (frag_payload payload) [0..<Suc k]) = take (Suc k * 65469) payload"
    unfolding frag_payload_def by (rule concat_slices)
  have fin: "ra_finish (ra_at s ch mid payload c (Suc k)) =
      (if int (Suc k) = c then Inr (Some payload) else Inr None)"
    using whole joined by (auto simp: ra_finish_def ra_at_def simp del: upt_Suc)
  show ?thesis
    by (simp add: push_def dec next_state fin reset)
qed

lemma push_fragments_from:
  assumes "ra_ready ch s" and "length ch = 16" "length mid = 16"
    and "fragment_count_of (int (length payload)) = Inr c" and "k < nat c"
  shows "feed_all push (ra_at s ch mid payload c k) (map (frag_record ch mid payload c) [k..<nat c]) =
    (replicate (nat c - 1 - k) (Inr None) @ [Inr (Some payload)], s)"
  using assms(5)
proof (induction "nat c - k" arbitrary: k)
  case 0
  then show ?case by simp
next
  case (Suc d)
  have k: "int k < c" using Suc.prems by simp
  note step = push_fragment [OF assms(1-4) k]
  have upt: "[k..<nat c] = k # [Suc k..<nat c]" using Suc.prems by (simp add: upt_conv_Cons)
  show ?case
  proof (cases "int (Suc k) = c")
    case True
    then have "nat c = Suc k" by simp
    with True step show ?thesis by (simp add: upt Let_def)
  next
    case False
    with k have lt: "Suc k < nat c" by linarith
    have "feed_all push (ra_at s ch mid payload c (Suc k))
        (map (frag_record ch mid payload c) [Suc k..<nat c]) =
      (replicate (nat c - 1 - Suc k) (Inr None) @ [Inr (Some payload)], s)"
      by (rule Suc.hyps(1)) (use Suc.hyps(2) lt in auto)
    moreover have "nat c - 1 - k = Suc (nat c - 1 - Suc k)" using lt by simp
    ultimately show ?thesis using False step by (simp add: upt Let_def)
  qed
qed

lemma reassemble_encoded:
  assumes "ra_ready ch s" and "encode_message ch mid payload k fl = Inr rs"
  shows "feed_all push s rs = (replicate (length rs - 1) (Inr None) @ [Inr (Some payload)], s)"
proof -
  note enc = encode_message_Inr [OF assms(2)]
  from encode_message_canonical [OF enc(3-5)] obtain c where
    c: "fragment_count_of (int (length payload)) = Inr c"
    and rs: "rs = map (frag_record ch mid payload c) [0..<nat c]"
    using assms(2) enc(1,2) by auto
  have "0 < nat c" using fragment_count_of_Inr(3) [OF c] by simp
  from push_fragments_from [OF assms(1) enc(3,4) c this] rs show ?thesis
    by (simp add: ra_at_def)
qed

section \<open>The reassembler's invariant\<close>

text \<open>
  \<open>ra_trace s rs\<close>: the state \<open>s\<close> is what the records \<open>rs\<close>, pushed since the last reset,
  have left. Either nothing is pending, or \<open>rs\<close> are the first fragments of one message on
  one channel, all of them full.
\<close>

definition ra_static :: "reassembler \<Rightarrow> bool" where
  "ra_static s \<longleftrightarrow> ra_expected_kind s = 1 \<and> ra_expected_flags s = 0"

definition ra_pending :: "reassembler \<Rightarrow> bytes \<Rightarrow> bytes \<Rightarrow> bool" where
  "ra_pending s ch mid \<longleftrightarrow>
     ra_active_channel_id s = Some ch \<and> ra_message_id s = Some mid \<and> length ch = 16 \<and> length mid = 16
     \<and> (ra_channel_id s = None \<or> ra_channel_id s = Some ch)
     \<and> fragment_count_of (ra_logical_length s) = Inr (ra_fragment_count s)
     \<and> ra_next_index s = int (length (ra_parts s)) \<and> ra_next_index s \<le> ra_fragment_count s
     \<and> ra_received_length s = int (length (concat (ra_parts s)))
     \<and> (\<forall>i < length (ra_parts s). int (length (ra_parts s ! i)) =
           min 65469 (ra_logical_length s - int i * 65469))"

definition ra_records :: "reassembler \<Rightarrow> bytes \<Rightarrow> bytes \<Rightarrow> bytes list" where
  "ra_records s ch mid =
     map (\<lambda>i. pack_header 1 0 (int i) (ra_fragment_count s) (ra_logical_length s)
            (int (length (ra_parts s ! i))) ch mid @ ra_parts s ! i) [0..<length (ra_parts s)]"

definition ra_trace :: "reassembler \<Rightarrow> bytes list \<Rightarrow> bool" where
  "ra_trace s rs \<longleftrightarrow> ra_static s \<and>
     (if ra_message_id s = None then ra_reset s = s \<and> rs = []
      else \<exists>ch mid. ra_pending s ch mid \<and> 0 < ra_next_index s
             \<and> ra_next_index s < ra_fragment_count s \<and> rs = ra_records s ch mid)"

lemma ra_reset_trace: "ra_static s \<Longrightarrow> ra_trace (ra_reset s) []"
  by (simp add: ra_trace_def ra_static_def ra_reset_def)

lemma full_part:
  assumes "fragment_count_of l = Inr c" and "int (Suc i) < c"
  shows "min 65469 (l - int i * 65469) = 65469"
proof -
  have "int (Suc i) * 65469 \<le> (c - 1) * 65469" using assms(2) by simp
  with fragment_count_of_Inr(5) [OF assms(1)] show ?thesis by simp
qed

lemma length_concat_full:
  "(\<And>i. i < length ps \<Longrightarrow> length (ps ! i) = n) \<Longrightarrow> length (concat ps) = length ps * n"
proof (induction ps)
  case Nil
  then show ?case by simp
next
  case (Cons p ps)
  have "length (ps ! i) = n" if "i < length ps" for i using Cons.prems [of "Suc i"] that by simp
  then have "length (concat ps) = length ps * n" by (rule Cons.IH)
  with Cons.prems [of 0] show ?case by simp
qed

lemma pending_received:
  assumes "ra_pending s ch mid" and "ra_next_index s < ra_fragment_count s"
  shows "ra_received_length s = ra_next_index s * 65469"
proof -
  have "length (ra_parts s ! i) = 65469" if i: "i < length (ra_parts s)" for i
  proof -
    have "int (length (ra_parts s ! i)) = min 65469 (ra_logical_length s - int i * 65469)"
      using assms(1) i by (simp add: ra_pending_def)
    also have "\<dots> = 65469"
      by (rule full_part) (use assms i in \<open>auto simp: ra_pending_def\<close>)
    finally show ?thesis by simp
  qed
  then have "length (concat (ra_parts s)) = length (ra_parts s) * 65469" by (rule length_concat_full)
  then show ?thesis using assms by (simp add: ra_pending_def)
qed

text \<open>A complete pending message is the canonical encoding of its joined parts.\<close>

lemma pending_complete:
  assumes p: "ra_pending s ch mid" and full: "ra_next_index s = ra_fragment_count s"
  shows "ra_received_length s = ra_logical_length s"
    and "encode_message ch mid (concat (ra_parts s)) 1 0 = Inr (ra_records s ch mid)"
proof -
  let ?ps = "ra_parts s" and ?l = "ra_logical_length s" and ?c = "ra_fragment_count s"
  have c: "fragment_count_of ?l = Inr ?c" and n: "?c = int (length ?ps)"
    and parts: "\<And>i. i < length ?ps \<Longrightarrow> int (length (?ps ! i)) = min 65469 (?l - int i * 65469)"
    and recv: "ra_received_length s = int (length (concat ?ps))"
    and ids: "length ch = 16" "length mid = 16"
    using p full by (auto simp: ra_pending_def)
  note cb = fragment_count_of_Inr [OF c]
  obtain qs q where ps: "?ps = qs @ [q]"
    using cb(3) n by (cases ?ps rule: rev_cases) auto
  have init_full: "length (?ps ! i) = 65469" if "Suc i < length ?ps" for i
    using parts [of i] that full_part [OF c, of i] n by simp
  have "length (qs ! i) = 65469" if "i < length qs" for i
    using init_full [of i] that ps by (simp add: nth_append)
  then have "length (concat qs) = length qs * 65469" by (rule length_concat_full)
  moreover have "int (length q) = ?l - int (length qs) * 65469"
    using parts [of "length qs"] ps cb(6) n by (simp add: nth_append algebra_simps)
  ultimately have len: "int (length (concat ?ps)) = ?l" using ps by simp
  then show "ra_received_length s = ?l" using recv by simp
  have frag: "frag_payload (concat ?ps) i = ?ps ! i" if "i < length ?ps" for i
    unfolding frag_payload_def
  proof (rule slice_concat_nth [OF _ that])
    show "length (?ps ! j) = 65469" if "j < i" for j
      using init_full [of j] that \<open>i < length ?ps\<close> by simp
    show "length (?ps ! i) = 65469" if "Suc i < length ?ps" using init_full that .
    show "length (?ps ! i) \<le> 65469" using parts [OF that] by simp
  qed
  have "int (length (concat ?ps)) \<le> 16777216" using len cb(2) by simp
  from encode_message_canonical [OF ids this]
  have enc: "encode_message ch mid (concat ?ps) 1 0 =
      Inr (map (frag_record ch mid (concat ?ps) ?c) [0..<nat ?c])"
    using c len by auto
  have "map (frag_record ch mid (concat ?ps) ?c) [0..<nat ?c] = ra_records s ch mid"
    using n len frag by (simp add: ra_records_def frag_record_def)
  with enc show "encode_message ch mid (concat ?ps) 1 0 = Inr (ra_records s ch mid)" by simp
qed

text \<open>The three stages of \<open>push\<close> on a state that a record history explains.\<close>

lemma accept_trace:
  assumes "ra_trace s rs" and "decode_record r = Inr f" and "ra_accept s f = Inr s1"
  shows "ra_static s1" "ra_pending s1 (fr_channel_id f) (fr_message_id f)"
    "ra_records s1 (fr_channel_id f) (fr_message_id f) = rs"
    "ra_next_index s1 < ra_fragment_count s1"
    "ra_fragment_count s1 = fr_fragment_count f" "ra_logical_length s1 = fr_logical_length f"
proof -
  note d = decode_record_Inr [OF assms(2)]
  show "ra_fragment_count s1 = fr_fragment_count f" "ra_logical_length s1 = fr_logical_length f"
    "ra_static s1"
    using assms(1,3) by (auto simp: ra_accept_def ra_trace_def ra_static_def split: if_splits)
  have cond: "ra_pending s1 (fr_channel_id f) (fr_message_id f) \<and>
      ra_records s1 (fr_channel_id f) (fr_message_id f) = rs \<and>
      ra_next_index s1 < ra_fragment_count s1"
  proof (cases "ra_message_id s = None")
    case True
    then have rs: "ra_reset s = s" "rs = []" using assms(1) by (auto simp: ra_trace_def)
    note idle = ra_idle_fields [OF rs(1)]
    have s1: "s1 = s\<lparr>ra_active_channel_id := Some (fr_channel_id f),
        ra_message_id := Some (fr_message_id f), ra_fragment_count := fr_fragment_count f,
        ra_logical_length := fr_logical_length f\<rparr>"
      and ch: "ra_channel_id s = None \<or> ra_channel_id s = Some (fr_channel_id f)"
      using assms(3) True by (auto simp: ra_accept_def split: if_splits)
    show ?thesis using s1 ch idle d(3-7) rs(2) fragment_count_of_Inr(3) [OF d(5)]
      by (simp add: ra_pending_def ra_records_def)
  next
    case False
    then have "s1 = s" "ra_active_channel_id s = Some (fr_channel_id f)"
        "ra_message_id s = Some (fr_message_id f)"
      using assms(3) by (auto simp: ra_accept_def split: if_splits)
    then show ?thesis using assms(1) False by (auto simp: ra_trace_def ra_pending_def)
  qed
  then show "ra_pending s1 (fr_channel_id f) (fr_message_id f)"
    "ra_records s1 (fr_channel_id f) (fr_message_id f) = rs"
    "ra_next_index s1 < ra_fragment_count s1" by auto
qed

lemma append_ok:
  assumes "ra_pending s ch mid" and "ra_next_index s < ra_fragment_count s"
    and "decode_record r = Inr f" and "fr_fragment_index f = ra_next_index s"
    and "fr_logical_length f = ra_logical_length s"
  shows "ra_received_length s + int (length (fr_payload f)) \<le> ra_logical_length s"
  using pending_received [OF assms(1,2)] decode_record_Inr(8) [OF assms(3)] assms(4,5) by simp

lemma append_pending:
  assumes "ra_pending s ch mid" and "ra_next_index s < ra_fragment_count s"
    and "decode_record r = Inr f" and "ra_append s f = Inr s2"
    and "fr_channel_id f = ch" "fr_message_id f = mid"
    and "fr_fragment_count f = ra_fragment_count s" "fr_logical_length f = ra_logical_length s"
  shows "ra_pending s2 ch mid" and "ra_records s2 ch mid = ra_records s ch mid @ [r]"
    and "ra_next_index s2 = ra_next_index s + 1"
proof -
  note d = decode_record_Inr [OF assms(3)]
  have s2: "s2 = s\<lparr>ra_parts := ra_parts s @ [fr_payload f],
        ra_received_length := ra_received_length s + int (length (fr_payload f)),
        ra_next_index := ra_next_index s + 1\<rparr>" and i: "fr_fragment_index f = ra_next_index s"
    using assms(4) by (auto simp: ra_append_def split: if_splits)
  show "ra_next_index s2 = ra_next_index s + 1" by (simp add: s2)
  show "ra_pending s2 ch mid" using assms(1,2,8) d(8) i
    by (auto simp: ra_pending_def s2 nth_append less_Suc_eq)
  show "ra_records s2 ch mid = ra_records s ch mid @ [r]"
    using d(9) i assms by (simp add: ra_records_def s2 nth_append ra_pending_def)
qed

lemma finish_pending:
  assumes "ra_static s" "ra_pending s ch mid" "0 < ra_next_index s"
  shows "ra_finish s = (if ra_next_index s = ra_fragment_count s
           then Inr (Some (concat (ra_parts s))) else Inr None)"
    and "ra_next_index s \<noteq> ra_fragment_count s \<Longrightarrow> ra_trace s (ra_records s ch mid)"
  using assms pending_complete(1) [OF assms(2)]
  by (auto simp: ra_finish_def ra_trace_def ra_pending_def)

lemma push_trace:
  assumes "ra_trace s rs" and "push s r = (out, s')"
  shows "case out of Inl e \<Rightarrow> ra_trace s' []
    | Inr None \<Rightarrow> ra_trace s' (rs @ [r])
    | Inr (Some m) \<Rightarrow> ra_trace s' [] \<and> (\<exists>ch mid. encode_message ch mid m 1 0 = Inr (rs @ [r])
         \<and> (ra_channel_id s = None \<or> ra_channel_id s = Some ch))"
proof (cases "res_bind (decode_record r) (\<lambda>f. res_bind (ra_accept s f) (\<lambda>s1. ra_append s1 f))")
  case (Inl e)
  moreover have "ra_static s" using assms(1) by (simp add: ra_trace_def)
  ultimately show ?thesis using assms(2) ra_reset_trace by (auto simp: push_def)
next
  case (Inr s2)
  then obtain f s1 where f: "decode_record r = Inr f" and s1: "ra_accept s f = Inr s1"
    and s2: "ra_append s1 f = Inr s2" by auto
  note a = accept_trace [OF assms(1) f s1]
  note b = append_pending [OF a(2,4) f s2 refl refl a(5,6) [symmetric]]
  have kept: "ra_channel_id s1 = ra_channel_id s" "ra_channel_id s2 = ra_channel_id s1"
    "ra_static s2 = ra_static s1"
    using s1 s2 by (auto simp: ra_append_def ra_accept_def ra_static_def split: if_splits)
  then have st: "ra_static s2" "0 < ra_next_index s2" "ra_channel_id s2 = ra_channel_id s"
    using a(1,2) b(3) by (auto simp: ra_pending_def)
  note fin = finish_pending [OF st(1) b(1) st(2)]
  show ?thesis
  proof (cases "ra_next_index s2 = ra_fragment_count s2")
    case True
    have "out = Inr (Some (concat (ra_parts s2)))" "s' = ra_reset s2"
      using True fin(1) Inr assms(2) by (auto simp: push_def)
    moreover have "ra_channel_id s = None \<or> ra_channel_id s = Some (fr_channel_id f)"
      using b(1) st(3) by (auto simp: ra_pending_def)
    ultimately show ?thesis
      using pending_complete(2) [OF b(1) True] b(2) a(3) ra_reset_trace [OF st(1)] by auto
  next
    case False
    then have "out = Inr None" "s' = s2" using fin(1) Inr assms(2) by (auto simp: push_def)
    then show ?thesis using fin(2) [OF False] b(2) a(3) by simp
  qed
qed

text \<open>Invariant of the component under arbitrary pushes and resets.\<close>

datatype ra_event = RaPush bytes | RaReset

fun ra_step :: "ra_event \<Rightarrow> reassembler \<Rightarrow> reassembler" where
  "ra_step (RaPush r) s = snd (push s r)"
| "ra_step RaReset s = ra_reset s"

definition ra_inv :: "reassembler \<Rightarrow> bool" where
  "ra_inv s \<longleftrightarrow> (\<exists>rs. ra_trace s rs)"

definition ra_initial :: "reassembler \<Rightarrow> bool" where
  "ra_initial s \<longleftrightarrow> (\<exists>ch k fl. new_reassembler ch k fl = Inr s)"

lemma new_reassembler_Inr:
  assumes "new_reassembler ch k fl = Inr s"
  shows "ra_static s" "ra_reset s = s" "ra_channel_id s = ch" "k = 1" "fl = 0"
    "ch = None \<or> (\<exists>c. ch = Some c \<and> length c = 16)"
  using assms
  by (auto simp: new_reassembler_def ra_static_def ra_reset_def validate_kind_flags_def
      view_sized_def split: option.splits if_splits)

lemma ra_initial_trace: "ra_initial s \<Longrightarrow> ra_trace s []"
  using new_reassembler_Inr ra_reset_trace by (metis ra_initial_def)

lemma push_keeps_inv: "ra_inv s \<Longrightarrow> ra_inv (snd (push s r))"
  unfolding ra_inv_def
proof -
  assume "\<exists>rs. ra_trace s rs"
  then obtain rs where tr: "ra_trace s rs" ..
  obtain out s' where p: "push s r = (out, s')" by (cases "push s r")
  from push_trace [OF tr p] p show "\<exists>rs. ra_trace (snd (push s r)) rs"
    by (auto split: sum.splits option.splits)
qed

interpretation ra: invariant_component ra_initial ra_step ra_inv
proof
  show "ra_inv s" if "ra_initial s" for s
    using ra_initial_trace [OF that] by (auto simp: ra_inv_def)
  show "ra_inv (ra_step e s)" if "ra_inv s" for e s
  proof (cases e)
    case (RaPush r)
    with that push_keeps_inv show ?thesis by simp
  next
    case RaReset
    with that ra_reset_trace [of s] show ?thesis by (auto simp: ra_inv_def ra_trace_def)
  qed
qed

lemma pending_bounds:
  assumes "ra_trace s rs" and "ra_message_id s \<noteq> None"
  shows "ra_received_length s < ra_logical_length s \<or> ra_logical_length s = 0"
    "int (length (concat (ra_parts s))) \<le> 16777216" "length (ra_parts s) \<le> 256"
proof -
  from assms obtain ch mid where p: "ra_pending s ch mid" "0 < ra_next_index s"
    "ra_next_index s < ra_fragment_count s" by (auto simp: ra_trace_def)
  then have c: "fragment_count_of (ra_logical_length s) = Inr (ra_fragment_count s)"
    by (simp add: ra_pending_def)
  have "ra_next_index s * 65469 \<le> (ra_fragment_count s - 1) * 65469" using p(3) by simp
  then show "int (length (concat (ra_parts s))) \<le> 16777216" "length (ra_parts s) \<le> 256"
    using fragment_count_of_Inr [OF c] pending_received [OF p(1,3)] p
    by (auto simp: ra_pending_def)
  have "ra_received_length s \<noteq> ra_logical_length s \<or> ra_logical_length s = 0"
  proof (rule ccontr)
    assume "\<not> ?thesis"
    then have l: "ra_next_index s * 65469 = ra_logical_length s"
      using pending_received [OF p(1,3)] by simp
    have "fragment_count_of (ra_next_index s * 65469) = Inr (ra_fragment_count s)"
      using c l by simp
    then have "ra_fragment_count s = max 1 (ceil_div (ra_next_index s * 65469) 65469)"
      by (auto simp: fragment_count_of_def split: if_splits)
    also have "ceil_div (ra_next_index s * 65469) 65469 = ra_next_index s"
      using nonzero_mult_div_cancel_right [of "65469::int" "- ra_next_index s"]
      by (simp add: ceil_div_def)
    finally show False using p by simp
  qed
  moreover have "ra_received_length s \<le> ra_logical_length s"
    using fragment_count_of_Inr(5) [OF c] pending_received [OF p(1,3)]
      \<open>ra_next_index s * 65469 \<le> (ra_fragment_count s - 1) * 65469\<close> by simp
  ultimately show "ra_received_length s < ra_logical_length s \<or> ra_logical_length s = 0" by auto
qed

lemma reset_accept: "ra_accept s f = Inr s1 \<Longrightarrow> ra_reset s1 = ra_reset s"
  by (auto simp: ra_accept_def ra_reset_def split: if_splits)

lemma reset_append: "ra_append s f = Inr s1 \<Longrightarrow> ra_reset s1 = ra_reset s"
  by (auto simp: ra_append_def ra_reset_def split: if_splits)

lemma push_keeps_channel: "ra_channel_id (snd (push s r)) = ra_channel_id s"
proof -
  have accept: "ra_channel_id s1 = ra_channel_id s" if "ra_accept s f = Inr s1" for s1 f
    using that by (auto simp: ra_accept_def split: if_splits)
  have append: "ra_channel_id s2 = ra_channel_id s1" if "ra_append s1 f = Inr s2" for s1 s2 f
    using that by (auto simp: ra_append_def split: if_splits)
  show ?thesis
    by (auto simp: push_def ra_reset_def accept dest!: append split: sum.splits option.splits)
qed

lemma push_error_resets: "push s r = (Inl e, s') \<Longrightarrow> s' = ra_reset s"
  by (auto simp: push_def reset_accept dest!: reset_append split: sum.splits option.splits)

section \<open>Properties\<close>

definition split_message :: "bytes \<Rightarrow> bytes \<times> bytes \<Rightarrow> bytes list" where
  "split_message ch m = (case encode_message ch (fst m) (snd m) KIND_HERMES_BYTES FLAGS_NONE of
     Inl _ \<Rightarrow> [] | Inr rs \<Rightarrow> rs)"

definition message_ok :: "bytes \<Rightarrow> bytes \<times> bytes \<Rightarrow> bool" where
  "message_ok ch m \<longleftrightarrow> is_ok (encode_message ch (fst m) (snd m) KIND_HERMES_BYTES FLAGS_NONE)"

interpretation fr: record_stream "split_message ch" push "ra_ready ch" "message_ok ch" snd for ch
proof
  fix s and m :: "bytes \<times> bytes"
  assume s: "ra_ready ch s" and m: "message_ok ch m"
  from m obtain rs where rs: "encode_message ch (fst m) (snd m) 1 0 = Inr rs"
    by (auto simp: message_ok_def is_ok_iff)
  then have "split_message ch m = rs" by (simp add: split_message_def)
  with reassemble_encoded [OF s rs] s
  show "\<exists>s'. ra_ready ch s' \<and> feed_all push s (split_message ch m) =
      (replicate (length (split_message ch m) - 1) (Inr None) @ [Inr (Some (snd m))], s')"
    by auto
qed

lemma message_ok_iff:
  "message_ok ch m \<longleftrightarrow> length ch = 16 \<and> length (fst m) = 16 \<and> length (snd m) \<le> 16777216"
proof
  assume "message_ok ch m"
  then obtain rs where "encode_message ch (fst m) (snd m) 1 0 = Inr rs"
    by (auto simp: message_ok_def is_ok_iff)
  from encode_message_Inr [OF this]
  show "length ch = 16 \<and> length (fst m) = 16 \<and> length (snd m) \<le> 16777216" by simp
next
  assume "length ch = 16 \<and> length (fst m) = 16 \<and> length (snd m) \<le> 16777216"
  with encode_message_canonical [of ch "fst m" "snd m"] show "message_ok ch m"
    by (auto simp: message_ok_def is_ok_iff)
qed

lemma new_reassembler_ready:
  "new_reassembler (Some ch) k fl = Inr s \<Longrightarrow> ra_ready ch s"
  using new_reassembler_Inr [of "Some ch" k fl s] by (simp add: ra_ready_def ra_static_def)

text \<open>
  Any sequence of messages of at most 16 MiB, each split by \<open>encode_message\<close> on one
  channel, is delivered by a fresh \<open>Reassembler\<close> of that channel unchanged, in order,
  and without a single error; the reassembler is idle again at the end.
\<close>

theorem framing_stream_roundtrip:
  assumes "new_reassembler (Some ch) KIND_HERMES_BYTES FLAGS_NONE = Inr s"
    and "\<forall>m \<in> set ms. length (fst m) = MESSAGE_ID_SIZE
           \<and> int (length (snd m)) \<le> MAX_LOGICAL_MESSAGE_BYTES"
  shows "\<exists>s' os. feed_all push s (concat (map (split_message ch) ms)) = (os, s')
    \<and> delivered os = map snd ms \<and> (\<forall>e. Inl e \<notin> set os) \<and> \<not> ra_in_progress s'"
proof -
  have "length ch = 16" using new_reassembler_Inr(6) [OF assms(1)] by simp
  then have ok: "\<forall>m \<in> set ms. message_ok ch m" using assms(2) by (auto simp: message_ok_iff)
  note rdy = new_reassembler_ready [OF assms(1)]
  from fr.deliver_stream [OF rdy ok] obtain s' os where
    1: "ra_ready ch s'" "feed_all push s (concat (map (split_message ch) ms)) = (os, s')"
      "delivered os = map snd ms" by blast
  have "Inl e \<notin> set os" for e using fr.deliver_stream [OF rdy ok, of e] 1(2) by auto
  with 1 show ?thesis by (auto simp: ra_ready_def ra_in_progress_def dest: ra_idle_fields(2))
qed

theorem framing_stream_roundtrip_witness:
  "\<exists>s s' os. new_reassembler (Some (replicate 16 0)) KIND_HERMES_BYTES FLAGS_NONE = Inr s
     \<and> feed_all push s (concat (map (split_message (replicate 16 0))
           [(replicate 16 1, [1, 2, 3]), (replicate 16 2, [])])) = (os, s')
     \<and> delivered os = [[1, 2, 3], []]"
proof -
  obtain s where s: "new_reassembler (Some (replicate 16 0)) KIND_HERMES_BYTES FLAGS_NONE = Inr s"
    by (simp add: new_reassembler_def view_sized_def validate_kind_flags_def)
  show ?thesis
    using framing_stream_roundtrip [OF s, of "[(replicate 16 1, [1, 2, 3]), (replicate 16 2, [])]"] s
    by auto
qed

lemma push_sound_from:
  assumes "ra_trace s h" and "feed_all push s rs = (os, s')" and "j < length os"
    and "os ! j = Inr (Some m)"
  shows "\<exists>i \<le> length h + j. \<exists>ch mid. encode_message ch mid m 1 0 =
      Inr (slice i (Suc (length h + j)) (h @ rs)) \<and> (ra_channel_id s = None \<or> ra_channel_id s = Some ch)"
  using assms
proof (induction rs arbitrary: s h os j)
  case Nil
  then show ?case by simp
next
  case (Cons r rs)
  obtain out s1 os1 where p: "push s r = (out, s1)" and rest: "feed_all push s1 rs = (os1, s')"
    and os: "os = out # os1" using Cons.prems(2) by (auto simp: Let_def split: prod.splits)
  note tr = push_trace [OF Cons.prems(1) p]
  have same: "ra_channel_id s1 = ra_channel_id s" using push_keeps_channel [of s r] p by simp
  show ?case
  proof (cases j)
    case 0
    then have "out = Inr (Some m)" using Cons.prems(4) os by simp
    with tr obtain ch mid where "encode_message ch mid m 1 0 = Inr (h @ [r])"
      "ra_channel_id s = None \<or> ra_channel_id s = Some ch" by auto
    moreover have "slice 0 (Suc (length h)) (h @ r # rs) = h @ [r]" by (simp add: slice_def)
    ultimately show ?thesis using 0 by (intro exI [of _ 0]) auto
  next
    case (Suc k)
    define h1 where "h1 = (if out = Inr None then h @ [r] else [])"
    have "ra_trace s1 h1" using tr unfolding h1_def by (auto split: sum.splits option.splits)
    from Cons.IH [OF this rest, of k] obtain i ch mid where
      i: "i \<le> length h1 + k" "encode_message ch mid m 1 0 = Inr (slice i (Suc (length h1 + k)) (h1 @ rs))"
      "ra_channel_id s1 = None \<or> ra_channel_id s1 = Some ch"
      using Cons.prems(3,4) os Suc by auto
    let ?d = "length (h @ [r]) - length h1"
    have "slice i (Suc (length h1 + k)) (h1 @ rs) =
        slice (i + ?d) (Suc (length h1 + k) + ?d) (h @ r # rs)"
    proof (cases "out = Inr None")
      case True
      then show ?thesis by (simp add: h1_def)
    next
      case False
      then show ?thesis using slice_shift [of i "h @ [r]" "Suc k" rs] by (simp add: h1_def)
    qed
    moreover have "Suc (length h1 + k) + ?d = Suc (length h + j)" "i + ?d \<le> length h + j"
      using i(1) Suc by (auto simp: h1_def)
    ultimately show ?thesis using i(2,3) same by metis
  qed
qed

text \<open>
  C9. Nothing else is ever delivered: whatever records arrive at a fresh reassembler, a
  message that \<open>push\<close> returns is the message whose canonical encoding, on the expected
  channel, is exactly the run of records that ends there.
\<close>

theorem reassembler_sound:
  assumes "new_reassembler cid KIND_HERMES_BYTES FLAGS_NONE = Inr s"
    and "feed_all push s rs = (os, s')" and "j < length rs" and "os ! j = Inr (Some m)"
  shows "\<exists>i \<le> j. \<exists>ch mid. encode_message ch mid m KIND_HERMES_BYTES FLAGS_NONE = Inr (slice i (Suc j) rs)
    \<and> (cid = None \<or> cid = Some ch)"
proof -
  have "ra_trace s []" by (rule ra_initial_trace) (use assms(1) in \<open>auto simp: ra_initial_def\<close>)
  moreover have "j < length os" using assms(2,3) length_feed_all [of push s rs] by simp
  ultimately show ?thesis
    using push_sound_from [of s "[]", OF _ assms(2) _ assms(4)] new_reassembler_Inr(3) [OF assms(1)]
    by simp
qed

theorem reassembler_sound_witness:
  "\<exists>s os s' ch mid rs. new_reassembler None KIND_HERMES_BYTES FLAGS_NONE = Inr s
     \<and> feed_all push s rs = (os, s') \<and> os ! 0 = Inr (Some [7])
     \<and> encode_message ch mid [7] KIND_HERMES_BYTES FLAGS_NONE = Inr (slice 0 (Suc 0) rs)"
proof -
  obtain s where s: "new_reassembler None KIND_HERMES_BYTES FLAGS_NONE = Inr s"
    by (simp add: new_reassembler_def validate_kind_flags_def)
  obtain c where c: "fragment_count_of 1 = Inr c" and
    rs: "encode_message (replicate 16 0) (replicate 16 1) [7] 1 0 =
      Inr (map (frag_record (replicate 16 0) (replicate 16 1) [7] c) [0..<nat c])"
    using encode_message_canonical [of "replicate 16 0" "replicate 16 1" "[7]"] by auto
  have "c = 1" using c by (simp add: fragment_count_of_def ceil_div_def)
  with rs obtain r where r: "encode_message (replicate 16 0) (replicate 16 1) [7] 1 0 = Inr [r]"
    by simp
  have "ra_ready (replicate 16 0) s"
    using new_reassembler_Inr [OF s] by (simp add: ra_ready_def ra_static_def)
  from reassemble_encoded [OF this r] have f: "feed_all push s [r] = ([Inr (Some [7])], s)" by simp
  then obtain ch mid where "encode_message ch mid [7] KIND_HERMES_BYTES FLAGS_NONE = Inr (slice 0 (Suc 0) [r])"
    using reassembler_sound [OF s f, of 0 "[7]"] by auto
  with s f show ?thesis by (intro exI [of _ s] exI [of _ "[Inr (Some [7])]"] exI [of _ ch] exI [of _ mid]
        exI [of _ "[r]"]) auto
qed

text \<open>
  The strict decoder and the encoder are inverse to each other: a byte string decodes
  to a frame exactly when encoding that frame's fields yields the byte string. No two
  byte strings decode alike and no malleable header survives.
\<close>

theorem decode_encode_record_iff:
  "decode_record r = Inr f \<longleftrightarrow>
     encode_record (fr_channel_id f) (fr_message_id f) (fr_payload f) (fr_fragment_index f)
       (fr_fragment_count f) (fr_logical_length f) (fr_kind f) (fr_flags f) = Inr r"
proof
  assume dec: "decode_record r = Inr f"
  note d = decode_record_Inr [OF dec]
  have "record_of (fr_channel_id f) (fr_message_id f) (fr_payload f) (fr_fragment_index f)
       (fr_fragment_count f) (fr_logical_length f) 1 0 = Inr r"
    using d by (simp add: record_of_Inr_iff)
  then show "encode_record (fr_channel_id f) (fr_message_id f) (fr_payload f) (fr_fragment_index f)
       (fr_fragment_count f) (fr_logical_length f) (fr_kind f) (fr_flags f) = Inr r"
    using d(1-8) fragment_count_of_Inr [OF d(5)]
    by (simp add: encode_record_def view_sized_def validate_kind_flags_def)
next
  assume "encode_record (fr_channel_id f) (fr_message_id f) (fr_payload f) (fr_fragment_index f)
       (fr_fragment_count f) (fr_logical_length f) (fr_kind f) (fr_flags f) = Inr r"
  then have k: "fr_kind f = 1" "fr_flags f = 0" "length (fr_channel_id f) = 16" "length (fr_message_id f) = 16"
    and r: "record_of (fr_channel_id f) (fr_message_id f) (fr_payload f) (fr_fragment_index f)
       (fr_fragment_count f) (fr_logical_length f) 1 0 = Inr r"
    by (auto simp: encode_record_def view_sized_def validate_kind_flags_def split: if_splits)
  note r1 = r [unfolded record_of_Inr_iff]
  from decode_packed [OF k(3,4), of "fr_logical_length f" "fr_fragment_count f" "fr_fragment_index f" "fr_payload f"]
  show "decode_record r = Inr f" using r1 k(1,2) by (cases f) simp
qed

text \<open>
  Memory and error containment: over every sequence of pushed byte strings and resets
  a reassembler holds at most 256 parts and 16 MiB, its counters agree with what it
  holds, and a rejected record always leaves it idle.
\<close>

theorem reassembler_bounded:
  assumes "new_reassembler cid k fl = Inr s0"
  shows "let s = fold ra_step es s0 in
    length (ra_parts s) \<le> 256 \<and> length (concat (ra_parts s)) \<le> 16 * 2 ^ 20
    \<and> ra_received_length s = int (length (concat (ra_parts s)))
    \<and> ra_next_index s = int (length (ra_parts s))
    \<and> (\<forall>r e. fst (push s r) = Inl e \<longrightarrow> \<not> ra_in_progress (snd (push s r)) \<and> ra_parts (snd (push s r)) = [])"
proof -
  define s where "s = fold ra_step es s0"
  have "ra_inv s" unfolding s_def
    by (rule ra.inv_reachable) (use assms in \<open>auto simp: ra_initial_def\<close>)
  then obtain rs where tr: "ra_trace s rs" by (auto simp: ra_inv_def)
  have err: "\<not> ra_in_progress (snd (push s r)) \<and> ra_parts (snd (push s r)) = []"
    if "fst (push s r) = Inl e" for r e
  proof -
    have "snd (push s r) = ra_reset s"
      by (rule push_error_resets [of s r e]) (use that in \<open>simp add: prod_eq_iff\<close>)
    then show ?thesis by (simp add: ra_in_progress_def ra_reset_def)
  qed
  show ?thesis
  proof (cases "ra_message_id s = None")
    case True
    then have "ra_reset s = s" using tr by (simp add: ra_trace_def)
    from ra_idle_fields [OF this] err show ?thesis
      unfolding s_def [symmetric] Let_def by auto
  next
    case False
    then obtain ch mid where "ra_pending s ch mid" using tr by (auto simp: ra_trace_def)
    with pending_bounds [OF tr False] err show ?thesis
      unfolding s_def [symmetric] Let_def by (auto simp: ra_pending_def)
  qed
qed

theorem reassembler_bounded_witness:
  "\<exists>s0. new_reassembler None 1 0 = Inr s0 \<and> ra_parts (fold ra_step [RaPush [1, 2], RaReset] s0) = []
     \<and> length (ra_parts (fold ra_step [RaPush [1, 2], RaReset] s0)) \<le> 256"
proof -
  obtain s where s: "new_reassembler None 1 0 = Inr s"
    by (simp add: new_reassembler_def validate_kind_flags_def)
  from reassembler_bounded [OF s, of "[RaPush [1, 2], RaReset]"] s show ?thesis
    by (auto simp: Let_def ra_reset_def)
qed

text \<open>
  C12. Recovery: whatever a reassembler of channel \<open>ch\<close> has seen, once it rejects a
  record the next admissible message on the channel is delivered intact.
\<close>

theorem reassembler_recovers:
  assumes "new_reassembler (Some ch) k fl = Inr s0" and "s = fold ra_step es s0"
    and "push s r = (Inl e, s1)" and "message_ok ch m"
  shows "\<exists>s2. feed_all push s1 (split_message ch m) =
    (replicate (length (split_message ch m) - 1) (Inr None) @ [Inr (Some (snd m))], s2) \<and> ra_reset s2 = s2"
proof -
  have keep: "ra_channel_id (ra_step ev t) = ra_channel_id t" for ev t
    by (cases ev) (simp_all add: push_keeps_channel ra_reset_def)
  have "ra_channel_id (fold ra_step es t) = ra_channel_id t" for t
    by (induction es arbitrary: t) (simp_all add: keep)
  then have chan: "ra_channel_id s = Some ch"
    using new_reassembler_Inr(3) [OF assms(1)] assms(2) by simp
  have "ra_inv s" unfolding assms(2)
    by (rule ra.inv_reachable) (use assms(1) in \<open>auto simp: ra_initial_def\<close>)
  then have "ra_static s" by (auto simp: ra_inv_def ra_trace_def)
  then have "ra_ready ch s1"
    using push_error_resets [OF assms(3)] chan by (simp add: ra_ready_def ra_reset_def ra_static_def)
  from fr.deliver [OF this assms(4)] show ?thesis by (auto simp: ra_ready_def)
qed

theorem reassembler_recovers_witness:
  "\<exists>s0 s1 s2 e. new_reassembler (Some (replicate 16 0)) 1 0 = Inr s0 \<and> push s0 [] = (Inl e, s1)
     \<and> delivered (fst (feed_all push s1 (split_message (replicate 16 0) (replicate 16 1, [9])))) = [[9]]"
proof -
  obtain s where s: "new_reassembler (Some (replicate 16 0)) 1 0 = Inr s"
    by (simp add: new_reassembler_def view_sized_def validate_kind_flags_def)
  obtain e s1 where p: "push s [] = (Inl e, s1)"
    by (simp add: push_def decode_record_def record_view_def)
  have "message_ok (replicate 16 0) (replicate 16 1, [9])" by (simp add: message_ok_iff)
  from reassembler_recovers [OF s, of s "[]", OF _ p this] s p show ?thesis by auto
qed

text \<open>
  \<open>encode_message\<close> succeeds exactly on 16-byte identifiers, the one known kind and
  flags and at most 16 MiB, and then emits between 1 and 257 records of at most 65519
  bytes, the Noise plaintext limit.
\<close>

theorem encode_message_bounds:
  "(is_ok (encode_message ch mid payload kind flags) \<longleftrightarrow>
      length ch = 16 \<and> length mid = 16 \<and> kind = 1 \<and> flags = 0 \<and> length payload \<le> 16 * 2 ^ 20)
   \<and> (\<forall>rs. encode_message ch mid payload kind flags = Inr rs \<longrightarrow>
        1 \<le> length rs \<and> length rs \<le> 257 \<and> list_all (\<lambda>r. length r \<le> 65519) rs)"
  using encode_message_shape [of ch mid payload kind flags] encode_message_Inr [of ch mid payload kind flags]
    encode_message_canonical [of ch mid payload]
  by (auto simp: is_ok_iff)

theorem encode_message_bounds_witness:
  "is_ok (encode_message (replicate 16 0) (replicate 16 0) [] 1 0) \<and>
   \<not> is_ok (encode_message (replicate 15 0) (replicate 16 0) [] 1 0)"
  using encode_message_bounds [of "replicate 16 0" "replicate 16 0" "[]" 1 0]
    encode_message_bounds [of "replicate 15 0" "replicate 16 0" "[]" 1 0] by simp

end
