(* ===== verification/Secure_Channel.thy ===== *)
theory Secure_Channel
  imports Prelude
begin

text \<open>
  The Noise channel of \<^verbatim>\<open>secure_channel.py\<close>: the state machine \<open>NoiseChannel\<close> keeps around
  one connection of the third-party \<open>noise\<close> package. That package is a parameter: a record
  of the calls the channel makes, each returning \<open>None\<close> when the call raises.
\<close>

section \<open>The parameter: the Noise library\<close>

record 'c noise_lib =
  ns_start :: "bytes \<Rightarrow> bool \<Rightarrow> bytes \<Rightarrow> bytes option \<Rightarrow> bytes option \<Rightarrow> bytes \<Rightarrow> 'c option"
  ns_write_message :: "'c \<Rightarrow> bytes \<Rightarrow> (bytes \<times> 'c) option"
  ns_read_message :: "'c \<Rightarrow> bytes \<Rightarrow> (bytes \<times> 'c) option"
  ns_encrypt :: "'c \<Rightarrow> bytes \<Rightarrow> (bytes \<times> 'c) option"
  ns_decrypt :: "'c \<Rightarrow> bytes \<Rightarrow> (bytes \<times> 'c) option"
  ns_handshake_hash :: "'c \<Rightarrow> bytes option"
  ns_peer_static :: "'c \<Rightarrow> bytes option"

section \<open>Constants, errors and state\<close>

definition ascii_bytes :: "string \<Rightarrow> bytes" where
  "ascii_bytes s = map of_char s"

definition PROTOCOL_NAME :: bytes where
  "PROTOCOL_NAME = ascii_bytes ''Noise_XK_25519_ChaChaPoly_SHA256''"
definition PROLOGUE_PREFIX :: bytes where
  "PROLOGUE_PREFIX = ascii_bytes ''mercury-relay/v1'' @ [0]"
definition KEY_BYTES :: nat where "KEY_BYTES = 32"
definition PAIRING_CAPABILITY_BYTES :: nat where "PAIRING_CAPABILITY_BYTES = 32"
definition MAX_CIPHERTEXT_RECORD_BYTES :: nat where "MAX_CIPHERTEXT_RECORD_BYTES = 65535"
definition MAX_PLAINTEXT_RECORD_BYTES :: nat where "MAX_PLAINTEXT_RECORD_BYTES = 65519"

lemmas channel_constants =
  KEY_BYTES_def PAIRING_CAPABILITY_BYTES_def MAX_CIPHERTEXT_RECORD_BYTES_def
  MAX_PLAINTEXT_RECORD_BYTES_def

datatype channel_error =
    SecureChannelError string
  | ChannelTypeError string
  | ChannelValueError string
  | ChannelOverflowError string

datatype next_action = Write1 | Read1 | Write2 | Read2 | Write3 | Read3 | Complete

record 'c noise_channel =
  nc_connection :: "'c option"
  nc_is_initiator :: bool
  nc_closed :: bool
  nc_admitted :: bool
  nc_transport_bound :: bool
  nc_next_action :: next_action
  nc_channel_binding :: "bytes option"
  nc_remote_static_public :: "bytes option"
  nc_configured_remote_static :: "bytes option"

definition exact_bytes :: "bytes \<Rightarrow> nat option \<Rightarrow> nat option \<Rightarrow> channel_error + bytes" where
  "exact_bytes v sz max_sz =
     (if sz \<noteq> None \<and> Some (length v) \<noteq> sz then Inl (ChannelValueError ''value has the wrong length'')
      else if (case max_sz of None \<Rightarrow> False | Some m \<Rightarrow> length v > m)
      then Inl (ChannelOverflowError ''value exceeds limit'')
      else Inr v)"

section \<open>Construction\<close>

definition new_connection ::
  "'c noise_lib \<Rightarrow> bool \<Rightarrow> bytes \<Rightarrow> bytes \<Rightarrow> bytes option \<Rightarrow> bytes option \<Rightarrow> channel_error + 'c" where
  "new_connection N initiator static_private installation_id remote_static ephemeral =
     (case ns_start N PROTOCOL_NAME initiator static_private ephemeral remote_static
             (PROLOGUE_PREFIX @ installation_id) of
        None \<Rightarrow> Inl (SecureChannelError ''authentication_failed'')
      | Some c \<Rightarrow> Inr c)"

definition new_channel ::
  "'c noise_lib \<Rightarrow> bool \<Rightarrow> bytes \<Rightarrow> bytes \<Rightarrow> bytes option \<Rightarrow> bytes option \<Rightarrow> bool
     \<Rightarrow> channel_error + 'c noise_channel" where
  "new_channel N initiator static_private_key installation_id remote_static_public_key
     ephemeral_private_key test_token =
     res_bind (exact_bytes static_private_key (Some KEY_BYTES) None) (\<lambda>static_private.
     res_bind (exact_bytes installation_id (Some KEY_BYTES) None) (\<lambda>installation.
     res_bind
       (if initiator
        then (case remote_static_public_key of
                None \<Rightarrow> Inl (ChannelValueError ''initiator requires the host public key'')
              | Some k \<Rightarrow> res_bind (exact_bytes k (Some KEY_BYTES) None) (\<lambda>k. Inr (Some k)))
        else if remote_static_public_key \<noteq> None
        then Inl (ChannelValueError ''responder must recover the mobile identity'')
        else Inr None) (\<lambda>remote_static.
     res_bind
       (case ephemeral_private_key of
          None \<Rightarrow> Inr None
        | Some e \<Rightarrow>
            if \<not> test_token
            then Inl (ChannelTypeError ''deterministic ephemeral injection is test-only'')
            else res_bind (exact_bytes e (Some KEY_BYTES) None) (\<lambda>e. Inr (Some e))) (\<lambda>ephemeral.
     res_bind (new_connection N initiator static_private installation remote_static ephemeral)
       (\<lambda>connection.
       Inr \<lparr>nc_connection = Some connection, nc_is_initiator = initiator, nc_closed = False,
            nc_admitted = False, nc_transport_bound = False,
            nc_next_action = (if initiator then Write1 else Read1), nc_channel_binding = None,
            nc_remote_static_public = None, nc_configured_remote_static = remote_static\<rparr>)))))"

definition channel_initiator :: "'c noise_lib \<Rightarrow> bytes \<Rightarrow> bytes \<Rightarrow> bytes \<Rightarrow> channel_error + 'c noise_channel" where
  "channel_initiator N static_private_key installation_id remote_static_public_key =
     new_channel N True static_private_key installation_id (Some remote_static_public_key) None False"

definition channel_responder :: "'c noise_lib \<Rightarrow> bytes \<Rightarrow> bytes \<Rightarrow> channel_error + 'c noise_channel" where
  "channel_responder N static_private_key installation_id =
     new_channel N False static_private_key installation_id None None False"

section \<open>Operations\<close>

definition ch_close :: "'c noise_channel \<Rightarrow> 'c noise_channel" where
  "ch_close s = s\<lparr>nc_closed := True, nc_connection := None\<rparr>"

definition handshake_finished :: "'c noise_channel \<Rightarrow> bool" where
  "handshake_finished s \<longleftrightarrow> nc_next_action s = Complete \<and> \<not> nc_closed s"

definition channel_binding :: "'c noise_channel \<Rightarrow> channel_error + bytes" where
  "channel_binding s =
     (case nc_channel_binding s of
        Some b \<Rightarrow> if handshake_finished s then Inr b else Inl (SecureChannelError ''handshake_not_finished'')
      | None \<Rightarrow> Inl (SecureChannelError ''handshake_not_finished''))"

definition remote_static_public :: "'c noise_channel \<Rightarrow> channel_error + bytes" where
  "remote_static_public s =
     (case nc_remote_static_public s of
        Some b \<Rightarrow> if handshake_finished s then Inr b else Inl (SecureChannelError ''handshake_not_finished'')
      | None \<Rightarrow> Inl (SecureChannelError ''handshake_not_finished''))"

definition require_open :: "'c noise_channel \<Rightarrow> channel_error + 'c" where
  "require_open s =
     (case nc_connection s of
        Some c \<Rightarrow> if nc_closed s then Inl (SecureChannelError ''channel_closed'') else Inr c
      | None \<Rightarrow> Inl (SecureChannelError ''channel_closed''))"

definition finish_handshake ::
  "'c noise_lib \<Rightarrow> 'c noise_channel \<Rightarrow> (channel_error + unit) \<times> 'c noise_channel" where
  "finish_handshake N s =
     (let failed = (Inl (SecureChannelError ''authentication_failed''), ch_close s) in
      case require_open s of
        Inl _ \<Rightarrow> failed
      | Inr c \<Rightarrow>
          (case ns_handshake_hash N c of
             None \<Rightarrow> failed
           | Some binding \<Rightarrow>
               (case (case ns_peer_static N c of Some p \<Rightarrow> Some p | None \<Rightarrow> nc_configured_remote_static s) of
                  None \<Rightarrow> failed
                | Some peer \<Rightarrow>
                    if length binding \<noteq> KEY_BYTES \<or> length peer \<noteq> KEY_BYTES then failed
                    else (Inr (), s\<lparr>nc_channel_binding := Some binding,
                                    nc_remote_static_public := Some peer,
                                    nc_next_action := Complete\<rparr>))))"

text \<open>
  The dispatch at the head of \<open>write_handshake\<close>: the next action, the role and the
  payload decide the following action, or the call is out of turn.
\<close>

definition write_plan :: "next_action \<Rightarrow> bool \<Rightarrow> bytes \<Rightarrow> (next_action \<times> bool) option" where
  "write_plan a initiator body =
     (if a = Write1 \<and> initiator then (if body \<noteq> [] then None else Some (Read2, False))
      else if a = Write2 \<and> \<not> initiator then (if body \<noteq> [] then None else Some (Read3, False))
      else if a = Write3 \<and> initiator
      then (if length body \<notin> {0, PAIRING_CAPABILITY_BYTES} then None else Some (Complete, True))
      else None)"

definition read_plan :: "next_action \<Rightarrow> bool \<Rightarrow> (next_action \<times> bool) option" where
  "read_plan a initiator =
     (if a = Read1 \<and> \<not> initiator then Some (Write2, False)
      else if a = Read2 \<and> initiator then Some (Write3, False)
      else if a = Read3 \<and> \<not> initiator then Some (Complete, True)
      else None)"

definition ch_fail :: "'c noise_channel \<Rightarrow> string \<Rightarrow> (channel_error + 'a) \<times> 'c noise_channel" where
  "ch_fail s reason = (Inl (SecureChannelError reason), ch_close s)"

definition write_handshake ::
  "'c noise_lib \<Rightarrow> 'c noise_channel \<Rightarrow> bytes \<Rightarrow> (channel_error + bytes) \<times> 'c noise_channel" where
  "write_handshake N s payload =
     (case require_open s of
        Inl e \<Rightarrow> (Inl e, s)
      | Inr c \<Rightarrow>
          (case exact_bytes payload None (Some PAIRING_CAPABILITY_BYTES) of
             Inl _ \<Rightarrow> ch_fail s ''authentication_failed''
           | Inr body \<Rightarrow>
               (case write_plan (nc_next_action s) (nc_is_initiator s) body of
                  None \<Rightarrow> ch_fail s ''authentication_failed''
                | Some (next_action, finishes) \<Rightarrow>
                    (case ns_write_message N c body of
                       None \<Rightarrow> ch_fail s ''authentication_failed''
                     | Some (wire, c') \<Rightarrow>
                         let s1 = s\<lparr>nc_connection := Some c'\<rparr> in
                         if \<not> (32 \<le> length wire \<and> length wire \<le> MAX_CIPHERTEXT_RECORD_BYTES)
                         then ch_fail s1 ''authentication_failed''
                         else let s2 = s1\<lparr>nc_next_action := next_action\<rparr> in
                              if finishes
                              then (case finish_handshake N s2 of
                                      (Inl e, s3) \<Rightarrow> (Inl e, s3)
                                    | (Inr _, s3) \<Rightarrow> (Inr wire, s3))
                              else (Inr wire, s2)))))"

definition read_handshake ::
  "'c noise_lib \<Rightarrow> 'c noise_channel \<Rightarrow> bytes \<Rightarrow> (channel_error + bytes) \<times> 'c noise_channel" where
  "read_handshake N s message =
     (case require_open s of
        Inl e \<Rightarrow> (Inl e, s)
      | Inr c \<Rightarrow>
          (case exact_bytes message None (Some MAX_CIPHERTEXT_RECORD_BYTES) of
             Inl _ \<Rightarrow> ch_fail s ''authentication_failed''
           | Inr wire \<Rightarrow>
               if \<not> (32 \<le> length wire \<and> length wire \<le> MAX_CIPHERTEXT_RECORD_BYTES)
               then ch_fail s ''authentication_failed''
               else (case read_plan (nc_next_action s) (nc_is_initiator s) of
                  None \<Rightarrow> ch_fail s ''authentication_failed''
                | Some (next_action, finishes) \<Rightarrow>
                    (case ns_read_message N c wire of
                       None \<Rightarrow> ch_fail s ''authentication_failed''
                     | Some (payload, c') \<Rightarrow>
                         let s1 = s\<lparr>nc_connection := Some c'\<rparr> in
                         if nc_next_action s \<noteq> Read3 \<and> payload \<noteq> []
                         then ch_fail s1 ''authentication_failed''
                         else if nc_next_action s = Read3
                                 \<and> length payload \<notin> {0, PAIRING_CAPABILITY_BYTES}
                         then ch_fail s1 ''authentication_failed''
                         else let s2 = s1\<lparr>nc_next_action := next_action\<rparr> in
                              if finishes
                              then (case finish_handshake N s2 of
                                      (Inl e, s3) \<Rightarrow> (Inl e, s3)
                                    | (Inr _, s3) \<Rightarrow> (Inr payload, s3))
                              else (Inr payload, s2)))))"

definition ch_encrypt ::
  "'c noise_lib \<Rightarrow> 'c noise_channel \<Rightarrow> bytes \<Rightarrow> (channel_error + bytes) \<times> 'c noise_channel" where
  "ch_encrypt N s plaintext =
     (case require_open s of
        Inl e \<Rightarrow> (Inl e, s)
      | Inr c \<Rightarrow>
          if \<not> handshake_finished s then (Inl (SecureChannelError ''handshake_not_finished''), s)
          else (case exact_bytes plaintext None (Some MAX_PLAINTEXT_RECORD_BYTES) of
             Inl (ChannelOverflowError _) \<Rightarrow> (Inl (SecureChannelError ''plaintext_limit''), s)
           | Inl _ \<Rightarrow> (Inl (SecureChannelError ''invalid_plaintext''), s)
           | Inr body \<Rightarrow>
               (case ns_encrypt N c body of
                  None \<Rightarrow> ch_fail s ''transport_failed''
                | Some (ciphertext, c') \<Rightarrow>
                    if length ciphertext > MAX_CIPHERTEXT_RECORD_BYTES
                    then ch_fail (s\<lparr>nc_connection := Some c'\<rparr>) ''transport_failed''
                    else (Inr ciphertext, s\<lparr>nc_connection := Some c'\<rparr>))))"

definition ch_decrypt ::
  "'c noise_lib \<Rightarrow> 'c noise_channel \<Rightarrow> bytes \<Rightarrow> (channel_error + bytes) \<times> 'c noise_channel" where
  "ch_decrypt N s ciphertext =
     (case require_open s of
        Inl e \<Rightarrow> (Inl e, s)
      | Inr c \<Rightarrow>
          if \<not> handshake_finished s then (Inl (SecureChannelError ''handshake_not_finished''), s)
          else (case exact_bytes ciphertext None (Some MAX_CIPHERTEXT_RECORD_BYTES) of
             Inl (ChannelOverflowError _) \<Rightarrow> (Inl (SecureChannelError ''ciphertext_limit''), s)
           | Inl _ \<Rightarrow> (Inl (SecureChannelError ''invalid_ciphertext''), s)
           | Inr body \<Rightarrow>
               if length body < 16 then (Inl (SecureChannelError ''ciphertext_limit''), s)
               else (case ns_decrypt N c body of
                  None \<Rightarrow> ch_fail s ''transport_failed''
                | Some (plaintext, c') \<Rightarrow>
                    if length plaintext > MAX_PLAINTEXT_RECORD_BYTES
                    then ch_fail (s\<lparr>nc_connection := Some c'\<rparr>) ''transport_failed''
                    else (Inr plaintext, s\<lparr>nc_connection := Some c'\<rparr>))))"

definition mark_admitted :: "'c noise_channel \<Rightarrow> (channel_error + unit) \<times> 'c noise_channel" where
  "mark_admitted s =
     (case require_open s of
        Inl e \<Rightarrow> (Inl e, s)
      | Inr _ \<Rightarrow>
          if \<not> handshake_finished s then (Inl (SecureChannelError ''handshake_not_finished''), s)
          else if nc_admitted s then (Inl (SecureChannelError ''channel_already_admitted''), s)
          else (Inr (), s\<lparr>nc_admitted := True\<rparr>))"

definition mark_transport_bound :: "'c noise_channel \<Rightarrow> (channel_error + unit) \<times> 'c noise_channel" where
  "mark_transport_bound s =
     (case require_open s of
        Inl e \<Rightarrow> (Inl e, s)
      | Inr _ \<Rightarrow>
          if \<not> handshake_finished s \<or> \<not> nc_admitted s
          then (Inl (SecureChannelError ''channel_not_admitted''), s)
          else if nc_transport_bound s then (Inl (SecureChannelError ''channel_transport_bound''), s)
          else (Inr (), s\<lparr>nc_transport_bound := True\<rparr>))"

section \<open>The protocol as an abstract state machine\<close>

text \<open>
  What the channel promises its clients: three handshake messages in turn, then at most
  one admission, then at most one transport binding, and a shut state that is never left.
\<close>

datatype proto = Handshaking nat | Established bool bool | Shut

datatype label = LHandshake | LAdmit | LBind | LTraffic | LRefused | LClose

inductive proto_step :: "proto \<Rightarrow> label \<Rightarrow> proto \<Rightarrow> bool" where
  handshake: "n < 2 \<Longrightarrow> proto_step (Handshaking n) LHandshake (Handshaking (Suc n))"
| establish: "proto_step (Handshaking 2) LHandshake (Established False False)"
| admit: "proto_step (Established False False) LAdmit (Established True False)"
| bind: "proto_step (Established True False) LBind (Established True True)"
| traffic: "proto_step (Established a b) LTraffic (Established a b)"
| refuse: "proto_step p LRefused p"
| break_off: "proto_step p LRefused Shut"
| shut: "proto_step p LClose Shut"

inductive_cases proto_stepE: "proto_step p l q"
inductive_cases proto_from_Shut: "proto_step Shut l q"

inductive proto_run :: "proto \<Rightarrow> label list \<Rightarrow> proto \<Rightarrow> bool" where
  run_nil: "proto_run p [] p"
| run_snoc: "proto_run p ls q \<Longrightarrow> proto_step q l r \<Longrightarrow> proto_run p (ls @ [l]) r"

definition proto_log :: "proto \<Rightarrow> label list \<Rightarrow> bool" where
  "proto_log q ls \<longleftrightarrow>
     (case q of
        Handshaking n \<Rightarrow> n \<le> 2 \<and> count_list ls LHandshake = n
          \<and> count_list ls LAdmit = 0 \<and> count_list ls LBind = 0 \<and> count_list ls LTraffic = 0
      | Established a b \<Rightarrow> count_list ls LHandshake = 3 \<and> count_list ls LAdmit = of_bool a
          \<and> count_list ls LBind = of_bool b \<and> (b \<longrightarrow> a)
      | Shut \<Rightarrow> count_list ls LHandshake \<le> 3 \<and> count_list ls LAdmit \<le> 1 \<and> count_list ls LBind \<le> 1)"

lemma proto_run_log:
  assumes "proto_run p ls q" and "p = Handshaking 0"
  shows "proto_log q ls"
  using assms
proof (induction rule: proto_run.induct)
  case (run_nil p)
  then show ?case by (simp add: proto_log_def)
next
  case (run_snoc p ls q l r)
  then have "proto_log q ls" by simp
  with run_snoc.hyps(2) show ?case
    by (cases rule: proto_stepE) (auto simp: proto_log_def split: proto.splits)
qed

section \<open>The channel refines the protocol\<close>

datatype ch_event =
    ChWrite bytes | ChRead bytes | ChEncrypt bytes | ChDecrypt bytes | ChAdmit | ChBind | ChClose

fun ch_step :: "'c noise_lib \<Rightarrow> ch_event \<Rightarrow> 'c noise_channel \<Rightarrow> 'c noise_channel" where
  "ch_step N (ChWrite p) s = snd (write_handshake N s p)"
| "ch_step N (ChRead m) s = snd (read_handshake N s m)"
| "ch_step N (ChEncrypt p) s = snd (ch_encrypt N s p)"
| "ch_step N (ChDecrypt c) s = snd (ch_decrypt N s c)"
| "ch_step N ChAdmit s = snd (mark_admitted s)"
| "ch_step N ChBind s = snd (mark_transport_bound s)"
| "ch_step N ChClose s = ch_close s"

fun ch_label :: "'c noise_lib \<Rightarrow> ch_event \<Rightarrow> 'c noise_channel \<Rightarrow> label" where
  "ch_label N (ChWrite p) s = (if is_ok (fst (write_handshake N s p)) then LHandshake else LRefused)"
| "ch_label N (ChRead m) s = (if is_ok (fst (read_handshake N s m)) then LHandshake else LRefused)"
| "ch_label N (ChEncrypt p) s = (if is_ok (fst (ch_encrypt N s p)) then LTraffic else LRefused)"
| "ch_label N (ChDecrypt c) s = (if is_ok (fst (ch_decrypt N s c)) then LTraffic else LRefused)"
| "ch_label N ChAdmit s = (if is_ok (fst (mark_admitted s)) then LAdmit else LRefused)"
| "ch_label N ChBind s = (if is_ok (fst (mark_transport_bound s)) then LBind else LRefused)"
| "ch_label N ChClose s = LClose"

fun action_rank :: "next_action \<Rightarrow> nat" where
  "action_rank Write1 = 0" | "action_rank Read1 = 0"
| "action_rank Read2 = 1" | "action_rank Write2 = 1"
| "action_rank Write3 = 2" | "action_rank Read3 = 2"
| "action_rank Complete = 3"

fun action_role :: "bool \<Rightarrow> next_action \<Rightarrow> bool" where
  "action_role initiator Complete = True"
| "action_role initiator a = (initiator = (a \<in> {Write1, Read2, Write3}))"

definition ch_abs :: "'c noise_channel \<Rightarrow> proto" where
  "ch_abs s =
     (if nc_closed s then Shut
      else if nc_next_action s = Complete then Established (nc_admitted s) (nc_transport_bound s)
      else Handshaking (action_rank (nc_next_action s)))"

definition opt_len :: "nat \<Rightarrow> bytes option \<Rightarrow> bool" where
  "opt_len n b = (case b of None \<Rightarrow> False | Some x \<Rightarrow> length x = n)"

definition ch_inv :: "'c noise_channel \<Rightarrow> bool" where
  "ch_inv s \<longleftrightarrow> (nc_closed s \<longleftrightarrow> nc_connection s = None)
     \<and> action_role (nc_is_initiator s) (nc_next_action s)
     \<and> (\<not> nc_closed s \<and> nc_next_action s = Complete \<longrightarrow>
          opt_len 32 (nc_channel_binding s) \<and> opt_len 32 (nc_remote_static_public s))
     \<and> (nc_admitted s \<longrightarrow> nc_next_action s = Complete \<and> opt_len 32 (nc_channel_binding s)
          \<and> opt_len 32 (nc_remote_static_public s))
     \<and> (nc_transport_bound s \<longrightarrow> nc_admitted s)"

lemma require_open_ok [simp]:
  "nc_connection s = Some c \<Longrightarrow> \<not> nc_closed s \<Longrightarrow> require_open s = Inr c"
  by (simp add: require_open_def)

lemma closed_refuses [simp]:
  "nc_closed s \<Longrightarrow> require_open s = Inl (SecureChannelError ''channel_closed'')"
  "nc_connection s = None \<Longrightarrow> require_open s = Inl (SecureChannelError ''channel_closed'')"
  by (auto simp: require_open_def split: option.splits)

lemma exact_bytes_max [simp]:
  "exact_bytes v None (Some m) = (if length v > m then Inl (ChannelOverflowError ''value exceeds limit'') else Inr v)"
  by (simp add: exact_bytes_def)

lemma write_plan_Some:
  "write_plan a i b = Some (a', f) \<longleftrightarrow>
     (a = Write1 \<and> i \<and> b = [] \<and> a' = Read2 \<and> \<not> f) \<or> (a = Write2 \<and> \<not> i \<and> b = [] \<and> a' = Read3 \<and> \<not> f)
     \<or> (a = Write3 \<and> i \<and> length b \<in> {0, 32} \<and> a' = Complete \<and> f)"
  by (auto simp: write_plan_def channel_constants)

lemma read_plan_Some:
  "read_plan a i = Some (a', f) \<longleftrightarrow>
     (a = Read1 \<and> \<not> i \<and> a' = Write2 \<and> \<not> f) \<or> (a = Read2 \<and> i \<and> a' = Write3 \<and> \<not> f)
     \<or> (a = Read3 \<and> \<not> i \<and> a' = Complete \<and> f)"
  by (auto simp: read_plan_def)

text \<open>The two shapes of a handshake call: it fails and shuts the channel, or it advances.\<close>

definition advanced :: "'c noise_channel \<Rightarrow> next_action \<Rightarrow> 'c noise_channel \<Rightarrow> bool" where
  "advanced s a s' \<longleftrightarrow> \<not> nc_closed s \<and> \<not> nc_closed s' \<and> nc_connection s' \<noteq> None \<and> nc_next_action s' = a
     \<and> action_rank a = Suc (action_rank (nc_next_action s)) \<and> action_role (nc_is_initiator s) a
     \<and> nc_is_initiator s' = nc_is_initiator s \<and> nc_admitted s' = nc_admitted s
     \<and> nc_transport_bound s' = nc_transport_bound s
     \<and> (if a = Complete then opt_len 32 (nc_channel_binding s') \<and> opt_len 32 (nc_remote_static_public s')
        else nc_channel_binding s' = nc_channel_binding s
          \<and> nc_remote_static_public s' = nc_remote_static_public s)"

definition broken :: "'c noise_channel \<Rightarrow> 'c noise_channel \<Rightarrow> bool" where
  "broken s s' \<longleftrightarrow> nc_closed s' \<and> nc_connection s' = None \<and> nc_is_initiator s' = nc_is_initiator s
     \<and> (nc_next_action s' = nc_next_action s \<or> nc_next_action s' = Complete)
     \<and> nc_admitted s' = nc_admitted s \<and> nc_transport_bound s' = nc_transport_bound s
     \<and> nc_channel_binding s' = nc_channel_binding s
     \<and> nc_remote_static_public s' = nc_remote_static_public s"

lemma finish_handshake_cases:
  assumes "nc_connection s = Some c" "\<not> nc_closed s" "finish_handshake N s = (r, s')"
  shows "(\<exists>b p. r = Inr () \<and> ns_handshake_hash N c = Some b \<and> length b = 32 \<and> length p = 32
        \<and> (ns_peer_static N c = Some p \<or> ns_peer_static N c = None \<and> nc_configured_remote_static s = Some p)
        \<and> s' = s\<lparr>nc_channel_binding := Some b, nc_remote_static_public := Some p, nc_next_action := Complete\<rparr>)
    \<or> r = Inl (SecureChannelError ''authentication_failed'') \<and> s' = ch_close s"
  using assms
  by (auto simp: finish_handshake_def Let_def channel_constants split: sum.splits option.splits if_splits)

lemma finish_handshake_advanced:
  assumes "nc_connection s = Some c" "\<not> nc_closed s" "finish_handshake N s = (r, s')"
  shows "if is_ok r then nc_connection s' = Some c \<and> \<not> nc_closed s' \<and> nc_next_action s' = Complete
           \<and> nc_is_initiator s' = nc_is_initiator s \<and> nc_admitted s' = nc_admitted s
           \<and> nc_transport_bound s' = nc_transport_bound s
           \<and> opt_len 32 (nc_channel_binding s') \<and> opt_len 32 (nc_remote_static_public s')
         else s' = ch_close s"
  using finish_handshake_cases [OF assms] assms(1,2) by (auto simp: opt_len_def)

lemma ch_fail_broken: "ch_fail (s\<lparr>nc_connection := x\<rparr>) m = (r, s') \<Longrightarrow> \<not> is_ok r \<and> broken s s'"
  "ch_fail s m = (r, s') \<Longrightarrow> \<not> is_ok r \<and> broken s s'"
  by (auto simp: ch_fail_def ch_close_def broken_def)

text \<open>What both handshake calls do once the library call has returned.\<close>

definition ch_advance ::
  "'c noise_lib \<Rightarrow> 'c noise_channel \<Rightarrow> 'c \<Rightarrow> next_action \<Rightarrow> bool \<Rightarrow> bytes
     \<Rightarrow> (channel_error + bytes) \<times> 'c noise_channel" where
  "ch_advance N s c a finishes out =
     (let s2 = s\<lparr>nc_connection := Some c, nc_next_action := a\<rparr> in
      if finishes then (case finish_handshake N s2 of
                          (Inl e, s3) \<Rightarrow> (Inl e, s3) | (Inr _, s3) \<Rightarrow> (Inr out, s3))
      else (Inr out, s2))"

lemma ch_advance_moves:
  assumes "ch_advance N s c a fin out = (r, s')" and "\<not> nc_closed s"
    and "action_rank a = Suc (action_rank (nc_next_action s))" "action_role (nc_is_initiator s) a"
    and "fin \<longleftrightarrow> a = Complete"
  shows "if is_ok r then advanced s a s' else broken s s'"
proof (cases "a = Complete")
  case False
  then show ?thesis using assms by (auto simp: ch_advance_def advanced_def)
next
  case True
  let ?s2 = "s\<lparr>nc_connection := Some c, nc_next_action := a\<rparr>"
  obtain r3 s3 where f: "finish_handshake N ?s2 = (r3, s3)" by (cases "finish_handshake N ?s2")
  have fin_true: "fin" using assms(5) True by simp
  have "(r, s') = (case (r3, s3) of (Inl e, s3) \<Rightarrow> (Inl e, s3) | (Inr _, s3) \<Rightarrow> (Inr out, s3))"
    unfolding assms(1) [symmetric] ch_advance_def Let_def f using fin_true by (rule if_P)
  then have r: "is_ok r = is_ok r3" "s' = s3" by (auto split: sum.splits)
  have "nc_connection ?s2 = Some c" "\<not> nc_closed ?s2" using assms(2) by simp_all
  from finish_handshake_advanced [OF this f] r
  have fin: "if is_ok r then nc_connection s' = Some c \<and> \<not> nc_closed s' \<and> nc_next_action s' = Complete
           \<and> nc_is_initiator s' = nc_is_initiator s \<and> nc_admitted s' = nc_admitted s
           \<and> nc_transport_bound s' = nc_transport_bound s
           \<and> opt_len 32 (nc_channel_binding s') \<and> opt_len 32 (nc_remote_static_public s')
         else s' = ch_close ?s2" by (cases "is_ok r") simp_all
  show ?thesis
  proof (cases "is_ok r")
    case ok: True
    then show ?thesis using fin assms(2-4) True by (simp add: advanced_def)
  next
    case bad: False
    then show ?thesis using fin True by (simp add: broken_def ch_close_def)
  qed
qed

lemma write_handshake_unfold:
  assumes "nc_connection s = Some c" "\<not> nc_closed s" "length p \<le> 32"
  shows "write_handshake N s p =
    (case write_plan (nc_next_action s) (nc_is_initiator s) p of
       None \<Rightarrow> ch_fail s ''authentication_failed''
     | Some (a, f) \<Rightarrow>
        (case ns_write_message N c p of
           None \<Rightarrow> ch_fail s ''authentication_failed''
         | Some (wire, c') \<Rightarrow>
             if 32 \<le> length wire \<and> length wire \<le> 65535 then ch_advance N s c' a f wire
             else ch_fail (s\<lparr>nc_connection := Some c'\<rparr>) ''authentication_failed''))"
  using assms by (auto simp: write_handshake_def ch_advance_def Let_def channel_constants split: option.splits)

lemma read_handshake_unfold:
  assumes "nc_connection s = Some c" "\<not> nc_closed s" "32 \<le> length w" "length w \<le> 65535"
  shows "read_handshake N s w =
    (case read_plan (nc_next_action s) (nc_is_initiator s) of
       None \<Rightarrow> ch_fail s ''authentication_failed''
     | Some (a, f) \<Rightarrow>
        (case ns_read_message N c w of
           None \<Rightarrow> ch_fail s ''authentication_failed''
         | Some (p, c') \<Rightarrow>
             if (if nc_next_action s = Read3 then length p \<in> {0, 32} else p = [])
             then ch_advance N s c' a f p
             else ch_fail (s\<lparr>nc_connection := Some c'\<rparr>) ''authentication_failed''))"
  using assms by (auto simp: read_handshake_def ch_advance_def Let_def channel_constants split: option.splits)

lemma write_handshake_moves:
  assumes "write_handshake N s p = (r, s')"
  shows "if is_ok r then \<exists>a. advanced s a s' else s' = s \<and> (nc_closed s \<or> nc_connection s = None) \<or> broken s s'"
proof (cases "nc_closed s \<or> nc_connection s = None")
  case True
  with assms show ?thesis by (auto simp: write_handshake_def)
next
  case False
  then obtain c where c: "nc_connection s = Some c" "\<not> nc_closed s" by auto
  show ?thesis
  proof (cases "length p \<le> 32")
    case True
    note u = write_handshake_unfold [OF c True, of N]
    consider (fail) x where "ch_fail (s\<lparr>nc_connection := x\<rparr>) ''authentication_failed'' = (r, s')"
      | (ok) a f w c' where "write_plan (nc_next_action s) (nc_is_initiator s) p = Some (a, f)"
          "ch_advance N s c' a f w = (r, s')"
      using assms u c by (auto simp: ch_fail_def ch_close_def split: option.splits if_splits)
    then show ?thesis
    proof cases
      case fail
      with ch_fail_broken(1) show ?thesis by metis
    next
      case ok
      have "if is_ok r then advanced s a s' else broken s s'"
        by (rule ch_advance_moves [OF ok(2) c(2)]) (use ok(1) in \<open>auto simp: write_plan_Some\<close>)
      then show ?thesis by (auto split: if_splits)
    qed
  next
    case False
    then have "ch_fail s ''authentication_failed'' = (r, s')"
      using assms c by (auto simp: write_handshake_def channel_constants)
    with ch_fail_broken(2) show ?thesis by metis
  qed
qed

lemma read_handshake_moves:
  assumes "read_handshake N s w = (r, s')"
  shows "if is_ok r then \<exists>a. advanced s a s' else s' = s \<and> (nc_closed s \<or> nc_connection s = None) \<or> broken s s'"
proof (cases "nc_closed s \<or> nc_connection s = None")
  case True
  with assms show ?thesis by (auto simp: read_handshake_def)
next
  case False
  then obtain c where c: "nc_connection s = Some c" "\<not> nc_closed s" by auto
  show ?thesis
  proof (cases "32 \<le> length w \<and> length w \<le> 65535")
    case True
    then have "32 \<le> length w" "length w \<le> 65535" by simp_all
    note u = read_handshake_unfold [OF c this, of N]
    consider (fail) x where "ch_fail (s\<lparr>nc_connection := x\<rparr>) ''authentication_failed'' = (r, s')"
      | (ok) a f p c' where "read_plan (nc_next_action s) (nc_is_initiator s) = Some (a, f)"
          "ch_advance N s c' a f p = (r, s')"
      using assms u c by (auto simp: ch_fail_def ch_close_def split: option.splits if_splits)
    then show ?thesis
    proof cases
      case fail
      with ch_fail_broken(1) show ?thesis by metis
    next
      case ok
      have "if is_ok r then advanced s a s' else broken s s'"
        by (rule ch_advance_moves [OF ok(2) c(2)]) (use ok(1) in \<open>auto simp: read_plan_Some\<close>)
      then show ?thesis by (auto split: if_splits)
    qed
  next
    case False
    then have "ch_fail s ''authentication_failed'' = (r, s')"
      using assms c by (auto simp: read_handshake_def channel_constants split: if_splits)
    with ch_fail_broken(2) show ?thesis by metis
  qed
qed

lemma ch_encrypt_moves:
  assumes "ch_encrypt N s p = (r, s')"
  shows "if is_ok r then handshake_finished s \<and> (\<exists>c'. s' = s\<lparr>nc_connection := Some c'\<rparr>)
         else s' = s \<or> broken s s'"
proof (cases "require_open s")
  case (Inl e)
  with assms show ?thesis by (auto simp: ch_encrypt_def)
next
  case (Inr c)
  with assms show ?thesis
    by (auto simp: ch_encrypt_def ch_fail_def ch_close_def broken_def split: if_splits option.splits)
qed

lemma ch_decrypt_moves:
  assumes "ch_decrypt N s p = (r, s')"
  shows "if is_ok r then handshake_finished s \<and> (\<exists>c'. s' = s\<lparr>nc_connection := Some c'\<rparr>)
         else s' = s \<or> broken s s'"
proof (cases "require_open s")
  case (Inl e)
  with assms show ?thesis by (auto simp: ch_decrypt_def)
next
  case (Inr c)
  with assms show ?thesis
    by (auto simp: ch_decrypt_def ch_fail_def ch_close_def broken_def split: if_splits option.splits)
qed

lemma mark_admitted_moves:
  assumes "mark_admitted s = (r, s')"
  shows "if is_ok r then handshake_finished s \<and> \<not> nc_admitted s \<and> s' = s\<lparr>nc_admitted := True\<rparr> else s' = s"
  using assms by (auto simp: mark_admitted_def split: sum.splits if_splits)

lemma mark_transport_bound_moves:
  assumes "mark_transport_bound s = (r, s')"
  shows "if is_ok r then handshake_finished s \<and> nc_admitted s \<and> \<not> nc_transport_bound s
           \<and> s' = s\<lparr>nc_transport_bound := True\<rparr> else s' = s"
  using assms by (auto simp: mark_transport_bound_def split: sum.splits if_splits)

text \<open>Every call is one of six moves; invariant and simulation are proved once per move.\<close>

inductive ch_move :: "'c noise_channel \<Rightarrow> label \<Rightarrow> 'c noise_channel \<Rightarrow> bool" where
  move_advance: "advanced s a s' \<Longrightarrow> ch_move s LHandshake s'"
| move_traffic: "handshake_finished s \<Longrightarrow> ch_move s LTraffic (s\<lparr>nc_connection := Some c'\<rparr>)"
| move_admit: "handshake_finished s \<Longrightarrow> \<not> nc_admitted s \<Longrightarrow> ch_move s LAdmit (s\<lparr>nc_admitted := True\<rparr>)"
| move_bind: "handshake_finished s \<Longrightarrow> nc_admitted s \<Longrightarrow> \<not> nc_transport_bound s
    \<Longrightarrow> ch_move s LBind (s\<lparr>nc_transport_bound := True\<rparr>)"
| move_refuse: "ch_move s LRefused s"
| move_break: "broken s s' \<Longrightarrow> ch_move s LRefused s'"
| move_close: "ch_move s LClose (ch_close s)"

lemma ch_step_move: "ch_move s (ch_label N e s) (ch_step N e s)"
proof (cases e)
  case (ChWrite p)
  show ?thesis using write_handshake_moves [of N s p] ChWrite
    by (cases "write_handshake N s p") (auto intro: ch_move.intros split: if_splits)
next
  case (ChRead m)
  show ?thesis using read_handshake_moves [of N s m] ChRead
    by (cases "read_handshake N s m") (auto intro: ch_move.intros split: if_splits)
next
  case (ChEncrypt p)
  show ?thesis using ch_encrypt_moves [of N s p] ChEncrypt
    by (cases "ch_encrypt N s p") (auto intro: ch_move.intros split: if_splits)
next
  case (ChDecrypt p)
  show ?thesis using ch_decrypt_moves [of N s p] ChDecrypt
    by (cases "ch_decrypt N s p") (auto intro: ch_move.intros split: if_splits)
next
  case ChAdmit
  show ?thesis using mark_admitted_moves [of s] ChAdmit
    by (cases "mark_admitted s") (auto intro: ch_move.intros split: if_splits)
next
  case ChBind
  show ?thesis using mark_transport_bound_moves [of s] ChBind
    by (cases "mark_transport_bound s") (auto intro: ch_move.intros split: if_splits)
next
  case ChClose
  then show ?thesis by (simp add: move_close)
qed

lemma ch_move_inv: "ch_move s l s' \<Longrightarrow> ch_inv s \<Longrightarrow> ch_inv s'"
proof (induction rule: ch_move.induct)
  case (move_advance s a s')
  then have "nc_next_action s \<noteq> Complete" by (auto simp: advanced_def elim: action_rank.elims)
  with move_advance show ?case by (auto simp: ch_inv_def advanced_def split: if_splits)
next
  case (move_break s s')
  then show ?case by (auto simp: ch_inv_def broken_def)
qed (auto simp: ch_inv_def handshake_finished_def ch_close_def)

lemma ch_move_refines: "ch_move s l s' \<Longrightarrow> ch_inv s \<Longrightarrow> proto_step (ch_abs s) l (ch_abs s')"
proof (induction rule: ch_move.induct)
  case (move_advance s a s')
  then have adv: "\<not> nc_closed s" "\<not> nc_closed s'" "nc_next_action s' = a"
    "action_rank a = Suc (action_rank (nc_next_action s))" "nc_admitted s' = nc_admitted s"
    "nc_transport_bound s' = nc_transport_bound s" by (auto simp: advanced_def)
  then have nc: "nc_next_action s \<noteq> Complete" by (cases a) auto
  then have fresh: "\<not> nc_admitted s" "\<not> nc_transport_bound s"
    using move_advance.prems by (auto simp: ch_inv_def)
  show ?case
  proof (cases "a = Complete")
    case True
    then have "action_rank (nc_next_action s) = 2" using adv(4) by simp
    with True show ?thesis using adv nc fresh proto_step.establish by (simp add: ch_abs_def)
  next
    case False
    then have "action_rank (nc_next_action s) < 2" using adv(4) by (cases a) auto
    with False show ?thesis using adv nc proto_step.handshake by (simp add: ch_abs_def)
  qed
qed (auto simp: ch_abs_def ch_inv_def handshake_finished_def ch_close_def broken_def
      intro: proto_step.intros)

definition ch_initial :: "'c noise_lib \<Rightarrow> 'c noise_channel \<Rightarrow> bool" where
  "ch_initial N s \<longleftrightarrow> (\<exists>i sk inst rk ek t. new_channel N i sk inst rk ek t = Inr s)"

lemma new_channel_Inr:
  assumes "new_channel N i sk inst rk ek t = Inr s"
  shows "ch_inv s" "ch_abs s = Handshaking 0" "nc_is_initiator s = i"
  using assms by (auto simp: new_channel_def ch_inv_def ch_abs_def split: if_splits option.splits)

interpretation ch: invariant_component "ch_initial N" "ch_step N" ch_inv for N
proof
  show "ch_inv s" if "ch_initial N s" for N :: "'a noise_lib" and s
    using that new_channel_Inr(1) by (auto simp: ch_initial_def)
  show "ch_inv (ch_step N e s)" if "ch_inv s" for N :: "'a noise_lib" and s e
    using that ch_step_move ch_move_inv by blast
qed

fun ch_labels :: "'c noise_lib \<Rightarrow> ch_event list \<Rightarrow> 'c noise_channel \<Rightarrow> label list" where
  "ch_labels N [] s = []"
| "ch_labels N (e # es) s = ch_label N e s # ch_labels N es (ch_step N e s)"

lemma ch_labels_snoc: "ch_labels N (es @ [e]) s = ch_labels N es s @ [ch_label N e (fold (ch_step N) es s)]"
  by (induction es arbitrary: s) auto

lemma ch_run_refines:
  "ch_inv s \<Longrightarrow> proto_run (ch_abs s) (ch_labels N es s) (ch_abs (fold (ch_step N) es s))"
proof (induction es rule: rev_induct)
  case Nil
  then show ?case by (simp add: run_nil)
next
  case (snoc e es)
  let ?t = "fold (ch_step N) es s"
  have "proto_step (ch_abs ?t) (ch_label N e ?t) (ch_abs (ch_step N e ?t))"
    by (rule ch_move_refines [OF ch_step_move]) (rule ch.inv_run [OF snoc.prems])
  with snoc show ?case by (simp add: ch_labels_snoc run_snoc)
qed

section \<open>Properties\<close>

text \<open>
  C13. Protocol refinement: however its callers use it and whatever the Noise library
  answers, a channel that is open past its handshake has completed exactly three
  handshake messages, has been admitted at most once and only then, has been bound to a
  transport at most once and only after admission, and carries a 32-byte binding and a
  32-byte peer key.
\<close>

theorem channel_follows_protocol:
  assumes "new_channel N i sk inst rk ek t = Inr s0" and "s = fold (ch_step N) es s0"
  shows "proto_log (ch_abs s) (ch_labels N es s0)
    \<and> (handshake_finished s \<longrightarrow> is_ok (channel_binding s) \<and> is_ok (remote_static_public s)
         \<and> opt_len 32 (nc_channel_binding s) \<and> opt_len 32 (nc_remote_static_public s))
    \<and> (nc_transport_bound s \<longrightarrow> nc_admitted s)"
proof -
  note new = new_channel_Inr [OF assms(1)]
  have "proto_run (Handshaking 0) (ch_labels N es s0) (ch_abs s)"
    using ch_run_refines [OF new(1), of N es] new(2) assms(2) by simp
  then have "proto_log (ch_abs s) (ch_labels N es s0)" by (rule proto_run_log) simp
  moreover have "ch_inv s" unfolding assms(2) by (rule ch.inv_run [OF new(1)])
  ultimately show ?thesis
    by (auto simp: ch_inv_def handshake_finished_def opt_len_def channel_binding_def
        remote_static_public_def split: option.splits)
qed

text \<open>
  A library that encrypts nothing, used only to show that the hypotheses on the Noise
  package below can be met.
\<close>

definition plain_noise :: "nat noise_lib" where
  "plain_noise =
     \<lparr>ns_start = (\<lambda>name i sk ek rk prologue. Some 0),
      ns_write_message = (\<lambda>c p. Some (replicate 32 0 @ p, Suc c)),
      ns_read_message = (\<lambda>c w. Some (drop 32 w, Suc c)),
      ns_encrypt = (\<lambda>c p. Some (replicate 16 0 @ p, Suc c)),
      ns_decrypt = (\<lambda>c w. Some (drop 16 w, Suc c)),
      ns_handshake_hash = (\<lambda>c. Some (replicate 32 9)),
      ns_peer_static = (\<lambda>c. Some (replicate 32 7))\<rparr>"

lemmas plain_noise_simps = plain_noise_def channel_constants exact_bytes_def new_channel_def new_connection_def
  channel_initiator_def channel_responder_def

theorem channel_follows_protocol_witness:
  "\<exists>s0 s. new_channel plain_noise False (replicate 32 1) (replicate 32 2) None None False = Inr s0
     \<and> s = fold (ch_step plain_noise) [ChRead (replicate 32 0), ChWrite [], ChRead (replicate 32 0), ChAdmit] s0
     \<and> ch_abs s = Established True False \<and> is_ok (channel_binding s)"
proof -
  let ?es = "[ChRead (replicate 32 0), ChWrite [], ChRead (replicate 32 0), ChAdmit]"
  obtain s0 where s0: "new_channel plain_noise False (replicate 32 1) (replicate 32 2) None None False = Inr s0"
    by (simp add: plain_noise_simps)
  then have "s0 = \<lparr>nc_connection = Some 0, nc_is_initiator = False, nc_closed = False, nc_admitted = False,
      nc_transport_bound = False, nc_next_action = Read1, nc_channel_binding = None,
      nc_remote_static_public = None, nc_configured_remote_static = None\<rparr>"
    by (simp add: plain_noise_simps)
  then have fin: "ch_abs (fold (ch_step plain_noise) ?es s0) = Established True False"
    by (simp add: read_handshake_def write_handshake_def read_plan_def write_plan_def finish_handshake_def
        mark_admitted_def plain_noise_simps Let_def ch_abs_def handshake_finished_def)
  then have "handshake_finished (fold (ch_step plain_noise) ?es s0)"
    by (auto simp: ch_abs_def handshake_finished_def split: if_splits)
  with channel_follows_protocol [OF s0 refl, of ?es] s0 fin show ?thesis by blast
qed

text \<open>
  C14. Fail closed: a handshake call that does not succeed shuts the channel for good.
  From then on every handshake, encryption, decryption, admission and binding call is
  refused with \<open>channel_closed\<close> and changes nothing, and neither the binding nor the peer
  key can be read.
\<close>

theorem handshake_failure_is_final:
  assumes "new_channel N i sk inst rk ek t = Inr s0" and "s = fold (ch_step N) es s0"
    and "e = ChWrite p \<or> e = ChRead p" and "ch_label N e s = LRefused"
    and "z = fold (ch_step N) es' (ch_step N e s)"
  shows "nc_closed z \<and> write_handshake N z q = (Inl (SecureChannelError ''channel_closed''), z)
    \<and> read_handshake N z q = (Inl (SecureChannelError ''channel_closed''), z)
    \<and> ch_encrypt N z q = (Inl (SecureChannelError ''channel_closed''), z)
    \<and> ch_decrypt N z q = (Inl (SecureChannelError ''channel_closed''), z)
    \<and> mark_admitted z = (Inl (SecureChannelError ''channel_closed''), z)
    \<and> mark_transport_bound z = (Inl (SecureChannelError ''channel_closed''), z)
    \<and> \<not> is_ok (channel_binding z) \<and> \<not> is_ok (remote_static_public z)"
proof -
  have inv: "ch_inv s" unfolding assms(2) by (rule ch.inv_run [OF new_channel_Inr(1) [OF assms(1)]])
  obtain r s' where w: "(write_handshake N s p = (r, s') \<and> e = ChWrite p
      \<or> read_handshake N s p = (r, s') \<and> e = ChRead p)"
    using assms(3) by (metis surj_pair)
  then have bad: "\<not> is_ok r" "ch_step N e s = s'" using assms(4) by (auto split: if_splits)
  have "s' = s \<and> (nc_closed s \<or> nc_connection s = None) \<or> broken s s'"
    using w
  proof (elim disjE conjE)
    assume "write_handshake N s p = (r, s')"
    from write_handshake_moves [OF this] bad(1) show ?thesis by simp
  next
    assume "read_handshake N s p = (r, s')"
    from read_handshake_moves [OF this] bad(1) show ?thesis by simp
  qed
  then have "nc_closed s'" using inv unfolding broken_def ch_inv_def by blast
  then have shut: "nc_closed (ch_step N e s)" using bad(2) by simp
  have "nc_closed (fold (ch_step N) es' u)" if "nc_closed u" for u
    using that
  proof (induction es' arbitrary: u)
    case Nil
    then show ?case by simp
  next
    case (Cons x xs)
    have "nc_closed (ch_step N x u)" using ch_step_move [of u N x] Cons.prems
      by (cases rule: ch_move.cases)
        (auto simp: advanced_def handshake_finished_def broken_def ch_close_def)
    then show ?case using Cons.IH by simp
  qed
  then have z: "nc_closed z" using shut assms(5) by blast
  then have "require_open z = Inl (SecureChannelError ''channel_closed'')" by simp
  then show ?thesis using z
    by (simp add: write_handshake_def read_handshake_def ch_encrypt_def ch_decrypt_def mark_admitted_def
        mark_transport_bound_def channel_binding_def remote_static_public_def handshake_finished_def
        split: option.splits)
qed

theorem handshake_failure_is_final_witness:
  "\<exists>s0. new_channel plain_noise True (replicate 32 1) (replicate 32 2) (Some (replicate 32 3)) None False = Inr s0
     \<and> ch_label plain_noise (ChRead []) s0 = LRefused
     \<and> write_handshake plain_noise (ch_step plain_noise (ChRead []) s0) [] =
         (Inl (SecureChannelError ''channel_closed''), ch_step plain_noise (ChRead []) s0)"
proof -
  obtain s0 where s0: "new_channel plain_noise True (replicate 32 1) (replicate 32 2) (Some (replicate 32 3))
      None False = Inr s0"
    by (simp add: plain_noise_simps)
  have bad: "ch_label plain_noise (ChRead []) s0 = LRefused"
    using s0 by (auto simp: plain_noise_simps read_handshake_def ch_fail_def)
  from handshake_failure_is_final [OF s0, of s0 "[]" "ChRead []" "[]" _ "[]" "[]"] bad s0 show ?thesis by simp
qed

section \<open>A handshake between two channels\<close>












section \<open>Transport records\<close>

definition noise_transport :: "'c noise_lib \<Rightarrow> ('c \<Rightarrow> 'c \<Rightarrow> bool) \<Rightarrow> bool" where
  \<comment> \<open>documented behaviour of a Noise session in one direction: what one side encrypts the
     other decrypts, in order, with a 16-byte tag\<close>
  "noise_transport N R \<longleftrightarrow>
     (\<forall>c d p. R c d \<and> length p \<le> 65519 \<longrightarrow>
        (\<exists>x c' d'. ns_encrypt N c p = Some (x, c') \<and> ns_decrypt N d x = Some (p, d')
           \<and> R c' d' \<and> length x = length p + 16))"

lemma record_roundtrip:
  assumes "noise_transport N R" and "handshake_finished s" "handshake_finished d"
    and "nc_connection s = Some c" "nc_connection d = Some e" "R c e" and "length p \<le> 65519"
  shows "\<exists>x c' e'. ch_encrypt N s p = (Inr x, s\<lparr>nc_connection := Some c'\<rparr>)
    \<and> ch_decrypt N d x = (Inr p, d\<lparr>nc_connection := Some e'\<rparr>) \<and> R c' e'"
proof -
  from assms(1,6,7) obtain x c' e' where
    x: "ns_encrypt N c p = Some (x, c')" "ns_decrypt N e x = Some (p, e')" "R c' e'" "length x = length p + 16"
    unfolding noise_transport_def by blast
  have op: "\<not> nc_closed s" "\<not> nc_closed d" using assms(2,3) by (auto simp: handshake_finished_def)
  have "ch_encrypt N s p = (Inr x, s\<lparr>nc_connection := Some c'\<rparr>)"
    using x assms(2,4,7) op by (simp add: ch_encrypt_def channel_constants)
  moreover have "ch_decrypt N d x = (Inr p, d\<lparr>nc_connection := Some e'\<rparr>)"
    using x assms(3,5,7) op by (simp add: ch_decrypt_def channel_constants)
  ultimately show ?thesis using x(3) by blast
qed

lemma records_roundtrip:
  assumes "noise_transport N R" and "handshake_finished s" "handshake_finished d"
    and "nc_connection s = Some c" "nc_connection d = Some e" "R c e"
    and "list_all (\<lambda>p. length p \<le> 65519) ps"
  shows "\<exists>xs c' e'. feed_all (ch_encrypt N) s ps = (map Inr xs, s\<lparr>nc_connection := Some c'\<rparr>)
    \<and> feed_all (ch_decrypt N) d xs = (map Inr ps, d\<lparr>nc_connection := Some e'\<rparr>)
    \<and> length xs = length ps \<and> R c' e'"
  using assms(2-7)
proof (induction ps arbitrary: s d c e)
  case Nil
  then show ?case by (intro exI [of _ "[]"] exI [of _ c] exI [of _ e]) simp
next
  case (Cons p ps)
  from record_roundtrip [OF assms(1) Cons.prems(1-5), of p] Cons.prems(6) obtain x c1 e1 where
    x: "ch_encrypt N s p = (Inr x, s\<lparr>nc_connection := Some c1\<rparr>)"
      "ch_decrypt N d x = (Inr p, d\<lparr>nc_connection := Some e1\<rparr>)" "R c1 e1" by auto
  have "handshake_finished (s\<lparr>nc_connection := Some c1\<rparr>)" "handshake_finished (d\<lparr>nc_connection := Some e1\<rparr>)"
    using Cons.prems(1,2) by (simp_all add: handshake_finished_def)
  from Cons.IH [OF this _ _ x(3)] Cons.prems(6) obtain xs c' e' where
    "feed_all (ch_encrypt N) (s\<lparr>nc_connection := Some c1\<rparr>) ps = (map Inr xs, s\<lparr>nc_connection := Some c'\<rparr>)"
    "feed_all (ch_decrypt N) (d\<lparr>nc_connection := Some e1\<rparr>) xs = (map Inr ps, d\<lparr>nc_connection := Some e'\<rparr>)"
    "length xs = length ps" "R c' e'" by auto
  then show ?case using x
    by (intro exI [of _ "x # xs"] exI [of _ c'] exI [of _ e']) simp
qed

end
