(* ===== verification/Py_Text.thy ===== *)
theory Py_Text
  imports Prelude
begin

text \<open>
  Python text: a \<open>str\<close> is a list of code points, so that surrogates and the whole of
  Unicode are visible to the model, and \<open>encode("utf-8")\<close> / \<open>decode("utf-8")\<close> are the
  strict codec of the standard library, with \<open>None\<close> for \<open>UnicodeEncodeError\<close> and
  \<open>UnicodeDecodeError\<close>.
\<close>

section \<open>Text\<close>

type_synonym pystr = "nat list"

text \<open>ASCII literals of the source.\<close>

definition lit :: "string \<Rightarrow> pystr" where
  "lit s = map of_char s"

lemma lit_Nil [simp]: "lit [] = []"
  by (simp add: lit_def)

lemma length_lit [simp]: "length (lit s) = length s"
  by (simp add: lit_def)

lemma inj_of_char_nat: "inj (of_char :: char \<Rightarrow> nat)"
  by (rule injI) simp

lemma lit_inject [simp]: "lit s = lit t \<longleftrightarrow> s = t"
  unfolding lit_def by (rule inj_map_eq_map [OF inj_of_char_nat])

lemma lit_append: "lit (s @ t) = lit s @ lit t"
  by (simp add: lit_def)

definition cp :: "char \<Rightarrow> nat" where
  "cp c = of_char c"

definition is_digit :: "nat \<Rightarrow> bool" where "is_digit c \<longleftrightarrow> 48 \<le> c \<and> c \<le> 57"
definition is_lower :: "nat \<Rightarrow> bool" where "is_lower c \<longleftrightarrow> 97 \<le> c \<and> c \<le> 122"
definition is_upper :: "nat \<Rightarrow> bool" where "is_upper c \<longleftrightarrow> 65 \<le> c \<and> c \<le> 90"
definition is_alnum_ascii :: "nat \<Rightarrow> bool" where
  "is_alnum_ascii c \<longleftrightarrow> is_digit c \<or> is_lower c \<or> is_upper c"

text \<open>\<open>str.isspace\<close>, which \<open>split()\<close> and \<open>strip()\<close> without arguments use.\<close>

definition py_isspace :: "nat \<Rightarrow> bool" where
  "py_isspace c \<longleftrightarrow> 9 \<le> c \<and> c \<le> 13 \<or> 28 \<le> c \<and> c \<le> 32 \<or> c = 0x85 \<or> c = 0xA0 \<or> c = 0x1680
     \<or> 0x2000 \<le> c \<and> c \<le> 0x200A \<or> c = 0x2028 \<or> c = 0x2029 \<or> c = 0x202F \<or> c = 0x205F \<or> c = 0x3000"

definition py_lstrip :: "pystr \<Rightarrow> pystr" where "py_lstrip s = dropWhile py_isspace s"
definition py_rstrip :: "pystr \<Rightarrow> pystr" where "py_rstrip s = rev (dropWhile py_isspace (rev s))"
definition py_strip :: "pystr \<Rightarrow> pystr" where "py_strip s = py_rstrip (py_lstrip s)"

fun split_on :: "nat \<Rightarrow> pystr \<Rightarrow> pystr list" where
  \<comment> \<open>\<open>s.split(sep)\<close> for one character\<close>
  "split_on sep [] = [[]]"
| "split_on sep (c # s) =
     (if c = sep then [] # split_on sep s
      else (case split_on sep s of g # gs \<Rightarrow> (c # g) # gs | [] \<Rightarrow> [[c]]))"

lemma split_on_sep: "sep \<notin> set a \<Longrightarrow> split_on sep (a @ sep # b) = a # split_on sep b" "sep \<notin> set a \<Longrightarrow> split_on sep a = [a]"
  by (induction a) auto

section \<open>The strict UTF-8 codec\<close>

definition is_surrogate :: "nat \<Rightarrow> bool" where
  "is_surrogate c \<longleftrightarrow> 0xD800 \<le> c \<and> c \<le> 0xDFFF"

definition utf8_bytes :: "nat \<Rightarrow> nat list" where
  \<comment> \<open>the bytes of one code point, as numbers\<close>
  "utf8_bytes c =
     (if c < 0x80 then [c]
      else if c < 0x800 then [0xC0 + c div 64, 0x80 + c mod 64]
      else if c < 0x10000 then [0xE0 + c div 4096, 0x80 + c div 64 mod 64, 0x80 + c mod 64]
      else [0xF0 + c div 262144, 0x80 + c div 4096 mod 64, 0x80 + c div 64 mod 64, 0x80 + c mod 64])"

definition encodable :: "nat \<Rightarrow> bool" where
  "encodable c \<longleftrightarrow> c < 0x110000 \<and> \<not> is_surrogate c"

definition utf8_encode :: "pystr \<Rightarrow> bytes option" where
  "utf8_encode s =
     (if list_all encodable s then Some (concat (map (map word_of_nat \<circ> utf8_bytes) s)) else None)"

definition utf8_lead :: "nat \<Rightarrow> (nat \<times> nat) option" where
  \<comment> \<open>length of the sequence and value bits of its first byte\<close>
  "utf8_lead b =
     (if b < 0x80 then Some (1, b)
      else if 0xC0 \<le> b \<and> b < 0xE0 then Some (2, b - 0xC0)
      else if 0xE0 \<le> b \<and> b < 0xF0 then Some (3, b - 0xE0)
      else if 0xF0 \<le> b \<and> b < 0xF8 then Some (4, b - 0xF0)
      else None)"

definition utf8_decode_one :: "nat list \<Rightarrow> (nat \<times> nat list) option" where
  "utf8_decode_one bs =
     (case bs of [] \<Rightarrow> None
      | b # _ \<Rightarrow>
        (case utf8_lead b of None \<Rightarrow> None
         | Some (n, v) \<Rightarrow>
             let c = foldl (\<lambda>a x. a * 64 + (x - 0x80)) v (take (n - 1) (tl bs)) in
             if encodable c \<and> utf8_bytes c = take n bs then Some (c, drop n bs) else None))"

lemma utf8_decode_one_shrinks: "utf8_decode_one bs = Some (c, rest) \<Longrightarrow> length rest < length bs"
  by (auto simp: utf8_decode_one_def utf8_lead_def Let_def split: list.splits option.splits if_splits)

function utf8_decode_nats :: "nat list \<Rightarrow> pystr option" where
  "utf8_decode_nats bs =
     (if bs = [] then Some []
      else case utf8_decode_one bs of
             None \<Rightarrow> None
           | Some (c, rest) \<Rightarrow> map_option (Cons c) (utf8_decode_nats rest))"
  by pat_completeness auto
termination
  by (relation "measure length") (auto dest: utf8_decode_one_shrinks)

declare utf8_decode_nats.simps [simp del]

definition utf8_decode :: "bytes \<Rightarrow> pystr option" where
  "utf8_decode bs = utf8_decode_nats (map unat bs)"

text \<open>\<open>len(text.encode("utf-8"))\<close>, with \<open>None\<close> when \<open>encode\<close> raises.\<close>

definition utf8_size :: "pystr \<Rightarrow> nat option" where
  "utf8_size s = map_option length (utf8_encode s)"

section \<open>Round trips\<close>

lemma utf8_bytes_less: "encodable c \<Longrightarrow> x \<in> set (utf8_bytes c) \<Longrightarrow> x < 256"
  by (auto simp: utf8_bytes_def encodable_def split: if_splits)

lemma utf8_bytes_nonempty [simp]: "utf8_bytes c \<noteq> []"
  by (simp add: utf8_bytes_def)

lemma decode_one_intro:
  assumes "utf8_lead b = Some (Suc (length cs), v)" and "utf8_bytes c = b # cs" and "encodable c"
    and "foldl (\<lambda>a x. a * 64 + (x - 0x80)) v cs = c"
  shows "utf8_decode_one (utf8_bytes c @ rest) = Some (c, rest)"
  using assms by (simp add: utf8_decode_one_def)

lemma base64_digits:
  "(c div 4096 * 64 + c div 64 mod 64) * 64 + c mod 64 = (c::nat)"
  "((c div 262144 * 64 + c div 4096 mod 64) * 64 + c div 64 mod 64) * 64 + c mod 64 = c"
proof -
  have d: "c div 4096 = c div 64 div 64" "c div 262144 = c div 64 div 64 div 64"
    by (simp_all add: div_mult2_eq [symmetric])
  show "(c div 4096 * 64 + c div 64 mod 64) * 64 + c mod 64 = c"
    by (simp only: d div_mult_mod_eq)
  show "((c div 262144 * 64 + c div 4096 mod 64) * 64 + c div 64 mod 64) * 64 + c mod 64 = c"
    by (simp only: d div_mult_mod_eq)
qed

lemma decode_one_utf8_bytes:
  assumes "encodable c"
  shows "utf8_decode_one (utf8_bytes c @ rest) = Some (c, rest)"
proof -
  consider "c < 0x80" | "0x80 \<le> c" "c < 0x800" | "0x800 \<le> c" "c < 0x10000" | "0x10000 \<le> c"
    by linarith
  then show ?thesis
  proof cases
    case 1
    show ?thesis
      by (rule decode_one_intro [OF _ _ assms, where b = c and cs = "[]" and v = c])
        (use 1 in \<open>simp_all add: utf8_bytes_def utf8_lead_def\<close>)
  next
    case 2
    show ?thesis
      by (rule decode_one_intro [OF _ _ assms, where v = "c div 64" and b = "0xC0 + c div 64"
            and cs = "[0x80 + c mod 64]"])
        (use 2 in \<open>simp_all add: utf8_bytes_def utf8_lead_def\<close>)
  next
    case 3
    show ?thesis
      by (rule decode_one_intro [OF _ _ assms, where v = "c div 4096" and b = "0xE0 + c div 4096"
            and cs = "[0x80 + c div 64 mod 64, 0x80 + c mod 64]"])
        (use 3 base64_digits(1) [of c] in \<open>simp_all add: utf8_bytes_def utf8_lead_def\<close>)
  next
    case 4
    have "c div 262144 < 8" using assms by (auto simp: encodable_def)
    then show ?thesis
      by (intro decode_one_intro [OF _ _ assms, where v = "c div 262144" and b = "0xF0 + c div 262144"
            and cs = "[0x80 + c div 4096 mod 64, 0x80 + c div 64 mod 64, 0x80 + c mod 64]"])
        (use 4 base64_digits(2) [of c] in \<open>simp_all add: utf8_bytes_def utf8_lead_def\<close>)
  qed
qed

lemma decode_nats_concat:
  "list_all encodable s \<Longrightarrow> utf8_decode_nats (concat (map utf8_bytes s)) = Some s"
proof (induction s)
  case Nil
  then show ?case by (simp add: utf8_decode_nats.simps)
next
  case (Cons c s)
  then show ?case
    by (subst utf8_decode_nats.simps) (simp add: decode_one_utf8_bytes)
qed

lemma unat_utf8_bytes:
  "encodable c \<Longrightarrow> map unat (map word_of_nat (utf8_bytes c) :: bytes) = utf8_bytes c"
  unfolding map_map by (rule map_idI) (use utf8_bytes_less in fastforce)

lemma utf8_encode_nats:
  assumes "utf8_encode s = Some bs"
  shows "list_all encodable s" and "map unat bs = concat (map utf8_bytes s)"
proof -
  from assms show s: "list_all encodable s" by (auto simp: utf8_encode_def split: if_splits)
  have bs: "bs = concat (map (map word_of_nat \<circ> utf8_bytes) s)"
    using assms s by (simp add: utf8_encode_def)
  have "map unat bs = concat (map (\<lambda>c. map unat (map word_of_nat (utf8_bytes c) :: bytes)) s)"
    by (simp add: bs map_concat o_def)
  also have "\<dots> = concat (map utf8_bytes s)"
    using s unat_utf8_bytes by (intro arg_cong [where f = concat] map_cong) (auto simp: list_all_iff)
  finally show "map unat bs = concat (map utf8_bytes s)" .
qed

lemma utf8_decode_encode: "utf8_encode s = Some bs \<Longrightarrow> utf8_decode bs = Some s"
  using utf8_encode_nats [of s bs] decode_nats_concat [of s] by (simp add: utf8_decode_def)

lemma utf8_decode_one_Some:
  "utf8_decode_one bs = Some (c, rest) \<Longrightarrow> encodable c \<and> bs = utf8_bytes c @ rest"
  by (auto simp: utf8_decode_one_def Let_def split: list.splits option.splits if_splits)

lemma decode_nats_Some:
  "utf8_decode_nats ns = Some s \<Longrightarrow> list_all encodable s \<and> ns = concat (map utf8_bytes s)"
proof (induction ns arbitrary: s rule: utf8_decode_nats.induct)
  case (1 bs)
  show ?case
  proof (cases "bs = []")
    case True
    then show ?thesis using "1.prems" by (simp add: utf8_decode_nats.simps)
  next
    case False
    from "1.prems" False obtain c rest t where
      d: "utf8_decode_one bs = Some (c, rest)" and t: "utf8_decode_nats rest = Some t" "s = c # t"
      by (subst (asm) utf8_decode_nats.simps) (auto split: option.splits)
    from "1.IH" [OF False d refl t(1)] utf8_decode_one_Some [OF d] t(2) show ?thesis by simp
  qed
qed

lemma utf8_encode_decode:
  assumes "utf8_decode bs = Some s"
  shows "utf8_encode s = Some bs"
proof -
  from assms have s: "list_all encodable s" and bs: "map unat bs = concat (map utf8_bytes s)"
    using decode_nats_Some by (auto simp: utf8_decode_def)
  have "map (word_of_nat :: nat \<Rightarrow> byte) (map unat bs) = bs" by (simp add: o_def)
  then have "bs = concat (map (map word_of_nat \<circ> utf8_bytes) s)"
    by (simp add: bs map_concat o_def)
  with s show ?thesis by (simp add: utf8_encode_def)
qed

lemma utf8_encode_inject:
  "utf8_encode s = Some bs \<Longrightarrow> utf8_encode t = Some bs \<Longrightarrow> s = t"
  by (metis option.inject utf8_decode_encode)

lemma utf8_size_append:
  "utf8_size (s @ t) = (case utf8_size s of None \<Rightarrow> None
     | Some m \<Rightarrow> (case utf8_size t of None \<Rightarrow> None | Some n \<Rightarrow> Some (m + n)))"
  by (auto simp: utf8_size_def utf8_encode_def)

lemma utf8_size_ge_length: "utf8_size s = Some n \<Longrightarrow> length s \<le> n"
proof (induction s arbitrary: n)
  case Nil
  then show ?case by simp
next
  case (Cons c s)
  have "1 \<le> length (utf8_bytes c)" by (simp add: utf8_bytes_def)
  with Cons show ?case by (auto simp: utf8_size_def utf8_encode_def split: if_splits)
qed

lemma encodable_ascii [simp]: "c < 128 \<Longrightarrow> encodable c"
  by (simp add: encodable_def is_surrogate_def)

lemma lit_less: "x \<in> set (lit s) \<Longrightarrow> x < 256"
  by (auto simp: lit_def)

end
