(* ===== verification/Strict_Json.thy ===== *)
theory Strict_Json
  imports Py_Text
begin

text \<open>
  The strict JSON reader of \<^verbatim>\<open>strict_json.py\<close> on top of a model of the standard library's
  \<open>json\<close> scanner, and the compact writer \<open>json.dumps(..., ensure_ascii=False,
  separators=(",", ":"))\<close>. The recursion limit of the interpreter is a parameter: a value
  nested deeper than it raises \<open>RecursionError\<close>. A float keeps the text of its literal.
\<close>

section \<open>Values\<close>

datatype json =
    JNull
  | JBool bool
  | JInt int
  | JFloat pystr
  | JStr pystr
  | JArr "json list"
  | JObj "(pystr \<times> json) list"

definition jget :: "(pystr \<times> json) list \<Rightarrow> string \<Rightarrow> json" where
  \<comment> \<open>\<open>d.get(key)\<close>\<close>
  "jget kvs k = (case map_of kvs (lit k) of None \<Rightarrow> JNull | Some v \<Rightarrow> v)"

definition jhas :: "(pystr \<times> json) list \<Rightarrow> string \<Rightarrow> bool" where
  "jhas kvs k \<longleftrightarrow> map_of kvs (lit k) \<noteq> None"

section \<open>Scanning\<close>

definition is_ws :: "nat \<Rightarrow> bool" where
  "is_ws c \<longleftrightarrow> c = 32 \<or> c = 9 \<or> c = 10 \<or> c = 13"

definition skip_ws :: "pystr \<Rightarrow> pystr" where
  "skip_ws s = dropWhile is_ws s"

definition hex_val :: "nat \<Rightarrow> nat option" where
  "hex_val c =
     (if is_digit c then Some (c - 48)
      else if 97 \<le> c \<and> c \<le> 102 then Some (c - 87)
      else if 65 \<le> c \<and> c \<le> 70 then Some (c - 55)
      else None)"

definition hex4 :: "pystr \<Rightarrow> (nat \<times> pystr) option" where
  "hex4 s =
     (case s of
        a # b # c # d # r \<Rightarrow>
          (case (hex_val a, hex_val b, hex_val c, hex_val d) of
             (Some w, Some x, Some y, Some z) \<Rightarrow> Some (((w * 16 + x) * 16 + y) * 16 + z, r)
           | _ \<Rightarrow> None)
      | _ \<Rightarrow> None)"

definition is_high :: "nat \<Rightarrow> bool" where "is_high c \<longleftrightarrow> 0xD800 \<le> c \<and> c \<le> 0xDBFF"
definition is_low :: "nat \<Rightarrow> bool" where "is_low c \<longleftrightarrow> 0xDC00 \<le> c \<and> c \<le> 0xDFFF"

definition scan_unicode :: "pystr \<Rightarrow> (nat \<times> pystr) option" where
  \<comment> \<open>after \<open>\u\<close>: four digits, and a second escape when the first is a high surrogate\<close>
  "scan_unicode s =
     (case hex4 s of
        None \<Rightarrow> None
      | Some (u, r) \<Rightarrow>
          if is_high u \<and> take 2 r = [92, 117]
          then (case hex4 (drop 2 r) of
                  None \<Rightarrow> None
                | Some (v, r2) \<Rightarrow>
                    if is_low v then Some (0x10000 + (u - 0xD800) * 1024 + (v - 0xDC00), r2)
                    else Some (u, r))
          else Some (u, r))"

definition escape_char :: "nat \<Rightarrow> nat option" where
  "escape_char c =
     (if c = 34 then Some 34 else if c = 92 then Some 92 else if c = 47 then Some 47
      else if c = 98 then Some 8 else if c = 102 then Some 12 else if c = 110 then Some 10
      else if c = 114 then Some 13 else if c = 116 then Some 9 else None)"

text \<open>One unit of a string body: its end, or a character and what follows.\<close>

definition scan_unit :: "pystr \<Rightarrow> (nat option \<times> pystr) option" where
  "scan_unit s =
     (case s of
        [] \<Rightarrow> None
      | c # r \<Rightarrow>
          if c = 34 then Some (None, r)
          else if c = 92
          then (case r of
                  [] \<Rightarrow> None
                | e # r2 \<Rightarrow>
                    if e = 117
                    then map_option (\<lambda>(u, r3). (Some u, r3)) (scan_unicode r2)
                    else map_option (\<lambda>u. (Some u, r2)) (escape_char e))
          else if c < 32 then None
          else Some (Some c, r))"

lemma hex4_shrinks: "hex4 s = Some (u, r) \<Longrightarrow> length r < length s"
  by (auto simp: hex4_def split: list.splits option.splits)

lemma scan_unicode_shrinks: "scan_unicode s = Some (u, r) \<Longrightarrow> length r < length s"
  by (auto simp: scan_unicode_def dest!: hex4_shrinks split: option.splits if_splits)

lemma scan_unit_shrinks: "scan_unit s = Some (u, r) \<Longrightarrow> length r < length s"
  by (auto simp: scan_unit_def dest!: scan_unicode_shrinks split: list.splits if_splits)

function scan_string :: "pystr \<Rightarrow> (pystr \<times> pystr) option" where
  "scan_string s =
     (case scan_unit s of
        None \<Rightarrow> None
      | Some (None, r) \<Rightarrow> Some ([], r)
      | Some (Some c, r) \<Rightarrow> map_option (\<lambda>(t, r2). (c # t, r2)) (scan_string r))"
  by pat_completeness auto
termination
  by (relation "measure length") (auto dest: scan_unit_shrinks)

declare scan_string.simps [simp del]

definition digits_val :: "pystr \<Rightarrow> nat" where
  "digits_val ds = foldl (\<lambda>a d. a * 10 + (d - 48)) 0 ds"

definition INT_MAX_STR_DIGITS :: nat where "INT_MAX_STR_DIGITS = 4300"

definition scan_frac :: "pystr \<Rightarrow> pystr \<times> pystr" where
  "scan_frac r =
     (case r of
        c # r2 \<Rightarrow> if c = 46 \<and> takeWhile is_digit r2 \<noteq> []
                   then (46 # takeWhile is_digit r2, dropWhile is_digit r2) else ([], r)
      | [] \<Rightarrow> ([], r))"

definition scan_exp :: "pystr \<Rightarrow> pystr \<times> pystr" where
  "scan_exp r =
     (case r of
        c # r2 \<Rightarrow>
          if c = 101 \<or> c = 69
          then let sign = (case r2 of x # _ \<Rightarrow> if x = 43 \<or> x = 45 then [x] else [] | [] \<Rightarrow> []);
                   r3 = drop (length sign) r2
               in if takeWhile is_digit r3 \<noteq> []
                  then (c # sign @ takeWhile is_digit r3, dropWhile is_digit r3) else ([], r)
          else ([], r)
      | [] \<Rightarrow> ([], r))"

definition int_digits :: "pystr \<Rightarrow> pystr" where
  \<comment> \<open>\<open>0|[1-9][0-9]*\<close>\<close>
  "int_digits s = (case s of c # _ \<Rightarrow> if c = 48 then [48] else takeWhile is_digit s | [] \<Rightarrow> [])"

definition scan_number :: "pystr \<Rightarrow> (json \<times> pystr) option" where
  "scan_number s =
     (let neg = (case s of c # _ \<Rightarrow> c = 45 | [] \<Rightarrow> False);
          s1 = (if neg then tl s else s);
          ds = int_digits s1;
          r = drop (length ds) s1
      in if ds = [] then None
         else case scan_frac r of (fr, r2) \<Rightarrow> (case scan_exp r2 of (expo, r3) \<Rightarrow>
           if fr \<noteq> [] \<or> expo \<noteq> []
           then Some (JFloat ((if neg then [45] else []) @ ds @ fr @ expo), r3)
           else if length ds > INT_MAX_STR_DIGITS then None
           else Some (JInt (if neg then - int (digits_val ds) else int (digits_val ds)), r3)))"

definition scan_literal :: "pystr \<Rightarrow> (json \<times> pystr) option" where
  "scan_literal s =
     (if take 4 s = lit ''null'' then Some (JNull, drop 4 s)
      else if take 4 s = lit ''true'' then Some (JBool True, drop 4 s)
      else if take 5 s = lit ''false'' then Some (JBool False, drop 5 s)
      else scan_number s)"

section \<open>Containers\<close>

text \<open>
  The loops over elements and members take the scanner of one value as an argument and a
  bound on the number of elements; the length of the text is always enough.
\<close>

primrec scan_elems :: "nat \<Rightarrow> (pystr \<Rightarrow> (json \<times> pystr) option) \<Rightarrow> pystr \<Rightarrow> (json list \<times> pystr) option" where
  "scan_elems 0 val s = None"
| "scan_elems (Suc n) val s =
     (case val s of
        None \<Rightarrow> None
      | Some (v, r) \<Rightarrow>
          (case skip_ws r of
             [] \<Rightarrow> None
           | c # r2 \<Rightarrow>
               if c = 93 then Some ([v], r2)
               else if c = 44
               then map_option (\<lambda>(vs, r3). (v # vs, r3)) (scan_elems n val (skip_ws r2))
               else None))"

definition scan_key :: "pystr \<Rightarrow> (pystr \<times> pystr) option" where
  \<comment> \<open>a quoted key and its colon\<close>
  "scan_key s =
     (case s of
        [] \<Rightarrow> None
      | c # r \<Rightarrow>
          if c \<noteq> 34 then None
          else (case scan_string r of
                  None \<Rightarrow> None
                | Some (k, r2) \<Rightarrow>
                    (case skip_ws r2 of
                       [] \<Rightarrow> None
                     | d # r3 \<Rightarrow> if d = 58 then Some (k, skip_ws r3) else None)))"

primrec scan_members ::
  "nat \<Rightarrow> (pystr \<Rightarrow> (json \<times> pystr) option) \<Rightarrow> pystr \<Rightarrow> ((pystr \<times> json) list \<times> pystr) option" where
  "scan_members 0 val s = None"
| "scan_members (Suc n) val s =
     (case scan_key s of
        None \<Rightarrow> None
      | Some (k, r) \<Rightarrow>
          (case val r of
             None \<Rightarrow> None
           | Some (v, r2) \<Rightarrow>
               (case skip_ws r2 of
                  [] \<Rightarrow> None
                | c # r3 \<Rightarrow>
                    if c = 125 then Some ([(k, v)], r3)
                    else if c = 44
                    then map_option (\<lambda>(kvs, r4). ((k, v) # kvs, r4)) (scan_members n val (skip_ws r3))
                    else None)))"

text \<open>\<open>_reject_duplicate_keys\<close>: the hook receives the pairs of every object it closes.\<close>

fun reject_duplicate_keys :: "(pystr \<times> json) list \<Rightarrow> (pystr \<times> json) list \<Rightarrow> json option" where
  "reject_duplicate_keys result [] = Some (JObj result)"
| "reject_duplicate_keys result ((key, value) # pairs) =
     (if map_of result key \<noteq> None then None
      else reject_duplicate_keys (result @ [(key, value)]) pairs)"

definition scan_container ::
  "(pystr \<Rightarrow> (json \<times> pystr) option) \<Rightarrow> nat \<Rightarrow> pystr \<Rightarrow> (json \<times> pystr) option" where
  "scan_container val opener r =
     (let r1 = skip_ws r in
      if opener = 91
      then (case r1 of
              [] \<Rightarrow> None
            | c # r2 \<Rightarrow> if c = 93 then Some (JArr [], r2)
                        else map_option (\<lambda>(vs, r3). (JArr vs, r3)) (scan_elems (length r1) val r1))
      else (case r1 of
              [] \<Rightarrow> None
            | c # r2 \<Rightarrow>
                if c = 125 then Some (JObj [], r2)
                else (case scan_members (length r1) val r1 of
                        None \<Rightarrow> None
                      | Some (kvs, r3) \<Rightarrow>
                          map_option (\<lambda>v. (v, r3)) (reject_duplicate_keys [] kvs))))"

primrec scan_value :: "nat \<Rightarrow> pystr \<Rightarrow> (json \<times> pystr) option" where
  "scan_value 0 s =
     (case s of
        [] \<Rightarrow> None
      | c # r \<Rightarrow> if c = 34 then map_option (\<lambda>(t, r2). (JStr t, r2)) (scan_string r)
                  else if c = 91 \<or> c = 123 then None
                  else scan_literal s)"
| "scan_value (Suc d) s =
     (case s of
        [] \<Rightarrow> None
      | c # r \<Rightarrow> if c = 34 then map_option (\<lambda>(t, r2). (JStr t, r2)) (scan_string r)
                  else if c = 91 \<or> c = 123 then scan_container (scan_value d) c r
                  else scan_literal s)"

definition loads_strict :: "nat \<Rightarrow> pystr \<Rightarrow> json option" where
  "loads_strict recursion_limit s =
     (if take 1 s = [0xFEFF] then None
      else (case scan_value recursion_limit (skip_ws s) of
              None \<Rightarrow> None
            | Some (v, r) \<Rightarrow> if skip_ws r = [] then Some v else None))"

section \<open>The compact writer\<close>

definition hex_digit :: "nat \<Rightarrow> nat" where
  "hex_digit n = (if n < 10 then 48 + n else 87 + n)"

definition escape_out :: "nat \<Rightarrow> pystr" where
  "escape_out c =
     (if c = 34 then [92, 34] else if c = 92 then [92, 92] else if c = 10 then [92, 110]
      else if c = 13 then [92, 114] else if c = 9 then [92, 116] else if c = 12 then [92, 102]
      else if c = 8 then [92, 98]
      else if c < 32 then [92, 117, 48, 48, hex_digit (c div 16), hex_digit (c mod 16)]
      else [c])"

definition dumps_str :: "pystr \<Rightarrow> pystr" where
  "dumps_str s = 34 # concat (map escape_out s) @ [34]"

fun nat_digits :: "nat \<Rightarrow> pystr" where
  "nat_digits n = (if n < 10 then [48 + n] else nat_digits (n div 10) @ [48 + n mod 10])"

declare nat_digits.simps [simp del]

definition dumps_int :: "int \<Rightarrow> pystr" where
  "dumps_int i = (if i < 0 then 45 # nat_digits (nat (- i)) else nat_digits (nat i))"

fun comma_join :: "pystr list \<Rightarrow> pystr" where
  "comma_join [] = []"
| "comma_join [x] = x"
| "comma_join (x # y # xs) = x @ 44 # comma_join (y # xs)"

primrec dumps :: "json \<Rightarrow> pystr" where
  "dumps JNull = lit ''null''"
| "dumps (JBool b) = (if b then lit ''true'' else lit ''false'')"
| "dumps (JInt i) = dumps_int i"
| "dumps (JFloat t) = t"
| "dumps (JStr s) = dumps_str s"
| "dumps (JArr vs) = 91 # comma_join (map dumps vs) @ [93]"
| "dumps (JObj kvs) = 123 # comma_join (map (\<lambda>(k, t). dumps_str k @ 58 # t) (map (map_prod id dumps) kvs)) @ [125]"

text \<open>
  The writer over any table of escapes and any separators; \<open>dumps\<close> is its instance with the
  escapes of \<open>ensure_ascii=False\<close> and the compact separators.
\<close>

fun sep_join :: "pystr \<Rightarrow> pystr list \<Rightarrow> pystr" where
  "sep_join sep [] = []"
| "sep_join sep [x] = x"
| "sep_join sep (x # y # xs) = x @ sep @ sep_join sep (y # xs)"

definition dumps_str_with :: "(nat \<Rightarrow> pystr) \<Rightarrow> pystr \<Rightarrow> pystr" where
  "dumps_str_with esc s = 34 # concat (map esc s) @ [34]"

primrec dumps_with :: "(nat \<Rightarrow> pystr) \<Rightarrow> pystr \<Rightarrow> pystr \<Rightarrow> json \<Rightarrow> pystr" where
  "dumps_with esc isep ksep JNull = lit ''null''"
| "dumps_with esc isep ksep (JBool b) = (if b then lit ''true'' else lit ''false'')"
| "dumps_with esc isep ksep (JInt i) = dumps_int i"
| "dumps_with esc isep ksep (JFloat t) = t"
| "dumps_with esc isep ksep (JStr s) = dumps_str_with esc s"
| "dumps_with esc isep ksep (JArr vs) = 91 # sep_join isep (map (dumps_with esc isep ksep) vs) @ [93]"
| "dumps_with esc isep ksep (JObj kvs) =
     123 # sep_join isep (map (\<lambda>(k, t). dumps_str_with esc k @ ksep @ t)
             (map (map_prod id (dumps_with esc isep ksep)) kvs)) @ [125]"

lemma comma_join_sep: "sep_join [44] xs = comma_join xs"
  by (induction xs rule: comma_join.induct) simp_all

lemma dumps_with_compact: "dumps_with escape_out [44] [58] v = dumps v"
proof (induction v)
  case (JObj kvs)
  then have "map (map_prod id (dumps_with escape_out [44] [58])) kvs = map (map_prod id dumps) kvs"
    by (fastforce simp: map_prod_def)
  then show ?case
    by (simp only: dumps_with.simps dumps.simps comma_join_sep dumps_str_with_def dumps_str_def append_Cons append_Nil)
next
  case (JArr vs)
  then have "map (dumps_with escape_out [44] [58]) vs = map dumps vs" by simp
  then show ?case by (simp only: dumps_with.simps dumps.simps comma_join_sep)
qed (simp_all add: dumps_str_with_def dumps_str_def)

section \<open>Numbers\<close>

lemma nat_digits_props: "nat_digits n \<noteq> [] \<and> list_all is_digit (nat_digits n)
    \<and> digits_val (nat_digits n) = n \<and> (hd (nat_digits n) = 48 \<longrightarrow> n = 0)"
proof (induction n rule: nat_digits.induct)
  case (1 n)
  show ?case
  proof (cases "n < 10")
    case True
    then show ?thesis by (subst nat_digits.simps, simp add: is_digit_def digits_val_def nat_digits.simps)
  next
    case False
    then have step: "nat_digits n = nat_digits (n div 10) @ [48 + n mod 10]"
      by (simp add: nat_digits.simps [of n])
    have "digits_val (nat_digits n) = digits_val (nat_digits (n div 10)) * 10 + n mod 10"
      by (simp add: step digits_val_def)
    moreover have "list_all is_digit (nat_digits n)"
    proof -
      have "is_digit (48 + n mod 10)" by (simp add: is_digit_def)
      then show ?thesis using "1.IH" [OF False] by (simp add: step)
    qed
    moreover have "hd (nat_digits n) = 48 \<longrightarrow> n = 0"
      using "1.IH" [OF False] False by (auto simp: step)
    ultimately show ?thesis using "1.IH" [OF False] step by simp
  qed
qed

lemma nat_digits_zero [simp]: "nat_digits 0 = [48]"
  by (simp add: nat_digits.simps)

definition num_end :: "pystr \<Rightarrow> bool" where
  "num_end r \<longleftrightarrow> (case r of [] \<Rightarrow> True | c # _ \<Rightarrow> \<not> is_digit c \<and> c \<noteq> 46 \<and> c \<noteq> 101 \<and> c \<noteq> 69)"

lemma scan_frac_end: "num_end r \<Longrightarrow> scan_frac r = ([], r)"
  by (cases r) (auto simp: scan_frac_def num_end_def)

lemma scan_exp_end: "num_end r \<Longrightarrow> scan_exp r = ([], r)"
  by (cases r) (auto simp: scan_exp_def num_end_def)

lemma takeWhile_digits:
  "list_all is_digit ds \<Longrightarrow> num_end r \<Longrightarrow> takeWhile is_digit (ds @ r) = ds"
  by (cases r) (auto simp: takeWhile_append num_end_def list_all_iff)

lemma digits_scan:
  assumes "num_end r"
  shows "int_digits (nat_digits n @ r) = nat_digits n"
proof -
  note p = nat_digits_props [of n]
  obtain d ds where d: "nat_digits n = d # ds" using p by (cases "nat_digits n") auto
  show ?thesis
  proof (cases "d = 48")
    case True
    then have "n = 0" using p d by simp
    then show ?thesis by (simp add: int_digits_def)
  next
    case False
    then show ?thesis using takeWhile_digits [of "nat_digits n" r] p assms d by (simp add: int_digits_def)
  qed
qed

lemma digit_not_minus: "hd (nat_digits n) \<noteq> 45"
  using nat_digits_props [of n] by (cases "nat_digits n") (auto simp: is_digit_def)

lemma scan_number_nat:
  assumes "num_end r" and "length (nat_digits n) \<le> INT_MAX_STR_DIGITS"
  shows "scan_number (nat_digits n @ r) = Some (JInt (int n), r)"
    and "scan_number (45 # nat_digits n @ r) = Some (JInt (- int n), r)"
proof -
  note p = nat_digits_props [of n]
  obtain d ds where d: "nat_digits n = d # ds" using p by (cases "nat_digits n") auto
  have neg: "(case nat_digits n @ r of c # _ \<Rightarrow> c = 45 | [] \<Rightarrow> False) = False"
    using digit_not_minus [of n] d by simp
  show "scan_number (nat_digits n @ r) = Some (JInt (int n), r)"
    unfolding scan_number_def neg Let_def
    using digits_scan [OF assms(1), of n] p assms scan_frac_end scan_exp_end by simp
  show "scan_number (45 # nat_digits n @ r) = Some (JInt (- int n), r)"
    unfolding scan_number_def Let_def
    using digits_scan [OF assms(1), of n] p assms scan_frac_end scan_exp_end by simp
qed

lemma nth_take_lit_digit:
  assumes "is_digit c \<or> c = 45"
  shows "scan_literal (c # s) = scan_number (c # s)"
  using assms by (auto simp: scan_literal_def lit_def is_digit_def)

lemma scan_literal_int:
  assumes "num_end r" and "length (nat_digits (nat \<bar>i\<bar>)) \<le> INT_MAX_STR_DIGITS"
  shows "scan_literal (dumps_int i @ r) = Some (JInt i, r)"
proof (cases "i < 0")
  case True
  with scan_number_nat(2) [OF assms(1), of "nat (- i)"] assms(2) show ?thesis
    by (simp add: dumps_int_def nth_take_lit_digit)
next
  case False
  obtain d ds where d: "nat_digits (nat i) = d # ds" "is_digit d"
    using nat_digits_props [of "nat i"] by (cases "nat_digits (nat i)") auto
  with False scan_number_nat(1) [OF assms(1), of "nat i"] assms(2) show ?thesis
    by (simp add: dumps_int_def nth_take_lit_digit)
qed

section \<open>Strings\<close>

lemma scan_unit_escape_out: "scan_unit (escape_out c @ r) = Some (Some c, r)"
proof -
  consider "c \<in> {34, 92, 10, 13, 9, 12, 8}" | "c < 32" "c \<notin> {10, 13, 9, 12, 8}"
    | "32 \<le> c" "c \<notin> {34, 92}" by force
  then show ?thesis
  proof cases
    case 1
    then show ?thesis by (auto simp: escape_out_def scan_unit_def escape_char_def)
  next
    case 2
    have "hex_val (hex_digit (c mod 16)) = Some (c mod 16)"
      by (auto simp: hex_val_def hex_digit_def is_digit_def)
    moreover have "hex_val (hex_digit (c div 16)) = Some (c div 16)"
      using 2 by (auto simp: hex_val_def hex_digit_def is_digit_def)
    moreover have "hex_val 48 = Some 0" by (simp add: hex_val_def is_digit_def)
    ultimately have "hex4 (48 # 48 # hex_digit (c div 16) # hex_digit (c mod 16) # r) = Some (c, r)"
      by (simp add: hex4_def)
    with 2 show ?thesis
      by (auto simp: escape_out_def scan_unit_def scan_unicode_def is_high_def)
  next
    case 3
    then show ?thesis by (auto simp: escape_out_def scan_unit_def)
  qed
qed

section \<open>The writer's output is read back\<close>

primrec jdepth :: "json \<Rightarrow> nat" where
  "jdepth JNull = 0" | "jdepth (JBool b) = 0" | "jdepth (JInt i) = 0" | "jdepth (JFloat t) = 0"
| "jdepth (JStr s) = 0"
| "jdepth (JArr vs) = Suc (foldr max (map jdepth vs) 0)"
| "jdepth (JObj kvs) = Suc (foldr max (map snd (map (map_prod id jdepth) kvs)) 0)"

text \<open>Values without floats, with distinct keys in every object and integers that \<open>str\<close> accepts.\<close>

primrec plain :: "json \<Rightarrow> bool" where
  "plain JNull = True" | "plain (JBool b) = True"
| "plain (JInt i) = (length (nat_digits (nat \<bar>i\<bar>)) \<le> INT_MAX_STR_DIGITS)"
| "plain (JFloat t) = False"
| "plain (JStr s) = True"
| "plain (JArr vs) = list_all id (map plain vs)"
| "plain (JObj kvs) = (distinct (map fst kvs) \<and> list_all snd (map (map_prod id plain) kvs))"

lemma foldr_max_le: "foldr max ns 0 \<le> (d::nat) \<longleftrightarrow> (\<forall>n \<in> set ns. n \<le> d)"
  by (induction ns) auto

lemma jdepth_elem: "jdepth (JArr vs) \<le> Suc d \<longleftrightarrow> (\<forall>v \<in> set vs. jdepth v \<le> d)"
  by (simp add: foldr_max_le)

lemma jdepth_member: "jdepth (JObj kvs) \<le> Suc d \<longleftrightarrow> (\<forall>(k, v) \<in> set kvs. jdepth v \<le> d)"
  by (auto simp: foldr_max_le)

lemma plain_elem: "plain (JArr vs) \<longleftrightarrow> (\<forall>v \<in> set vs. plain v)"
  by (auto simp: list_all_iff)

lemma plain_member: "plain (JObj kvs) \<longleftrightarrow> distinct (map fst kvs) \<and> (\<forall>(k, v) \<in> set kvs. plain v)"
  by (auto simp: list_all_iff)

definition value_head :: "nat \<Rightarrow> bool" where
  "value_head c \<longleftrightarrow> \<not> is_ws c \<and> c \<noteq> 93 \<and> c \<noteq> 125 \<and> c \<noteq> 0xFEFF"

lemma skip_ws_head: "value_head c \<Longrightarrow> skip_ws (c # s) = c # s"
  by (simp add: skip_ws_def value_head_def)

lemma skip_ws_punct [simp]:
  "skip_ws (44 # s) = 44 # s" "skip_ws (93 # s) = 93 # s" "skip_ws (125 # s) = 125 # s"
  "skip_ws (58 # s) = 58 # s" "skip_ws (34 # s) = 34 # s" "skip_ws [] = []"
  by (simp_all add: skip_ws_def is_ws_def)

lemma num_end_punct [simp]: "num_end (44 # s)" "num_end (93 # s)" "num_end (125 # s)" "num_end []"
  by (simp_all add: num_end_def is_digit_def)

lemma sep_join_head:
  assumes "xs = x # ys" and "x = c # t"
  shows "\<exists>u. sep_join sep xs = c # u"
  using assms by (cases ys) auto

lemma reject_duplicate_keys_iff:
  "distinct (map fst result) \<Longrightarrow> reject_duplicate_keys result pairs = Some v \<longleftrightarrow>
     distinct (map fst (result @ pairs)) \<and> v = JObj (result @ pairs)"
proof (induction result pairs rule: reject_duplicate_keys.induct)
  case (1 result)
  then show ?case by auto
next
  case (2 result key val pairs)
  show ?case
  proof (cases "map_of result key = None")
    case True
    then have "key \<notin> fst ` set result" by (simp add: map_of_eq_None_iff)
    then show ?thesis using 2 True by auto
  next
    case False
    then have "key \<in> fst ` set result" by (simp add: map_of_eq_None_iff)
    then show ?thesis using False by auto
  qed
qed

lemma sep_join_length: "(\<forall>x \<in> set xs. x \<noteq> []) \<Longrightarrow> length xs \<le> length (sep_join sep xs)"
proof (induction sep xs rule: sep_join.induct)
  case (2 sep x)
  then show ?case by (cases x) auto
next
  case (3 sep x y xs)
  then show ?case by (cases x) auto
qed auto

lemma scan_value_scalar:
  "c \<noteq> 91 \<Longrightarrow> c \<noteq> 123 \<Longrightarrow> scan_value d (c # r) =
     (if c = 34 then map_option (\<lambda>(t, r2). (JStr t, r2)) (scan_string r) else scan_literal (c # r))"
  by (cases d) simp_all

lemma scan_value_int:
  assumes "num_end r" and "length (nat_digits (nat \<bar>i\<bar>)) \<le> INT_MAX_STR_DIGITS"
  shows "scan_value d (dumps_int i @ r) = Some (JInt i, r)"
proof -
  obtain c t where c: "dumps_int i = c # t" "is_digit c \<or> c = 45"
    using nat_digits_props [of "nat i"] nat_digits_props [of "nat (- i)"]
    by (cases "i < 0"; cases "nat_digits (nat i)") (auto simp: dumps_int_def)
  with scan_literal_int [OF assms] show ?thesis
    by (auto simp: scan_value_scalar is_digit_def)
qed

text \<open>
  A value whose strings and keys are all \<open>clean\<close>, and the text of one member. A writer is
  read back when its escapes of a clean string are: that is the contract of \<open>json_writer\<close>,
  and the client's theorem is that whole values are.
\<close>

primrec clean_json :: "(pystr \<Rightarrow> bool) \<Rightarrow> json \<Rightarrow> bool" where
  "clean_json clean JNull = True" | "clean_json clean (JBool b) = True"
| "clean_json clean (JInt i) = True" | "clean_json clean (JFloat t) = True"
| "clean_json clean (JStr s) = clean s"
| "clean_json clean (JArr vs) = list_all id (map (clean_json clean) vs)"
| "clean_json clean (JObj kvs) =
     (list_all clean (map fst kvs) \<and> list_all snd (map (map_prod id (clean_json clean)) kvs))"

lemma clean_elem: "clean_json clean (JArr vs) \<longleftrightarrow> (\<forall>v \<in> set vs. clean_json clean v)"
  by (auto simp: list_all_iff)

lemma clean_member:
  "clean_json clean (JObj kvs) \<longleftrightarrow> (\<forall>(k, v) \<in> set kvs. clean k \<and> clean_json clean v)"
  by (auto simp: list_all_iff)

lemma clean_json_top: "clean_json (\<lambda>_. True) v"
  by (induction v) (auto simp: list_all_iff)

definition member_text :: "(nat \<Rightarrow> pystr) \<Rightarrow> pystr \<times> json \<Rightarrow> pystr" where
  "member_text esc kv = dumps_str_with esc (fst kv) @ 58 # dumps_with esc [44] [58] (snd kv)"

definition reads_as :: "(json \<Rightarrow> pystr) \<Rightarrow> (pystr \<Rightarrow> (json \<times> pystr) option) \<Rightarrow> json \<Rightarrow> bool" where
  "reads_as wr val v \<longleftrightarrow> (\<forall>r. num_end r \<longrightarrow> val (wr v @ r) = Some (v, r))"

locale json_writer =
  fixes esc :: "nat \<Rightarrow> pystr"
    and clean :: "pystr \<Rightarrow> bool"
  assumes esc_string: "clean s \<Longrightarrow> scan_string (concat (map esc s) @ 34 # r) = Some (s, r)"
begin

abbreviation wr :: "json \<Rightarrow> pystr" where
  "wr \<equiv> dumps_with esc [44] [58]"

abbreviation okv :: "json \<Rightarrow> bool" where
  "okv v \<equiv> plain v \<and> clean_json clean v"

lemma dumps_head: "okv v \<Longrightarrow> \<exists>c t. wr v = c # t \<and> value_head c"
proof (cases v)
  case (JInt i)
  obtain d ds where "nat_digits (nat i) = d # ds" "is_digit d"
    using nat_digits_props [of "nat i"] by (cases "nat_digits (nat i)") auto
  then show ?thesis using JInt
    by (cases "i < 0") (auto simp: dumps_int_def value_head_def is_ws_def is_digit_def)
qed (auto simp: value_head_def is_ws_def lit_def dumps_str_with_def)

lemma scan_elems_dumps:
  assumes "vs \<noteq> []" and "length vs \<le> n" and "\<forall>v \<in> set vs. reads_as wr val v \<and> okv v"
  shows "scan_elems n val (sep_join [44] (map wr vs) @ 93 # r) = Some (vs, r)"
  using assms
proof (induction vs arbitrary: n)
  case Nil
  then show ?case by simp
next
  case (Cons v vs)
  then obtain m where n: "n = Suc m" by (cases n) auto
  show ?case
  proof (cases vs)
    case Nil
    then show ?thesis using Cons.prems n by (simp add: reads_as_def)
  next
    case (Cons w ws)
    have "okv w" using Cons.prems(3) Cons by simp
    then obtain c t where "wr w = c # t" "value_head c" using dumps_head by blast
    then obtain u where u: "sep_join [44] (map wr vs) = c # u" "value_head c"
      using sep_join_head [of "map wr vs" "wr w" "map wr ws" c t] Cons by auto
    have "scan_elems m val (sep_join [44] (map wr vs) @ 93 # r) = Some (vs, r)"
      by (rule Cons.IH) (use Cons.prems n Cons in auto)
    then show ?thesis using Cons.prems(3) n Cons u
      by (simp add: reads_as_def skip_ws_head)
  qed
qed

lemma scan_key_dumps:
  assumes "value_head c" and "clean k"
  shows "scan_key (dumps_str_with esc k @ 58 # c # s) = Some (k, c # s)"
  using assms by (simp add: scan_key_def dumps_str_with_def esc_string skip_ws_head)

lemma dumps_JObj: "wr (JObj kvs) = 123 # sep_join [44] (map (member_text esc) kvs) @ [125]"
proof -
  have "map (\<lambda>(k, t). dumps_str_with esc k @ 58 # t) (map (map_prod id wr) kvs) = map (member_text esc) kvs"
    by (auto simp: member_text_def)
  then show ?thesis by (simp only: dumps_with.simps append_Cons append_Nil)
qed

lemma scan_members_dumps:
  assumes "kvs \<noteq> []" and "length kvs \<le> n" and "\<forall>(k, v) \<in> set kvs. reads_as wr val v \<and> okv v \<and> clean k"
  shows "scan_members n val (sep_join [44] (map (member_text esc) kvs) @ 125 # r) = Some (kvs, r)"
  using assms
proof (induction kvs arbitrary: n)
  case Nil
  then show ?case by simp
next
  case (Cons kv kvs)
  obtain k v where kv: "kv = (k, v)" by (cases kv)
  obtain m where n: "n = Suc m" using Cons.prems by (cases n) auto
  have v: "reads_as wr val v" "okv v" "clean k" using Cons.prems(3) kv by auto
  obtain c t where c: "wr v = c # t" "value_head c" using dumps_head [OF v(2)] by blast
  have key: "scan_key (member_text esc kv @ s) = Some (k, wr v @ s)" for s
    using scan_key_dumps [OF c(2) v(3), of "t @ s"] c by (simp add: member_text_def kv)
  show ?case
  proof (cases kvs)
    case Nil
    then show ?thesis using v(1) n key by (simp add: reads_as_def kv)
  next
    case (Cons w ws)
    obtain u where u: "sep_join [44] (map (member_text esc) kvs) = 34 # u"
      using sep_join_head [of "map (member_text esc) kvs" "member_text esc w" "map (member_text esc) ws" 34] Cons
      by (auto simp: member_text_def dumps_str_with_def)
    have "scan_members m val (sep_join [44] (map (member_text esc) kvs) @ 125 # r) = Some (kvs, r)"
      by (rule Cons.IH) (use Cons.prems n Cons in auto)
    then show ?thesis using v(1) n Cons u key by (simp add: reads_as_def kv)
  qed
qed

lemma scan_value_dumps: "okv v \<Longrightarrow> jdepth v \<le> d \<Longrightarrow> reads_as wr (scan_value d) v"
proof (induction v arbitrary: d)
  case (JArr vs)
  then obtain e where d: "d = Suc e" by (cases d) auto
  have ok: "\<forall>v \<in> set vs. reads_as wr (scan_value e) v \<and> okv v"
    using JArr d by (auto simp: jdepth_elem plain_elem clean_elem simp del: jdepth.simps plain.simps clean_json.simps)
  show ?case
  proof (cases vs)
    case Nil
    then show ?thesis by (simp add: reads_as_def d scan_container_def)
  next
    case (Cons w ws)
    obtain c t where c: "wr w = c # t" "value_head c" using dumps_head [of w] ok Cons by auto
    then obtain u where u: "sep_join [44] (map wr vs) = c # u"
      using sep_join_head [of "map wr vs" "wr w" "map wr ws" c t] Cons by auto
    have "length vs \<le> length (sep_join [44] (map wr vs))"
      using sep_join_length [of "map wr vs"] ok dumps_head by fastforce
    then have "scan_elems (length (sep_join [44] (map wr vs) @ 93 # r)) (scan_value e)
        (sep_join [44] (map wr vs) @ 93 # r) = Some (vs, r)" for r
      by (intro scan_elems_dumps [OF _ _ ok]) (use Cons in simp_all)
    then show ?thesis using u c(2)
      by (simp add: reads_as_def d scan_container_def skip_ws_head) (simp add: value_head_def)
  qed
next
  case (JObj kvs)
  then obtain e where d: "d = Suc e" by (cases d) auto
  have ok: "\<forall>(k, v) \<in> set kvs. reads_as wr (scan_value e) v \<and> okv v \<and> clean k" and dis: "distinct (map fst kvs)"
    using JObj d by (fastforce simp: jdepth_member plain_member clean_member simp del: jdepth.simps plain.simps clean_json.simps)+
  show ?case
  proof (cases kvs)
    case Nil
    then show ?thesis by (simp add: reads_as_def d scan_container_def)
  next
    case (Cons w ws)
    obtain u where u: "sep_join [44] (map (member_text esc) kvs) = 34 # u"
      using sep_join_head [of "map (member_text esc) kvs" "member_text esc w" "map (member_text esc) ws" 34] Cons
      by (auto simp: member_text_def dumps_str_with_def)
    have "length kvs \<le> length (sep_join [44] (map (member_text esc) kvs))"
      using sep_join_length [of "map (member_text esc) kvs"] by (simp add: member_text_def)
    then have "scan_members (length (sep_join [44] (map (member_text esc) kvs) @ 125 # r)) (scan_value e)
        (sep_join [44] (map (member_text esc) kvs) @ 125 # r) = Some (kvs, r)" for r
      by (intro scan_members_dumps [OF _ _ ok]) (use Cons in simp_all)
    moreover have "reject_duplicate_keys [] kvs = Some (JObj kvs)"
      using reject_duplicate_keys_iff [of "[]" kvs "JObj kvs"] dis by simp
    ultimately show ?thesis using u
      by (simp add: reads_as_def d scan_container_def dumps_JObj del: dumps_with.simps)
  qed
next
  case (JStr s)
  then show ?case by (simp add: reads_as_def scan_value_scalar dumps_str_with_def esc_string)
next
  case (JInt i)
  then show ?case by (simp add: reads_as_def scan_value_int)
qed (simp_all add: reads_as_def lit_def scan_value_scalar scan_literal_def)


lemma loads_strict_wr:
  assumes "okv v" and "jdepth v \<le> d"
  shows "loads_strict d (wr v) = Some v"
proof -
  obtain c t where c: "wr v = c # t" "value_head c" using dumps_head [OF assms(1)] by blast
  have "scan_value d (wr v) = Some (v, [])"
    using scan_value_dumps [OF assms] by (auto simp: reads_as_def dest: spec [of _ "[]"])
  with c show ?thesis by (simp add: loads_strict_def skip_ws_head) (simp add: value_head_def)
qed

end

lemma scan_string_escape_out: "scan_string (concat (map escape_out s) @ 34 # r) = Some (s, r)"
proof (induction s)
  case Nil
  then show ?case by (simp add: scan_string.simps scan_unit_def)
next
  case (Cons c s)
  then show ?case
    by (subst scan_string.simps) (simp add: scan_unit_escape_out)
qed

interpretation utf8: json_writer escape_out "\<lambda>_. True"
  by unfold_locales (rule scan_string_escape_out)

lemma loads_strict_dumps:
  assumes "plain v" and "jdepth v \<le> d"
  shows "loads_strict d (dumps v) = Some v"
  using utf8.loads_strict_wr [of v d] assms by (simp add: dumps_with_compact clean_json_top)

section \<open>What the reader accepts\<close>

primrec strict :: "json \<Rightarrow> bool" where
  "strict JNull = True" | "strict (JBool b) = True" | "strict (JInt i) = True"
| "strict (JFloat t) = True" | "strict (JStr s) = True"
| "strict (JArr vs) = list_all id (map strict vs)"
| "strict (JObj kvs) = (distinct (map fst kvs) \<and> list_all snd (map (map_prod id strict) kvs))"

lemma strict_JObj: "strict (JObj kvs) \<longleftrightarrow> distinct (map fst kvs) \<and> (\<forall>(k, v) \<in> set kvs. strict v)"
  by (auto simp: list_all_iff)

lemma strict_JArr: "strict (JArr vs) \<longleftrightarrow> (\<forall>v \<in> set vs. strict v)"
  by (auto simp: list_all_iff)

lemma scan_elems_set:
  "scan_elems n val s = Some (vs, r) \<Longrightarrow> (\<And>t v u. val t = Some (v, u) \<Longrightarrow> P v) \<Longrightarrow> \<forall>v \<in> set vs. P v"
proof (induction n arbitrary: s vs r)
  case (Suc n)
  then show ?case
    by (auto split: option.splits list.splits if_splits)
qed simp

lemma scan_members_set:
  "scan_members n val s = Some (kvs, r) \<Longrightarrow> (\<And>t v u. val t = Some (v, u) \<Longrightarrow> P v)
     \<Longrightarrow> \<forall>(k, v) \<in> set kvs. P v"
proof (induction n arbitrary: s kvs r)
  case (Suc n)
  then show ?case
    by (fastforce split: option.splits list.splits if_splits)
qed simp

lemma scan_literal_scalar:
  "scan_literal s = Some (v, r) \<Longrightarrow> strict v \<and> jdepth v = 0"
  by (auto simp: scan_literal_def scan_number_def Let_def split: if_splits prod.splits)

lemma scan_container_sound:
  assumes "scan_container val c s = Some (v, r)"
    and val: "\<And>t v u. val t = Some (v, u) \<Longrightarrow> strict v \<and> jdepth v \<le> d"
  shows "strict v \<and> jdepth v \<le> Suc d"
proof -
  consider "v = JArr []" | "v = JObj []"
    | (arr) n t vs where "v = JArr vs" "scan_elems n val t = Some (vs, r)"
    | (obj) n t kvs where "scan_members n val t = Some (kvs, r)" "reject_duplicate_keys [] kvs = Some v"
    using assms(1)
    by (auto simp: scan_container_def Let_def simp del: scan_elems.simps scan_members.simps
        reject_duplicate_keys.simps split: list.splits if_splits option.splits)
  then show ?thesis
  proof cases
    case arr
    have "\<forall>v \<in> set vs. strict v \<and> jdepth v \<le> d" by (rule scan_elems_set [OF arr(2) val])
    then show ?thesis unfolding arr(1) jdepth_elem strict_JArr by blast
  next
    case obj
    have "\<forall>(k, v) \<in> set kvs. strict v \<and> jdepth v \<le> d" by (rule scan_members_set [OF obj(1) val])
    moreover have "distinct (map fst kvs)" "v = JObj kvs"
      using reject_duplicate_keys_iff [of "[]" kvs v] obj(2) by auto
    ultimately show ?thesis unfolding \<open>v = JObj kvs\<close> jdepth_member strict_JObj by blast
  qed simp_all
qed

lemma scan_value_sound: "scan_value d s = Some (v, r) \<Longrightarrow> strict v \<and> jdepth v \<le> d"
proof (induction d arbitrary: s v r)
  case 0
  then show ?case
    by (auto dest: scan_literal_scalar split: list.splits if_splits)
next
  case (Suc d)
  consider (str) t where "v = JStr t" | (lit) "scan_literal s = Some (v, r)"
    | (container) c t where "scan_container (scan_value d) c t = Some (v, r)"
    using Suc.prems by (auto split: list.splits if_splits)
  then show ?case
  proof cases
    case lit
    then show ?thesis by (auto dest: scan_literal_scalar)
  next
    case container
    from scan_container_sound [OF this Suc.IH] show ?thesis by simp
  qed simp
qed

lemma loads_strict_sound: "loads_strict d s = Some v \<Longrightarrow> strict v \<and> jdepth v \<le> d"
  by (auto simp: loads_strict_def dest: scan_value_sound split: if_splits option.splits)

lemma plain_strict: "plain v \<Longrightarrow> strict v"
proof (induction v)
  case (JArr vs)
  then show ?case by (simp only: plain_elem strict_JArr) blast
next
  case (JObj kvs)
  then show ?case by (fastforce simp only: plain_member strict_JObj snds.simps prod.sel)
qed simp_all

text \<open>
  C18. The strict reader inverts the compact writer: a value without floats whose objects
  have distinct keys and whose nesting is within the recursion limit is read back from its
  serialisation exactly, whatever characters its strings hold, control characters, quotes
  and surrogates included.
\<close>

theorem json_roundtrip:
  assumes "plain v" and "jdepth v \<le> recursion_limit"
  shows "loads_strict recursion_limit (dumps v) = Some v"
  using assms by (rule loads_strict_dumps)

theorem json_roundtrip_witness:
  "loads_strict 2 (dumps (JObj [(lit ''id'', JInt (- 7)), ([10, 34, 0xD800], JArr [JNull, JStr [92, 1]])])) =
     Some (JObj [(lit ''id'', JInt (- 7)), ([10, 34, 0xD800], JArr [JNull, JStr [92, 1]])])"
proof (rule json_roundtrip)
  have "nat_digits 7 = [55]" by (simp add: nat_digits.simps)
  then show "plain (JObj [(lit ''id'', JInt (- 7)), ([10, 34, 0xD800], JArr [JNull, JStr [92, 1]])])"
    by (simp add: INT_MAX_STR_DIGITS_def lit_def)
qed simp

text \<open>
  Whatever text a peer sends, a value that \<open>loads_strict\<close> returns has no object with a
  repeated key, at any depth, and is nested no deeper than the recursion limit; the
  constants \<open>NaN\<close>, \<open>Infinity\<close> and \<open>-Infinity\<close> are refused.
\<close>

theorem loads_strict_is_strict:
  "(\<forall>v. loads_strict recursion_limit s = Some v \<longrightarrow> strict v \<and> jdepth v \<le> recursion_limit)
   \<and> loads_strict recursion_limit (lit ''NaN'') = None
   \<and> loads_strict recursion_limit (lit ''Infinity'') = None
   \<and> loads_strict recursion_limit (lit ''-Infinity'') = None
   \<and> loads_strict recursion_limit (lit ''[1, NaN]'') = None"
proof (intro conjI allI impI)
  fix v assume "loads_strict recursion_limit s = Some v"
  then show "strict v" "jdepth v \<le> recursion_limit" using loads_strict_sound by auto
next
  note defs = loads_strict_def lit_def skip_ws_def is_ws_def scan_literal_def scan_number_def int_digits_def
    is_digit_def scan_container_def Let_def
  show "loads_strict recursion_limit (lit ''NaN'') = None"
    "loads_strict recursion_limit (lit ''Infinity'') = None"
    "loads_strict recursion_limit (lit ''-Infinity'') = None"
    by (simp_all add: defs scan_value_scalar)
  show "loads_strict recursion_limit (lit ''[1, NaN]'') = None"
    by (cases recursion_limit)
      (simp_all add: defs scan_value_scalar scan_frac_def scan_exp_def INT_MAX_STR_DIGITS_def)
qed

theorem loads_strict_is_strict_witness:
  "loads_strict 1 (lit ''{}'') = Some (JObj []) \<and> strict (JObj [])"
proof -
  have e: "loads_strict 1 (lit ''{}'') = Some (JObj [])"
    by (simp add: loads_strict_def lit_def skip_ws_def is_ws_def scan_container_def)
  with loads_strict_is_strict [of 1 "lit ''{}''"] show ?thesis by blast
qed

end
