(* ===== verification/Virtual_WS.thy ===== *)
theory Virtual_WS
  imports Py_Text
begin

text \<open>
  The bounded in-memory WebSocket of \<^verbatim>\<open>virtual_ws.py\<close>: two queues of text frames with an
  item and a byte budget each, a validator on the inbound side, and a close signal that
  replaces whatever is queued. An \<open>await\<close> on an empty queue is the value \<open>Blocked\<close>; the
  code between two awaits is one atomic step.
\<close>

section \<open>State\<close>

definition DEFAULT_MAX_QUEUE_ITEMS :: int where "DEFAULT_MAX_QUEUE_ITEMS = 256"
definition DEFAULT_MAX_FRAME_BYTES :: int where "DEFAULT_MAX_FRAME_BYTES = 16777216"
definition DEFAULT_MAX_QUEUE_BYTES :: int where "DEFAULT_MAX_QUEUE_BYTES = 8388608"

datatype vws_error =
    VwsClosed
  | VwsFrameTooLarge
  | VwsBackpressure string
  | VwsUnicodeEncodeError
  | VwsValueError string

datatype 'r feed_error = FeedError vws_error | FeedRejected 'r  \<comment> \<open>raised by the inbound validator\<close>

datatype vws_item = VText pystr | VClose int pystr

record vws =
  vw_max_queue_items :: int
  vw_max_frame_bytes :: int
  vw_max_queue_bytes :: int
  vw_accepted :: bool
  vw_accepted_subprotocol :: "pystr option"
  vw_closed :: bool
  vw_close_code :: "int option"
  vw_close_reason :: pystr
  vw_inbound :: "vws_item list"
  vw_outbound :: "vws_item list"
  vw_inbound_bytes :: int
  vw_outbound_bytes :: int

definition new_vws :: "int \<Rightarrow> int \<Rightarrow> int \<Rightarrow> vws_error + vws" where
  "new_vws max_queue_items max_frame_bytes max_queue_bytes =
     (if max_queue_items < 1 then Inl (VwsValueError ''max_queue_items must be positive'')
      else if max_frame_bytes < 1 then Inl (VwsValueError ''max_frame_bytes must be positive'')
      else if max_queue_bytes < 1 then Inl (VwsValueError ''max_queue_bytes must be positive'')
      else Inr \<lparr>vw_max_queue_items = max_queue_items, vw_max_frame_bytes = max_frame_bytes,
                vw_max_queue_bytes = max_queue_bytes, vw_accepted = False,
                vw_accepted_subprotocol = None, vw_closed = False, vw_close_code = None,
                vw_close_reason = [], vw_inbound = [], vw_outbound = [],
                vw_inbound_bytes = 0, vw_outbound_bytes = 0\<rparr>)"

section \<open>Operations\<close>

definition vws_validate_text :: "vws \<Rightarrow> pystr \<Rightarrow> vws_error + int" where
  "vws_validate_text s text =
     (case utf8_size text of
        None \<Rightarrow> Inl VwsUnicodeEncodeError
      | Some n \<Rightarrow> if int n > vw_max_frame_bytes s then Inl VwsFrameTooLarge else Inr (int n))"

text \<open>
  Both drain loops of \<open>_signal_close\<close> empty their queue and the counter is then set to
  zero; the signal goes into the empty queue, whose capacity is at least one.
\<close>

definition signal_close :: "vws \<Rightarrow> int \<Rightarrow> pystr \<Rightarrow> vws" where
  "signal_close s code reason =
     s\<lparr>vw_inbound := [VClose code reason], vw_inbound_bytes := 0,
       vw_outbound := [VClose code reason], vw_outbound_bytes := 0\<rparr>"

definition int_or :: "int option \<Rightarrow> int \<Rightarrow> int" where
  \<comment> \<open>\<open>x or d\<close> for an optional int\<close>
  "int_or x d = (case x of None \<Rightarrow> d | Some c \<Rightarrow> if c = 0 then d else c)"

definition close_now :: "vws \<Rightarrow> int \<Rightarrow> pystr \<Rightarrow> vws" where
  "close_now s code reason =
     (let s1 = (if \<not> vw_closed s
                then s\<lparr>vw_closed := True, vw_close_code := Some code, vw_close_reason := reason\<rparr>
                else s)
      in signal_close s1 (int_or (vw_close_code s1) code)
           (if vw_close_reason s1 \<noteq> [] then vw_close_reason s1 else reason))"

definition vws_accept :: "vws \<Rightarrow> pystr option \<Rightarrow> (vws_error + unit) \<times> vws" where
  "vws_accept s subprotocol =
     (if vw_closed s then (Inl VwsClosed, s)
      else (Inr (), s\<lparr>vw_accepted := True, vw_accepted_subprotocol := subprotocol\<rparr>))"

definition queue_full :: "vws \<Rightarrow> vws_item list \<Rightarrow> bool" where
  \<comment> \<open>\<open>asyncio.Queue(maxsize = max_queue_items)\<close> raises \<open>QueueFull\<close>\<close>
  "queue_full s q \<longleftrightarrow> int (length q) \<ge> vw_max_queue_items s"

type_synonym 'r validator = "(pystr \<Rightarrow> 'r + pystr) option"

definition feed_size :: "vws \<Rightarrow> pystr \<Rightarrow> 'r feed_error + int" where
  "feed_size s text = (case vws_validate_text s text of Inl e \<Rightarrow> Inl (FeedError e) | Inr n \<Rightarrow> Inr n)"

definition run_validator :: "'r validator \<Rightarrow> vws \<Rightarrow> pystr \<Rightarrow> int \<Rightarrow> 'r feed_error + (pystr \<times> int)" where
  "run_validator validator s text sz =
     (case validator of
        None \<Rightarrow> Inr (text, sz)
      | Some f \<Rightarrow>
          (case f text of
             Inl r \<Rightarrow> Inl (FeedRejected r)
           | Inr text' \<Rightarrow> res_bind (feed_size s text') (\<lambda>n. Inr (text', n))))"

definition vws_feed_text :: "'r validator \<Rightarrow> vws \<Rightarrow> pystr \<Rightarrow> ('r feed_error + unit) \<times> vws" where
  "vws_feed_text validator s text =
     (if vw_closed s then (Inl (FeedError VwsClosed), s)
      else
        (case res_bind (feed_size s text) (run_validator validator s text) of
           Inl e \<Rightarrow> (Inl e, s)
         | Inr (text', sz) \<Rightarrow>
             if vw_inbound_bytes s + sz > vw_max_queue_bytes s
             then (Inl (FeedError (VwsBackpressure ''virtual inbound byte budget exceeded'')),
                   close_now s 1013 (lit ''inbound_backpressure''))
             else if queue_full s (vw_inbound s)
             then (Inl (FeedError (VwsBackpressure ''virtual inbound queue is full'')),
                   close_now s 1013 (lit ''inbound_backpressure''))
             else (Inr (), s\<lparr>vw_inbound := vw_inbound s @ [VText text'],
                             vw_inbound_bytes := vw_inbound_bytes s + sz\<rparr>)))"

datatype received = Blocked | Got pystr | Disconnected int pystr

definition text_size :: "pystr \<Rightarrow> int" where
  \<comment> \<open>\<open>len(item.encode("utf-8"))\<close> of a frame that has been validated\<close>
  "text_size t = (case utf8_size t of None \<Rightarrow> 0 | Some n \<Rightarrow> int n)"

definition vws_receive_text :: "vws \<Rightarrow> received \<times> vws" where
  "vws_receive_text s =
     (if vw_closed s \<and> vw_inbound s = []
      then (Disconnected (int_or (vw_close_code s) 1000) (vw_close_reason s), s)
      else (case vw_inbound s of
              [] \<Rightarrow> (Blocked, s)
            | VClose code reason # q \<Rightarrow> (Disconnected code reason, s\<lparr>vw_inbound := q\<rparr>)
            | VText t # q \<Rightarrow> (Got t, s\<lparr>vw_inbound := q,
                                    vw_inbound_bytes := vw_inbound_bytes s - text_size t\<rparr>)))"

definition vws_send_text :: "vws \<Rightarrow> pystr \<Rightarrow> (vws_error + unit) \<times> vws" where
  "vws_send_text s text =
     (if vw_closed s then (Inl VwsClosed, s)
      else
        (case vws_validate_text s text of
           Inl e \<Rightarrow> (Inl e, s)
         | Inr sz \<Rightarrow>
             if vw_outbound_bytes s + sz > vw_max_queue_bytes s
             then (Inl (VwsBackpressure ''virtual outbound byte budget exceeded''),
                   close_now s 1013 (lit ''outbound_backpressure''))
             else if queue_full s (vw_outbound s)
             then (Inl (VwsBackpressure ''virtual outbound queue is full''),
                   close_now s 1013 (lit ''outbound_backpressure''))
             else (Inr (), s\<lparr>vw_outbound := vw_outbound s @ [VText text],
                             vw_outbound_bytes := vw_outbound_bytes s + sz\<rparr>)))"

text \<open>\<open>next_text\<close>: \<open>Inr None\<close> is a wait that has not ended (or a timeout).\<close>

definition vws_next_text :: "vws \<Rightarrow> (vws_error + pystr option) \<times> vws" where
  "vws_next_text s =
     (case vw_outbound s of
        [] \<Rightarrow> (Inr None, s)
      | VClose _ _ # q \<Rightarrow> (Inl VwsClosed, s\<lparr>vw_outbound := q\<rparr>)
      | VText t # q \<Rightarrow> (Inr (Some t), s\<lparr>vw_outbound := q,
                                      vw_outbound_bytes := vw_outbound_bytes s - text_size t\<rparr>))"

definition vws_close :: "vws \<Rightarrow> int \<Rightarrow> pystr \<Rightarrow> vws" where
  "vws_close s code reason = close_now s code reason"

section \<open>The invariant\<close>

fun item_bytes :: "vws_item \<Rightarrow> int" where
  "item_bytes (VText t) = text_size t"
| "item_bytes (VClose _ _) = 0"

fun item_ok :: "vws \<Rightarrow> vws_item \<Rightarrow> bool" where
  "item_ok s (VText t) = (\<not> vw_closed s \<and> utf8_size t \<noteq> None \<and> text_size t \<le> vw_max_frame_bytes s)"
| "item_ok s (VClose _ _) = vw_closed s"

definition queue_ok :: "vws \<Rightarrow> vws_item list \<Rightarrow> int \<Rightarrow> bool" where
  "queue_ok s q b \<longleftrightarrow> list_all (item_ok s) q \<and> b = sum_list (map item_bytes q)
     \<and> b \<le> vw_max_queue_bytes s \<and> int (length q) \<le> vw_max_queue_items s
     \<and> (vw_closed s \<longrightarrow> length q \<le> 1)"

definition vws_inv :: "vws \<Rightarrow> bool" where
  "vws_inv s \<longleftrightarrow> 1 \<le> vw_max_queue_items s \<and> 1 \<le> vw_max_frame_bytes s \<and> 1 \<le> vw_max_queue_bytes s
     \<and> queue_ok s (vw_inbound s) (vw_inbound_bytes s)
     \<and> queue_ok s (vw_outbound s) (vw_outbound_bytes s)
     \<and> (vw_closed s \<longleftrightarrow> vw_close_code s \<noteq> None)"

definition texts :: "vws_item list \<Rightarrow> pystr list" where
  "texts q = List.map_filter (\<lambda>i. case i of VText t \<Rightarrow> Some t | VClose _ _ \<Rightarrow> None) q"

lemma texts_simps [simp]:
  "texts [] = []" "texts (VText t # q) = t # texts q" "texts (VClose c r # q) = texts q"
  "texts (p @ q) = texts p @ texts q"
  by (simp_all add: texts_def map_filter_def)

lemma text_size_nonneg [simp]: "0 \<le> text_size t"
  by (simp add: text_size_def split: option.splits)

lemma vws_validate_text_Inr:
  "vws_validate_text s t = Inr n \<longleftrightarrow>
     utf8_size t \<noteq> None \<and> n = text_size t \<and> n \<le> vw_max_frame_bytes s"
  by (auto simp: vws_validate_text_def text_size_def split: option.splits)

lemma feed_size_Inr:
  "feed_size s t = Inr n \<longleftrightarrow> utf8_size t \<noteq> None \<and> n = text_size t \<and> n \<le> vw_max_frame_bytes s"
  using vws_validate_text_Inr [of s t n] by (auto simp: feed_size_def split: sum.splits)

lemma closed_no_texts: "queue_ok s q b \<Longrightarrow> vw_closed s \<Longrightarrow> texts q = []"
  by (induction q arbitrary: b) (auto simp: queue_ok_def elim: item_ok.elims)

lemma close_now_inv:
  assumes "vws_inv s"
  shows "vws_inv (close_now s code reason)" "vw_closed (close_now s code reason)"
    "texts (vw_inbound (close_now s code reason)) = []" "texts (vw_outbound (close_now s code reason)) = []"
  using assms by (auto simp: vws_inv_def close_now_def signal_close_def queue_ok_def Let_def)

lemma queue_ok_push:
  assumes "queue_ok s q b" "\<not> vw_closed s" "utf8_size t \<noteq> None" "text_size t \<le> vw_max_frame_bytes s"
    and "b + text_size t \<le> vw_max_queue_bytes s" and "\<not> queue_full s q"
  shows "queue_ok s (q @ [VText t]) (b + text_size t)"
  using assms by (auto simp: queue_ok_def queue_full_def)

lemma queue_ok_pop: "queue_ok s (i # q) b \<Longrightarrow> queue_ok s q (b - item_bytes i)"
proof (cases i)
  case (VText t)
  then show "queue_ok s (i # q) b \<Longrightarrow> queue_ok s q (b - item_bytes i)"
    using text_size_nonneg [of t] by (auto simp: queue_ok_def simp del: text_size_nonneg)
qed (auto simp: queue_ok_def)

text \<open>The queue invariant reads only the limits and the closed flag of the state.\<close>

lemma queue_ok_cong:
  assumes "vw_closed s' = vw_closed s" "vw_max_frame_bytes s' = vw_max_frame_bytes s"
    "vw_max_queue_bytes s' = vw_max_queue_bytes s" "vw_max_queue_items s' = vw_max_queue_items s"
  shows "queue_ok s' = queue_ok s"
proof -
  have "item_ok s' i = item_ok s i" for i using assms by (cases i) auto
  then have "item_ok s' = item_ok s" by (rule ext)
  then show ?thesis unfolding queue_ok_def assms by simp
qed

lemma queue_ok_update [simp]:
  "queue_ok (s\<lparr>vw_inbound := q\<rparr>) = queue_ok s" "queue_ok (s\<lparr>vw_outbound := q\<rparr>) = queue_ok s"
  "queue_ok (s\<lparr>vw_inbound_bytes := b\<rparr>) = queue_ok s" "queue_ok (s\<lparr>vw_outbound_bytes := b\<rparr>) = queue_ok s"
  "queue_ok (s\<lparr>vw_accepted := a\<rparr>) = queue_ok s" "queue_ok (s\<lparr>vw_accepted_subprotocol := p\<rparr>) = queue_ok s"
  by (rule queue_ok_cong; simp)+

section \<open>Each operation keeps the invariant\<close>

definition fed_text :: "'r validator \<Rightarrow> pystr \<Rightarrow> pystr" where
  \<comment> \<open>what \<open>feed_text\<close> queues for \<open>text\<close>, when it queues anything\<close>
  "fed_text validator text = (case validator of None \<Rightarrow> text
     | Some f \<Rightarrow> (case f text of Inl _ \<Rightarrow> text | Inr text' \<Rightarrow> text'))"

lemma run_validator_Inr:
  assumes "res_bind (feed_size s text) (run_validator v s text) = Inr (t, n)"
  shows "t = fed_text v text" "utf8_size t \<noteq> None" "n = text_size t" "n \<le> vw_max_frame_bytes s"
  using assms by (auto simp: run_validator_def fed_text_def feed_size_Inr split: option.splits sum.splits)

lemma vws_feed_text_cases:
  obtains (refused) e where "vws_feed_text v s text = (Inl e, s)"
  | (backpressure) m where "vws_feed_text v s text =
      (Inl (FeedError (VwsBackpressure m)), close_now s 1013 (lit ''inbound_backpressure''))" "\<not> vw_closed s"
  | (queued) "vws_feed_text v s text = (Inr (), s\<lparr>vw_inbound := vw_inbound s @ [VText (fed_text v text)],
      vw_inbound_bytes := vw_inbound_bytes s + text_size (fed_text v text)\<rparr>)" "\<not> vw_closed s"
      "utf8_size (fed_text v text) \<noteq> None" "text_size (fed_text v text) \<le> vw_max_frame_bytes s"
      "vw_inbound_bytes s + text_size (fed_text v text) \<le> vw_max_queue_bytes s"
      "\<not> queue_full s (vw_inbound s)"
proof (cases "vw_closed s")
  case True
  then show ?thesis using refused by (simp add: vws_feed_text_def)
next
  case open': False
  show ?thesis
  proof (cases "res_bind (feed_size s text) (run_validator v s text)")
    case (Inl e)
    then show ?thesis using refused open' by (simp add: vws_feed_text_def)
  next
    case (Inr p)
    obtain t n where p: "p = (t, n)" by (cases p)
    note r = run_validator_Inr [OF Inr [unfolded p]]
    show ?thesis
      using backpressure queued open' Inr p r
      by (cases "vw_inbound_bytes s + n > vw_max_queue_bytes s"; cases "queue_full s (vw_inbound s)")
        (simp_all add: vws_feed_text_def)
  qed
qed

lemma vws_send_text_cases:
  obtains (refused) e where "vws_send_text s text = (Inl e, s)"
  | (backpressure) m where "vws_send_text s text =
      (Inl (VwsBackpressure m), close_now s 1013 (lit ''outbound_backpressure''))" "\<not> vw_closed s"
  | (queued) "vws_send_text s text = (Inr (), s\<lparr>vw_outbound := vw_outbound s @ [VText text],
      vw_outbound_bytes := vw_outbound_bytes s + text_size text\<rparr>)" "\<not> vw_closed s"
      "utf8_size text \<noteq> None" "text_size text \<le> vw_max_frame_bytes s"
      "vw_outbound_bytes s + text_size text \<le> vw_max_queue_bytes s" "\<not> queue_full s (vw_outbound s)"
proof (cases "vw_closed s")
  case True
  then show ?thesis using refused by (simp add: vws_send_text_def)
next
  case open': False
  show ?thesis
  proof (cases "vws_validate_text s text")
    case (Inl e)
    then show ?thesis using refused open' by (simp add: vws_send_text_def)
  next
    case (Inr n)
    note r = Inr [unfolded vws_validate_text_Inr]
    show ?thesis
      using backpressure queued open' Inr r
      by (cases "vw_outbound_bytes s + n > vw_max_queue_bytes s"; cases "queue_full s (vw_outbound s)")
        (simp_all add: vws_send_text_def)
  qed
qed

lemma vws_feed_text_inv:
  assumes "vws_inv s"
  shows "vws_inv (snd (vws_feed_text v s text))"
proof (cases rule: vws_feed_text_cases [of v s "text"])
  case queued
  have "queue_ok s (vw_inbound s @ [VText (fed_text v text)]) (vw_inbound_bytes s + text_size (fed_text v text))"
    by (rule queue_ok_push) (use assms queued in \<open>simp_all add: vws_inv_def\<close>)
  with assms queued(1) show ?thesis by (auto simp: vws_inv_def)
qed (use assms close_now_inv in simp_all)

lemma vws_send_text_inv:
  assumes "vws_inv s"
  shows "vws_inv (snd (vws_send_text s text))"
proof (cases rule: vws_send_text_cases [of s "text"])
  case queued
  have "queue_ok s (vw_outbound s @ [VText text]) (vw_outbound_bytes s + text_size text)"
    by (rule queue_ok_push) (use assms queued in \<open>simp_all add: vws_inv_def\<close>)
  with assms queued(1) show ?thesis by (auto simp: vws_inv_def)
qed (use assms close_now_inv in simp_all)

lemma vws_receive_text_inv:
  assumes "vws_inv s"
  shows "vws_inv (snd (vws_receive_text s))"
proof (cases "vw_inbound s")
  case Nil
  with assms show ?thesis by (simp add: vws_receive_text_def)
next
  case (Cons i q)
  have "queue_ok s q (vw_inbound_bytes s - item_bytes i)"
    by (rule queue_ok_pop) (use assms Cons in \<open>simp add: vws_inv_def\<close>)
  with assms Cons show ?thesis
    by (cases i) (auto simp: vws_inv_def vws_receive_text_def)
qed

lemma vws_next_text_inv:
  assumes "vws_inv s"
  shows "vws_inv (snd (vws_next_text s))"
proof (cases "vw_outbound s")
  case Nil
  with assms show ?thesis by (simp add: vws_next_text_def)
next
  case (Cons i q)
  have "queue_ok s q (vw_outbound_bytes s - item_bytes i)"
    by (rule queue_ok_pop) (use assms Cons in \<open>simp add: vws_inv_def\<close>)
  with assms Cons show ?thesis
    by (cases i) (auto simp: vws_inv_def vws_next_text_def)
qed

lemma vws_accept_inv: "vws_inv s \<Longrightarrow> vws_inv (snd (vws_accept s p))"
  by (auto simp: vws_accept_def vws_inv_def)

datatype vws_event =
    VFeed pystr | VReceive | VSend pystr | VNext | VAccept "pystr option" | VShut int pystr

fun vws_step :: "'r validator \<Rightarrow> vws_event \<Rightarrow> vws \<Rightarrow> vws" where
  "vws_step v (VFeed t) s = snd (vws_feed_text v s t)"
| "vws_step v VReceive s = snd (vws_receive_text s)"
| "vws_step v (VSend t) s = snd (vws_send_text s t)"
| "vws_step v VNext s = snd (vws_next_text s)"
| "vws_step v (VAccept p) s = snd (vws_accept s p)"
| "vws_step v (VShut c r) s = vws_close s c r"

definition vws_initial :: "vws \<Rightarrow> bool" where
  "vws_initial s \<longleftrightarrow> (\<exists>a b c. new_vws a b c = Inr s)"

lemma new_vws_Inr:
  assumes "new_vws a b c = Inr s"
  shows "vws_inv s" "\<not> vw_closed s" "vw_inbound s = []" "vw_outbound s = []"
    "vw_max_queue_items s = a" "vw_max_frame_bytes s = b" "vw_max_queue_bytes s = c"
    "vw_inbound_bytes s = 0" "vw_outbound_bytes s = 0"
  using assms by (auto simp: new_vws_def vws_inv_def queue_ok_def split: if_splits)

lemma vws_step_inv: "vws_inv s \<Longrightarrow> vws_inv (vws_step v e s)"
  by (cases e) (simp_all add: vws_feed_text_inv vws_send_text_inv vws_receive_text_inv vws_next_text_inv
      vws_accept_inv vws_close_def close_now_inv(1))

interpretation vws: invariant_component vws_initial "vws_step v" vws_inv for v
  by unfold_locales (auto simp: vws_initial_def vws_step_inv dest: new_vws_Inr(1))

section \<open>Both directions are FIFO ports\<close>

definition vws_receive_opt :: "vws \<Rightarrow> pystr option \<times> vws" where
  "vws_receive_opt s = (case vws_receive_text s of (Got t, s') \<Rightarrow> (Some t, s') | (_, s') \<Rightarrow> (None, s'))"

definition vws_next_opt :: "vws \<Rightarrow> pystr option \<times> vws" where
  "vws_next_opt s = (case vws_next_text s of
     (Inr (Some t), s') \<Rightarrow> (Some t, s') | (_, s') \<Rightarrow> (None, s'))"

text \<open>The events that the two sides of the other direction and the owner may interleave.\<close>

datatype out_event = OSend pystr | ONext | OAccept "pystr option" | OShut int pystr
datatype in_event = IFeed pystr | IReceive | IAccept "pystr option" | IShut int pystr

fun out_step :: "out_event \<Rightarrow> vws \<Rightarrow> vws" where
  "out_step (OSend t) s = vws_step (None :: unit validator) (VSend t) s"
| "out_step ONext s = vws_step (None :: unit validator) VNext s"
| "out_step (OAccept p) s = vws_step (None :: unit validator) (VAccept p) s"
| "out_step (OShut c r) s = vws_step (None :: unit validator) (VShut c r) s"

fun in_step :: "'r validator \<Rightarrow> in_event \<Rightarrow> vws \<Rightarrow> vws" where
  "in_step v (IFeed t) s = vws_step v (VFeed t) s"
| "in_step v IReceive s = vws_step v VReceive s"
| "in_step v (IAccept p) s = vws_step v (VAccept p) s"
| "in_step v (IShut c r) s = vws_step v (VShut c r) s"

definition in_content :: "vws \<Rightarrow> pystr list" where "in_content s = texts (vw_inbound s)"
definition out_content :: "vws \<Rightarrow> pystr list" where "out_content s = texts (vw_outbound s)"

lemma in_content_closed: "vws_inv s \<Longrightarrow> vw_closed s \<Longrightarrow> in_content s = []"
  using closed_no_texts by (auto simp: vws_inv_def in_content_def)

lemma out_content_closed: "vws_inv s \<Longrightarrow> vw_closed s \<Longrightarrow> out_content s = []"
  using closed_no_texts by (auto simp: vws_inv_def out_content_def)

text \<open>Each operation's effect on the direction it does not serve: none, unless it closes.\<close>

definition port_kept :: "(vws \<Rightarrow> pystr list) \<Rightarrow> vws \<Rightarrow> vws \<Rightarrow> bool" where
  "port_kept content s s' \<longleftrightarrow> vw_closed s' \<or> content s' = content s \<and> vw_closed s' = vw_closed s"

lemma in_step_keeps: "vws_inv s \<Longrightarrow> port_kept out_content s (in_step v e s)"
proof (cases e)
  case (IFeed t)
  then show "vws_inv s \<Longrightarrow> port_kept out_content s (in_step v e s)"
    by (cases rule: vws_feed_text_cases [of v s t])
      (auto simp: port_kept_def out_content_def close_now_inv(2))
qed (auto simp: port_kept_def out_content_def vws_receive_text_def vws_accept_def vws_close_def
      close_now_inv(2) split: list.splits vws_item.splits)

lemma out_step_keeps: "vws_inv s \<Longrightarrow> port_kept in_content s (out_step e s)"
proof (cases e)
  case (OSend t)
  then show "vws_inv s \<Longrightarrow> port_kept in_content s (out_step e s)"
    by (cases rule: vws_send_text_cases [of s t])
      (auto simp: port_kept_def in_content_def close_now_inv(2))
qed (auto simp: port_kept_def in_content_def vws_next_text_def vws_accept_def vws_close_def
      close_now_inv(2) split: list.splits vws_item.splits)

lemma in_step_inv: "vws_inv s \<Longrightarrow> vws_inv (in_step v e s)"
  by (cases e) (simp_all only: in_step.simps vws_step_inv)

lemma out_step_inv: "vws_inv s \<Longrightarrow> vws_inv (out_step e s)"
  by (cases e) (simp_all only: out_step.simps vws_step_inv)

lemma receive_opt_some:
  assumes "vws_inv s" "vws_receive_opt s = (Some t, s')"
  shows "vws_inv s' \<and> in_content s = t # in_content s' \<and> vw_closed s' = vw_closed s"
proof -
  from assms(2) have r: "vws_receive_text s = (Got t, s')"
    by (auto simp: vws_receive_opt_def split: prod.splits received.splits)
  with vws_receive_text_inv [OF assms(1)] show ?thesis
    by (auto simp: vws_receive_text_def in_content_def split: list.splits vws_item.splits if_splits)
qed

lemma receive_opt_none:
  assumes "vws_inv s" "vws_receive_opt s = (None, s')"
  shows "vws_inv s' \<and> in_content s' = in_content s \<and> vw_closed s' = vw_closed s"
proof -
  from assms(2) obtain x where "vws_receive_text s = (x, s')" "\<forall>t. x \<noteq> Got t"
    by (auto simp: vws_receive_opt_def split: prod.splits received.splits)
  with vws_receive_text_inv [OF assms(1)] show ?thesis
    by (auto simp: vws_receive_text_def in_content_def split: list.splits vws_item.splits if_splits)
qed

lemma next_opt_some:
  assumes "vws_inv s" "vws_next_opt s = (Some t, s')"
  shows "vws_inv s' \<and> out_content s = t # out_content s' \<and> vw_closed s' = vw_closed s"
  using assms vws_next_text_inv [OF assms(1)]
  by (auto simp: vws_next_opt_def vws_next_text_def out_content_def
      split: list.splits vws_item.splits if_splits)

lemma next_opt_none:
  assumes "vws_inv s" "vws_next_opt s = (None, s')"
  shows "vws_inv s' \<and> out_content s' = out_content s \<and> vw_closed s' = vw_closed s"
  using assms vws_next_text_inv [OF assms(1)]
  by (auto simp: vws_next_opt_def vws_next_text_def out_content_def
      split: list.splits vws_item.splits if_splits)

interpretation vin: fifo_port "vws_feed_text v" vws_receive_opt out_step "fed_text v" in_content vw_closed vws_inv
  for v
proof
  fix s s' :: vws and x e
  assume i: "vws_inv s"
  show "vws_inv s' \<and> in_content s' = in_content s @ [fed_text v x] \<and> \<not> vw_closed s \<and> \<not> vw_closed s'"
    if "vws_feed_text v s x = (Inr (), s')"
    using vws_feed_text_inv [OF i, of v x] that
    by (cases rule: vws_feed_text_cases [of v s x]) (auto simp: in_content_def)
  show "vws_inv s' \<and> (vw_closed s' \<or> in_content s' = in_content s \<and> vw_closed s' = vw_closed s)"
    if "vws_feed_text v s x = (Inl e, s')"
    using vws_feed_text_inv [OF i, of v x] that close_now_inv(2) [OF i]
    by (cases rule: vws_feed_text_cases [of v s x]) auto
next
  fix s s' :: vws and ev
  assume i: "vws_inv s"
  show "vws_inv (out_step ev s) \<and> (vw_closed (out_step ev s) \<or>
      in_content (out_step ev s) = in_content s \<and> vw_closed (out_step ev s) = vw_closed s)"
    using out_step_inv [OF i, of ev] out_step_keeps [OF i, of ev] by (simp add: port_kept_def)
qed ((rule receive_opt_some receive_opt_none in_content_closed; assumption)+)

interpretation vout: fifo_port vws_send_text vws_next_opt "in_step v" "\<lambda>t. t" out_content vw_closed vws_inv
  for v
proof
  fix s s' :: vws and x e
  assume i: "vws_inv s"
  show "vws_inv s' \<and> out_content s' = out_content s @ [x] \<and> \<not> vw_closed s \<and> \<not> vw_closed s'"
    if "vws_send_text s x = (Inr (), s')"
    using vws_send_text_inv [OF i, of x] that
    by (cases rule: vws_send_text_cases [of s x]) (auto simp: out_content_def)
  show "vws_inv s' \<and> (vw_closed s' \<or> out_content s' = out_content s \<and> vw_closed s' = vw_closed s)"
    if "vws_send_text s x = (Inl e, s')"
    using vws_send_text_inv [OF i, of x] that close_now_inv(2) [OF i]
    by (cases rule: vws_send_text_cases [of s x]) auto
next
  fix s s' :: vws and ev
  assume i: "vws_inv s"
  show "vws_inv (in_step v ev s) \<and> (vw_closed (in_step v ev s) \<or>
      out_content (in_step v ev s) = out_content s \<and> vw_closed (in_step v ev s) = vw_closed s)"
    using in_step_inv [OF i, of v ev] in_step_keeps [OF i, of v ev] by (simp add: port_kept_def)
qed ((rule next_opt_some next_opt_none out_content_closed; assumption)+)

section \<open>Properties\<close>

text \<open>
  C16. Exactly-once, in-order delivery in both directions: over any interleaving of
  writers, readers, accepts and closes, the frames the reader of a direction obtains are a
  prefix of the frames accepted from its writer, and while the socket is open the rest is
  exactly what is still queued.
\<close>

theorem vws_fifo:
  assumes "new_vws a b c = Inr s"
    and "port_run (vws_feed_text v) vws_receive_opt out_step (fed_text v) s es = (accepted, got, s')"
    and "port_run vws_send_text vws_next_opt (in_step v) (\<lambda>t. t) s fs = (accepted', got', s'')"
  shows "(\<exists>rest. accepted = got @ rest) \<and> (\<not> vw_closed s' \<longrightarrow> accepted = got @ texts (vw_inbound s'))
    \<and> (\<exists>rest. accepted' = got' @ rest) \<and> (\<not> vw_closed s'' \<longrightarrow> accepted' = got' @ texts (vw_outbound s''))"
  using vin.fifo [OF assms(2)] vout.fifo [OF assms(3)] new_vws_Inr [OF assms(1)]
  by (simp add: in_content_def out_content_def)

theorem vws_fifo_witness:
  "\<exists>s acc got s'. new_vws 2 10 10 = Inr s
     \<and> port_run (vws_feed_text (None :: unit validator)) vws_receive_opt out_step (fed_text (None :: unit validator)) s
         [PPut [65], POther (OSend [66]), PPut [67], PGet] = (acc, got, s')
     \<and> acc = [[65], [67]] \<and> got = [[65]] \<and> acc = got @ texts (vw_inbound s')"
proof -
  let ?v = "None :: unit validator"
  obtain s where s: "new_vws 2 10 10 = Inr s" by (simp add: new_vws_def)
  obtain acc got s' where run: "port_run (vws_feed_text ?v) vws_receive_opt out_step (fed_text ?v) s
      [PPut [65], POther (OSend [66]), PPut [67], PGet] = (acc, got, s')"
    by (cases "port_run (vws_feed_text ?v) vws_receive_opt out_step (fed_text ?v) s
      [PPut [65], POther (OSend [66]), PPut [67], PGet]")
  obtain x y z where run2: "port_run vws_send_text vws_next_opt (in_step ?v) (\<lambda>t. t) s [] = (x, y, z)" by simp
  have ev: "acc = [[65], [67]]" "got = [[65]]" "\<not> vw_closed s'"
    using s run by (auto simp: new_vws_def vws_feed_text_def feed_size_def vws_validate_text_def
        utf8_size_def utf8_encode_def utf8_bytes_def run_validator_def queue_full_def fed_text_def
        vws_receive_opt_def vws_receive_text_def vws_send_text_def)
  from vws_fifo [OF s run run2] s run ev show ?thesis by auto
qed

text \<open>
  C17. Bounded memory: over every sequence of calls each queue holds at most
  \<open>max_queue_items\<close> entries, its byte counter is the exact UTF-8 size of the frames in it
  and never exceeds \<open>max_queue_bytes\<close>, and every queued frame is within
  \<open>max_frame_bytes\<close>.
\<close>

theorem vws_bounded:
  assumes "new_vws a b c = Inr s0" and "s = fold (vws_step v) es s0"
  shows "int (length (vw_inbound s)) \<le> vw_max_queue_items s
    \<and> int (length (vw_outbound s)) \<le> vw_max_queue_items s
    \<and> vw_inbound_bytes s = sum_list (map text_size (texts (vw_inbound s)))
    \<and> vw_outbound_bytes s = sum_list (map text_size (texts (vw_outbound s)))
    \<and> vw_inbound_bytes s \<le> vw_max_queue_bytes s \<and> vw_outbound_bytes s \<le> vw_max_queue_bytes s
    \<and> list_all (\<lambda>t. utf8_size t \<noteq> None \<and> text_size t \<le> vw_max_frame_bytes s)
        (texts (vw_inbound s) @ texts (vw_outbound s))"
proof -
  have inv: "vws_inv s" unfolding assms(2)
    by (rule vws.inv_reachable) (use assms(1) in \<open>auto simp: vws_initial_def\<close>)
  have bytes: "sum_list (map item_bytes q) = sum_list (map text_size (texts q))" for q
  proof (induction q)
    case (Cons i q)
    then show ?case by (cases i) auto
  qed simp
  have frames: "list_all (\<lambda>t. utf8_size t \<noteq> None \<and> text_size t \<le> vw_max_frame_bytes s) (texts q)"
    if "list_all (item_ok s) q" for q
    using that
  proof (induction q)
    case (Cons i q)
    then show ?case by (cases i) auto
  qed simp
  from inv have q: "queue_ok s (vw_inbound s) (vw_inbound_bytes s)" "queue_ok s (vw_outbound s) (vw_outbound_bytes s)"
    by (auto simp: vws_inv_def)
  then have "list_all (item_ok s) (vw_inbound s)" "list_all (item_ok s) (vw_outbound s)"
    by (auto simp: queue_ok_def)
  from this [THEN frames] q show ?thesis
    unfolding queue_ok_def bytes list_all_append by blast
qed

theorem vws_bounded_witness:
  "\<exists>s0. new_vws 1 4 8 = Inr s0
     \<and> vw_closed (fold (vws_step (None :: unit validator)) [VFeed [0x20AC], VFeed [65]] s0)
     \<and> int (length (vw_inbound (fold (vws_step (None :: unit validator)) [VFeed [0x20AC], VFeed [65]] s0))) \<le> 1"
proof -
  obtain s0 where s0: "new_vws 1 4 8 = Inr s0" by (simp add: new_vws_def)
  have "vw_closed (fold (vws_step (None :: unit validator)) [VFeed [0x20AC], VFeed [65]] s0)"
    "vw_max_queue_items (fold (vws_step (None :: unit validator)) [VFeed [0x20AC], VFeed [65]] s0) = 1"
    using s0 by (auto simp: new_vws_def vws_feed_text_def feed_size_def vws_validate_text_def
        utf8_size_def utf8_encode_def utf8_bytes_def encodable_def is_surrogate_def run_validator_def
        queue_full_def close_now_def signal_close_def Let_def)
  with vws_bounded [OF s0 refl, of "None :: unit validator" "[VFeed [0x20AC], VFeed [65]]"] s0 show ?thesis
    by auto
qed

text \<open>
  Admission: an unvalidated frame is queued exactly when the socket is open, the text
  encodes to UTF-8 within the frame limit, and both budgets of the direction have room.
  A frame over the frame limit or with a surrogate is refused and nothing changes; a frame
  over budget closes the socket with code 1013 for both sides.
\<close>

theorem vws_admission:
  assumes "new_vws a b c = Inr s0" and "s = fold (vws_step v) es s0"
  shows "(fst (vws_feed_text (None :: 'r validator) s t) = Inr () \<longleftrightarrow>
       \<not> vw_closed s \<and> utf8_size t \<noteq> None \<and> text_size t \<le> vw_max_frame_bytes s
       \<and> vw_inbound_bytes s + text_size t \<le> vw_max_queue_bytes s
       \<and> int (length (vw_inbound s)) < vw_max_queue_items s)
    \<and> (\<not> vw_closed s \<and> utf8_size t \<noteq> None \<and> text_size t \<le> vw_max_frame_bytes s
       \<and> fst (vws_feed_text (None :: 'r validator) s t) \<noteq> Inr () \<longrightarrow>
         (let s' = snd (vws_feed_text (None :: 'r validator) s t) in
          vw_closed s' \<and> vw_close_code s' = Some 1013
          \<and> fst (vws_receive_text s') = Disconnected 1013 (lit ''inbound_backpressure'')
          \<and> fst (vws_next_text s') = Inl VwsClosed))
    \<and> (utf8_size t = None \<or> text_size t > vw_max_frame_bytes s \<longrightarrow>
         snd (vws_feed_text (None :: 'r validator) s t) = s)"
proof -
  have inv: "vws_inv s" unfolding assms(2)
    by (rule vws.inv_reachable) (use assms(1) in \<open>auto simp: vws_initial_def\<close>)
  then have code: "\<not> vw_closed s \<longrightarrow> vw_close_code s = None" by (simp add: vws_inv_def)
  have v: "res_bind (feed_size s t) (run_validator (None :: 'r validator) s t) =
      (case utf8_size t of None \<Rightarrow> Inl (FeedError VwsUnicodeEncodeError)
       | Some n \<Rightarrow> if text_size t > vw_max_frame_bytes s then Inl (FeedError VwsFrameTooLarge)
                  else Inr (t, text_size t))"
    by (simp add: feed_size_def vws_validate_text_def run_validator_def text_size_def split: option.splits)
  show ?thesis using code
    by (auto simp: vws_feed_text_def v queue_full_def close_now_def signal_close_def Let_def int_or_def
        vws_receive_text_def vws_next_text_def lit_def split: option.splits if_splits)
qed

theorem vws_admission_witness:
  "\<exists>s0. new_vws 1 4 8 = Inr s0 \<and> fst (vws_feed_text (None :: unit validator) s0 [65, 66]) = Inr ()
     \<and> snd (vws_feed_text (None :: unit validator) s0 [65, 66, 67, 68, 69]) = s0"
proof -
  obtain s0 where s0: "new_vws 1 4 8 = Inr s0" by (simp add: new_vws_def)
  note n = new_vws_Inr [OF s0]
  have sz: "utf8_size [65, 66] = Some 2" "utf8_size [65, 66, 67, 68, 69] = Some 5"
    by (simp_all add: utf8_size_def utf8_encode_def utf8_bytes_def)
  from vws_admission [OF s0, of s0 "None :: unit validator" "[]" "[65, 66]", where 'r = unit]
    vws_admission [OF s0, of s0 "None :: unit validator" "[]" "[65, 66, 67, 68, 69]", where 'r = unit] s0 n sz
  show ?thesis by (simp add: text_size_def)
qed

text \<open>
  With the default limits the byte budget of a queue (8 MiB) is half the frame limit
  (16 MiB): a frame in between passes the frame check, and yet even an idle socket answers
  it by closing both directions with code 1013.
\<close>

theorem vws_large_frame_closes:
  assumes "new_vws DEFAULT_MAX_QUEUE_ITEMS DEFAULT_MAX_FRAME_BYTES DEFAULT_MAX_QUEUE_BYTES = Inr s"
    and "utf8_size t = Some n" and "8 * 2 ^ 20 < n" and "n \<le> 16 * 2 ^ 20"
  shows "is_ok (vws_validate_text s t) \<and> vw_closed (snd (vws_send_text s t))
    \<and> vw_close_code (snd (vws_send_text s t)) = Some 1013
    \<and> vw_closed (snd (vws_feed_text (None :: unit validator) s t))"
  using assms new_vws_Inr [OF assms(1)]
  by (auto simp: vws_validate_text_def vws_send_text_def vws_feed_text_def feed_size_def run_validator_def
      DEFAULT_MAX_FRAME_BYTES_def DEFAULT_MAX_QUEUE_BYTES_def close_now_def signal_close_def Let_def)

lemma utf8_size_replicate_ascii: "c < 128 \<Longrightarrow> utf8_size (replicate n c) = Some n"
  by (simp add: utf8_size_def utf8_encode_def utf8_bytes_def list_all_iff length_concat sum_list_replicate)

theorem vws_large_frame_closes_witness:
  "\<exists>s. new_vws DEFAULT_MAX_QUEUE_ITEMS DEFAULT_MAX_FRAME_BYTES DEFAULT_MAX_QUEUE_BYTES = Inr s
     \<and> vw_closed (snd (vws_send_text s (replicate 9000000 65)))"
proof -
  obtain s where s: "new_vws DEFAULT_MAX_QUEUE_ITEMS DEFAULT_MAX_FRAME_BYTES DEFAULT_MAX_QUEUE_BYTES = Inr s"
    by (simp add: new_vws_def DEFAULT_MAX_QUEUE_ITEMS_def DEFAULT_MAX_FRAME_BYTES_def DEFAULT_MAX_QUEUE_BYTES_def)
  from vws_large_frame_closes [OF s utf8_size_replicate_ascii [of 65 9000000]] s show ?thesis by simp
qed

end
