(* ===== verification/Method_Policy.thy ===== *)
theory Method_Policy
  imports Strict_Json Virtual_WS
begin

text \<open>
  The fail-closed request policy of \<^verbatim>\<open>method_policy.py\<close>, with \<open>validate_profile_id\<close> of
  \<^verbatim>\<open>config.py\<close>, and its use as the inbound validator of the virtual WebSocket.
\<close>

section \<open>Profile identifiers\<close>

definition profile_char :: "nat \<Rightarrow> bool" where
  "profile_char c \<longleftrightarrow> is_lower c \<or> is_digit c \<or> c = 95 \<or> c = 45"

text \<open>\<open>^[a-z0-9][a-z0-9_-]{0,63}$\<close>, matched against the whole string.\<close>

definition validate_profile_id :: "pystr \<Rightarrow> string + pystr" where
  "validate_profile_id p =
     (case p of
        [] \<Rightarrow> Inl ''invalid profile identifier''
      | c # cs \<Rightarrow>
          if (is_lower c \<or> is_digit c) \<and> list_all profile_char cs \<and> length cs \<le> 63
          then Inr p else Inl ''invalid profile identifier'')"

section \<open>The policy\<close>

definition ALLOWED_V1_METHODS :: "pystr list" where
  "ALLOWED_V1_METHODS = map lit
     [''approval.respond'', ''clarify.respond'', ''complete.slash'', ''config.set'', ''cron.manage'',
      ''delegation.status'', ''file.attach'', ''gateway.ping'', ''image.attach_bytes'',
      ''model.options'', ''process.list'', ''profiles.list'', ''projects.create'',
      ''projects.delete'', ''projects.project_sessions'', ''projects.set_active'',
      ''projects.tree'', ''prompt.submit'', ''session.active_list'', ''session.branch'',
      ''session.close'', ''session.compress'', ''session.context_breakdown'', ''session.create'',
      ''session.history'', ''session.interrupt'', ''session.resume'', ''session.steer'',
      ''session.undo'', ''session.usage'']"

definition PRIVILEGED_IDENTITY_FIELDS :: "string list" where
  "PRIVILEGED_IDENTITY_FIELDS = [''auth_identity'', ''principal_id'']"

definition REQUEST_FIELDS :: "pystr list" where
  "REQUEST_FIELDS = map lit [''jsonrpc'', ''id'', ''method'', ''params'']"

datatype policy_reason =
    Invalid_request | Invalid_json | Uncorrelated_request | Method_not_allowed | Invalid_params
  | Privileged_identity | Profile_not_available

record method_policy =
  mp_profile :: pystr
  mp_allowed_methods :: "pystr list"
  mp_profile_authorizer :: "(pystr \<Rightarrow> bool) option"
    \<comment> \<open>whether the authorizer returns the object \<open>True\<close>; an exception counts as no\<close>

definition new_method_policy ::
  "pystr \<Rightarrow> pystr list \<Rightarrow> (pystr \<Rightarrow> bool) option \<Rightarrow> string + method_policy" where
  "new_method_policy profile allowed_methods profile_authorizer =
     (if profile = [] then Inl ''profile must be non-empty''
      else if allowed_methods = [] then Inl ''allowed_methods must be a non-empty frozenset''
      else Inr \<lparr>mp_profile = profile, mp_allowed_methods = allowed_methods,
                mp_profile_authorizer = profile_authorizer\<rparr>)"

definition correlated :: "json \<Rightarrow> bool" where
  \<comment> \<open>a request id that is a non-empty string or an integer, and no boolean\<close>
  "correlated v = (case v of JStr t \<Rightarrow> t \<noteq> [] | JInt _ \<Rightarrow> True | _ \<Rightarrow> False)"

definition profile_permitted :: "method_policy \<Rightarrow> pystr \<Rightarrow> bool" where
  "profile_permitted P requested \<longleftrightarrow>
     is_ok (validate_profile_id requested) \<and>
     (case mp_profile_authorizer P of Some f \<Rightarrow> f requested | None \<Rightarrow> requested = mp_profile P)"

definition policy_check_params :: "method_policy \<Rightarrow> json \<Rightarrow> policy_reason + unit" where
  "policy_check_params P params =
     (case params of
        JObj ps \<Rightarrow>
          if list_ex (jhas ps) PRIVILEGED_IDENTITY_FIELDS then Inl Privileged_identity
          else (case jget ps ''profile'' of
                  JNull \<Rightarrow> Inr ()
                | JStr requested \<Rightarrow>
                    if profile_permitted P requested then Inr () else Inl Profile_not_available
                | _ \<Rightarrow> Inl Invalid_params)
      | _ \<Rightarrow> Inl Invalid_params)"

definition policy_validate_text :: "nat \<Rightarrow> method_policy \<Rightarrow> pystr \<Rightarrow> policy_reason + pystr" where
  "policy_validate_text recursion_limit P raw =
     (case loads_strict recursion_limit raw of
        None \<Rightarrow> Inl Invalid_json
      | Some (JObj request) \<Rightarrow>
          if jget request ''jsonrpc'' \<noteq> JStr (lit ''2.0'') then Inl Invalid_request
          else if \<not> list_all (\<lambda>(k, _). k \<in> set REQUEST_FIELDS) request then Inl Invalid_request
          else if \<not> correlated (jget request ''id'') then Inl Uncorrelated_request
          else (case jget request ''method'' of
                  JStr method \<Rightarrow>
                    if method \<notin> set (mp_allowed_methods P) then Inl Method_not_allowed
                    else res_bind
                      (policy_check_params P
                        (case map_of request (lit ''params'') of None \<Rightarrow> JObj [] | Some ps \<Rightarrow> ps))
                      (\<lambda>_. Inr raw)
                | _ \<Rightarrow> Inl Method_not_allowed)
      | Some _ \<Rightarrow> Inl Invalid_request)"

section \<open>What passes\<close>

text \<open>The policy as a predicate on the parsed request.\<close>

definition params_safe :: "method_policy \<Rightarrow> json \<Rightarrow> bool" where
  "params_safe P params \<longleftrightarrow> (\<exists>ps. params = JObj ps
     \<and> lit ''auth_identity'' \<notin> fst ` set ps \<and> lit ''principal_id'' \<notin> fst ` set ps
     \<and> (jget ps ''profile'' = JNull \<or>
        (\<exists>p. jget ps ''profile'' = JStr p \<and> profile_permitted P p)))"

definition request_safe :: "method_policy \<Rightarrow> json \<Rightarrow> bool" where
  "request_safe P v \<longleftrightarrow> (\<exists>request m. v = JObj request
     \<and> fst ` set request \<subseteq> set REQUEST_FIELDS
     \<and> map_of request (lit ''jsonrpc'') = Some (JStr (lit ''2.0''))
     \<and> correlated (jget request ''id'')
     \<and> map_of request (lit ''method'') = Some (JStr m) \<and> m \<in> set (mp_allowed_methods P)
     \<and> (case map_of request (lit ''params'') of None \<Rightarrow> True | Some ps \<Rightarrow> params_safe P ps))"

lemma jget_JStr: "jget kvs k = JStr t \<longleftrightarrow> map_of kvs (lit k) = Some (JStr t)"
  by (auto simp: jget_def split: option.splits)

lemma jhas_iff: "jhas kvs k \<longleftrightarrow> lit k \<in> fst ` set kvs"
  by (auto simp: jhas_def map_of_eq_None_iff)

lemma policy_check_params_iff: "policy_check_params P v = Inr () \<longleftrightarrow> params_safe P v"
proof (cases v)
  case (JObj ps)
  show ?thesis
    by (cases "jget ps ''profile''")
      (auto simp: JObj policy_check_params_def params_safe_def PRIVILEGED_IDENTITY_FIELDS_def jhas_iff)
qed (auto simp: policy_check_params_def params_safe_def)

lemma empty_params_safe [simp]: "params_safe P (JObj [])"
  by (simp add: params_safe_def jget_def)

lemma policy_validate_text_iff:
  "policy_validate_text d P raw = Inr out \<longleftrightarrow>
     out = raw \<and> (\<exists>v. loads_strict d raw = Some v \<and> request_safe P v)"
proof (cases "loads_strict d raw")
  case None
  then show ?thesis by (simp add: policy_validate_text_def)
next
  case (Some v)
  show ?thesis
  proof (cases v)
    case (JObj request)
    have keys: "list_all (\<lambda>(k, _). k \<in> set REQUEST_FIELDS) request \<longleftrightarrow> fst ` set request \<subseteq> set REQUEST_FIELDS"
      by (auto simp: list_all_iff)
    have params: "policy_check_params P (case map_of request (lit ''params'') of None \<Rightarrow> JObj [] | Some ps \<Rightarrow> ps)
        = Inr () \<longleftrightarrow> (case map_of request (lit ''params'') of None \<Rightarrow> True | Some ps \<Rightarrow> params_safe P ps)"
      by (simp add: policy_check_params_iff split: option.splits)
    show ?thesis
      using Some JObj keys params
      by (cases "jget request ''method''")
        (auto simp: policy_validate_text_def request_safe_def jget_JStr [symmetric])
  qed (use Some in \<open>auto simp: policy_validate_text_def request_safe_def\<close>)
qed

section \<open>Properties\<close>


text \<open>
  No request of an ordinary client is lost: every well-formed call of an allowed
  method, serialised by \<open>json.dumps\<close>, passes unchanged.
\<close>

theorem policy_accepts_clients:
  assumes "m \<in> set (mp_allowed_methods P)" and "correlated i" and "plain i" and "plain (JObj ps)"
    and "params_safe P (JObj ps)" and "Suc (jdepth (JObj ps)) \<le> recursion_limit"
    and "raw = dumps (JObj [(lit ''jsonrpc'', JStr (lit ''2.0'')), (lit ''id'', i), (lit ''method'', JStr m),
                            (lit ''params'', JObj ps)])"
  shows "policy_validate_text recursion_limit P raw = Inr raw"
proof -
  let ?v = "JObj [(lit ''jsonrpc'', JStr (lit ''2.0'')), (lit ''id'', i), (lit ''method'', JStr m),
                  (lit ''params'', JObj ps)]"
  have "jdepth i = 0" using assms(2) by (cases i) (auto simp: correlated_def)
  then have depth: "jdepth ?v \<le> recursion_limit" using assms(6) by simp
  have "plain ?v" using assms(3,4) by simp
  with loads_strict_dumps [OF this depth] assms(7) have "loads_strict recursion_limit raw = Some ?v" by simp
  moreover have "request_safe P ?v"
    using assms(1,2,5) by (auto simp: request_safe_def REQUEST_FIELDS_def jget_def)
  ultimately show ?thesis by (simp add: policy_validate_text_iff)
qed

theorem policy_accepts_clients_witness:
  "\<exists>P. new_method_policy (lit ''default'') ALLOWED_V1_METHODS None = Inr P \<and>
     (let raw = dumps (JObj [(lit ''jsonrpc'', JStr (lit ''2.0'')), (lit ''id'', JStr (lit ''r1'')),
                             (lit ''method'', JStr (lit ''gateway.ping'')), (lit ''params'', JObj [])])
      in policy_validate_text 3 P raw = Inr raw)"
proof -
  obtain P where P: "new_method_policy (lit ''default'') ALLOWED_V1_METHODS None = Inr P"
      "mp_allowed_methods P = ALLOWED_V1_METHODS"
    by (simp add: new_method_policy_def ALLOWED_V1_METHODS_def lit_def)
  from policy_accepts_clients [of "lit ''gateway.ping''" P "JStr (lit ''r1'')" "[]" 3, OF _ _ _ _ _ _ refl] P
  show ?thesis by (simp add: ALLOWED_V1_METHODS_def correlated_def lit_def Let_def)
qed

definition policy_validator :: "nat \<Rightarrow> method_policy \<Rightarrow> policy_reason validator" where
  "policy_validator recursion_limit P = Some (policy_validate_text recursion_limit P)"

lemma fed_text_policy: "fed_text (policy_validator d P) t = t"
  using policy_validate_text_iff [of d P t] by (auto simp: fed_text_def policy_validator_def split: sum.splits)

lemma fed_policy_ok:
  assumes "fst (vws_feed_text (policy_validator d P) s t) = Inr ()"
  shows "is_ok (policy_validate_text d P t)"
  using assms
  by (auto simp: vws_feed_text_def run_validator_def policy_validator_def split: if_splits sum.splits)

lemma accepted_by_policy:
  assumes "port_run (vws_feed_text (policy_validator d P)) vws_receive_opt out_step
      (fed_text (policy_validator d P)) s es = (acc, got, s')"
  shows "\<forall>t \<in> set acc. is_ok (policy_validate_text d P t)"
  using assms
proof (induction es arbitrary: s acc got)
  case (Cons e es)
  show ?case
  proof (cases e)
    case (PPut t)
    obtain r s1 where p: "vws_feed_text (policy_validator d P) s t = (r, s1)"
      by (cases "vws_feed_text (policy_validator d P) s t")
    from Cons.prems PPut p obtain acc1 where
      run: "port_run (vws_feed_text (policy_validator d P)) vws_receive_opt out_step
        (fed_text (policy_validator d P)) s1 es = (acc1, got, s')"
      and acc0: "acc = (if is_ok r then fed_text (policy_validator d P) t # acc1 else acc1)"
      by (auto split: prod.splits)
    note acc = acc0 [unfolded fed_text_policy]
    from Cons.IH [OF run] have "\<forall>t \<in> set acc1. is_ok (policy_validate_text d P t)" .
    moreover have "is_ok r \<Longrightarrow> is_ok (policy_validate_text d P t)"
      using fed_policy_ok [of d P s t] p by (auto simp: is_ok_iff)
    ultimately show ?thesis using acc by (auto split: if_splits)
  next
    case PGet
    with Cons show ?thesis by (auto split: prod.splits)
  next
    case (POther o')
    with Cons show ?thesis by auto
  qed
qed simp

text \<open>
  C20. The gateway sees only what the policy allows: with the policy installed as inbound
  validator, over any interleaving of peers, gateway and closes, every frame the gateway
  reads is, verbatim and in order, a frame the peer sent, and satisfies the policy.
\<close>

theorem gateway_sees_only_policy_frames:
  assumes "new_vws a b c = Inr s"
    and "port_run (vws_feed_text (policy_validator d P)) vws_receive_opt out_step
           (fed_text (policy_validator d P)) s es = (accepted, got, s')"
  shows "(\<exists>rest. accepted = got @ rest) \<and>
    list_all (\<lambda>t. \<exists>v. loads_strict d t = Some v \<and> strict v \<and> request_safe P v) got"
proof -
  have fifo: "\<exists>rest. accepted = got @ rest"
    using vin.fifo [OF assms(2)] new_vws_Inr [OF assms(1)] by (simp add: in_content_def)
  then have "set got \<subseteq> set accepted" by auto
  with accepted_by_policy [OF assms(2)] fifo show ?thesis
    using policy_validate_text_iff [of d P] loads_strict_sound [of d]
    by (fastforce simp: list_all_iff is_ok_iff)
qed

definition ping_text :: pystr where
  "ping_text = dumps (JObj [(lit ''jsonrpc'', JStr (lit ''2.0'')), (lit ''id'', JStr (lit ''r1'')),
     (lit ''method'', JStr (lit ''gateway.ping''))])"

lemma ping_size: "utf8_size ping_text = Some 51"
  by (simp add: ping_text_def lit_def dumps_str_def escape_out_def utf8_size_def utf8_encode_def utf8_bytes_def)

lemma ping_passes:
  assumes "lit ''gateway.ping'' \<in> set (mp_allowed_methods P)"
  shows "policy_validate_text 3 P ping_text = Inr ping_text"
proof -
  have "loads_strict 3 ping_text = Some (JObj [(lit ''jsonrpc'', JStr (lit ''2.0'')), (lit ''id'', JStr (lit ''r1'')),
     (lit ''method'', JStr (lit ''gateway.ping''))])"
    unfolding ping_text_def by (rule loads_strict_dumps) simp_all
  then show ?thesis using assms
    by (simp add: policy_validate_text_iff request_safe_def REQUEST_FIELDS_def jget_def correlated_def)
      (simp add: lit_def)
qed

theorem gateway_sees_only_policy_frames_witness:
  "\<exists>s P acc got s'. new_vws 4 100 100 = Inr s
     \<and> port_run (vws_feed_text (policy_validator 3 P)) vws_receive_opt out_step (fed_text (policy_validator 3 P)) s
         [PPut ping_text, PGet] = (acc, got, s')
     \<and> got = [ping_text] \<and> list_all (\<lambda>t. \<exists>v. loads_strict 3 t = Some v \<and> strict v \<and> request_safe P v) got"
proof -
  obtain s where s: "new_vws 4 100 100 = Inr s" by (simp add: new_vws_def)
  define P where "P = \<lparr>mp_profile = [], mp_allowed_methods = ALLOWED_V1_METHODS, mp_profile_authorizer = None\<rparr>"
  then have P: "mp_allowed_methods P = ALLOWED_V1_METHODS" by simp
  have pass: "policy_validate_text 3 P ping_text = Inr ping_text"
    by (rule ping_passes) (simp add: P ALLOWED_V1_METHODS_def)
  obtain acc got s' where run: "port_run (vws_feed_text (policy_validator 3 P)) vws_receive_opt out_step
      (fed_text (policy_validator 3 P)) s [PPut ping_text, PGet] = (acc, got, s')"
    by (cases "port_run (vws_feed_text (policy_validator 3 P)) vws_receive_opt out_step
      (fed_text (policy_validator 3 P)) s [PPut ping_text, PGet]")
  have "got = [ping_text]"
    using run s pass ping_size
    by (auto simp: new_vws_def vws_feed_text_def feed_size_def vws_validate_text_def run_validator_def
        policy_validator_def queue_full_def fed_text_def vws_receive_opt_def vws_receive_text_def)
  with gateway_sees_only_policy_frames [OF s run] s run show ?thesis by blast
qed

end
