(* ===== verification/Base64.thy ===== *)
theory Base64
  imports Py_Text
begin

text \<open>
  The base64 helpers of \<^verbatim>\<open>identity.py\<close> and the loose URL-safe decoder of
  \<^verbatim>\<open>routing_auth.py\<close>, over the standard library's codec: six-bit groups, the two
  alphabets, padding. Both exact decoders accept canonical text only, because they encode
  the result again and compare.
\<close>

section \<open>Groups of six bits\<close>

fun sextets :: "nat list \<Rightarrow> nat list" where
  "sextets [] = []"
| "sextets [a] = [a div 4, a mod 4 * 16]"
| "sextets [a, b] = [a div 4, a mod 4 * 16 + b div 16, b mod 16 * 4]"
| "sextets (a # b # c # r) =
     a div 4 # (a mod 4 * 16 + b div 16) # (b mod 16 * 4 + c div 64) # c mod 64 # sextets r"

text \<open>Trailing bits of an incomplete group are dropped, as \<open>binascii\<close> does.\<close>

fun unsextets :: "nat list \<Rightarrow> nat list option" where
  "unsextets [] = Some []"
| "unsextets [w] = None"
| "unsextets [w, x] = Some [w * 4 + x div 16]"
| "unsextets [w, x, y] = Some [w * 4 + x div 16, x mod 16 * 16 + y div 4]"
| "unsextets (w # x # y # z # r) =
     map_option (\<lambda>bs. (w * 4 + x div 16) # (x mod 16 * 16 + y div 4) # (y mod 4 * 64 + z) # bs)
       (unsextets r)"

lemma unsextets_sextets: "\<forall>b \<in> set bs. b < 256 \<Longrightarrow> unsextets (sextets bs) = Some bs"
proof (induction bs rule: sextets.induct)
  case (4 a b c r)
  then have "a div 4 * 4 + (a mod 4 * 16 + b div 16) div 16 = a"
    "(a mod 4 * 16 + b div 16) mod 16 * 16 + (b mod 16 * 4 + c div 64) div 4 = b"
    "(b mod 16 * 4 + c div 64) mod 4 * 64 + c mod 64 = c" by auto
  with 4 show ?case by simp
next
  case (3 a b)
  then have "a div 4 * 4 + (a mod 4 * 16 + b div 16) div 16 = a"
    "(a mod 4 * 16 + b div 16) mod 16 * 16 + b mod 16 * 4 div 4 = b" by auto
  then show ?case by simp
qed auto

lemma sextets_less: "\<forall>b \<in> set bs. b < 256 \<Longrightarrow> \<forall>x \<in> set (sextets bs). x < 64"
proof (induction bs rule: sextets.induct)
  case (4 a b c r)
  have "a mod 4 * 16 + b div 16 < 64" "b mod 16 * 4 + c div 64 < 64" "a div 4 < 64" using 4 by auto
  with 4 show ?case by simp
next
  case (3 a b)
  then have "a mod 4 * 16 + b div 16 < 64" "a div 4 < 64" by auto
  then show ?case by simp
qed auto

lemma sextets_Nil [simp]: "sextets bs = [] \<longleftrightarrow> bs = []"
  by (cases bs rule: sextets.cases) auto

lemma length_sextets: "length (sextets bs) = (length bs * 8 + 5) div 6"
  by (induction bs rule: sextets.induct) auto

section \<open>Alphabets\<close>

definition b64_char :: "nat \<Rightarrow> nat" where
  "b64_char v = (if v < 26 then 65 + v else if v < 52 then 71 + v else if v < 62 then v - 4
                 else if v = 62 then 43 else 47)"

definition b64_val :: "nat \<Rightarrow> nat option" where
  "b64_val c = (if is_upper c then Some (c - 65) else if is_lower c then Some (c - 71)
                else if is_digit c then Some (c + 4)
                else if c = 43 then Some 62 else if c = 47 then Some 63 else None)"

definition b64url_char :: "nat \<Rightarrow> nat" where
  "b64url_char v = (if v = 62 then 45 else if v = 63 then 95 else b64_char v)"

definition b64url_val :: "nat \<Rightarrow> nat option" where
  "b64url_val c = (if c = 45 then Some 62 else if c = 95 then Some 63
                   else if c = 43 \<or> c = 47 then None else b64_val c)"

lemma b64_val_char: "v < 64 \<Longrightarrow> b64_val (b64_char v) = Some v"
  by (auto simp: b64_val_def b64_char_def is_upper_def is_lower_def is_digit_def)

lemma b64url_val_char: "v < 64 \<Longrightarrow> b64url_val (b64url_char v) = Some v"
  by (auto simp: b64url_val_def b64url_char_def b64_val_def b64_char_def is_upper_def is_lower_def is_digit_def)

lemma b64_char_not_pad: "b64_char v \<noteq> 61"
  by (auto simp: b64_char_def)

section \<open>The helpers\<close>

definition pad :: "pystr \<Rightarrow> pystr" where
  \<comment> \<open>\<open>"=" * (-len(value) % 4)\<close>\<close>
  "pad t = replicate ((4 - length t mod 4) mod 4) 61"

definition b64encode :: "bytes \<Rightarrow> pystr" where
  "b64encode bs = (let t = map b64_char (sextets (map unat bs)) in t @ pad t)"

definition b64url_encode :: "bytes \<Rightarrow> pystr" where
  "b64url_encode bs = map b64url_char (sextets (map unat bs))"

fun all_some :: "'a option list \<Rightarrow> 'a list option" where
  "all_some [] = Some []"
| "all_some (None # xs) = None"
| "all_some (Some x # xs) = map_option (Cons x) (all_some xs)"

lemma all_some_map: "\<forall>x \<in> set xs. f (g x) = Some x \<Longrightarrow> all_some (map f (map g xs)) = Some xs"
  by (induction xs) auto

definition MAX_B64_TEXT :: nat where "MAX_B64_TEXT = 128"

definition decode_with :: "(nat \<Rightarrow> nat option) \<Rightarrow> pystr \<Rightarrow> bytes option" where
  "decode_with val t =
     (case all_some (map val t) of None \<Rightarrow> None
      | Some vs \<Rightarrow> map_option (map word_of_nat) (unsextets vs))"

definition b64decode_exact :: "pystr \<Rightarrow> nat \<Rightarrow> bytes option" where
  "b64decode_exact t expected_length =
     (if length t > MAX_B64_TEXT \<or> t = [] then None
      else (case decode_with b64_val (takeWhile (\<lambda>c. c \<noteq> 61) t) of
              None \<Rightarrow> None
            | Some decoded \<Rightarrow>
                if length decoded \<noteq> expected_length \<or> b64encode decoded \<noteq> t then None
                else Some decoded))"

definition b64url_decode_exact :: "pystr \<Rightarrow> nat \<Rightarrow> bytes option" where
  "b64url_decode_exact t expected_length =
     (if length t > MAX_B64_TEXT \<or> t = [] then None
      else (case decode_with b64url_val t of
              None \<Rightarrow> None
            | Some decoded \<Rightarrow>
                if length decoded \<noteq> expected_length \<or> b64url_encode decoded \<noteq> t then None
                else Some decoded))"

definition b64url_decode_loose :: "pystr \<Rightarrow> bytes option" where
  "b64url_decode_loose t = (if t = [] then None else decode_with b64url_val t)"

section \<open>Round trips\<close>

lemma bytes_less_256: "\<forall>b \<in> set (map unat (bs :: bytes)). b < 256"
  by auto

lemma map_word_unat: "map (word_of_nat :: nat \<Rightarrow> byte) (map unat bs) = bs"
  by (simp add: o_def)

lemma decode_with_chars:
  assumes "\<And>v. v < 64 \<Longrightarrow> val (chr v) = Some v"
  shows "decode_with val (map chr (sextets (map unat (bs :: bytes)))) = Some bs"
proof -
  let ?v = "sextets (map unat bs)"
  have "all_some (map val (map chr ?v)) = Some ?v"
    by (rule all_some_map) (use assms sextets_less [OF bytes_less_256] in auto)
  then show ?thesis
    using unsextets_sextets [OF bytes_less_256, of bs] map_word_unat [of bs]
    by (simp add: decode_with_def)
qed

lemma takeWhile_b64: "takeWhile (\<lambda>c. c \<noteq> 61) (map b64_char vs @ pad t) = map b64_char vs"
proof -
  have "takeWhile (\<lambda>c. c \<noteq> 61) (pad t) = []" by (simp add: pad_def takeWhile_eq_Nil_iff)
  then show ?thesis by (subst takeWhile_append2) (auto simp: b64_char_not_pad)
qed

lemma b64_exact_encode:
  assumes "bs \<noteq> []" and "length (b64encode bs) \<le> MAX_B64_TEXT"
  shows "b64decode_exact (b64encode bs) (length bs) = Some bs"
proof -
  have "decode_with b64_val (takeWhile (\<lambda>c. c \<noteq> 61) (b64encode bs)) = Some bs"
    unfolding b64encode_def Let_def takeWhile_b64 by (rule decode_with_chars) (rule b64_val_char)
  moreover have "b64encode bs \<noteq> []"
    using assms(1) by (simp add: b64encode_def Let_def)
  ultimately show ?thesis using assms by (simp add: b64decode_exact_def)
qed

lemma b64url_exact_encode:
  assumes "bs \<noteq> []" and "length (b64url_encode bs) \<le> MAX_B64_TEXT"
  shows "b64url_decode_exact (b64url_encode bs) (length bs) = Some bs"
proof -
  have "decode_with b64url_val (b64url_encode bs) = Some bs"
    unfolding b64url_encode_def by (rule decode_with_chars) (rule b64url_val_char)
  moreover have "b64url_encode bs \<noteq> []"
    using assms(1) by (simp add: b64url_encode_def)
  ultimately show ?thesis using assms by (simp add: b64url_decode_exact_def)
qed

lemma b64decode_exact_Some:
  "b64decode_exact t n = Some bs \<Longrightarrow> b64encode bs = t \<and> length bs = n"
  by (auto simp: b64decode_exact_def split: option.splits if_splits)

lemma b64url_decode_exact_Some:
  "b64url_decode_exact t n = Some bs \<Longrightarrow> b64url_encode bs = t \<and> length bs = n"
  by (auto simp: b64url_decode_exact_def split: option.splits if_splits)

lemma b64url_loose_encode: "bs \<noteq> [] \<Longrightarrow> b64url_decode_loose (b64url_encode bs) = Some bs"
proof -
  assume "bs \<noteq> []"
  then have "b64url_encode bs \<noteq> []"
    by (simp add: b64url_encode_def)
  moreover have "decode_with b64url_val (b64url_encode bs) = Some bs"
    unfolding b64url_encode_def by (rule decode_with_chars) (rule b64url_val_char)
  ultimately show ?thesis by (simp add: b64url_decode_loose_def)
qed

lemma length_b64url_encode: "length (b64url_encode bs) = (length bs * 8 + 5) div 6"
  by (simp add: b64url_encode_def length_sextets)

lemma b64url_encode_inject: "b64url_encode xs = b64url_encode ys \<Longrightarrow> xs = ys"
proof -
  assume "b64url_encode xs = b64url_encode ys"
  moreover have "decode_with b64url_val (b64url_encode zs) = Some zs" for zs :: bytes
    unfolding b64url_encode_def by (rule decode_with_chars) (rule b64url_val_char)
  ultimately show "xs = ys" by (metis option.inject)
qed

end
