(* ===== verification/Authorization.thy ===== *)
theory Authorization
  imports Base64
begin

text \<open>
  Pairing and device authorization: \<open>AuthorizationRepository\<close> of \<^verbatim>\<open>authorization.py\<close> and
  the host identity of \<^verbatim>\<open>identity.py\<close> it uses. An operation is a transaction on the
  persisted state: it loads and validates, works on a copy, and either saves a validated
  state or raises, in which case the persisted state is the last one saved.

  Fields that the source stores as canonical base64 of 32 bytes are kept as bytes (the
  exact codec is a bijection, theory \<open>Base64\<close>); identifiers stay text, because they are
  sorted as text. The clock, the random source, SHA-256, X25519 and the outcome of writing
  the file are parameters, collected in a record.
\<close>

section \<open>Constants and data\<close>

definition MAX_TTL_SECONDS :: int where "MAX_TTL_SECONDS = 600"
definition DEFAULT_TTL_SECONDS :: int where "DEFAULT_TTL_SECONDS = 300"
definition MAX_DEVICE_RECORDS :: nat where "MAX_DEVICE_RECORDS = 16"
definition MAX_REVOKED_KEY_DIGESTS :: nat where "MAX_REVOKED_KEY_DIGESTS = 512"
definition MAX_ACTIVE_DEVICES :: nat where "MAX_ACTIVE_DEVICES = 5"
definition DEVICE_ID_BYTES :: nat where "DEVICE_ID_BYTES = 16"
definition PAIRING_OFFER_ID_BYTES :: nat where "PAIRING_OFFER_ID_BYTES = 16"
definition MAX_DEVICE_ID_TEXT :: nat where "MAX_DEVICE_ID_TEXT = 128"
definition RAW_BYTES :: nat where "RAW_BYTES = 32"
definition MAX_DEVICE_NAME_CHARS :: nat where "MAX_DEVICE_NAME_CHARS = 64"

lemmas auth_constants = MAX_TTL_SECONDS_def MAX_DEVICE_RECORDS_def MAX_REVOKED_KEY_DIGESTS_def
  MAX_ACTIVE_DEVICES_def DEVICE_ID_BYTES_def PAIRING_OFFER_ID_BYTES_def MAX_DEVICE_ID_TEXT_def
  RAW_BYTES_def MAX_DEVICE_NAME_CHARS_def

datatype offer_status = OActive | OExpired | OConsumed
datatype device_status = DPending | DAuthorized | DRevoked | DDenied

record pairing_offer =
  po_offer_id :: pystr
  po_capability_digest :: bytes
  po_installation_id :: bytes
  po_host_public_key :: bytes
  po_created_at :: int
  po_expires_at :: int
  po_status :: offer_status
  po_consumed_at :: int

record device =
  dv_device_id :: pystr
  dv_public_key :: bytes
  dv_binding_digest :: bytes
  dv_status :: device_status
  dv_created_at :: int
  dv_updated_at :: int
  dv_epoch :: int
  dv_capabilities :: "pystr list"
  dv_device_name :: "pystr option"
  dv_label :: "pystr option"

record host_identity =
  hi_installation_id :: bytes
  hi_private_key :: bytes
  hi_public_key :: bytes

record auth_state =
  as_schema_version :: int
  as_revoked_key_digests :: "bytes list option"
  as_devices :: "device list"
  as_pairing_offer :: "pairing_offer option"
  as_host_identity :: "host_identity option"

datatype auth_error = AuthorizationError string | PairingRejected | IdentityError string

record auth_env =
  ae_now :: int              \<comment> \<open>first reading of the clock in the transaction\<close>
  ae_now_again :: int        \<comment> \<open>second reading\<close>
  ae_saves :: "auth_state \<Rightarrow> bool"   \<comment> \<open>whether writing this state succeeds\<close>
  ae_ids :: "bytes option list"      \<comment> \<open>draws of the random source for identifiers\<close>
  ae_secret :: "bytes option"        \<comment> \<open>draw for the capability\<close>
  ae_fresh_identity :: "(bytes \<times> bytes) option"  \<comment> \<open>draws for private key and installation id\<close>
  ae_sha256 :: "bytes \<Rightarrow> bytes"
  ae_x25519 :: "bytes \<Rightarrow> bytes"

section \<open>Display text\<close>

function py_split :: "pystr \<Rightarrow> pystr list" where
  "py_split s =
     (let t = dropWhile py_isspace s in
      if t = [] then []
      else takeWhile (\<lambda>c. \<not> py_isspace c) t # py_split (dropWhile (\<lambda>c. \<not> py_isspace c) t))"
  by pat_completeness auto
termination
proof (relation "measure length", simp)
  fix s t :: pystr
  assume t: "t = dropWhile py_isspace s" "t \<noteq> []"
  then have "\<not> py_isspace (hd t)" by (metis hd_dropWhile)
  then have "length (dropWhile (\<lambda>c. \<not> py_isspace c) t) < length t"
    using t(2) by (cases t) (auto simp: le_imp_less_Suc length_dropWhile_le)
  also have "length t \<le> length s" using t(1) by (simp add: length_dropWhile_le)
  finally show "(dropWhile (\<lambda>c. \<not> py_isspace c) t, s) \<in> measure length" by simp
qed

declare py_split.simps [simp del]

fun space_join :: "pystr list \<Rightarrow> pystr" where
  "space_join [] = []"
| "space_join [x] = x"
| "space_join (x # y # xs) = x @ 32 # space_join (y # xs)"

definition clean_device_text :: "pystr \<Rightarrow> pystr option" where
  "clean_device_text v =
     (let cleaned = space_join (py_split v) in
      if cleaned = [] \<or> length cleaned > MAX_DEVICE_NAME_CHARS then None
      else if list_ex (\<lambda>ch. ch < 0x20 \<or> ch = 0x7F) cleaned then None
      else Some cleaned)"

section \<open>Validation\<close>

definition valid_int :: "int \<Rightarrow> bool" where
  "valid_int v \<longleftrightarrow> 0 \<le> v \<and> v \<le> 2 ^ 63 - 1"

definition valid_id :: "pystr \<Rightarrow> nat \<Rightarrow> bool" where
  "valid_id t n \<longleftrightarrow> b64url_decode_exact t n \<noteq> None"

definition is_active :: "device \<Rightarrow> bool" where
  "is_active d \<longleftrightarrow> dv_status d = DPending \<or> dv_status d = DAuthorized"

definition valid_display :: "pystr option \<Rightarrow> bool" where
  "valid_display t = (case t of None \<Rightarrow> True | Some v \<Rightarrow> v = [] \<or> clean_device_text v = Some v)"

definition valid_device :: "device \<Rightarrow> bool" where
  "valid_device d \<longleftrightarrow>
     valid_display (dv_device_name d) \<and> valid_display (dv_label d)
     \<and> dv_device_id d \<noteq> [] \<and> length (dv_device_id d) \<le> MAX_DEVICE_ID_TEXT
     \<and> valid_id (dv_device_id d) DEVICE_ID_BYTES
     \<and> length (dv_public_key d) = RAW_BYTES \<and> length (dv_binding_digest d) = RAW_BYTES
     \<and> valid_int (dv_created_at d) \<and> valid_int (dv_updated_at d) \<and> valid_int (dv_epoch d)
     \<and> dv_updated_at d \<ge> dv_created_at d \<and> dv_epoch d \<le> 2 ^ 31 - 1
     \<and> dv_capabilities d = (if dv_status d = DAuthorized then [lit ''client''] else [])"

definition valid_offer :: "pairing_offer \<Rightarrow> bool" where
  "valid_offer p \<longleftrightarrow>
     valid_id (po_offer_id p) PAIRING_OFFER_ID_BYTES
     \<and> length (po_capability_digest p) = RAW_BYTES \<and> length (po_installation_id p) = RAW_BYTES
     \<and> length (po_host_public_key p) = RAW_BYTES
     \<and> valid_int (po_created_at p) \<and> valid_int (po_expires_at p) \<and> valid_int (po_consumed_at p)
     \<and> po_expires_at p > po_created_at p \<and> po_expires_at p - po_created_at p \<le> MAX_TTL_SECONDS
     \<and> (po_status p = OConsumed \<longleftrightarrow> po_consumed_at p \<noteq> 0)"

definition evidence_of :: "auth_state \<Rightarrow> bytes list" where
  \<comment> \<open>\<open>state.get("revoked_key_digests", [])\<close>\<close>
  "evidence_of st = (case as_revoked_key_digests st of None \<Rightarrow> [] | Some ev \<Rightarrow> ev)"

definition validate_auth_state :: "auth_state \<Rightarrow> bool" where
  "validate_auth_state st \<longleftrightarrow>
     as_schema_version st \<in> {1, 2}
     \<and> (as_schema_version st = 1 \<longrightarrow> as_revoked_key_digests st = None)
     \<and> (as_schema_version st = 2 \<longrightarrow> as_revoked_key_digests st \<noteq> None)
     \<and> length (evidence_of st) \<le> MAX_REVOKED_KEY_DIGESTS
     \<and> list_all (\<lambda>d. length d = RAW_BYTES) (evidence_of st) \<and> distinct (evidence_of st)
     \<and> length (as_devices st) \<le> MAX_DEVICE_RECORDS
     \<and> list_all valid_device (as_devices st) \<and> distinct (map dv_device_id (as_devices st))
     \<and> length (filter is_active (as_devices st)) \<le> MAX_ACTIVE_DEVICES
     \<and> (case as_pairing_offer st of None \<Rightarrow> True | Some p \<Rightarrow> valid_offer p)"

section \<open>Summaries and identifiers\<close>

record device_summary =
  ds_device_id :: pystr
  ds_status :: device_status
  ds_fingerprint :: pystr
  ds_created_at :: int
  ds_updated_at :: int
  ds_epoch :: int
  ds_capabilities :: "pystr list"
  ds_device_name :: pystr
  ds_label :: pystr

definition nibble :: "nat \<Rightarrow> nat" where
  "nibble n = (if n < 10 then 48 + n else 87 + n)"

definition hex_bytes :: "bytes \<Rightarrow> pystr" where
  "hex_bytes bs = concat (map (\<lambda>b. [nibble (unat b div 16), nibble (unat b mod 16)]) bs)"

definition summary_of :: "device \<Rightarrow> device_summary" where
  "summary_of d =
     \<lparr>ds_device_id = dv_device_id d, ds_status = dv_status d,
      ds_fingerprint = take 16 (hex_bytes (dv_binding_digest d)),
      ds_created_at = dv_created_at d, ds_updated_at = dv_updated_at d, ds_epoch = dv_epoch d,
      ds_capabilities = dv_capabilities d,
      ds_device_name = (case dv_device_name d of None \<Rightarrow> [] | Some n \<Rightarrow> n),
      ds_label = (case dv_label d of None \<Rightarrow> [] | Some l \<Rightarrow> l)\<rparr>"

text \<open>Up to eight draws; an exhausted or failing source raises.\<close>

fun identifier_draws :: "nat \<Rightarrow> nat \<Rightarrow> bytes option list \<Rightarrow> pystr list \<Rightarrow> auth_error + pystr" where
  "identifier_draws 0 size' draws existing = Inl (AuthorizationError ''random generation failed'')"
| "identifier_draws (Suc n) size' [] existing = Inl (AuthorizationError ''random generation failed'')"
| "identifier_draws (Suc n) size' (None # draws) existing = Inl (AuthorizationError ''random generation failed'')"
| "identifier_draws (Suc n) size' (Some r # draws) existing =
     (if length r \<noteq> size' then Inl (AuthorizationError ''random generation failed'')
      else if b64url_encode r \<notin> set existing then Inr (b64url_encode r)
      else identifier_draws n size' draws existing)"

definition new_identifier :: "auth_env \<Rightarrow> nat \<Rightarrow> pystr list \<Rightarrow> auth_error + pystr" where
  "new_identifier env size' existing = identifier_draws 8 size' (ae_ids env) existing"

section \<open>Transactions\<close>

definition check_now :: "int \<Rightarrow> auth_error + int" where
  "check_now v = (if v < 0 \<or> v > 2 ^ 63 - 1 then Inl (AuthorizationError ''authorization time unavailable'')
                  else Inr v)"

definition load_state :: "auth_state \<Rightarrow> auth_error + auth_state" where
  "load_state st = (if validate_auth_state st then Inr st
                    else Inl (AuthorizationError ''authorization state invalid''))"

text \<open>\<open>_save_state_unlocked\<close>: the new persisted state, or the exception.\<close>

definition save_state :: "auth_env \<Rightarrow> auth_state \<Rightarrow> auth_error + auth_state" where
  "save_state env st = (if validate_auth_state st \<and> ae_saves env st then Inr st
                        else Inl (AuthorizationError ''authorization state unavailable''))"

definition identity_valid :: "auth_env \<Rightarrow> host_identity \<Rightarrow> bool" where
  "identity_valid env i \<longleftrightarrow> length (hi_installation_id i) = RAW_BYTES \<and> length (hi_private_key i) = RAW_BYTES
     \<and> length (hi_public_key i) = RAW_BYTES \<and> ae_x25519 env (hi_private_key i) = hi_public_key i"

definition new_identity :: "auth_env \<Rightarrow> auth_error + host_identity" where
  "new_identity env =
     (case ae_fresh_identity env of
        None \<Rightarrow> Inl (IdentityError ''random generation failed'')
      | Some (private_key, installation_id) \<Rightarrow>
          if length private_key \<noteq> RAW_BYTES \<or> length installation_id \<noteq> RAW_BYTES
          then Inl (IdentityError ''random generation failed'')
          else if length (ae_x25519 env private_key) \<noteq> RAW_BYTES
          then Inl (IdentityError ''host identity state invalid'')
          else Inr \<lparr>hi_installation_id = installation_id, hi_private_key = private_key,
                    hi_public_key = ae_x25519 env private_key\<rparr>)"

definition load_or_create_identity ::
  "auth_env \<Rightarrow> auth_state \<Rightarrow> auth_error + (host_identity \<times> auth_state)" where
  "load_or_create_identity env st =
     (case as_host_identity st of
        Some i \<Rightarrow> if identity_valid env i then Inr (i, st)
                  else Inl (IdentityError ''host identity state invalid'')
      | None \<Rightarrow>
          res_bind (new_identity env) (\<lambda>i.
            let updated = st\<lparr>as_host_identity := Some i\<rparr> in
            if ae_saves env updated then Inr (i, updated)
            else Inl (IdentityError ''host identity state invalid'')))"

definition expire_one :: "int \<Rightarrow> int \<Rightarrow> device \<Rightarrow> device" where
  "expire_one now max_age d =
     (if dv_status d = DPending \<and> now - dv_created_at d \<ge> max_age
      then d\<lparr>dv_status := DDenied, dv_updated_at := now, dv_epoch := dv_epoch d + 1\<rparr> else d)"

definition expire_pending_in_state :: "int \<Rightarrow> int \<Rightarrow> auth_state \<Rightarrow> device_summary list \<times> auth_state" where
  "expire_pending_in_state now max_age st =
     (map (summary_of \<circ> expire_one now max_age)
        (filter (\<lambda>d. dv_status d = DPending \<and> now - dv_created_at d \<ge> max_age) (as_devices st)),
      st\<lparr>as_devices := map (expire_one now max_age) (as_devices st)\<rparr>)"

text \<open>
  One candidate of the pruning loop: \<open>None\<close> for \<open>continue\<close>, otherwise the evidence list and
  the state without the record.
\<close>

definition compact_record ::
  "(bytes \<Rightarrow> bytes) \<Rightarrow> bytes list \<Rightarrow> device \<Rightarrow> auth_state \<Rightarrow> (bytes list \<times> auth_state) option" where
  "compact_record sha evidence record st =
     (let digest = sha (dv_public_key record) in
      if dv_status record = DRevoked \<and> digest \<notin> set evidence
         \<and> length evidence \<ge> MAX_REVOKED_KEY_DIGESTS
      then None
      else
        let evidence1 = (if dv_status record = DRevoked \<and> digest \<notin> set evidence
                         then evidence @ [digest] else evidence);
            st1 = (if dv_status record = DRevoked
                   then st\<lparr>as_revoked_key_digests := Some evidence1, as_schema_version := 2\<rparr> else st)
        in Some (evidence1, st1\<lparr>as_devices := remove1 record (as_devices st1)\<rparr>))"

fun slot_loop :: "(bytes \<Rightarrow> bytes) \<Rightarrow> bytes list \<Rightarrow> device list \<Rightarrow> auth_state \<Rightarrow> auth_state" where
  "slot_loop sha evidence [] st = st"
| "slot_loop sha evidence (record # candidates) st =
     (case compact_record sha evidence record st of
        None \<Rightarrow> slot_loop sha evidence candidates st
      | Some (evidence1, st1) \<Rightarrow>
          if length (as_devices st1) < MAX_DEVICE_RECORDS then st1
          else slot_loop sha evidence1 candidates st1)"

definition slot_key :: "device \<Rightarrow> bool \<times> int \<times> pystr" where
  "slot_key d = (dv_status d \<noteq> DDenied, dv_updated_at d, dv_device_id d)"

definition make_device_slot :: "auth_env \<Rightarrow> auth_state \<Rightarrow> auth_state" where
  "make_device_slot env st =
     (if length (as_devices st) < MAX_DEVICE_RECORDS then st
      else slot_loop (ae_sha256 env) (evidence_of st)
             (sort_key slot_key
               (filter (\<lambda>d. dv_status d = DDenied \<or> dv_status d = DRevoked) (as_devices st))) st)"

definition find_device :: "auth_state \<Rightarrow> pystr \<Rightarrow> device option" where
  "find_device st device_id = find (\<lambda>d. dv_device_id d = device_id) (as_devices st)"

text \<open>\<open>devices[devices.index(record)] = updated\<close>\<close>

fun replace_first :: "'a \<Rightarrow> 'a \<Rightarrow> 'a list \<Rightarrow> 'a list" where
  "replace_first old new [] = []"
| "replace_first old new (x # xs) = (if x = old then new # xs else x # replace_first old new xs)"

definition put_device :: "auth_state \<Rightarrow> device \<Rightarrow> device \<Rightarrow> auth_state" where
  "put_device st old new = st\<lparr>as_devices := replace_first old new (as_devices st)\<rparr>"

section \<open>Operations of the repository\<close>

text \<open>The result of an operation and the state it leaves on disk.\<close>

type_synonym 'a auth_result = "(auth_error + 'a) \<times> auth_state"

definition commit :: "auth_env \<Rightarrow> auth_state \<Rightarrow> auth_state \<Rightarrow> 'a \<Rightarrow> 'a auth_result" where
  \<comment> \<open>save \<open>new\<close> over \<open>old\<close> and return\<close>
  "commit env old new v = (case save_state env new of Inl e \<Rightarrow> (Inl e, old) | Inr st \<Rightarrow> (Inr v, st))"

text \<open>The beginning of \<open>create_offer\<close> and \<open>consume_offer\<close>: load, identity, load again.\<close>

definition begin_with_identity ::
  "auth_env \<Rightarrow> auth_state \<Rightarrow> auth_error + (host_identity \<times> auth_state)" where
  "begin_with_identity env st =
     res_bind (load_state st) (\<lambda>st0.
     res_bind (load_or_create_identity env st0) (\<lambda>(i, st1).
     res_bind (load_state st1) (\<lambda>st2. Inr (i, st2))))"

record new_offer =
  no_offer_id :: pystr
  no_installation_id :: bytes
  no_host_public_key :: bytes
  no_expires_at :: int
  no_capability :: bytes

definition superseded :: "pairing_offer option \<Rightarrow> pairing_offer option" where
  "superseded existing =
     (case existing of None \<Rightarrow> None
      | Some p \<Rightarrow> if po_status p = OActive then Some (p\<lparr>po_status := OExpired\<rparr>) else Some p)"

definition offered :: "auth_env \<Rightarrow> host_identity \<Rightarrow> int \<Rightarrow> int \<Rightarrow> pystr \<Rightarrow> bytes \<Rightarrow> pairing_offer" where
  "offered env i now ttl offer_id capability =
     \<lparr>po_offer_id = offer_id, po_capability_digest = ae_sha256 env capability,
      po_installation_id = hi_installation_id i, po_host_public_key = hi_public_key i,
      po_created_at = now, po_expires_at = now + ttl, po_status = OActive, po_consumed_at = 0\<rparr>"

definition create_offer :: "auth_env \<Rightarrow> int \<Rightarrow> auth_state \<Rightarrow> new_offer auth_result" where
  "create_offer env ttl_seconds st =
     (if ttl_seconds < 1 \<or> ttl_seconds > MAX_TTL_SECONDS
      then (Inl (AuthorizationError ''invalid pairing TTL''), st)
      else
        (case begin_with_identity env st of
           Inl e \<Rightarrow> (Inl e, st)
         | Inr (i, disk) \<Rightarrow>
             (case check_now (ae_now env) of
                Inl e \<Rightarrow> (Inl e, disk)
              | Inr now \<Rightarrow>
                  let st1 = snd (expire_pending_in_state now MAX_TTL_SECONDS disk);
                      st2 = st1\<lparr>as_pairing_offer := superseded (as_pairing_offer st1)\<rparr>;
                      st3 = make_device_slot env st2
                  in
                  if length (as_devices st3) \<ge> MAX_DEVICE_RECORDS
                  then (Inl (AuthorizationError ''revocation history full''), disk)
                  else
                    (case new_identifier env PAIRING_OFFER_ID_BYTES
                            [case as_pairing_offer st3 of None \<Rightarrow> [] | Some p \<Rightarrow> po_offer_id p] of
                       Inl e \<Rightarrow> (Inl e, disk)
                     | Inr offer_id \<Rightarrow>
                         (case ae_secret env of
                            None \<Rightarrow> (Inl (AuthorizationError ''random generation failed''), disk)
                          | Some capability \<Rightarrow>
                              if length capability \<noteq> RAW_BYTES
                              then (Inl (AuthorizationError ''random generation failed''), disk)
                              else commit env disk
                                (st3\<lparr>as_pairing_offer :=
                                       Some (offered env i now ttl_seconds offer_id capability)\<rparr>)
                                \<lparr>no_offer_id = offer_id, no_installation_id = hi_installation_id i,
                                 no_host_public_key = hi_public_key i,
                                 no_expires_at = now + ttl_seconds, no_capability = capability\<rparr>)))))"

definition key_revoked :: "auth_env \<Rightarrow> auth_state \<Rightarrow> bytes \<Rightarrow> bool" where
  "key_revoked env st key \<longleftrightarrow>
     ae_sha256 env key \<in> set (evidence_of st)
     \<or> list_ex (\<lambda>d. dv_status d = DRevoked \<and> dv_public_key d = key) (as_devices st)"

definition pending_device :: "auth_env \<Rightarrow> pystr \<Rightarrow> bytes \<Rightarrow> bytes \<Rightarrow> int \<Rightarrow> device" where
  "pending_device env device_id key binding now =
     \<lparr>dv_device_id = device_id, dv_public_key = key, dv_binding_digest = ae_sha256 env binding,
      dv_status = DPending, dv_created_at = now, dv_updated_at = now, dv_epoch = 0,
      dv_capabilities = [], dv_device_name = None, dv_label = None\<rparr>"

definition consume_offer ::
  "auth_env \<Rightarrow> bytes \<Rightarrow> bytes \<Rightarrow> bytes \<Rightarrow> auth_state \<Rightarrow> device_summary auth_result" where
  "consume_offer env capability public_key binding st =
     (if length capability \<noteq> RAW_BYTES \<or> length public_key \<noteq> RAW_BYTES \<or> length binding \<noteq> RAW_BYTES
      then (Inl PairingRejected, st)
      else
        (case begin_with_identity env st of
           Inl e \<Rightarrow> (Inl e, st)
         | Inr (i, disk) \<Rightarrow>
             (case as_pairing_offer disk of
                None \<Rightarrow> (Inl PairingRejected, disk)
              | Some offer \<Rightarrow>
                  (case check_now (ae_now env) of
                     Inl e \<Rightarrow> (Inl e, disk)
                   | Inr now \<Rightarrow>
                       if \<not> (ae_sha256 env capability = po_capability_digest offer
                             \<and> hi_installation_id i = po_installation_id offer
                             \<and> hi_public_key i = po_host_public_key offer
                             \<and> po_status offer = OActive \<and> now < po_expires_at offer)
                       then (if po_status offer = OActive \<and> now \<ge> po_expires_at offer
                             then (case save_state env (disk\<lparr>as_pairing_offer := Some (offer\<lparr>po_status := OExpired\<rparr>)\<rparr>) of
                                     Inl e \<Rightarrow> (Inl e, disk)
                                   | Inr disk1 \<Rightarrow> (Inl PairingRejected, disk1))
                             else (Inl PairingRejected, disk))
                       else
                         let st1 = snd (expire_pending_in_state now MAX_TTL_SECONDS disk);
                             st2 = make_device_slot env st1
                         in
                         if length (filter is_active (as_devices st2)) \<ge> MAX_ACTIVE_DEVICES
                            \<or> key_revoked env st2 public_key
                            \<or> length (as_devices st2) \<ge> MAX_DEVICE_RECORDS
                         then (Inl PairingRejected, disk)
                         else
                           (case new_identifier env DEVICE_ID_BYTES (map dv_device_id (as_devices st2)) of
                              Inl e \<Rightarrow> (Inl e, disk)
                            | Inr device_id \<Rightarrow>
                                let record = pending_device env device_id public_key binding now in
                                commit env disk
                                  (st2\<lparr>as_pairing_offer :=
                                         Some (offer\<lparr>po_status := OConsumed, po_consumed_at := now\<rparr>),
                                       as_devices := as_devices st2 @ [record]\<rparr>)
                                  (summary_of record))))))"

text \<open>The common beginning of both approvals: expire, and save if anything expired.\<close>

definition load_expired :: "auth_env \<Rightarrow> int \<Rightarrow> auth_state \<Rightarrow> auth_error + auth_state" where
  "load_expired env max_age st =
     res_bind (load_state st) (\<lambda>st0.
     res_bind (check_now (ae_now env)) (\<lambda>now.
       case expire_pending_in_state now max_age st0 of
         (changed, st1) \<Rightarrow> if changed \<noteq> [] then save_state env st1 else Inr st1))"

definition authorize_record :: "auth_env \<Rightarrow> auth_state \<Rightarrow> device \<Rightarrow> device_summary auth_result" where
  "authorize_record env disk record =
     (case check_now (ae_now_again env) of
        Inl e \<Rightarrow> (Inl e, disk)
      | Inr now \<Rightarrow>
          let updated = record\<lparr>dv_status := DAuthorized, dv_updated_at := now,
                               dv_capabilities := [lit ''client'']\<rparr>
          in commit env disk (put_device disk record updated) (summary_of updated))"

definition approve :: "auth_env \<Rightarrow> pystr \<Rightarrow> bytes \<Rightarrow> auth_state \<Rightarrow> device_summary auth_result" where
  "approve env device_id supplied_digest st =
     (if \<not> valid_id device_id DEVICE_ID_BYTES \<or> length supplied_digest \<noteq> RAW_BYTES
      then (Inl (AuthorizationError ''approval rejected''), st)
      else
        (case load_expired env MAX_TTL_SECONDS st of
           Inl e \<Rightarrow> (Inl e, st)
         | Inr disk \<Rightarrow>
             (case find_device disk device_id of
                None \<Rightarrow> (Inl (AuthorizationError ''approval rejected''), disk)
              | Some record \<Rightarrow>
                  if supplied_digest \<noteq> dv_binding_digest record \<or> \<not> is_active record
                  then (Inl (AuthorizationError ''approval rejected''), disk)
                  else if dv_status record = DAuthorized then (Inr (summary_of record), disk)
                  else authorize_record env disk record)))"

text \<open>\<open>hmac.compare_digest\<close> on text raises \<open>TypeError\<close> for a non-ASCII argument; the
  transaction guard turns that into \<open>transaction unavailable\<close>.\<close>

definition approve_confirmed :: "auth_env \<Rightarrow> pystr \<Rightarrow> pystr \<Rightarrow> auth_state \<Rightarrow> device_summary auth_result" where
  "approve_confirmed env device_id fingerprint st =
     (if \<not> valid_id device_id DEVICE_ID_BYTES
      then (Inl (AuthorizationError ''approval rejected''), st)
      else
        (case load_expired env MAX_TTL_SECONDS st of
           Inl e \<Rightarrow> (Inl e, st)
         | Inr disk \<Rightarrow>
             (case find_device disk device_id of
                None \<Rightarrow> (Inl (AuthorizationError ''approval rejected''), disk)
              | Some record \<Rightarrow>
                  if \<not> list_all (\<lambda>c. c < 128) fingerprint
                  then (Inl (IdentityError ''transaction unavailable''), disk)
                  else if fingerprint \<noteq> ds_fingerprint (summary_of record)
                  then (Inl (AuthorizationError ''approval rejected''), disk)
                  else if dv_status record = DAuthorized then (Inr (summary_of record), disk)
                  else if dv_status record \<noteq> DPending
                  then (Inl (AuthorizationError ''approval rejected''), disk)
                  else authorize_record env disk record)))"

definition set_label :: "auth_env \<Rightarrow> pystr \<Rightarrow> pystr \<Rightarrow> auth_state \<Rightarrow> device_summary option auth_result" where
  "set_label env device_id label st =
     (if \<not> valid_id device_id DEVICE_ID_BYTES
      then (Inl (AuthorizationError ''invalid device identifier''), st)
      else
        (case (if label = [] then Some [] else clean_device_text label) of
           None \<Rightarrow> (Inl (AuthorizationError ''invalid label''), st)
         | Some cleaned \<Rightarrow>
             (case load_state st of
                Inl e \<Rightarrow> (Inl e, st)
              | Inr disk \<Rightarrow>
                  (case find_device disk device_id of
                     None \<Rightarrow> (Inr None, disk)
                   | Some record \<Rightarrow>
                       let updated = record\<lparr>dv_label := Some cleaned\<rparr> in
                       commit env disk (put_device disk record updated) (Some (summary_of updated))))))"

definition note_device_name :: "auth_env \<Rightarrow> pystr \<Rightarrow> bytes \<Rightarrow> pystr \<Rightarrow> auth_state \<Rightarrow> bool auth_result" where
  "note_device_name env device_id public_key name st =
     (case clean_device_text name of
        None \<Rightarrow> (Inr False, st)
      | Some cleaned \<Rightarrow>
          if \<not> valid_id device_id DEVICE_ID_BYTES \<or> length public_key \<noteq> RAW_BYTES then (Inr False, st)
          else
            (case load_state st of
               Inl e \<Rightarrow> (Inl e, st)
             | Inr disk \<Rightarrow>
                 (case find_device disk device_id of
                    None \<Rightarrow> (Inr False, disk)
                  | Some record \<Rightarrow>
                      if \<not> is_active record then (Inr False, disk)
                      else if dv_public_key record \<noteq> public_key then (Inr False, disk)
                      else if (case dv_device_name record of None \<Rightarrow> [] | Some n \<Rightarrow> n) = cleaned
                      then (Inr True, disk)
                      else commit env disk
                             (put_device disk record (record\<lparr>dv_device_name := Some cleaned\<rparr>)) True)))"

definition deny :: "auth_env \<Rightarrow> pystr \<Rightarrow> auth_state \<Rightarrow> device_summary option auth_result" where
  "deny env device_id st =
     (if \<not> valid_id device_id DEVICE_ID_BYTES
      then (Inl (AuthorizationError ''invalid device identifier''), st)
      else
        (case load_state st of
           Inl e \<Rightarrow> (Inl e, st)
         | Inr disk \<Rightarrow>
             (case find_device disk device_id of
                None \<Rightarrow> (Inr None, disk)
              | Some record \<Rightarrow>
                  if dv_status record = DDenied then (Inr (Some (summary_of record)), disk)
                  else if dv_status record \<noteq> DPending
                  then (Inl (AuthorizationError ''device state transition rejected''), disk)
                  else
                    (case check_now (ae_now env) of
                       Inl e \<Rightarrow> (Inl e, disk)
                     | Inr now \<Rightarrow>
                         let updated = record\<lparr>dv_status := DDenied, dv_updated_at := now,
                                              dv_epoch := dv_epoch record + 1\<rparr>
                         in commit env disk (put_device disk record updated)
                              (Some (summary_of updated))))))"

definition expire_pending :: "auth_env \<Rightarrow> int \<Rightarrow> auth_state \<Rightarrow> device_summary list auth_result" where
  "expire_pending env max_age_seconds st =
     (if max_age_seconds < 1 \<or> max_age_seconds > MAX_TTL_SECONDS
      then (Inl (AuthorizationError ''invalid pending timeout''), st)
      else
        (case res_bind (load_state st) (\<lambda>disk. res_bind (check_now (ae_now env)) (\<lambda>now. Inr (disk, now))) of
           Inl e \<Rightarrow> (Inl e, st)
         | Inr (disk, now) \<Rightarrow>
             (case expire_pending_in_state now max_age_seconds disk of
                (changed, st1) \<Rightarrow> if changed \<noteq> [] then commit env disk st1 changed else (Inr changed, disk))))"

definition revoke :: "auth_env \<Rightarrow> pystr \<Rightarrow> auth_state \<Rightarrow> device_summary option auth_result" where
  "revoke env device_id st =
     (if \<not> valid_id device_id DEVICE_ID_BYTES
      then (Inl (AuthorizationError ''invalid device identifier''), st)
      else
        (case load_state st of
           Inl e \<Rightarrow> (Inl e, st)
         | Inr disk \<Rightarrow>
             (case find_device disk device_id of
                None \<Rightarrow> (Inr None, disk)
              | Some record \<Rightarrow>
                  if dv_status record = DRevoked then (Inr (Some (summary_of record)), disk)
                  else
                    (case check_now (ae_now env) of
                       Inl e \<Rightarrow> (Inl e, disk)
                     | Inr now \<Rightarrow>
                         let updated = record\<lparr>dv_status := DRevoked, dv_updated_at := now,
                                              dv_epoch := dv_epoch record + 1, dv_capabilities := []\<rparr>
                         in commit env disk (put_device disk record updated)
                              (Some (summary_of updated))))))"

definition is_authorized :: "pystr \<Rightarrow> bytes \<Rightarrow> auth_state \<Rightarrow> auth_error + bool" where
  "is_authorized device_id public_key st =
     (if \<not> valid_id device_id DEVICE_ID_BYTES then Inr False
      else if length public_key \<noteq> RAW_BYTES then Inr False
      else res_bind (load_state st) (\<lambda>disk.
        case find_device disk device_id of
          None \<Rightarrow> Inr False
        | Some record \<Rightarrow>
            if dv_status record \<noteq> DAuthorized \<or> dv_capabilities record \<noteq> [lit ''client''] then Inr False
            else Inr (dv_public_key record = public_key)))"

definition list_devices :: "auth_env \<Rightarrow> auth_state \<Rightarrow> device_summary list auth_result" where
  "list_devices env st =
     (case load_expired env MAX_TTL_SECONDS st of
        Inl e \<Rightarrow> (Inl e, st)
      | Inr disk \<Rightarrow> (Inr (map summary_of (as_devices disk)), disk))"

definition cancel_offer :: "auth_env \<Rightarrow> pystr \<Rightarrow> auth_state \<Rightarrow> bool auth_result" where
  "cancel_offer env offer_id st =
     (if \<not> valid_id offer_id PAIRING_OFFER_ID_BYTES
      then (Inl (AuthorizationError ''invalid offer identifier''), st)
      else
        (case load_state st of
           Inl e \<Rightarrow> (Inl e, st)
         | Inr disk \<Rightarrow>
             (case as_pairing_offer disk of
                None \<Rightarrow> (Inr False, disk)
              | Some offer \<Rightarrow>
                  if po_offer_id offer \<noteq> offer_id \<or> po_status offer \<noteq> OActive then (Inr False, disk)
                  else commit env disk (disk\<lparr>as_pairing_offer := Some (offer\<lparr>po_status := OExpired\<rparr>)\<rparr>) True)))"

definition offer_status :: "auth_env \<Rightarrow> auth_state \<Rightarrow>
    auth_error + (pystr \<times> offer_status \<times> int \<times> int \<times> int) option" where
  "offer_status env st =
     res_bind (load_state st) (\<lambda>disk.
       case as_pairing_offer disk of
         None \<Rightarrow> Inr None
       | Some p \<Rightarrow>
           res_bind
             (if po_status p = OActive
              then res_bind (check_now (ae_now env))
                     (\<lambda>now. Inr (if now \<ge> po_expires_at p then OExpired else OActive))
              else Inr (po_status p))
             (\<lambda>status. Inr (Some (po_offer_id p, status, po_created_at p, po_expires_at p, po_consumed_at p))))"

section \<open>Events and the contract of a state predicate\<close>

datatype auth_event =
    ECreate auth_env int
  | EConsume auth_env bytes bytes bytes
  | EApprove auth_env pystr bytes
  | EConfirm auth_env pystr pystr
  | ELabel auth_env pystr pystr
  | EName auth_env pystr bytes pystr
  | EDeny auth_env pystr
  | EExpire auth_env int
  | ERevoke auth_env pystr
  | EList auth_env
  | ECancel auth_env pystr

fun event_env :: "auth_event \<Rightarrow> auth_env" where
  "event_env (ECreate env _) = env" | "event_env (EConsume env _ _ _) = env"
| "event_env (EApprove env _ _) = env" | "event_env (EConfirm env _ _) = env"
| "event_env (ELabel env _ _) = env" | "event_env (EName env _ _ _) = env"
| "event_env (EDeny env _) = env" | "event_env (EExpire env _) = env"
| "event_env (ERevoke env _) = env" | "event_env (EList env) = env"
| "event_env (ECancel env _) = env"

fun auth_step :: "auth_event \<Rightarrow> auth_state \<Rightarrow> auth_state" where
  "auth_step (ECreate env ttl) st = snd (create_offer env ttl st)"
| "auth_step (EConsume env c k b) st = snd (consume_offer env c k b st)"
| "auth_step (EApprove env i d) st = snd (approve env i d st)"
| "auth_step (EConfirm env i f) st = snd (approve_confirmed env i f st)"
| "auth_step (ELabel env i l) st = snd (set_label env i l st)"
| "auth_step (EName env i k n) st = snd (note_device_name env i k n st)"
| "auth_step (EDeny env i) st = snd (deny env i st)"
| "auth_step (EExpire env m) st = snd (expire_pending env m st)"
| "auth_step (ERevoke env i) st = snd (revoke env i st)"
| "auth_step (EList env) st = snd (list_devices env st)"
| "auth_step (ECancel env i) st = snd (cancel_offer env i st)"

fun approval_event :: "auth_event \<Rightarrow> bool" where
  "approval_event (EApprove _ _ _) = True"
| "approval_event (EConfirm _ _ _) = True"
| "approval_event _ = False"

definition authorized_record :: "int \<Rightarrow> device \<Rightarrow> device" where
  "authorized_record now d = d\<lparr>dv_status := DAuthorized, dv_updated_at := now, dv_capabilities := [lit ''client'']\<rparr>"

text \<open>What an update of one record keeps, whatever operation but an approval makes it.\<close>

definition device_evolves :: "device \<Rightarrow> device \<Rightarrow> bool" where
  "device_evolves old new \<longleftrightarrow> dv_device_id new = dv_device_id old \<and> dv_public_key new = dv_public_key old
     \<and> dv_binding_digest new = dv_binding_digest old \<and> dv_created_at new = dv_created_at old
     \<and> (dv_status old = DRevoked \<longrightarrow> dv_status new = DRevoked) \<and> (is_active new \<longrightarrow> is_active old)
     \<and> (dv_status new = DAuthorized \<longrightarrow> dv_status old = DAuthorized)"

lemma load_state_Inr: "load_state st = Inr st' \<longleftrightarrow> validate_auth_state st \<and> st' = st"
  by (auto simp: load_state_def)

lemma load_state_valid [simp]:
  "validate_auth_state st \<Longrightarrow> load_state st = Inr st"
  "\<not> validate_auth_state st \<Longrightarrow> load_state st = Inl (AuthorizationError ''authorization state invalid'')"
  by (simp_all add: load_state_def)

lemma save_state_Inr: "save_state env st = Inr st' \<longleftrightarrow> validate_auth_state st \<and> ae_saves env st \<and> st' = st"
  by (auto simp: save_state_def)

lemma snd_commit: "snd (commit env old new v) = (if is_ok (save_state env new) then new else old)"
  by (auto simp: commit_def save_state_def)

lemma commit_pred: "P old \<Longrightarrow> (validate_auth_state new \<Longrightarrow> P new) \<Longrightarrow> P (snd (commit env old new v))"
  by (auto simp: commit_def save_state_def)

lemma expire_none_changed:
  "fst (expire_pending_in_state now age st) = [] \<Longrightarrow> snd (expire_pending_in_state now age st) = st"
proof -
  assume "fst (expire_pending_in_state now age st) = []"
  then have "filter (\<lambda>d. dv_status d = DPending \<and> now - dv_created_at d \<ge> age) (as_devices st) = []"
    by (simp add: expire_pending_in_state_def)
  then have "map (expire_one now age) (as_devices st) = as_devices st"
    by (auto simp: filter_empty_conv expire_one_def intro!: map_idI)
  then show ?thesis by (simp add: expire_pending_in_state_def)
qed

lemma find_device_Some: "find_device st i = Some d \<Longrightarrow> d \<in> set (as_devices st) \<and> dv_device_id d = i"
  by (auto simp: find_device_def find_Some_iff)

lemma load_or_create_identity_Inr:
  assumes "load_or_create_identity env st = Inr (i, st')"
  shows "st' = st \<or> st' = st\<lparr>as_host_identity := Some i\<rparr>"
  using assms by (auto simp: load_or_create_identity_def Let_def split: option.splits if_splits)

lemma superseded_cases:
  "st\<lparr>as_pairing_offer := superseded (as_pairing_offer st)\<rparr> = st \<or>
   (\<exists>p. as_pairing_offer st = Some p \<and> st\<lparr>as_pairing_offer := superseded (as_pairing_offer st)\<rparr> =
      st\<lparr>as_pairing_offer := Some (p\<lparr>po_status := OExpired\<rparr>)\<rparr>)"
  by (cases st) (auto simp: superseded_def split: option.splits)

lemma check_now_Inr [simp]: "check_now v = Inr n \<longleftrightarrow> n = v \<and> 0 \<le> v \<and> v \<le> 2 ^ 63 - 1"
  by (auto simp: check_now_def)

lemma load_expired_Inr:
  assumes "load_expired env age st = Inr disk"
  shows "disk = snd (expire_pending_in_state (ae_now env) age st)" "validate_auth_state st"
    "validate_auth_state disk"
  using assms expire_none_changed [of "ae_now env" age st]
  by (auto simp: load_expired_def save_state_Inr load_state_Inr case_prod_beta split: if_splits)

lemma compact_record_offer:
  "compact_record sha ev r st = Some (ev1, st1) \<Longrightarrow> as_pairing_offer st1 = as_pairing_offer st"
  by (auto simp: compact_record_def Let_def split: if_splits)

lemma slot_loop_keeps_offer: "as_pairing_offer (slot_loop sha ev cs st) = as_pairing_offer st"
  by (induction cs arbitrary: ev st) (auto dest: compact_record_offer split: option.splits)

lemma slot_keeps_offer: "as_pairing_offer (make_device_slot env st) = as_pairing_offer st"
  by (simp add: make_device_slot_def slot_loop_keeps_offer)

lemma offer_devices_commute:
  "st\<lparr>as_pairing_offer := x, as_devices := y\<rparr> = st\<lparr>as_devices := y, as_pairing_offer := x\<rparr>"
  by (cases st) simp

locale auth_quiet =
  fixes P :: "auth_state \<Rightarrow> bool" and ok :: "auth_env \<Rightarrow> bool"
  assumes P_identity: "P st \<Longrightarrow> P (st\<lparr>as_host_identity := ident\<rparr>)"
    and P_expire: "P st \<Longrightarrow> P (snd (expire_pending_in_state now age st))"
    and P_slot: "ok env \<Longrightarrow> P st \<Longrightarrow> P (make_device_slot env st)"
    and P_offer_drop: "P st \<Longrightarrow> as_pairing_offer st = Some p \<Longrightarrow> status \<noteq> OActive \<Longrightarrow>
      P (st\<lparr>as_pairing_offer := Some (p\<lparr>po_status := status, po_consumed_at := t\<rparr>)\<rparr>)"
    and P_offer_new: "ok env \<Longrightarrow> ae_secret env = Some c \<Longrightarrow> P st \<Longrightarrow>
      P (st\<lparr>as_pairing_offer := Some (offered env i now ttl oid c)\<rparr>)"
    and P_put: "P st \<Longrightarrow> old \<in> set (as_devices st) \<Longrightarrow> device_evolves old new \<Longrightarrow> P (put_device st old new)"
    and P_add: "ok env \<Longrightarrow> P st \<Longrightarrow> \<not> key_revoked env st key \<Longrightarrow>
      P (st\<lparr>as_devices := as_devices st @ [pending_device env did key b now]\<rparr>)"
begin

lemma P_expired_offer:
  "P st \<Longrightarrow> as_pairing_offer st = Some p \<Longrightarrow> P (st\<lparr>as_pairing_offer := Some (p\<lparr>po_status := OExpired\<rparr>)\<rparr>)"
  using P_offer_drop [of st p OExpired "po_consumed_at p"] by simp

lemma P_superseded: "P st \<Longrightarrow> P (st\<lparr>as_pairing_offer := superseded (as_pairing_offer st)\<rparr>)"
  using P_expired_offer [of st] superseded_cases [of st] by auto

lemma P_begin:
  assumes "begin_with_identity env st = Inr (i, disk)" and "P st"
  shows "P disk"
  using assms load_or_create_identity_Inr [of env st i disk] P_identity [of st "Some i"]
  by (auto simp: begin_with_identity_def load_state_Inr)

lemma P_load_expired:
  assumes "load_expired env age st = Inr disk" and "P st"
  shows "P disk"
  using assms P_expire [of st "ae_now env" age] load_expired_Inr(1) [OF assms(1)] by simp

lemma P_create:
  assumes "ok env" and "P st"
  shows "P (snd (create_offer env ttl st))"
proof (cases "begin_with_identity env st")
  case (Inl e)
  then show ?thesis using assms by (simp add: create_offer_def)
next
  case (Inr p)
  obtain i disk where p: "p = (i, disk)" by (cases p)
  note disk = P_begin [OF Inr [unfolded p] assms(2)]
  let ?st1 = "snd (expire_pending_in_state (ae_now env) MAX_TTL_SECONDS disk)"
  let ?st2 = "?st1\<lparr>as_pairing_offer := superseded (as_pairing_offer ?st1)\<rparr>"
  have "P ?st2" by (rule P_superseded [OF P_expire [OF disk]])
  then have "P (make_device_slot env ?st2)" by (rule P_slot [OF assms(1)])
  with P_offer_new [OF assms(1)] disk show ?thesis
    using assms(2) Inr p
    by (auto simp: create_offer_def check_now_def Let_def snd_commit split: sum.splits option.splits)
qed

lemma P_consume:
  assumes "ok env" and "P st"
  shows "P (snd (consume_offer env c k b st))"
proof (cases "begin_with_identity env st")
  case (Inl e)
  then show ?thesis using assms by (simp add: consume_offer_def)
next
  case (Inr p)
  obtain i disk where p: "p = (i, disk)" by (cases p)
  note disk = P_begin [OF Inr [unfolded p] assms(2)]
  show ?thesis
  proof (cases "as_pairing_offer disk")
    case None
    then show ?thesis using assms disk Inr p by (simp add: consume_offer_def)
  next
    case (Some offer)
    let ?st2 = "make_device_slot env (snd (expire_pending_in_state (ae_now env) MAX_TTL_SECONDS disk))"
    have st2: "P ?st2" by (rule P_slot [OF assms(1) P_expire [OF disk]])
    have offer2: "as_pairing_offer ?st2 = Some offer"
      using Some slot_keeps_offer by (simp add: expire_pending_in_state_def)
    have added: "P (?st2\<lparr>as_pairing_offer := Some (offer\<lparr>po_status := OConsumed, po_consumed_at := t\<rparr>),
        as_devices := as_devices ?st2 @ [pending_device env did k b t]\<rparr>)"
      if "\<not> key_revoked env ?st2 k" for did t
      using P_offer_drop [OF P_add [OF assms(1) st2 that, of did b t], where p = offer and status = OConsumed
          and t = t] offer2 by (simp add: offer_devices_commute)
    show ?thesis
      using assms disk Inr p Some added P_expired_offer [OF disk Some]
      by (auto simp: consume_offer_def save_state_Inr Let_def snd_commit split: sum.splits)
  qed
qed

lemma P_put_commit:
  "P st \<Longrightarrow> find_device st i = Some old \<Longrightarrow> device_evolves old new \<Longrightarrow>
     P (snd (commit env st (put_device st old new) v))"
  using P_put [of st old new] find_device_Some [of st i old] by (simp add: snd_commit)

lemma P_step:
  assumes "ok (event_env e)" and "P st" and "\<not> approval_event e"
  shows "P (auth_step e st)"
proof (cases e)
  case (ECreate env ttl)
  with assms P_create show ?thesis by simp
next
  case (EConsume env c k b)
  with assms P_consume show ?thesis by simp
next
  case (EApprove env i d)
  with assms(3) show ?thesis by simp
next
  case (EConfirm env i f)
  with assms(3) show ?thesis by simp
next
  case (ELabel env i l)
  have "device_evolves d (d\<lparr>dv_label := x\<rparr>)" for d x by (simp add: device_evolves_def is_active_def)
  then show ?thesis using assms(2)
    by (auto simp: load_state_Inr ELabel set_label_def Let_def intro!: P_put_commit split: sum.splits option.splits)
next
  case (EName env i k n)
  have "device_evolves d (d\<lparr>dv_device_name := x\<rparr>)" for d x by (simp add: device_evolves_def is_active_def)
  then show ?thesis using assms(2)
    by (auto simp: load_state_Inr EName note_device_name_def intro!: P_put_commit split: sum.splits option.splits)
next
  case (EDeny env i)
  have "device_evolves d (d\<lparr>dv_status := DDenied, dv_updated_at := t, dv_epoch := n\<rparr>)"
    if "dv_status d = DPending" for d t n using that by (simp add: device_evolves_def is_active_def)
  then show ?thesis using assms(2)
    by (auto simp: load_state_Inr EDeny deny_def Let_def intro!: P_put_commit split: sum.splits option.splits)
next
  case (EExpire env m)
  show ?thesis
    using assms(2) P_expire [of st "ae_now env" m]
    by (auto simp: load_state_Inr EExpire expire_pending_def case_prod_beta snd_commit split: sum.splits)
next
  case (ERevoke env i)
  have "device_evolves d (d\<lparr>dv_status := DRevoked, dv_updated_at := t, dv_epoch := n, dv_capabilities := []\<rparr>)"
    for d t n by (simp add: device_evolves_def is_active_def)
  then show ?thesis using assms(2)
    by (auto simp: load_state_Inr ERevoke revoke_def Let_def intro!: P_put_commit split: sum.splits option.splits)
next
  case (EList env)
  show ?thesis
    using assms(2) P_load_expired [of env MAX_TTL_SECONDS st]
    by (auto simp: EList list_devices_def split: sum.splits)
next
  case (ECancel env i)
  show ?thesis
    using assms(2) P_expired_offer
    by (auto simp: load_state_Inr ECancel cancel_offer_def snd_commit split: sum.splits option.splits)
qed

end

locale auth_predicate = auth_quiet +
  assumes P_authorized: "P st \<Longrightarrow> old \<in> set (as_devices st) \<Longrightarrow> dv_status old = DPending \<Longrightarrow>
    P (put_device st old (authorized_record t old))"
begin

lemma P_authorize:
  assumes "P disk" and "find_device disk i = Some record" and "dv_status record = DPending"
  shows "P (snd (authorize_record env disk record))"
  using assms P_authorized [OF assms(1), of "record"] find_device_Some [OF assms(2)]
  by (auto simp: authorize_record_def authorized_record_def Let_def snd_commit split: sum.splits)

lemma P_any_step:
  assumes "ok (event_env e)" and "P st"
  shows "P (auth_step e st)"
proof (cases e)
  case (EApprove env i d)
  show ?thesis
    using assms(2) P_load_expired [of env MAX_TTL_SECONDS st] P_authorize
    by (auto simp: EApprove approve_def is_active_def split: sum.splits option.splits)
next
  case (EConfirm env i f)
  show ?thesis
    using assms(2) P_load_expired [of env MAX_TTL_SECONDS st] P_authorize
    by (auto simp: EConfirm approve_confirmed_def split: sum.splits option.splits)
qed (use P_step [OF assms] in simp_all)

lemma P_run: "list_all (\<lambda>e. ok (event_env e)) es \<Longrightarrow> P st \<Longrightarrow> P (fold auth_step es st)"
  by (induction es arbitrary: st) (auto intro: P_any_step)

end

section \<open>Validity\<close>

lemma commit_valid: "validate_auth_state old \<Longrightarrow> validate_auth_state (snd (commit env old new v))"
  by (rule commit_pred) auto

lemma identity_valid_state:
  "validate_auth_state (st\<lparr>as_host_identity := i\<rparr>) = validate_auth_state st"
  by (simp add: validate_auth_state_def evidence_of_def)

lemma begin_valid:
  assumes "begin_with_identity env st = Inr (i, disk)"
  shows "validate_auth_state disk"
  using assms by (auto simp: begin_with_identity_def load_state_Inr)

lemma auth_step_valid:
  assumes "validate_auth_state st"
  shows "validate_auth_state (auth_step e st)"
proof (cases e)
  case (ECreate env ttl)
  then show ?thesis using assms begin_valid
    by (auto simp: create_offer_def Let_def intro!: commit_valid split: sum.splits option.splits)
next
  case (EConsume env c k b)
  then show ?thesis using assms begin_valid
    by (auto simp: consume_offer_def Let_def save_state_Inr intro!: commit_valid split: sum.splits option.splits)
next
  case (EApprove env i d)
  then show ?thesis using assms load_expired_Inr(3)
    by (auto simp: approve_def authorize_record_def Let_def intro!: commit_valid split: sum.splits option.splits)
next
  case (EConfirm env i f)
  then show ?thesis using assms load_expired_Inr(3)
    by (auto simp: approve_confirmed_def authorize_record_def Let_def intro!: commit_valid
        split: sum.splits option.splits)
next
  case (ELabel env i l)
  then show ?thesis using assms
    by (auto simp: set_label_def Let_def load_state_Inr intro!: commit_valid split: sum.splits option.splits)
next
  case (EName env i k n)
  then show ?thesis using assms
    by (auto simp: note_device_name_def load_state_Inr intro!: commit_valid split: sum.splits option.splits)
next
  case (EDeny env i)
  then show ?thesis using assms
    by (auto simp: deny_def Let_def load_state_Inr intro!: commit_valid split: sum.splits option.splits)
next
  case (EExpire env m)
  then show ?thesis using assms
    by (auto simp: expire_pending_def load_state_Inr case_prod_beta intro!: commit_valid split: sum.splits)
next
  case (ERevoke env i)
  then show ?thesis using assms
    by (auto simp: revoke_def Let_def load_state_Inr intro!: commit_valid split: sum.splits option.splits)
next
  case (EList env)
  then show ?thesis using assms load_expired_Inr(3)
    by (auto simp: list_devices_def split: sum.splits)
next
  case (ECancel env i)
  then show ?thesis using assms
    by (auto simp: cancel_offer_def load_state_Inr intro!: commit_valid split: sum.splits option.splits)
qed

text \<open>The default document of \<open>StateStore\<close>.\<close>

definition default_state :: auth_state where
  "default_state = \<lparr>as_schema_version = 1, as_revoked_key_digests = None, as_devices = [],
     as_pairing_offer = None, as_host_identity = None\<rparr>"

lemma default_state_valid: "validate_auth_state default_state"
  by (simp add: default_state_def validate_auth_state_def evidence_of_def)

interpretation auth: invariant_component "\<lambda>st. st = default_state" auth_step validate_auth_state
  by unfold_locales (auto simp: default_state_valid auth_step_valid)

section \<open>Revocation\<close>

definition sha_revoked :: "(bytes \<Rightarrow> bytes) \<Rightarrow> auth_state \<Rightarrow> bytes \<Rightarrow> bool" where
  "sha_revoked sha st key \<longleftrightarrow> sha key \<in> set (evidence_of st)
     \<or> (\<exists>d \<in> set (as_devices st). dv_status d = DRevoked \<and> dv_public_key d = key)"

lemma key_revoked_iff: "key_revoked env st key \<longleftrightarrow> sha_revoked (ae_sha256 env) st key"
  by (auto simp: key_revoked_def sha_revoked_def list_ex_iff)

definition revoked_for_good :: "(bytes \<Rightarrow> bytes) \<Rightarrow> pystr \<Rightarrow> bytes \<Rightarrow> auth_state \<Rightarrow> bool" where
  "revoked_for_good sha did key st \<longleftrightarrow> sha_revoked sha st key
     \<and> (\<forall>d \<in> set (as_devices st). dv_device_id d = did \<and> dv_public_key d = key \<longrightarrow> \<not> is_active d)"

lemma expire_one_keeps:
  "dv_device_id (expire_one now age d) = dv_device_id d" "dv_public_key (expire_one now age d) = dv_public_key d"
  "dv_status d = DRevoked \<Longrightarrow> expire_one now age d = d" "is_active (expire_one now age d) \<Longrightarrow> is_active d"
  "dv_status (expire_one now age d) = DAuthorized \<Longrightarrow> dv_status d = DAuthorized"
  by (auto simp: expire_one_def is_active_def split: if_splits)

lemma set_replace_first: "set (replace_first old new xs) \<subseteq> insert new (set xs)"
  by (induction xs) auto

lemma replace_first_other: "x \<in> set xs \<Longrightarrow> x \<noteq> old \<Longrightarrow> x \<in> set (replace_first old new xs)"
  by (induction xs) auto

lemma replace_first_new: "old \<in> set xs \<Longrightarrow> new \<in> set (replace_first old new xs)"
  by (induction xs) auto

lemma compact_record_Some:
  assumes "compact_record sha ev r st = Some (ev1, st1)" and "evidence_of st = ev"
  shows "evidence_of st1 = ev1" "as_devices st1 = remove1 r (as_devices st)" "set ev \<subseteq> set ev1"
    "dv_status r = DRevoked \<Longrightarrow> sha (dv_public_key r) \<in> set ev1"
  using assms by (auto simp: compact_record_def Let_def evidence_of_def split: if_splits)

lemma compact_record_revoked:
  assumes "compact_record sha ev r st = Some (ev1, st1)" and "evidence_of st = ev"
    and "sha_revoked sha st key"
  shows "sha_revoked sha st1 key"
proof -
  note c = compact_record_Some [OF assms(1,2)]
  from assms(2,3) consider "sha key \<in> set ev"
    | d where "d \<in> set (as_devices st)" "dv_status d = DRevoked" "dv_public_key d = key"
    by (auto simp: sha_revoked_def)
  then show ?thesis
  proof cases
    case 1
    then show ?thesis using c by (auto simp: sha_revoked_def)
  next
    case 2
    show ?thesis
    proof (cases "d = r")
      case True
      then show ?thesis using 2 c by (auto simp: sha_revoked_def)
    next
      case False
      then have "d \<in> set (as_devices st1)" using 2(1) c(2) by simp
      then show ?thesis using 2(2,3) by (auto simp: sha_revoked_def)
    qed
  qed
qed

lemma slot_loop_revoked:
  "evidence_of st = ev \<Longrightarrow> sha_revoked sha st key \<Longrightarrow> sha_revoked sha (slot_loop sha ev cs st) key"
proof (induction cs arbitrary: ev st)
  case (Cons r cs)
  then show ?case
    using compact_record_revoked [of sha ev r st _ _ key] compact_record_Some(1) [of sha ev r st]
    by (auto split: option.splits)
qed simp

lemma slot_loop_devices:
  "evidence_of st = ev \<Longrightarrow> set (as_devices (slot_loop sha ev cs st)) \<subseteq> set (as_devices st)"
proof (induction cs arbitrary: ev st)
  case (Cons r cs)
  show ?case
  proof (cases "compact_record sha ev r st")
    case None
    then show ?thesis using Cons.IH [OF Cons.prems] by simp
  next
    case (Some p)
    obtain ev1 st1 where p: "p = (ev1, st1)" by (cases p)
    note c = compact_record_Some(1,2) [OF Some [unfolded p] Cons.prems]
    have "set (as_devices st1) \<subseteq> set (as_devices st)" using c(2) set_remove1_subset by metis
    with Cons.IH [OF c(1)] Some p show ?thesis by auto
  qed
qed simp

lemma slot_devices: "set (as_devices (make_device_slot env st)) \<subseteq> set (as_devices st)"
  by (simp add: make_device_slot_def slot_loop_devices)

lemma slot_revoked: "sha_revoked (ae_sha256 env) st key \<Longrightarrow> sha_revoked (ae_sha256 env) (make_device_slot env st) key"
  by (simp add: make_device_slot_def slot_loop_revoked)

lemma put_device_revoked:
  assumes "sha_revoked sha st key" and "dv_status old = DRevoked \<longrightarrow> dv_status new = DRevoked"
    and "dv_public_key new = dv_public_key old" and "old \<in> set (as_devices st)"
  shows "sha_revoked sha (put_device st old new) key"
proof -
  from assms(1) consider "sha key \<in> set (evidence_of st)"
    | d where "d \<in> set (as_devices st)" "dv_status d = DRevoked" "dv_public_key d = key"
    by (auto simp: sha_revoked_def)
  then show ?thesis
  proof cases
    case 1
    then show ?thesis by (simp add: sha_revoked_def put_device_def evidence_of_def)
  next
    case 2
    show ?thesis
    proof (cases "d = old")
      case True
      then show ?thesis using 2 assms replace_first_new [OF assms(4), of new]
        by (auto simp: sha_revoked_def put_device_def)
    next
      case False
      with 2 replace_first_other [of d "as_devices st" old new] show ?thesis
        by (auto simp: sha_revoked_def put_device_def)
    qed
  qed
qed

lemma sha_revoked_update [simp]:
  "sha_revoked sha (st\<lparr>as_host_identity := i\<rparr>) key = sha_revoked sha st key"
  "sha_revoked sha (st\<lparr>as_pairing_offer := p\<rparr>) key = sha_revoked sha st key"
  by (simp_all add: sha_revoked_def evidence_of_def)

lemma expire_revoked:
  assumes "sha_revoked sha st key"
  shows "sha_revoked sha (snd (expire_pending_in_state now age st)) key"
proof -
  have "d \<in> expire_one now age ` set (as_devices st)" if "d \<in> set (as_devices st)" "dv_status d = DRevoked" for d
    using that expire_one_keeps(3) [OF that(2), of now age] by (metis imageI)
  with assms show ?thesis by (auto simp: sha_revoked_def expire_pending_in_state_def evidence_of_def)
qed

interpretation revoked: auth_predicate "revoked_for_good sha did key" "\<lambda>env. ae_sha256 env = sha" for sha did key
proof
  fix st env now age p status t c i ttl oid old new k b did' ident
  assume P: "revoked_for_good sha did key st"
  then have R: "sha_revoked sha st key"
    and no: "\<And>d. d \<in> set (as_devices st) \<Longrightarrow> dv_device_id d = did \<Longrightarrow> dv_public_key d = key \<Longrightarrow> \<not> is_active d"
    by (auto simp: revoked_for_good_def)
  show "revoked_for_good sha did key (st\<lparr>as_host_identity := ident\<rparr>)"
    using P by (simp add: revoked_for_good_def)
  show "revoked_for_good sha did key (snd (expire_pending_in_state now age st))"
    using expire_revoked [OF R] no
    by (auto simp: revoked_for_good_def expire_pending_in_state_def expire_one_keeps(1,2) dest: expire_one_keeps(4))
  show "revoked_for_good sha did key (make_device_slot env st)" if "ae_sha256 env = sha"
    using slot_revoked [of env st key] slot_devices [of env st] R no that
    by (auto simp: revoked_for_good_def)
  show "revoked_for_good sha did key (st\<lparr>as_pairing_offer := Some (p\<lparr>po_status := status, po_consumed_at := t\<rparr>)\<rparr>)"
    "revoked_for_good sha did key (st\<lparr>as_pairing_offer := Some (offered env i now ttl oid c)\<rparr>)"
    using P by (simp_all add: revoked_for_good_def)
  show "revoked_for_good sha did key (put_device st old new)"
    if "old \<in> set (as_devices st)" "device_evolves old new"
    using put_device_revoked [OF R _ _ that(1), of new] that no set_replace_first [of old new "as_devices st"]
    by (fastforce simp: revoked_for_good_def device_evolves_def put_device_def)
  show "revoked_for_good sha did key (put_device st old (authorized_record t old))"
    if "old \<in> set (as_devices st)" "dv_status old = DPending"
    using put_device_revoked [OF R _ _ that(1), of "authorized_record t old"] that no [OF that(1)] no
      set_replace_first [of old "authorized_record t old" "as_devices st"]
    by (fastforce simp: revoked_for_good_def authorized_record_def is_active_def put_device_def)
  show "revoked_for_good sha did key (st\<lparr>as_devices := as_devices st @ [pending_device env did' k b now]\<rparr>)"
    if "ae_sha256 env = sha" "\<not> key_revoked env st k"
  proof -
    have "k \<noteq> key" using that R by (auto simp: key_revoked_iff)
    then show ?thesis using R no
      by (auto simp: revoked_for_good_def sha_revoked_def evidence_of_def pending_device_def)
  qed
qed

section \<open>Spent capabilities and unapproved devices\<close>

definition capability_spent :: "bytes \<Rightarrow> auth_state \<Rightarrow> bool" where
  "capability_spent digest st = (case as_pairing_offer st of None \<Rightarrow> True
     | Some p \<Rightarrow> po_capability_digest p = digest \<longrightarrow> po_status p \<noteq> OActive)"

definition never_redrawn :: "bytes \<Rightarrow> auth_env \<Rightarrow> bool" where
  "never_redrawn digest env \<longleftrightarrow> (\<forall>c. ae_secret env = Some c \<longrightarrow> ae_sha256 env c \<noteq> digest)"

interpretation spent: auth_predicate "capability_spent digest" "never_redrawn digest" for digest
  by unfold_locales
    (auto simp: capability_spent_def never_redrawn_def expire_pending_in_state_def slot_keeps_offer
      offered_def put_device_def)

definition unauthorized :: "pystr \<Rightarrow> bytes \<Rightarrow> auth_state \<Rightarrow> bool" where
  "unauthorized did key st \<longleftrightarrow>
     (\<forall>d \<in> set (as_devices st). dv_device_id d = did \<and> dv_public_key d = key \<longrightarrow> dv_status d \<noteq> DAuthorized)"

interpretation unauth: auth_quiet "unauthorized did key" "\<lambda>_. True" for did key
proof
  fix st env now age old new k b did'
  assume P: "unauthorized did key st"
  show "unauthorized did key (snd (expire_pending_in_state now age st))"
    using P by (auto simp: unauthorized_def expire_pending_in_state_def expire_one_keeps(1,2)
        dest: expire_one_keeps(5))
  show "unauthorized did key (make_device_slot env st)"
    using P slot_devices [of env st] by (auto simp: unauthorized_def)
  show "unauthorized did key (put_device st old new)" if "old \<in> set (as_devices st)" "device_evolves old new"
    using P that set_replace_first [of old new "as_devices st"]
    by (fastforce simp: unauthorized_def put_device_def device_evolves_def)
  show "unauthorized did key (st\<lparr>as_devices := as_devices st @ [pending_device env did' k b now]\<rparr>)"
    using P by (auto simp: unauthorized_def pending_device_def)
qed (simp_all add: unauthorized_def)

end
