(* ===== verification/Authorization_Props.thy ===== *)
theory Authorization_Props
  imports Authorization
begin

text \<open>
  What the pairing and authorization repository guarantees: bounded valid state, approval
  as the only way to become authorized, single use of a capability, finality of a
  revocation, and what revocation needs from the clock.
\<close>

section \<open>Facts about single operations\<close>

lemma find_device_iff:
  assumes "distinct (map dv_device_id (as_devices st))"
  shows "find_device st i = Some d \<longleftrightarrow> d \<in> set (as_devices st) \<and> dv_device_id d = i"
proof
  assume "d \<in> set (as_devices st) \<and> dv_device_id d = i"
  then obtain e where e: "find_device st i = Some e"
    by (cases "find_device st i") (auto simp: find_device_def find_None_iff)
  have "inj_on dv_device_id (set (as_devices st))" using assms by (simp add: distinct_map)
  with find_device_Some [OF e] \<open>d \<in> set (as_devices st) \<and> dv_device_id d = i\<close> have "e = d"
    by (auto dest: inj_onD)
  with e show "find_device st i = Some d" by simp
qed (rule find_device_Some)

lemma is_authorized_iff:
  assumes "validate_auth_state st"
  shows "is_authorized did key st = Inr (valid_id did DEVICE_ID_BYTES \<and> length key = RAW_BYTES \<and>
    (\<exists>d. find_device st did = Some d \<and> dv_status d = DAuthorized \<and> dv_public_key d = key))"
proof -
  have "dv_capabilities d = [lit ''client'']" if "find_device st did = Some d" "dv_status d = DAuthorized" for d
    using find_device_Some [OF that(1)] assms that(2)
    by (auto simp: validate_auth_state_def list_all_iff valid_device_def)
  then show ?thesis using assms by (auto simp: is_authorized_def split: option.splits)
qed

lemma valid_distinct: "validate_auth_state st \<Longrightarrow> distinct (map dv_device_id (as_devices st))"
  by (simp add: validate_auth_state_def)

lemma valid_devices: "validate_auth_state st \<Longrightarrow> d \<in> set (as_devices st) \<Longrightarrow> valid_device d"
  by (auto simp: validate_auth_state_def list_all_iff)

lemma replace_first_split:
  assumes "distinct (map f xs)" and "old \<in> set xs" and "f new = f old" and "x \<in> set (replace_first old new xs)"
    and "f x = f old"
  shows "x = new"
  using assms
proof (induction xs)
  case (Cons y ys)
  have no: "f z \<noteq> f y" if "z \<in> set ys" for z using Cons.prems(1) that by (auto simp: image_iff)
  show ?case
  proof (cases "y = old")
    case True
    with Cons.prems(4,5) no show ?thesis by auto
  next
    case False
    then have old: "old \<in> set ys" using Cons.prems(2) by simp
    then have "x \<noteq> y" using no [OF old] Cons.prems(5) by auto
    then show ?thesis using Cons.IH [OF _ old Cons.prems(3) _ Cons.prems(5)] Cons.prems(1,4) False by simp
  qed
qed simp

lemma revoke_devices:
  assumes "revoke env did st = (Inr (Some s), st1)" and "find_device st did = Some d" and "validate_auth_state st"
  shows "\<forall>x \<in> set (as_devices st1). dv_device_id x = did \<longrightarrow> dv_status x = DRevoked"
    and "\<exists>x \<in> set (as_devices st1). dv_status x = DRevoked \<and> dv_public_key x = dv_public_key d"
proof -
  note d = find_device_Some [OF assms(2)]
  note dist = valid_distinct [OF assms(3)]
  have "(\<forall>x \<in> set (as_devices st1). dv_device_id x = did \<longrightarrow> dv_status x = DRevoked)
    \<and> (\<exists>x \<in> set (as_devices st1). dv_status x = DRevoked \<and> dv_public_key x = dv_public_key d)"
  proof (cases "dv_status d = DRevoked")
    case True
    then have "st1 = st" using assms by (auto simp: revoke_def split: if_splits)
    moreover have "x = d" if "x \<in> set (as_devices st)" "dv_device_id x = did" for x
      using find_device_iff [OF dist, of did x] that assms(2) by simp
    ultimately show ?thesis using True d by auto
  next
    case False
    let ?u = "d\<lparr>dv_status := DRevoked, dv_updated_at := ae_now env, dv_epoch := dv_epoch d + 1, dv_capabilities := []\<rparr>"
    from assms False have st1: "st1 = put_device st d ?u"
      by (auto simp: revoke_def Let_def commit_def split: if_splits sum.splits dest!: save_state_Inr [THEN iffD1])
    have u: "?u \<in> set (as_devices st1)" using replace_first_new d by (auto simp: put_device_def st1)
    have "dv_status x = DRevoked" if x: "x \<in> set (as_devices st1)" "dv_device_id x = did" for x
    proof -
      have "x = ?u" using replace_first_split [OF dist, of d ?u x] x d by (simp add: put_device_def st1)
      then show ?thesis by simp
    qed
    then show ?thesis using u by (auto intro!: bexI [OF _ u])
  qed
  then show "\<forall>x \<in> set (as_devices st1). dv_device_id x = did \<longrightarrow> dv_status x = DRevoked"
    and "\<exists>x \<in> set (as_devices st1). dv_status x = DRevoked \<and> dv_public_key x = dv_public_key d" by auto
qed

lemma revoke_Inr:
  assumes "revoke env did st = (Inr (Some s), st1)" and "find_device st did = Some d" and "validate_auth_state st"
  shows "revoked_for_good sha did (dv_public_key d) st1"
  using revoke_devices [OF assms] by (auto simp: revoked_for_good_def sha_revoked_def is_active_def)

lemma replace_first_length [simp]: "length (replace_first old new xs) = length xs"
  by (induction xs) auto

lemma replace_first_map: "f new = f old \<Longrightarrow> map f (replace_first old new xs) = map f xs"
  by (induction xs) auto

lemma replace_first_filter:
  "(P new \<Longrightarrow> P old) \<Longrightarrow> length (filter P (replace_first old new xs)) \<le> length (filter P xs)"
  by (induction xs) auto

lemma put_device_valid:
  assumes "validate_auth_state st" and "valid_device new" and "dv_device_id new = dv_device_id old"
    and "is_active new \<Longrightarrow> is_active old"
  shows "validate_auth_state (put_device st old new)"
proof -
  have "\<forall>x \<in> set (replace_first old new (as_devices st)). valid_device x"
    using set_replace_first [of old new "as_devices st"] assms(1,2)
    by (auto simp: validate_auth_state_def list_all_iff)
  moreover have "length (filter is_active (replace_first old new (as_devices st))) \<le> MAX_ACTIVE_DEVICES"
    using replace_first_filter [of is_active new old "as_devices st"] assms(1,4)
    by (auto simp: validate_auth_state_def)
  ultimately show ?thesis
    using assms(1,3) replace_first_map [of dv_device_id new old "as_devices st"]
    by (simp add: validate_auth_state_def put_device_def evidence_of_def list_all_iff)
qed

lemma identifier_draws_fresh: "identifier_draws n sz draws existing = Inr t \<Longrightarrow> t \<notin> set existing"
  by (induction n sz draws existing rule: identifier_draws.induct) (auto split: if_splits)

lemma new_identifier_fresh: "new_identifier env sz existing = Inr t \<Longrightarrow> t \<notin> set existing"
  by (simp add: new_identifier_def identifier_draws_fresh)

lemma consume_offer_Inr:
  assumes "consume_offer env c k b st = (Inr s, st1)"
  shows "\<exists>i disk offer. begin_with_identity env st = Inr (i, disk) \<and> as_pairing_offer disk = Some offer
    \<and> ae_sha256 env c = po_capability_digest offer \<and> po_status offer = OActive
    \<and> ae_now env < po_expires_at offer \<and> hi_installation_id i = po_installation_id offer
    \<and> hi_public_key i = po_host_public_key offer
    \<and> (let st2 = make_device_slot env (snd (expire_pending_in_state (ae_now env) MAX_TTL_SECONDS disk)) in
       \<not> key_revoked env st2 k \<and> length (filter is_active (as_devices st2)) < MAX_ACTIVE_DEVICES
       \<and> as_pairing_offer st1 = Some (offer\<lparr>po_status := OConsumed, po_consumed_at := ae_now env\<rparr>)
       \<and> (\<exists>did. did \<notin> set (map dv_device_id (as_devices st2)) \<and>
            as_devices st1 = as_devices st2 @ [pending_device env did k b (ae_now env)]))"
proof (cases "begin_with_identity env st")
  case (Inl e)
  then show ?thesis using assms by (auto simp: consume_offer_def split: if_splits)
next
  case (Inr p)
  obtain i disk where p: "p = (i, disk)" by (cases p)
  show ?thesis
  proof (cases "as_pairing_offer disk")
    case None
    then show ?thesis using assms Inr p by (auto simp: consume_offer_def split: if_splits)
  next
    case (Some offer)
    let ?st2 = "make_device_slot env (snd (expire_pending_in_state (ae_now env) MAX_TTL_SECONDS disk))"
    from assms Inr p Some obtain did where
      "ae_sha256 env c = po_capability_digest offer" "po_status offer = OActive" "ae_now env < po_expires_at offer"
      "hi_installation_id i = po_installation_id offer" "hi_public_key i = po_host_public_key offer"
      "\<not> key_revoked env ?st2 k" "length (filter is_active (as_devices ?st2)) < MAX_ACTIVE_DEVICES"
      and id: "new_identifier env DEVICE_ID_BYTES (map dv_device_id (as_devices ?st2)) = Inr did"
      and "st1 = ?st2\<lparr>as_pairing_offer := Some (offer\<lparr>po_status := OConsumed, po_consumed_at := ae_now env\<rparr>),
             as_devices := as_devices ?st2 @ [pending_device env did k b (ae_now env)]\<rparr>"
      by (auto simp: consume_offer_def Let_def commit_def save_state_Inr split: if_splits sum.splits)
    with new_identifier_fresh [OF id] Inr p Some show ?thesis by (auto simp: Let_def)
  qed
qed

section \<open>A concrete pairing\<close>

text \<open>An environment with fixed draws, used by the witnesses below.\<close>

definition demo_env :: "int \<Rightarrow> auth_env" where
  "demo_env now = \<lparr>ae_now = now, ae_now_again = now, ae_saves = (\<lambda>_. True), ae_ids = [Some (replicate 16 1)],
     ae_secret = Some (replicate 32 2), ae_fresh_identity = Some (replicate 32 3, replicate 32 4),
     ae_sha256 = (\<lambda>b. b), ae_x25519 = (\<lambda>b. b)\<rparr>"

definition demo_id :: pystr where "demo_id = b64url_encode (replicate 16 1)"

definition demo_offered :: auth_state where
  "demo_offered = fold auth_step [ECreate (demo_env 100) 300] default_state"

definition demo_events :: "auth_event list" where
  "demo_events = [ECreate (demo_env 100) 300,
     EConsume (demo_env 101) (replicate 32 2) (replicate 32 5) (replicate 32 6)]"

definition demo_device :: device where
  "demo_device = pending_device (demo_env 101) demo_id (replicate 32 5) (replicate 32 6) 101"

section \<open>Properties\<close>

text \<open>
  Whatever sequence of repository calls is made, with whatever clock, random source and
  write failures, the persisted state is valid: at most 16 records with distinct
  identifiers, at most 5 of them pending or authorized, at most 512 digests of revoked
  keys, the capability \<open>client\<close> exactly on authorized records; and an authorization query
  is always answered.
\<close>

theorem auth_state_bounded:
  "let st = fold auth_step es default_state in
     validate_auth_state st \<and> length (as_devices st) \<le> 16
     \<and> distinct (map dv_device_id (as_devices st))
     \<and> length (filter is_active (as_devices st)) \<le> 5 \<and> length (evidence_of st) \<le> 512
     \<and> list_all (\<lambda>d. (dv_capabilities d = [lit ''client'']) = (dv_status d = DAuthorized)) (as_devices st)
     \<and> is_ok (is_authorized did key st)"
proof -
  have v: "validate_auth_state (fold auth_step es default_state)" by (rule auth.inv_reachable) simp
  from valid_devices [OF v] v is_authorized_iff [OF v, of did key] show ?thesis
    by (auto simp: Let_def validate_auth_state_def auth_constants list_all_iff valid_device_def is_ok_iff)
qed

text \<open>
  C6. Revocation is final: once \<open>revoke\<close> has returned for a device, no later sequence of
  calls makes the pair of its identifier and key authorized again, and every attempt to
  pair the revoked key anew is rejected, even after its record has been compacted away.
\<close>

theorem revocation_is_final:
  assumes "st = fold auth_step es0 default_state" and "find_device st did = Some d"
    and "revoke env did st = (Inr (Some s), st1)"
    and "list_all (\<lambda>e. ae_sha256 (event_env e) = sha) es" and "ae_sha256 env' = sha"
    and "st2 = fold auth_step es st1"
  shows "is_authorized did (dv_public_key d) st2 = Inr False
    \<and> \<not> is_ok (fst (consume_offer env' c (dv_public_key d) b st2))"
proof -
  let ?k = "dv_public_key d"
  have v: "validate_auth_state st" unfolding assms(1) by (rule auth.inv_reachable) simp
  have v1: "validate_auth_state st1" using auth_step_valid [OF v, of "ERevoke env did"] assms(3) by simp
  then have v2: "validate_auth_state st2" unfolding assms(6) by (rule auth.inv_run)
  have "revoked_for_good sha did ?k st1" by (rule revoke_Inr [OF assms(3,2) v])
  then have R: "revoked_for_good sha did ?k st2"
    unfolding assms(6) by (rule revoked.P_run [OF assms(4)])
  then have no: "\<not> is_active x" if "find_device st2 did = Some x" "dv_public_key x = ?k" for x
    using find_device_Some [OF that(1)] that(2) by (auto simp: revoked_for_good_def)
  then have "is_authorized did ?k st2 = Inr False"
    unfolding is_authorized_iff [OF v2] by (auto simp: is_active_def)
  moreover have "\<not> is_ok (fst (consume_offer env' c ?k b st2))"
  proof
    assume "is_ok (fst (consume_offer env' c ?k b st2))"
    then obtain r st3 where "consume_offer env' c ?k b st2 = (Inr r, st3)"
      by (auto simp: is_ok_iff prod_eq_iff)
    from consume_offer_Inr [OF this] obtain i disk where
      i: "begin_with_identity env' st2 = Inr (i, disk)" and
      nr: "\<not> key_revoked env' (make_device_slot env' (snd (expire_pending_in_state (ae_now env') MAX_TTL_SECONDS disk))) ?k"
      by (auto simp: Let_def)
    from revoked.P_begin [OF i R] have "revoked_for_good sha did ?k disk" .
    from revoked.P_slot [OF assms(5) revoked.P_expire [OF this]] nr assms(5) show False
      by (auto simp: revoked_for_good_def key_revoked_iff)
  qed
  ultimately show ?thesis by simp
qed

theorem revocation_is_final_witness:
  "\<exists>s st1. revoke (demo_env 102) demo_id (fold auth_step demo_events default_state) = (Inr (Some s), st1)
     \<and> is_authorized demo_id (replicate 32 5)
         (fold auth_step [ECreate (demo_env 103) 300, EApprove (demo_env 104) demo_id (replicate 32 6)] st1) = Inr False"
proof -
  let ?st = "fold auth_step demo_events default_state"
  let ?es = "[ECreate (demo_env 103) 300, EApprove (demo_env 104) demo_id (replicate 32 6)]"
  have d: "find_device ?st demo_id = Some demo_device" by code_simp
  have "(case fst (revoke (demo_env 102) demo_id ?st) of Inr (Some s) \<Rightarrow> True | _ \<Rightarrow> False)" by code_simp
  then obtain s st1 where r: "revoke (demo_env 102) demo_id ?st = (Inr (Some s), st1)"
    by (cases "revoke (demo_env 102) demo_id ?st") (auto split: sum.splits option.splits)
  have "is_authorized demo_id (dv_public_key demo_device) (fold auth_step ?es st1) = Inr False"
    by (rule revocation_is_final [OF refl d r, of "\<lambda>b. b" ?es "demo_env 105", THEN conjunct1])
      (simp_all add: demo_env_def)
  with r show ?thesis by (auto simp: demo_device_def pending_device_def)
qed

lemma expired_pending_young:
  assumes "d \<in> set (as_devices (snd (expire_pending_in_state now MAX_TTL_SECONDS st)))" and "dv_status d = DPending"
  shows "d \<in> set (as_devices st) \<and> now - dv_created_at d < 600"
  using assms by (auto simp: expire_pending_in_state_def expire_one_def auth_constants split: if_splits)

lemma expired_authorized:
  "d \<in> set (as_devices (snd (expire_pending_in_state now age st))) \<Longrightarrow> dv_status d = DAuthorized \<Longrightarrow> d \<in> set (as_devices st)"
  by (auto simp: expire_pending_in_state_def expire_one_def split: if_splits)

lemma authorize_record_new:
  assumes "authorize_record env disk r = (res, st1)" and "d \<in> set (as_devices st1)" and "dv_status d = DAuthorized"
  shows "d \<in> set (as_devices disk) \<or> dv_device_id d = dv_device_id r \<and> dv_public_key d = dv_public_key r"
  using assms
  by (auto simp: authorize_record_def Let_def commit_def save_state_Inr put_device_def
      dest!: set_mp [OF set_replace_first] split: sum.splits)

lemma approval_authorizes:
  assumes "load_expired env MAX_TTL_SECONDS st = Inr disk" and "find_device disk i = Some r"
    and "dv_status r = DPending" and "d \<in> set (as_devices (snd (authorize_record env disk r)))"
    and "dv_status d = DAuthorized" and "d \<notin> set (as_devices st)"
  shows "dv_device_id d = i \<and> dv_public_key d = dv_public_key r
    \<and> r \<in> set (as_devices st) \<and> ae_now env - dv_created_at r < 600"
proof -
  note disk = load_expired_Inr(1) [OF assms(1)]
  have "d \<notin> set (as_devices disk)" using expired_authorized assms(5,6) disk by auto
  with authorize_record_new [of env disk r "fst (authorize_record env disk r)" _ d] assms(4,5)
  have "dv_device_id d = dv_device_id r \<and> dv_public_key d = dv_public_key r" by (simp add: prod_eq_iff)
  moreover have "dv_device_id r = i" "r \<in> set (as_devices disk)" using find_device_Some [OF assms(2)] by auto
  moreover have "r \<in> set (as_devices st) \<and> ae_now env - dv_created_at r < 600"
    using expired_pending_young [of r "ae_now env" st] disk assms(3) \<open>r \<in> set (as_devices disk)\<close> by simp
  ultimately show ?thesis by simp
qed

text \<open>
  C21. Nobody becomes authorized without an approval: if a device was not authorized before
  a call and is after it, then the call was \<open>approve\<close> with the digest of its pairing
  channel, or \<open>approve_confirmed\<close> with its fingerprint, and the device was pending for less
  than ten minutes.
\<close>

theorem authorization_needs_approval:
  assumes "st = fold auth_step es default_state" and "is_authorized did key st = Inr False"
    and "is_authorized did key (auth_step e st) = Inr True"
  shows "\<exists>env r. r \<in> set (as_devices st) \<and> dv_device_id r = did \<and> dv_public_key r = key
    \<and> dv_status r = DPending \<and> ae_now env - dv_created_at r < 600
    \<and> (e = EApprove env did (dv_binding_digest r)
       \<or> e = EConfirm env did (take 16 (hex_bytes (dv_binding_digest r))))"
proof -
  have v: "validate_auth_state st" unfolding assms(1) by (rule auth.inv_reachable) simp
  from assms(3) obtain d where d: "d \<in> set (as_devices (auth_step e st))" "dv_device_id d = did"
      "dv_public_key d = key" "dv_status d = DAuthorized" and ids: "valid_id did DEVICE_ID_BYTES" "length key = RAW_BYTES"
    unfolding is_authorized_iff [OF auth_step_valid [OF v]] by (auto dest: find_device_Some)
  have un: "unauthorized did key st"
    using assms(2) ids unfolding is_authorized_iff [OF v]
    by (auto simp: unauthorized_def find_device_iff [OF valid_distinct [OF v]])
  then have dst: "d \<notin> set (as_devices st)" using d by (auto simp: unauthorized_def)
  have loaded: "d \<notin> set (as_devices disk)" if "load_expired env MAX_TTL_SECONDS st = Inr disk" for env disk
    using expired_authorized d(4) dst load_expired_Inr(1) [OF that] by auto
  show ?thesis
  proof (cases e)
    case (EApprove env i dg)
    with d(1) dst loaded obtain disk r where
      r: "load_expired env MAX_TTL_SECONDS st = Inr disk" "find_device disk i = Some r" "dv_status r = DPending"
        "d \<in> set (as_devices (snd (authorize_record env disk r)))" "dg = dv_binding_digest r"
      by (auto simp: approve_def is_active_def split: if_splits sum.splits option.splits)
    from approval_authorizes [OF r(1-4) d(4) dst] d(2,3) r(3,5) EApprove find_device_Some [OF r(2)] show ?thesis
      by auto
  next
    case (EConfirm env i f)
    with d(1) dst loaded obtain disk r where
      r: "load_expired env MAX_TTL_SECONDS st = Inr disk" "find_device disk i = Some r" "dv_status r = DPending"
        "d \<in> set (as_devices (snd (authorize_record env disk r)))" "f = ds_fingerprint (summary_of r)"
      by (auto simp: approve_confirmed_def split: if_splits sum.splits option.splits)
    from approval_authorizes [OF r(1-4) d(4) dst] d(2,3) r(3,5) EConfirm find_device_Some [OF r(2)] show ?thesis
      by (auto simp: summary_of_def)
  qed (use unauth.P_step [where did = did and key = key and e = e and st = st] un d in \<open>auto simp: unauthorized_def\<close>)
qed

theorem authorization_needs_approval_witness:
  "is_authorized demo_id (replicate 32 5) (fold auth_step demo_events default_state) = Inr False
   \<and> is_authorized demo_id (replicate 32 5) (auth_step (EApprove (demo_env 110) demo_id (replicate 32 6))
         (fold auth_step demo_events default_state)) = Inr True
   \<and> (\<exists>r \<in> set (as_devices (fold auth_step demo_events default_state)). dv_status r = DPending)"
proof -
  have 1: "is_authorized demo_id (replicate 32 5) (fold auth_step demo_events default_state) = Inr False"
    by code_simp
  have 2: "is_authorized demo_id (replicate 32 5) (auth_step (EApprove (demo_env 110) demo_id (replicate 32 6))
         (fold auth_step demo_events default_state)) = Inr True"
    by code_simp
  from authorization_needs_approval [OF refl 1 2] 1 2 show ?thesis by blast
qed

text \<open>
  C22. A capability opens one pairing: a successful \<open>consume_offer\<close> presupposes the active,
  unexpired offer of that capability and leaves it consumed; and unless the random source
  repeats the capability, presenting it again fails for ever.
\<close>

theorem capability_single_use:
  assumes "consume_offer env c k b st = (Inr s, st1)"
    and "list_all (\<lambda>e. never_redrawn (ae_sha256 env c) (event_env e)) es"
    and "ae_sha256 env' c = ae_sha256 env c"
    and "st2 = fold auth_step es st1"
  shows "(\<exists>p. as_pairing_offer st = Some p \<and> po_capability_digest p = ae_sha256 env c
       \<and> po_status p = OActive \<and> ae_now env < po_expires_at p)
    \<and> \<not> is_ok (fst (consume_offer env' c k' b' st2))"
proof -
  from consume_offer_Inr [OF assms(1)] obtain i disk offer where
    i: "begin_with_identity env st = Inr (i, disk)" and
    o: "as_pairing_offer disk = Some offer" "ae_sha256 env c = po_capability_digest offer"
      "po_status offer = OActive" "ae_now env < po_expires_at offer"
      "as_pairing_offer st1 = Some (offer\<lparr>po_status := OConsumed, po_consumed_at := ae_now env\<rparr>)"
    by (auto simp: Let_def)
  have "as_pairing_offer st = as_pairing_offer disk"
    using i load_or_create_identity_Inr [of env st i disk] by (auto simp: begin_with_identity_def load_state_Inr)
  moreover have S1: "capability_spent (ae_sha256 env c) st1" using o(5) by (simp add: capability_spent_def)
  then have S2: "capability_spent (ae_sha256 env c) st2"
    unfolding assms(4) by (rule spent.P_run [OF assms(2)])
  moreover have "\<not> is_ok (fst (consume_offer env' c k' b' st2))"
  proof
    assume "is_ok (fst (consume_offer env' c k' b' st2))"
    then obtain r st3 where "consume_offer env' c k' b' st2 = (Inr r, st3)"
      by (auto simp: is_ok_iff prod_eq_iff)
    from consume_offer_Inr [OF this] obtain i' disk' offer' where
      i': "begin_with_identity env' st2 = Inr (i', disk')" and
      o': "as_pairing_offer disk' = Some offer'" "ae_sha256 env' c = po_capability_digest offer'"
        "po_status offer' = OActive" by (auto simp: Let_def)
    from spent.P_begin [OF i' S2] o' assms(3) show False by (simp add: capability_spent_def)
  qed
  ultimately show ?thesis using o by auto
qed

theorem capability_single_use_witness:
  "\<exists>s st1. consume_offer (demo_env 101) (replicate 32 2) (replicate 32 5) (replicate 32 6) demo_offered = (Inr s, st1)
     \<and> \<not> is_ok (fst (consume_offer (demo_env 102) (replicate 32 2) (replicate 32 7) (replicate 32 8)
           (fold auth_step [EApprove ((demo_env 101)\<lparr>ae_secret := None\<rparr>) demo_id (replicate 32 6)] st1)))"
proof -
  let ?c = "consume_offer (demo_env 101) (replicate 32 2) (replicate 32 5) (replicate 32 6) demo_offered"
  let ?es = "[EApprove ((demo_env 101)\<lparr>ae_secret := None\<rparr>) demo_id (replicate 32 6)]"
  have "is_ok (fst ?c)" by code_simp
  then obtain s st1 where c: "?c = (Inr s, st1)" by (cases ?c) (auto simp: is_ok_iff)
  have "\<not> is_ok (fst (consume_offer (demo_env 102) (replicate 32 2) (replicate 32 7) (replicate 32 8)
      (fold auth_step ?es st1)))"
    by (rule capability_single_use [OF c, of ?es "demo_env 102", THEN conjunct2])
      (simp_all add: demo_env_def never_redrawn_def)
  with c show ?thesis by blast
qed

text \<open>
  Revocation takes effect: in a reachable state, for a known device, with a clock that
  does not stand before the device's creation and a working disk, \<open>revoke\<close> returns the
  revoked record and the device is no longer authorized.
\<close>

theorem revoke_takes_effect:
  assumes "st = fold auth_step es default_state" and "find_device st did = Some d"
    and "dv_created_at d \<le> ae_now env" and "ae_now env \<le> 2 ^ 63 - 1" and "dv_epoch d < 2 ^ 31 - 1"
    and "\<And>x. ae_saves env x"
  shows "\<exists>s st1. revoke env did st = (Inr (Some s), st1) \<and> ds_status s = DRevoked \<and> ds_device_id s = did
    \<and> is_authorized did key st1 = Inr False"
proof -
  have v: "validate_auth_state st" unfolding assms(1) by (rule auth.inv_reachable) simp
  note d = find_device_Some [OF assms(2)]
  have vd: "valid_device d" using valid_devices [OF v] d by simp
  then have vid: "valid_id did DEVICE_ID_BYTES" and c0: "0 \<le> dv_created_at d" and e0: "0 \<le> dv_epoch d"
    using d by (auto simp: valid_device_def valid_int_def)
  obtain s st1 where r: "revoke env did st = (Inr (Some s), st1)" "ds_status s = DRevoked" "ds_device_id s = did"
  proof (cases "dv_status d = DRevoked")
    case True
    with that [of "summary_of d" st] show ?thesis
      using v vid assms(2) d by (simp add: revoke_def summary_of_def)
  next
    case False
    let ?u = "d\<lparr>dv_status := DRevoked, dv_updated_at := ae_now env, dv_epoch := dv_epoch d + 1, dv_capabilities := []\<rparr>"
    have "valid_device ?u" using vd assms(3-5) c0 e0 by (auto simp: valid_device_def valid_int_def)
    then have "validate_auth_state (put_device st d ?u)"
      using v d by (intro put_device_valid) (simp_all add: is_active_def)
    then have "revoke env did st = (Inr (Some (summary_of ?u)), put_device st d ?u)"
      using v vid assms(2-4,6) False c0
      by (simp add: revoke_def commit_def save_state_def check_now_def Let_def)
    with that show ?thesis using d by (simp add: summary_of_def)
  qed
  have v1: "validate_auth_state st1" using auth_step_valid [OF v, of "ERevoke env did"] r(1) by simp
  have "is_authorized did key st1 = Inr False"
    using revoke_devices(1) [OF r(1) assms(2) v] unfolding is_authorized_iff [OF v1]
    by (auto dest: find_device_Some)
  with r show ?thesis by blast
qed

theorem revoke_takes_effect_witness:
  "\<exists>s st1. revoke (demo_env 102) demo_id (fold auth_step demo_events default_state) = (Inr (Some s), st1)
     \<and> ds_status s = DRevoked \<and> is_authorized demo_id (replicate 32 5) st1 = Inr False"
proof -
  have d: "find_device (fold auth_step demo_events default_state) demo_id = Some demo_device" by code_simp
  have "dv_created_at demo_device \<le> ae_now (demo_env 102)" "ae_now (demo_env 102) \<le> 2 ^ 63 - 1"
    "dv_epoch demo_device < 2 ^ 31 - 1" "\<And>x. ae_saves (demo_env 102) x"
    by (simp_all add: demo_device_def pending_device_def demo_env_def)
  from revoke_takes_effect [OF refl d this, of "replicate 32 5"] show ?thesis by blast
qed

text \<open>
  The clock can keep a device authorized: \<open>revoke\<close> stamps the record with the current
  time, and the validator refuses an update time before the creation time. When the clock
  stands before the creation of an authorized device, \<open>revoke\<close> raises, nothing is saved,
  and the device stays authorized.
\<close>

theorem revoke_fails_before_creation:
  assumes "st = fold auth_step es default_state" and "find_device st did = Some d"
    and "dv_status d = DAuthorized" and "0 \<le> ae_now env" and "ae_now env < dv_created_at d"
  shows "revoke env did st = (Inl (AuthorizationError ''authorization state unavailable''), st)
    \<and> is_authorized did (dv_public_key d) st = Inr True"
proof -
  have v: "validate_auth_state st" unfolding assms(1) by (rule auth.inv_reachable) simp
  note d = find_device_Some [OF assms(2)]
  have vd: "valid_device d" using valid_devices [OF v] d by simp
  then have vid: "valid_id did DEVICE_ID_BYTES" "length (dv_public_key d) = RAW_BYTES" and "dv_created_at d \<le> 2 ^ 63 - 1"
    using d by (auto simp: valid_device_def valid_int_def)
  then have now: "\<not> (ae_now env < 0 \<or> ae_now env > 2 ^ 63 - 1)" using assms(4,5) by simp
  let ?u = "d\<lparr>dv_status := DRevoked, dv_updated_at := ae_now env, dv_epoch := dv_epoch d + 1, dv_capabilities := []\<rparr>"
  have "\<not> valid_device ?u" using assms(5) by (simp add: valid_device_def)
  moreover have "?u \<in> set (as_devices (put_device st d ?u))" using replace_first_new d by (auto simp: put_device_def)
  ultimately have "\<not> validate_auth_state (put_device st d ?u)" using valid_devices by blast
  then have "revoke env did st = (Inl (AuthorizationError ''authorization state unavailable''), st)"
    using v vid assms(2,3) now by (simp add: revoke_def commit_def save_state_def check_now_def Let_def)
  then show ?thesis using is_authorized_iff [OF v] vid assms(2,3) by auto
qed

theorem revoke_fails_before_creation_witness:
  "let st = fold auth_step (demo_events @ [EApprove (demo_env 110) demo_id (replicate 32 6)]) default_state in
     \<not> is_ok (fst (revoke (demo_env 50) demo_id st))
     \<and> is_authorized demo_id (replicate 32 5) (snd (revoke (demo_env 50) demo_id st)) = Inr True"
proof -
  let ?es = "demo_events @ [EApprove (demo_env 110) demo_id (replicate 32 6)]"
  have d: "find_device (fold auth_step ?es default_state) demo_id = Some (authorized_record 110 demo_device)"
    by code_simp
  have "dv_status (authorized_record 110 demo_device) = DAuthorized" "0 \<le> ae_now (demo_env 50)"
    "ae_now (demo_env 50) < dv_created_at (authorized_record 110 demo_device)"
    by (simp_all add: demo_device_def pending_device_def demo_env_def authorized_record_def)
  from revoke_fails_before_creation [OF refl d this] show ?thesis
    by (simp add: Let_def authorized_record_def demo_device_def pending_device_def)
qed

end
