(* ===== verification/Json_Text.thy ===== *)
theory Json_Text
  imports Strict_Json "HOL-Library.Code_Target_Nat"
begin

text \<open>
  What the program uses of Python's view of a JSON value: reading and assigning members of
  a \<open>dict\<close>, truthiness, the number a literal denotes, and the forms of \<open>json.dumps\<close> other
  than the compact one of \<^verbatim>\<open>Strict_Json\<close> (\<open>ensure_ascii=True\<close>, default separators,
  \<open>sort_keys=True\<close>). A float literal denotes its decimal value; it is infinite exactly when
  the nearest double is.
\<close>

section \<open>Dictionaries\<close>

type_synonym dict = "(pystr \<times> json) list"

fun jdict :: "json \<Rightarrow> dict option" where
  "jdict (JObj kvs) = Some kvs"
| "jdict _ = None"

fun jlist :: "json \<Rightarrow> json list option" where
  "jlist (JArr vs) = Some vs"
| "jlist _ = None"

fun jstr :: "json \<Rightarrow> pystr option" where
  "jstr (JStr s) = Some s"
| "jstr _ = None"

definition dict_of :: "json \<Rightarrow> dict" where
  \<comment> \<open>a member the code has put there as a \<open>dict\<close>\<close>
  "dict_of v = (case v of JObj kvs \<Rightarrow> kvs | _ \<Rightarrow> [])"

definition jset :: "string \<Rightarrow> json \<Rightarrow> dict \<Rightarrow> dict" where
  \<comment> \<open>\<open>d[key] = v\<close>\<close>
  "jset k v kvs = AList.update (lit k) v kvs"

definition jget_or :: "dict \<Rightarrow> string \<Rightarrow> json \<Rightarrow> json" where
  \<comment> \<open>\<open>d.get(key, default)\<close>\<close>
  "jget_or kvs k v = (case map_of kvs (lit k) of None \<Rightarrow> v | Some w \<Rightarrow> w)"

lemma jdict_iff [simp]: "jdict v = Some kvs \<longleftrightarrow> v = JObj kvs"
  by (cases v) auto

lemma jlist_iff [simp]: "jlist v = Some vs \<longleftrightarrow> v = JArr vs"
  by (cases v) auto

lemma jstr_iff [simp]: "jstr v = Some s \<longleftrightarrow> v = JStr s"
  by (cases v) auto

lemma dict_of_JObj [simp]: "dict_of (JObj kvs) = kvs"
  by (simp add: dict_of_def)

lemma jget_jset [simp]: "jget (jset k v d) k' = (if k = k' then v else jget d k')"
  by (simp add: jget_def jset_def update_conv')

lemma jget_or_jset [simp]: "jget_or (jset k v d) k' w = (if k = k' then v else jget_or d k' w)"
  by (simp add: jget_or_def jset_def update_conv')

lemma jhas_jset [simp]: "jhas (jset k v d) k' \<longleftrightarrow> k = k' \<or> jhas d k'"
  by (simp add: jhas_def jset_def update_conv')

section \<open>Numbers and truth\<close>

definition float_parts :: "pystr \<Rightarrow> bool \<times> pystr \<times> pystr \<times> pystr" where
  \<comment> \<open>sign, digits before and after the point, and the exponent of a literal\<close>
  "float_parts t =
     (let neg = (take 1 t = [45]); s = (if neg then tl t else t);
          ip = takeWhile is_digit s; r = dropWhile is_digit s;
          fp = (if take 1 r = [46] then takeWhile is_digit (tl r) else []);
          r2 = (if take 1 r = [46] then dropWhile is_digit (tl r) else r)
      in (neg, ip, fp, tl r2))"

definition exp_value :: "pystr \<Rightarrow> int" where
  "exp_value e =
     (case e of [] \<Rightarrow> 0
      | c # ds \<Rightarrow> if c = 45 then - int (digits_val ds)
                  else if c = 43 then int (digits_val ds) else int (digits_val e))"

definition float_value :: "pystr \<Rightarrow> rat" where
  "float_value t =
     (case float_parts t of (neg, ip, fp, e) \<Rightarrow>
        let m = of_nat (digits_val (ip @ fp)) :: rat; k = exp_value e - int (length fp);
            v = (if k \<ge> 0 then m * 10 ^ nat k else m / 10 ^ nat (- k))
        in if neg then - v else v)"

definition float_finite :: "pystr \<Rightarrow> bool" where
  \<comment> \<open>at \<open>2 ^ 1024 - 2 ^ 970\<close> rounding to nearest overflows to infinity\<close>
  "float_finite t \<longleftrightarrow> \<bar>float_value t\<bar> < 2 ^ 1024 - 2 ^ 970"

definition num_value :: "json \<Rightarrow> rat option" where
  \<comment> \<open>the number of a value whose type is \<open>int\<close> or \<open>float\<close>\<close>
  "num_value v =
     (case v of JInt i \<Rightarrow> Some (of_int i) | JFloat t \<Rightarrow> Some (float_value t) | _ \<Rightarrow> None)"

definition py_eq_int :: "json \<Rightarrow> int \<Rightarrow> bool" where
  \<comment> \<open>\<open>v == n\<close>: a bool and a float compare by their number\<close>
  "py_eq_int v n =
     (case v of JInt i \<Rightarrow> i = n | JBool b \<Rightarrow> (if b then 1 else 0) = n
      | JFloat t \<Rightarrow> float_value t = of_int n | _ \<Rightarrow> False)"

definition truthy :: "json \<Rightarrow> bool" where
  "truthy v =
     (case v of JNull \<Rightarrow> False | JBool b \<Rightarrow> b | JInt i \<Rightarrow> i \<noteq> 0 | JFloat t \<Rightarrow> float_value t \<noteq> 0
      | JStr s \<Rightarrow> s \<noteq> [] | JArr vs \<Rightarrow> vs \<noteq> [] | JObj kvs \<Rightarrow> kvs \<noteq> [])"

section \<open>Other forms of the writer\<close>

definition hex4_out :: "nat \<Rightarrow> pystr" where
  "hex4_out c =
     [92, 117, hex_digit (c div 4096 mod 16), hex_digit (c div 256 mod 16),
      hex_digit (c div 16 mod 16), hex_digit (c mod 16)]"

definition escape_ascii :: "nat \<Rightarrow> pystr" where
  \<comment> \<open>\<open>ensure_ascii=True\<close>: everything outside the printable range is escaped\<close>
  "escape_ascii c =
     (if c = 34 then [92, 34] else if c = 92 then [92, 92] else if c = 10 then [92, 110]
      else if c = 13 then [92, 114] else if c = 9 then [92, 116] else if c = 12 then [92, 102]
      else if c = 8 then [92, 98]
      else if 32 \<le> c \<and> c \<le> 126 then [c]
      else if c < 65536 then hex4_out c
      else hex4_out (0xD800 + (c - 65536) div 1024) @ hex4_out (0xDC00 + (c - 65536) mod 1024))"

definition dumps_ascii :: "json \<Rightarrow> pystr" where
  \<comment> \<open>\<open>json.dumps(v, ensure_ascii=True)\<close>\<close>
  "dumps_ascii = dumps_with escape_ascii (lit '', '') (lit '': '')"

definition dumps_ascii_compact :: "json \<Rightarrow> pystr" where
  \<comment> \<open>\<open>json.dumps(v, ensure_ascii=True, separators=(",", ":"))\<close>\<close>
  "dumps_ascii_compact = dumps_with escape_ascii [44] [58]"

primrec sort_keys :: "json \<Rightarrow> json" where
  \<comment> \<open>\<open>sort_keys=True\<close>\<close>
  "sort_keys JNull = JNull"
| "sort_keys (JBool b) = JBool b"
| "sort_keys (JInt i) = JInt i"
| "sort_keys (JFloat t) = JFloat t"
| "sort_keys (JStr s) = JStr s"
| "sort_keys (JArr vs) = JArr (map sort_keys vs)"
| "sort_keys (JObj kvs) = JObj (sort_key fst (map (map_prod id sort_keys) kvs))"

text \<open>With \<open>ensure_ascii=True\<close> the output is printable ASCII, so \<open>len(text.encode())\<close> is its length.\<close>

lemma hex_digit_ascii: "n < 16 \<Longrightarrow> hex_digit n \<in> {32..126}"
  by (auto simp: hex_digit_def)

lemma hex4_out_ascii: "set (hex4_out c) \<subseteq> {32..126}"
  using hex_digit_ascii by (auto simp: hex4_out_def)

lemma escape_ascii_printable: "set (escape_ascii c) \<subseteq> {32..126}"
  using hex4_out_ascii by (auto simp: escape_ascii_def)

lemma utf8_size_ascii: "\<forall>c \<in> set s. c < 128 \<Longrightarrow> utf8_size s = Some (length s)"
proof (induction s)
  case Nil
  then show ?case by (simp add: utf8_size_def utf8_encode_def)
next
  case (Cons c s)
  then have c: "utf8_size [c] = Some 1"
    by (simp add: utf8_size_def utf8_encode_def utf8_bytes_def)
  then show ?case using Cons utf8_size_append [of "[c]" s] by simp
qed

lemma sep_join_set: "set (sep_join sep xs) \<subseteq> set sep \<union> \<Union> (set ` set xs)"
  by (induction sep xs rule: sep_join.induct) auto

lemma nat_digits_ascii: "set (nat_digits n) \<subseteq> {48..57}"
  using nat_digits_props [of n] by (auto simp: list_all_iff is_digit_def)

lemma dumps_str_with_ascii: "set (dumps_str_with escape_ascii s) \<subseteq> {32..126}"
  using escape_ascii_printable by (fastforce simp: dumps_str_with_def)

lemma dumps_with_ascii:
  assumes "set isep \<subseteq> {32..126}" and "set ksep \<subseteq> {32..126}" and "plain v"
  shows "set (dumps_with escape_ascii isep ksep v) \<subseteq> {32..126}"
  using assms(3)
proof (induction v)
  case (JArr vs)
  let ?ms = "map (dumps_with escape_ascii isep ksep) vs"
  have "\<Union> (set ` set ?ms) \<subseteq> {32..126}" using JArr by (auto simp: list_all_iff)
  then have "set (sep_join isep ?ms) \<subseteq> {32..126}" using sep_join_set [of isep ?ms] assms(1) by blast
  then show ?case by (simp only: dumps_with.simps) auto
next
  case (JObj kvs)
  let ?ms = "map (\<lambda>(k, t). dumps_str_with escape_ascii k @ ksep @ t)
             (map (map_prod id (dumps_with escape_ascii isep ksep)) kvs)"
  have "x \<in> {32..126}" if m: "m \<in> set ?ms" and x: "x \<in> set m" for m x
  proof -
    from m obtain k v where kv: "(k, v) \<in> set kvs"
      and me: "m = dumps_str_with escape_ascii k @ ksep @ dumps_with escape_ascii isep ksep v" by auto
    have "set (dumps_with escape_ascii isep ksep v) \<subseteq> {32..126}"
      by (rule JObj.IH [OF kv]) (use JObj.prems kv in \<open>auto simp: list_all_iff\<close>)
    then show ?thesis using x me dumps_str_with_ascii [of k] assms(2) by auto
  qed
  then have "\<Union> (set ` set ?ms) \<subseteq> {32..126}" by blast
  then have "set (sep_join isep ?ms) \<subseteq> {32..126}" using sep_join_set [of isep ?ms] assms(1) by blast
  then show ?case by (simp only: dumps_with.simps) auto
next
  case (JStr s)
  then show ?case by (simp add: dumps_str_with_ascii)
next
  case (JInt i)
  then show ?case using nat_digits_ascii [of "nat i"] nat_digits_ascii [of "nat (- i)"]
    by (auto simp: dumps_int_def)
qed (auto simp: lit_def)

lemma length_nat_digits: "n < 10 ^ Suc k \<Longrightarrow> length (nat_digits n) \<le> Suc k"
proof (induction k arbitrary: n)
  case 0
  then show ?case by (simp add: nat_digits.simps)
next
  case (Suc k)
  have "n div 10 < 10 ^ Suc k" using Suc.prems by (simp add: less_mult_imp_div_less mult.commute)
  then show ?case using Suc.IH [of "n div 10"] by (subst nat_digits.simps) simp
qed

text \<open>\<open>encode()\<close> of such a text.\<close>

definition ascii_encode :: "pystr \<Rightarrow> bytes" where
  "ascii_encode t = map word_of_nat t"

lemma utf8_encode_ascii: "\<forall>c \<in> set s. c < 128 \<Longrightarrow> utf8_encode s = Some (ascii_encode s)"
proof -
  assume s: "\<forall>c \<in> set s. c < 128"
  then have "concat (map (map word_of_nat \<circ> utf8_bytes) s) = (map word_of_nat s :: bytes)"
    by (induction s) (auto simp: utf8_bytes_def)
  with s show ?thesis by (simp add: utf8_encode_def ascii_encode_def list_all_iff)
qed

lemma utf8_decode_ascii: "\<forall>c \<in> set s. c < 128 \<Longrightarrow> utf8_decode (ascii_encode s) = Some s"
  using utf8_decode_encode [OF utf8_encode_ascii] .

section \<open>The ASCII writer is read back\<close>

text \<open>
  A high surrogate directly followed by a low one would be read back as one character; a
  string that was read from JSON or from UTF-8 never holds such a pair.
\<close>

fun no_pairs :: "pystr \<Rightarrow> bool" where
  "no_pairs (c # d # s) \<longleftrightarrow> \<not> (is_high c \<and> is_low d) \<and> no_pairs (d # s)"
| "no_pairs _ \<longleftrightarrow> True"

definition ascii_ok :: "pystr \<Rightarrow> bool" where
  "ascii_ok s \<longleftrightarrow> no_pairs s \<and> list_all (\<lambda>c. c < 0x110000) s"

lemma small_ascii_ok: "\<forall>c \<in> set s. c < 256 \<Longrightarrow> ascii_ok s"
proof -
  assume s: "\<forall>c \<in> set s. c < 256"
  have "no_pairs t" if "\<forall>c \<in> set t. c < 256" for t
    using that by (induction t rule: no_pairs.induct) (auto simp: is_high_def)
  then show ?thesis using s by (fastforce simp: ascii_ok_def list_all_iff)
qed

lemma ascii_ok_lit: "ascii_ok (lit s)"
  using lit_less by (intro small_ascii_ok) blast

lemma hex_val_digit: "n < 16 \<Longrightarrow> hex_val (hex_digit n) = Some n"
  by (auto simp: hex_val_def hex_digit_def is_digit_def)

lemma hex4_hex4_out: "c < 65536 \<Longrightarrow> hex4 (drop 2 (hex4_out c) @ r) = Some (c, r)"
proof -
  assume c: "c < 65536"
  have q: "c div 256 = c div 16 div 16" "c div 4096 = c div 256 div 16"
    by (simp_all flip: div_mult2_eq)
  have lt: "c div 4096 < 16" using c by (simp add: less_mult_imp_div_less)
  then have "((c div 4096 mod 16 * 16 + c div 256 mod 16) * 16 + c div 16 mod 16) * 16 + c mod 16 = c"
    using div_mult_mod_eq [of c 16] div_mult_mod_eq [of "c div 16" 16] div_mult_mod_eq [of "c div 256" 16]
    unfolding q [symmetric] by simp
  then show ?thesis using lt by (simp add: hex4_def hex4_out_def hex_val_digit)
qed

lemma hex4_out_Cons: "hex4_out c = 92 # 117 # drop 2 (hex4_out c)"
  by (simp add: hex4_out_def)

lemma scan_unit_hex4:
  assumes "c < 65536"
    and "is_high c \<Longrightarrow> take 2 r = [92, 117] \<Longrightarrow> \<exists>v r2. hex4 (drop 2 r) = Some (v, r2) \<and> \<not> is_low v"
  shows "scan_unit (hex4_out c @ r) = Some (Some c, r)"
proof -
  have "scan_unit (hex4_out c @ r) = map_option (\<lambda>(u, r3). (Some u, r3)) (scan_unicode (drop 2 (hex4_out c) @ r))"
    by (subst hex4_out_Cons) (simp add: scan_unit_def)
  also have "scan_unicode (drop 2 (hex4_out c) @ r) = Some (c, r)"
    unfolding scan_unicode_def hex4_hex4_out [OF assms(1)] using assms(2) by auto
  finally show ?thesis by simp
qed

text \<open>The text after a high surrogate that is not paired: no low escape begins there.\<close>

lemma escape_ascii_not_low:
  assumes "c < 0x110000" and "\<not> is_low c" and "take 2 (escape_ascii c @ r) = [92, 117]"
  shows "\<exists>v r2. hex4 (drop 2 (escape_ascii c @ r)) = Some (v, r2) \<and> \<not> is_low v"
proof (cases "c < 65536")
  case True
  have "escape_ascii c = hex4_out c"
    using assms(3) True by (auto simp: escape_ascii_def split: if_splits)
  then show ?thesis using hex4_hex4_out [OF True, of r] assms(2)
    by (subst (asm) hex4_out_Cons) (simp add: hex4_out_def)
next
  case False
  define h where "h = 0xD800 + (c - 65536) div 1024"
  have h: "h < 65536" "\<not> is_low h" using assms(1) False by (auto simp: h_def is_low_def)
  have "escape_ascii c = hex4_out h @ hex4_out (0xDC00 + (c - 65536) mod 1024)"
    using False by (simp add: escape_ascii_def h_def)
  then show ?thesis
    using hex4_hex4_out [OF h(1), of "hex4_out (0xDC00 + (c - 65536) mod 1024) @ r"] h(2)
    by (simp add: hex4_out_def)
qed

lemma scan_unit_pair:
  assumes "65536 \<le> c" and "c < 0x110000"
  shows "scan_unit (hex4_out (0xD800 + (c - 65536) div 1024) @ hex4_out (0xDC00 + (c - 65536) mod 1024) @ r)
     = Some (Some c, r)"
proof -
  let ?h = "0xD800 + (c - 65536) div 1024" and ?l = "0xDC00 + (c - 65536) mod 1024"
  have h: "?h < 65536" "is_high ?h" using assms by (auto simp: is_high_def)
  have l: "?l < 65536" "is_low ?l" by (auto simp: is_low_def)
  have whole: "0x10000 + (?h - 0xD800) * 1024 + (?l - 0xDC00) = c" using assms(1) by simp
  have "hex4 (drop 2 (hex4_out ?l @ r)) = Some (?l, r)"
    using hex4_hex4_out [OF l(1), of r] by (simp add: hex4_out_def)
  moreover have "take 2 (hex4_out ?l @ r) = [92, 117]" by (simp add: hex4_out_def)
  ultimately have "scan_unicode (drop 2 (hex4_out ?h) @ hex4_out ?l @ r) = Some (c, r)"
    unfolding scan_unicode_def hex4_hex4_out [OF h(1)] using h(2) l(2) whole by auto
  then show ?thesis by (subst hex4_out_Cons) (simp add: scan_unit_def)
qed

lemma scan_unit_escape_ascii:
  assumes "c < 0x110000"
    and "is_high c \<Longrightarrow> take 2 r = [92, 117] \<Longrightarrow> \<exists>v r2. hex4 (drop 2 r) = Some (v, r2) \<and> \<not> is_low v"
  shows "scan_unit (escape_ascii c @ r) = Some (Some c, r)"
proof -
  consider "c \<in> {34, 92, 10, 13, 9, 12, 8}" | "32 \<le> c" "c \<le> 126" "c \<notin> {34, 92}"
    | "c < 65536" "escape_ascii c = hex4_out c" | "65536 \<le> c"
  proof -
    have "escape_ascii c = hex4_out c" if "c < 65536" "c \<notin> {34, 92, 10, 13, 9, 12, 8}" "\<not> (32 \<le> c \<and> c \<le> 126)"
      using that by (auto simp: escape_ascii_def)
    then show thesis using that by (cases "c < 65536") auto
  qed
  then show ?thesis
  proof cases
    case 1
    then show ?thesis by (auto simp: escape_ascii_def scan_unit_def escape_char_def)
  next
    case 2
    then show ?thesis by (auto simp: escape_ascii_def scan_unit_def)
  next
    case 3
    then show ?thesis using scan_unit_hex4 [OF 3(1) assms(2)] by simp
  next
    case 4
    then show ?thesis using scan_unit_pair [OF 4 assms(1), of r] by (simp add: escape_ascii_def)
  qed
qed

lemma scan_string_escape_ascii:
  "ascii_ok s \<Longrightarrow> scan_string (concat (map escape_ascii s) @ 34 # r) = Some (s, r)"
proof (induction s)
  case Nil
  then show ?case by (simp add: scan_string.simps scan_unit_def)
next
  case (Cons c s)
  let ?rest = "concat (map escape_ascii s) @ 34 # r"
  have s: "ascii_ok s" "c < 0x110000" using Cons.prems by (cases s; simp add: ascii_ok_def)+
  have "scan_unit (escape_ascii c @ ?rest) = Some (Some c, ?rest)"
  proof (rule scan_unit_escape_ascii [OF s(2)])
    assume high: "is_high c" and two: "take 2 ?rest = [92, 117]"
    then obtain d t where d: "s = d # t" by (cases s) auto
    have "\<not> is_low d" "d < 0x110000" using Cons.prems high d by (auto simp: ascii_ok_def)
    then show "\<exists>v r2. hex4 (drop 2 ?rest) = Some (v, r2) \<and> \<not> is_low v"
      using escape_ascii_not_low [of d "concat (map escape_ascii t) @ 34 # r"] two d by simp
  qed
  then show ?case using Cons.IH [OF s(1)] by (subst scan_string.simps) simp
qed

interpretation ascii: json_writer escape_ascii ascii_ok
  by unfold_locales (rule scan_string_escape_ascii)

lemma loads_strict_ascii_compact:
  assumes "plain v" and "clean_json ascii_ok v" and "jdepth v \<le> d"
  shows "loads_strict d (dumps_ascii_compact v) = Some v"
  using ascii.loads_strict_wr [of v d] assms by (simp add: dumps_ascii_compact_def)

lemma ascii_compact_small: "plain v \<Longrightarrow> \<forall>c \<in> set (dumps_ascii_compact v). c < 128"
  using dumps_with_ascii [of "[44]" "[58]" v] by (force simp: dumps_ascii_compact_def)

text \<open>Writing a value to a file and reading it back.\<close>

lemma loads_strict_ascii_file:
  assumes "plain v" and "clean_json ascii_ok v" and "jdepth v \<le> d"
  shows "Option.bind (utf8_decode (ascii_encode (dumps_ascii_compact v))) (loads_strict d) = Some v"
  using utf8_decode_ascii [OF ascii_compact_small [OF assms(1)]] loads_strict_ascii_compact [OF assms]
  by simp

end
