(* ===== verification/Lease_Recovery.thy ===== *)
theory Lease_Recovery
  imports Json_Text
begin

text \<open>
  The observation-only child recovery of \<^verbatim>\<open>lease_recovery.py\<close>: a bounded store of the last
  known state of every child task, written to one file before an event is delivered, and
  the per-lease projection that builds those rows from the frames it sees. Events and rows
  are JSON objects, as in the code; the store is threaded through the operations of every
  projection that shares it. Clock readings are whole seconds, and every call names the
  readings it makes and whether its write to disk succeeds.
\<close>

section \<open>Identifiers\<close>

definition MAX_ROWS :: nat where "MAX_ROWS = 64"
definition MAX_STORE_ROWS :: nat where "MAX_STORE_ROWS = 256"
definition MAX_STORE_BYTES :: int where "MAX_STORE_BYTES = 2097152"
definition MAX_SNAPSHOT_BYTES :: int where "MAX_SNAPSHOT_BYTES = 131072"

definition TERMINAL :: "pystr list" where
  "TERMINAL = map lit [''completed'', ''failed'', ''cancelled'', ''interrupted'', ''error'', ''timeout'']"

definition TEXT_FIELDS :: "(pystr \<times> nat) list" where
  "TEXT_FIELDS =
     map (map_prod lit id)
       [(''subagent_id'', 128), (''child_session_id'', 128), (''delegation_id'', 128),
        (''parent_id'', 128), (''goal'', 500), (''action'', 500), (''summary'', 500),
        (''status'', 32), (''model'', 128), (''tool'', 128), (''tool_name'', 128), (''text'', 500)]"

definition IDENTITY_FIELDS :: "pystr list" where
  "IDENTITY_FIELDS = map lit [''subagent_id'', ''child_session_id'', ''delegation_id'', ''parent_id'']"

definition COUNT_FIELDS :: "pystr list" where
  "COUNT_FIELDS = map lit [''task_index'', ''task_count'', ''depth'', ''tool_count'']"

definition identifier_of :: "json \<Rightarrow> pystr option" where
  "identifier_of v =
     (case v of JStr s \<Rightarrow> if 0 < length s \<and> length s \<le> 128 then Some s else None | _ \<Rightarrow> None)"

definition child_key :: "dict \<Rightarrow> pystr option" where
  "child_key payload =
     (case identifier_of (jget payload ''subagent_id'') of
        Some s \<Rightarrow> Some (lit ''subagent_id:'' @ s)
      | None \<Rightarrow>
     (case identifier_of (jget payload ''child_session_id'') of
        Some s \<Rightarrow> Some (lit ''child_session_id:'' @ s)
      | None \<Rightarrow>
     (case (identifier_of (jget payload ''delegation_id''), jget payload ''task_index'') of
        (Some delegation, JInt index) \<Rightarrow>
          if 0 \<le> index \<and> index \<le> 10000
          then Some (lit ''delegation:'' @ delegation @ lit '':'' @ dumps_int index) else None
      | _ \<Rightarrow> None)))"

definition opt_json :: "pystr option \<Rightarrow> json" where
  "opt_json v = (case v of None \<Rightarrow> JNull | Some s \<Rightarrow> JStr s)"

definition is_terminal :: "json \<Rightarrow> bool" where
  \<comment> \<open>\<open>status in TERMINAL\<close>\<close>
  "is_terminal v = (case v of JStr s \<Rightarrow> s \<in> set TERMINAL | _ \<Rightarrow> False)"

definition projection_id :: "int \<Rightarrow> pystr" where
  "projection_id revision = lit ''projection:'' @ dumps_int revision"

section \<open>Events and rows\<close>

definition ev_params :: "dict \<Rightarrow> dict" where "ev_params e = dict_of (jget e ''params'')"
definition ev_payload :: "dict \<Rightarrow> dict" where "ev_payload e = dict_of (jget (ev_params e) ''payload'')"
definition ev_binding :: "dict \<Rightarrow> dict" where
  "ev_binding e = dict_of (jget (ev_params e) ''recovery_binding'')"

definition ev_set :: "string \<Rightarrow> json \<Rightarrow> dict \<Rightarrow> dict" where
  \<comment> \<open>\<open>event["params"][name] = v\<close>\<close>
  "ev_set name v e = jset ''params'' (JObj (jset name v (ev_params e))) e"

definition ev_terminal :: "dict \<Rightarrow> bool" where
  "ev_terminal e \<longleftrightarrow> is_terminal (jget (ev_payload e) ''status'')"

definition row_key :: "dict \<Rightarrow> json list" where
  "row_key r = (case jget r ''key'' of JArr ks \<Rightarrow> ks | _ \<Rightarrow> [])"

definition row_event :: "dict \<Rightarrow> dict" where "row_event r = dict_of (jget r ''event'')"

definition row_expires :: "dict \<Rightarrow> rat" where
  "row_expires r = (case num_value (jget r ''expires_at'') of None \<Rightarrow> 0 | Some t \<Rightarrow> t)"

definition mk_row :: "json list \<Rightarrow> int \<Rightarrow> dict \<Rightarrow> dict" where
  "mk_row key expires e =
     [(lit ''key'', JArr key), (lit ''expires_at'', JInt expires), (lit ''event'', JObj e)]"

definition payload_field_ok :: "pystr \<times> json \<Rightarrow> bool" where
  "payload_field_ok kv =
     (case kv of (k, v) \<Rightarrow>
        (case (map_of TEXT_FIELDS k, v) of (Some n, JStr s) \<Rightarrow> length s \<le> n | _ \<Rightarrow> False)
        \<or> (k \<in> set COUNT_FIELDS \<and> (case v of JInt i \<Rightarrow> 0 \<le> i \<and> i \<le> 10000 | _ \<Rightarrow> False)))"

definition key_ok :: "json list \<Rightarrow> bool" where
  "key_ok key \<longleftrightarrow> length key = 6
     \<and> list_all (\<lambda>i. identifier_of (key ! i) \<noteq> None) [0, 1, 3, 4]
     \<and> (case key ! 2 of JInt e \<Rightarrow> 0 \<le> e \<and> e \<le> 2 ^ 31 - 1 | _ \<Rightarrow> False)"

definition expiry_ok :: "json \<Rightarrow> bool" where
  "expiry_ok v = (case v of JInt _ \<Rightarrow> True | JFloat t \<Rightarrow> float_finite t | _ \<Rightarrow> False)"

definition event_row_ok :: "json list \<Rightarrow> dict \<Rightarrow> dict \<Rightarrow> dict \<Rightarrow> dict \<Rightarrow> bool" where
  "event_row_ok key event params binding payload \<longleftrightarrow>
     jget event ''method'' = JStr (lit ''event'')
     \<and> jget event ''jsonrpc'' = JStr (lit ''2.0'')
     \<and> identifier_of (jget params ''session_id'') \<noteq> None
     \<and> jget binding ''runtime_session_id'' = jget params ''session_id''
     \<and> jget binding ''durable_session_id'' = key ! 4
     \<and> key ! 4 = jget params ''durable_session_id''
     \<and> jget binding ''profile'' = key ! 3
     \<and> key ! 3 = jget params ''profile''
     \<and> opt_json (child_key payload) = key ! 5
     \<and> (case jget params ''recovery_revision'' of
           JInt r \<Rightarrow> jget params ''relay_event_id'' = JStr (projection_id r) | _ \<Rightarrow> False)
     \<and> list_all payload_field_ok payload
     \<and> int (length (dumps_ascii (JObj event))) \<le> 32768"

definition validate_row :: "json \<Rightarrow> bool" where
  \<comment> \<open>a missing member or a member of another type makes a subscript or a method raise\<close>
  "validate_row row =
     (case row of
        JObj r \<Rightarrow>
          (case (jget r ''key'', jget r ''event'') of
             (JArr key, JObj event) \<Rightarrow>
               (case jget event ''params'' of
                  JObj params \<Rightarrow>
                    (case (jget params ''recovery_binding'', jget params ''payload'') of
                       (JObj binding, JObj payload) \<Rightarrow>
                         key_ok key \<and> expiry_ok (jget r ''expires_at'')
                         \<and> event_row_ok key event params binding payload
                     | _ \<Rightarrow> False)
                | _ \<Rightarrow> False)
           | _ \<Rightarrow> False)
      | _ \<Rightarrow> False)"

section \<open>The store\<close>

datatype recovery_error =
    InvalidRecoveryStore       \<comment> \<open>\<open>ValueError("invalid recovery store")\<close>, or text that is not JSON\<close>
  | RecoveryFileTooLarge       \<comment> \<open>raised by \<open>_read_bounded\<close>\<close>
  | RecoveryWriteFailed        \<comment> \<open>raised by \<open>_atomic_write\<close>\<close>
  | UnhashableType             \<comment> \<open>\<open>TypeError\<close> of \<open>in\<close> on a set\<close>

record recovery_store =
  rs_max_rows :: nat
  rs_ttl_seconds :: int
  rs_rows :: "dict list"
  rs_revision :: int
  rs_truncated :: bool
  rs_disk :: "bytes option"    \<comment> \<open>content of the file\<close>

record put_env =
  pv_now_prune :: int          \<comment> \<open>clock in the first \<open>_prune\<close>\<close>
  pv_now_stamp :: int          \<comment> \<open>clock that stamps the row\<close>
  pv_now_save :: int           \<comment> \<open>clock in the \<open>_prune\<close> of \<open>_save\<close>\<close>
  pv_write_ok :: bool          \<comment> \<open>whether \<open>_atomic_write\<close> returns\<close>

definition prune :: "int \<Rightarrow> recovery_store \<Rightarrow> recovery_store" where
  "prune now st =
     (let kept = filter (\<lambda>r. row_expires r > of_int now) (rs_rows st) in
      st\<lparr>rs_truncated := rs_truncated st \<or> length kept \<noteq> length (rs_rows st)
                         \<or> length kept > rs_max_rows st,
         rs_rows := last_n (rs_max_rows st) kept\<rparr>)"

definition store_text :: "int \<Rightarrow> bool \<Rightarrow> dict list \<Rightarrow> pystr" where
  \<comment> \<open>\<open>encode\<close> inside \<open>_save\<close>; the text is ASCII\<close>
  "store_text revision truncated rows =
     dumps_ascii_compact (JObj
       [(lit ''version'', JInt 1), (lit ''revision'', JInt revision),
        (lit ''truncated'', JBool truncated), (lit ''rows'', JArr (map JObj rows))])"

fun fit_rows :: "int \<Rightarrow> bool \<Rightarrow> dict list \<Rightarrow> bool \<times> dict list" where
  \<comment> \<open>\<open>while len(raw) > MAX_STORE_BYTES and self.rows\<close>\<close>
  "fit_rows revision truncated [] = (truncated, [])"
| "fit_rows revision truncated (r # rs) =
     (if int (length (store_text revision truncated (r # rs))) > MAX_STORE_BYTES
      then fit_rows revision True rs else (truncated, r # rs))"

definition save :: "int \<Rightarrow> bool \<Rightarrow> recovery_store \<Rightarrow> (recovery_error + unit) \<times> recovery_store" where
  "save now write_ok st =
     (let st1 = prune now st in
      case fit_rows (rs_revision st1) (rs_truncated st1) (rs_rows st1) of (truncated, rows) \<Rightarrow>
        let st2 = st1\<lparr>rs_rows := rows, rs_truncated := truncated\<rparr> in
        if write_ok
        then (Inr (), st2\<lparr>rs_disk := Some (ascii_encode (store_text (rs_revision st2) truncated rows))\<rparr>)
        else (Inl RecoveryWriteFailed, st2))"

definition load_rows :: "dict \<Rightarrow> (json list \<times> int) option" where
  "load_rows data =
     (if \<not> py_eq_int (jget data ''version'') 1 then None
      else case (jget data ''rows'', jget data ''revision'') of
             (JArr rows, JInt revision) \<Rightarrow>
               if length rows > MAX_STORE_ROWS \<or> revision < 0 \<or> revision > 2 ^ 63 - 1 then None
               else if list_all validate_row rows then Some (rows, revision) else None
           | _ \<Rightarrow> None)"

definition new_recovery_store ::
  "nat \<Rightarrow> int \<Rightarrow> int \<Rightarrow> int \<Rightarrow> bytes option \<Rightarrow> recovery_error + recovery_store" where
  \<comment> \<open>\<open>RecoveryStore.__init__\<close>; the recursion limit is that of the JSON reader\<close>
  "new_recovery_store recursion_limit max_rows ttl_seconds now disk =
     (let empty = \<lparr>rs_max_rows = min MAX_STORE_ROWS (nat (max 1 max_rows)),
                   rs_ttl_seconds = ttl_seconds, rs_rows = [], rs_revision = 0,
                   rs_truncated = False, rs_disk = disk\<rparr> in
      case disk of
        None \<Rightarrow> Inr empty
      | Some raw \<Rightarrow>
          if int (length raw) > MAX_STORE_BYTES then Inl RecoveryFileTooLarge
          else (case Option.bind (utf8_decode raw) (loads_strict recursion_limit) of
                  Some (JObj data) \<Rightarrow>
                    (case load_rows data of
                       None \<Rightarrow> Inl InvalidRecoveryStore
                     | Some (rows, revision) \<Rightarrow>
                         Inr (prune now (empty\<lparr>rs_rows := map dict_of rows,
                                               rs_revision := revision,
                                               rs_truncated := truthy (jget data ''truncated'')\<rparr>)))
                | _ \<Rightarrow> Inl InvalidRecoveryStore))"

definition put_key :: "json list \<Rightarrow> dict \<Rightarrow> json list" where
  "put_key scope event =
     scope @ [jget (ev_binding event) ''profile'', jget (ev_binding event) ''durable_session_id'',
              opt_json (child_key (ev_payload event))]"

definition find_row :: "json list \<Rightarrow> dict list \<Rightarrow> dict option" where
  "find_row key rows = List.find (\<lambda>r. row_key r = key) rows"

definition ev_revision :: "dict \<Rightarrow> int" where
  "ev_revision e = (case jget (ev_params e) ''recovery_revision'' of JInt r \<Rightarrow> r | _ \<Rightarrow> 0)"

definition stamped :: "int \<Rightarrow> dict \<Rightarrow> dict" where
  "stamped revision event =
     ev_set ''relay_event_id'' (JStr (projection_id revision))
       (ev_set ''recovery_revision'' (JInt revision) event)"

definition put_fresh ::
  "put_env \<Rightarrow> json list \<Rightarrow> dict \<Rightarrow> recovery_store \<Rightarrow> (recovery_error + int) \<times> recovery_store" where
  \<comment> \<open>the part of \<open>put\<close> after the terminal test, on the pruned store; the caller rolls back\<close>
  "put_fresh env key event st =
     (let revision = rs_revision st + 1;
          rows = filter (\<lambda>r. row_key r \<noteq> key) (rs_rows st)
                   @ [mk_row key (pv_now_stamp env + rs_ttl_seconds st) (stamped revision event)]
      in case save (pv_now_save env) (pv_write_ok env)
                (st\<lparr>rs_revision := revision, rs_rows := rows\<rparr>) of
           (Inl e, st') \<Rightarrow> (Inl e, st')
         | (Inr _, st') \<Rightarrow> (Inr (rs_revision st'), st'))"

definition terminal_row :: "json list \<Rightarrow> dict list \<Rightarrow> dict option" where
  \<comment> \<open>\<open>prior\<close>, when it exists and its status is terminal\<close>
  "terminal_row key rows =
     (case find_row key rows of
        None \<Rightarrow> None
      | Some prior \<Rightarrow> if ev_terminal (row_event prior) then Some prior else None)"

definition store_put ::
  "put_env \<Rightarrow> json list \<Rightarrow> dict \<Rightarrow> recovery_store \<Rightarrow> (recovery_error + int) \<times> dict \<times> recovery_store" where
  \<comment> \<open>\<open>put\<close>: the result, the caller's event (changed in place) and the store\<close>
  "store_put env scope event st =
     (let key = put_key scope event; st1 = prune (pv_now_prune env) st in
      case terminal_row key (rs_rows st1) of
        Some prior \<Rightarrow>
          (Inr (ev_revision (row_event prior)),
           ev_set ''type'' (jget (ev_params (row_event prior)) ''type'')
             (ev_set ''payload'' (JObj (ev_payload (row_event prior))) event),
           st1)
      | None \<Rightarrow>
          (case put_fresh env key event st1 of
             (Inl e, st') \<Rightarrow> (Inl e, event, st'\<lparr>rs_rows := rs_rows st,
                rs_revision := rs_revision st, rs_truncated := rs_truncated st\<rparr>)
           | (Inr r, st') \<Rightarrow> (Inr r, event, st')))"

definition snapshot_event :: "dict \<Rightarrow> dict" where
  \<comment> \<open>the copy of a row's event a snapshot hands out\<close>
  "snapshot_event e =
     (let e1 = ev_set ''recovery_binding'' (JObj (jset ''live'' (JBool False) (ev_binding e))) e in
      if ev_terminal e1 then e1
      else ev_set ''payload'' (JObj (jset ''status'' (JStr (lit ''unknown'')) (ev_payload e1))) e1)"

definition in_scope :: "json list \<Rightarrow> (pystr \<Rightarrow> bool) \<Rightarrow> dict \<Rightarrow> bool" where
  "in_scope scope authorizer r \<longleftrightarrow> take 3 (row_key r) = scope
     \<and> (case row_key r ! 3 of JStr p \<Rightarrow> authorizer p | _ \<Rightarrow> False)"

definition store_snapshot ::
  "int \<Rightarrow> json list \<Rightarrow> (pystr \<Rightarrow> bool) \<Rightarrow> recovery_store \<Rightarrow> (dict list \<times> bool) \<times> recovery_store" where
  "store_snapshot now scope authorizer st =
     (let st1 = prune now st;
          events = map (snapshot_event \<circ> row_event) (filter (in_scope scope authorizer) (rs_rows st1))
      in ((last_n MAX_ROWS events, rs_truncated st1 \<or> length events > MAX_ROWS), st1))"

definition of_device :: "pystr \<Rightarrow> pystr \<Rightarrow> dict \<Rightarrow> bool" where
  \<comment> \<open>the rows of a device, on its default channel or on a named one\<close>
  "of_device installation device r \<longleftrightarrow>
     row_key r ! 0 = JStr installation
     \<and> (row_key r ! 1 = JStr device
        \<or> (case row_key r ! 1 of JStr d \<Rightarrow> take (length device + 1) d = device @ [47] | _ \<Rightarrow> False))"

definition store_revoke ::
  "int \<Rightarrow> bool \<Rightarrow> pystr \<Rightarrow> pystr \<Rightarrow> recovery_store \<Rightarrow> (recovery_error + unit) \<times> recovery_store" where
  "store_revoke now write_ok installation device st =
     save now write_ok (st\<lparr>rs_rows := filter (\<lambda>r. \<not> of_device installation device r) (rs_rows st)\<rparr>)"

definition recovery_scope_device :: "pystr \<Rightarrow> pystr \<Rightarrow> pystr" where
  "recovery_scope_device device_id channel =
     (if channel = [] then device_id else device_id @ [47] @ channel)"

section \<open>Every sequence of operations on the store\<close>

datatype store_op =
    OpPut put_env "json list" dict
  | OpSnapshot int "json list" "pystr \<Rightarrow> bool"
  | OpRevoke int bool pystr pystr

fun store_step :: "store_op \<Rightarrow> recovery_store \<Rightarrow> recovery_store" where
  "store_step (OpPut env scope event) st = snd (snd (store_put env scope event st))"
| "store_step (OpSnapshot now scope authorizer) st = snd (store_snapshot now scope authorizer st)"
| "store_step (OpRevoke now write_ok installation device) st =
     snd (store_revoke now write_ok installation device st)"

fun op_clock :: "store_op \<Rightarrow> int set" where
  "op_clock (OpPut env scope event) = {pv_now_prune env, pv_now_save env}"
| "op_clock (OpSnapshot now scope authorizer) = {now}"
| "op_clock (OpRevoke now write_ok installation device) = {now}"

definition rs_inv :: "recovery_store \<Rightarrow> bool" where
  "rs_inv st \<longleftrightarrow> 1 \<le> rs_max_rows st \<and> rs_max_rows st \<le> MAX_STORE_ROWS
     \<and> length (rs_rows st) \<le> rs_max_rows st \<and> distinct (map row_key (rs_rows st))"

definition rs_empty :: "recovery_store \<Rightarrow> bool" where
  "rs_empty st \<longleftrightarrow> 1 \<le> rs_max_rows st \<and> rs_max_rows st \<le> MAX_STORE_ROWS \<and> rs_rows st = []"

lemma row_key_mk_row [simp]: "row_key (mk_row key t e) = key"
  by (simp add: row_key_def mk_row_def jget_def)

lemma row_event_mk_row [simp]: "row_event (mk_row key t e) = e"
  by (simp add: row_event_def mk_row_def jget_def dict_of_def)

lemma row_expires_mk_row [simp]: "row_expires (mk_row key t e) = of_int t"
  by (simp add: row_expires_def mk_row_def jget_def num_value_def)

lemma prune_frame [simp]:
  "rs_max_rows (prune now st) = rs_max_rows st" "rs_revision (prune now st) = rs_revision st"
  "rs_ttl_seconds (prune now st) = rs_ttl_seconds st" "rs_disk (prune now st) = rs_disk st"
  by (simp_all add: prune_def Let_def)

lemma prune_rows:
  "length (rs_rows st) \<le> rs_max_rows st \<Longrightarrow>
     rs_rows (prune now st) = filter (\<lambda>r. row_expires r > of_int now) (rs_rows st)"
  using le_trans [OF length_filter_le [of "\<lambda>r. row_expires r > of_int now" "rs_rows st"]]
  by (simp add: prune_def Let_def last_n_def)

lemma distinct_map_drop: "distinct (map f xs) \<Longrightarrow> distinct (map f (drop n xs))"
  by (simp add: drop_map [symmetric])

lemma prune_distinct: "distinct (map row_key (rs_rows st)) \<Longrightarrow> distinct (map row_key (rs_rows (prune now st)))"
  by (simp add: prune_def Let_def last_n_def distinct_map_drop distinct_map_filter)

lemma prune_length [simp]: "length (rs_rows (prune now st)) \<le> rs_max_rows st"
  by (simp add: prune_def Let_def)

lemma prune_subset: "set (rs_rows (prune now st)) \<subseteq> set (rs_rows st)"
  using set_last_n_subset by (fastforce simp: prune_def Let_def)

lemma fit_rows_suffix: "\<exists>k. snd (fit_rows revision truncated rows) = drop k rows"
proof (induction revision truncated rows rule: fit_rows.induct)
  case (2 revision truncated r rs)
  show ?case
  proof (cases "int (length (store_text revision truncated (r # rs))) > MAX_STORE_BYTES")
    case True
    then obtain k where "snd (fit_rows revision True rs) = drop k rs" using 2 by blast
    then have "snd (fit_rows revision truncated (r # rs)) = drop (Suc k) (r # rs)" using True by simp
    then show ?thesis by blast
  next
    case False
    then have "snd (fit_rows revision truncated (r # rs)) = drop 0 (r # rs)" by simp
    then show ?thesis by blast
  qed
qed auto

lemma fit_rows_bound:
  "fit_rows revision truncated rows = (truncated', rows') \<Longrightarrow> rows' \<noteq> [] \<Longrightarrow>
     int (length (store_text revision truncated' rows')) \<le> MAX_STORE_BYTES"
  by (induction revision truncated rows rule: fit_rows.induct) (auto split: if_splits)

lemma save_cases:
  assumes "save now write_ok st = (r, st')"
  shows "\<exists>k truncated. rs_rows st' = drop k (rs_rows (prune now st))
     \<and> rs_truncated st' = truncated
     \<and> fit_rows (rs_revision st) (rs_truncated (prune now st)) (rs_rows (prune now st)) = (truncated, rs_rows st')
     \<and> rs_revision st' = rs_revision st \<and> rs_max_rows st' = rs_max_rows st
     \<and> rs_ttl_seconds st' = rs_ttl_seconds st
     \<and> rs_disk st' = (if write_ok then Some (ascii_encode (store_text (rs_revision st') truncated (rs_rows st')))
                      else rs_disk st)
     \<and> r = (if write_ok then Inr () else Inl RecoveryWriteFailed)"
proof -
  obtain truncated rows where f:
    "fit_rows (rs_revision (prune now st)) (rs_truncated (prune now st)) (rs_rows (prune now st)) = (truncated, rows)"
    by fastforce
  obtain k where "rows = drop k (rs_rows (prune now st))"
    using fit_rows_suffix [of "rs_revision (prune now st)" "rs_truncated (prune now st)" "rs_rows (prune now st)"] f
    by auto
  then show ?thesis using assms f by (intro exI [of _ k] exI [of _ truncated]) (auto simp: save_def Let_def)
qed

lemma save_keeps_inv:
  assumes "save now write_ok st = (r, st')" and "1 \<le> rs_max_rows st" and "rs_max_rows st \<le> MAX_STORE_ROWS"
    and "distinct (map row_key (rs_rows st))"
  shows "rs_inv st' \<and> set (rs_rows st') \<subseteq> set (rs_rows st)"
proof -
  obtain k where k: "rs_rows st' = drop k (rs_rows (prune now st))" "rs_max_rows st' = rs_max_rows st"
    using save_cases [OF assms(1)] by auto
  have "length (rs_rows st') \<le> rs_max_rows st" unfolding k(1) length_drop using prune_length [of now st] by linarith
  moreover have "distinct (map row_key (rs_rows st'))"
    unfolding k(1) by (intro distinct_map_drop prune_distinct assms(4))
  ultimately show ?thesis
    using k assms(2,3) prune_subset [of now st] set_drop_subset [of k "rs_rows (prune now st)"]
    by (auto simp: rs_inv_def)
qed

text \<open>The three ways a \<open>put\<close> can end.\<close>

lemma store_put_cases:
  obtains (Terminal) prior where
      "terminal_row (put_key scope event) (rs_rows (prune (pv_now_prune env) st)) = Some prior"
      "store_put env scope event st =
         (Inr (ev_revision (row_event prior)),
          ev_set ''type'' (jget (ev_params (row_event prior)) ''type'')
            (ev_set ''payload'' (JObj (ev_payload (row_event prior))) event),
          prune (pv_now_prune env) st)"
  | (Stored) st' rows where
      "terminal_row (put_key scope event) (rs_rows (prune (pv_now_prune env) st)) = None"
      "store_put env scope event st = (Inr (rs_revision st + 1), event, st')" "pv_write_ok env"
      "rows = filter (\<lambda>r. row_key r \<noteq> put_key scope event) (rs_rows (prune (pv_now_prune env) st))
         @ [mk_row (put_key scope event) (pv_now_stamp env + rs_ttl_seconds st) (stamped (rs_revision st + 1) event)]"
      "save (pv_now_save env) True
         ((prune (pv_now_prune env) st)\<lparr>rs_revision := rs_revision st + 1, rs_rows := rows\<rparr>) = (Inr (), st')"
  | (Failed)
      "terminal_row (put_key scope event) (rs_rows (prune (pv_now_prune env) st)) = None"
      "store_put env scope event st = (Inl RecoveryWriteFailed, event, st)" "\<not> pv_write_ok env"
proof (cases "terminal_row (put_key scope event) (rs_rows (prune (pv_now_prune env) st))")
  case (Some prior)
  then show thesis by (intro Terminal) (simp_all add: store_put_def Let_def)
next
  case None
  let ?st1 = "prune (pv_now_prune env) st"
  let ?rows = "filter (\<lambda>r. row_key r \<noteq> put_key scope event) (rs_rows ?st1)
     @ [mk_row (put_key scope event) (pv_now_stamp env + rs_ttl_seconds st) (stamped (rs_revision st + 1) event)]"
  let ?st2 = "?st1\<lparr>rs_revision := rs_revision st + 1, rs_rows := ?rows\<rparr>"
  obtain r st' where sv: "save (pv_now_save env) (pv_write_ok env) ?st2 = (r, st')" by fastforce
  note c = save_cases [OF sv]
  show thesis
  proof (cases "pv_write_ok env")
    case True
    then show thesis using sv c None
      by (intro Stored [of st' ?rows]) (auto simp: store_put_def put_fresh_def Let_def)
  next
    case False
    have "st'\<lparr>rs_rows := rs_rows st, rs_revision := rs_revision st, rs_truncated := rs_truncated st\<rparr> = st"
      using c False by (intro recovery_store.equality) auto
    then show thesis using sv c None False
      by (intro Failed) (auto simp: store_put_def put_fresh_def Let_def)
  qed
qed

lemma find_row_Some: "find_row key rows = Some r \<Longrightarrow> r \<in> set rows \<and> row_key r = key"
  by (auto simp: find_row_def find_Some_iff)

lemma terminal_row_Some:
  "terminal_row key rows = Some r \<Longrightarrow> r \<in> set rows \<and> row_key r = key \<and> ev_terminal (row_event r)"
  by (auto simp: terminal_row_def dest: find_row_Some split: option.splits if_splits)

lemma find_row_unique:
  "distinct (map row_key rows) \<Longrightarrow> r \<in> set rows \<Longrightarrow> find_row (row_key r) rows = Some r"
proof (induction rows)
  case (Cons x rows)
  then show ?case by (cases "row_key x = row_key r") (auto simp: find_row_def)
qed (simp add: find_row_def)

lemma store_put_inv:
  assumes "rs_inv st"
  shows "rs_inv (snd (snd (store_put env scope event st)))"
proof (cases rule: store_put_cases [of scope event env st])
  case (Terminal prior)
  then show ?thesis using assms by (simp add: rs_inv_def prune_distinct)
next
  case (Stored st' rows)
  have "distinct (map row_key (rs_rows (prune (pv_now_prune env) st)))"
    using assms by (simp add: rs_inv_def prune_distinct)
  then have "distinct (map row_key rows)" by (auto simp: Stored(4) distinct_map_filter)
  then show ?thesis using save_keeps_inv [OF Stored(5)] assms Stored(2) by (simp add: rs_inv_def)
qed (use assms in simp)

lemma store_step_inv: "rs_inv st \<Longrightarrow> rs_inv (store_step op st)"
proof (cases op)
  case (OpRevoke now write_ok installation device)
  assume inv: "rs_inv st"
  obtain r st' where sv: "store_revoke now write_ok installation device st = (r, st')" by fastforce
  have "rs_inv st'"
    using save_keeps_inv [OF sv [unfolded store_revoke_def]] inv by (simp add: rs_inv_def distinct_map_filter)
  then show ?thesis using OpRevoke sv by simp
qed (simp_all add: store_put_inv, simp add: store_snapshot_def Let_def rs_inv_def prune_distinct)

interpretation rstore: invariant_component rs_empty store_step rs_inv
  by unfold_locales (simp add: rs_empty_def rs_inv_def, rule store_step_inv)

end
