(* ===== verification/Recovery_Projection.thy ===== *)
theory Recovery_Projection
  imports Lease_Recovery
begin

text \<open>
  The per-lease projection of \<^verbatim>\<open>lease_recovery.py\<close>: which session a controller has bound to
  which durable session, and the last known event of every child task. Every operation
  takes the shared store, when the lease has one, and returns it. The code mutates the event
  it persists in place; here it is returned and put back where the code's reference lives.
\<close>

section \<open>State\<close>

record projection =
  pj_profile :: pystr
  pj_scope :: "json list"
  pj_pending :: "(json, pystr) odict"
  pj_bindings :: "(pystr, dict) odict"
  pj_tasks :: "(pystr \<times> pystr, dict) odict"
  pj_truncated :: bool
  pj_revision :: int

type_synonym store_ref = "recovery_store option"

definition new_projection :: "pystr \<Rightarrow> json list \<Rightarrow> projection" where
  "new_projection profile scope =
     \<lparr>pj_profile = profile, pj_scope = scope, pj_pending = [], pj_bindings = [], pj_tasks = [],
      pj_truncated = False, pj_revision = 0\<rparr>"

section \<open>Requests\<close>

definition request_id_ok :: "json \<Rightarrow> bool" where
  "request_id_ok rid \<longleftrightarrow> identifier_of rid \<noteq> None
     \<or> (case rid of JInt i \<Rightarrow> - (2 ^ 63) \<le> i \<and> i < 2 ^ 63 | _ \<Rightarrow> False)"

definition pj_request :: "(pystr \<Rightarrow> bool) \<Rightarrow> json \<Rightarrow> projection \<Rightarrow> projection" where
  "pj_request authorizer v pj =
     (case v of
        JObj req \<Rightarrow>
          if jget req ''method'' \<noteq> JStr (lit ''session.create'')
             \<and> jget req ''method'' \<noteq> JStr (lit ''session.resume'') then pj
          else (case (request_id_ok (jget req ''id''), jget_or req ''params'' (JObj [])) of
                  (True, JObj params) \<Rightarrow>
                    (case identifier_of (jget params ''profile'') of
                       None \<Rightarrow> pj
                     | Some profile \<Rightarrow>
                         if \<not> authorizer profile then pj
                         else let pending = AList.update (jget req ''id'') profile (pj_pending pj) in
                              pj\<lparr>pj_pending := od_trim MAX_ROWS pending,
                                 pj_truncated := pj_truncated pj \<or> length pending > MAX_ROWS\<rparr>)
                | _ \<Rightarrow> pj)
      | _ \<Rightarrow> pj)"

definition binding_for_runtime :: "(pystr \<Rightarrow> bool option) \<Rightarrow> json \<Rightarrow> projection \<Rightarrow> dict option" where
  \<comment> \<open>here the authorizer may raise (\<open>None\<close>)\<close>
  "binding_for_runtime authorizer runtime_session_id pj =
     (case identifier_of runtime_session_id of
        None \<Rightarrow> None
      | Some runtime \<Rightarrow>
          (case map_of (pj_bindings pj) runtime of
             None \<Rightarrow> None
           | Some binding \<Rightarrow>
               if binding = [] \<or> jget binding ''runtime_session_id'' \<noteq> runtime_session_id
                  \<or> identifier_of (jget binding ''durable_session_id'') = None
                  \<or> jget binding ''live'' \<noteq> JBool True then None
               else (case identifier_of (jget binding ''profile'') of
                       None \<Rightarrow> None
                     | Some profile \<Rightarrow> if authorizer profile = Some True then Some binding else None)))"

section \<open>Persisting\<close>

definition pj_persist ::
  "(pystr \<Rightarrow> bool) \<Rightarrow> put_env \<Rightarrow> projection \<Rightarrow> dict \<Rightarrow> store_ref
     \<Rightarrow> (recovery_error + unit) \<times> dict \<times> store_ref" where
  "pj_persist authorizer env pj event store =
     (case jget (ev_params event) ''session_id'' of
        JStr runtime \<Rightarrow>
          (case map_of (pj_bindings pj) runtime of
             None \<Rightarrow> (Inr (), event, store)
           | Some binding \<Rightarrow>
               (case jget binding ''profile'' of
                  JStr profile \<Rightarrow>
                    if binding = [] \<or> \<not> authorizer profile then (Inr (), event, store)
                    else let e1 = ev_set ''profile'' (jget binding ''profile'')
                               (ev_set ''durable_session_id'' (jget binding ''durable_session_id'')
                                 (ev_set ''recovery_binding'' (JObj binding) event))
                         in (case store of
                               None \<Rightarrow> (Inr (), e1, store)
                             | Some st \<Rightarrow>
                                 (case store_put env (pj_scope pj) e1 st of
                                    (Inl err, e2, st') \<Rightarrow> (Inl err, e2, Some st')
                                  | (Inr revision, e2, st') \<Rightarrow>
                                      (Inr (), stamped revision e2, Some st')))
                | _ \<Rightarrow> (Inr (), event, store)))
      | _ \<Rightarrow> (Inr (), event, store))"

fun persist_session ::
  "(pystr \<Rightarrow> bool) \<Rightarrow> (nat \<Rightarrow> put_env) \<Rightarrow> projection \<Rightarrow> pystr \<Rightarrow> ((pystr \<times> pystr) \<times> dict) list \<Rightarrow> store_ref
     \<Rightarrow> (recovery_error + unit) \<times> ((pystr \<times> pystr) \<times> dict) list \<times> store_ref" where
  \<comment> \<open>the loop over \<open>self.tasks.items()\<close> after a session is bound; a raise ends it\<close>
  "persist_session authorizer envs pj runtime [] store = (Inr (), [], store)"
| "persist_session authorizer envs pj runtime (((sid, child), event) # tasks) store =
     (if sid = runtime
      then (case pj_persist authorizer (envs 0) pj event store of
              (Inl err, event', store') \<Rightarrow> (Inl err, ((sid, child), event') # tasks, store')
            | (Inr _, event', store') \<Rightarrow>
                (case persist_session authorizer (envs \<circ> Suc) pj runtime tasks store' of
                   (res, tasks', store'') \<Rightarrow> (res, ((sid, child), event') # tasks', store'')))
      else (case persist_session authorizer envs pj runtime tasks store of
              (res, tasks', store') \<Rightarrow> (res, ((sid, child), event) # tasks', store')))"

section \<open>Observing a response\<close>

definition mk_binding :: "pystr \<Rightarrow> pystr \<Rightarrow> pystr \<Rightarrow> dict" where
  "mk_binding runtime durable profile =
     [(lit ''runtime_session_id'', JStr runtime), (lit ''durable_session_id'', JStr durable),
      (lit ''profile'', JStr profile), (lit ''live'', JBool True)]"

definition reported_profile :: "dict \<Rightarrow> json" where
  "reported_profile result =
     (case jget result ''info'' of JObj info \<Rightarrow> jget info ''profile_name'' | _ \<Rightarrow> JNull)"

definition durable_of :: "dict \<Rightarrow> pystr option" where
  "durable_of result =
     identifier_of (if truthy (jget result ''stored_session_id'')
                    then jget result ''stored_session_id'' else jget result ''session_key'')"

definition pj_bind ::
  "(pystr \<Rightarrow> bool) \<Rightarrow> (nat \<Rightarrow> put_env) \<Rightarrow> pystr \<Rightarrow> pystr \<Rightarrow> pystr \<Rightarrow> projection \<Rightarrow> store_ref
     \<Rightarrow> (recovery_error + unit) \<times> projection \<times> store_ref" where
  \<comment> \<open>a session has been created or resumed\<close>
  "pj_bind authorizer envs runtime durable profile pj store =
     (let bindings = AList.update runtime (mk_binding runtime durable profile) (pj_bindings pj);
          pj1 = pj\<lparr>pj_bindings := od_trim MAX_ROWS bindings,
                   pj_truncated := pj_truncated pj \<or> length bindings > MAX_ROWS\<rparr>
      in case persist_session authorizer envs pj1 runtime (pj_tasks pj1) store of
           (res, tasks, store') \<Rightarrow> (res, pj1\<lparr>pj_tasks := tasks\<rparr>, store'))"

definition observe_response ::
  "(pystr \<Rightarrow> bool) \<Rightarrow> (nat \<Rightarrow> put_env) \<Rightarrow> dict \<Rightarrow> projection \<Rightarrow> store_ref
     \<Rightarrow> (recovery_error + unit) \<times> projection \<times> store_ref" where
  "observe_response authorizer envs v pj store =
     (let rid = jget v ''id''; pj1 = pj\<lparr>pj_pending := AList.delete rid (pj_pending pj)\<rparr> in
      if \<not> (case rid of JStr _ \<Rightarrow> True | JInt _ \<Rightarrow> True | _ \<Rightarrow> False) then (Inr (), pj, store)
      else (case (map_of (pj_pending pj) rid, jget v ''result'') of
              (Some profile, JObj result) \<Rightarrow>
                if truthy (reported_profile result) \<and> reported_profile result \<noteq> JStr profile
                then (Inr (), pj1\<lparr>pj_truncated := True\<rparr>, store)
                else (case (identifier_of (jget result ''session_id''), durable_of result) of
                        (Some runtime, Some durable) \<Rightarrow>
                          if authorizer profile
                          then pj_bind authorizer envs runtime durable profile pj1 store
                          else (Inr (), pj1, store)
                      | _ \<Rightarrow> (Inr (), pj1, store))
            | _ \<Rightarrow> (Inr (), pj1, store)))"

section \<open>Observing an event\<close>

definition SUBAGENT_EVENTS :: "pystr list" where
  "SUBAGENT_EVENTS = map lit [''subagent.start'', ''subagent.progress'', ''subagent.tool'', ''subagent.complete'']"

definition bad_identity :: "dict \<Rightarrow> bool" where
  \<comment> \<open>an identity field that is present and set, but is not an identifier\<close>
  "bad_identity raw \<longleftrightarrow>
     list_ex (\<lambda>k. case map_of raw k of None \<Rightarrow> False | Some v \<Rightarrow> truthy v \<and> identifier_of v = None) IDENTITY_FIELDS"

definition text_field :: "pystr \<times> json \<Rightarrow> dict" where
  "text_field kv =
     (case kv of (k, v) \<Rightarrow>
        (case (map_of TEXT_FIELDS k, v) of (Some n, JStr s) \<Rightarrow> [(k, JStr (take n s))] | _ \<Rightarrow> []))"

definition count_field :: "dict \<Rightarrow> pystr \<Rightarrow> dict \<Rightarrow> dict" where
  "count_field raw k payload =
     (case map_of raw k of
        Some (JInt i) \<Rightarrow> if 0 \<le> i \<and> i \<le> 10000 then AList.update k (JInt i) payload else payload
      | _ \<Rightarrow> payload)"

definition bounded_payload :: "dict \<Rightarrow> dict" where
  "bounded_payload raw = fold (count_field raw) COUNT_FIELDS (concat (map text_field raw))"

definition merge_payload :: "dict \<Rightarrow> dict \<Rightarrow> dict" where
  \<comment> \<open>\<open>merged.update({k: v for k, v in payload.items() if v != ""})\<close>\<close>
  "merge_payload old payload = fold (\<lambda>(k, v). AList.update k v) (filter (\<lambda>(k, v). v \<noteq> JStr []) payload) old"

definition task_event :: "pystr \<Rightarrow> json \<Rightarrow> dict \<Rightarrow> int \<Rightarrow> dict" where
  "task_event runtime kind payload revision =
     [(lit ''jsonrpc'', JStr (lit ''2.0'')), (lit ''method'', JStr (lit ''event'')),
      (lit ''params'', JObj [(lit ''session_id'', JStr runtime), (lit ''type'', kind),
         (lit ''payload'', JObj payload), (lit ''recovery_revision'', JInt revision)])]"

definition record_task ::
  "(pystr \<Rightarrow> bool) \<Rightarrow> put_env \<Rightarrow> pystr \<Rightarrow> json \<Rightarrow> pystr \<Rightarrow> dict \<Rightarrow> projection \<Rightarrow> store_ref
     \<Rightarrow> (recovery_error + unit) \<times> projection \<times> store_ref" where
  \<comment> \<open>\<open>observe\<close> from the lookup of the previous event on\<close>
  "record_task authorizer env runtime kind child payload pj store =
     (let previous = map_of (pj_tasks pj) (runtime, child) in
      if (case previous of None \<Rightarrow> False | Some e \<Rightarrow> ev_terminal e) then (Inr (), pj, store)
      else let merged = merge_payload (case previous of None \<Rightarrow> [] | Some e \<Rightarrow> ev_payload e) payload;
               pj1 = pj\<lparr>pj_revision := pj_revision pj + 1\<rparr>
           in (case pj_persist authorizer env pj1 (task_event runtime kind merged (pj_revision pj1)) store of
                 (Inl err, _, store') \<Rightarrow> (Inl err, pj1, store')
               | (Inr _, event, store') \<Rightarrow>
                   let tasks = od_move_to_end (runtime, child) (AList.update (runtime, child) event (pj_tasks pj1)) in
                   (Inr (), pj1\<lparr>pj_tasks := od_trim MAX_ROWS tasks,
                                pj_truncated := pj_truncated pj1 \<or> length tasks > MAX_ROWS\<rparr>, store')))"

definition observe_event ::
  "(pystr \<Rightarrow> bool) \<Rightarrow> put_env \<Rightarrow> dict \<Rightarrow> projection \<Rightarrow> store_ref
     \<Rightarrow> (recovery_error + unit) \<times> projection \<times> store_ref" where
  "observe_event authorizer env v pj store =
     (case jget v ''params'' of
        JObj params \<Rightarrow>
          if jget v ''method'' \<noteq> JStr (lit ''event'') then (Inr (), pj, store)
          else (case jget params ''type'' of
                  JArr _ \<Rightarrow> (Inl UnhashableType, pj, store)
                | JObj _ \<Rightarrow> (Inl UnhashableType, pj, store)
                | JStr kind \<Rightarrow>
                    (case (kind \<in> set SUBAGENT_EVENTS, identifier_of (jget params ''session_id''), jget params ''payload'') of
                       (True, Some runtime, JObj raw) \<Rightarrow>
                         if bad_identity raw then (Inr (), pj\<lparr>pj_truncated := True\<rparr>, store)
                         else (case child_key (bounded_payload raw) of
                                 None \<Rightarrow> (Inr (), pj, store)
                               | Some child \<Rightarrow>
                                   record_task authorizer env runtime (JStr kind) child (bounded_payload raw) pj store)
                     | _ \<Rightarrow> (Inr (), pj, store))
                | _ \<Rightarrow> (Inr (), pj, store))
      | _ \<Rightarrow> (Inr (), pj, store))"

definition pj_observe ::
  "nat \<Rightarrow> (pystr \<Rightarrow> bool) \<Rightarrow> (nat \<Rightarrow> put_env) \<Rightarrow> pystr \<Rightarrow> projection \<Rightarrow> store_ref
     \<Rightarrow> (recovery_error + unit) \<times> projection \<times> store_ref" where
  "pj_observe recursion_limit authorizer envs t pj store =
     (case loads_strict recursion_limit t of
        Some (JObj v) \<Rightarrow>
          if \<not> jhas v ''method'' then observe_response authorizer envs v pj store
          else observe_event authorizer (envs 0) v pj store
      | _ \<Rightarrow> (Inr (), pj, store))"

section \<open>The snapshot sent to a reattaching device\<close>

definition event_key :: "dict \<Rightarrow> json \<times> json \<times> pystr option" where
  "event_key e =
     (let p = ev_params e; b = dict_of (jget_or p ''recovery_binding'' (JObj [])) in
      (jget b ''profile'', jget_or b ''durable_session_id'' (jget p ''session_id''), child_key (ev_payload e)))"

definition binding_hidden :: "(pystr \<Rightarrow> bool) \<Rightarrow> dict \<Rightarrow> bool" where
  "binding_hidden authorizer b \<longleftrightarrow> b \<noteq> [] \<and>
     \<not> (case jget b ''profile'' of JStr p \<Rightarrow> authorizer p | _ \<Rightarrow> False)"

definition merge_task ::
  "(pystr \<Rightarrow> bool) \<Rightarrow> dict \<Rightarrow> (json \<times> json \<times> pystr option, dict) odict \<Rightarrow> (json \<times> json \<times> pystr option, dict) odict" where
  "merge_task authorizer event rows =
     (if binding_hidden authorizer (ev_binding event) then rows
      else if (case map_of rows (event_key event) of
                 None \<Rightarrow> False | Some prior \<Rightarrow> ev_terminal prior \<and> \<not> ev_terminal event) then rows
      else AList.update (event_key event) event rows)"

fun fit_tasks :: "bool \<Rightarrow> dict list \<Rightarrow> bool \<times> dict list" where
  \<comment> \<open>\<open>while len(json.dumps(tasks).encode()) > MAX_SNAPSHOT_BYTES\<close>; \<open>[]\<close> is two bytes\<close>
  "fit_tasks truncated [] = (truncated, [])"
| "fit_tasks truncated (t # ts) =
     (if int (length (dumps_ascii (JArr (map JObj (t # ts))))) > MAX_SNAPSHOT_BYTES
      then fit_tasks True ts else (truncated, t # ts))"

definition binding_id :: "dict \<Rightarrow> json \<times> json \<times> json" where
  "binding_id b = (jget b ''runtime_session_id'', jget b ''durable_session_id'', jget b ''profile'')"

definition snapshot_bindings :: "(pystr \<Rightarrow> bool) \<Rightarrow> dict list \<Rightarrow> projection \<Rightarrow> dict list" where
  "snapshot_bindings authorizer tasks pj =
     (let from_tasks = fold (\<lambda>b. AList.update (binding_id b) b) (filter (\<lambda>b. b \<noteq> []) (map ev_binding tasks)) [];
          all = fold (\<lambda>b. AList.update (binding_id b) b)
                  (filter (\<lambda>b. case jget b ''profile'' of JStr p \<Rightarrow> authorizer p | _ \<Rightarrow> False)
                     (map snd (pj_bindings pj))) from_tasks
      in last_n MAX_ROWS (map snd all))"

definition pj_snapshot ::
  "int \<Rightarrow> (pystr \<Rightarrow> bool) \<Rightarrow> projection \<Rightarrow> store_ref \<Rightarrow> dict \<times> store_ref" where
  "pj_snapshot now authorizer pj store =
     (let ((historical, truncated), store') =
            (case store of
               None \<Rightarrow> (([], False), None)
             | Some st \<Rightarrow> (case store_snapshot now (pj_scope pj) authorizer st of (s, st') \<Rightarrow> (s, Some st')));
          rows = fold (merge_task authorizer) (map snd (pj_tasks pj))
                   (fold (\<lambda>e. AList.update (event_key e) e) historical []);
          (truncated', tasks) = fit_tasks truncated (last_n MAX_ROWS (map snd rows))
      in ([(lit ''task_snapshot'', JArr (map JObj tasks)),
           (lit ''bindings'', JArr (map JObj (snapshot_bindings authorizer tasks pj))),
           (lit ''snapshot_complete'', JBool False),
           (lit ''snapshot_truncated'', JBool (pj_truncated pj \<or> truncated' \<or> length rows > MAX_ROWS))],
          store'))"

section \<open>Every sequence of operations\<close>

datatype pj_op =
    PjRequest "pystr \<Rightarrow> bool" json
  | PjObserve nat "pystr \<Rightarrow> bool" "nat \<Rightarrow> put_env" pystr
  | PjStore store_op               \<comment> \<open>another lease uses the shared store\<close>

fun pj_step :: "pj_op \<Rightarrow> projection \<times> store_ref \<Rightarrow> projection \<times> store_ref" where
  "pj_step (PjRequest authorizer v) (pj, store) = (pj_request authorizer v pj, store)"
| "pj_step (PjObserve limit authorizer envs t) (pj, store) = snd (pj_observe limit authorizer envs t pj store)"
| "pj_step (PjStore op) (pj, store) = (pj, map_option (store_step op) store)"

definition asks_for :: "json \<Rightarrow> pystr \<Rightarrow> bool" where
  \<comment> \<open>a request to create or resume a session of profile \<open>p\<close>\<close>
  "asks_for v p \<longleftrightarrow>
     (case v of
        JObj req \<Rightarrow>
          (jget req ''method'' = JStr (lit ''session.create'') \<or> jget req ''method'' = JStr (lit ''session.resume''))
          \<and> (case jget_or req ''params'' (JObj []) of JObj params \<Rightarrow> jget params ''profile'' = JStr p | _ \<Rightarrow> False)
      | _ \<Rightarrow> False)"

fun op_grants :: "pj_op \<Rightarrow> pystr \<Rightarrow> bool" where
  "op_grants (PjRequest authorizer v) p \<longleftrightarrow> asks_for v p \<and> authorizer p"
| "op_grants _ p \<longleftrightarrow> False"

definition payload_ok :: "dict \<Rightarrow> bool" where
  "payload_ok e \<longleftrightarrow> list_all payload_field_ok (ev_payload e)"

definition rows_ok :: "recovery_store \<Rightarrow> bool" where
  "rows_ok st \<longleftrightarrow> (\<forall>r \<in> set (rs_rows st). payload_ok (row_event r))"

fun op_clean :: "pj_op \<Rightarrow> bool" where
  "op_clean (PjStore (OpPut env scope event)) \<longleftrightarrow> payload_ok event"
| "op_clean _ \<longleftrightarrow> True"

definition is_id :: "pystr \<Rightarrow> bool" where
  "is_id s \<longleftrightarrow> 0 < length s \<and> length s \<le> 128"

definition binding_ok :: "(pystr \<Rightarrow> bool) \<Rightarrow> pystr \<times> dict \<Rightarrow> bool" where
  "binding_ok granted rb \<longleftrightarrow>
     (\<exists>durable profile. snd rb = mk_binding (fst rb) durable profile
        \<and> is_id (fst rb) \<and> is_id durable \<and> is_id profile \<and> granted profile)"

definition pj_inv :: "(pystr \<Rightarrow> bool) \<Rightarrow> projection \<times> store_ref \<Rightarrow> bool" where
  "pj_inv granted s \<longleftrightarrow>
     (case s of (pj, store) \<Rightarrow>
        length (pj_pending pj) \<le> MAX_ROWS \<and> length (pj_bindings pj) \<le> MAX_ROWS \<and> length (pj_tasks pj) \<le> MAX_ROWS
        \<and> (\<forall>(rid, p) \<in> set (pj_pending pj). is_id p \<and> granted p)
        \<and> (\<forall>rb \<in> set (pj_bindings pj). binding_ok granted rb)
        \<and> (\<forall>(k, e) \<in> set (pj_tasks pj). payload_ok e)
        \<and> (case store of None \<Rightarrow> True | Some st \<Rightarrow> rows_ok st))"

subsection \<open>Payloads stay bounded\<close>

lemma identifier_of_iff: "identifier_of v = Some s \<longleftrightarrow> v = JStr s \<and> is_id s"
  by (auto simp: identifier_of_def is_id_def split: json.splits)

lemma ev_params_set [simp]: "ev_params (ev_set k v e) = jset k v (ev_params e)"
  by (simp add: ev_params_def ev_set_def)

lemma ev_payload_set [simp]: "ev_payload (ev_set k v e) = (if k = ''payload'' then dict_of v else ev_payload e)"
  by (simp add: ev_payload_def)

lemma payload_ok_set [simp]:
  "payload_ok (ev_set k v e) \<longleftrightarrow> (if k = ''payload'' then list_all payload_field_ok (dict_of v) else payload_ok e)"
  by (simp add: payload_ok_def)

lemma payload_ok_stamped [simp]: "payload_ok (stamped r e) = payload_ok e"
  by (simp add: stamped_def)

lemma rows_ok_subset: "rows_ok st \<Longrightarrow> set (rs_rows st') \<subseteq> set (rs_rows st) \<Longrightarrow> rows_ok st'"
  by (auto simp: rows_ok_def)

lemma rows_ok_prune: "rows_ok st \<Longrightarrow> rows_ok (prune now st)"
  by (rule rows_ok_subset [OF _ prune_subset])

lemma rows_ok_save:
  assumes "rows_ok st" and "save now write_ok st = (r, st')"
  shows "rows_ok st'"
proof -
  have "set (rs_rows st') \<subseteq> set (rs_rows (prune now st))"
    using save_cases [OF assms(2)] by (metis set_drop_subset)
  then show ?thesis by (rule rows_ok_subset [OF rows_ok_prune [OF assms(1)]])
qed

lemma store_put_payloads:
  assumes "rows_ok st" and "payload_ok event" and "store_put env scope event st = (res, event', st')"
  shows "payload_ok event' \<and> rows_ok st'"
proof (cases rule: store_put_cases [of scope event env st])
  case (Terminal prior)
  have "payload_ok (row_event prior)"
    using terminal_row_Some [OF Terminal(1)] rows_ok_prune [OF assms(1)] by (auto simp: rows_ok_def)
  then show ?thesis using Terminal(2) assms(3) rows_ok_prune [OF assms(1)] by (auto simp: payload_ok_def)
next
  case (Stored st1 rows)
  have "rows_ok ((prune (pv_now_prune env) st)\<lparr>rs_revision := rs_revision st + 1, rs_rows := rows\<rparr>)"
    using rows_ok_prune [OF assms(1), of "pv_now_prune env"] assms(2) by (auto simp: rows_ok_def Stored(4))
  then have "rows_ok st1" using rows_ok_save Stored(5) by blast
  then show ?thesis using Stored(2) assms(2,3) by simp
next
  case Failed
  then show ?thesis using assms by simp
qed

lemma store_step_payloads:
  assumes "rows_ok st" and "op_clean (PjStore op)"
  shows "rows_ok (store_step op st)"
proof (cases op)
  case (OpPut env scope event)
  then show ?thesis using store_put_payloads [of st event env scope] assms by (cases "store_put env scope event st") auto
next
  case (OpSnapshot now scope authorizer)
  then show ?thesis using rows_ok_prune [OF assms(1)] by (simp add: store_snapshot_def Let_def)
next
  case (OpRevoke now write_ok installation device)
  obtain r st' where sv: "save now write_ok
      (st\<lparr>rs_rows := filter (\<lambda>r. \<not> of_device installation device r) (rs_rows st)\<rparr>) = (r, st')" by fastforce
  have "rows_ok (st\<lparr>rs_rows := filter (\<lambda>r. \<not> of_device installation device r) (rs_rows st)\<rparr>)"
    using assms(1) by (rule rows_ok_subset) auto
  then show ?thesis using rows_ok_save [OF _ sv] OpRevoke sv by (simp add: store_revoke_def)
qed

definition store_ok :: "store_ref \<Rightarrow> bool" where
  "store_ok store \<longleftrightarrow> (case store of None \<Rightarrow> True | Some st \<Rightarrow> rows_ok st)"

lemma store_ok_simps [simp]: "store_ok None" "store_ok (Some st) = rows_ok st"
  by (simp_all add: store_ok_def)

lemma pj_persist_payloads:
  assumes "pj_persist authorizer env pj event store = (res, event', store')"
    and "payload_ok event" and "store_ok store"
  shows "payload_ok event' \<and> store_ok store'"
proof -
  have put: "payload_ok e2 \<and> rows_ok st2" if "store_put env (pj_scope pj) e1 st = (r, e2, st2)" "rows_ok st" "payload_ok e1"
    for e1 e2 st st2 r
    using store_put_payloads [OF that(2,3,1)] .
  show ?thesis using assms
    by (auto simp: pj_persist_def Let_def split: json.splits option.splits if_splits sum.splits prod.splits
        dest!: put)
qed

lemma persist_session_payloads:
  "persist_session authorizer envs pj runtime tasks store = (res, tasks', store') \<Longrightarrow>
     \<forall>(k, e) \<in> set tasks. payload_ok e \<Longrightarrow> store_ok store \<Longrightarrow>
     (\<forall>(k, e) \<in> set tasks'. payload_ok e) \<and> store_ok store' \<and> length tasks' = length tasks"
proof (induction authorizer envs pj runtime tasks store arbitrary: res tasks' store' rule: persist_session.induct)
  case (2 authorizer envs pj runtime sid child event tasks store)
  show ?case
  proof (cases "sid = runtime")
    case True
    obtain r e1 st1 where p: "pj_persist authorizer (envs 0) pj event store = (r, e1, st1)" by (cases "pj_persist authorizer (envs 0) pj event store")
    have ok: "payload_ok e1" "store_ok st1" using pj_persist_payloads [OF p] "2.prems" by auto
    show ?thesis
    proof (cases r)
      case (Inl err)
      then show ?thesis using "2.prems" True p ok by auto
    next
      case (Inr u)
      obtain r2 ts st2 where q: "persist_session authorizer (envs \<circ> Suc) pj runtime tasks st1 = (r2, ts, st2)"
        by (cases "persist_session authorizer (envs \<circ> Suc) pj runtime tasks st1")
      have "(\<forall>(k, e) \<in> set ts. payload_ok e) \<and> store_ok st2 \<and> length ts = length tasks"
        by (rule "2.IH"(1) [OF True p [symmetric] Inr refl q]) (use "2.prems" ok in auto)
      then show ?thesis using "2.prems" True p q Inr ok by auto
    qed
  next
    case False
    obtain r2 ts st2 where q: "persist_session authorizer envs pj runtime tasks store = (r2, ts, st2)"
      by (cases "persist_session authorizer envs pj runtime tasks store")
    have "(\<forall>(k, e) \<in> set ts. payload_ok e) \<and> store_ok st2 \<and> length ts = length tasks"
      by (rule "2.IH"(2) [OF False q]) (use "2.prems" in auto)
    then show ?thesis using "2.prems" False q by auto
  qed
qed auto

lemma text_field_ok: "kv \<in> set (text_field x) \<Longrightarrow> payload_field_ok kv"
  by (cases x; cases "map_of TEXT_FIELDS (fst x)"; cases "snd x") (auto simp: text_field_def payload_field_ok_def)

lemma count_field_ok:
  assumes "list_all payload_field_ok payload" and "k \<in> set COUNT_FIELDS"
  shows "list_all payload_field_ok (count_field raw k payload)"
proof -
  show ?thesis
  proof (cases "\<exists>i. map_of raw k = Some (JInt i) \<and> 0 \<le> i \<and> i \<le> 10000")
    case True
    then obtain i where i: "map_of raw k = Some (JInt i)" "0 \<le> i" "i \<le> 10000" by blast
    then have "payload_field_ok (k, JInt i)" using assms(2) by (simp add: payload_field_ok_def)
    then show ?thesis using i assms(1) set_update_subset [of k "JInt i" payload]
      by (auto simp: list_all_iff count_field_def)
  next
    case False
    then have "count_field raw k payload = payload"
      by (auto simp: count_field_def split: option.splits json.splits)
    with assms(1) show ?thesis by simp
  qed
qed

lemma fold_keeps: "(\<And>x a. x \<in> set xs \<Longrightarrow> P a \<Longrightarrow> P (f x a)) \<Longrightarrow> P a \<Longrightarrow> P (fold f xs a)"
  by (induction xs arbitrary: a) auto

lemma bounded_payload_ok: "list_all payload_field_ok (bounded_payload raw)"
  unfolding bounded_payload_def
proof (rule fold_keeps)
  show "list_all payload_field_ok (concat (map text_field raw))"
    using text_field_ok by (fastforce simp: list_all_iff)
qed (rule count_field_ok)

lemma merge_payload_ok:
  assumes "list_all payload_field_ok old" and "list_all payload_field_ok payload"
  shows "list_all payload_field_ok (merge_payload old payload)"
  unfolding merge_payload_def
proof (rule fold_keeps)
  fix x a
  assume "x \<in> set (filter (\<lambda>(k, v). v \<noteq> JStr []) payload)" and a: "list_all payload_field_ok a"
  then have "payload_field_ok x" using assms(2) by (auto simp: list_all_iff)
  then show "list_all payload_field_ok ((\<lambda>(k, v). AList.update k v) x a)"
    using a set_update_subset [of "fst x" "snd x" a] by (auto simp: list_all_iff case_prod_beta)
qed (rule assms(1))

subsection \<open>The invariant\<close>

lemma pj_inv_alt:
  "pj_inv granted (pj, store) \<longleftrightarrow>
     length (pj_pending pj) \<le> MAX_ROWS \<and> length (pj_bindings pj) \<le> MAX_ROWS \<and> length (pj_tasks pj) \<le> MAX_ROWS
     \<and> (\<forall>(rid, p) \<in> set (pj_pending pj). is_id p \<and> granted p)
     \<and> (\<forall>rb \<in> set (pj_bindings pj). binding_ok granted rb)
     \<and> (\<forall>(k, e) \<in> set (pj_tasks pj). payload_ok e) \<and> store_ok store"
  by (simp add: pj_inv_def store_ok_def)

lemma set_trim_update: "set (od_trim n (AList.update k v d)) \<subseteq> insert (k, v) (set d)"
  using set_od_trim set_update_subset by fast

lemma identifier_of_JStr [simp]: "is_id s \<Longrightarrow> identifier_of (JStr s) = Some s"
  by (simp add: identifier_of_iff)

lemma pj_request_cases:
  obtains (quiet) "pj_request authorizer v pj = pj"
  | (granted) rid p truncated where "asks_for v p" "authorizer p" "is_id p"
      "pj_request authorizer v pj =
         pj\<lparr>pj_pending := od_trim MAX_ROWS (AList.update rid p (pj_pending pj)), pj_truncated := truncated\<rparr>"
proof (cases "\<exists>req params p. v = JObj req \<and> jget_or req ''params'' (JObj []) = JObj params
      \<and> (jget req ''method'' = JStr (lit ''session.create'') \<or> jget req ''method'' = JStr (lit ''session.resume''))
      \<and> request_id_ok (jget req ''id'') \<and> jget params ''profile'' = JStr p \<and> is_id p \<and> authorizer p")
  case True
  then obtain req params p where v: "v = JObj req" "jget_or req ''params'' (JObj []) = JObj params"
    "jget req ''method'' = JStr (lit ''session.create'') \<or> jget req ''method'' = JStr (lit ''session.resume'')"
    "request_id_ok (jget req ''id'')" "jget params ''profile'' = JStr p" "is_id p" "authorizer p" by blast
  then have "asks_for v p" by (simp add: asks_for_def)
  moreover have "\<exists>t. pj_request authorizer v pj =
      pj\<lparr>pj_pending := od_trim MAX_ROWS (AList.update (jget req ''id'') p (pj_pending pj)), pj_truncated := t\<rparr>"
    using v by (auto simp: pj_request_def Let_def)
  ultimately show thesis using granted v by blast
next
  case False
  then have "pj_request authorizer v pj = pj"
    by (auto simp: pj_request_def Let_def identifier_of_iff split: json.splits option.splits bool.splits)
  then show thesis by (rule quiet)
qed

lemma pj_request_inv:
  assumes "pj_inv granted (pj, store)" and "\<forall>p. asks_for v p \<and> authorizer p \<longrightarrow> granted p"
  shows "pj_inv granted (pj_request authorizer v pj, store)"
proof (cases rule: pj_request_cases [of authorizer v pj])
  case quiet
  with assms(1) show ?thesis by simp
next
  case p: (granted rid p truncated)
  have "granted p" using assms(2) p by blast
  then have "\<forall>(rid, p) \<in> set (pj_pending (pj_request authorizer v pj)). is_id p \<and> granted p"
    using assms(1) p(3) set_trim_update [of MAX_ROWS rid p "pj_pending pj"]
    unfolding p(4) pj_inv_alt by simp blast
  then show ?thesis using assms(1) p(4) by (simp add: pj_inv_alt)
qed

lemma pj_bind_inv:
  assumes "pj_inv granted (pj, store)" and "is_id runtime" and "is_id durable" and "is_id profile" and "granted profile"
    and "pj_bind authorizer envs runtime durable profile pj store = (res, pj', store')"
  shows "pj_inv granted (pj', store')"
proof -
  let ?b = "AList.update runtime (mk_binding runtime durable profile) (pj_bindings pj)"
  let ?pj1 = "pj\<lparr>pj_bindings := od_trim MAX_ROWS ?b, pj_truncated := pj_truncated pj \<or> length ?b > MAX_ROWS\<rparr>"
  obtain r tasks st where q: "persist_session authorizer envs ?pj1 runtime (pj_tasks pj) store = (r, tasks, st)"
    by (cases "persist_session authorizer envs ?pj1 runtime (pj_tasks pj) store")
  have t: "(\<forall>(k, e) \<in> set tasks. payload_ok e) \<and> store_ok st \<and> length tasks = length (pj_tasks pj)"
    by (rule persist_session_payloads [OF q]) (use assms(1) in \<open>auto simp: pj_inv_alt\<close>)
  have "binding_ok granted (runtime, mk_binding runtime durable profile)"
    using assms(2-5) by (auto simp: binding_ok_def)
  then have b: "\<forall>rb \<in> set (od_trim MAX_ROWS ?b). binding_ok granted rb"
    using assms(1) set_trim_update [of MAX_ROWS runtime _ "pj_bindings pj"] unfolding pj_inv_alt by blast
  have "pj' = ?pj1\<lparr>pj_tasks := tasks\<rparr>" "store' = st"
    using assms(6) q by (auto simp: pj_bind_def Let_def)
  then show ?thesis using t b assms(1) by (simp add: pj_inv_alt)
qed

lemma pj_inv_forget:
  "pj_inv granted (pj, store) \<Longrightarrow>
     pj_inv granted (pj\<lparr>pj_pending := AList.delete rid (pj_pending pj)\<rparr>, store)"
  using set_delete_subset [of rid "pj_pending pj"] length_delete_le [of rid "pj_pending pj"]
  by (fastforce simp: pj_inv_alt)

lemma pj_inv_truncated [simp]:
  "pj_inv granted (pj\<lparr>pj_truncated := t\<rparr>, store) = pj_inv granted (pj, store)"
  "pj_inv granted (pj\<lparr>pj_revision := n\<rparr>, store) = pj_inv granted (pj, store)"
  by (simp_all add: pj_inv_alt)

lemma observe_response_inv:
  assumes "pj_inv granted (pj, store)"
    and "observe_response authorizer envs v pj store = (res, pj', store')"
  shows "pj_inv granted (pj', store')"
proof -
  let ?pj1 = "pj\<lparr>pj_pending := AList.delete (jget v ''id'') (pj_pending pj)\<rparr>"
  note forget = pj_inv_forget [OF assms(1), of "jget v ''id''"]
  consider (quiet) "pj' \<in> {pj, ?pj1, ?pj1\<lparr>pj_truncated := True\<rparr>}" "store' = store"
    | (bound) runtime durable profile where "map_of (pj_pending pj) (jget v ''id'') = Some profile"
        "is_id runtime" "is_id durable"
        "pj_bind authorizer envs runtime durable profile ?pj1 store = (res, pj', store')"
    using assms(2)
    by (auto simp: observe_response_def Let_def identifier_of_iff durable_of_def
        split: json.splits if_splits option.splits)
  then show ?thesis
  proof cases
    case quiet
    then show ?thesis using assms(1) forget by auto
  next
    case bound
    have "is_id profile \<and> granted profile"
      using assms(1) map_of_SomeD [OF bound(1)] unfolding pj_inv_alt by blast
    then show ?thesis using pj_bind_inv [OF forget bound(2,3) _ _ bound(4)] by blast
  qed
qed

lemma record_task_inv:
  assumes "pj_inv granted (pj, store)" and "list_all payload_field_ok payload"
    and "record_task authorizer env runtime kind child payload pj store = (res, pj', store')"
  shows "pj_inv granted (pj', store')"
proof (cases "case map_of (pj_tasks pj) (runtime, child) of None \<Rightarrow> False | Some e \<Rightarrow> ev_terminal e")
  case True
  then show ?thesis using assms by (simp add: record_task_def Let_def)
next
  case False
  let ?old = "case map_of (pj_tasks pj) (runtime, child) of None \<Rightarrow> [] | Some e \<Rightarrow> ev_payload e"
  let ?pj1 = "pj\<lparr>pj_revision := pj_revision pj + 1\<rparr>"
  let ?e = "task_event runtime kind (merge_payload ?old payload) (pj_revision pj + 1)"
  have "list_all payload_field_ok ?old"
    using assms(1) by (auto simp: pj_inv_alt payload_ok_def dest!: map_of_SomeD split: option.splits)
  then have e: "payload_ok ?e"
    using merge_payload_ok [OF _ assms(2)]
    by (simp add: payload_ok_def ev_payload_def ev_params_def task_event_def jget_def)
  obtain r event st where p: "pj_persist authorizer env ?pj1 ?e store = (r, event, st)"
    by (cases "pj_persist authorizer env ?pj1 ?e store")
  have ok: "payload_ok event" "store_ok st"
    using pj_persist_payloads [OF p e] assms(1) by (auto simp: pj_inv_alt)
  let ?tasks = "od_move_to_end (runtime, child) (AList.update (runtime, child) event (pj_tasks pj))"
  have "set (od_trim MAX_ROWS ?tasks) \<subseteq> insert ((runtime, child), event) (set (pj_tasks pj))"
    using set_od_trim set_move_to_end set_update_subset by fast
  then have tasks: "\<forall>(k, e) \<in> set (od_trim MAX_ROWS ?tasks). payload_ok e"
    using ok(1) assms(1) unfolding pj_inv_alt by blast
  show ?thesis
  proof (cases r)
    case (Inl err)
    then show ?thesis using assms(1,3) False p ok(2) by (auto simp: record_task_def Let_def pj_inv_alt)
  next
    case (Inr u)
    then have "pj' = ?pj1\<lparr>pj_tasks := od_trim MAX_ROWS ?tasks,
        pj_truncated := pj_truncated pj \<or> length ?tasks > MAX_ROWS\<rparr>" "store' = st"
      using assms(3) False p by (auto simp: record_task_def Let_def)
    then show ?thesis using tasks ok(2) assms(1) by (simp add: pj_inv_alt)
  qed
qed

lemma observe_event_inv:
  assumes "pj_inv granted (pj, store)"
    and "observe_event authorizer env v pj store = (res, pj', store')"
  shows "pj_inv granted (pj', store')"
proof -
  consider (quiet) "pj' \<in> {pj, pj\<lparr>pj_truncated := True\<rparr>}" "store' = store"
    | (task) runtime kind child raw where
        "record_task authorizer env runtime kind child (bounded_payload raw) pj store = (res, pj', store')"
    using assms(2) by (auto simp: observe_event_def split: json.splits if_splits option.splits bool.splits)
  then show ?thesis
  proof cases
    case quiet
    then show ?thesis using assms(1) by auto
  next
    case task
    then show ?thesis by (rule record_task_inv [OF assms(1) bounded_payload_ok])
  qed
qed

lemma pj_step_inv:
  assumes "pj_inv granted s" and "op_clean op" and "\<forall>p. op_grants op p \<longrightarrow> granted p"
  shows "pj_inv granted (pj_step op s)"
proof -
  obtain pj store where s: "s = (pj, store)" by (cases s)
  show ?thesis
  proof (cases op)
    case (PjRequest authorizer v)
    then show ?thesis using pj_request_inv [of granted pj store v authorizer] assms s by simp
  next
    case (PjObserve limit authorizer envs t)
    obtain res pj' store' where o: "pj_observe limit authorizer envs t pj store = (res, pj', store')"
      by (cases "pj_observe limit authorizer envs t pj store")
    consider "pj' = pj" "store' = store"
      | v where "observe_response authorizer envs v pj store = (res, pj', store')"
      | v where "observe_event authorizer (envs 0) v pj store = (res, pj', store')"
      using o by (auto simp: pj_observe_def split: option.splits json.splits if_splits)
    then have "pj_inv granted (pj', store')"
      using observe_response_inv observe_event_inv assms(1) unfolding s by cases blast+
    then show ?thesis using PjObserve s o by simp
  next
    case (PjStore op1)
    then show ?thesis using assms s store_step_payloads
      by (cases store) (auto simp: pj_inv_alt)
  qed
qed

interpretation proj: guarded_component
  "\<lambda>s. \<exists>profile scope store. s = (new_projection profile scope, store) \<and> store_ok store"
  pj_step "\<lambda>op. op_clean op \<and> (\<forall>p. op_grants op p \<longrightarrow> granted p)" "pj_inv granted" for granted
  by unfold_locales (auto simp: pj_inv_alt new_projection_def MAX_ROWS_def intro: pj_step_inv)

end
