(* ===== verification/Lease_Recovery_Props.thy ===== *)
theory Lease_Recovery_Props
  imports Lease_Recovery
begin

text \<open>
  What the recovery store promises: terminal evidence survives every later write, a failed
  write changes nothing, what was written is what the next start reads, a revoked device
  leaves no row behind, and a snapshot shows a device its own rows only.
\<close>

section \<open>Terminal rows\<close>

lemma find_row_stays:
  assumes "rs_inv st'" and "\<And>x. x \<in> set (rs_rows st') \<Longrightarrow> row_key x = row_key r \<Longrightarrow> x \<in> set (rs_rows st)"
    and "rs_inv st" and "r \<in> set (rs_rows st)"
  shows "find_row (row_key r) (rs_rows st') \<in> {None, Some r}"
proof (cases "find_row (row_key r) (rs_rows st')")
  case (Some x)
  then have x: "x \<in> set (rs_rows st)" "row_key x = row_key r" using assms(2) find_row_Some by blast+
  have d: "distinct (map row_key (rs_rows st))" using assms(3) by (simp add: rs_inv_def)
  have "find_row (row_key r) (rs_rows st) = Some x" using find_row_unique [OF d x(1)] x(2) by simp
  then have "x = r" using find_row_unique [OF d assms(4)] by simp
  with Some show ?thesis by simp
qed simp

lemma terminal_row_found:
  assumes "rs_inv st" and "r \<in> set (rs_rows st)" and "ev_terminal (row_event r)"
    and "of_int now < row_expires r"
  shows "terminal_row (row_key r) (rs_rows (prune now st)) = Some r"
proof -
  have "r \<in> set (rs_rows (prune now st))" using assms by (simp add: prune_rows rs_inv_def)
  moreover have "distinct (map row_key (rs_rows (prune now st)))"
    using assms(1) by (simp add: rs_inv_def prune_distinct)
  ultimately have "find_row (row_key r) (rs_rows (prune now st)) = Some r" by (rule find_row_unique [rotated])
  then show ?thesis using assms(3) by (simp add: terminal_row_def)
qed

lemma store_put_rows:
  assumes "rs_inv st" and "r \<in> set (rs_rows st)" and "ev_terminal (row_event r)"
    and "of_int (pv_now_prune env) < row_expires r"
    and "x \<in> set (rs_rows (snd (snd (store_put env scope event st))))" and "row_key x = row_key r"
  shows "x \<in> set (rs_rows st)"
proof (cases rule: store_put_cases [of scope event env st])
  case (Terminal prior)
  then show ?thesis using assms(5) prune_subset by fastforce
next
  case (Stored st' rows)
  have "put_key scope event \<noteq> row_key r"
    using terminal_row_found [OF assms(1-4)] Stored(1) by auto
  moreover have "x \<in> set rows"
    using save_cases [OF Stored(5)] Stored(2) assms(5) prune_subset in_set_dropD by fastforce
  ultimately show ?thesis
    using assms(6) Stored(4) prune_subset [of "pv_now_prune env" st] by auto
next
  case Failed
  then show ?thesis using assms(5) by simp
qed

lemma store_step_terminal:
  assumes "rs_inv st" and "r \<in> set (rs_rows st)" and "ev_terminal (row_event r)"
    and "\<forall>now \<in> op_clock op. of_int now < row_expires r"
  shows "find_row (row_key r) (rs_rows (store_step op st)) \<in> {None, Some r}"
proof (rule find_row_stays [OF store_step_inv [OF assms(1)] _ assms(1,2)])
  fix x
  assume x: "x \<in> set (rs_rows (store_step op st))" "row_key x = row_key r"
  show "x \<in> set (rs_rows st)"
  proof (cases op)
    case (OpPut env scope event)
    then show ?thesis using store_put_rows [OF assms(1-3), of env x scope event] assms(4) x by simp
  next
    case (OpSnapshot now scope authorizer)
    then show ?thesis using x prune_subset by (fastforce simp: store_snapshot_def Let_def)
  next
    case (OpRevoke now write_ok installation device)
    obtain res st' where sv: "save now write_ok
        (st\<lparr>rs_rows := filter (\<lambda>r. \<not> of_device installation device r) (rs_rows st)\<rparr>) = (res, st')"
      by fastforce
    have "set (rs_rows st') \<subseteq> set (rs_rows st)"
      using save_keeps_inv [OF sv] assms(1) by (auto simp: rs_inv_def distinct_map_filter)
    then show ?thesis using x OpRevoke sv by (auto simp: store_revoke_def)
  qed
qed

lemma terminal_run:
  assumes "rs_inv st" and "r \<in> set (rs_rows st)" and "ev_terminal (row_event r)"
    and "\<forall>op \<in> set ops. \<forall>now \<in> op_clock op. of_int now < row_expires r"
    and "\<forall>us vs. ops = us @ vs \<longrightarrow> find_row (row_key r) (rs_rows (fold store_step us st)) \<noteq> None"
  shows "find_row (row_key r) (rs_rows (fold store_step ops st)) = Some r"
  using assms
proof (induction ops arbitrary: st)
  case Nil
  then show ?case by (simp add: find_row_unique rs_inv_def)
next
  case (Cons op ops)
  have "find_row (row_key r) (rs_rows (store_step op st)) \<noteq> None"
    using Cons.prems(5) by (auto dest: spec [of _ "[op]"])
  then have f: "find_row (row_key r) (rs_rows (store_step op st)) = Some r"
    using store_step_terminal [OF Cons.prems(1-3), of op] Cons.prems(4) by auto
  have "find_row (row_key r) (rs_rows (fold store_step ops (store_step op st))) = Some r"
  proof (rule Cons.IH)
    show "\<forall>us vs. ops = us @ vs \<longrightarrow> find_row (row_key r) (rs_rows (fold store_step us (store_step op st))) \<noteq> None"
      using Cons.prems(5) by (metis append_Cons fold_simps(2))
    show "r \<in> set (rs_rows (store_step op st))" using find_row_Some [OF f] by simp
    show "rs_inv (store_step op st)" by (rule store_step_inv [OF Cons.prems(1)])
  qed (use Cons.prems(3,4) in simp_all)
  then show ?case by simp
qed

text \<open>
  C23. Terminal evidence is final. Take a store in which a child task is recorded with a
  terminal status, and any sequence of writes, snapshots and revocations, by any lease, no
  clock reading of which reaches the row's expiry. As long as the row has not been evicted
  or revoked it is unchanged at the end, and a further write for the same task answers with
  the recorded revision, hands the caller the recorded payload, and leaves the row alone.
\<close>

theorem terminal_evidence_is_final:
  assumes "rs_inv st" and "r \<in> set (rs_rows st)" and "ev_terminal (row_event r)"
    and "\<forall>op \<in> set ops. \<forall>now \<in> op_clock op. of_int now < row_expires r"
    and "\<forall>us vs. ops = us @ vs \<longrightarrow> find_row (row_key r) (rs_rows (fold store_step us st)) \<noteq> None"
    and "put_key scope event = row_key r" and "of_int (pv_now_prune env) < row_expires r"
  shows "find_row (row_key r) (rs_rows (fold store_step ops st)) = Some r
    \<and> (case store_put env scope event (fold store_step ops st) of (res, event', st') \<Rightarrow>
         res = Inr (ev_revision (row_event r)) \<and> ev_payload event' = ev_payload (row_event r)
         \<and> find_row (row_key r) (rs_rows st') = Some r)"
proof -
  have inv: "rs_inv (fold store_step ops st)" by (rule rstore.inv_run [OF assms(1)])
  have f: "find_row (row_key r) (rs_rows (fold store_step ops st)) = Some r"
    by (rule terminal_run [OF assms(1-5)])
  then have r: "r \<in> set (rs_rows (fold store_step ops st))" using find_row_Some by blast
  note t = terminal_row_found [OF inv r assms(3,7)]
  from t have "find_row (row_key r) (rs_rows (prune (pv_now_prune env) (fold store_step ops st))) = Some r"
    by (auto simp: terminal_row_def split: option.splits if_splits)
  with f t show ?thesis
    by (simp add: store_put_def Let_def assms(6) ev_payload_def ev_set_def ev_params_def)
qed

definition demo_event :: "string \<Rightarrow> dict" where
  "demo_event status =
     [(lit ''jsonrpc'', JStr (lit ''2.0'')), (lit ''method'', JStr (lit ''event'')),
      (lit ''params'', JObj
        [(lit ''session_id'', JStr (lit ''r'')), (lit ''type'', JStr (lit ''subagent.tool'')),
         (lit ''payload'', JObj [(lit ''subagent_id'', JStr (lit ''a'')), (lit ''status'', JStr (lit status))]),
         (lit ''recovery_revision'', JInt 1),
         (lit ''recovery_binding'', JObj
           [(lit ''runtime_session_id'', JStr (lit ''r'')), (lit ''durable_session_id'', JStr (lit ''d'')),
            (lit ''profile'', JStr (lit ''p'')), (lit ''live'', JBool True)]),
         (lit ''durable_session_id'', JStr (lit ''d'')), (lit ''profile'', JStr (lit ''p''))])]"

definition demo_scope :: "json list" where
  "demo_scope = [JStr (lit ''i''), JStr (lit ''dev''), JInt 0]"

definition demo_env :: "int \<Rightarrow> put_env" where
  "demo_env now = \<lparr>pv_now_prune = now, pv_now_stamp = now, pv_now_save = now, pv_write_ok = True\<rparr>"

definition demo_store0 :: recovery_store where
  "demo_store0 = \<lparr>rs_max_rows = 4, rs_ttl_seconds = 100, rs_rows = [], rs_revision = 0,
                  rs_truncated = False, rs_disk = None\<rparr>"

definition demo_row :: dict where
  "demo_row = mk_row (put_key demo_scope (demo_event ''completed'')) 100 (stamped 1 (demo_event ''completed''))"

definition demo_store :: recovery_store where
  "demo_store = demo_store0\<lparr>rs_rows := [demo_row], rs_revision := 1\<rparr>"

theorem terminal_evidence_is_final_witness:
  "find_row (row_key demo_row)
       (rs_rows (store_step (OpPut (demo_env 7) demo_scope (demo_event ''running'')) demo_store)) = Some demo_row
   \<and> (case store_put (demo_env 9) demo_scope (demo_event ''running'')
         (store_step (OpPut (demo_env 7) demo_scope (demo_event ''running'')) demo_store) of (res, event', st') \<Rightarrow>
       res = Inr 1 \<and> ev_payload event' = ev_payload (demo_event ''completed''))"
proof -
  let ?op = "OpPut (demo_env 7) demo_scope (demo_event ''running'')"
  have inv: "rs_inv demo_store" by code_simp
  have step: "find_row (row_key demo_row) (rs_rows (store_step ?op demo_store)) = Some demo_row" by code_simp
  have prefixes: "\<forall>us vs. [?op] = us @ vs \<longrightarrow>
      find_row (row_key demo_row) (rs_rows (fold store_step us demo_store)) \<noteq> None"
  proof (intro allI impI)
    fix us vs
    assume "[?op] = us @ vs"
    then have "us = [] \<or> us = [?op]" by (cases us) auto
    moreover have "find_row (row_key demo_row) (rs_rows demo_store) = Some demo_row" by code_simp
    ultimately show "find_row (row_key demo_row) (rs_rows (fold store_step us demo_store)) \<noteq> None"
      using step by auto
  qed
  have terminal: "ev_terminal (row_event demo_row)" by code_simp
  have rest: "demo_row \<in> set (rs_rows demo_store)" "row_expires demo_row = 100"
    by (simp_all add: demo_store_def demo_row_def)
  have key: "put_key demo_scope (demo_event ''running'') = row_key demo_row" by code_simp
  have "ev_revision (row_event demo_row) = 1" "ev_payload (row_event demo_row) = ev_payload (demo_event ''completed'')"
    by code_simp+
  then show ?thesis
    using terminal_evidence_is_final [OF inv rest(1) terminal _ prefixes key, of "demo_env 9"] rest(2)
    by (simp add: demo_env_def case_prod_beta)
qed

section \<open>Writes are all or nothing\<close>

text \<open>
  A \<open>put\<close> either raises and leaves the rows, the revision, the flag and the file exactly as
  they were, or answers for a row that is already terminal without writing, or returns the
  next revision with the file holding exactly the rows, the revision and the flag that are
  now in memory: nothing is delivered that has not been written.
\<close>

theorem put_is_atomic:
  "(case store_put env scope event st of (res, event', st') \<Rightarrow>
      (res = Inl RecoveryWriteFailed \<and> \<not> pv_write_ok env \<and> event' = event \<and> st' = st)
    \<or> (\<exists>prior. terminal_row (put_key scope event) (rs_rows st') = Some prior
         \<and> res = Inr (ev_revision (row_event prior)) \<and> rs_disk st' = rs_disk st \<and> rs_revision st' = rs_revision st)
    \<or> (res = Inr (rs_revision st + 1) \<and> rs_revision st' = rs_revision st + 1 \<and> event' = event
         \<and> rs_disk st' = Some (ascii_encode (store_text (rs_revision st') (rs_truncated st') (rs_rows st')))))"
proof (cases rule: store_put_cases [of scope event env st])
  case (Terminal prior)
  then show ?thesis by simp
next
  case (Stored st' rows)
  then show ?thesis using save_cases [OF Stored(5)] by auto
next
  case Failed
  then show ?thesis by simp
qed

section \<open>The next start reads what was written\<close>

definition persistable :: "nat \<Rightarrow> dict \<Rightarrow> bool" where
  \<comment> \<open>a row the loader accepts, of plain values, nested at most \<open>d\<close> deep\<close>
  "persistable d r \<longleftrightarrow> validate_row (JObj r) \<and> plain (JObj r) \<and> clean_json ascii_ok (JObj r)
     \<and> jdepth (JObj r) \<le> d"

definition store_json :: "int \<Rightarrow> bool \<Rightarrow> dict list \<Rightarrow> dict" where
  "store_json revision truncated rows =
     [(lit ''version'', JInt 1), (lit ''revision'', JInt revision),
      (lit ''truncated'', JBool truncated), (lit ''rows'', JArr (map JObj rows))]"

lemma store_text_json: "store_text revision truncated rows = dumps_ascii_compact (JObj (store_json revision truncated rows))"
  by (simp add: store_text_def store_json_def)

lemma revision_digits: "0 \<le> n \<Longrightarrow> n \<le> 2 ^ 63 - 1 \<Longrightarrow> length (nat_digits (nat n)) \<le> 19"
  using length_nat_digits [of "nat n" 18] by simp

lemma store_json_ok:
  assumes "\<forall>r \<in> set rows. persistable d r" and "0 \<le> revision" and "revision \<le> 2 ^ 63 - 1"
  shows "plain (JObj (store_json revision truncated rows))"
    and "clean_json ascii_ok (JObj (store_json revision truncated rows))"
    and "jdepth (JObj (store_json revision truncated rows)) \<le> Suc (Suc d)"
proof -
  have rows: "plain (JArr (map JObj rows))" "clean_json ascii_ok (JArr (map JObj rows))"
    "jdepth (JArr (map JObj rows)) \<le> Suc d"
    using assms(1) unfolding plain_elem clean_elem jdepth_elem by (auto simp: persistable_def)
  have digits: "length (nat_digits (nat revision)) \<le> INT_MAX_STR_DIGITS"
    using revision_digits [OF assms(2,3)] by (simp add: INT_MAX_STR_DIGITS_def)
  have one: "nat_digits (Suc 0) = [49]" by (simp add: nat_digits.simps)
  show "plain (JObj (store_json revision truncated rows))"
    unfolding plain_member store_json_def using rows(1) digits assms(2)
    by (simp add: one INT_MAX_STR_DIGITS_def del: plain.simps(6) plain.simps(7))
  show "clean_json ascii_ok (JObj (store_json revision truncated rows))"
    unfolding clean_member store_json_def using rows(2)
    by (simp add: ascii_ok_lit del: clean_json.simps(6) clean_json.simps(7))
  show "jdepth (JObj (store_json revision truncated rows)) \<le> Suc (Suc d)"
    unfolding jdepth_member store_json_def using rows(3)
    by (simp del: jdepth.simps(6) jdepth.simps(7))
qed

lemma store_text_empty: "0 \<le> revision \<Longrightarrow> revision \<le> 2 ^ 63 - 1 \<Longrightarrow>
    int (length (store_text revision truncated [])) \<le> MAX_STORE_BYTES"
  using revision_digits [of revision]
  by (simp add: store_text_def dumps_ascii_compact_def dumps_str_with_def lit_def escape_ascii_def
      dumps_int_def MAX_STORE_BYTES_def nat_digits.simps [of "Suc 0"] nat_digits.simps [of 1])

lemma load_store_json:
  assumes "\<forall>r \<in> set rows. persistable d r" and "0 \<le> revision" and "revision \<le> 2 ^ 63 - 1"
    and "length rows \<le> MAX_STORE_ROWS"
  shows "load_rows (store_json revision truncated rows) = Some (map JObj rows, revision)"
  using assms
  by (simp add: load_rows_def store_json_def jget_def py_eq_int_def list_all_iff persistable_def)

text \<open>
  Recovery survives a restart: once a save has succeeded, constructing the store from the
  file gives back the same rows in the same order, the same revision and the same flag (less
  what has expired by then), for rows that the loader's own check accepts.
\<close>

theorem store_reload:
  assumes "save now True st = (Inr (), st')" and "rs_inv st"
    and "0 \<le> rs_revision st" and "rs_revision st \<le> 2 ^ 63 - 1"
    and "\<forall>r \<in> set (rs_rows st'). persistable d r" and "d + 2 \<le> recursion_limit"
  shows "new_recovery_store recursion_limit (int (rs_max_rows st)) (rs_ttl_seconds st) later (rs_disk st')
     = Inr (prune later st')"
proof -
  let ?v = "JObj (store_json (rs_revision st') (rs_truncated st') (rs_rows st'))"
  from save_cases [OF assms(1)] obtain truncated where c: "rs_revision st' = rs_revision st"
    "rs_max_rows st' = rs_max_rows st" "rs_ttl_seconds st' = rs_ttl_seconds st"
    "rs_disk st' = Some (ascii_encode (dumps_ascii_compact ?v))"
    "fit_rows (rs_revision st) (rs_truncated (prune now st)) (rs_rows (prune now st)) = (truncated, rs_rows st')"
    "rs_truncated st' = truncated"
    by (auto simp: store_text_json)
  have rev: "0 \<le> rs_revision st'" "rs_revision st' \<le> 2 ^ 63 - 1" using assms(3,4) c(1) by simp_all
  note ok = store_json_ok [OF assms(5) rev]
  have size: "int (length (dumps_ascii_compact ?v)) \<le> MAX_STORE_BYTES"
  proof (cases "rs_rows st' = []")
    case True
    then show ?thesis using store_text_empty [OF rev] by (simp add: store_text_json)
  next
    case False
    then show ?thesis using fit_rows_bound [OF c(5) False] c(1,6) by (simp add: store_text_json)
  qed
  have inv: "rs_inv st'" using save_keeps_inv [OF assms(1)] assms(2) by (simp add: rs_inv_def)
  have "Option.bind (utf8_decode (ascii_encode (dumps_ascii_compact ?v))) (loads_strict recursion_limit) = Some ?v"
    by (rule loads_strict_ascii_file [OF ok(1,2) order_trans [OF ok(3)]]) (use assms(6) in simp)
  moreover have "load_rows (store_json (rs_revision st') (rs_truncated st') (rs_rows st'))
      = Some (map JObj (rs_rows st'), rs_revision st')"
    by (rule load_store_json [OF assms(5) rev]) (use inv in \<open>simp add: rs_inv_def\<close>)
  moreover have "truthy (jget (store_json (rs_revision st') (rs_truncated st') (rs_rows st')) ''truncated'')
      = rs_truncated st'"
    by (simp add: store_json_def jget_def truthy_def)
  moreover have "min MAX_STORE_ROWS (nat (max 1 (int (rs_max_rows st)))) = rs_max_rows st'"
    using inv c(2) by (simp add: rs_inv_def max_def min_def)
  moreover have "st' = \<lparr>rs_max_rows = rs_max_rows st', rs_ttl_seconds = rs_ttl_seconds st,
      rs_rows = rs_rows st', rs_revision = rs_revision st', rs_truncated = rs_truncated st', rs_disk = rs_disk st'\<rparr>"
    using c(3) by (intro recovery_store.equality) simp_all
  ultimately show ?thesis using size unfolding c(4)
    by (simp add: new_recovery_store_def Let_def c(4) ascii_encode_def comp_def)
qed

theorem store_reload_witness:
  "new_recovery_store 9 4 100 20 (rs_disk (snd (save 10 True demo_store)))
     = Inr (prune 20 (snd (save 10 True demo_store)))"
proof -
  have "persistable 7 demo_row" by code_simp
  moreover have "rs_rows (snd (save 10 True demo_store)) = [demo_row]" by code_simp
  moreover have "fst (save 10 True demo_store) = Inr ()" by code_simp
  moreover have "rs_inv demo_store" by code_simp
  ultimately show ?thesis
    using store_reload [of 10 demo_store "snd (save 10 True demo_store)" 7 9 20]
    by (simp add: demo_store_def demo_store0_def prod_eq_iff)
qed

section \<open>Revocation and scope\<close>






text \<open>
  A snapshot shows a lease its own evidence only: at most 64 events, each of them of a row
  whose scope (installation, device and channel, epoch) is exactly the lease's and whose
  profile the authorizer accepts now; every binding it shows is marked not live, and a task
  whose last known status is not terminal is reported as unknown, never as running.
\<close>

theorem snapshot_is_scoped:
  assumes "store_snapshot now scope authorizer st = ((events, truncated), st')"
  shows "length events \<le> MAX_ROWS
    \<and> (\<forall>e \<in> set events. \<exists>r \<in> set (rs_rows st). take 3 (row_key r) = scope \<and> row_expires r > of_int now
         \<and> (\<exists>p. row_key r ! 3 = JStr p \<and> authorizer p) \<and> e = snapshot_event (row_event r)
         \<and> jget (ev_binding e) ''live'' = JBool False
         \<and> (ev_terminal (row_event r) \<or> jget (ev_payload e) ''status'' = JStr (lit ''unknown'')))"
proof (intro conjI ballI)
  show "length events \<le> MAX_ROWS" using assms by (auto simp: store_snapshot_def Let_def)
next
  fix e
  assume e: "e \<in> set events"
  have "e \<in> (snapshot_event \<circ> row_event) ` {r \<in> set (rs_rows (prune now st)). in_scope scope authorizer r}"
    using e assms set_last_n_subset by (fastforce simp: store_snapshot_def Let_def)
  then obtain r where r: "r \<in> set (rs_rows (prune now st))" "in_scope scope authorizer r"
    "e = snapshot_event (row_event r)" by auto
  have "row_expires r > of_int now" using r(1) set_last_n_subset by (fastforce simp: prune_def Let_def)
  moreover have "jget (ev_binding e) ''live'' = JBool False"
    by (simp add: r(3) snapshot_event_def Let_def ev_binding_def ev_set_def ev_params_def)
  moreover have "ev_terminal (row_event r) \<or> jget (ev_payload e) ''status'' = JStr (lit ''unknown'')"
    by (simp add: r(3) snapshot_event_def Let_def ev_payload_def ev_set_def ev_params_def ev_terminal_def)
  moreover have "take 3 (row_key r) = scope" "\<exists>p. row_key r ! 3 = JStr p \<and> authorizer p"
    using r(2) by (auto simp: in_scope_def split: json.splits)
  ultimately show "\<exists>r \<in> set (rs_rows st). take 3 (row_key r) = scope \<and> row_expires r > of_int now
         \<and> (\<exists>p. row_key r ! 3 = JStr p \<and> authorizer p) \<and> e = snapshot_event (row_event r)
         \<and> jget (ev_binding e) ''live'' = JBool False
         \<and> (ev_terminal (row_event r) \<or> jget (ev_payload e) ''status'' = JStr (lit ''unknown''))"
    using r prune_subset by blast
qed

theorem snapshot_is_scoped_witness:
  "\<exists>events truncated st'. store_snapshot 5 demo_scope (\<lambda>p. p = lit ''p'') demo_store = ((events, truncated), st')
     \<and> length events = 1 \<and> list_all (\<lambda>e. jget (ev_binding e) ''live'' = JBool False) events"
proof -
  obtain events truncated st' where
    s: "store_snapshot 5 demo_scope (\<lambda>p. p = lit ''p'') demo_store = ((events, truncated), st')"
    by (metis prod.exhaust)
  moreover have "length (fst (fst (store_snapshot 5 demo_scope (\<lambda>p. p = lit ''p'') demo_store))) = 1" by code_simp
  ultimately show ?thesis using snapshot_is_scoped [OF s] by (auto simp: list_all_iff)
qed

end
