(* ===== verification/Recovery_Projection_Props.thy ===== *)
theory Recovery_Projection_Props
  imports Recovery_Projection Lease_Recovery_Props
begin

text \<open>
  What the projection promises: bounded state, bindings that go back to an authorized
  request, a snapshot that fits its budget and never hides terminal evidence, and one
  consequence of the loader's size check that the writer does not share.
\<close>

section \<open>Provenance and bounds\<close>

text \<open>
  C25. Whatever frames a controller sends, whatever requests a device makes and whatever other
  leases do to the shared store, a projection keeps at most 64 pending requests, 64 bindings
  and 64 tasks; every binding it holds is live, is keyed by its own runtime session and
  names a profile for which some earlier create or resume request asked while the authorizer
  accepted it; and every payload it keeps holds known fields within their limits only.
\<close>

theorem projection_is_bounded_and_proven:
  assumes "fold pj_step ops (new_projection profile scope, store) = (pj, store')"
    and "store_ok store" and "\<forall>op \<in> set ops. op_clean op"
  shows "length (pj_pending pj) \<le> MAX_ROWS \<and> length (pj_bindings pj) \<le> MAX_ROWS \<and> length (pj_tasks pj) \<le> MAX_ROWS
    \<and> (\<forall>(runtime, b) \<in> set (pj_bindings pj). \<exists>durable p authorizer v.
         b = mk_binding runtime durable p \<and> is_id runtime \<and> is_id durable \<and> is_id p
         \<and> PjRequest authorizer v \<in> set ops \<and> asks_for v p \<and> authorizer p)
    \<and> (\<forall>(k, e) \<in> set (pj_tasks pj). list_all payload_field_ok (ev_payload e))"
proof -
  let ?granted = "\<lambda>p. \<exists>op \<in> set ops. op_grants op p"
  have g: "\<exists>authorizer v. PjRequest authorizer v \<in> set ops \<and> asks_for v p \<and> authorizer p"
    if granted: "?granted p" for p
  proof -
    from granted obtain op where op: "op \<in> set ops" "op_grants op p" by blast
    obtain authorizer v where "op = PjRequest authorizer v" using op(2) by (cases op) simp_all
    with op show ?thesis by auto
  qed
  have start: "\<exists>profile' scope' store1. (new_projection profile scope, store) = (new_projection profile' scope', store1)
      \<and> store_ok store1"
    using assms(2) by blast
  have inv: "pj_inv ?granted (pj, store')"
    using proj.ginv_reachable [of "(new_projection profile scope, store)" ops ?granted, OF start] assms(1,3)
    by auto
  show ?thesis
  proof (intro conjI ballI)
    fix rb
    assume "rb \<in> set (pj_bindings pj)"
    then have "binding_ok ?granted rb" using inv by (auto simp: pj_inv_alt)
    then show "case rb of (runtime, b) \<Rightarrow> \<exists>durable p authorizer v.
         b = mk_binding runtime durable p \<and> is_id runtime \<and> is_id durable \<and> is_id p
         \<and> PjRequest authorizer v \<in> set ops \<and> asks_for v p \<and> authorizer p"
      unfolding binding_ok_def using g by (cases rb) (simp, blast)
  qed (use inv in \<open>auto simp: pj_inv_alt payload_ok_def\<close>)
qed

definition create_request :: json where
  "create_request = JObj [(lit ''jsonrpc'', JStr (lit ''2.0'')), (lit ''id'', JInt 1),
     (lit ''method'', JStr (lit ''session.create'')), (lit ''params'', JObj [(lit ''profile'', JStr (lit ''p''))])]"

definition create_response :: json where
  "create_response = JObj [(lit ''jsonrpc'', JStr (lit ''2.0'')), (lit ''id'', JInt 1),
     (lit ''result'', JObj [(lit ''session_id'', JStr (lit ''r'')), (lit ''session_key'', JStr (lit ''d''))])]"

definition demo_ops :: "pj_op list" where
  "demo_ops = [PjRequest (\<lambda>_. True) create_request,
               PjObserve 9 (\<lambda>_. True) (\<lambda>_. demo_env 5) (dumps create_response)]"

theorem projection_is_bounded_and_proven_witness:
  "\<exists>pj store'. fold pj_step demo_ops (new_projection (lit ''p'') demo_scope, None) = (pj, store')
     \<and> map fst (pj_bindings pj) = [lit ''r'']
     \<and> list_all (\<lambda>(runtime, b). \<exists>durable p authorizer v.
         b = mk_binding runtime durable p \<and> is_id runtime \<and> is_id durable \<and> is_id p
         \<and> PjRequest authorizer v \<in> set demo_ops \<and> asks_for v p \<and> authorizer p) (pj_bindings pj)"
proof -
  obtain pj store' where r: "fold pj_step demo_ops (new_projection (lit ''p'') demo_scope, None) = (pj, store')"
    by fastforce
  moreover have "map fst (pj_bindings (fst (fold pj_step demo_ops (new_projection (lit ''p'') demo_scope, None)))) = [lit ''r'']"
    by code_simp
  moreover have "\<forall>op \<in> set demo_ops. op_clean op" by (simp add: demo_ops_def)
  ultimately show ?thesis using projection_is_bounded_and_proven [OF r] by (simp add: list_all_iff)
qed

section \<open>The snapshot\<close>

lemma fit_tasks_bound:
  "fit_tasks truncated ts = (truncated', ts') \<Longrightarrow>
     (\<exists>k. ts' = drop k ts) \<and> int (length (dumps_ascii (JArr (map JObj ts')))) \<le> MAX_SNAPSHOT_BYTES"
proof (induction truncated ts arbitrary: truncated' ts' rule: fit_tasks.induct)
  case (1 truncated)
  then show ?case by (simp add: dumps_ascii_def MAX_SNAPSHOT_BYTES_def)
next
  case (2 truncated t ts)
  show ?case
  proof (cases "int (length (dumps_ascii (JArr (map JObj (t # ts))))) > MAX_SNAPSHOT_BYTES")
    case True
    with 2 obtain k where "ts' = drop k ts" and b: "int (length (dumps_ascii (JArr (map JObj ts')))) \<le> MAX_SNAPSHOT_BYTES"
      by auto
    then have "ts' = drop (Suc k) (t # ts)" by simp
    with b show ?thesis by blast
  next
    case False
    then have e: "ts' = t # ts" using "2.prems" by (auto split: if_splits)
    then have "ts' = drop 0 (t # ts)" by simp
    with e False show ?thesis by (intro conjI exI [of _ 0]) auto
  qed
qed

definition keyed :: "(json \<times> json \<times> pystr option, dict) odict \<Rightarrow> bool" where
  "keyed rows \<longleftrightarrow> distinct (map fst rows) \<and> (\<forall>(k, e) \<in> set rows. event_key e = k)"

lemma keyed_update: "keyed rows \<Longrightarrow> keyed (AList.update (event_key e) e rows)"
  using set_update_subset [of "event_key e" e rows] distinct_update [of rows "event_key e" e]
  by (fastforce simp: keyed_def)

lemma merge_task_keyed: "keyed rows \<Longrightarrow> keyed (merge_task authorizer e rows)"
  by (simp add: merge_task_def keyed_update)

definition settled :: "json \<times> json \<times> pystr option \<Rightarrow> (json \<times> json \<times> pystr option, dict) odict \<Rightarrow> bool" where
  "settled k rows \<longleftrightarrow> (\<exists>e. map_of rows k = Some e \<and> ev_terminal e)"

lemma merge_task_settled:
  assumes "settled k rows"
  shows "settled k (merge_task authorizer event rows)"
proof (cases "event_key event = k")
  case True
  then show ?thesis using assms by (auto simp: merge_task_def settled_def update_conv')
next
  case False
  then show ?thesis using assms by (auto simp: merge_task_def settled_def update_conv')
qed

definition history_rows :: "dict list \<Rightarrow> (json \<times> json \<times> pystr option, dict) odict" where
  "history_rows events = fold (\<lambda>e. AList.update (event_key e) e) events []"

lemma history_keyed: "keyed (history_rows events)"
  unfolding history_rows_def by (rule fold_keeps) (auto simp: keyed_update, simp add: keyed_def)

lemma history_last:
  assumes "distinct (map event_key events)" and "e \<in> set events"
  shows "map_of (history_rows events) (event_key e) = Some e"
proof -
  have "map_of (fold (\<lambda>e. AList.update (event_key e) e) events d) (event_key e) = Some e"
    if "distinct (map event_key events)" "e \<in> set events" for d
    using that
  proof (induction events arbitrary: d)
    case (Cons x xs)
    have keep: "map_of (fold (\<lambda>e. AList.update (event_key e) e) xs d) k = map_of d k" if "k \<notin> event_key ` set xs" for k d
      using that by (induction xs arbitrary: d) (auto simp: update_conv')
    show ?case
    proof (cases "e \<in> set xs")
      case True
      then show ?thesis using Cons by simp
    next
      case False
      then have "e = x" "event_key x \<notin> event_key ` set xs" using Cons.prems by auto
      then show ?thesis using keep [of "event_key x"] by (simp add: update_conv')
    qed
  qed simp
  then show ?thesis using assms by (simp add: history_rows_def)
qed

text \<open>
  The snapshot in the attach preamble is bounded and honest: it has at most 64 task events
  whose JSON text is at most 128 KiB, and at most 64 bindings; no two of its tasks have the
  same profile, durable session and child; and when the durable history holds a terminal
  event for a child, the snapshot shows no event of that child that is not terminal, even if
  the lease has only seen it running. The history has one event per child.
\<close>

theorem snapshot_bounded_and_honest:
  assumes "pj_snapshot now authorizer pj store = (snap, store')"
    and "historical = (case store of None \<Rightarrow> []
           | Some st \<Rightarrow> fst (fst (store_snapshot now (pj_scope pj) authorizer st)))"
    and "distinct (map event_key historical)"
  shows "\<exists>tasks bindings. jget snap ''task_snapshot'' = JArr (map JObj tasks)
     \<and> jget snap ''bindings'' = JArr (map JObj bindings) \<and> length tasks \<le> MAX_ROWS \<and> length bindings \<le> MAX_ROWS
     \<and> int (length (dumps_ascii (JArr (map JObj tasks)))) \<le> MAX_SNAPSHOT_BYTES
     \<and> distinct (map event_key tasks)
     \<and> (\<forall>h \<in> set historical. ev_terminal h \<longrightarrow> (\<forall>e \<in> set tasks. event_key e = event_key h \<longrightarrow> ev_terminal e))"
proof -
  let ?rows = "fold (merge_task authorizer) (map snd (pj_tasks pj)) (history_rows historical)"
  obtain truncated where t: "fst (case store of None \<Rightarrow> (([], False), None)
      | Some st \<Rightarrow> (case store_snapshot now (pj_scope pj) authorizer st of (s, st') \<Rightarrow> (s, Some st')))
      = (historical, truncated)"
    unfolding assms(2)
    by (cases store) (auto simp: prod_eq_iff case_prod_beta)
  obtain truncated' tasks where f: "fit_tasks truncated (last_n MAX_ROWS (map snd ?rows)) = (truncated', tasks)"
    by fastforce
  then obtain k where k: "tasks = drop k (last_n MAX_ROWS (map snd ?rows))"
    "int (length (dumps_ascii (JArr (map JObj tasks)))) \<le> MAX_SNAPSHOT_BYTES"
    using fit_tasks_bound [OF f] by blast
  have snap: "jget snap ''task_snapshot'' = JArr (map JObj tasks)"
    "jget snap ''bindings'' = JArr (map JObj (snapshot_bindings authorizer tasks pj))"
    using assms(1) t f unfolding pj_snapshot_def history_rows_def
    by (auto simp: Let_def case_prod_beta jget_def)
  have keyed: "keyed ?rows" by (rule fold_keeps) (auto intro: merge_task_keyed history_keyed)
  have sub: "set tasks \<subseteq> snd ` set ?rows"
    using k(1) set_last_n_subset [of MAX_ROWS "map snd ?rows"] by (auto dest!: in_set_dropD)
  have "map event_key (map snd ?rows) = map fst ?rows"
    using keyed by (auto simp: keyed_def)
  moreover have "distinct (map fst ?rows)" using keyed by (simp add: keyed_def)
  ultimately have "distinct (map event_key (map snd ?rows))" by metis
  then have dis: "distinct (map event_key tasks)"
    unfolding k(1) last_n_def by (intro distinct_map_drop)
  have honest: "ev_terminal e" if h: "h \<in> set historical" "ev_terminal h" "e \<in> set tasks" "event_key e = event_key h" for h e
  proof -
    have "settled (event_key h) (history_rows historical)"
      using history_last [OF assms(3) h(1)] h(2) by (auto simp: settled_def)
    then have "settled (event_key h) ?rows" by (rule fold_keeps [rotated]) (rule merge_task_settled)
    then obtain e2 where e2: "map_of ?rows (event_key h) = Some e2" "ev_terminal e2" by (auto simp: settled_def)
    have "(event_key h, e) \<in> set ?rows" using sub h(3,4) keyed by (fastforce simp: keyed_def)
    then have "map_of ?rows (event_key h) = Some e" using keyed by (simp add: keyed_def)
    then show ?thesis using e2 by simp
  qed
  have "length tasks \<le> MAX_ROWS" unfolding k(1) length_drop length_last_n by linarith
  moreover have "length (snapshot_bindings authorizer tasks pj) \<le> MAX_ROWS" by (simp add: snapshot_bindings_def Let_def)
  ultimately show ?thesis using snap k(2) dis honest by blast
qed

definition demo_projection :: projection where
  "demo_projection = (new_projection (lit ''p'') demo_scope)\<lparr>pj_tasks := [((lit ''r'', lit ''x''), demo_event ''running'')]\<rparr>"

theorem snapshot_bounded_and_honest_witness:
  "length (fst (fst (store_snapshot 5 demo_scope (\<lambda>_. True) demo_store))) = 1
   \<and> (\<exists>tasks. jget (fst (pj_snapshot 5 (\<lambda>_. True) demo_projection (Some demo_store))) ''task_snapshot'' = JArr (map JObj tasks)
     \<and> length tasks \<le> MAX_ROWS
     \<and> list_all (\<lambda>h. list_all (\<lambda>e. ev_terminal e) (filter (\<lambda>e. event_key e = event_key h) tasks))
          (filter ev_terminal (fst (fst (store_snapshot 5 demo_scope (\<lambda>_. True) demo_store)))))"
proof -
  let ?h = "fst (fst (store_snapshot 5 demo_scope (\<lambda>_. True) demo_store))"
  have one: "length ?h = 1" by code_simp
  have scope: "pj_scope demo_projection = demo_scope" by (simp add: demo_projection_def new_projection_def)
  have "distinct (map event_key ?h)" using one by (cases ?h) auto
  then show ?thesis
    using snapshot_bounded_and_honest [OF prod.collapse [symmetric] refl,
        where pj = demo_projection and now = 5 and authorizer = "\<lambda>_. True" and store = "Some demo_store"] one
    unfolding scope option.case list_all_iff set_filter by blast
qed

section \<open>A limit the writer does not share\<close>

text \<open>
  Every field of a payload is bounded in characters, and the loader bounds the whole event
  in bytes of ASCII JSON, where a character outside the basic plane takes twelve.
\<close>

definition big :: "nat \<Rightarrow> json" where
  "big n = JStr (replicate n 0x1F600)"

definition big_payload :: dict where
  "big_payload =
     [(lit ''subagent_id'', big 128), (lit ''child_session_id'', big 128), (lit ''delegation_id'', big 128),
      (lit ''parent_id'', big 128), (lit ''goal'', big 500), (lit ''action'', big 500), (lit ''summary'', big 500),
      (lit ''model'', big 128), (lit ''tool'', big 128), (lit ''tool_name'', big 128), (lit ''text'', big 500)]"

definition big_event :: dict where
  "big_event =
     [(lit ''jsonrpc'', JStr (lit ''2.0'')), (lit ''method'', JStr (lit ''event'')),
      (lit ''params'', JObj
        [(lit ''session_id'', JStr (lit ''r'')), (lit ''type'', JStr (lit ''subagent.start'')),
         (lit ''payload'', JObj big_payload), (lit ''recovery_revision'', JInt 1),
         (lit ''recovery_binding'', JObj (mk_binding (lit ''r'') (lit ''d'') (lit ''p''))),
         (lit ''durable_session_id'', JStr (lit ''d'')), (lit ''profile'', JStr (lit ''p'')),
         (lit ''relay_event_id'', JStr (projection_id 1))])]"

definition big_frame :: json where
  "big_frame = JObj
     [(lit ''jsonrpc'', JStr (lit ''2.0'')), (lit ''method'', JStr (lit ''event'')),
      (lit ''params'', JObj
        [(lit ''session_id'', JStr (lit ''r'')), (lit ''type'', JStr (lit ''subagent.start'')),
         (lit ''payload'', JObj big_payload)])]"

lemma length_escape_big: "length (dumps_str_with escape_ascii (replicate n 0x1F600)) = 12 * n + 2"
proof -
  have "length (escape_ascii 0x1F600) = 12" by (simp add: escape_ascii_def hex4_out_def)
  then have "length (concat (map escape_ascii (replicate n 0x1F600))) = 12 * n" by (induction n) auto
  then show ?thesis by (simp add: dumps_str_with_def)
qed

lemma length_dumps_big: "length (dumps_with escape_ascii isep ksep (big n)) = 12 * n + 2"
  by (simp add: big_def length_escape_big)

lemma length_dumps_lit:
  "list_all (\<lambda>c. escape_ascii (of_char c) = [of_char c]) s \<Longrightarrow>
     length (dumps_str_with escape_ascii (lit s)) = length s + 2"
proof -
  assume s: "list_all (\<lambda>c. escape_ascii (of_char c) = [of_char c]) s"
  then have "length (concat (map escape_ascii (lit s))) = length s"
    by (induction s) (auto simp: lit_def)
  then show ?thesis by (simp add: dumps_str_with_def)
qed

definition big_row :: dict where
  "big_row = mk_row (put_key demo_scope big_event) 604805 big_event"

definition empty_store :: recovery_store where
  "empty_store = \<lparr>rs_max_rows = 256, rs_ttl_seconds = 604800, rs_rows = [], rs_revision = 0,
                  rs_truncated = False, rs_disk = None\<rparr>"

definition big_store :: recovery_store where
  "big_store = empty_store\<lparr>rs_rows := [big_row], rs_revision := 1,
     rs_disk := Some (ascii_encode (store_text 1 False [big_row]))\<rparr>"

definition bound_projection :: projection where
  "bound_projection = (new_projection (lit ''p'') demo_scope)
     \<lparr>pj_bindings := [(lit ''r'', mk_binding (lit ''r'') (lit ''d'') (lit ''p''))]\<rparr>"

lemma length_big_event: "32768 < int (length (dumps_ascii (JObj big_event)))"
  unfolding dumps_ascii_def big_event_def big_payload_def mk_binding_def
  by (simp add: length_dumps_big length_dumps_lit escape_ascii_def)

lemma identifier_big: "identifier_of (big 128) = Some (replicate 128 0x1F600)"
  by (simp add: identifier_of_def big_def)

lemma child_key_big: "child_key big_payload = Some (lit ''subagent_id:'' @ replicate 128 0x1F600)"
  by (simp add: child_key_def big_payload_def jget_def identifier_big)

lemma length_store_big: "int (length (store_text 1 False [big_row])) \<le> MAX_STORE_BYTES"
proof -
  have "ev_binding big_event = mk_binding (lit ''r'') (lit ''d'') (lit ''p'')" "ev_payload big_event = big_payload"
    by (simp_all add: ev_binding_def ev_payload_def ev_params_def big_event_def jget_def)
  then have k: "put_key demo_scope big_event = demo_scope @ [JStr (lit ''p''), JStr (lit ''d''),
      JStr (lit ''subagent_id:'' @ replicate 128 0x1F600)]"
    by (simp add: put_key_def mk_binding_def jget_def child_key_big opt_json_def)
  have "length (dumps_str_with escape_ascii (lit ''subagent_id:'' @ replicate 128 0x1F600)) = 1550"
    using length_escape_big [of 128] by (simp add: dumps_str_with_def lit_def escape_ascii_def)
  moreover have row: "big_row = [(lit ''key'', JArr (demo_scope @ [JStr (lit ''p''), JStr (lit ''d''),
      JStr (lit ''subagent_id:'' @ replicate 128 0x1F600)])), (lit ''expires_at'', JInt 604805), (lit ''event'', JObj big_event)]"
    by (simp add: big_row_def mk_row_def k)
  moreover have "projection_id 1 = lit ''projection:1''"
    by (simp add: projection_id_def dumps_int_def nat_digits.simps lit_def)
  ultimately show ?thesis
    unfolding store_text_def dumps_ascii_compact_def row demo_scope_def
      big_event_def big_payload_def mk_binding_def
    by (simp add: length_dumps_big length_dumps_lit escape_ascii_def MAX_STORE_BYTES_def
        dumps_int_def nat_digits.simps)
qed

lemma text_field_big: "map_of TEXT_FIELDS k = Some n \<Longrightarrow> text_field (k, big n) = [(k, big n)]"
  by (simp add: text_field_def big_def)

lemma bounded_big: "bounded_payload big_payload = big_payload"
  by (simp add: bounded_payload_def big_payload_def text_field_big TEXT_FIELDS_def COUNT_FIELDS_def count_field_def)

lemma merge_big: "merge_payload [] big_payload = big_payload"
  by (simp add: merge_payload_def big_payload_def big_def)

lemma loads_big_frame: "6 \<le> limit \<Longrightarrow> loads_strict limit (dumps big_frame) = Some big_frame"
proof (rule loads_strict_dumps)
  show "plain big_frame" by (simp add: big_frame_def big_payload_def big_def)
  assume "6 \<le> limit"
  then show "jdepth big_frame \<le> limit" by (simp add: big_frame_def big_payload_def big_def)
qed

lemma identity_big: "\<not> bad_identity big_payload"
  by (simp add: bad_identity_def IDENTITY_FIELDS_def big_payload_def identifier_big)

lemma persist_big:
  "pj_persist (\<lambda>_. True) (demo_env 5) (bound_projection\<lparr>pj_revision := 1\<rparr>)
     (task_event (lit ''r'') (JStr (lit ''subagent.start'')) big_payload 1) (Some empty_store)
   = (Inr (), big_event, Some big_store)"
proof -
  let ?e1 = "ev_set ''profile'' (JStr (lit ''p'')) (ev_set ''durable_session_id'' (JStr (lit ''d''))
      (ev_set ''recovery_binding'' (JObj (mk_binding (lit ''r'') (lit ''d'') (lit ''p'')))
        (task_event (lit ''r'') (JStr (lit ''subagent.start'')) big_payload 1)))"
  have st: "stamped 1 ?e1 = big_event"
    by (simp add: stamped_def ev_set_def ev_params_def jset_def jget_def task_event_def big_event_def)
  have key: "put_key demo_scope ?e1 = put_key demo_scope big_event"
    unfolding st [symmetric] by (simp add: put_key_def stamped_def ev_binding_def ev_payload_def)
  have "store_put (demo_env 5) demo_scope ?e1 empty_store = (Inr 1, ?e1, big_store)"
    using length_store_big
    by (simp add: store_put_def put_fresh_def save_def prune_def Let_def terminal_row_def find_row_def
        key st big_row_def empty_store_def big_store_def demo_env_def last_n_def)
  then show ?thesis using st
    by (simp add: pj_persist_def bound_projection_def new_projection_def Let_def mk_binding_def jget_def
        task_event_def ev_params_def)
qed

lemma observe_big:
  assumes "6 \<le> limit"
  shows "pj_observe limit (\<lambda>_. True) (\<lambda>_. demo_env 5) (dumps big_frame) bound_projection (Some empty_store)
    = (Inr (), bound_projection\<lparr>pj_revision := 1,
        pj_tasks := [((lit ''r'', lit ''subagent_id:'' @ replicate 128 0x1F600), big_event)]\<rparr>, Some big_store)"
proof -
  have "record_task (\<lambda>_. True) (demo_env 5) (lit ''r'') (JStr (lit ''subagent.start''))
      (lit ''subagent_id:'' @ replicate 128 0x1F600) big_payload bound_projection (Some empty_store)
    = (Inr (), bound_projection\<lparr>pj_revision := 1,
        pj_tasks := [((lit ''r'', lit ''subagent_id:'' @ replicate 128 0x1F600), big_event)]\<rparr>, Some big_store)"
    using persist_big
    by (simp add: record_task_def Let_def merge_big bound_projection_def new_projection_def od_move_to_end_def
        od_trim_def MAX_ROWS_def)
  moreover have "identifier_of (JStr (lit ''r'')) = Some (lit ''r'')" by (simp add: is_id_def)
  ultimately show ?thesis
    unfolding pj_observe_def loads_big_frame [OF assms]
    by (simp add: big_frame_def jhas_def observe_event_def jget_def SUBAGENT_EVENTS_def identity_big
        bounded_big child_key_big)
qed

lemma big_row_json_ok:
  "plain (JObj big_row)" "clean_json ascii_ok (JObj big_row)" "jdepth (JObj big_row) \<le> 4" "\<not> validate_row (JObj big_row)"
proof -
  have pairs: "no_pairs (replicate n 0x1F600)" for n by (induction n rule: induct_nat_012) (auto simp: is_high_def)
  have emoji: "ascii_ok (replicate n 0x1F600)" for n using pairs by (simp add: ascii_ok_def list_all_iff)
  have joined: "ascii_ok (lit ''subagent_id:'' @ replicate 128 0x1F600)"
  proof -
    have "no_pairs (58 # replicate 128 0x1F600)" using pairs [of 128] by (cases "replicate 128 (0x1F600::nat)") (auto simp: is_high_def)
    then show ?thesis by (simp add: ascii_ok_def lit_def is_high_def list_all_iff)
  qed
  have key: "put_key demo_scope big_event = [JStr (lit ''i''), JStr (lit ''dev''), JInt 0, JStr (lit ''p''),
      JStr (lit ''d''), JStr (lit ''subagent_id:'' @ replicate 128 0x1F600)]"
    by (simp add: put_key_def demo_scope_def ev_binding_def ev_payload_def ev_params_def big_event_def jget_def mk_binding_def
        child_key_big opt_json_def)
  have pid: "projection_id 1 = lit ''projection:1''"
    by (simp add: projection_id_def dumps_int_def nat_digits.simps lit_def)
  note row = big_row_def mk_row_def key
  show "plain (JObj big_row)"
    by (simp add: row) (simp add: big_event_def big_payload_def mk_binding_def big_def nat_digits.simps INT_MAX_STR_DIGITS_def)
  show "clean_json ascii_ok (JObj big_row)"
    by (simp add: row joined ascii_ok_lit)
       (simp add: big_event_def big_payload_def mk_binding_def big_def ascii_ok_lit emoji pid)
  show "jdepth (JObj big_row) \<le> 4"
    by (simp add: row) (simp add: big_event_def big_payload_def mk_binding_def big_def)
  have "jget big_row ''event'' = JObj big_event" by (simp add: big_row_def mk_row_def jget_def)
  then show "\<not> validate_row (JObj big_row)"
    using length_big_event by (auto simp: validate_row_def event_row_ok_def split: json.splits)
qed

text \<open>
  The writer accepts what the loader refuses. After a device has created a session, one
  frame of the controller whose fields are all within their limits, but whose characters
  take twelve bytes each in ASCII JSON, is observed and persisted without an error, and from
  then on every start of the store from that file fails: the size limit of 32768 bytes is
  checked on loading only.
\<close>

theorem oversized_event_poisons_the_store:
  assumes "6 \<le> recursion_limit"
  shows "fst (pj_observe recursion_limit (\<lambda>_. True) (\<lambda>_. demo_env 5) (dumps big_frame) bound_projection (Some empty_store)) = Inr ()
    \<and> (\<exists>st. snd (snd (pj_observe recursion_limit (\<lambda>_. True) (\<lambda>_. demo_env 5) (dumps big_frame) bound_projection
              (Some empty_store))) = Some st
         \<and> rs_revision st = 1
         \<and> new_recovery_store recursion_limit 256 604800 now (rs_disk st) = Inl InvalidRecoveryStore)"
proof -
  have j: "plain (JObj (store_json 1 False [big_row]))" "clean_json ascii_ok (JObj (store_json 1 False [big_row]))"
    "jdepth (JObj (store_json 1 False [big_row])) \<le> 6"
  proof -
    have arr: "plain (JArr [JObj big_row])" "clean_json ascii_ok (JArr [JObj big_row])" "jdepth (JArr [JObj big_row]) \<le> Suc 4"
      unfolding plain_elem clean_elem jdepth_elem using big_row_json_ok by simp_all
    have one: "nat_digits (Suc 0) = [49]" by (simp add: nat_digits.simps)
    show "plain (JObj (store_json 1 False [big_row]))"
      unfolding plain_member store_json_def using arr(1)
      by (simp add: one INT_MAX_STR_DIGITS_def del: plain.simps(6) plain.simps(7))
    show "clean_json ascii_ok (JObj (store_json 1 False [big_row]))"
      unfolding clean_member store_json_def using arr(2)
      by (simp add: ascii_ok_lit del: clean_json.simps(6) clean_json.simps(7))
    have "jdepth (JObj (store_json 1 False [big_row])) \<le> Suc 5"
      unfolding jdepth_member store_json_def using arr(3) by (simp del: jdepth.simps(6) jdepth.simps(7))
    then show "jdepth (JObj (store_json 1 False [big_row])) \<le> 6" by simp
  qed
  have "Option.bind (utf8_decode (ascii_encode (store_text 1 False [big_row]))) (loads_strict recursion_limit)
      = Some (JObj (store_json 1 False [big_row]))"
    unfolding store_text_json by (rule loads_strict_ascii_file [OF j(1,2) order_trans [OF j(3) assms]])
  moreover have "load_rows (store_json 1 False [big_row]) = None"
    using big_row_json_ok(4) by (simp add: load_rows_def store_json_def jget_def)
  ultimately have "new_recovery_store recursion_limit 256 604800 now (Some (ascii_encode (store_text 1 False [big_row])))
      = Inl InvalidRecoveryStore"
    using length_store_big by (simp add: new_recovery_store_def ascii_encode_def)
  then show ?thesis unfolding observe_big [OF assms] by (simp add: big_store_def empty_store_def)
qed

theorem oversized_event_poisons_the_store_witness:
  "\<exists>st. snd (snd (pj_observe 900 (\<lambda>_. True) (\<lambda>_. demo_env 5) (dumps big_frame) bound_projection
              (Some empty_store))) = Some st
     \<and> new_recovery_store 900 256 604800 7 (rs_disk st) = Inl InvalidRecoveryStore"
  using oversized_event_poisons_the_store [of 900 7] by auto

end
