(* ===== verification/Session_Lease.thy ===== *)
theory Session_Lease
  imports Virtual_WS Recovery_Projection
begin

text \<open>
  The host-owned controller lease of \<^verbatim>\<open>session_lease.py\<close>: the retained event ring, the one
  live attachment, the submission ledger and the local mutation ledger. Attachments are
  objects the outer transports keep hold of, so a lease has a list of all it ever made and
  the number of the current one; so do mutation records. The code between two awaits is one
  atomic step; a task that has been created and not finished is an entry of \<open>ls_tasks\<close>.
  Times are integers in any unit. The shared recovery store is threaded through.
\<close>

section \<open>Limits and errors\<close>

definition MAX_SUBMISSION_ID_TEXT :: nat where "MAX_SUBMISSION_ID_TEXT = 128"
definition MAX_CURSOR :: int where "MAX_CURSOR = 2 ^ 63 - 1"
definition MAX_READS_IN_FLIGHT :: nat where "MAX_READS_IN_FLIGHT = 8"
definition MAX_LOCAL_MUTATIONS :: int where "MAX_LOCAL_MUTATIONS = 8"
definition MAX_LOCAL_REQUEST_ID_BYTES :: int where "MAX_LOCAL_REQUEST_ID_BYTES = 128"

datatype 'r lease_error =
    LeaseReleased
  | LeaseAttachRejected string
  | SessionLeaseError string
  | LeaseFeed "'r feed_error"         \<comment> \<open>raised by \<open>websocket.feed_text\<close>\<close>
  | LeaseUnicodeError                 \<comment> \<open>\<open>UnicodeEncodeError\<close> of \<open>encode\<close>\<close>
  | LeaseTypeError                    \<comment> \<open>an unhashable method\<close>
  | LeaseRecoveryError recovery_error

record lease_limits =
  lm_max_events :: int
  lm_max_event_bytes :: int
  lm_max_event_age :: int
  lm_detach_ttl :: int
  lm_max_tracked :: int

definition limits_valid :: "lease_limits \<Rightarrow> bool" where
  "limits_valid lm \<longleftrightarrow> \<not> (lm_max_events lm < 1 \<or> lm_max_event_bytes lm < 1 \<or> lm_max_event_age lm \<le> 0
     \<or> lm_detach_ttl lm \<le> 0 \<or> lm_max_tracked lm < 1)"

definition default_limits :: lease_limits where
  "default_limits = \<lparr>lm_max_events = 256, lm_max_event_bytes = 4194304, lm_max_event_age = 600,
                     lm_detach_ttl = 1800, lm_max_tracked = 64\<rparr>"

definition valid_local_request_id :: "json \<Rightarrow> bool" where
  "valid_local_request_id rid =
     (case rid of
        JStr s \<Rightarrow> (case utf8_size s of
                     None \<Rightarrow> False
                   | Some n \<Rightarrow> 1 \<le> int n \<and> int n \<le> MAX_LOCAL_REQUEST_ID_BYTES)
      | JInt i \<Rightarrow> - (2 ^ 63) \<le> i \<and> i < 2 ^ 63
      | _ \<Rightarrow> False)"

section \<open>State\<close>

record retained_event =
  re_seq :: int
  re_text :: pystr
  re_size :: int
  re_stored_at :: int

record attachment =
  at_replay :: "retained_event list"
  at_gap :: bool
  at_preamble :: "pystr option"
  at_recovery :: bool
  at_replay_complete :: "pystr option"
  at_live :: "pystr list"
  at_live_bytes :: int
  at_detached :: bool
  at_detach_reason :: "string option"
  at_outbound :: "nat list"          \<comment> \<open>registered outbound tasks\<close>

type_synonym waiter = "json \<times> nat"    \<comment> \<open>request id and attachment\<close>

record submission_record =
  sr_request_id :: json
  sr_outcome :: "dict option"
  sr_waiters :: "waiter list"

record mutation_record =
  mr_fingerprint :: pystr
  mr_outcome :: "dict option"
  mr_waiters :: "waiter list"

datatype local_task =
    ReadTask json nat                 \<comment> \<open>request id and attachment\<close>
  | MutationTask nat pystr            \<comment> \<open>mutation record and its identity\<close>

record lease =
  ls_device_id :: pystr
  ls_channel :: pystr
  ls_profile :: pystr
  ls_lease_id :: pystr
  ls_limits :: lease_limits
  ls_has_dispatcher :: bool
  ls_recovery_enabled :: bool
  ls_projection :: projection
  ls_websocket :: vws
  ls_ring :: "retained_event list"
  ls_ring_bytes :: int
  ls_last_seq :: int
  ls_trimmed_through :: int
  ls_attachment :: "nat option"
  ls_objects :: "attachment list"
  ls_submissions :: "(pystr, submission_record) odict"
  ls_mutations :: "(pystr, nat) odict"
  ls_mutation_objects :: "mutation_record list"
  ls_tasks :: "local_task list"
  ls_outbound :: "nat list"
  ls_cancelled :: "nat list"          \<comment> \<open>outbound tasks whose cancellation was requested\<close>
  ls_current_task :: "nat option"     \<comment> \<open>\<open>asyncio.current_task()\<close> of the running step\<close>
  ls_scheduled :: "string list"       \<comment> \<open>releases handed to \<open>ensure_future\<close>\<close>
  ls_pumping :: bool
  ls_expiry_armed :: bool
  ls_released :: bool
  ls_release_reason :: "string option"
  ls_finished :: bool                 \<comment> \<open>\<open>_finish_release\<close> has run\<close>
  ls_release_succeeded :: bool
  ls_close_calls :: nat               \<comment> \<open>calls of \<open>close_controller\<close>\<close>

definition new_lease ::
  "pystr \<Rightarrow> pystr \<Rightarrow> pystr \<Rightarrow> pystr \<Rightarrow> lease_limits \<Rightarrow> bool \<Rightarrow> projection \<Rightarrow> vws \<Rightarrow> string + lease" where
  "new_lease device_id channel profile lease_id limits has_dispatcher pj ws =
     (if device_id = [] \<or> length device_id > 128 then Inl ''invalid device identifier''
      else if profile = [] then Inl ''invalid profile''
      else if length channel > 64 then Inl ''invalid lease channel''
      else if \<not> limits_valid limits then Inl ''lease limits must be positive''
      else Inr \<lparr>ls_device_id = device_id, ls_channel = channel, ls_profile = profile, ls_lease_id = lease_id,
                ls_limits = limits, ls_has_dispatcher = has_dispatcher, ls_recovery_enabled = False,
                ls_projection = pj, ls_websocket = ws, ls_ring = [], ls_ring_bytes = 0, ls_last_seq = 0,
                ls_trimmed_through = 0, ls_attachment = None, ls_objects = [], ls_submissions = [],
                ls_mutations = [], ls_mutation_objects = [], ls_tasks = [], ls_outbound = [],
                ls_cancelled = [], ls_current_task = None, ls_scheduled = [], ls_pumping = False,
                ls_expiry_armed = False, ls_released = False, ls_release_reason = None,
                ls_finished = False, ls_release_succeeded = False, ls_close_calls = 0\<rparr>)"

abbreviation the_attachment :: "lease \<Rightarrow> nat \<Rightarrow> attachment" where
  "the_attachment l k \<equiv> ls_objects l ! k"

definition upd_attachment :: "nat \<Rightarrow> (attachment \<Rightarrow> attachment) \<Rightarrow> lease \<Rightarrow> lease" where
  "upd_attachment k f l = l\<lparr>ls_objects := (ls_objects l)[k := f (ls_objects l ! k)]\<rparr>"

section \<open>Expiry\<close>

definition schedule_expiry :: "lease \<Rightarrow> lease" where
  "schedule_expiry l = l\<lparr>ls_expiry_armed := \<not> ls_released l \<and> ls_attachment l = None\<rparr>"

definition cancel_expiry :: "lease \<Rightarrow> lease" where
  "cancel_expiry l = l\<lparr>ls_expiry_armed := False\<rparr>"

definition lease_start :: "lease \<Rightarrow> lease" where
  "lease_start l =
     (if ls_released l \<or> ls_pumping l then l else schedule_expiry (l\<lparr>ls_pumping := True\<rparr>))"

section \<open>Attachments\<close>

definition cleared :: "attachment \<Rightarrow> attachment" where
  "cleared a = a\<lparr>at_preamble := None, at_replay_complete := None, at_replay := [], at_live := [], at_live_bytes := 0\<rparr>"

definition mark_detached :: "nat \<Rightarrow> string \<Rightarrow> lease \<Rightarrow> lease" where
  "mark_detached k reason l =
     (let doomed = filter (\<lambda>t. Some t \<noteq> ls_current_task l \<and> t \<notin> set (ls_cancelled l)) (at_outbound (the_attachment l k)) in
      upd_attachment k
        (\<lambda>a. let a1 = (if reason = ''lease_released'' \<or> reason = ''attachment_replaced'' then cleared a else a)
             in if \<not> at_detached a1 then a1\<lparr>at_detached := True, at_detach_reason := Some reason\<rparr> else a1)
        (l\<lparr>ls_cancelled := ls_cancelled l @ doomed\<rparr>))"

definition lease_detach :: "nat \<Rightarrow> string \<Rightarrow> lease \<Rightarrow> lease" where
  "lease_detach k reason l =
     mark_detached k reason
       (if ls_attachment l = Some k then schedule_expiry (l\<lparr>ls_attachment := None\<rparr>) else l)"

definition att_full :: "lease_limits \<Rightarrow> attachment \<Rightarrow> int \<Rightarrow> bool" where
  "att_full limits a sz \<longleftrightarrow> int (length (at_live a)) \<ge> lm_max_events limits
     \<or> at_live_bytes a + sz > lm_max_event_bytes limits"

definition att_push :: "pystr \<Rightarrow> int \<Rightarrow> attachment \<Rightarrow> attachment" where
  "att_push t sz a = a\<lparr>at_live := at_live a @ [t], at_live_bytes := at_live_bytes a + sz\<rparr>"

definition att_deliver :: "nat \<Rightarrow> pystr \<Rightarrow> int \<Rightarrow> lease \<Rightarrow> lease" where
  "att_deliver k t sz l =
     (if att_full (ls_limits l) (the_attachment l k) sz then lease_detach k ''attachment_backpressure'' l
      else upd_attachment k (att_push t sz) l)"

definition register_outbound :: "nat \<Rightarrow> nat \<Rightarrow> lease \<Rightarrow> ('r lease_error + unit) \<times> lease" where
  "register_outbound k task l =
     (if at_detached (the_attachment l k) \<or> ls_released l then (Inl (SessionLeaseError ''attachment_detached''), l)
      else (Inr (), (upd_attachment k (\<lambda>a. a\<lparr>at_outbound := List.insert task (at_outbound a)\<rparr>) l)
              \<lparr>ls_outbound := List.insert task (ls_outbound l)\<rparr>))"

definition unregister_outbound :: "nat \<Rightarrow> nat \<Rightarrow> lease \<Rightarrow> lease" where
  "unregister_outbound k task l =
     (upd_attachment k (\<lambda>a. a\<lparr>at_outbound := removeAll task (at_outbound a)\<rparr>) l)
       \<lparr>ls_outbound := removeAll task (ls_outbound l)\<rparr>"

definition frame_text :: "pystr \<Rightarrow> retained_event \<Rightarrow> bool \<Rightarrow> pystr" where
  "frame_text lease_id event replay =
     dumps (JObj [(lit ''jsonrpc'', JStr (lit ''2.0'')), (lit ''method'', JStr (lit ''relay.lease.frame'')),
       (lit ''params'', JObj [(lit ''lease_id'', JStr lease_id), (lit ''seq'', JInt (re_seq event)),
          (lit ''replay'', JBool replay), (lit ''frame'', JStr (re_text event))])])"

definition replay_frame :: "pystr \<Rightarrow> attachment \<Rightarrow> retained_event \<Rightarrow> pystr" where
  "replay_frame lease_id a event = (if at_recovery a then frame_text lease_id event True else re_text event)"

text \<open>\<open>next_text\<close>: \<open>Inr None\<close> is a wait that has not ended.\<close>

definition att_pop :: "pystr \<Rightarrow> attachment \<Rightarrow> pystr option \<times> attachment" where
  \<comment> \<open>the next queued frame, in the order preamble, replay, end of replay, live\<close>
  "att_pop lease_id a =
     (case at_preamble a of
        Some t \<Rightarrow> (Some t, a\<lparr>at_preamble := None\<rparr>)
      | None \<Rightarrow>
     (case at_replay a of
        event # rest \<Rightarrow> (Some (replay_frame lease_id a event), a\<lparr>at_replay := rest\<rparr>)
      | [] \<Rightarrow>
     (case at_replay_complete a of
        Some t \<Rightarrow> (Some t, a\<lparr>at_replay_complete := None\<rparr>)
      | None \<Rightarrow>
     (case at_live a of
        t # rest \<Rightarrow> (Some t, a\<lparr>at_live := rest, at_live_bytes := at_live_bytes a - text_size t\<rparr>)
      | [] \<Rightarrow> (None, a)))))"

definition next_text :: "nat \<Rightarrow> lease \<Rightarrow> ('r lease_error + pystr option) \<times> lease" where
  "next_text k l =
     (if ls_released l then (Inl LeaseReleased, l)
      else (case att_pop (ls_lease_id l) (the_attachment l k) of
              (Some t, a) \<Rightarrow> (Inr (Some t), upd_attachment k (\<lambda>_. a) l)
            | (None, _) \<Rightarrow>
                if at_detached (the_attachment l k)
                then (case at_detach_reason (the_attachment l k) of
                        None \<Rightarrow> (Inl (SessionLeaseError ''attachment_detached''), l)
                      | Some reason \<Rightarrow> if reason = ''lease_released'' then (Inl LeaseReleased, l)
                                       else (Inl (SessionLeaseError reason), l))
                else (Inr None, l)))"

section \<open>Attaching\<close>

record attach_env =
  ae_clock :: int                       \<comment> \<open>monotonic clock in \<open>_trim\<close>\<close>
  ae_wall :: int                        \<comment> \<open>wall clock of the recovery store\<close>
  ae_authorizer :: "pystr \<Rightarrow> bool"
  ae_relay_token :: "pystr option"      \<comment> \<open>the provider's token, \<open>None\<close> when it raises\<close>
  ae_capabilities :: "json option"      \<comment> \<open>of an available push bridge\<close>

definition must_drop :: "lease_limits \<Rightarrow> int \<Rightarrow> int \<Rightarrow> retained_event list \<Rightarrow> bool" where
  "must_drop limits now bytes ring \<longleftrightarrow>
     (case ring of [] \<Rightarrow> False
      | e # _ \<Rightarrow> int (length ring) > lm_max_events limits \<or> bytes > lm_max_event_bytes limits
                  \<or> now - re_stored_at e > lm_max_event_age limits)"

fun trim_ring ::
  "lease_limits \<Rightarrow> int \<Rightarrow> bool \<Rightarrow> int \<Rightarrow> int \<Rightarrow> retained_event list \<Rightarrow> bool \<times> int \<times> int \<times> retained_event list" where
  \<comment> \<open>the loop of \<open>_trim\<close>: overflow, bytes, \<open>trimmed_through\<close> and the ring\<close>
  "trim_ring limits now overflow bytes through [] = (overflow, bytes, through, [])"
| "trim_ring limits now overflow bytes through (e # ring) =
     (if must_drop limits now bytes (e # ring)
      then trim_ring limits now
             (overflow \<or> int (length ring) + 1 > lm_max_events limits
              \<or> bytes - re_size e + re_size e > lm_max_event_bytes limits)
             (bytes - re_size e) (re_seq e) ring
      else (overflow, bytes, through, e # ring))"

definition lease_trim :: "int \<Rightarrow> lease \<Rightarrow> bool \<times> lease" where
  "lease_trim now l =
     (case trim_ring (ls_limits l) now False (ls_ring_bytes l) (ls_trimmed_through l) (ls_ring l) of
        (overflow, bytes, through, ring) \<Rightarrow>
          (overflow, l\<lparr>ls_ring_bytes := bytes, ls_trimmed_through := through, ls_ring := ring\<rparr>))"

definition attach_params ::
  "attach_env \<Rightarrow> bool \<Rightarrow> bool \<Rightarrow> int \<Rightarrow> bool \<Rightarrow> retained_event list \<Rightarrow> dict \<Rightarrow> lease \<Rightarrow> dict" where
  "attach_params env recovery recovery_reset cursor gap replay snap l =
     (case ae_relay_token env of Some t \<Rightarrow> if t = [] then [] else [(lit ''relay_token'', JStr t)] | None \<Rightarrow> [])
     @ (case ae_capabilities env of Some c \<Rightarrow> [(lit ''capabilities'', c)] | None \<Rightarrow> [])
     @ [(lit ''last_seq'', JInt (ls_last_seq l)), (lit ''replay_gap'', JBool gap),
        (lit ''replayed_from'', case replay of [] \<Rightarrow> JNull | e # _ \<Rightarrow> JInt (re_seq e)),
        (lit ''resume_cursor'', JInt cursor)]
     @ (if recovery
        then [(lit ''recovery_version'', JInt 1), (lit ''lease_id'', JStr (ls_lease_id l)),
              (lit ''recovery_reset'', JBool recovery_reset), (lit ''snapshot_through'', JInt (ls_last_seq l))] @ snap
        else [])"

definition attach_preamble :: "dict \<Rightarrow> pystr" where
  "attach_preamble params =
     dumps_ascii_compact (sort_keys (JObj [(lit ''jsonrpc'', JStr (lit ''2.0'')),
       (lit ''method'', JStr (lit ''relay.lease.attached'')), (lit ''params'', JObj params)]))"

definition replay_complete_text :: "lease \<Rightarrow> pystr" where
  "replay_complete_text l =
     dumps_ascii (JObj [(lit ''jsonrpc'', JStr (lit ''2.0'')),
       (lit ''method'', JStr (lit ''relay.lease.replay_complete'')),
       (lit ''params'', JObj [(lit ''lease_id'', JStr (ls_lease_id l)), (lit ''last_seq'', JInt (ls_last_seq l))])])"

definition new_attachment :: "lease \<Rightarrow> retained_event list \<Rightarrow> bool \<Rightarrow> pystr \<Rightarrow> bool \<Rightarrow> attachment" where
  "new_attachment l replay gap preamble recovery =
     \<lparr>at_replay = replay, at_gap = gap, at_preamble = Some preamble, at_recovery = recovery,
      at_replay_complete = (if recovery then Some (replay_complete_text l) else None),
      at_live = [], at_live_bytes = 0, at_detached = False, at_detach_reason = None, at_outbound = []\<rparr>"

definition publish_attachment :: "attachment \<Rightarrow> bool \<Rightarrow> lease \<Rightarrow> lease" where
  \<comment> \<open>invalidate the old attachment, if any, and make the new one current\<close>
  "publish_attachment a recovery l =
     (let l1 = (case ls_attachment l of None \<Rightarrow> l | Some old \<Rightarrow> mark_detached old ''attachment_replaced'' l) in
      cancel_expiry (l1\<lparr>ls_recovery_enabled := ls_recovery_enabled l1 \<or> recovery,
                        ls_objects := ls_objects l1 @ [a], ls_attachment := Some (length (ls_objects l1))\<rparr>))"

definition lease_attach ::
  "attach_env \<Rightarrow> int \<Rightarrow> bool \<Rightarrow> bool \<Rightarrow> bool \<Rightarrow> lease \<Rightarrow> store_ref
     \<Rightarrow> ('r lease_error + nat) \<times> lease \<times> store_ref" where
  "lease_attach env cursor recovery recovery_reset replace_attached l store =
     (if ls_released l then (Inl LeaseReleased, l, store)
      else if \<not> (0 \<le> cursor \<and> cursor \<le> MAX_CURSOR) then (Inl (LeaseAttachRejected ''invalid_cursor''), l, store)
      else if cursor > ls_last_seq l then (Inl (LeaseAttachRejected ''cursor_ahead''), l, store)
      else if ls_attachment l \<noteq> None \<and> \<not> (recovery \<and> replace_attached)
      then (Inl (LeaseAttachRejected ''already_attached''), l, store)
      else
        let l1 = snd (lease_trim (ae_clock env) l);
            replay = filter (\<lambda>e. re_seq e > cursor) (ls_ring l1);
            gap = (cursor < ls_trimmed_through l1);
            (snap, store') = (if recovery then pj_snapshot (ae_wall env) (ae_authorizer env) (ls_projection l1) store
                              else ([], store));
            preamble = attach_preamble (attach_params env recovery recovery_reset cursor gap replay snap l1);
            a = new_attachment l1 replay gap preamble recovery
        in (Inr (length (ls_objects l1)), publish_attachment a recovery l1, store'))"

section \<open>Local responses\<close>

definition deliver_local :: "dict \<Rightarrow> nat \<Rightarrow> lease \<Rightarrow> ('r lease_error + unit) \<times> lease" where
  "deliver_local response k l =
     (if ls_released l \<or> ls_attachment l \<noteq> Some k \<or> at_detached (the_attachment l k) then (Inr (), l)
      else let t = dumps (JObj response) in
           (case utf8_size t of
              None \<Rightarrow> (Inl LeaseUnicodeError, l)
            | Some n \<Rightarrow> (Inr (), att_deliver k t (int n) l)))"

definition deliver_outcome :: "dict \<Rightarrow> json \<Rightarrow> nat \<Rightarrow> lease \<Rightarrow> ('r lease_error + unit) \<times> lease" where
  "deliver_outcome outcome request_id k l =
     deliver_local ([(lit ''jsonrpc'', JStr (lit ''2.0'')), (lit ''id'', request_id)] @ outcome) k l"

fun deliver_outcomes :: "dict \<Rightarrow> waiter list \<Rightarrow> lease \<Rightarrow> ('r lease_error + unit) \<times> lease" where
  "deliver_outcomes outcome [] l = (Inr (), l)"
| "deliver_outcomes outcome ((rid, k) # ws) l =
     (case deliver_outcome outcome rid k l of
        (Inl e, l') \<Rightarrow> (Inl e, l')
      | (Inr _, l') \<Rightarrow> deliver_outcomes outcome ws l')"

definition local_error :: "json \<Rightarrow> pystr \<Rightarrow> dict" where
  "local_error request_id message =
     [(lit ''jsonrpc'', JStr (lit ''2.0'')), (lit ''id'', request_id),
      (lit ''error'', JObj [(lit ''code'', JInt (- 32000)), (lit ''message'', JStr message)])]"

section \<open>Retaining controller output\<close>

definition id_eq :: "json \<Rightarrow> json \<Rightarrow> bool" where
  \<comment> \<open>\<open>==\<close> of request ids: numbers compare by value\<close>
  "id_eq a b =
     (case (case a of JBool x \<Rightarrow> Some (if x then 1 else 0) | _ \<Rightarrow> num_value a,
            case b of JBool x \<Rightarrow> Some (if x then 1 else 0) | _ \<Rightarrow> num_value b) of
        (Some x, Some y) \<Rightarrow> x = y
      | _ \<Rightarrow> a = b)"

definition response_outcome :: "dict \<Rightarrow> dict option" where
  "response_outcome v =
     (if jhas v ''result'' then Some [(lit ''result'', jget v ''result'')]
      else if jhas v ''error'' then Some [(lit ''error'', jget v ''error'')]
      else None)"

definition awaiting :: "json \<Rightarrow> (pystr, submission_record) odict \<Rightarrow> (pystr \<times> submission_record) option" where
  "awaiting response_id subs = List.find (\<lambda>(sid, r). sr_outcome r = None \<and> id_eq (sr_request_id r) response_id) subs"

definition record_outcome :: "nat \<Rightarrow> pystr \<Rightarrow> lease \<Rightarrow> ('r lease_error + unit) \<times> lease" where
  "record_outcome recursion_limit t l =
     (if ls_submissions l = [] then (Inr (), l)
      else (case loads_strict recursion_limit t of
              Some (JObj v) \<Rightarrow>
                if jhas v ''method'' \<or> jget v ''id'' = JNull then (Inr (), l)
                else (case (awaiting (jget v ''id'') (ls_submissions l), response_outcome v) of
                        (Some (sid, r), Some outcome) \<Rightarrow>
                          deliver_outcomes outcome (sr_waiters r)
                            (l\<lparr>ls_submissions := AList.update sid (r\<lparr>sr_outcome := Some outcome, sr_waiters := []\<rparr>)
                                 (ls_submissions l)\<rparr>)
                      | _ \<Rightarrow> (Inr (), l))
            | _ \<Rightarrow> (Inr (), l)))"

record pump_env =
  pm_limit :: nat                       \<comment> \<open>recursion limit of the JSON reader\<close>
  pm_clock :: int
  pm_authorizer :: "pystr \<Rightarrow> bool"
  pm_puts :: "nat \<Rightarrow> put_env"

definition retain_event :: "int \<Rightarrow> pystr \<Rightarrow> lease \<Rightarrow> lease" where
  \<comment> \<open>append to the ring, trim, and forward to the attachment or give up\<close>
  "retain_event now t l =
     (let event = \<lparr>re_seq = ls_last_seq l, re_text = t, re_size = text_size t, re_stored_at = now\<rparr>;
          (overflow, l1) = lease_trim now (l\<lparr>ls_ring := ls_ring l @ [event],
                                              ls_ring_bytes := ls_ring_bytes l + text_size t\<rparr>)
      in (case ls_attachment l1 of
            None \<Rightarrow> if overflow \<and> \<not> ls_recovery_enabled l1
                    then l1\<lparr>ls_scheduled := ls_scheduled l1 @ [''retention_cap'']\<rparr> else l1
          | Some k \<Rightarrow>
              let frame = (if at_recovery (the_attachment l1 k) then frame_text (ls_lease_id l1) event False else t)
              in att_deliver k frame (text_size frame) l1))"

definition lease_retain ::
  "pump_env \<Rightarrow> pystr \<Rightarrow> lease \<Rightarrow> store_ref \<Rightarrow> ('r lease_error + unit) \<times> lease \<times> store_ref" where
  \<comment> \<open>\<open>_retain\<close>; the push observer, whose exceptions are suppressed, does not touch the lease\<close>
  "lease_retain env t l store =
     (let l1 = l\<lparr>ls_last_seq := ls_last_seq l + 1\<rparr> in
      if utf8_size t = None then (Inl LeaseUnicodeError, l1, store)
      else (case record_outcome (pm_limit env) t l1 of
              (Inl e, l2) \<Rightarrow> (Inl e, l2, store)
            | (Inr _, l2) \<Rightarrow>
                (case pj_observe (pm_limit env) (pm_authorizer env) (pm_puts env) t (ls_projection l2) store of
                   (Inl e, pj, store') \<Rightarrow> (Inl (LeaseRecoveryError e), l2\<lparr>ls_projection := pj\<rparr>, store')
                 | (Inr _, pj, store') \<Rightarrow> (Inr (), retain_event (pm_clock env) t (l2\<lparr>ls_projection := pj\<rparr>), store'))))"

section \<open>Release\<close>

definition lease_release :: "string \<Rightarrow> lease \<Rightarrow> bool \<times> lease" where
  \<comment> \<open>\<open>release\<close> up to the creation of the cleanup task: the fence\<close>
  "lease_release reason l =
     (if ls_released l then (False, l)
      else let l1 = l\<lparr>ls_released := True, ls_release_reason := Some reason, ls_attachment := None\<rparr> in
           (True, case ls_attachment l of None \<Rightarrow> l1 | Some k \<Rightarrow> mark_detached k ''lease_released'' l1))"

definition finish_release :: "bool \<Rightarrow> lease \<Rightarrow> lease" where
  \<comment> \<open>\<open>_finish_release\<close> after the cancelled tasks have been joined\<close>
  "finish_release close_ok l =
     (if \<not> ls_released l \<or> ls_finished l then l
      else l\<lparr>ls_finished := True, ls_expiry_armed := False, ls_pumping := False,
             ls_cancelled := ls_cancelled l @ filter (\<lambda>t. t \<notin> set (ls_cancelled l)) (ls_outbound l),
             ls_tasks := [], ls_outbound := [], ls_ring := [], ls_ring_bytes := 0,
             ls_submissions := [], ls_mutations := [],
             ls_websocket := vws_close (ls_websocket l) 1000 (lit ''lease_released''),
             ls_close_calls := ls_close_calls l + 1, ls_release_succeeded := close_ok\<rparr>)"

definition pump_step :: "pump_env \<Rightarrow> lease \<Rightarrow> store_ref \<Rightarrow> lease \<times> store_ref" where
  \<comment> \<open>one turn of \<open>_pump\<close>; an exception ends the pump and releases the lease\<close>
  "pump_step env l store =
     (if \<not> ls_pumping l then (l, store)
      else (case vws_next_text (ls_websocket l) of
              (Inr None, _) \<Rightarrow> (l, store)
            | (Inl _, ws) \<Rightarrow> (snd (lease_release ''controller_closed'' (l\<lparr>ls_websocket := ws, ls_pumping := False\<rparr>)), store)
            | (Inr (Some t), ws) \<Rightarrow>
                (case lease_retain env t (l\<lparr>ls_websocket := ws\<rparr>) store :: (unit lease_error + unit) \<times> lease \<times> store_ref of
                   (Inl _, l', store') \<Rightarrow> (snd (lease_release ''controller_failed'' (l'\<lparr>ls_pumping := False\<rparr>)), store')
                 | (Inr _, l', store') \<Rightarrow> (l', store'))))"

end
