(* ===== verification/Lease_Submit.thy ===== *)
theory Lease_Submit
  imports Session_Lease
begin

text \<open>
  What a device sends through its attachment, in \<^verbatim>\<open>session_lease.py\<close>: prompts go through a
  ledger that dispatches a submission id once, reads and mutations local to the relay run as
  tasks, and everything else goes to the controller's WebSocket, whose validator is the
  method policy. Then the lease as a state machine: one event per step of the code that runs
  without awaiting.
\<close>

section \<open>Local methods\<close>

definition RELAY_READ_METHODS :: "pystr list" where
  "RELAY_READ_METHODS = map lit [''relay.status'', ''relay.sessions.list'', ''relay.session.transcript'', ''relay.image.read'']"

definition RELAY_FOLDER_METHODS :: "pystr list" where
  "RELAY_FOLDER_METHODS = map lit [''relay.folders.list'', ''relay.folders.create'']"

definition RELAY_PUSH_METHODS :: "pystr list" where
  "RELAY_PUSH_METHODS = map lit [''relay.push.register'', ''relay.push.preview.register'', ''relay.push.unregister'',
     ''relay.push.resolve'', ''relay.push.inspect'']"

definition RELAY_LOCAL_METHODS :: "pystr list" where
  "RELAY_LOCAL_METHODS = RELAY_READ_METHODS @ RELAY_FOLDER_METHODS @ RELAY_PUSH_METHODS"

definition RELAY_MUTATION_METHODS :: "pystr list" where
  "RELAY_MUTATION_METHODS = map lit [''relay.folders.create'']"

definition LOCAL_REQUEST_FIELDS :: "pystr list" where
  "LOCAL_REQUEST_FIELDS = map lit [''jsonrpc'', ''id'', ''method'', ''params'']"

definition local_request_ok :: "dict \<Rightarrow> bool" where
  \<comment> \<open>the checks \<open>_start_read\<close> and \<open>_start_mutation\<close> share\<close>
  "local_request_ok req \<longleftrightarrow>
     jget req ''jsonrpc'' = JStr (lit ''2.0'')
     \<and> list_all (\<lambda>(k, v). k \<in> set LOCAL_REQUEST_FIELDS) req
     \<and> (case jget req ''id'' of JStr s \<Rightarrow> s \<noteq> [] | JInt _ \<Rightarrow> True | _ \<Rightarrow> False)
     \<and> (case jget_or req ''params'' (JObj []) of JObj _ \<Rightarrow> True | _ \<Rightarrow> False)"

definition start_read :: "dict \<Rightarrow> nat \<Rightarrow> lease \<Rightarrow> ('r lease_error + unit) \<times> lease" where
  "start_read req k l =
     (if \<not> local_request_ok req \<or> \<not> valid_local_request_id (jget req ''id'')
      then (Inl (SessionLeaseError ''invalid_read_request''), l)
      else if length (ls_tasks l) \<ge> MAX_READS_IN_FLIGHT
      then deliver_local (local_error (jget req ''id'') (lit ''rate_limited'')) k l
      else (Inr (), l\<lparr>ls_tasks := ls_tasks l @ [ReadTask (jget req ''id'') k]\<rparr>))"

section \<open>The ledgers\<close>

definition evict_settled :: "('v \<Rightarrow> bool) \<Rightarrow> ('k, 'v) odict \<Rightarrow> ('k, 'v) odict option" where
  \<comment> \<open>drop the oldest entry whose outcome is known\<close>
  "evict_settled settled_p d =
     (case List.find (\<lambda>(k, v). settled_p v) d of None \<Rightarrow> None | Some (k, v) \<Rightarrow> Some (AList.delete k d))"

definition make_room :: "int \<Rightarrow> ('v \<Rightarrow> bool) \<Rightarrow> ('k, 'v) odict \<Rightarrow> ('k, 'v) odict option" where
  "make_room capacity settled_p d =
     (if int (length d) \<ge> capacity then evict_settled settled_p d else Some d)"

primrec all_finite :: "json \<Rightarrow> bool" where
  \<comment> \<open>\<open>allow_nan=False\<close> raises on an infinite float\<close>
  "all_finite JNull = True" | "all_finite (JBool b) = True" | "all_finite (JInt i) = True"
| "all_finite (JFloat t) = float_finite t" | "all_finite (JStr s) = True"
| "all_finite (JArr vs) = list_all id (map all_finite vs)"
| "all_finite (JObj kvs) = list_all snd (map (map_prod id all_finite) kvs)"

definition canonical :: "dict \<Rightarrow> bytes" where
  "canonical d = ascii_encode (dumps_ascii_compact (sort_keys (JObj d)))"

definition mutation_fingerprint :: "(bytes \<Rightarrow> pystr) \<Rightarrow> dict \<Rightarrow> pystr" where
  \<comment> \<open>\<open>sha256\<close> is the hexadecimal digest\<close>
  "mutation_fingerprint sha256 req =
     sha256 (canonical [(lit ''method'', jget req ''method''), (lit ''params'', jget_or req ''params'' (JObj []))])"

definition mutation_identity :: "(bytes \<Rightarrow> pystr) \<Rightarrow> dict \<Rightarrow> pystr" where
  "mutation_identity sha256 req = sha256 (canonical [(lit ''method'', jget req ''method''), (lit ''id'', jget req ''id'')])"

definition repeat_mutation :: "dict \<Rightarrow> pystr \<Rightarrow> nat \<Rightarrow> nat \<Rightarrow> lease \<Rightarrow> ('r lease_error + unit) \<times> lease" where
  \<comment> \<open>a request whose identity has a record: object number \<open>n\<close>\<close>
  "repeat_mutation req fingerprint n k l =
     (let r = ls_mutation_objects l ! n; rid = jget req ''id'' in
      if mr_fingerprint r \<noteq> fingerprint then deliver_local (local_error rid (lit ''invalid_params'')) k l
      else (case mr_outcome r of
              Some outcome \<Rightarrow> deliver_outcome outcome rid k l
            | None \<Rightarrow>
                if list_ex (\<lambda>(w, j). id_eq w rid \<and> j = k) (mr_waiters r) then (Inr (), l)
                else (Inr (), l\<lparr>ls_mutation_objects := (ls_mutation_objects l)[n := r\<lparr>mr_waiters := [(rid, k)]\<rparr>]\<rparr>)))"

definition start_mutation ::
  "(bytes \<Rightarrow> pystr) \<Rightarrow> dict \<Rightarrow> nat \<Rightarrow> lease \<Rightarrow> ('r lease_error + unit) \<times> lease" where
  "start_mutation sha256 req k l =
     (if \<not> local_request_ok req \<or> \<not> valid_local_request_id (jget req ''id'')
         \<or> \<not> all_finite (jget_or req ''params'' (JObj []))
      then (Inl (SessionLeaseError ''invalid_read_request''), l)
      else
        let identity = mutation_identity sha256 req; fingerprint = mutation_fingerprint sha256 req;
            rid = jget req ''id''
        in (case map_of (ls_mutations l) identity of
              Some n \<Rightarrow> repeat_mutation req fingerprint n k
                          (l\<lparr>ls_mutations := od_move_to_end identity (ls_mutations l)\<rparr>)
            | None \<Rightarrow>
                (case make_room (min (lm_max_tracked (ls_limits l)) MAX_LOCAL_MUTATIONS)
                        (\<lambda>n. mr_outcome (ls_mutation_objects l ! n) \<noteq> None) (ls_mutations l) of
                   None \<Rightarrow> deliver_local (local_error rid (lit ''rate_limited'')) k l
                 | Some mutations \<Rightarrow>
                     let n = length (ls_mutation_objects l) in
                     (Inr (), l\<lparr>ls_mutation_objects := ls_mutation_objects l
                                  @ [\<lparr>mr_fingerprint = fingerprint, mr_outcome = None, mr_waiters = [(rid, k)]\<rparr>],
                                ls_mutations := AList.update identity n mutations,
                                ls_tasks := ls_tasks l @ [MutationTask n identity]\<rparr>))))"

section \<open>The end of a local task\<close>

datatype dispatch_result =
    DispatchOk json
  | DispatchError pystr          \<comment> \<open>\<open>SessionReadsError\<close> with its reason\<close>
  | DispatchFailed               \<comment> \<open>any other exception\<close>

definition dispatch_outcome :: "dispatch_result \<Rightarrow> dict" where
  "dispatch_outcome r =
     (case r of
        DispatchOk v \<Rightarrow> [(lit ''result'', v)]
      | DispatchError reason \<Rightarrow>
          [(lit ''error'', JObj [(lit ''code'', JInt (- 32000)), (lit ''message'', JStr reason)])]
      | DispatchFailed \<Rightarrow>
          [(lit ''error'', JObj [(lit ''code'', JInt (- 32000)), (lit ''message'', JStr (lit ''read_failed''))])])"

definition finish_mutation :: "nat \<Rightarrow> pystr \<Rightarrow> dict \<Rightarrow> lease \<Rightarrow> lease" where
  "finish_mutation n identity outcome l =
     (if ls_released l then l
      else let r = ls_mutation_objects l ! n;
               l1 = l\<lparr>ls_mutation_objects :=
                        (ls_mutation_objects l)[n := r\<lparr>mr_outcome := Some outcome, mr_waiters := []\<rparr>]\<rparr>
           in (case deliver_outcomes outcome (mr_waiters r) l1 :: (unit lease_error + unit) \<times> lease of
                 (Inl _, l2) \<Rightarrow> l2
               | (Inr _, l2) \<Rightarrow>
                   if jhas outcome ''error'' \<and> map_of (ls_mutations l2) identity = Some n
                   then l2\<lparr>ls_mutations := AList.delete identity (ls_mutations l2)\<rparr> else l2))"

definition finish_task :: "nat \<Rightarrow> dispatch_result \<Rightarrow> lease \<Rightarrow> lease" where
  "finish_task i result l =
     (if i \<ge> length (ls_tasks l) then l
      else let l1 = l\<lparr>ls_tasks := take i (ls_tasks l) @ drop (i + 1) (ls_tasks l)\<rparr> in
           (case ls_tasks l ! i of
              ReadTask rid k \<Rightarrow> snd (deliver_outcome (dispatch_outcome result) rid k l1 :: (unit lease_error + unit) \<times> lease)
            | MutationTask n identity \<Rightarrow> finish_mutation n identity (dispatch_outcome result) l1))"

section \<open>Submissions\<close>

definition parse_submission :: "json option \<Rightarrow> 'r lease_error + (pystr \<times> json) option" where
  "parse_submission v =
     (case v of
        Some (JObj req) \<Rightarrow>
          if jget req ''method'' \<noteq> JStr (lit ''prompt.submit'') then Inr None
          else (case jget req ''params'' of
                  JObj params \<Rightarrow>
                    if \<not> jhas params ''submission_id'' then Inr None
                    else (case jget params ''submission_id'' of
                            JStr sid \<Rightarrow>
                              if 1 \<le> length sid \<and> length sid \<le> MAX_SUBMISSION_ID_TEXT
                              then Inr (Some (sid, jget req ''id''))
                              else Inl (SessionLeaseError ''invalid_submission_id'')
                          | _ \<Rightarrow> Inl (SessionLeaseError ''invalid_submission_id''))
                | _ \<Rightarrow> Inr None)
      | _ \<Rightarrow> Inr None)"

definition is_websocket_error :: "'r feed_error \<Rightarrow> bool" where
  \<comment> \<open>an instance of \<open>VirtualWebSocketError\<close>\<close>
  "is_websocket_error e =
     (case e of FeedError VwsClosed \<Rightarrow> True | FeedError VwsFrameTooLarge \<Rightarrow> True
      | FeedError (VwsBackpressure _) \<Rightarrow> True | _ \<Rightarrow> False)"

definition first_submission ::
  "'r validator \<Rightarrow> pystr \<Rightarrow> pystr \<Rightarrow> json \<Rightarrow> lease \<Rightarrow> ('r lease_error + unit) \<times> lease" where
  "first_submission validator t sid rid l =
     (case make_room (lm_max_tracked (ls_limits l)) (\<lambda>r. sr_outcome r \<noteq> None) (ls_submissions l) of
        None \<Rightarrow> (Inl (SessionLeaseError ''submission_tracking_exhausted''), l)
      | Some subs \<Rightarrow>
          let l1 = l\<lparr>ls_submissions := AList.update sid \<lparr>sr_request_id = rid, sr_outcome = None, sr_waiters = []\<rparr> subs\<rparr> in
          (case vws_feed_text validator (ls_websocket l1) t of
             (Inr _, ws) \<Rightarrow> (Inr (), l1\<lparr>ls_websocket := ws\<rparr>)
           | (Inl e, ws) \<Rightarrow>
               (Inl (LeaseFeed e),
                l1\<lparr>ls_websocket := ws,
                   ls_submissions := (if is_websocket_error e then AList.delete sid (ls_submissions l1)
                                      else ls_submissions l1)\<rparr>)))"

definition repeat_submission ::
  "pystr \<Rightarrow> json \<Rightarrow> submission_record \<Rightarrow> nat \<Rightarrow> lease \<Rightarrow> ('r lease_error + unit) \<times> lease" where
  "repeat_submission sid rid r k l =
     (case sr_outcome r of
        Some outcome \<Rightarrow> deliver_outcome outcome rid k l
      | None \<Rightarrow>
          if length (sr_waiters r) < 8 \<and> \<not> list_ex (\<lambda>(w, j). id_eq w rid \<and> j = k) (sr_waiters r)
          then (Inr (), l\<lparr>ls_submissions := AList.update sid (r\<lparr>sr_waiters := sr_waiters r @ [(rid, k)]\<rparr>) (ls_submissions l)\<rparr>)
          else (Inr (), l))"

definition pass_through ::
  "'r validator \<Rightarrow> (pystr \<Rightarrow> bool) \<Rightarrow> json option \<Rightarrow> pystr \<Rightarrow> lease \<Rightarrow> ('r lease_error + unit) \<times> lease" where
  "pass_through validator authorizer v t l =
     (case vws_feed_text validator (ls_websocket l) t of
        (Inl e, ws) \<Rightarrow> (Inl (LeaseFeed e), l\<lparr>ls_websocket := ws\<rparr>)
      | (Inr _, ws) \<Rightarrow>
          (Inr (), l\<lparr>ls_websocket := ws,
                     ls_projection := (case v of None \<Rightarrow> ls_projection l
                                       | Some w \<Rightarrow> pj_request authorizer w (ls_projection l))\<rparr>))"

record submit_env =
  sv_limit :: nat
  sv_sha256 :: "bytes \<Rightarrow> pystr"
  sv_authorizer :: "pystr \<Rightarrow> bool"

definition submit_value ::
  "'r validator \<Rightarrow> submit_env \<Rightarrow> nat \<Rightarrow> json option \<Rightarrow> pystr \<Rightarrow> lease \<Rightarrow> ('r lease_error + unit) \<times> lease" where
  \<comment> \<open>a request that is not a local method\<close>
  "submit_value validator env k v t l =
     (case parse_submission v of
        Inl e \<Rightarrow> (Inl e, l)
      | Inr None \<Rightarrow> pass_through validator (sv_authorizer env) v t l
      | Inr (Some (sid, rid)) \<Rightarrow>
          (case map_of (ls_submissions l) sid of
             None \<Rightarrow> first_submission validator t sid rid l
           | Some r \<Rightarrow> repeat_submission sid rid r k l))"

definition submit_text ::
  "'r validator \<Rightarrow> submit_env \<Rightarrow> nat \<Rightarrow> pystr \<Rightarrow> lease \<Rightarrow> ('r lease_error + unit) \<times> lease" where
  "submit_text validator env k t l =
     (if ls_released l then (Inl LeaseReleased, l)
      else if ls_attachment l \<noteq> Some k then (Inl (SessionLeaseError ''attachment_detached''), l)
      else
        let v = loads_strict (sv_limit env) t in
        (case v of
           Some (JObj req) \<Rightarrow>
             (case jget req ''method'' of
                JArr _ \<Rightarrow> (Inl LeaseTypeError, l)
              | JObj _ \<Rightarrow> (Inl LeaseTypeError, l)
              | JStr method \<Rightarrow>
                  if method \<in> set RELAY_LOCAL_METHODS \<and> ls_has_dispatcher l
                  then (if method \<in> set RELAY_MUTATION_METHODS then start_mutation (sv_sha256 env) req k l
                        else start_read req k l)
                  else submit_value validator env k v t l
              | _ \<Rightarrow> submit_value validator env k v t l)
         | _ \<Rightarrow> submit_value validator env k v t l))"

definition feed_text ::
  "'r validator \<Rightarrow> submit_env \<Rightarrow> nat \<Rightarrow> pystr \<Rightarrow> lease \<Rightarrow> ('r lease_error + unit) \<times> lease" where
  "feed_text validator env k t l =
     (if at_detached (the_attachment l k) then (Inl (SessionLeaseError ''attachment_detached''), l)
      else submit_text validator env k t l)"

section \<open>The lease as a state machine\<close>

datatype lease_event =
    EvStart
  | EvController pystr                                  \<comment> \<open>Hermes sends a frame\<close>
  | EvReceive                                           \<comment> \<open>Hermes takes a frame\<close>
  | EvPump pump_env
  | EvAttach attach_env int bool bool bool
  | EvDetach nat string
  | EvFeed submit_env nat pystr
  | EvNext nat
  | EvTaskDone nat dispatch_result
  | EvRegister nat nat
  | EvUnregister nat nat
  | EvRelease string
  | EvScheduled                                         \<comment> \<open>a release handed to \<open>ensure_future\<close> runs\<close>
  | EvExpire                                            \<comment> \<open>the detach timer fires\<close>
  | EvFinish bool                                       \<comment> \<open>the cleanup task runs; did the controller close?\<close>
  | EvStore store_op                                    \<comment> \<open>another lease uses the shared store\<close>

fun lease_step :: "'r validator \<Rightarrow> lease_event \<Rightarrow> lease \<times> store_ref \<Rightarrow> lease \<times> store_ref" where
  "lease_step validator EvStart (l, store) = (lease_start l, store)"
| "lease_step validator (EvController t) (l, store) = (l\<lparr>ls_websocket := snd (vws_send_text (ls_websocket l) t)\<rparr>, store)"
| "lease_step validator EvReceive (l, store) = (l\<lparr>ls_websocket := snd (vws_receive_text (ls_websocket l))\<rparr>, store)"
| "lease_step validator (EvPump env) (l, store) = pump_step env l store"
| "lease_step validator (EvAttach env cursor recovery reset replace_attached) (l, store) =
     snd (lease_attach env cursor recovery reset replace_attached l store
            :: (unit lease_error + nat) \<times> lease \<times> store_ref)"
| "lease_step validator (EvDetach k reason) (l, store) =
     (if k < length (ls_objects l) then lease_detach k reason l else l, store)"
| "lease_step validator (EvFeed env k t) (l, store) =
     (if k < length (ls_objects l) then snd (feed_text validator env k t l) else l, store)"
| "lease_step validator (EvNext k) (l, store) =
     (if k < length (ls_objects l) then snd (next_text k l :: (unit lease_error + pystr option) \<times> lease) else l, store)"
| "lease_step validator (EvTaskDone i result) (l, store) = (finish_task i result l, store)"
| "lease_step validator (EvRegister k task) (l, store) =
     (if k < length (ls_objects l) then snd (register_outbound k task l :: (unit lease_error + unit) \<times> lease) else l, store)"
| "lease_step validator (EvUnregister k task) (l, store) =
     (if k < length (ls_objects l) then unregister_outbound k task l else l, store)"
| "lease_step validator (EvRelease reason) (l, store) = (snd (lease_release reason l), store)"
| "lease_step validator EvScheduled (l, store) =
     (case ls_scheduled l of
        [] \<Rightarrow> (l, store)
      | reason # rest \<Rightarrow> (snd (lease_release reason (l\<lparr>ls_scheduled := rest\<rparr>)), store))"
| "lease_step validator EvExpire (l, store) =
     (if ls_expiry_armed l then snd (lease_release ''expired'' (l\<lparr>ls_expiry_armed := False\<rparr>)) else l, store)"
| "lease_step validator (EvFinish close_ok) (l, store) = (finish_release close_ok l, store)"
| "lease_step validator (EvStore op) (l, store) = (l, map_option (store_step op) store)"

end
