(* ===== verification/Lease_Ring.thy ===== *)
theory Lease_Ring
  imports Lease_Inv
begin

text \<open>
  The retained ring against the history of the controller: a run of the lease is followed by
  the list of all frames the pump has read, and as long as the lease is not released the
  ring is the tail of that list after \<open>trimmed_through\<close>, numbered without a hole.
\<close>

section \<open>Trimming\<close>

abbreviation ring_size :: "retained_event list \<Rightarrow> int" where
  "ring_size ring \<equiv> sum_list (map re_size ring)"

lemma trim_ring_spec:
  assumes "trim_ring limits now ov bytes through ring = (ov', bytes', through', ring')"
    and "map re_seq ring = [through + 1..last_seq]" and "bytes = ring_size ring"
  shows "\<exists>n. n \<le> length ring \<and> ring' = drop n ring \<and> through' = through + int n \<and> bytes' = ring_size ring'
     \<and> \<not> must_drop limits now bytes' ring'"
  using assms
proof (induction limits now ov bytes through ring rule: trim_ring.induct)
  case (1 limits now ov bytes through)
  then show ?case by (auto simp: must_drop_def)
next
  case (2 limits now ov bytes through e ring)
  show ?case
  proof (cases "must_drop limits now bytes (e # ring)")
    case False
    then have "ring' = drop 0 (e # ring) \<and> through' = through + int 0 \<and> bytes' = bytes"
      using "2.prems"(1) by simp
    then show ?thesis using False "2.prems"(3) by (intro exI [of _ 0]) auto
  next
    case True
    have "through + 1 \<le> last_seq" using "2.prems"(2) by (cases "through + 1 \<le> last_seq") auto
    then have seq: "re_seq e = through + 1" "map re_seq ring = [re_seq e + 1..last_seq]"
      using "2.prems"(2) by (auto simp: upto_rec1)
    obtain n where n: "n \<le> length ring \<and> ring' = drop n ring \<and> through' = re_seq e + int n \<and> bytes' = ring_size ring'
        \<and> \<not> must_drop limits now bytes' ring'"
      using "2.IH" [OF True _ seq(2)] "2.prems"(1,3) True by auto
    then show ?thesis using seq(1) by (intro exI [of _ "Suc n"]) auto
  qed
qed

lemma must_drop_bounds:
  assumes "\<not> must_drop limits now (ring_size ring) ring" and "limits_valid limits"
  shows "int (length ring) \<le> lm_max_events limits \<and> ring_size ring \<le> lm_max_event_bytes limits"
  using assms by (cases ring) (auto simp: must_drop_def limits_valid_def)

section \<open>The invariant\<close>

definition ring_ok :: "pystr list \<Rightarrow> lease \<Rightarrow> bool" where
  "ring_ok hist l \<longleftrightarrow>
     ls_last_seq l = int (length hist) \<and> 0 \<le> ls_trimmed_through l \<and> ls_trimmed_through l \<le> ls_last_seq l
     \<and> map re_seq (ls_ring l) = [ls_trimmed_through l + 1..ls_last_seq l]
     \<and> map re_text (ls_ring l) = drop (nat (ls_trimmed_through l)) hist
     \<and> ls_ring_bytes l = ring_size (ls_ring l)
     \<and> (\<forall>e \<in> set (ls_ring l). re_size e = text_size (re_text e))"

definition ring_small :: "lease \<Rightarrow> bool" where
  "ring_small l \<longleftrightarrow> int (length (ls_ring l)) \<le> lm_max_events (ls_limits l) \<and> ls_ring_bytes l \<le> lm_max_event_bytes (ls_limits l)"

definition inv_ring :: "pystr list \<Rightarrow> lease \<Rightarrow> bool" where
  "inv_ring hist l \<longleftrightarrow> limits_valid (ls_limits l) \<and> (\<not> ls_released l \<longrightarrow> ring_ok hist l \<and> ring_small l)"

definition ring_view :: "lease \<Rightarrow> lease_limits \<times> bool \<times> retained_event list \<times> int \<times> int \<times> int" where
  "ring_view l = (ls_limits l, ls_released l, ls_ring l, ls_ring_bytes l, ls_last_seq l, ls_trimmed_through l)"

lemma inv_ring_cong: "ring_view l' = ring_view l \<Longrightarrow> inv_ring hist l' = inv_ring hist l"
  by (simp add: ring_view_def inv_ring_def ring_ok_def ring_small_def)

lemma inv_ring_released: "limits_valid (ls_limits l) \<Longrightarrow> ls_released l \<Longrightarrow> inv_ring hist l"
  by (simp add: inv_ring_def)

lemma ring_view_rest: "rest l' = rest l \<Longrightarrow> ring_view l' = ring_view l"
  by (drule rest_eqD) (simp add: ring_view_def)

lemma rest_projection [simp]:
  "ring_view (l\<lparr>ls_projection := pj\<rparr>) = ring_view l" "ring_view (l\<lparr>ls_websocket := ws\<rparr>) = ring_view l"
  "ring_view (l\<lparr>ls_pumping := b\<rparr>) = ring_view l" "ring_view (l\<lparr>ls_submissions := subs\<rparr>) = ring_view l"
  "ring_view (l\<lparr>ls_mutations := ms\<rparr>) = ring_view l" "ring_view (l\<lparr>ls_mutation_objects := mo\<rparr>) = ring_view l"
  "ring_view (l\<lparr>ls_tasks := ts\<rparr>) = ring_view l" "ring_view (l\<lparr>ls_outbound := ob\<rparr>) = ring_view l"
  "ring_view (l\<lparr>ls_scheduled := sc\<rparr>) = ring_view l" "ring_view (l\<lparr>ls_expiry_armed := ex\<rparr>) = ring_view l"
  "ring_view (l\<lparr>ls_objects := os\<rparr>) = ring_view l" "ring_view (l\<lparr>ls_attachment := cur\<rparr>) = ring_view l"
  "ring_view (l\<lparr>ls_recovery_enabled := re\<rparr>) = ring_view l" "ring_view (l\<lparr>ls_cancelled := ca\<rparr>) = ring_view l"
  by (simp_all add: ring_view_def)

lemma ring_view_deliver_local [simp]: "ring_view (snd (deliver_local response k l)) = ring_view l"
  by (rule ring_view_rest) simp

lemma ring_view_deliver_outcome [simp]: "ring_view (snd (deliver_outcome outcome rid k l)) = ring_view l"
  by (rule ring_view_rest) simp

lemma ring_view_deliver_outcomes [simp]: "ring_view (snd (deliver_outcomes outcome ws l)) = ring_view l"
  by (rule ring_view_rest) simp

lemma ring_view_detach [simp]: "ring_view (lease_detach k reason l) = ring_view l"
  by (rule ring_view_rest) simp

lemma ring_view_deliver [simp]: "ring_view (att_deliver k t sz l) = ring_view l"
  by (rule ring_view_rest) simp

lemma ring_view_upd [simp]: "ring_view (upd_attachment k f l) = ring_view l"
  by (rule ring_view_rest) simp

lemma ring_view_mark [simp]: "ring_view (mark_detached k reason l) = ring_view l"
  by (rule ring_view_rest) simp

lemma ring_view_publish [simp]: "ring_view (publish_attachment a recovery l) = ring_view l"
  by (simp add: publish_attachment_def Let_def cancel_expiry_def split: option.splits)

lemma ring_view_record_outcome [simp]: "ring_view (snd (record_outcome limit t l)) = ring_view l"
  by (simp add: record_outcome_def split: option.splits json.splits)

lemma ring_view_start [simp]: "ring_view (lease_start l) = ring_view l"
  by (simp add: lease_start_def schedule_expiry_def)

lemma ring_view_next [simp]: "ring_view (snd (next_text k l)) = ring_view l"
  by (simp add: next_text_def split: option.splits prod.splits)

lemma ring_view_finish_task [simp]: "ring_view (finish_task i result l) = ring_view l"
proof -
  have m: "ring_view (finish_mutation n identity outcome l') = ring_view l'" for n identity outcome l'
  proof -
    let ?r = "ls_mutation_objects l' ! n"
    let ?l1 = "l'\<lparr>ls_mutation_objects := (ls_mutation_objects l')[n := ?r\<lparr>mr_outcome := Some outcome, mr_waiters := []\<rparr>]\<rparr>"
    obtain r l2 where d: "(deliver_outcomes outcome (mr_waiters ?r) ?l1 :: (unit lease_error + unit) \<times> lease) = (r, l2)" by fastforce
    have "ring_view l2 = ring_view l'"
      using ring_view_deliver_outcomes [where 'a = unit, of outcome "mr_waiters ?r" ?l1] d by simp
    then show ?thesis using d by (cases r) (simp_all add: finish_mutation_def Let_def)
  qed
  then show ?thesis by (simp add: finish_task_def Let_def split: local_task.splits)
qed

lemma ring_view_feed [simp]: "ring_view (snd (feed_text validator env k t l)) = ring_view l"
proof -
  have "ring_view (snd (submit_value validator env k v t l)) = ring_view l" for v
    by (auto simp: submit_value_def pass_through_def first_submission_def repeat_submission_def Let_def
        split: sum.splits option.splits prod.splits)
  moreover have "ring_view (snd (start_read req k l)) = ring_view l" for req by (simp add: start_read_def)
  moreover have "ring_view (snd (start_mutation sha req k l)) = ring_view l" for sha req
    by (simp add: start_mutation_def repeat_mutation_def Let_def split: option.splits)
  ultimately show ?thesis
    by (auto simp: feed_text_def submit_text_def Let_def split: option.splits json.splits)
qed

lemma release_released: "ls_released (snd (lease_release reason l))" "ls_limits (snd (lease_release reason l)) = ls_limits l"
  by (auto simp: lease_release_def Let_def mark_detached_eq split: option.splits)

lemma inv_ring_release: "limits_valid (ls_limits l) \<Longrightarrow> inv_ring hist (snd (lease_release reason l))"
  by (rule inv_ring_released) (simp_all add: release_released)

section \<open>Retaining\<close>

lemma trim_keeps_ring_ok:
  assumes "lease_trim now l = (ov, l')" and "ring_ok hist l" and "limits_valid (ls_limits l)"
  shows "ring_ok hist l' \<and> ring_small l' \<and> ls_last_seq l' = ls_last_seq l \<and> ls_limits l' = ls_limits l
    \<and> ls_released l' = ls_released l \<and> ls_lease_id l' = ls_lease_id l \<and> ls_objects l' = ls_objects l
    \<and> ls_attachment l' = ls_attachment l \<and> ls_trimmed_through l \<le> ls_trimmed_through l'"
proof -
  obtain b th r where tr: "trim_ring (ls_limits l) now False (ls_ring_bytes l) (ls_trimmed_through l) (ls_ring l) = (ov, b, th, r)"
    and l': "l' = l\<lparr>ls_ring_bytes := b, ls_trimmed_through := th, ls_ring := r\<rparr>"
    using assms(1) by (auto simp: lease_trim_def split: prod.splits)
  have ok: "map re_seq (ls_ring l) = [ls_trimmed_through l + 1..ls_last_seq l]" "ls_ring_bytes l = ring_size (ls_ring l)"
    using assms(2) by (auto simp: ring_ok_def)
  obtain n where n: "n \<le> length (ls_ring l)" "r = drop n (ls_ring l)" "th = ls_trimmed_through l + int n"
    "b = ring_size r" "\<not> must_drop (ls_limits l) now b r"
    using trim_ring_spec [OF tr ok] by blast
  have len: "int (length (ls_ring l)) = ls_last_seq l - ls_trimmed_through l"
    using arg_cong [OF ok(1), of length] assms(2) by (simp add: ring_ok_def)
  have "drop n [ls_trimmed_through l + 1..ls_last_seq l] = [th + 1..ls_last_seq l]"
    using n(1,3) len by (intro nth_equalityI) (auto simp: nth_upto)
  then have seqs: "map re_seq r = [th + 1..ls_last_seq l]"
    unfolding n(2) drop_map [symmetric] ok(1) .
  have texts: "map re_text r = drop (nat th) hist"
    using assms(2) n(2,3) by (simp add: ring_ok_def drop_map [symmetric] nat_add_distrib add.commute)
  have "ring_small l'" using must_drop_bounds [of "ls_limits l" now r] n(4,5) assms(3) by (simp add: ring_small_def l')
  moreover have "ring_ok hist l'"
    using assms(2) seqs texts n len by (auto simp: ring_ok_def l' dest: in_set_dropD)
  ultimately show ?thesis using n(3) by (simp add: l')
qed

lemma inv_ring_trim:
  assumes "inv_ring hist l"
  shows "inv_ring hist (snd (lease_trim now l))"
proof (cases "ls_released l")
  case True
  then show ?thesis using assms lease_trim_frame [of now l "fst (lease_trim now l)" "snd (lease_trim now l)"]
    by (auto simp: inv_ring_def)
next
  case False
  then show ?thesis using assms trim_keeps_ring_ok [of now l "fst (lease_trim now l)" "snd (lease_trim now l)" hist]
    by (simp add: inv_ring_def)
qed

lemma retain_event_ring:
  assumes "ls_last_seq l = int (length hist) + 1" and "limits_valid (ls_limits l)"
    and "\<not> ls_released l \<Longrightarrow> ring_ok hist (l\<lparr>ls_last_seq := int (length hist)\<rparr>)"
  shows "inv_ring (hist @ [t]) (retain_event now t l)"
proof -
  let ?e = "\<lparr>re_seq = ls_last_seq l, re_text = t, re_size = text_size t, re_stored_at = now\<rparr>"
  let ?l0 = "l\<lparr>ls_ring := ls_ring l @ [?e], ls_ring_bytes := ls_ring_bytes l + text_size t\<rparr>"
  obtain ov l1 where tr: "lease_trim now ?l0 = (ov, l1)" by fastforce
  have l1: "inv_ring (hist @ [t]) l1"
  proof (cases "ls_released l")
    case True
    then show ?thesis using tr assms(2) lease_trim_frame [OF tr] by (auto simp: inv_ring_def)
  next
    case False
    note ok = assms(3) [OF False, unfolded ring_ok_def, simplified]
    have "ring_ok (hist @ [t]) ?l0"
      using ok assms(1) by (auto simp: ring_ok_def upto_rec2 add.commute)
    then show ?thesis using trim_keeps_ring_ok [OF tr] assms(2) by (simp add: inv_ring_def)
  qed
  have "ring_view (retain_event now t l) = ring_view l1"
    using tr by (simp add: retain_event_def Let_def split: option.splits)
  then show ?thesis using l1 inv_ring_cong by blast
qed

lemma lease_retain_ring:
  assumes "inv_ring hist l"
    and "(lease_retain env t l store :: ('r lease_error + unit) \<times> lease \<times> store_ref) = (r, l', store')"
  shows "limits_valid (ls_limits l') \<and> (r = Inr () \<longrightarrow> inv_ring (hist @ [t]) l' )"
proof (cases "ls_released l")
  case True
  \<comment> \<open>only the fields the ring invariant of a released lease reads matter\<close>
  let ?l1 = "l\<lparr>ls_last_seq := ls_last_seq l + 1\<rparr>"
  obtain r2 l2 where ro: "(record_outcome (pm_limit env) t ?l1 :: ('r lease_error + unit) \<times> lease) = (r2, l2)" by fastforce
  have "ring_view l2 = ring_view ?l1" using ring_view_record_outcome [where 'a = 'r, of "pm_limit env" t ?l1] ro by simp
  then have l2: "limits_valid (ls_limits l2)" "ls_released l2" using True assms(1) by (auto simp: ring_view_def inv_ring_def)
  have "ls_limits (retain_event now t (l2\<lparr>ls_projection := pj\<rparr>)) = ls_limits l2
      \<and> ls_released (retain_event now t (l2\<lparr>ls_projection := pj\<rparr>)) = ls_released l2" for now pj
  proof -
    let ?l3 = "l2\<lparr>ls_projection := pj\<rparr>"
    let ?e = "\<lparr>re_seq = ls_last_seq ?l3, re_text = t, re_size = text_size t, re_stored_at = now\<rparr>"
    obtain ov l4 where tr: "lease_trim now (?l3\<lparr>ls_ring := ls_ring ?l3 @ [?e], ls_ring_bytes := ls_ring_bytes ?l3 + text_size t\<rparr>) = (ov, l4)"
      by fastforce
    have "ring_view (retain_event now t ?l3) = ring_view l4"
      using tr by (simp add: retain_event_def Let_def split: option.splits)
    then show ?thesis using lease_trim_frame [OF tr] by (auto simp: ring_view_def)
  qed
  then show ?thesis using assms l2 ro
    by (auto simp: lease_retain_def Let_def inv_ring_def split: sum.splits prod.splits if_splits)
next
  case False
  let ?l1 = "l\<lparr>ls_last_seq := ls_last_seq l + 1\<rparr>"
  obtain r2 l2 where ro: "(record_outcome (pm_limit env) t ?l1 :: ('r lease_error + unit) \<times> lease) = (r2, l2)" by fastforce
  have v: "ring_view l2 = ring_view ?l1" using ring_view_record_outcome [where 'a = 'r, of "pm_limit env" t ?l1] ro by simp
  have l2: "limits_valid (ls_limits l2)" "ls_last_seq l2 = int (length hist) + 1"
    using False assms(1) v by (auto simp: ring_view_def inv_ring_def ring_ok_def)
  have "ring_ok hist (l2\<lparr>ls_projection := pj, ls_last_seq := int (length hist)\<rparr>)" for pj
    using False assms(1) v by (auto simp: ring_view_def inv_ring_def ring_ok_def)
  then have ret: "inv_ring (hist @ [t]) (retain_event now t (l2\<lparr>ls_projection := pj\<rparr>))" for now pj
    using l2 by (intro retain_event_ring) auto
  then show ?thesis using assms l2 ro
    by (auto simp: lease_retain_def Let_def inv_ring_def split: sum.splits prod.splits if_splits)
qed

section \<open>Every run\<close>

definition pumped :: "lease \<Rightarrow> pystr list" where
  \<comment> \<open>the frame the next turn of the pump reads\<close>
  "pumped l =
     (if ls_pumping l
      then (case vws_next_text (ls_websocket l) of (Inr (Some t), _) \<Rightarrow> [t] | _ \<Rightarrow> []) else [])"

fun log_step :: "'r validator \<Rightarrow> lease_event \<Rightarrow> (lease \<times> store_ref) \<times> pystr list \<Rightarrow> (lease \<times> store_ref) \<times> pystr list" where
  "log_step validator ev (s, hist) =
     (lease_step validator ev s, case ev of EvPump env \<Rightarrow> hist @ pumped (fst s) | _ \<Rightarrow> hist)"

definition lease_inv :: "(lease \<times> store_ref) \<times> pystr list \<Rightarrow> bool" where
  "lease_inv s \<longleftrightarrow> inv_att (fst (fst s)) \<and> inv_ring (snd s) (fst (fst s))"

lemma inv_ring_pump:
  assumes "inv_ring hist l"
  shows "inv_ring (hist @ pumped l) (fst (pump_step env l store))"
proof -
  obtain rr ws where nx: "vws_next_text (ls_websocket l) = (rr, ws)" by fastforce
  show ?thesis
  proof (cases "ls_pumping l")
    case False
    then show ?thesis using assms by (simp add: pump_step_def pumped_def)
  next
    case True
    consider (closed) e where "rr = Inl e" | (idle) "rr = Inr None" | (frame) t where "rr = Inr (Some t)"
      by (cases rr) (auto simp: not_None_eq)
    then show ?thesis
    proof cases
      case closed
      have "inv_ring (hist @ pumped l) (snd (lease_release ''controller_closed'' (l\<lparr>ls_websocket := ws, ls_pumping := False\<rparr>)))"
        by (rule inv_ring_release) (use assms in \<open>simp add: inv_ring_def\<close>)
      then show ?thesis using True nx closed by (simp add: pump_step_def)
    next
      case idle
      then show ?thesis using True nx assms by (simp add: pump_step_def pumped_def)
    next
      case frame
      obtain r l' st where ret: "(lease_retain env t (l\<lparr>ls_websocket := ws\<rparr>) store :: (unit lease_error + unit) \<times> lease \<times> store_ref) = (r, l', st)"
        by (cases "lease_retain env t (l\<lparr>ls_websocket := ws\<rparr>) store :: (unit lease_error + unit) \<times> lease \<times> store_ref")
      have "inv_ring hist (l\<lparr>ls_websocket := ws\<rparr>)" using assms inv_ring_cong [of "l\<lparr>ls_websocket := ws\<rparr>" l hist] by simp
      note r = lease_retain_ring [OF this ret]
      show ?thesis
      proof (cases r)
        case (Inl e)
        have "inv_ring (hist @ [t]) (snd (lease_release ''controller_failed'' (l'\<lparr>ls_pumping := False\<rparr>)))"
          by (rule inv_ring_release) (use r in simp)
        then show ?thesis using True nx frame ret Inl by (simp add: pump_step_def pumped_def)
      next
        case (Inr u)
        then show ?thesis using True nx frame ret r by (simp add: pump_step_def pumped_def)
      qed
    qed
  qed
qed

lemma attach_view:
  "ring_view (fst (snd (lease_attach env cursor recovery reset replace_attached l store)))
     \<in> {ring_view l, ring_view (snd (lease_trim (ae_clock env) l))}"
  by (auto simp: lease_attach_def Let_def case_prod_beta)

lemma inv_ring_step:
  assumes "inv_ring hist l"
  shows "inv_ring (case ev of EvPump env \<Rightarrow> hist @ pumped l | _ \<Rightarrow> hist) (fst (lease_step validator ev (l, store)))"
proof -
  have lim: "limits_valid (ls_limits l)" using assms by (simp add: inv_ring_def)
  have same: "inv_ring hist l'" if "ring_view l' = ring_view l" for l' using assms inv_ring_cong that by blast
  have rel: "inv_ring hist (snd (lease_release reason l'))" if "ring_view l' = ring_view l" for l' reason
    by (rule inv_ring_release) (use lim that in \<open>simp add: ring_view_def\<close>)
  show ?thesis
  proof (cases ev)
    case (EvPump env)
    then show ?thesis using inv_ring_pump [OF assms] by simp
  next
    case (EvAttach env cursor recovery reset rep)
    let ?l' = "fst (snd (lease_attach env cursor recovery reset rep l store :: (unit lease_error + nat) \<times> lease \<times> store_ref))"
    have "inv_ring hist ?l'"
      using attach_view [where 'a = unit, of env cursor recovery reset rep l store] same inv_ring_trim [OF assms, of "ae_clock env"]
        inv_ring_cong [of ?l' "snd (lease_trim (ae_clock env) l)" hist]
      by auto
    then show ?thesis using EvAttach by simp
  next
    case (EvFinish ok)
    then show ?thesis using assms by (auto simp: finish_release_def inv_ring_def)
  qed (auto intro!: same rel simp: register_outbound_def unregister_outbound_def split: list.splits)
qed

lemma lease_inv_step: "lease_inv s \<Longrightarrow> lease_inv (log_step validator ev s)"
proof -
  obtain l store hist where s: "s = ((l, store), hist)" by (metis prod.exhaust)
  assume "lease_inv s"
  then show ?thesis using inv_att_step [of l validator ev store] inv_ring_step [of hist l ev validator store]
    unfolding s lease_inv_def by (cases ev) auto
qed

definition fresh_lease :: "(lease \<times> store_ref) \<times> pystr list \<Rightarrow> bool" where
  \<comment> \<open>a lease as its constructor returns it, before any frame\<close>
  "fresh_lease s \<longleftrightarrow> (\<exists>device channel profile lease_id limits has_dispatcher pj ws l.
     new_lease device channel profile lease_id limits has_dispatcher pj ws = Inr l \<and> fst (fst s) = l \<and> snd s = [])"

lemma fresh_lease_inv: "fresh_lease s \<Longrightarrow> lease_inv s"
proof -
  assume "fresh_lease s"
  then obtain device channel profile lease_id limits has_dispatcher pj ws l where
    n: "new_lease device channel profile lease_id limits has_dispatcher pj ws = Inr l" "fst (fst s) = l" "snd s = []"
    by (auto simp: fresh_lease_def)
  from n(1) have "limits_valid (ls_limits l)" "ls_objects l = []" "ls_attachment l = None" "ls_ring l = []"
    "ls_ring_bytes l = 0" "ls_last_seq l = 0" "ls_trimmed_through l = 0"
    by (auto simp: new_lease_def split: if_splits)
  then show ?thesis using n
    by (auto simp: lease_inv_def inv_att_def inv_ring_def ring_ok_def ring_small_def limits_valid_def)
qed

interpretation lease: invariant_component fresh_lease "log_step validator" lease_inv for validator
  by unfold_locales (erule fresh_lease_inv, erule lease_inv_step)

end
