(* ===== verification/Lease_Ledger.thy ===== *)
theory Lease_Ledger
  imports Lease_Ring
begin

text \<open>
  The two ledgers and the life cycle of a lease: both ledgers stay within their capacity and
  an entry is dropped only when its outcome is known; a lease is released once, stays
  released, and its controller is closed at most once.
\<close>

section \<open>Making room\<close>

lemma length_delete_less: "k \<in> fst ` set d \<Longrightarrow> length (AList.delete k d) < length d"
proof (induction d)
  case (Cons x d)
  then show ?case using length_delete_le [of k d] by (cases x) auto
qed simp

lemma find_in_set: "List.find P xs = Some x \<Longrightarrow> x \<in> set xs \<and> P x"
  by (metis find_Some_iff nth_mem)

lemma evict_settled_Some:
  assumes "evict_settled p d = Some d'"
  shows "\<exists>k v. (k, v) \<in> set d \<and> p v \<and> d' = AList.delete k d \<and> length d' < length d"
proof -
  obtain k v where kv: "List.find (\<lambda>(k, v). p v) d = Some (k, v)" "d' = AList.delete k d"
    using assms by (auto simp: evict_settled_def split: option.splits)
  then have mem: "(k, v) \<in> set d" "p v" using find_in_set [OF kv(1)] by simp_all
  have "k \<in> fst ` set d" using mem(1) by force
  then show ?thesis using mem kv(2) length_delete_less [of k d] by auto
qed

lemma make_room_Some:
  assumes "make_room c p d = Some d'" and "od_wf d" and "int (length d) \<le> c"
  shows "od_wf d' \<and> int (length d') < c \<and> set d' \<subseteq> set d
    \<and> (\<forall>k v. map_of d k = Some v \<and> \<not> p v \<longrightarrow> map_of d' k = Some v)"
proof (cases "int (length d) \<ge> c")
  case False
  then show ?thesis using assms by (simp add: make_room_def)
next
  case True
  then obtain k v where e: "(k, v) \<in> set d" "p v" "d' = AList.delete k d" "length d' < length d"
    using evict_settled_Some [of p d d'] assms(1) by (auto simp: make_room_def)
  have "map_of d' k' = Some w" if "map_of d k' = Some w" "\<not> p w" for k' w
  proof -
    have "map_of d k = Some v" using e(1) assms(2) by simp
    then have "k' \<noteq> k" using that e(2) by auto
    then show ?thesis using that(1) e(3) by (simp add: delete_conv')
  qed
  then show ?thesis using e assms(2,3) set_delete_subset [of k d] by (auto simp: od_wf_delete)
qed

section \<open>The ledgers stay bounded\<close>

definition ledger_view :: "lease \<Rightarrow> lease_limits \<times> (pystr, submission_record) odict \<times> (pystr, nat) odict" where
  "ledger_view l = (ls_limits l, ls_submissions l, ls_mutations l)"

definition subs_ok :: "int \<Rightarrow> (pystr, submission_record) odict \<Rightarrow> bool" where
  "subs_ok c subs \<longleftrightarrow> od_wf subs \<and> int (length subs) \<le> c \<and> (\<forall>(sid, r) \<in> set subs. length (sr_waiters r) \<le> 8)"

definition inv_ledger :: "lease \<Rightarrow> bool" where
  "inv_ledger l \<longleftrightarrow> limits_valid (ls_limits l) \<and> subs_ok (lm_max_tracked (ls_limits l)) (ls_submissions l)
     \<and> od_wf (ls_mutations l)
     \<and> int (length (ls_mutations l)) \<le> min (lm_max_tracked (ls_limits l)) MAX_LOCAL_MUTATIONS"

lemma inv_ledger_cong: "ledger_view l' = ledger_view l \<Longrightarrow> inv_ledger l' = inv_ledger l"
  by (simp add: ledger_view_def inv_ledger_def)

lemma ledger_view_rest: "rest l' = rest l \<Longrightarrow> ledger_view l' = ledger_view l"
  by (drule rest_eqD) (simp add: ledger_view_def)

lemma inv_ledger_rest: "rest l' = rest l \<Longrightarrow> inv_ledger l' = inv_ledger l"
  by (rule inv_ledger_cong) (rule ledger_view_rest)

lemma inv_ledger_frame [simp]:
  "inv_ledger (l\<lparr>ls_projection := x1\<rparr>) = inv_ledger l" "inv_ledger (l\<lparr>ls_websocket := x2\<rparr>) = inv_ledger l"
  "inv_ledger (l\<lparr>ls_pumping := x3\<rparr>) = inv_ledger l" "inv_ledger (l\<lparr>ls_mutation_objects := x4\<rparr>) = inv_ledger l"
  "inv_ledger (l\<lparr>ls_tasks := x5\<rparr>) = inv_ledger l" "inv_ledger (l\<lparr>ls_outbound := x6\<rparr>) = inv_ledger l"
  "inv_ledger (l\<lparr>ls_scheduled := x7\<rparr>) = inv_ledger l" "inv_ledger (l\<lparr>ls_expiry_armed := x8\<rparr>) = inv_ledger l"
  "inv_ledger (l\<lparr>ls_objects := x9\<rparr>) = inv_ledger l" "inv_ledger (l\<lparr>ls_attachment := x10\<rparr>) = inv_ledger l"
  "inv_ledger (l\<lparr>ls_recovery_enabled := x11\<rparr>) = inv_ledger l" "inv_ledger (l\<lparr>ls_cancelled := x12\<rparr>) = inv_ledger l"
  "inv_ledger (l\<lparr>ls_ring := x13\<rparr>) = inv_ledger l" "inv_ledger (l\<lparr>ls_ring_bytes := x14\<rparr>) = inv_ledger l"
  "inv_ledger (l\<lparr>ls_last_seq := x15\<rparr>) = inv_ledger l" "inv_ledger (l\<lparr>ls_trimmed_through := x16\<rparr>) = inv_ledger l"
  "inv_ledger (l\<lparr>ls_released := x17\<rparr>) = inv_ledger l" "inv_ledger (l\<lparr>ls_release_reason := x18\<rparr>) = inv_ledger l"
  "inv_ledger (l\<lparr>ls_finished := x19\<rparr>) = inv_ledger l" "inv_ledger (l\<lparr>ls_release_succeeded := x20\<rparr>) = inv_ledger l"
  "inv_ledger (l\<lparr>ls_close_calls := x21\<rparr>) = inv_ledger l"
  by (simp_all add: inv_ledger_def)

lemma inv_ledger_deliver [simp]:
  "inv_ledger (snd (deliver_local response k l)) = inv_ledger l"
  "inv_ledger (snd (deliver_outcome outcome rid k l)) = inv_ledger l"
  "inv_ledger (snd (deliver_outcomes outcome ws l)) = inv_ledger l"
  "inv_ledger (lease_detach k reason l) = inv_ledger l" "inv_ledger (att_deliver k t sz l) = inv_ledger l"
  "inv_ledger (upd_attachment k f l) = inv_ledger l" "inv_ledger (mark_detached k reason l) = inv_ledger l"
  by (rule inv_ledger_rest, simp)+

lemma subs_ok_update:
  assumes "subs_ok c subs" and "map_of subs sid \<noteq> None \<or> int (length subs) < c" and "length (sr_waiters r) \<le> 8"
  shows "subs_ok c (AList.update sid r subs)"
proof -
  have "int (length (AList.update sid r subs)) \<le> c"
  proof (cases "map_of subs sid")
    case None
    then show ?thesis using assms(2) length_update_new [OF None, of r] by simp
  next
    case (Some w)
    then show ?thesis using assms(1) length_update_old [OF Some, of r] by (simp add: subs_ok_def)
  qed
  then show ?thesis using assms set_update_subset [of sid r subs] by (fastforce simp: subs_ok_def od_wf_update)
qed

lemma subs_ok_subset: "subs_ok c subs \<Longrightarrow> od_wf subs' \<Longrightarrow> int (length subs') \<le> c \<Longrightarrow> set subs' \<subseteq> set subs \<Longrightarrow> subs_ok c subs'"
  by (auto simp: subs_ok_def)

lemma awaiting_Some: "awaiting rid subs = Some (sid, r) \<Longrightarrow> (sid, r) \<in> set subs \<and> sr_outcome r = None"
  by (auto simp: awaiting_def dest: find_in_set)

lemma inv_ledger_record_outcome:
  assumes "inv_ledger l"
  shows "inv_ledger (snd (record_outcome limit t l))"
proof -
  have "inv_ledger (l\<lparr>ls_submissions := AList.update sid (r\<lparr>sr_outcome := Some oc, sr_waiters := []\<rparr>) (ls_submissions l)\<rparr>)"
    if "awaiting rid (ls_submissions l) = Some (sid, r)" for rid sid r oc
  proof -
    have "map_of (ls_submissions l) sid \<noteq> None"
      using awaiting_Some [OF that] weak_map_of_SomeI by fastforce
    then show ?thesis using assms subs_ok_update [of "lm_max_tracked (ls_limits l)" "ls_submissions l" sid]
      by (simp add: inv_ledger_def)
  qed
  then show ?thesis using assms by (auto simp: record_outcome_def split: option.splits json.splits)
qed

lemma inv_ledger_trim [simp]: "inv_ledger (snd (lease_trim now l)) = inv_ledger l"
  using lease_trim_frame [of now l "fst (lease_trim now l)" "snd (lease_trim now l)"] by auto

lemma inv_ledger_retain_event [simp]: "inv_ledger (retain_event now t l) = inv_ledger l"
proof -
  let ?e = "\<lparr>re_seq = ls_last_seq l, re_text = t, re_size = text_size t, re_stored_at = now\<rparr>"
  let ?l0 = "l\<lparr>ls_ring := ls_ring l @ [?e], ls_ring_bytes := ls_ring_bytes l + text_size t\<rparr>"
  obtain ov l1 where tr: "lease_trim now ?l0 = (ov, l1)" by fastforce
  have "inv_ledger l1 = inv_ledger l" using inv_ledger_trim [of now ?l0] tr by simp
  then show ?thesis using tr by (simp add: retain_event_def Let_def split: option.splits)
qed

lemma inv_ledger_release [simp]: "inv_ledger (snd (lease_release reason l)) = inv_ledger l"
  by (auto simp: lease_release_def Let_def split: option.splits)

lemma inv_ledger_pump:
  assumes "inv_ledger l"
  shows "inv_ledger (fst (pump_step env l store))"
proof -
  have ret: "inv_ledger l'" if r: "(lease_retain env t (l\<lparr>ls_websocket := ws\<rparr>) store :: (unit lease_error + unit) \<times> lease \<times> store_ref) = (r, l', st)"
    for t ws r l' st
  proof -
    let ?l1 = "l\<lparr>ls_websocket := ws, ls_last_seq := ls_last_seq l + 1\<rparr>"
    obtain r2 l2 where ro: "(record_outcome (pm_limit env) t ?l1 :: (unit lease_error + unit) \<times> lease) = (r2, l2)" by fastforce
    have "inv_ledger l2" using inv_ledger_record_outcome [where 'a = unit, of ?l1 "pm_limit env" t] assms ro by simp
    then show ?thesis using assms r ro
      by (auto simp: lease_retain_def Let_def split: sum.splits prod.splits if_splits)
  qed
  then show ?thesis using assms
    by (auto simp: pump_step_def split: prod.splits sum.splits option.splits)
qed

lemma inv_ledger_submit_value:
  assumes "inv_ledger l"
  shows "inv_ledger (snd (submit_value validator env k v t l))"
proof -
  let ?c = "lm_max_tracked (ls_limits l)"
  have subs: "subs_ok ?c (ls_submissions l)" using assms by (simp add: inv_ledger_def)
  have first: "inv_ledger (snd (first_submission validator t sid rid l))" for sid rid
  proof (cases "make_room ?c (\<lambda>r. sr_outcome r \<noteq> None) (ls_submissions l)")
    case None
    then show ?thesis using assms by (simp add: first_submission_def)
  next
    case (Some subs1)
    have "od_wf subs1" "int (length subs1) < ?c" "set subs1 \<subseteq> set (ls_submissions l)"
      using make_room_Some [OF Some] subs by (auto simp: subs_ok_def)
    then have ok: "subs_ok ?c (AList.update sid \<lparr>sr_request_id = rid, sr_outcome = None, sr_waiters = []\<rparr> subs1)"
      using subs by (intro subs_ok_update) (auto intro: subs_ok_subset)
    then have "subs_ok ?c (AList.delete sid (AList.update sid \<lparr>sr_request_id = rid, sr_outcome = None, sr_waiters = []\<rparr> subs1))"
      using length_delete_le [of sid "AList.update sid \<lparr>sr_request_id = rid, sr_outcome = None, sr_waiters = []\<rparr> subs1"]
        set_delete_subset [of sid "AList.update sid \<lparr>sr_request_id = rid, sr_outcome = None, sr_waiters = []\<rparr> subs1"]
      by (intro subs_ok_subset [OF ok]) (auto simp: subs_ok_def od_wf_delete)
    then show ?thesis using Some ok assms
      by (auto simp: first_submission_def Let_def inv_ledger_def split: sum.splits prod.splits)
  qed
  have again: "inv_ledger (snd (repeat_submission sid rid r k l))" if "map_of (ls_submissions l) sid = Some r" for sid rid r
  proof -
    have "subs_ok ?c (AList.update sid (r\<lparr>sr_waiters := sr_waiters r @ [(rid, k)]\<rparr>) (ls_submissions l))"
      if "length (sr_waiters r) < 8"
      using subs that \<open>map_of (ls_submissions l) sid = Some r\<close> by (intro subs_ok_update) auto
    then show ?thesis using assms
      by (cases "sr_outcome r") (simp_all add: repeat_submission_def, simp add: inv_ledger_def)
  qed
  show ?thesis using first again assms
    by (auto simp: submit_value_def pass_through_def split: sum.splits option.splits prod.splits)
qed

lemma od_wf_move_to_end: "od_wf d \<Longrightarrow> od_wf (od_move_to_end k d) \<and> length (od_move_to_end k d) \<le> length d"
proof (cases "map_of d k")
  case (Some v)
  assume wf: "od_wf d"
  have "k \<in> fst ` set d" using Some by (force dest: map_of_SomeD)
  then have "length (AList.delete k d) < length d" by (rule length_delete_less)
  moreover have "k \<notin> fst ` set (AList.delete k d)" by (auto simp: AList.delete_eq)
  ultimately show ?thesis using wf Some by (simp add: od_move_to_end_def od_wf_delete)
qed (simp add: od_move_to_end_def)

lemma inv_ledger_start_mutation:
  assumes "inv_ledger l"
  shows "inv_ledger (snd (start_mutation sha req k l))"
proof -
  let ?c = "min (lm_max_tracked (ls_limits l)) MAX_LOCAL_MUTATIONS"
  let ?p = "\<lambda>n. mr_outcome (ls_mutation_objects l ! n) \<noteq> None"
  have m: "od_wf (ls_mutations l)" "int (length (ls_mutations l)) \<le> ?c" using assms by (auto simp: inv_ledger_def)
  have moved: "inv_ledger (l\<lparr>ls_mutations := od_move_to_end i (ls_mutations l)\<rparr>)" for i
    using od_wf_move_to_end [OF m(1), of i] m(2) assms by (auto simp: inv_ledger_def)
  have room: "od_wf (AList.update i n ms) \<and> int (length (AList.update i n ms)) \<le> ?c"
    if "make_room ?c ?p (ls_mutations l) = Some ms" for ms i n
  proof -
    have r: "od_wf ms \<and> int (length ms) < ?c" using make_room_Some [OF that m] by blast
    have "int (length (AList.update i n ms)) \<le> int (length ms) + 1" using length_update_le [of i n ms] by simp
    then show ?thesis using r by (simp add: od_wf_update)
  qed
  show ?thesis
  proof (cases "\<not> local_request_ok req \<or> \<not> valid_local_request_id (jget req ''id'') \<or> \<not> all_finite (jget_or req ''params'' (JObj []))")
    case True
    then show ?thesis using assms by (simp add: start_mutation_def)
  next
    case False
    show ?thesis
    proof (cases "map_of (ls_mutations l) (mutation_identity sha req)")
      case (Some n)
      then show ?thesis using False moved
        by (simp add: start_mutation_def Let_def repeat_mutation_def split: option.splits)
    next
      case None
      then show ?thesis using False assms room
        by (auto simp: start_mutation_def Let_def split: option.splits) (auto simp: inv_ledger_def)
    qed
  qed
qed

lemma inv_ledger_finish_task:
  assumes "inv_ledger l"
  shows "inv_ledger (finish_task i result l)"
proof -
  have "inv_ledger (finish_mutation n identity oc l1)" if l1: "inv_ledger l1" for n identity oc l1
  proof -
    let ?r = "ls_mutation_objects l1 ! n"
    let ?l1 = "l1\<lparr>ls_mutation_objects := (ls_mutation_objects l1)[n := ?r\<lparr>mr_outcome := Some oc, mr_waiters := []\<rparr>]\<rparr>"
    obtain r l2 where d: "(deliver_outcomes oc (mr_waiters ?r) ?l1 :: (unit lease_error + unit) \<times> lease) = (r, l2)" by fastforce
    have l2: "inv_ledger l2"
      using inv_ledger_deliver(3) [where 'c = unit, of oc "mr_waiters ?r" ?l1] d l1 by simp
    then have "inv_ledger (l2\<lparr>ls_mutations := AList.delete identity (ls_mutations l2)\<rparr>)"
      using length_delete_le [of identity "ls_mutations l2"] by (auto simp: inv_ledger_def od_wf_delete)
    then show ?thesis using d l1 l2 by (cases r) (auto simp: finish_mutation_def Let_def)
  qed
  then show ?thesis using assms by (auto simp: finish_task_def Let_def split: local_task.splits)
qed

lemma inv_ledger_feed: "inv_ledger l \<Longrightarrow> inv_ledger (snd (feed_text validator env k t l))"
proof -
  assume "inv_ledger l"
  moreover have "inv_ledger (snd (start_read req k l)) = inv_ledger l" for req by (simp add: start_read_def)
  ultimately show ?thesis
    by (auto simp: feed_text_def submit_text_def Let_def inv_ledger_submit_value inv_ledger_start_mutation
        split: option.splits json.splits)
qed

lemma inv_ledger_step: "inv_ledger l \<Longrightarrow> inv_ledger (fst (lease_step validator ev (l, store)))"
proof (cases ev)
  case (EvPump env)
  then show "inv_ledger l \<Longrightarrow> ?thesis" using inv_ledger_pump by simp
next
  case (EvFinish ok)
  then show "inv_ledger l \<Longrightarrow> ?thesis"
    by (auto simp: finish_release_def inv_ledger_def subs_ok_def limits_valid_def MAX_LOCAL_MUTATIONS_def)
next
  case (EvAttach env cursor recovery reset rep)
  then show "inv_ledger l \<Longrightarrow> ?thesis"
    by (auto simp: lease_attach_def Let_def case_prod_beta publish_attachment_def cancel_expiry_def split: option.splits)
qed (auto simp: inv_ledger_feed inv_ledger_finish_task lease_start_def schedule_expiry_def next_text_def
      register_outbound_def unregister_outbound_def split: list.splits option.splits prod.splits)

section \<open>Life cycle\<close>

definition inv_life :: "lease \<Rightarrow> bool" where
  "inv_life l \<longleftrightarrow> ls_close_calls l = (if ls_finished l then 1 else 0) \<and> (ls_finished l \<longrightarrow> ls_released l)
     \<and> (ls_release_succeeded l \<longrightarrow> ls_finished l)"

definition life_view :: "lease \<Rightarrow> bool \<times> bool \<times> bool \<times> nat" where
  "life_view l = (ls_released l, ls_finished l, ls_release_succeeded l, ls_close_calls l)"

lemma inv_life_cong: "life_view l' = life_view l \<Longrightarrow> inv_life l' = inv_life l"
  by (simp add: life_view_def inv_life_def)

lemma life_view_rest: "rest l' = rest l \<Longrightarrow> life_view l' = life_view l"
  by (drule rest_eqD) (simp add: life_view_def)

lemma life_view_frame [simp]:
  "life_view (l\<lparr>ls_projection := x1\<rparr>) = life_view l" "life_view (l\<lparr>ls_websocket := x2\<rparr>) = life_view l"
  "life_view (l\<lparr>ls_pumping := x3\<rparr>) = life_view l" "life_view (l\<lparr>ls_mutation_objects := x4\<rparr>) = life_view l"
  "life_view (l\<lparr>ls_tasks := x5\<rparr>) = life_view l" "life_view (l\<lparr>ls_outbound := x6\<rparr>) = life_view l"
  "life_view (l\<lparr>ls_scheduled := x7\<rparr>) = life_view l" "life_view (l\<lparr>ls_expiry_armed := x8\<rparr>) = life_view l"
  "life_view (l\<lparr>ls_objects := x9\<rparr>) = life_view l" "life_view (l\<lparr>ls_attachment := x10\<rparr>) = life_view l"
  "life_view (l\<lparr>ls_recovery_enabled := x11\<rparr>) = life_view l" "life_view (l\<lparr>ls_cancelled := x12\<rparr>) = life_view l"
  "life_view (l\<lparr>ls_ring := x13\<rparr>) = life_view l" "life_view (l\<lparr>ls_ring_bytes := x14\<rparr>) = life_view l"
  "life_view (l\<lparr>ls_last_seq := x15\<rparr>) = life_view l" "life_view (l\<lparr>ls_trimmed_through := x16\<rparr>) = life_view l"
  "life_view (l\<lparr>ls_submissions := x17\<rparr>) = life_view l" "life_view (l\<lparr>ls_mutations := x18\<rparr>) = life_view l"
  by (simp_all add: life_view_def)

lemma life_view_deliver [simp]:
  "life_view (snd (deliver_local response k l)) = life_view l"
  "life_view (snd (deliver_outcome outcome rid k l)) = life_view l"
  "life_view (snd (deliver_outcomes outcome ws l)) = life_view l"
  "life_view (lease_detach k reason l) = life_view l" "life_view (att_deliver k t sz l) = life_view l"
  "life_view (upd_attachment k f l) = life_view l" "life_view (mark_detached k reason l) = life_view l"
  by (rule life_view_rest, simp)+

text \<open>No step but a release changes the life cycle of a lease that is not released, and a
  released lease only moves to the end of its cleanup.\<close>

lemma life_view_release: "life_view (snd (lease_release reason l)) = (True, ls_finished l, ls_release_succeeded l, ls_close_calls l)"
proof (cases "ls_released l")
  case False
  let ?l1 = "l\<lparr>ls_released := True, ls_release_reason := Some reason, ls_attachment := None\<rparr>"
  have "life_view ?l1 = (True, ls_finished l, ls_release_succeeded l, ls_close_calls l)" by (simp add: life_view_def)
  then show ?thesis using False by (simp add: lease_release_def Let_def split: option.splits)
qed (simp add: lease_release_def life_view_def)

lemma life_view_trim [simp]: "life_view (snd (lease_trim now l)) = life_view l"
  using lease_trim_frame [of now l "fst (lease_trim now l)" "snd (lease_trim now l)"] by auto

lemma life_view_retain:
  assumes "(lease_retain env t l store :: ('r lease_error + unit) \<times> lease \<times> store_ref) = (r, l', store')"
  shows "life_view l' = life_view l"
proof -
  have ev: "life_view (retain_event now t l1) = life_view l1" for now l1
  proof -
    let ?e = "\<lparr>re_seq = ls_last_seq l1, re_text = t, re_size = text_size t, re_stored_at = now\<rparr>"
    let ?l0 = "l1\<lparr>ls_ring := ls_ring l1 @ [?e], ls_ring_bytes := ls_ring_bytes l1 + text_size t\<rparr>"
    obtain ov l2 where tr: "lease_trim now ?l0 = (ov, l2)" by fastforce
    have "life_view l2 = life_view l1" using life_view_trim [of now ?l0] tr by simp
    then show ?thesis using tr by (simp add: retain_event_def Let_def split: option.splits)
  qed
  let ?l1 = "l\<lparr>ls_last_seq := ls_last_seq l + 1\<rparr>"
  obtain r2 l2 where ro: "(record_outcome (pm_limit env) t ?l1 :: ('r lease_error + unit) \<times> lease) = (r2, l2)" by fastforce
  have "life_view (snd (record_outcome (pm_limit env) t ?l1 :: ('r lease_error + unit) \<times> lease)) = life_view l"
    by (simp add: record_outcome_def split: option.splits json.splits)
  then have "life_view l2 = life_view l" using ro by simp
  then show ?thesis using assms ro ev by (auto simp: lease_retain_def Let_def split: sum.splits prod.splits if_splits)
qed

lemma life_view_finish_task [simp]: "life_view (finish_task i result l) = life_view l"
proof -
  have "life_view (finish_mutation n identity oc l1) = life_view l1" for n identity oc l1
  proof -
    let ?r = "ls_mutation_objects l1 ! n"
    let ?l1 = "l1\<lparr>ls_mutation_objects := (ls_mutation_objects l1)[n := ?r\<lparr>mr_outcome := Some oc, mr_waiters := []\<rparr>]\<rparr>"
    obtain r l2 where d: "(deliver_outcomes oc (mr_waiters ?r) ?l1 :: (unit lease_error + unit) \<times> lease) = (r, l2)" by fastforce
    have "life_view l2 = life_view l1"
      using life_view_deliver(3) [where 'c = unit, of oc "mr_waiters ?r" ?l1] d by simp
    then show ?thesis using d by (cases r) (auto simp: finish_mutation_def Let_def)
  qed
  then show ?thesis by (auto simp: finish_task_def Let_def split: local_task.splits)
qed

lemma life_view_feed [simp]: "life_view (snd (feed_text validator env k t l)) = life_view l"
proof -
  have "life_view (snd (submit_value validator env k v t l)) = life_view l" for v
    by (auto simp: submit_value_def pass_through_def first_submission_def repeat_submission_def Let_def
        split: sum.splits option.splits prod.splits)
  moreover have "life_view (snd (start_read req k l)) = life_view l" for req by (simp add: start_read_def)
  moreover have "life_view (snd (start_mutation sha req k l)) = life_view l" for sha req
    by (simp add: start_mutation_def repeat_mutation_def Let_def split: option.splits)
  ultimately show ?thesis
    by (auto simp: feed_text_def submit_text_def Let_def split: option.splits json.splits)
qed

lemma life_step:
  "life_view (fst (lease_step validator ev (l, store))) = life_view l
   \<or> life_view (fst (lease_step validator ev (l, store))) = (True, ls_finished l, ls_release_succeeded l, ls_close_calls l)
   \<or> (\<exists>ok. ev = EvFinish ok \<and> ls_released l \<and> \<not> ls_finished l
        \<and> life_view (fst (lease_step validator ev (l, store))) = (True, True, ok, ls_close_calls l + 1))"
proof (cases ev)
  case (EvPump env)
  have "life_view (fst (pump_step env l store)) \<in> {life_view l, (True, ls_finished l, ls_release_succeeded l, ls_close_calls l)}"
  proof -
    have f: "life_view l' = life_view l \<Longrightarrow> ls_finished l' = ls_finished l \<and> ls_release_succeeded l' = ls_release_succeeded l \<and> ls_close_calls l' = ls_close_calls l"
      for l' by (simp add: life_view_def)
    show ?thesis
      by (auto simp: pump_step_def life_view_release split: prod.splits sum.splits option.splits
          dest!: life_view_retain f)
  qed
  then show ?thesis using EvPump by auto
next
  case (EvFinish ok)
  then show ?thesis by (auto simp: finish_release_def life_view_def)
next
  case (EvAttach env cursor recovery reset rep)
  then show ?thesis
    by (auto simp: lease_attach_def Let_def case_prod_beta publish_attachment_def cancel_expiry_def split: option.splits)
qed (auto simp: life_view_release lease_start_def schedule_expiry_def next_text_def
      register_outbound_def unregister_outbound_def split: list.splits option.splits prod.splits)

lemma inv_life_step: "inv_life l \<Longrightarrow> inv_life (fst (lease_step validator ev (l, store)))"
  using life_step [of validator ev l store] by (auto simp: life_view_def inv_life_def)

lemma released_step: "ls_released l \<Longrightarrow> ls_released (fst (lease_step validator ev (l, store)))"
  using life_step [of validator ev l store] by (auto simp: life_view_def)

end
