(* ===== verification/Lease_Props.thy ===== *)
theory Lease_Props
  imports Lease_Ledger Method_Policy
begin

text \<open>
  What a lease promises to the device and to the host, over every sequence of its steps:
  exact replay after a reconnect, one dispatch per submission, bounded memory, at most one
  live attachment, and a release that fences everything and closes the controller once.
\<close>

section \<open>Replay\<close>

text \<open>Everything queued for an attachment, in the order \<open>next_text\<close> hands it out.\<close>

definition content :: "pystr \<Rightarrow> attachment \<Rightarrow> pystr list" where
  "content lease_id a =
     (case at_preamble a of None \<Rightarrow> [] | Some t \<Rightarrow> [t]) @ map (replay_frame lease_id a) (at_replay a)
     @ (case at_replay_complete a of None \<Rightarrow> [] | Some t \<Rightarrow> [t]) @ at_live a"

lemma replay_frame_fields [simp]:
  "replay_frame i (a\<lparr>at_preamble := x1\<rparr>) = replay_frame i a" "replay_frame i (a\<lparr>at_replay := x2\<rparr>) = replay_frame i a"
  by (rule ext, simp add: replay_frame_def)+

lemma att_pop_content:
  "case att_pop i a of (None, a') \<Rightarrow> content i a = [] \<and> a' = a | (Some t, a') \<Rightarrow> content i a = t # content i a'"
  by (cases "at_preamble a"; cases "at_replay a"; cases "at_replay_complete a"; cases "at_live a")
    (simp_all add: att_pop_def content_def)

fun read_frames :: "nat \<Rightarrow> nat \<Rightarrow> lease \<Rightarrow> pystr list" where
  \<comment> \<open>what \<open>n\<close> calls of \<open>next_text\<close> return, as long as none waits or raises\<close>
  "read_frames 0 k l = []"
| "read_frames (Suc n) k l =
     (case next_text k l :: (unit lease_error + pystr option) \<times> lease of
        (Inr (Some t), l') \<Rightarrow> t # read_frames n k l'
      | _ \<Rightarrow> [])"

lemma read_frames_content:
  assumes "\<not> ls_released l" and "k < length (ls_objects l)"
  shows "read_frames n k l = take n (content (ls_lease_id l) (the_attachment l k))"
  using assms
proof (induction n arbitrary: l)
  case (Suc n)
  obtain r a where p: "att_pop (ls_lease_id l) (the_attachment l k) = (r, a)" by fastforce
  show ?case
  proof (cases r)
    case None
    then have "content (ls_lease_id l) (the_attachment l k) = []" using att_pop_content [of "ls_lease_id l" "the_attachment l k"] p by simp
    then show ?thesis using p None Suc.prems by (simp add: next_text_def split: option.splits)
  next
    case (Some t)
    let ?l' = "upd_attachment k (\<lambda>_. a) l"
    have "read_frames n k ?l' = take n (content (ls_lease_id l) a)"
      using Suc.IH [of ?l'] Suc.prems by (simp add: upd_attachment_def)
    then show ?thesis using p Some Suc.prems att_pop_content [of "ls_lease_id l" "the_attachment l k"]
      by (simp add: next_text_def)
  qed
qed simp

lemma filter_after:
  assumes "map re_seq ring = [through + 1..last_seq]" and "through \<le> last_seq" and "cursor \<le> last_seq"
  shows "filter (\<lambda>e. re_seq e > cursor) ring = drop (nat (cursor - through)) ring"
  using assms
proof (induction ring arbitrary: through)
  case (Cons e ring)
  have "through + 1 \<le> last_seq" using Cons.prems(1) by (cases "through + 1 \<le> last_seq") auto
  then have s: "re_seq e = through + 1" "map re_seq ring = [(through + 1) + 1..last_seq]"
    using Cons.prems(1) by (auto simp: upto_rec1)
  have ih: "filter (\<lambda>e. re_seq e > cursor) ring = drop (nat (cursor - (through + 1))) ring"
    using Cons.IH [OF s(2)] Cons.prems \<open>through + 1 \<le> last_seq\<close> by simp
  show ?case
  proof (cases "re_seq e > cursor")
    case True
    then show ?thesis using ih s(1) by simp
  next
    case False
    then have "nat (cursor - through) = Suc (nat (cursor - (through + 1)))" using s(1) by simp
    then show ?thesis using ih False by simp
  qed
qed simp

lemma attach_Inr:
  assumes "lease_attach env cursor recovery reset replace_attached l store = (Inr k, l', store')"
  shows "\<not> ls_released l \<and> 0 \<le> cursor \<and> cursor \<le> ls_last_seq l
    \<and> (ls_attachment l = None \<or> recovery \<and> replace_attached)
    \<and> (let l1 = snd (lease_trim (ae_clock env) l) in
        k = length (ls_objects l1) \<and> (\<exists>preamble. l' = publish_attachment
          (new_attachment l1 (filter (\<lambda>e. re_seq e > cursor) (ls_ring l1)) (cursor < ls_trimmed_through l1) preamble recovery)
          recovery l1))"
  using assms by (auto simp: lease_attach_def Let_def case_prod_beta split: if_splits)

lemma publish_fields:
  "ls_attachment (publish_attachment a recovery l) = Some (length (ls_objects l))"
  "ls_objects (publish_attachment a recovery l) ! length (ls_objects l) = a"
  "length (ls_objects (publish_attachment a recovery l)) = Suc (length (ls_objects l))"
  "ls_trimmed_through (publish_attachment a recovery l) = ls_trimmed_through l"
  "ls_released (publish_attachment a recovery l) = ls_released l"
  "ls_lease_id (publish_attachment a recovery l) = ls_lease_id l"
  by (auto simp: publish_attachment_def Let_def cancel_expiry_def mark_detached_eq nth_append split: option.splits)

text \<open>
  C4. A reconnecting device gets exactly what it missed. After any sequence of steps of a
  lease, when an attachment at some cursor succeeds it is the one live attachment, and the
  device reads, in this order and without a hole: the attach status, then every frame the
  controller ever sent whose number is above the cursor and above the last trimmed one. The
  gap flag is set exactly when some frame above the cursor has been trimmed away, so without
  the flag the replay is complete from the cursor on.
\<close>

theorem attach_replays_exactly:
  assumes "fresh_lease s" and "fold (log_step validator) es s = ((l, store), hist)"
    and "lease_attach env cursor recovery reset replace_attached l store = (Inr k, l', store')"
  shows "let a = the_attachment l' k; from = max cursor (ls_trimmed_through l') in
      ls_attachment l' = Some k \<and> at_live a = []
      \<and> map re_seq (at_replay a) = [from + 1..int (length hist)]
      \<and> map re_text (at_replay a) = drop (nat from) hist
      \<and> (at_gap a \<longleftrightarrow> cursor < ls_trimmed_through l')
      \<and> (\<not> at_gap a \<longrightarrow> map re_text (at_replay a) = drop (nat cursor) hist)
      \<and> (\<exists>preamble. read_frames (1 + length (at_replay a)) k l' =
           preamble # map (\<lambda>e. if recovery then frame_text (ls_lease_id l') e True else re_text e) (at_replay a))"
proof -
  have "lease_inv ((l, store), hist)" using lease.inv_reachable [OF assms(1), of validator es] assms(2) by simp
  then have inv: "inv_ring hist l" by (simp add: lease_inv_def)
  note at = attach_Inr [OF assms(3)]
  let ?l1 = "snd (lease_trim (ae_clock env) l)"
  have ok: "ring_ok hist ?l1 \<and> ls_last_seq ?l1 = ls_last_seq l \<and> ls_released ?l1 = ls_released l"
    using trim_keeps_ring_ok [of "ae_clock env" l "fst (lease_trim (ae_clock env) l)" ?l1 hist] inv at
    by (simp add: inv_ring_def)
  define replay where "replay = filter (\<lambda>e. re_seq e > cursor) (ls_ring ?l1)"
  define gap where "gap = (cursor < ls_trimmed_through ?l1)"
  obtain preamble where l': "l' = publish_attachment (new_attachment ?l1 replay gap preamble recovery) recovery ?l1"
    and k: "k = length (ls_objects ?l1)"
    using at by (auto simp: Let_def replay_def gap_def)
  let ?a = "new_attachment ?l1 replay gap preamble recovery"
  have a: "the_attachment l' k = ?a" "ls_attachment l' = Some k" "k < length (ls_objects l')"
    "ls_trimmed_through l' = ls_trimmed_through ?l1" "\<not> ls_released l'"
    using ok at by (simp_all add: l' k publish_fields)
  have seqs: "map re_seq (ls_ring ?l1) = [ls_trimmed_through ?l1 + 1..ls_last_seq ?l1]"
    "map re_text (ls_ring ?l1) = drop (nat (ls_trimmed_through ?l1)) hist"
    "ls_last_seq ?l1 = int (length hist)" "0 \<le> ls_trimmed_through ?l1" "ls_trimmed_through ?l1 \<le> ls_last_seq ?l1"
    using ok by (auto simp: ring_ok_def)
  have replay: "replay = drop (nat (cursor - ls_trimmed_through ?l1)) (ls_ring ?l1)"
    unfolding replay_def using filter_after [OF seqs(1)] seqs at ok by simp
  let ?from = "max cursor (ls_trimmed_through ?l1)"
  have texts: "map re_text replay = drop (nat ?from) hist"
    unfolding replay drop_map [symmetric] seqs(2) drop_drop using seqs(4) at
    by (cases "cursor \<le> ls_trimmed_through ?l1") (auto simp: nat_add_distrib [symmetric] max_def)
  have "drop (nat (cursor - ls_trimmed_through ?l1)) [ls_trimmed_through ?l1 + 1..ls_last_seq ?l1]
      = [?from + 1..ls_last_seq ?l1]"
    using seqs(5) at ok by (intro nth_equalityI) (auto simp: nth_upto max_def)
  then have nums: "map re_seq replay = [?from + 1..int (length hist)]"
    unfolding replay drop_map [symmetric] seqs(1) using seqs(3) by simp
  have "content (ls_lease_id l') ?a = preamble # map (replay_frame (ls_lease_id l') ?a) replay
      @ (if recovery then [replay_complete_text ?l1] else [])"
    by (simp add: content_def new_attachment_def)
  then have reads: "read_frames (1 + length replay) k l' = preamble # map (replay_frame (ls_lease_id l') ?a) replay"
    using read_frames_content [OF a(5,3), of "1 + length replay"] a(1) by simp
  have frames: "map (replay_frame (ls_lease_id l') ?a) replay =
      map (\<lambda>e. if recovery then frame_text (ls_lease_id l') e True else re_text e) replay"
    by (simp add: replay_frame_def new_attachment_def)
  have fields: "at_replay ?a = replay" "at_gap ?a = gap" "at_live ?a = []" by (simp_all add: new_attachment_def)
  have "\<not> gap \<longrightarrow> map re_text replay = drop (nat cursor) hist" using texts by (simp add: gap_def max_def)
  then show ?thesis
    unfolding Let_def a(1,4) fields using a(2) texts nums reads frames by (auto simp: gap_def)
qed

definition demo_ws :: vws where
  "demo_ws = (case new_vws 256 16777216 8388608 of Inr w \<Rightarrow> w | Inl _ \<Rightarrow> undefined)"

definition demo_limits :: lease_limits where
  "demo_limits = default_limits\<lparr>lm_max_events := 2\<rparr>"

definition demo_lease :: lease where
  "demo_lease = (case new_lease (lit ''dev'') [] (lit ''p'') (lit ''id'') demo_limits True
     (new_projection (lit ''p'') []) demo_ws of Inr l \<Rightarrow> l | Inl _ \<Rightarrow> undefined)"

definition demo_pump :: pump_env where
  "demo_pump = \<lparr>pm_limit = 9, pm_clock = 1, pm_authorizer = (\<lambda>_. True),
     pm_puts = (\<lambda>_. \<lparr>pv_now_prune = 1, pv_now_stamp = 1, pv_now_save = 1, pv_write_ok = True\<rparr>)\<rparr>"

definition demo_attach :: attach_env where
  "demo_attach = \<lparr>ae_clock = 1, ae_wall = 1, ae_authorizer = (\<lambda>_. True), ae_relay_token = None, ae_capabilities = None\<rparr>"

definition demo_run :: "lease_event list" where
  "demo_run = [EvStart, EvController (lit ''a''), EvController (lit ''b''), EvPump demo_pump, EvPump demo_pump]"

definition demo_state :: lease where
  "demo_state = fst (fst (fold (log_step (None :: unit validator)) demo_run ((demo_lease, None), [])))"

lemma demo_fresh: "fresh_lease ((demo_lease, None), [])"
proof -
  have "new_lease (lit ''dev'') [] (lit ''p'') (lit ''id'') demo_limits True (new_projection (lit ''p'') []) demo_ws
      = Inr demo_lease"
    unfolding demo_lease_def
    by (simp add: new_lease_def limits_valid_def demo_limits_def default_limits_def lit_def)
  then show ?thesis unfolding fresh_lease_def by fastforce
qed

lemma demo_run_result:
  "fold (log_step (None :: unit validator)) demo_run ((demo_lease, None), []) = ((demo_state, None), [lit ''a'', lit ''b''])"
proof -
  have "snd (fold (log_step (None :: unit validator)) demo_run ((demo_lease, None), [])) = [lit ''a'', lit ''b'']"
    "snd (fst (fold (log_step (None :: unit validator)) demo_run ((demo_lease, None), []))) = None"
    by code_simp+
  then show ?thesis unfolding demo_state_def by (metis prod.collapse)
qed

theorem attach_replays_exactly_witness:
  "\<exists>l'. lease_attach demo_attach 1 False False False demo_state None = (Inr 0 :: unit lease_error + nat, l', None)
     \<and> (\<exists>preamble. read_frames 2 0 l' = [preamble, lit ''b''])"
proof -
  let ?r = "lease_attach demo_attach 1 False False False demo_state None :: (unit lease_error + nat) \<times> lease \<times> store_ref"
  note run = demo_run_result
  have ok: "fst ?r = Inr 0" "snd (snd ?r) = None" "ls_trimmed_through (fst (snd ?r)) = 0"
    "map re_text (at_replay (the_attachment (fst (snd ?r)) 0)) = [lit ''b'']" by code_simp+
  then have att: "?r = (Inr 0, fst (snd ?r), None)" by (metis prod.collapse)
  note th = attach_replays_exactly [OF demo_fresh run att, unfolded Let_def ok(3)]
  have "length (at_replay (the_attachment (fst (snd ?r)) 0)) = 1" using arg_cong [OF ok(4), of length] by simp
  then have "\<exists>preamble. read_frames 2 0 (fst (snd ?r)) = [preamble, lit ''b'']"
    using th ok(4) by (auto simp: numeral_2_eq_2)
  then show ?thesis using att by blast
qed


section \<open>Bounded memory\<close>

definition lease_full_inv :: "(lease \<times> store_ref) \<times> pystr list \<Rightarrow> bool" where
  "lease_full_inv s \<longleftrightarrow> lease_inv s \<and> inv_ledger (fst (fst s)) \<and> inv_life (fst (fst s))"

lemma fresh_full_inv: "fresh_lease s \<Longrightarrow> lease_full_inv s"
proof -
  assume f: "fresh_lease s"
  then obtain device channel profile lease_id limits has_dispatcher pj ws l where
    n: "new_lease device channel profile lease_id limits has_dispatcher pj ws = Inr l" "fst (fst s) = l"
    by (auto simp: fresh_lease_def)
  from n(1) have "limits_valid (ls_limits l)" "ls_submissions l = []" "ls_mutations l = []"
    "ls_close_calls l = 0" "\<not> ls_finished l" "\<not> ls_release_succeeded l"
    by (auto simp: new_lease_def split: if_splits)
  then show ?thesis using fresh_lease_inv [OF f] n(2)
    by (auto simp: lease_full_inv_def inv_ledger_def inv_life_def subs_ok_def limits_valid_def MAX_LOCAL_MUTATIONS_def)
qed

lemma full_inv_step: "lease_full_inv s \<Longrightarrow> lease_full_inv (log_step validator ev s)"
proof -
  obtain l store hist where s: "s = ((l, store), hist)" by (metis prod.exhaust)
  assume "lease_full_inv s"
  then show ?thesis
    using lease_inv_step [of s validator ev] inv_ledger_step [of l validator ev store] inv_life_step [of l validator ev store]
    unfolding s lease_full_inv_def by auto
qed

interpretation full: invariant_component fresh_lease "log_step validator" lease_full_inv for validator
  by unfold_locales (erule fresh_full_inv, erule full_inv_step)

text \<open>
  C27. A lease never holds more than its limits allow, whatever the controller and the device
  do. After every run: the retained ring and the queue of every attachment are within
  \<open>max_events\<close> and \<open>max_event_bytes\<close>, and the byte counters are exact; at most one attachment
  is not detached, and it is the current one; the submission ledger holds at most
  \<open>max_tracked\<close> entries with at most eight waiters each and the mutation ledger at most
  eight; and the controller has been closed at most once.
\<close>

theorem lease_is_bounded:
  assumes "fresh_lease s" and "fold (log_step validator) es s = ((l, store), hist)"
  shows "let lm = ls_limits l in
    (\<not> ls_released l \<longrightarrow> int (length (ls_ring l)) \<le> lm_max_events lm
       \<and> sum_list (map (\<lambda>e. text_size (re_text e)) (ls_ring l)) = ls_ring_bytes l
       \<and> ls_ring_bytes l \<le> lm_max_event_bytes lm)
    \<and> (\<forall>a \<in> set (ls_objects l). int (length (at_live a)) \<le> lm_max_events lm
         \<and> at_live_bytes a = sum_list (map text_size (at_live a)) \<and> at_live_bytes a \<le> lm_max_event_bytes lm)
    \<and> (\<forall>k < length (ls_objects l). \<not> at_detached (the_attachment l k) \<longleftrightarrow> ls_attachment l = Some k)
    \<and> distinct (map fst (ls_submissions l)) \<and> int (length (ls_submissions l)) \<le> lm_max_tracked lm
    \<and> (\<forall>(sid, r) \<in> set (ls_submissions l). length (sr_waiters r) \<le> 8)
    \<and> distinct (map fst (ls_mutations l)) \<and> length (ls_mutations l) \<le> 8
    \<and> ls_close_calls l \<le> 1"
proof -
  have "lease_full_inv ((l, store), hist)" using full.inv_reachable [OF assms(1), of validator es] assms(2) by simp
  then have i: "inv_att l" "inv_ring hist l" "inv_ledger l" "inv_life l"
    by (simp_all add: lease_full_inv_def lease_inv_def)
  have ring: "sum_list (map (\<lambda>e. text_size (re_text e)) (ls_ring l)) = ls_ring_bytes l" if "\<not> ls_released l"
  proof -
    have "ring_ok hist l" using i(2) that by (simp add: inv_ring_def)
    then have "ls_ring_bytes l = sum_list (map re_size (ls_ring l))"
      "map re_size (ls_ring l) = map (\<lambda>e. text_size (re_text e)) (ls_ring l)"
      by (simp_all add: ring_ok_def)
    then show ?thesis by simp
  qed
  show ?thesis
    unfolding Let_def using i ring
    by (intro conjI)
      (auto simp: inv_att_def att_ok_def inv_ring_def ring_small_def inv_ledger_def subs_ok_def inv_life_def MAX_LOCAL_MUTATIONS_def)
qed

theorem lease_is_bounded_witness:
  "\<exists>store hist. fold (log_step (None :: unit validator)) demo_run ((demo_lease, None), []) = ((demo_state, store), hist)
     \<and> \<not> ls_released demo_state \<and> length (ls_ring demo_state) \<le> 2 \<and> ls_close_calls demo_state \<le> 1"
proof -
  obtain store hist where run: "fold (log_step (None :: unit validator)) demo_run ((demo_lease, None), []) = ((demo_state, store), hist)"
    unfolding demo_state_def by (metis prod.collapse)
  have ok: "\<not> ls_released demo_state" "lm_max_events (ls_limits demo_state) = 2" by code_simp+
  show ?thesis using lease_is_bounded [OF demo_fresh run] run ok unfolding Let_def by auto
qed

section \<open>Submissions\<close>

definition names_submission :: "nat \<Rightarrow> pystr \<Rightarrow> pystr \<Rightarrow> bool" where
  \<comment> \<open>the text is a \<open>prompt.submit\<close> request that carries this submission id\<close>
  "names_submission limit t sid \<longleftrightarrow>
     (case parse_submission (loads_strict limit t) :: unit lease_error + (pystr \<times> json) option of
        Inr (Some (sid', _)) \<Rightarrow> sid' = sid | _ \<Rightarrow> False)"

definition in_flight :: "pystr \<Rightarrow> lease \<Rightarrow> bool" where
  \<comment> \<open>dispatched or being dispatched, and not answered\<close>
  "in_flight sid l \<longleftrightarrow> (case map_of (ls_submissions l) sid of None \<Rightarrow> False | Some r \<Rightarrow> sr_outcome r = None)"

definition answered :: "pystr \<Rightarrow> lease \<Rightarrow> bool" where
  "answered sid l \<longleftrightarrow> (case map_of (ls_submissions l) sid of None \<Rightarrow> False | Some r \<Rightarrow> sr_outcome r \<noteq> None)"

lemma subs_rest: "rest l' = rest l \<Longrightarrow> ls_submissions l' = ls_submissions l"
  by (drule rest_eqD) simp

lemma subs_deliver [simp]:
  "ls_submissions (snd (deliver_local response k l)) = ls_submissions l"
  "ls_submissions (snd (deliver_outcome outcome rid k l)) = ls_submissions l"
  "ls_submissions (snd (deliver_outcomes outcome ws l)) = ls_submissions l"
  "ls_submissions (lease_detach k reason l) = ls_submissions l" "ls_submissions (att_deliver k t sz l) = ls_submissions l"
  "ls_submissions (upd_attachment k f l) = ls_submissions l" "ls_submissions (mark_detached k reason l) = ls_submissions l"
  by (rule subs_rest, simp)+

lemma subs_release [simp]: "ls_submissions (snd (lease_release reason l)) = ls_submissions l"
  by (auto simp: lease_release_def Let_def split: option.splits)

lemma subs_trim [simp]: "ls_submissions (snd (lease_trim now l)) = ls_submissions l"
  by (auto simp: lease_trim_def split: prod.splits)

lemma subs_retain_event [simp]: "ls_submissions (retain_event now t l) = ls_submissions l"
proof -
  let ?e = "\<lparr>re_seq = ls_last_seq l, re_text = t, re_size = text_size t, re_stored_at = now\<rparr>"
  let ?l0 = "l\<lparr>ls_ring := ls_ring l @ [?e], ls_ring_bytes := ls_ring_bytes l + text_size t\<rparr>"
  obtain ov l1 where tr: "lease_trim now ?l0 = (ov, l1)" by fastforce
  have "ls_submissions l1 = ls_submissions l" using subs_trim [of now ?l0] tr by simp
  then show ?thesis using tr by (simp add: retain_event_def Let_def split: option.splits)
qed

text \<open>What a step may do to the ledger: an entry in flight is still there afterwards.\<close>

definition kept :: "(pystr, submission_record) odict \<Rightarrow> (pystr, submission_record) odict \<Rightarrow> bool" where
  "kept subs subs' \<longleftrightarrow> (\<forall>sid r. map_of subs sid = Some r \<and> sr_outcome r = None \<longrightarrow> map_of subs' sid \<noteq> None)"

lemma kept_refl [simp]: "kept subs subs"
  by (simp add: kept_def)

lemma kept_update [simp]: "kept subs (AList.update sid r subs)"
  by (auto simp: kept_def update_conv')

lemma kept_record_outcome: "kept (ls_submissions l) (ls_submissions (snd (record_outcome limit t l)))"
  by (auto simp: record_outcome_def split: option.splits json.splits)

lemma kept_pump: "kept (ls_submissions l) (ls_submissions (fst (pump_step env l store)))"
proof -
  have ret: "kept (ls_submissions l) (ls_submissions l')"
    if r: "(lease_retain env t (l\<lparr>ls_websocket := ws\<rparr>) store :: (unit lease_error + unit) \<times> lease \<times> store_ref) = (r, l', st)"
    for t ws r l' st
  proof -
    let ?l1 = "l\<lparr>ls_websocket := ws, ls_last_seq := ls_last_seq l + 1\<rparr>"
    obtain r2 l2 where ro: "(record_outcome (pm_limit env) t ?l1 :: (unit lease_error + unit) \<times> lease) = (r2, l2)" by fastforce
    have "kept (ls_submissions l) (ls_submissions l2)"
      using kept_record_outcome [where 'a = unit, of ?l1 "pm_limit env" t] ro by simp
    then show ?thesis using r ro by (auto simp: lease_retain_def Let_def split: sum.splits prod.splits if_splits)
  qed
  then show ?thesis by (auto simp: pump_step_def split: prod.splits sum.splits option.splits)
qed

lemma kept_submit_value:
  assumes "inv_ledger l"
  shows "kept (ls_submissions l) (ls_submissions (snd (submit_value validator env k v t l)))"
proof -
  have first: "kept (ls_submissions l) (ls_submissions (snd (first_submission validator t sid rid l)))"
    if "map_of (ls_submissions l) sid = None" for sid rid
  proof (cases "make_room (lm_max_tracked (ls_limits l)) (\<lambda>r. sr_outcome r \<noteq> None) (ls_submissions l)")
    case None
    then show ?thesis by (simp add: first_submission_def)
  next
    case (Some subs)
    have "\<forall>k v. map_of (ls_submissions l) k = Some v \<and> sr_outcome v = None \<longrightarrow> map_of subs k = Some v"
      using make_room_Some [OF Some] assms by (auto simp: inv_ledger_def subs_ok_def)
    then have "kept (ls_submissions l) (AList.update sid r subs) \<and> kept (ls_submissions l) (AList.delete sid (AList.update sid r subs))"
      for r using that by (auto simp: kept_def update_conv' delete_conv')
    then show ?thesis using Some by (auto simp: first_submission_def Let_def split: sum.splits prod.splits)
  qed
  have "kept (ls_submissions l) (ls_submissions (snd (repeat_submission sid rid r k l)))" for sid rid r
    by (auto simp: repeat_submission_def split: option.splits)
  then show ?thesis using first
    by (auto simp: submit_value_def pass_through_def split: sum.splits option.splits prod.splits)
qed

lemma subs_start_read [simp]: "ls_submissions (snd (start_read req k l)) = ls_submissions l"
  by (simp add: start_read_def)

lemma subs_start_mutation [simp]: "ls_submissions (snd (start_mutation sha req k l)) = ls_submissions l"
  by (simp add: start_mutation_def repeat_mutation_def Let_def split: option.splits)

lemma kept_feed: "inv_ledger l \<Longrightarrow> kept (ls_submissions l) (ls_submissions (snd (feed_text validator env k t l)))"
  by (auto simp: feed_text_def submit_text_def Let_def kept_submit_value split: option.splits json.splits)

lemma subs_finish_task [simp]: "ls_submissions (finish_task i result l) = ls_submissions l"
proof -
  have "ls_submissions (finish_mutation n identity oc l1) = ls_submissions l1" for n identity oc l1
  proof -
    let ?r = "ls_mutation_objects l1 ! n"
    let ?l1 = "l1\<lparr>ls_mutation_objects := (ls_mutation_objects l1)[n := ?r\<lparr>mr_outcome := Some oc, mr_waiters := []\<rparr>]\<rparr>"
    obtain r l2 where d: "(deliver_outcomes oc (mr_waiters ?r) ?l1 :: (unit lease_error + unit) \<times> lease) = (r, l2)" by fastforce
    have "ls_submissions l2 = ls_submissions l1"
      using subs_deliver(3) [where 'c = unit, of oc "mr_waiters ?r" ?l1] d by simp
    then show ?thesis using d by (cases r) (auto simp: finish_mutation_def Let_def)
  qed
  then show ?thesis by (auto simp: finish_task_def Let_def split: local_task.splits)
qed

lemma kept_step:
  assumes "inv_ledger l"
  shows "kept (ls_submissions l) (ls_submissions (fst (lease_step validator ev (l, store))))
     \<or> ls_finished (fst (lease_step validator ev (l, store)))"
proof (cases ev)
  case (EvPump env)
  then show ?thesis using kept_pump by simp
next
  case (EvFeed env k t)
  then show ?thesis using kept_feed [OF assms, of validator env k t] by simp
next
  case (EvFinish ok)
  then show ?thesis by (auto simp: finish_release_def)
next
  case (EvAttach env cursor recovery reset rep)
  then show ?thesis
    by (auto simp: lease_attach_def Let_def case_prod_beta publish_attachment_def cancel_expiry_def split: option.splits)
qed (auto simp: lease_start_def schedule_expiry_def next_text_def
      register_outbound_def unregister_outbound_def split: list.splits option.splits prod.splits)

lemma finished_step: "ls_finished l \<Longrightarrow> ls_finished (fst (lease_step validator ev (l, store)))"
  using life_step [of validator ev l store] by (auto simp: life_view_def)

lemma finished_run: "ls_finished (fst (fst s)) \<Longrightarrow> ls_finished (fst (fst (fold (log_step validator) es s)))"
proof (induction es arbitrary: s)
  case (Cons ev es)
  obtain l store hist where s: "s = ((l, store), hist)" by (metis prod.exhaust)
  show ?case using Cons.IH [of "log_step validator ev s"] Cons.prems finished_step [of l validator ev store] by (simp add: s)
qed simp

lemma in_flight_kept: "in_flight sid l \<Longrightarrow> kept (ls_submissions l) (ls_submissions l') \<Longrightarrow> in_flight sid l' \<or> answered sid l'"
  by (auto simp: in_flight_def answered_def kept_def split: option.splits)

lemma in_flight_run:
  assumes "lease_full_inv s" and "in_flight sid (fst (fst s))"
    and "\<forall>n \<le> length es. \<not> answered sid (fst (fst (fold (log_step validator) (take n es) s)))"
    and "\<not> ls_finished (fst (fst (fold (log_step validator) es s)))"
  shows "in_flight sid (fst (fst (fold (log_step validator) es s)))"
  using assms
proof (induction es arbitrary: s)
  case (Cons ev es)
  obtain l store hist where s: "s = ((l, store), hist)" by (metis prod.exhaust)
  let ?s' = "log_step validator ev s"
  have "\<not> ls_finished (fst (fst ?s'))" using finished_run [of ?s' validator es] Cons.prems(4) by auto
  then have "kept (ls_submissions l) (ls_submissions (fst (fst ?s')))"
    using kept_step [of l validator ev store] Cons.prems(1) by (auto simp: s lease_full_inv_def)
  moreover have "\<not> answered sid (fst (fst ?s'))" using Cons.prems(3) [rule_format, of 1] by simp
  ultimately have "in_flight sid (fst (fst ?s'))" using in_flight_kept [of sid l] Cons.prems(2) s by auto
  moreover have "\<forall>n \<le> length es. \<not> answered sid (fst (fst (fold (log_step validator) (take n es) ?s')))"
    using Cons.prems(3) [rule_format, of "Suc _"] by auto
  ultimately show ?case using Cons.IH [of ?s'] Cons.prems(4) full_inv_step [OF Cons.prems(1), of validator ev] by simp
qed simp

lemma parse_submission_Inr:
  "((parse_submission v :: 'a lease_error + (pystr \<times> json) option) = Inr x)
     = ((parse_submission v :: unit lease_error + (pystr \<times> json) option) = Inr x)"
  by (auto simp: parse_submission_def split: option.splits json.splits)

lemma names_submissionE:
  assumes "names_submission limit t sid"
  obtains req rid where "loads_strict limit t = Some (JObj req)" "jget req ''method'' = JStr (lit ''prompt.submit'')"
    "(parse_submission (Some (JObj req)) :: 'r lease_error + (pystr \<times> json) option) = Inr (Some (sid, rid))"
proof -
  obtain rid where p: "(parse_submission (loads_strict limit t) :: unit lease_error + (pystr \<times> json) option) = Inr (Some (sid, rid))"
    using assms by (auto simp: names_submission_def split: sum.splits option.splits)
  then obtain req where r: "loads_strict limit t = Some (JObj req)" "jget req ''method'' = JStr (lit ''prompt.submit'')"
    by (auto simp: parse_submission_def split: option.splits json.splits if_splits)
  then show ?thesis using that [of req rid] p parse_submission_Inr by fastforce
qed

lemma prompt_not_local: "lit ''prompt.submit'' \<notin> set RELAY_LOCAL_METHODS"
  by (simp add: RELAY_LOCAL_METHODS_def RELAY_READ_METHODS_def RELAY_FOLDER_METHODS_def RELAY_PUSH_METHODS_def lit_def)

lemma feed_submission:
  fixes validator :: "'r validator"
  assumes "names_submission (sv_limit env) t sid"
  shows "\<exists>rid. feed_text validator env k t l =
    (if at_detached (the_attachment l k) then (Inl (SessionLeaseError ''attachment_detached''), l)
     else if ls_released l then (Inl LeaseReleased, l)
     else if ls_attachment l \<noteq> Some k then (Inl (SessionLeaseError ''attachment_detached''), l)
     else (case map_of (ls_submissions l) sid of
             None \<Rightarrow> first_submission validator t sid rid l
           | Some r \<Rightarrow> repeat_submission sid rid r k l))"
proof -
  obtain req rid where "loads_strict (sv_limit env) t = Some (JObj req)" "jget req ''method'' = JStr (lit ''prompt.submit'')"
    "(parse_submission (Some (JObj req)) :: 'r lease_error + (pystr \<times> json) option) = Inr (Some (sid, rid))"
    using names_submissionE [where 'r = 'r, OF assms] by blast
  then show ?thesis
    by (intro exI [of _ rid]) (simp add: feed_text_def submit_text_def Let_def prompt_not_local submit_value_def)
qed

lemma websocket_deliver_outcome [simp]: "ls_websocket (snd (deliver_outcome outcome rid k l)) = ls_websocket l"
  using rest_eqD [OF rest_deliver_outcome] by blast

lemma repeat_keeps_websocket: "ls_websocket (snd (repeat_submission sid rid r k l)) = ls_websocket l"
  by (simp add: repeat_submission_def split: option.splits)

text \<open>A repeated submission never reaches the controller while its id is in the ledger.\<close>

lemma tracked_not_dispatched:
  assumes "names_submission (sv_limit env) t sid" and "in_flight sid l \<or> answered sid l"
  shows "ls_websocket (snd (feed_text validator env k t l)) = ls_websocket l"
proof -
  obtain r where "map_of (ls_submissions l) sid = Some r"
    using assms(2) by (auto simp: in_flight_def answered_def split: option.splits)
  then show ?thesis using feed_submission [OF assms(1), of validator k l] repeat_keeps_websocket by fastforce
qed

lemma full_inv_feed:
  assumes "lease_full_inv ((l, store), hist)"
  shows "lease_full_inv ((snd (feed_text validator env k t l), store), hist)"
  using assms inv_att_feed [of l validator env k t] inv_ledger_feed [of l validator env k t]
    inv_life_cong [OF life_view_feed, of validator env k t l] inv_ring_cong [OF ring_view_feed, of hist validator env k t l]
  by (auto simp: lease_full_inv_def lease_inv_def)

lemma first_submission_ok:
  assumes "first_submission validator t sid rid l = (Inr (), l1)"
  shows "in_flight sid l1 \<and> vw_inbound (ls_websocket l1) = vw_inbound (ls_websocket l) @ [VText (fed_text validator t)]"
  using assms
  by (cases rule: vws_feed_text_cases [of validator "ls_websocket l" t])
    (auto simp: first_submission_def in_flight_def update_conv' Let_def split: option.splits)

text \<open>
  C5. A prompt is dispatched at most once while it is unanswered. A submission id that the
  ledger does not hold, once its frame has been accepted, has put exactly that frame into the
  controller's queue. From then on, whatever happens (detach, reconnect, other prompts that
  need room, deliveries, failures), the id stays in flight as long as no response to it has
  arrived and the lease is not torn down; and in every such state a frame that carries the
  same id leaves the controller's WebSocket untouched.
\<close>

theorem submission_dispatched_once:
  assumes "fresh_lease s" and "fold (log_step validator) es s = ((l, store), hist)"
    and "names_submission (sv_limit env) t sid" and "\<not> in_flight sid l" and "\<not> answered sid l"
    and "feed_text validator env k t l = (Inr (), l1)"
    and "fold (log_step validator) es' ((l1, store), hist) = ((l2, store2), hist2)"
    and "\<forall>n \<le> length es'. \<not> answered sid (fst (fst (fold (log_step validator) (take n es') ((l1, store), hist))))"
    and "\<not> ls_finished l2"
    and "names_submission (sv_limit env') t' sid"
  shows "vw_inbound (ls_websocket l1) = vw_inbound (ls_websocket l) @ [VText (fed_text validator t)]
    \<and> in_flight sid l2 \<and> ls_websocket (snd (feed_text validator env' k' t' l2)) = ls_websocket l2"
proof -
  have "lease_full_inv ((l, store), hist)" using full.inv_reachable [OF assms(1), of validator es] assms(2) by simp
  then have inv: "lease_full_inv ((l1, store), hist)" using full_inv_feed [of l store hist validator env k t] assms(6) by simp
  have "map_of (ls_submissions l) sid = None" using assms(4,5) by (auto simp: in_flight_def answered_def split: option.splits)
  then obtain rid where "first_submission validator t sid rid l = (Inr (), l1)"
    using feed_submission [OF assms(3), of validator k l] assms(6) by (auto split: if_splits)
  note first = first_submission_ok [OF this]
  have "in_flight sid l2" using in_flight_run [OF inv, of sid es' validator] first assms(7,8,9) by simp
  then show ?thesis using first tracked_not_dispatched [OF assms(10)] by blast
qed

definition demo_submit :: "pystr \<Rightarrow> pystr" where
  \<comment> \<open>a prompt for a profile, with submission id \<open>s\<close>\<close>
  "demo_submit profile = dumps (JObj [(lit ''jsonrpc'', JStr (lit ''2.0'')), (lit ''id'', JInt 1),
     (lit ''method'', JStr (lit ''prompt.submit'')),
     (lit ''params'', JObj [(lit ''submission_id'', JStr (lit ''s'')), (lit ''profile'', JStr profile)])])"

definition demo_env :: submit_env where
  "demo_env = \<lparr>sv_limit = 9, sv_sha256 = (\<lambda>_. []), sv_authorizer = (\<lambda>_. True)\<rparr>"

definition demo_attached :: lease where
  "demo_attached = fst (fst (fold (log_step (None :: policy_reason validator))
     [EvStart, EvAttach demo_attach 0 False False False] ((demo_lease, None), [])))"

definition demo_reconnect :: "lease_event list" where
  "demo_reconnect = [EvDetach 0 ''gone'', EvAttach demo_attach 0 False False False]"

theorem submission_dispatched_once_witness:
  "\<exists>l1 l2. feed_text (None :: policy_reason validator) demo_env 0 (demo_submit (lit ''p'')) demo_attached = (Inr (), l1)
     \<and> fst (fst (fold (log_step (None :: policy_reason validator)) demo_reconnect ((l1, None), []))) = l2
     \<and> vw_inbound (ls_websocket l1) = [VText (demo_submit (lit ''p''))] \<and> in_flight (lit ''s'') l2
     \<and> ls_websocket (snd (feed_text (None :: policy_reason validator) demo_env 1 (demo_submit (lit ''p'')) l2)) = ls_websocket l2"
proof -
  let ?v = "None :: policy_reason validator"
  let ?t = "demo_submit (lit ''p'')"
  let ?r = "feed_text ?v demo_env 0 ?t demo_attached"
  let ?l1 = "snd ?r"
  let ?s2 = "fold (log_step ?v) demo_reconnect ((?l1, None), [])"
  have run: "fold (log_step ?v) [EvStart, EvAttach demo_attach 0 False False False] ((demo_lease, None), [])
      = ((demo_attached, None), [])"
  proof -
    have "snd (fold (log_step ?v) [EvStart, EvAttach demo_attach 0 False False False] ((demo_lease, None), [])) = []"
      "snd (fst (fold (log_step ?v) [EvStart, EvAttach demo_attach 0 False False False] ((demo_lease, None), []))) = None"
      by code_simp+
    then show ?thesis unfolding demo_attached_def by (metis prod.collapse)
  qed
  have names: "names_submission (sv_limit demo_env) ?t (lit ''s'')" by code_simp
  have new: "\<not> in_flight (lit ''s'') demo_attached" "\<not> answered (lit ''s'') demo_attached" by code_simp+
  have "fst ?r = Inr ()" by code_simp
  then have fed: "?r = (Inr (), ?l1)" by (metis prod.collapse)
  have run2: "?s2 = ((fst (fst ?s2), snd (fst ?s2)), snd ?s2)" by simp
  have "list_all (\<lambda>n. \<not> answered (lit ''s'') (fst (fst (fold (log_step ?v) (take n demo_reconnect) ((?l1, None), []))))) [0..<3]"
    by code_simp
  moreover have "length demo_reconnect = 2" by (simp add: demo_reconnect_def)
  ultimately have open': "\<forall>n \<le> length demo_reconnect. \<not> answered (lit ''s'')
      (fst (fst (fold (log_step ?v) (take n demo_reconnect) ((?l1, None), []))))"
    by (auto simp: list_all_iff)
  have fin: "\<not> ls_finished (fst (fst ?s2))" by code_simp
  have "vw_inbound (ls_websocket demo_attached) = []" by code_simp
  then show ?thesis
    using submission_dispatched_once [OF demo_fresh run names new fed run2 open' fin names, of 1] fed
    by (auto simp: fed_text_def)
qed

text \<open>
  A rejected prompt wedges its submission id. When the method policy refuses a prompt
  whose id is new, the device gets the rejection and nothing reaches the controller, but the
  ledger keeps the id as if it were in flight, because only \<open>VirtualWebSocketError\<close> removes
  the entry and the policy raises something else. A corrected retry with the same id is then
  accepted in silence: it does not reach the controller, and no attachment receives anything.
\<close>

theorem rejected_submission_wedges:
  assumes "names_submission (sv_limit env) t sid" and "\<not> in_flight sid l" and "\<not> answered sid l"
    and "feed_text validator env k t l = (Inl (LeaseFeed (FeedRejected reason)), l1)"
    and "names_submission (sv_limit env') t' sid"
    and "feed_text validator env' k t' l1 = (r, l2)"
  shows "ls_websocket l1 = ls_websocket l \<and> in_flight sid l1
    \<and> r = Inr () \<and> in_flight sid l2 \<and> ls_websocket l2 = ls_websocket l1 \<and> ls_objects l2 = ls_objects l1"
proof -
  have none: "map_of (ls_submissions l) sid = None" using assms(2,3) by (auto simp: in_flight_def answered_def split: option.splits)
  then obtain rid where f: "first_submission validator t sid rid l = (Inl (LeaseFeed (FeedRejected reason)), l1)"
    and live: "\<not> at_detached (the_attachment l k)" "\<not> ls_released l" "ls_attachment l = Some k"
    using feed_submission [OF assms(1), of validator k l] assms(4) by (auto split: if_splits)
  then obtain rec where rec: "map_of (ls_submissions l1) sid = Some rec" "sr_outcome rec = None"
    and same: "ls_websocket l1 = ls_websocket l" "ls_objects l1 = ls_objects l" "ls_released l1 = ls_released l"
      "ls_attachment l1 = ls_attachment l"
    by (cases rule: vws_feed_text_cases [of validator "ls_websocket l" t])
      (auto simp: first_submission_def is_websocket_error_def update_conv' Let_def split: option.splits)
  obtain rid' where "repeat_submission sid rid' rec k l1 = (r, l2)"
    using feed_submission [OF assms(5), of validator k l1] assms(6) rec live same by auto
  then have "r = Inr () \<and> in_flight sid l2 \<and> ls_websocket l2 = ls_websocket l1 \<and> ls_objects l2 = ls_objects l1"
    using rec by (auto simp: repeat_submission_def in_flight_def update_conv' split: if_splits)
  then show ?thesis using same rec by (auto simp: in_flight_def)
qed

definition demo_policy :: method_policy where
  "demo_policy = \<lparr>mp_profile = lit ''p'', mp_allowed_methods = ALLOWED_V1_METHODS, mp_profile_authorizer = None\<rparr>"

theorem rejected_submission_wedges_witness:
  "\<exists>l1 l2. feed_text (Some (policy_validate_text 9 demo_policy)) demo_env 0 (demo_submit (lit ''q'')) demo_attached
         = (Inl (LeaseFeed (FeedRejected Profile_not_available)), l1)
     \<and> policy_validate_text 9 demo_policy (demo_submit (lit ''p'')) = Inr (demo_submit (lit ''p''))
     \<and> feed_text (Some (policy_validate_text 9 demo_policy)) demo_env 0 (demo_submit (lit ''p'')) l1 = (Inr (), l2)
     \<and> vw_inbound (ls_websocket l2) = [] \<and> in_flight (lit ''s'') l2 \<and> ls_objects l2 = ls_objects l1"
proof -
  let ?v = "Some (policy_validate_text 9 demo_policy)"
  let ?r = "feed_text ?v demo_env 0 (demo_submit (lit ''q'')) demo_attached"
  let ?r2 = "feed_text ?v demo_env 0 (demo_submit (lit ''p'')) (snd ?r)"
  have names: "names_submission (sv_limit demo_env) (demo_submit (lit ''q'')) (lit ''s'')"
    "names_submission (sv_limit demo_env) (demo_submit (lit ''p'')) (lit ''s'')" by code_simp+
  have new: "\<not> in_flight (lit ''s'') demo_attached" "\<not> answered (lit ''s'') demo_attached" by code_simp+
  have "fst ?r = Inl (LeaseFeed (FeedRejected Profile_not_available))" by code_simp
  then have fed: "?r = (Inl (LeaseFeed (FeedRejected Profile_not_available)), snd ?r)" by (metis prod.collapse)
  have fed2: "?r2 = (fst ?r2, snd ?r2)" by simp
  have fine: "policy_validate_text 9 demo_policy (demo_submit (lit ''p'')) = Inr (demo_submit (lit ''p''))" by code_simp
  have empty: "vw_inbound (ls_websocket demo_attached) = []" by code_simp
  note wedged = rejected_submission_wedges [OF names(1) new fed names(2) fed2]
  then have "?r2 = (Inr (), snd ?r2)" by (metis prod.collapse)
  then show ?thesis using wedged fed fine empty by (intro exI [of _ "snd ?r"] exI [of _ "snd ?r2"]) simp
qed

section \<open>Release\<close>

lemma released_run: "ls_released (fst (fst s)) \<Longrightarrow> ls_released (fst (fst (fold (log_step validator) es s)))"
proof (induction es arbitrary: s)
  case (Cons ev es)
  obtain l store hist where s: "s = ((l, store), hist)" by (metis prod.exhaust)
  show ?case using Cons.IH [of "log_step validator ev s"] Cons.prems released_step [of l validator ev store] by (simp add: s)
qed simp

definition torn_down :: "lease \<Rightarrow> bool" where
  "torn_down l \<longleftrightarrow> ls_released l \<and> ls_finished l \<and> \<not> ls_pumping l \<and> ls_ring l = [] \<and> ls_ring_bytes l = 0
     \<and> ls_submissions l = [] \<and> ls_mutations l = [] \<and> ls_tasks l = [] \<and> vw_closed (ls_websocket l)"

lemma torn_down_rest: "rest l' = rest l \<Longrightarrow> torn_down l' = torn_down l"
  by (drule rest_eqD) (simp add: torn_down_def)

lemma torn_down_step: "torn_down l \<Longrightarrow> torn_down (fst (lease_step validator ev (l, store)))"
proof -
  assume t: "torn_down l"
  have same: "torn_down l'" if "rest l' = rest l" for l' using torn_down_rest [OF that] t by simp
  show ?thesis
  proof (cases ev)
    case (EvDetach k reason)
    then show ?thesis using same [of "lease_detach k reason l"] t by simp
  next
    case (EvUnregister k task)
    then show ?thesis using t by (simp add: torn_down_def unregister_outbound_def upd_attachment_def)
  next
    case (EvController x)
    then show ?thesis using t by (simp add: torn_down_def vws_send_text_def)
  qed (use t in \<open>auto simp: torn_down_def lease_start_def pump_step_def lease_attach_def feed_text_def submit_text_def
      next_text_def finish_task_def register_outbound_def lease_release_def finish_release_def vws_receive_text_def
      split: list.splits vws_item.splits\<close>)
qed

lemma torn_down_run: "torn_down (fst (fst s)) \<Longrightarrow> torn_down (fst (fst (fold (log_step validator) es s)))"
proof (induction es arbitrary: s)
  case (Cons ev es)
  obtain l store hist where s: "s = ((l, store), hist)" by (metis prod.exhaust)
  show ?case using Cons.IH [of "log_step validator ev s"] Cons.prems torn_down_step [of l validator ev store] by (simp add: s)
qed simp

lemma closed_close [simp]: "vw_closed (vws_close w code reason)"
  by (simp add: vws_close_def close_now_def Let_def signal_close_def)

lemma finish_tears_down:
  assumes "ls_released l" and "\<not> ls_finished l"
  shows "torn_down (finish_release ok l)"
  using assms by (simp add: finish_release_def torn_down_def)

lemma cleanup_run:
  assumes "ls_released (fst (fst s))" and "\<not> ls_finished (fst (fst s))" and "EvFinish ok \<in> set es"
  shows "torn_down (fst (fst (fold (log_step validator) es s)))"
  using assms
proof (induction es arbitrary: s)
  case (Cons ev es)
  obtain l store hist where s: "s = ((l, store), hist)" by (metis prod.exhaust)
  let ?s' = "log_step validator ev s"
  show ?case
  proof (cases "\<exists>ok. ev = EvFinish ok")
    case True
    then have "torn_down (fst (fst ?s'))" using Cons.prems finish_tears_down by (auto simp: s)
    then show ?thesis using torn_down_run by simp
  next
    case False
    have "life_view (fst (lease_step validator ev (l, store))) = life_view l"
      using life_step [of validator ev l store] False Cons.prems(1) by (auto simp: s life_view_def)
    then show ?thesis using Cons.IH [of ?s'] Cons.prems False by (auto simp: s life_view_def)
  qed
qed simp

lemma feed_released: "ls_released l \<Longrightarrow> \<exists>e. feed_text validator env k t l = (Inl e, l)"
  by (simp add: feed_text_def submit_text_def)

text \<open>
  C26. A release fences the lease at once and tears it down once. From the moment \<open>release\<close>
  is called, in every later state: the lease stays released and has no attachment, every
  attachment is detached, attaching, reading and feeding raise and change nothing, a second
  release does nothing, and \<open>close_controller\<close> is called at most once. As soon as the
  cleanup has run it has been called exactly once, the ring and both ledgers are empty, no
  local task is left, the pump has stopped and the controller's WebSocket is closed; and this
  stays so.
\<close>

theorem release_fences:
  fixes validator :: "'r validator"
  assumes "fresh_lease s" and "fold (log_step validator) es s = ((l, store), hist)" and "\<not> ls_released l"
    and "lease_release reason l = (first, l1)"
    and "fold (log_step validator) es' ((l1, store), hist) = ((l2, store2), hist2)"
  shows "first \<and> ls_released l2 \<and> ls_attachment l2 = None \<and> (\<forall>a \<in> set (ls_objects l2). at_detached a)
    \<and> lease_attach env cursor recovery reset rep l2 store2 = (Inl LeaseReleased :: 'r lease_error + nat, l2, store2)
    \<and> next_text k l2 = (Inl LeaseReleased :: 'r lease_error + pystr option, l2)
    \<and> (\<exists>e. feed_text validator senv k t l2 = (Inl e, l2))
    \<and> lease_release reason' l2 = (False, l2) \<and> ls_close_calls l2 \<le> 1
    \<and> (EvFinish ok \<in> set es' \<longrightarrow> torn_down l2 \<and> ls_close_calls l2 = 1)"
proof -
  have inv: "lease_full_inv ((l, store), hist)" using full.inv_reachable [OF assms(1), of validator es] assms(2) by simp
  have l1: "l1 = snd (lease_release reason l)" "first" using assms(3,4) by (auto simp: lease_release_def Let_def)
  have rel: "ls_released l1" "\<not> ls_finished l1" "ls_close_calls l1 = 0"
    using inv life_view_release [of reason l] assms(3) unfolding l1(1)
    by (auto simp: lease_full_inv_def inv_life_def life_view_def)
  have inv1: "lease_full_inv ((l1, store), hist)"
    using inv inv_att_release [of l reason] inv_ring_release [of l hist reason] life_view_release [of reason l] assms(3)
    by (auto simp: lease_full_inv_def lease_inv_def l1(1) inv_life_def life_view_def inv_ring_def)
  have inv2: "lease_full_inv ((l2, store2), hist2)" using full.inv_run [OF inv1, of validator es'] assms(5) by simp
  have rel2: "ls_released l2" using released_run [of "((l1, store), hist)" validator es'] rel assms(5) by simp
  then have att: "ls_attachment l2 = None" "\<forall>a \<in> set (ls_objects l2). at_detached a"
    using inv2 by (auto simp: lease_full_inv_def lease_inv_def inv_att_def in_set_conv_nth)
  have "torn_down l2" if "EvFinish ok \<in> set es'"
    using cleanup_run [of "((l1, store), hist)" ok es' validator] rel that assms(5) by simp
  then show ?thesis
    using rel2 att inv2 l1(2) feed_released [OF rel2, of validator senv k t]
    by (auto simp: lease_attach_def next_text_def lease_release_def lease_full_inv_def inv_life_def torn_down_def)
qed

theorem release_fences_witness:
  "\<exists>l2 store2 hist2. fold (log_step (None :: unit validator)) [EvFinish True, EvStart, EvRelease ''again'']
        ((snd (lease_release ''expired'' demo_state), None), [lit ''a'', lit ''b'']) = ((l2, store2), hist2)
     \<and> torn_down l2 \<and> ls_close_calls l2 = 1 \<and> (next_text 0 l2 :: (unit lease_error + pystr option) \<times> lease) = (Inl LeaseReleased, l2)"
proof -
  note run = demo_run_result
  have live: "\<not> ls_released demo_state" by code_simp
  have rel: "lease_release ''expired'' demo_state = (fst (lease_release ''expired'' demo_state), snd (lease_release ''expired'' demo_state))"
    by simp
  let ?s2 = "fold (log_step (None :: unit validator)) [EvFinish True, EvStart, EvRelease ''again'']
        ((snd (lease_release ''expired'' demo_state), None), [lit ''a'', lit ''b''])"
  obtain l2 store2 hist2 where run2: "?s2 = ((l2, store2), hist2)" by (metis prod.collapse)
  show ?thesis
    using release_fences [OF demo_fresh run live rel run2, where ok = True and k = 0] run2 by (intro exI conjI) auto
qed

end
