(* ===== verification/Lease_Manager.thy ===== *)
theory Lease_Manager
  imports Lease_Ledger
begin

text \<open>
  The registry of leases, \<open>SessionLeaseManager\<close> of \<^verbatim>\<open>session_lease.py\<close>. Leases are objects
  that transports and tasks keep hold of, so the manager has the list of all that were ever
  constructed, and its dictionary maps a device and a channel to the number of one. A
  release that \<open>gather\<close> hands to a new task is an entry of the lease's \<open>ls_scheduled\<close>.
\<close>

section \<open>Operations\<close>

type_synonym lease_key = "pystr \<times> pystr"

record manager =
  mg_max_leases :: int
  mg_leases :: "(lease_key, nat) odict"
  mg_closed :: bool
  mg_objects :: "lease list"

definition new_manager :: "int \<Rightarrow> string + manager" where
  "new_manager max_leases =
     (if max_leases < 1 then Inl ''max_leases must be a positive integer''
      else Inr \<lparr>mg_max_leases = max_leases, mg_leases = [], mg_closed = False, mg_objects = []\<rparr>)"

abbreviation the_lease :: "manager \<Rightarrow> nat \<Rightarrow> lease" where
  "the_lease m k \<equiv> mg_objects m ! k"

definition lease_key_of :: "lease \<Rightarrow> lease_key" where
  "lease_key_of l = (ls_device_id l, ls_channel l)"

definition active_count :: "manager \<Rightarrow> nat" where
  "active_count m = length (filter (\<lambda>(key, k). \<not> ls_release_succeeded (the_lease m k)) (mg_leases m))"

definition mg_get :: "pystr \<Rightarrow> pystr \<Rightarrow> manager \<Rightarrow> nat option \<times> manager" where
  "mg_get device_id channel m =
     (case map_of (mg_leases m) (device_id, channel) of
        None \<Rightarrow> (None, m)
      | Some k \<Rightarrow> if ls_release_succeeded (the_lease m k)
                  then (None, m\<lparr>mg_leases := AList.delete (device_id, channel) (mg_leases m)\<rparr>)
                  else (Some k, m))"

definition leases_for :: "pystr \<Rightarrow> manager \<Rightarrow> nat list" where
  "leases_for device_id m =
     map snd (filter (\<lambda>((owner, channel), k). owner = device_id \<and> \<not> ls_release_succeeded (the_lease m k)) (mg_leases m))"

definition upd_lease :: "nat \<Rightarrow> lease \<Rightarrow> manager \<Rightarrow> manager" where
  "upd_lease k l m = m\<lparr>mg_objects := (mg_objects m)[k := l]\<rparr>"

definition mg_register :: "nat \<Rightarrow> manager \<Rightarrow> (string + unit) \<times> manager" where
  "mg_register k m =
     (if mg_closed m then (Inl ''manager_closed'', m)
      else
        let l = the_lease m k; (owned, m1) = mg_get (ls_device_id l) (ls_channel l) m in
        if owned \<noteq> None then (Inl ''device_already_leased'', m1)
        else
          let m2 = m1\<lparr>mg_leases := filter (\<lambda>(key, j). \<not> ls_release_succeeded (the_lease m1 j)) (mg_leases m1)\<rparr> in
          if int (length (mg_leases m2)) \<ge> mg_max_leases m2 then (Inl ''lease_limit_reached'', m2)
          else (Inr (), upd_lease k (lease_start l)
                  (m2\<lparr>mg_leases := AList.update (lease_key_of l) k (mg_leases m2)\<rparr>)))"

definition mg_release_lease :: "pystr \<Rightarrow> pystr \<Rightarrow> string \<Rightarrow> manager \<Rightarrow> bool \<times> manager" where
  "mg_release_lease device_id channel reason m =
     (case mg_get device_id channel m of
        (None, m1) \<Rightarrow> (False, m1)
      | (Some k, m1) \<Rightarrow> (case lease_release reason (the_lease m1 k) of (first, l) \<Rightarrow> (first, upd_lease k l m1)))"

definition schedule_release :: "string \<Rightarrow> nat \<Rightarrow> manager \<Rightarrow> manager" where
  "schedule_release reason k m =
     upd_lease k ((the_lease m k)\<lparr>ls_scheduled := ls_scheduled (the_lease m k) @ [reason]\<rparr>) m"

definition mg_release_all :: "nat list \<Rightarrow> string \<Rightarrow> manager \<Rightarrow> manager" where
  "mg_release_all ks reason m = fold (schedule_release reason) ks m"

definition mg_release_device :: "pystr \<Rightarrow> string \<Rightarrow> manager \<Rightarrow> manager" where
  "mg_release_device device_id reason m = mg_release_all (leases_for device_id m) reason m"

definition mg_close :: "manager \<Rightarrow> manager" where
  "mg_close m = mg_release_all (map snd (mg_leases m)) ''plugin_shutdown'' (m\<lparr>mg_closed := True\<rparr>)"

section \<open>The manager as a state machine\<close>

datatype manager_event =
    MgCreate pystr pystr pystr pystr lease_limits bool projection vws   \<comment> \<open>\<open>SessionLease(...)\<close>\<close>
  | MgRegister nat
  | MgGet pystr pystr
  | MgReleaseLease pystr pystr string
  | MgReleaseDevice pystr string
  | MgClose
  | MgLease nat lease_event                        \<comment> \<open>a step of one lease\<close>

fun mg_step :: "'r validator \<Rightarrow> manager_event \<Rightarrow> manager \<times> store_ref \<Rightarrow> manager \<times> store_ref" where
  "mg_step validator (MgCreate device channel profile lease_id limits has_dispatcher pj ws) (m, store) =
     (case new_lease device channel profile lease_id limits has_dispatcher pj ws of
        Inl _ \<Rightarrow> (m, store)
      | Inr l \<Rightarrow> (m\<lparr>mg_objects := mg_objects m @ [l]\<rparr>, store))"
| "mg_step validator (MgRegister k) (m, store) = (if k < length (mg_objects m) then snd (mg_register k m) else m, store)"
| "mg_step validator (MgGet device channel) (m, store) = (snd (mg_get device channel m), store)"
| "mg_step validator (MgReleaseLease device channel reason) (m, store) = (snd (mg_release_lease device channel reason m), store)"
| "mg_step validator (MgReleaseDevice device reason) (m, store) = (mg_release_device device reason m, store)"
| "mg_step validator MgClose (m, store) = (mg_close m, store)"
| "mg_step validator (MgLease k ev) (m, store) =
     (if k < length (mg_objects m)
      then (case lease_step validator ev (the_lease m k, store) of (l, store') \<Rightarrow> (upd_lease k l m, store'))
      else (m, store))"

text \<open>A run that also lists the leases whose registration succeeded.\<close>

fun mg_log :: "'r validator \<Rightarrow> manager_event \<Rightarrow> (manager \<times> store_ref) \<times> nat list \<Rightarrow> (manager \<times> store_ref) \<times> nat list" where
  "mg_log validator ev (s, regs) =
     (mg_step validator ev s,
      case ev of MgRegister k \<Rightarrow> if k < length (mg_objects (fst s)) \<and> is_ok (fst (mg_register k (fst s))) then regs @ [k] else regs
      | _ \<Rightarrow> regs)"

section \<open>What a step of a lease does to its registration\<close>

definition core :: "lease \<Rightarrow> lease_key \<times> string list \<times> bool \<times> bool" where
  "core l = (lease_key_of l, ls_scheduled l, ls_released l, ls_release_succeeded l)"

lemma core_rest: "rest l' = rest l \<Longrightarrow> core l' = core l"
  by (drule rest_eqD) (simp add: core_def lease_key_of_def)

lemma core_frame [simp]:
  "core (l\<lparr>ls_projection := x1\<rparr>) = core l" "core (l\<lparr>ls_websocket := x2\<rparr>) = core l"
  "core (l\<lparr>ls_pumping := x3\<rparr>) = core l" "core (l\<lparr>ls_mutation_objects := x4\<rparr>) = core l"
  "core (l\<lparr>ls_tasks := x5\<rparr>) = core l" "core (l\<lparr>ls_outbound := x6\<rparr>) = core l"
  "core (l\<lparr>ls_expiry_armed := x8\<rparr>) = core l"
  "core (l\<lparr>ls_objects := x9\<rparr>) = core l" "core (l\<lparr>ls_attachment := x10\<rparr>) = core l"
  "core (l\<lparr>ls_recovery_enabled := x11\<rparr>) = core l" "core (l\<lparr>ls_cancelled := x12\<rparr>) = core l"
  "core (l\<lparr>ls_ring := x13\<rparr>) = core l" "core (l\<lparr>ls_ring_bytes := x14\<rparr>) = core l"
  "core (l\<lparr>ls_last_seq := x15\<rparr>) = core l" "core (l\<lparr>ls_trimmed_through := x16\<rparr>) = core l"
  "core (l\<lparr>ls_submissions := x17\<rparr>) = core l" "core (l\<lparr>ls_mutations := x18\<rparr>) = core l"
  by (simp_all add: core_def lease_key_of_def)

lemma core_deliver [simp]:
  "core (snd (deliver_local response k l)) = core l"
  "core (snd (deliver_outcome outcome rid k l)) = core l"
  "core (snd (deliver_outcomes outcome ws l)) = core l"
  "core (lease_detach k reason l) = core l" "core (att_deliver k t sz l) = core l"
  "core (upd_attachment k f l) = core l" "core (mark_detached k reason l) = core l"
  by (rule core_rest, simp)+

lemma core_trim [simp]: "core (snd (lease_trim now l)) = core l"
  using lease_trim_frame [of now l "fst (lease_trim now l)" "snd (lease_trim now l)"] by auto

lemma core_release: "core (snd (lease_release reason l)) = (lease_key_of l, ls_scheduled l, True, ls_release_succeeded l)"
proof (cases "ls_released l")
  case False
  let ?l1 = "l\<lparr>ls_released := True, ls_release_reason := Some reason, ls_attachment := None\<rparr>"
  have "core ?l1 = (lease_key_of l, ls_scheduled l, True, ls_release_succeeded l)" by (simp add: core_def lease_key_of_def)
  then show ?thesis using False by (simp add: lease_release_def Let_def split: option.splits)
qed (simp add: lease_release_def core_def)

text \<open>The possible changes, in one relation: nothing, one more scheduled release, a release,
  and the end of the cleanup.\<close>

definition progressed :: "lease \<Rightarrow> lease \<Rightarrow> bool" where
  "progressed l l' \<longleftrightarrow> lease_key_of l' = lease_key_of l
     \<and> (ls_released l \<or> ls_scheduled l \<noteq> [] \<longrightarrow> ls_released l' \<or> ls_scheduled l' \<noteq> [])
     \<and> (inv_life l \<longrightarrow> ls_release_succeeded l \<longrightarrow> ls_release_succeeded l')"

lemma progressed_same: "core l' = core l \<Longrightarrow> progressed l l'"
  by (simp add: progressed_def core_def)

lemma progressed_release: "lease_key_of l1 = lease_key_of l \<Longrightarrow> ls_release_succeeded l1 = ls_release_succeeded l
  \<Longrightarrow> progressed l (snd (lease_release reason l1))"
  using core_release [of reason l1] by (simp add: progressed_def core_def)

lemma progressed_retain_event: "core (retain_event now t l) = core l \<or>
  core (retain_event now t l) = (lease_key_of l, ls_scheduled l @ [''retention_cap''], ls_released l, ls_release_succeeded l)"
proof -
  let ?e = "\<lparr>re_seq = ls_last_seq l, re_text = t, re_size = text_size t, re_stored_at = now\<rparr>"
  let ?l0 = "l\<lparr>ls_ring := ls_ring l @ [?e], ls_ring_bytes := ls_ring_bytes l + text_size t\<rparr>"
  obtain ov l2 where tr: "lease_trim now ?l0 = (ov, l2)" by fastforce
  have c: "core l2 = core l" using core_trim [of now ?l0] tr by simp
  then have "core (l2\<lparr>ls_scheduled := ls_scheduled l2 @ [''retention_cap'']\<rparr>)
      = (lease_key_of l, ls_scheduled l @ [''retention_cap''], ls_released l, ls_release_succeeded l)"
    by (simp add: core_def lease_key_of_def)
  then show ?thesis using tr c by (simp add: retain_event_def Let_def split: option.splits)
qed

lemma progressed_pump: "progressed l (fst (pump_step env l store))"
proof -
  have ret: "core l' = core l \<or> (\<exists>u. r = Inr u) \<and>
      core l' = (lease_key_of l, ls_scheduled l @ [''retention_cap''], ls_released l, ls_release_succeeded l)"
    if r: "(lease_retain env t (l\<lparr>ls_websocket := ws\<rparr>) store :: (unit lease_error + unit) \<times> lease \<times> store_ref) = (r, l', st)"
    for t ws r l' st
  proof -
    let ?l1 = "l\<lparr>ls_websocket := ws, ls_last_seq := ls_last_seq l + 1\<rparr>"
    obtain r2 l2 where ro: "(record_outcome (pm_limit env) t ?l1 :: (unit lease_error + unit) \<times> lease) = (r2, l2)" by fastforce
    have "core (snd (record_outcome (pm_limit env) t ?l1 :: (unit lease_error + unit) \<times> lease)) = core l"
      by (simp add: record_outcome_def split: option.splits json.splits)
    then have c: "core l2 = core l" using ro by simp
    have "core (retain_event now t (l2\<lparr>ls_projection := pj\<rparr>)) = core l \<or> core (retain_event now t (l2\<lparr>ls_projection := pj\<rparr>))
        = (lease_key_of l, ls_scheduled l @ [''retention_cap''], ls_released l, ls_release_succeeded l)" for now pj
      using progressed_retain_event [of now t "l2\<lparr>ls_projection := pj\<rparr>"] c by (auto simp: core_def lease_key_of_def)
    then show ?thesis using r ro c by (auto simp: lease_retain_def Let_def split: sum.splits prod.splits if_splits)
  qed
  show ?thesis
  proof (cases "ls_pumping l")
    case True
    obtain r ws where nx: "vws_next_text (ls_websocket l) = (r, ws)" by fastforce
    show ?thesis
    proof (cases r)
      case (Inl e)
      have "progressed l (snd (lease_release ''controller_closed'' (l\<lparr>ls_websocket := ws, ls_pumping := False\<rparr>)))"
        by (rule progressed_release) (simp_all add: lease_key_of_def)
      then show ?thesis using True nx Inl by (simp add: pump_step_def)
    next
      case (Inr x)
      show ?thesis
      proof (cases x)
        case (Some t)
        obtain r' l' st where rt: "(lease_retain env t (l\<lparr>ls_websocket := ws\<rparr>) store :: (unit lease_error + unit) \<times> lease \<times> store_ref) = (r', l', st)"
          by (metis prod.exhaust)
        have "progressed l (snd (lease_release ''controller_failed'' (l'\<lparr>ls_pumping := False\<rparr>)))" if "core l' = core l"
          by (rule progressed_release) (use that in \<open>simp_all add: core_def lease_key_of_def\<close>)
        moreover have "progressed l l'" using ret [OF rt] by (auto simp: progressed_def core_def)
        ultimately show ?thesis using True nx Inr Some rt ret [OF rt] by (cases r') (auto simp: pump_step_def)
      qed (use True nx Inr in \<open>simp add: pump_step_def progressed_same\<close>)
    qed
  qed (simp add: pump_step_def progressed_same)
qed

lemma core_finish_task [simp]: "core (finish_task i result l) = core l"
proof -
  have "core (finish_mutation n identity oc l1) = core l1" for n identity oc l1
  proof -
    let ?r = "ls_mutation_objects l1 ! n"
    let ?l1 = "l1\<lparr>ls_mutation_objects := (ls_mutation_objects l1)[n := ?r\<lparr>mr_outcome := Some oc, mr_waiters := []\<rparr>]\<rparr>"
    obtain r l2 where d: "(deliver_outcomes oc (mr_waiters ?r) ?l1 :: (unit lease_error + unit) \<times> lease) = (r, l2)" by fastforce
    have "core l2 = core l1" using core_deliver(3) [where 'c = unit, of oc "mr_waiters ?r" ?l1] d by simp
    then show ?thesis using d by (cases r) (auto simp: finish_mutation_def Let_def)
  qed
  then show ?thesis by (auto simp: finish_task_def Let_def split: local_task.splits)
qed

lemma core_feed [simp]: "core (snd (feed_text validator env k t l)) = core l"
proof -
  have "core (snd (submit_value validator env k v t l)) = core l" for v
    by (auto simp: submit_value_def pass_through_def first_submission_def repeat_submission_def Let_def
        split: sum.splits option.splits prod.splits)
  moreover have "core (snd (start_read req k l)) = core l" for req by (simp add: start_read_def)
  moreover have "core (snd (start_mutation sha req k l)) = core l" for sha req
    by (simp add: start_mutation_def repeat_mutation_def Let_def split: option.splits)
  ultimately show ?thesis
    by (auto simp: feed_text_def submit_text_def Let_def split: option.splits json.splits)
qed

lemma core_start [simp]: "core (lease_start l) = core l"
  by (simp add: lease_start_def schedule_expiry_def)

lemma progressed_step: "progressed l (fst (lease_step validator ev (l, store)))"
proof (cases ev)
  case (EvPump env)
  then show ?thesis using progressed_pump by simp
next
  case (EvFinish ok)
  then show ?thesis by (auto simp: progressed_def finish_release_def inv_life_def lease_key_of_def)
next
  case (EvAttach env cursor recovery reset rep)
  then show ?thesis
    by (intro progressed_same)
      (auto simp: lease_attach_def Let_def case_prod_beta publish_attachment_def cancel_expiry_def split: option.splits)
next
  case EvScheduled
  then show ?thesis
    by (cases "ls_scheduled l") (simp_all add: lease_key_of_def progressed_same progressed_release)
next
  case (EvRelease reason)
  then show ?thesis by (simp add: progressed_release)
next
  case EvExpire
  then show ?thesis by (simp add: lease_key_of_def progressed_same progressed_release)
qed (auto simp: next_text_def register_outbound_def unregister_outbound_def intro!: progressed_same
      split: option.splits prod.splits)

section \<open>The invariant\<close>

definition fenced :: "lease \<Rightarrow> bool" where
  \<comment> \<open>released, or about to be\<close>
  "fenced l \<longleftrightarrow> ls_released l \<or> ls_scheduled l \<noteq> []"

definition mg_inv :: "(manager \<times> store_ref) \<times> nat list \<Rightarrow> bool" where
  "mg_inv s \<longleftrightarrow> (case s of ((m, store), regs) \<Rightarrow>
     od_wf (mg_leases m) \<and> int (length (mg_leases m)) \<le> mg_max_leases m
     \<and> (\<forall>l \<in> set (mg_objects m). inv_life l)
     \<and> (\<forall>key k. map_of (mg_leases m) key = Some k \<longrightarrow>
          k < length (mg_objects m) \<and> key = lease_key_of (the_lease m k) \<and> k \<in> set regs)
     \<and> (\<forall>k \<in> set regs. k < length (mg_objects m)
          \<and> (ls_release_succeeded (the_lease m k) \<or> map_of (mg_leases m) (lease_key_of (the_lease m k)) = Some k))
     \<and> (mg_closed m \<longrightarrow> (\<forall>k \<in> set regs. ls_release_succeeded (the_lease m k) \<or> fenced (the_lease m k))))"

lemma mg_invD:
  assumes "mg_inv ((m, store), regs)"
  shows "od_wf (mg_leases m)" "int (length (mg_leases m)) \<le> mg_max_leases m"
    "\<And>l. l \<in> set (mg_objects m) \<Longrightarrow> inv_life l"
    "\<And>key k. map_of (mg_leases m) key = Some k \<Longrightarrow> k < length (mg_objects m) \<and> key = lease_key_of (the_lease m k) \<and> k \<in> set regs"
    "\<And>k. k \<in> set regs \<Longrightarrow> k < length (mg_objects m)
        \<and> (ls_release_succeeded (the_lease m k) \<or> map_of (mg_leases m) (lease_key_of (the_lease m k)) = Some k)"
    "\<And>k. mg_closed m \<Longrightarrow> k \<in> set regs \<Longrightarrow> ls_release_succeeded (the_lease m k) \<or> fenced (the_lease m k)"
  using assms unfolding mg_inv_def by auto

text \<open>A step of one lease, and dropping registrations whose cleanup has succeeded.\<close>

lemma mg_inv_upd:
  assumes inv: "mg_inv ((m, store), regs)" and k: "k < length (mg_objects m)"
    and p: "progressed (the_lease m k) l" and life: "inv_life l"
  shows "mg_inv ((upd_lease k l m, store'), regs)"
proof -
  note d = mg_invD [OF inv]
  have lk: "inv_life (the_lease m k)" using d(3) k by simp
  have obj: "the_lease (upd_lease k l m) j = (if j = k then l else the_lease m j)" for j
    using k by (simp add: upd_lease_def nth_list_update)
  have key: "lease_key_of (the_lease (upd_lease k l m) j) = lease_key_of (the_lease m j)" for j
    using p by (simp add: obj progressed_def)
  have succ: "ls_release_succeeded (the_lease m j) \<Longrightarrow> ls_release_succeeded (the_lease (upd_lease k l m) j)" for j
    using p lk by (auto simp: obj progressed_def)
  have fen: "fenced (the_lease m j) \<Longrightarrow> fenced (the_lease (upd_lease k l m) j)" for j
    using p by (auto simp: obj progressed_def fenced_def)
  have same: "mg_leases (upd_lease k l m) = mg_leases m" "mg_max_leases (upd_lease k l m) = mg_max_leases m"
    "mg_closed (upd_lease k l m) = mg_closed m" "length (mg_objects (upd_lease k l m)) = length (mg_objects m)"
    by (simp_all add: upd_lease_def)
  have all: "\<forall>x \<in> set (mg_objects (upd_lease k l m)). inv_life x"
    using set_update_ok [of "mg_objects m" inv_life k l] d(3) life by (simp add: upd_lease_def)
  show ?thesis
    unfolding mg_inv_def prod.case same key
    using inv all succ fen unfolding mg_inv_def prod.case by blast
qed

lemma mg_inv_drop:
  assumes inv: "mg_inv ((m, store), regs)"
    and wf: "od_wf leases" and len: "length leases \<le> length (mg_leases m)"
    and sub: "\<And>key k. map_of leases key = Some k \<Longrightarrow> map_of (mg_leases m) key = Some k"
    and keep: "\<And>key k. map_of (mg_leases m) key = Some k \<Longrightarrow> \<not> ls_release_succeeded (the_lease m k) \<Longrightarrow> map_of leases key = Some k"
  shows "mg_inv ((m\<lparr>mg_leases := leases\<rparr>, store), regs)"
proof -
  note d = mg_invD [OF inv]
  have "int (length leases) \<le> mg_max_leases m" using d(2) len by simp
  moreover have "ls_release_succeeded (the_lease m k) \<or> map_of leases (lease_key_of (the_lease m k)) = Some k" if "k \<in> set regs" for k
    using d(5) [OF that] keep by blast
  ultimately show ?thesis
    unfolding mg_inv_def using d wf sub by (simp del: map_of_eq_Some_iff) blast
qed

lemma mg_get_cases:
  assumes "mg_get device channel m = (r, m')"
  shows "m' = m \<or> m' = m\<lparr>mg_leases := AList.delete (device, channel) (mg_leases m)\<rparr>
      \<and> (\<exists>k. map_of (mg_leases m) (device, channel) = Some k \<and> ls_release_succeeded (the_lease m k))"
    and "r = Some k \<Longrightarrow> m' = m \<and> map_of (mg_leases m) (device, channel) = Some k \<and> \<not> ls_release_succeeded (the_lease m k)"
    and "r = None \<Longrightarrow> map_of (mg_leases m') (device, channel) = None"
  using assms by (auto simp: mg_get_def delete_conv' split: option.splits if_splits)

lemma mg_inv_get: "mg_inv ((m, store), regs) \<Longrightarrow> mg_get device channel m = (r, m') \<Longrightarrow> mg_inv ((m', store), regs)"
proof -
  assume inv: "mg_inv ((m, store), regs)" and g: "mg_get device channel m = (r, m')"
  let ?d = "AList.delete (device, channel) (mg_leases m)"
  have "mg_inv ((m\<lparr>mg_leases := ?d\<rparr>, store), regs)"
    if "map_of (mg_leases m) (device, channel) = Some k" "ls_release_succeeded (the_lease m k)" for k
  proof (rule mg_inv_drop [OF inv])
    show "od_wf ?d" using mg_invD(1) [OF inv] by (rule od_wf_delete)
    show "length ?d \<le> length (mg_leases m)" by (rule length_delete_le)
    show "map_of (mg_leases m) key = Some j" if "map_of ?d key = Some j" for key j
      using that by (simp add: delete_conv' split: if_splits)
    show "map_of ?d key = Some j" if "map_of (mg_leases m) key = Some j" "\<not> ls_release_succeeded (the_lease m j)" for key j
      using that \<open>map_of (mg_leases m) (device, channel) = Some k\<close> \<open>ls_release_succeeded (the_lease m k)\<close>
      by (auto simp: delete_conv' simp del: map_of_eq_Some_iff)
  qed
  then show ?thesis using mg_get_cases(1) [OF g] inv by auto
qed

lemma mg_inv_purge:
  assumes "mg_inv ((m, store), regs)"
  shows "mg_inv ((m\<lparr>mg_leases := filter (\<lambda>(key, j). \<not> ls_release_succeeded (the_lease m j)) (mg_leases m)\<rparr>, store), regs)"
proof (rule mg_inv_drop [OF assms])
  let ?f = "filter (\<lambda>(key, j). \<not> ls_release_succeeded (the_lease m j)) (mg_leases m)"
  show wf: "od_wf ?f" using mg_invD(1) [OF assms] by (rule distinct_map_filter)
  show "map_of ?f key = Some k" if "map_of (mg_leases m) key = Some k" "\<not> ls_release_succeeded (the_lease m k)" for key k
    using that wf map_of_SomeD [OF that(1)] by simp
  show "map_of (mg_leases m) key = Some k" if "map_of ?f key = Some k" for key k
    using map_of_SomeD [OF that] mg_invD(1) [OF assms] by simp
qed simp

lemma map_of_filter_None: "map_of xs k = None \<Longrightarrow> map_of (filter P xs) k = None"
  by (auto simp: map_of_eq_None_iff)

lemma mg_inv_register:
  assumes inv: "mg_inv ((m, store), regs)" and k: "k < length (mg_objects m)" and r: "mg_register k m = (r, m')"
  shows "mg_inv ((m', store), if is_ok r then regs @ [k] else regs)"
proof (cases "mg_closed m")
  case True
  then show ?thesis using r inv by (auto simp: mg_register_def)
next
  case open': False
  let ?l = "the_lease m k"
  obtain owned m1 where g: "mg_get (ls_device_id ?l) (ls_channel ?l) m = (owned, m1)" by fastforce
  have m1: "mg_objects m1 = mg_objects m" "mg_max_leases m1 = mg_max_leases m" "mg_closed m1 = mg_closed m"
    using mg_get_cases(1) [OF g] by auto
  have inv1: "mg_inv ((m1, store), regs)" by (rule mg_inv_get [OF inv g])
  show ?thesis
  proof (cases owned)
    case (Some j)
    then show ?thesis using r g inv1 open' by (auto simp: mg_register_def Let_def)
  next
    case None
    define leases2 where "leases2 = filter (\<lambda>(key, j). \<not> ls_release_succeeded (the_lease m1 j)) (mg_leases m1)"
    let ?m2 = "m1\<lparr>mg_leases := leases2\<rparr>"
    have inv2: "mg_inv ((?m2, store), regs)" unfolding leases2_def by (rule mg_inv_purge [OF inv1])
    note d = mg_invD [OF inv2]
    have free: "map_of leases2 (lease_key_of ?l) = None"
      using mg_get_cases(3) [OF g None] unfolding leases2_def lease_key_of_def by (rule map_of_filter_None)
    show ?thesis
    proof (cases "int (length leases2) \<ge> mg_max_leases ?m2")
      case True
      then show ?thesis using r g None open' inv2 by (auto simp: mg_register_def Let_def leases2_def)
    next
      case room: False
      let ?m3 = "m1\<lparr>mg_leases := AList.update (lease_key_of ?l) k leases2\<rparr>"
      have m': "r = Inr ()" "m' = upd_lease k (lease_start ?l) ?m3"
        using r g None open' room by (auto simp: mg_register_def Let_def leases2_def)
      have gone: "ls_release_succeeded (the_lease m j)" if "j \<in> set regs" "lease_key_of (the_lease m j) = lease_key_of ?l" for j
        using d(5) [OF that(1)] that(2) free by (simp add: m1 del: map_of_eq_Some_iff)
      have "mg_inv ((?m3, store), regs @ [k])"
        unfolding mg_inv_def
        using d free room k open' gone length_update_new [OF free, of k]
        by (auto simp: od_wf_update update_conv' m1 simp del: map_of_eq_Some_iff)
      then have "mg_inv ((upd_lease k (lease_start ?l) ?m3, store), regs @ [k])"
      proof (rule mg_inv_upd)
        show "inv_life (lease_start ?l)"
          using mg_invD(3) [OF inv] k inv_life_cong [of "lease_start ?l" ?l]
          by (simp add: lease_start_def schedule_expiry_def)
      qed (use k m1 in \<open>simp_all add: progressed_same\<close>)
      then show ?thesis using m' by simp
    qed
  qed
qed

lemma progressed_schedule: "progressed l (l\<lparr>ls_scheduled := ls_scheduled l @ [reason]\<rparr>)"
  by (simp add: progressed_def lease_key_of_def)

lemma mg_inv_schedule:
  "mg_inv ((m, store), regs) \<Longrightarrow> k < length (mg_objects m) \<Longrightarrow> mg_inv ((schedule_release reason k m, store), regs)"
  unfolding schedule_release_def
  by (rule mg_inv_upd, assumption, assumption, rule progressed_schedule, drule mg_invD(3) [of _ _ _ "the_lease m k"])
    (auto simp: inv_life_def)

lemma length_schedule [simp]: "length (mg_objects (schedule_release reason k m)) = length (mg_objects m)"
  by (simp add: schedule_release_def upd_lease_def)

lemma mg_inv_release_all:
  "mg_inv ((m, store), regs) \<Longrightarrow> list_all (\<lambda>k. k < length (mg_objects m)) ks \<Longrightarrow> mg_inv ((mg_release_all ks reason m, store), regs)"
  unfolding mg_release_all_def
  by (induction ks arbitrary: m) (simp_all add: mg_inv_schedule)

text \<open>What \<open>_release_all\<close> does to each lease.\<close>

lemma release_all_objects:
  assumes "distinct ks" and "list_all (\<lambda>k. k < length (mg_objects m)) ks"
  shows "mg_objects (mg_release_all ks reason m) ! j =
      (if j \<in> set ks then (the_lease m j)\<lparr>ls_scheduled := ls_scheduled (the_lease m j) @ [reason]\<rparr> else the_lease m j)
    \<and> mg_leases (mg_release_all ks reason m) = mg_leases m
    \<and> mg_closed (mg_release_all ks reason m) = mg_closed m
    \<and> length (mg_objects (mg_release_all ks reason m)) = length (mg_objects m)"
  using assms unfolding mg_release_all_def
  by (induction ks arbitrary: m) (auto simp: schedule_release_def upd_lease_def nth_list_update)

lemma distinct_values:
  assumes "mg_inv ((m, store), regs)"
  shows "distinct (map snd (mg_leases m))" and "list_all (\<lambda>k. k < length (mg_objects m)) (map snd (mg_leases m))"
proof -
  note d = mg_invD [OF assms]
  have e: "key = lease_key_of (the_lease m k) \<and> k < length (mg_objects m)" if "(key, k) \<in> set (mg_leases m)" for key k
    using that d(1) d(4) [of key k] by simp
  have "inj_on snd (set (mg_leases m))"
    by (intro inj_onI) (metis e prod.collapse)
  moreover have "distinct (mg_leases m)" using d(1) by (simp add: distinct_map)
  ultimately show "distinct (map snd (mg_leases m))" by (simp add: distinct_map)
  show "list_all (\<lambda>k. k < length (mg_objects m)) (map snd (mg_leases m))" using e by (auto simp: list_all_iff)
qed

lemma mg_inv_release_device:
  assumes "mg_inv ((m, store), regs)"
  shows "mg_inv ((mg_release_device device reason m, store), regs)"
proof -
  have "list_all (\<lambda>k. k < length (mg_objects m)) (leases_for device m)"
    using distinct_values(2) [OF assms] by (auto simp: leases_for_def list_all_iff)
  then show ?thesis unfolding mg_release_device_def by (rule mg_inv_release_all [OF assms])
qed

lemma close_objects:
  assumes "mg_inv ((m, store), regs)"
  shows "mg_close m = (mg_release_all (map snd (mg_leases m)) ''plugin_shutdown'' m)\<lparr>mg_closed := True\<rparr>"
proof -
  have one: "schedule_release reason k (x\<lparr>mg_closed := True\<rparr>) = (schedule_release reason k x)\<lparr>mg_closed := True\<rparr>" for reason k x
    by (simp add: schedule_release_def upd_lease_def)
  have "mg_release_all ks reason (x\<lparr>mg_closed := True\<rparr>) = (mg_release_all ks reason x)\<lparr>mg_closed := True\<rparr>" for ks reason x
    unfolding mg_release_all_def by (induction ks arbitrary: x) (simp_all add: one)
  then show ?thesis by (simp add: mg_close_def)
qed

lemma mg_inv_close:
  assumes inv: "mg_inv ((m, store), regs)"
  shows "mg_inv ((mg_close m, store), regs)"
proof -
  let ?m = "mg_release_all (map snd (mg_leases m)) ''plugin_shutdown'' m"
  note o = release_all_objects [OF distinct_values [OF inv], of "''plugin_shutdown''"]
  have inv': "mg_inv ((?m, store), regs)" by (rule mg_inv_release_all [OF inv distinct_values(2) [OF inv]])
  have "ls_release_succeeded (the_lease ?m k) \<or> fenced (the_lease ?m k)" if "k \<in> set regs" for k
  proof (cases "ls_release_succeeded (the_lease m k)")
    case True
    then show ?thesis using o [of k] by simp
  next
    case False
    then have "map_of (mg_leases m) (lease_key_of (the_lease m k)) = Some k" using mg_invD(5) [OF inv that] by blast
    then have "k \<in> set (map snd (mg_leases m))" by (force dest: map_of_SomeD)
    then show ?thesis using o [of k] by (simp add: fenced_def)
  qed
  then show ?thesis
    unfolding close_objects [OF inv] using inv' by (simp add: mg_inv_def del: map_of_eq_Some_iff)
qed

lemma mg_inv_release_lease:
  assumes inv: "mg_inv ((m, store), regs)"
  shows "mg_inv ((snd (mg_release_lease device channel reason m), store), regs)"
proof -
  obtain r m1 where g: "mg_get device channel m = (r, m1)" by fastforce
  have inv1: "mg_inv ((m1, store), regs)" by (rule mg_inv_get [OF inv g])
  show ?thesis
  proof (cases r)
    case None
    then show ?thesis using g inv1 by (simp add: mg_release_lease_def)
  next
    case (Some k)
    obtain first l where rel: "lease_release reason (the_lease m1 k) = (first, l)" by fastforce
    have k: "k < length (mg_objects m1)"
      using mg_get_cases(2) [OF g Some] mg_invD(4) [OF inv] by auto
    have "inv_life (the_lease m1 k)" using mg_invD(3) [OF inv1] k by simp
    then have life: "inv_life l" using life_view_release [of reason "the_lease m1 k"] rel by (auto simp: inv_life_def life_view_def)
    have "progressed (the_lease m1 k) l" using progressed_release [of "the_lease m1 k" "the_lease m1 k" reason] rel by simp
    from mg_inv_upd [OF inv1 k this life] show ?thesis using g Some rel by (simp add: mg_release_lease_def)
  qed
qed

lemma mg_inv_create:
  assumes inv: "mg_inv ((m, store), regs)" and new: "new_lease device channel profile lease_id limits has_dispatcher pj ws = Inr l"
  shows "mg_inv ((m\<lparr>mg_objects := mg_objects m @ [l]\<rparr>, store), regs)"
proof -
  note d = mg_invD [OF inv]
  have "inv_life l" using new by (auto simp: new_lease_def inv_life_def split: if_splits)
  moreover have "k < length (mg_objects m) \<Longrightarrow> (mg_objects m @ [l]) ! k = the_lease m k" for k by (simp add: nth_append)
  ultimately show ?thesis unfolding mg_inv_def using d by (fastforce simp del: map_of_eq_Some_iff)
qed

lemma mg_inv_step: "mg_inv s \<Longrightarrow> mg_inv (mg_log validator ev s)"
proof -
  obtain m store regs where s: "s = ((m, store), regs)" by (metis prod.exhaust)
  assume "mg_inv s"
  then have inv: "mg_inv ((m, store), regs)" by (simp add: s)
  show ?thesis
  proof (cases ev)
    case (MgCreate device channel profile lease_id limits has_dispatcher pj ws)
    then show ?thesis using inv mg_inv_create [OF inv]
      by (cases "new_lease device channel profile lease_id limits has_dispatcher pj ws") (auto simp: s)
  next
    case (MgRegister k)
    then show ?thesis using inv mg_inv_register [OF inv, of k "fst (mg_register k m)" "snd (mg_register k m)"] by (auto simp: s)
  next
    case (MgGet device channel)
    then show ?thesis using mg_inv_get [OF inv, of device channel "fst (mg_get device channel m)" "snd (mg_get device channel m)"]
      by (simp add: s)
  next
    case (MgLease k e)
    show ?thesis
    proof (cases "k < length (mg_objects m)")
      case True
      obtain l store' where st: "lease_step validator e (the_lease m k, store) = (l, store')" by fastforce
      have "progressed (the_lease m k) l" using progressed_step [of "the_lease m k" validator e store] st by simp
      moreover have "inv_life l"
        using inv_life_step [of "the_lease m k" validator e store] mg_invD(3) [OF inv, of "the_lease m k"] st True by simp
      ultimately show ?thesis using mg_inv_upd [OF inv True] MgLease st True by (simp add: s)
    qed (use MgLease inv in \<open>simp add: s\<close>)
  qed (use inv in \<open>simp_all add: s mg_inv_release_lease mg_inv_release_device mg_inv_close\<close>)
qed

definition fresh_manager :: "(manager \<times> store_ref) \<times> nat list \<Rightarrow> bool" where
  "fresh_manager s \<longleftrightarrow> (\<exists>n. new_manager n = Inr (fst (fst s)) \<and> snd s = [])"

interpretation manager: invariant_component fresh_manager "mg_log validator" mg_inv for validator
proof
  fix s :: "(manager \<times> store_ref) \<times> nat list"
  assume "fresh_manager s"
  then show "mg_inv s" by (cases s) (auto simp: fresh_manager_def new_manager_def mg_inv_def split: if_splits)
qed (rule mg_inv_step)

section \<open>Properties\<close>

lemma mg_limit_step: "mg_max_leases (fst (fst (mg_log validator ev s))) = mg_max_leases (fst (fst s))"
proof -
  obtain m store regs where s: "s = ((m, store), regs)" by (metis prod.exhaust)
  have g: "mg_max_leases (snd (mg_get device channel m)) = mg_max_leases m" for device channel
    by (simp add: mg_get_def split: option.splits)
  have a: "mg_max_leases (mg_release_all ks reason x) = mg_max_leases x" for ks reason x
    unfolding mg_release_all_def by (induction ks arbitrary: x) (simp_all add: schedule_release_def upd_lease_def)
  show ?thesis
  proof (cases ev)
    case (MgRegister k)
    then show ?thesis using g [of "ls_device_id (the_lease m k)" "ls_channel (the_lease m k)"]
      by (auto simp: s mg_register_def Let_def upd_lease_def split: prod.splits)
  next
    case (MgReleaseLease device channel reason)
    then show ?thesis using g [of device channel]
      by (auto simp: s mg_release_lease_def upd_lease_def split: prod.splits option.splits)
  qed (auto simp: s g a mg_release_device_def mg_close_def upd_lease_def split: prod.splits sum.splits)
qed

lemma mg_limit_run: "mg_max_leases (fst (fst (fold (mg_log validator) es s))) = mg_max_leases (fst (fst s))"
  by (induction es arbitrary: s) (simp_all add: mg_limit_step)

definition owned :: "manager \<Rightarrow> nat list \<Rightarrow> nat set" where
  \<comment> \<open>registered, and the controller not known to be closed\<close>
  "owned m regs = {k \<in> set regs. \<not> ls_release_succeeded (the_lease m k)}"

lemma active_count_owned:
  assumes inv: "mg_inv ((m, store), regs)"
  shows "active_count m = card (owned m regs)"
proof -
  let ?f = "filter (\<lambda>(key, k). \<not> ls_release_succeeded (the_lease m k)) (mg_leases m)"
  have "set (map snd ?f) = owned m regs"
  proof
    show "set (map snd ?f) \<subseteq> owned m regs"
      using mg_invD(4) [OF inv] mg_invD(1) [OF inv] by (auto simp: owned_def)
    show "owned m regs \<subseteq> set (map snd ?f)"
    proof
      fix k assume "k \<in> owned m regs"
      then have k: "k \<in> set regs" "\<not> ls_release_succeeded (the_lease m k)" by (auto simp: owned_def)
      then have "(lease_key_of (the_lease m k), k) \<in> set ?f" using mg_invD(5) [OF inv k(1)] by (auto dest: map_of_SomeD)
      then show "k \<in> set (map snd ?f)" by force
    qed
  qed
  moreover have "distinct (map snd ?f)" using distinct_values(1) [OF inv] by (rule distinct_map_filter)
  ultimately show ?thesis using distinct_card [of "map snd ?f"] by (simp add: active_count_def)
qed

definition demo_create :: "string \<Rightarrow> manager_event" where
  "demo_create channel = MgCreate (lit ''dev'') (lit channel) (lit ''p'') (lit ''id'') default_limits True
     (new_projection (lit ''p'') []) (case new_vws 256 16777216 8388608 of Inr w \<Rightarrow> w | Inl _ \<Rightarrow> undefined)"

definition demo_manager_run :: "manager_event list" where
  \<comment> \<open>two leases on one channel: the second is registered once the first has been cleaned up\<close>
  "demo_manager_run = [demo_create ''a'', demo_create ''a'', MgRegister 0, MgRegister 1, MgReleaseDevice (lit ''dev'') ''revoked'',
     MgLease 0 EvScheduled, MgLease 0 (EvFinish True), MgRegister 1]"

definition demo_manager :: manager where
  "demo_manager = (case new_manager 1 of Inr m \<Rightarrow> m | Inl _ \<Rightarrow> undefined)"

definition demo_manager_end :: manager where
  "demo_manager_end = fst (fst (fold (mg_log (None :: unit validator)) demo_manager_run ((demo_manager, None), [])))"

lemma demo_manager_new: "new_manager 1 = Inr demo_manager"
  by (simp add: demo_manager_def new_manager_def)

lemma demo_manager_result:
  "fold (mg_log (None :: unit validator)) demo_manager_run ((demo_manager, None), []) = ((demo_manager_end, None), [0, 1])"
proof -
  have "snd (fold (mg_log (None :: unit validator)) demo_manager_run ((demo_manager, None), [])) = [0, 1]"
    "snd (fst (fold (mg_log (None :: unit validator)) demo_manager_run ((demo_manager, None), []))) = None"
    by code_simp+
  then show ?thesis unfolding demo_manager_end_def by (metis prod.collapse)
qed

text \<open>
  C28. The registry owns every controller that may still be running. Over every run of a
  manager with its leases, a lease that was registered and whose cleanup has not succeeded is
  the one \<open>get\<close> finds under its device and channel: so no device ever has two such leases on
  one channel, there are never more than \<open>max_leases\<close> of them, and \<open>active_count\<close> counts
  exactly them. A lease whose controller could not be closed keeps its slot.
\<close>

theorem manager_owns_controllers:
  assumes "new_manager n = Inr m0" and "fold (mg_log validator) es ((m0, store), []) = ((m, store'), regs)"
  shows "(\<forall>k \<in> owned m regs. mg_get (ls_device_id (the_lease m k)) (ls_channel (the_lease m k)) m = (Some k, m))
    \<and> inj_on (\<lambda>k. (ls_device_id (the_lease m k), ls_channel (the_lease m k))) (owned m regs)
    \<and> active_count m = card (owned m regs) \<and> int (card (owned m regs)) \<le> n"
proof -
  have "fresh_manager ((m0, store), [])" using assms(1) by (auto simp: fresh_manager_def)
  from manager.inv_reachable [OF this, of validator es] assms(2) have inv: "mg_inv ((m, store'), regs)" by simp
  have get: "map_of (mg_leases m) (lease_key_of (the_lease m k)) = Some k" if "k \<in> owned m regs" for k
    using mg_invD(5) [OF inv] that by (auto simp: owned_def)
  then have "mg_get (ls_device_id (the_lease m k)) (ls_channel (the_lease m k)) m = (Some k, m)" if "k \<in> owned m regs" for k
    using that by (auto simp: mg_get_def lease_key_of_def owned_def)
  moreover have "inj_on (\<lambda>k. (ls_device_id (the_lease m k), ls_channel (the_lease m k))) (owned m regs)"
  proof (rule inj_onI)
    fix j k assume jk: "j \<in> owned m regs" "k \<in> owned m regs"
      and "(ls_device_id (the_lease m j), ls_channel (the_lease m j)) = (ls_device_id (the_lease m k), ls_channel (the_lease m k))"
    then have "lease_key_of (the_lease m j) = lease_key_of (the_lease m k)" by (simp add: lease_key_of_def)
    then have "Some j = Some k" using get [OF jk(1)] get [OF jk(2)] by (metis (no_types))
    then show "j = k" by simp
  qed
  moreover have "mg_max_leases m = n"
    using mg_limit_run [of validator es "((m0, store), [])"] assms by (auto simp: new_manager_def split: if_splits)
  moreover have "active_count m \<le> length (mg_leases m)" by (simp add: active_count_def)
  ultimately show ?thesis using active_count_owned [OF inv] mg_invD(2) [OF inv] by auto
qed

theorem manager_owns_controllers_witness:
  "active_count demo_manager_end = 1 \<and> card (owned demo_manager_end [0, 1]) = 1
   \<and> mg_get (lit ''dev'') (lit ''a'') demo_manager_end = (Some 1, demo_manager_end)"
proof -
  have c: "active_count demo_manager_end = 1" "\<not> ls_release_succeeded (the_lease demo_manager_end 1)"
    "ls_device_id (the_lease demo_manager_end 1) = lit ''dev''" "ls_channel (the_lease demo_manager_end 1) = lit ''a''"
    by code_simp+
  then have "1 \<in> owned demo_manager_end [0, 1]" by (simp add: owned_def)
  then show ?thesis
    using manager_owns_controllers [OF demo_manager_new demo_manager_result] c by auto
qed

lemma mg_closed_step: "mg_closed (fst (fst s)) \<Longrightarrow> mg_closed (fst (fst (mg_log validator ev s)))"
proof -
  obtain m store regs where s: "s = ((m, store), regs)" by (metis prod.exhaust)
  have g: "mg_closed (snd (mg_get device channel m)) = mg_closed m" for device channel
    by (simp add: mg_get_def split: option.splits)
  have a: "mg_closed (mg_release_all ks reason x) = mg_closed x" for ks reason x
    unfolding mg_release_all_def by (induction ks arbitrary: x) (simp_all add: schedule_release_def upd_lease_def)
  assume "mg_closed (fst (fst s))"
  then have c: "mg_closed m" by (simp add: s)
  show ?thesis
  proof (cases ev)
    case (MgReleaseLease device channel reason)
    then show ?thesis using g [of device channel] c
      by (auto simp: s mg_release_lease_def upd_lease_def split: prod.splits option.splits)
  qed (use c in \<open>auto simp: s g a mg_register_def mg_release_device_def mg_close_def upd_lease_def split: prod.splits sum.splits\<close>)
qed

lemma mg_closed_run: "mg_closed (fst (fst s)) \<Longrightarrow> mg_closed (fst (fst (fold (mg_log validator) es s)))"
  by (induction es arbitrary: s) (simp_all add: mg_closed_step)

lemma leases_for_owned:
  assumes inv: "mg_inv ((m, store), regs)"
  shows "k \<in> set (leases_for device m) \<longleftrightarrow> k \<in> owned m regs \<and> ls_device_id (the_lease m k) = device"
proof
  assume "k \<in> set (leases_for device m)"
  then obtain channel where "((device, channel), k) \<in> set (mg_leases m)" "\<not> ls_release_succeeded (the_lease m k)"
    by (auto simp: leases_for_def)
  then show "k \<in> owned m regs \<and> ls_device_id (the_lease m k) = device"
    using mg_invD(1) [OF inv] mg_invD(4) [OF inv, of "(device, channel)" k] by (auto simp: owned_def lease_key_of_def)
next
  assume k: "k \<in> owned m regs \<and> ls_device_id (the_lease m k) = device"
  then have "map_of (mg_leases m) (lease_key_of (the_lease m k)) = Some k" using mg_invD(5) [OF inv, of k] by (auto simp: owned_def)
  from map_of_SomeD [OF this] k show "k \<in> set (leases_for device m)"
    by (force simp: leases_for_def owned_def lease_key_of_def)
qed

text \<open>
  Releasing a device fences all of its leases and no other: every owned lease of the
  device, on every channel, gets a release to run with the given reason; the leases of other
  devices and the registry are unchanged. Closing the manager does so for every owned lease,
  and for good: in every later state no lease can be registered, and every owned lease is
  released or becomes so as soon as the scheduled release runs.
\<close>

theorem manager_release_is_exact:
  assumes "fresh_manager s" and "fold (mg_log validator) es s = ((m, store), regs)"
    and "fold (mg_log validator) es' ((mg_close m, store), regs) = ((m2, store2), regs2)"
  shows "mg_leases (mg_release_device device reason m) = mg_leases m
    \<and> the_lease (mg_release_device device reason m) k =
        (if k \<in> owned m regs \<and> ls_device_id (the_lease m k) = device
         then (the_lease m k)\<lparr>ls_scheduled := ls_scheduled (the_lease m k) @ [reason]\<rparr> else the_lease m k)
    \<and> mg_register j m2 = (Inl ''manager_closed'', m2)
    \<and> (k \<in> owned m2 regs2 \<longrightarrow> ls_released (the_lease m2 k)
         \<or> ls_released (fst (lease_step validator EvScheduled (the_lease m2 k, store2))))"
proof -
  have inv: "mg_inv ((m, store), regs)" using manager.inv_reachable [OF assms(1), of validator es] assms(2) by simp
  have inv2: "mg_inv ((m2, store2), regs2)" using manager.inv_run [OF mg_inv_close [OF inv], of validator es'] assms(3) by simp
  have ks: "distinct (leases_for device m)" "list_all (\<lambda>k. k < length (mg_objects m)) (leases_for device m)"
    using distinct_values [OF inv] by (auto simp: leases_for_def list_all_iff intro: distinct_map_filter)
  have "mg_closed (mg_close m)" using close_objects [OF inv] by simp
  then have c: "mg_closed m2" using mg_closed_run [of "((mg_close m, store), regs)" validator es'] assms(3) by simp
  have "ls_released (the_lease m2 k) \<or> ls_released (fst (lease_step validator EvScheduled (the_lease m2 k, store2)))"
    if "k \<in> owned m2 regs2"
  proof -
    have "fenced (the_lease m2 k)" using mg_invD(6) [OF inv2 c, of k] that by (auto simp: owned_def)
    then show ?thesis by (cases "ls_scheduled (the_lease m2 k)") (auto simp: fenced_def release_released)
  qed
  then show ?thesis
    using release_all_objects [OF ks, of reason k] leases_for_owned [OF inv, of k device] c
    by (simp add: mg_release_device_def mg_register_def)
qed

theorem manager_release_is_exact_witness:
  "\<exists>m2 store2 regs2. fold (mg_log (None :: unit validator)) [MgGet (lit ''dev'') (lit ''a'')]
        ((mg_close demo_manager_end, None), [0, 1]) = ((m2, store2), regs2)
     \<and> mg_register 0 m2 = (Inl ''manager_closed'', m2)
     \<and> ls_scheduled (the_lease (mg_release_device (lit ''dev'') ''revoked'' demo_manager_end) 1) = [''revoked'']
     \<and> ls_scheduled (the_lease (mg_release_device (lit ''dev'') ''revoked'' demo_manager_end) 0) = []"
proof -
  let ?v = "None :: unit validator"
  have fresh: "fresh_manager ((demo_manager, None), [])" using demo_manager_new by (auto simp: fresh_manager_def)
  obtain m2 store2 regs2 where run: "fold (mg_log ?v) [MgGet (lit ''dev'') (lit ''a'')]
      ((mg_close demo_manager_end, None), [0, 1]) = ((m2, store2), regs2)" by (metis prod.collapse)
  have c: "\<not> ls_release_succeeded (the_lease demo_manager_end 1)" "ls_release_succeeded (the_lease demo_manager_end 0)"
    "ls_device_id (the_lease demo_manager_end 1) = lit ''dev''"
    "ls_scheduled (the_lease demo_manager_end 1) = []" "ls_scheduled (the_lease demo_manager_end 0) = []" by code_simp+
  note th = manager_release_is_exact [OF fresh demo_manager_result run, where device = "lit ''dev''" and reason = "''revoked''" and j = 0]
  show ?thesis using th [of 1] th [of 0] run c by (intro exI [of _ m2] exI [of _ store2] exI [of _ regs2]) (simp add: owned_def)
qed

end
