(* ===== verification/Controller_Transport.thy ===== *)
theory Controller_Transport
  imports Framing Secure_Channel Lease_Ledger
begin

text \<open>
  The encrypted attachment of \<^verbatim>\<open>controller_transport.py\<close>: one admitted Noise channel, one
  reassembler and one attachment of a lease. A call works on the transport and on the lease
  it is attached to; \<open>pump_outbound\<close> is split at its awaits, with the records that are still
  to be sent in \<open>tr_pump\<close>.
\<close>

section \<open>State\<close>

datatype transport_error =
    ControllerTransportError string
  | TransportValueError string
  | TransportChannelError channel_error
  | TransportFramingError framing_error
  | TransportCancelled                  \<comment> \<open>\<open>CancelledError\<close>\<close>

record 'c transport =
  tr_channel :: "'c noise_channel"
  tr_attachment :: nat
  tr_channel_id :: bytes
  tr_reassembler :: reassembler
  tr_closed :: bool
  tr_pump :: "(nat \<times> bytes list) option"   \<comment> \<open>the sending task and its unsent records\<close>

definition fixed_bytes :: "bytes \<Rightarrow> nat \<Rightarrow> string \<Rightarrow> transport_error + bytes" where
  "fixed_bytes v sz field =
     (if length v \<noteq> sz then Inl (TransportValueError (field @ '' has the wrong length'')) else Inr v)"

definition new_transport ::
  "'c noise_channel \<Rightarrow> nat \<Rightarrow> bytes \<Rightarrow> (transport_error + 'c transport) \<times> 'c noise_channel" where
  \<comment> \<open>the channel is shared with the caller, so it is returned as well\<close>
  "new_transport channel att channel_id =
     (if nc_is_initiator channel \<or> \<not> handshake_finished channel \<or> \<not> nc_admitted channel
      then (Inl (TransportValueError ''channel must be an admitted host channel''), channel)
      else
        (case fixed_bytes channel_id (nat CHANNEL_ID_SIZE) ''channel_id'' of
           Inl e \<Rightarrow> (Inl e, channel)
         | Inr cid \<Rightarrow>
             if nc_transport_bound channel
             then (Inl (TransportValueError ''channel transport is already bound''), channel)
             else
               (case mark_transport_bound channel of
                  (Inl e, ch) \<Rightarrow> (Inl (TransportChannelError e), ch)
                | (Inr _, ch) \<Rightarrow>
                    (case new_reassembler (Some cid) KIND_HERMES_BYTES FLAGS_NONE of
                       Inl e \<Rightarrow> (Inl (TransportFramingError e), ch)
                     | Inr ra \<Rightarrow>
                         (Inr \<lparr>tr_channel = ch, tr_attachment = att, tr_channel_id = cid,
                               tr_reassembler = ra, tr_closed = False, tr_pump = None\<rparr>, ch)))))"

type_synonym 'c wire = "'c transport \<times> lease"

abbreviation attached :: "'c wire \<Rightarrow> attachment" where
  "attached s \<equiv> the_attachment (snd s) (tr_attachment (fst s))"

section \<open>Closing\<close>

definition tr_close :: "string \<Rightarrow> 'c wire \<Rightarrow> 'c wire" where
  "tr_close reason s =
     (case s of (t, l) \<Rightarrow>
        if tr_closed t then (t, l)
        else (t\<lparr>tr_closed := True, tr_reassembler := ra_reset (tr_reassembler t), tr_channel := ch_close (tr_channel t)\<rparr>,
              lease_detach (tr_attachment t) reason l))"

definition tr_fail :: "string \<Rightarrow> 'c wire \<Rightarrow> (transport_error + 'a) \<times> 'c wire" where
  "tr_fail reason s = (Inl (ControllerTransportError reason), tr_close reason s)"

definition tr_require_open :: "'c wire \<Rightarrow> (transport_error + unit) \<times> 'c wire" where
  "tr_require_open s =
     (if tr_closed (fst s) then (Inl (ControllerTransportError ''channel_closed''), s)
      else if nc_closed (tr_channel (fst s)) then tr_fail ''channel_closed'' s
      else (Inr (), s))"

section \<open>Receiving\<close>

definition inbound_reason :: "'r lease_error \<Rightarrow> string" where
  \<comment> \<open>the except clauses of \<open>feed_ciphertext\<close>, for what \<open>attachment.feed_text\<close> raises; a
     refusal by the validator is a \<open>ValueError\<close>\<close>
  "inbound_reason e =
     (case e of
        LeaseReleased \<Rightarrow> ''lease_released''
      | LeaseFeed (FeedError (VwsBackpressure _)) \<Rightarrow> ''backpressure''
      | LeaseRecoveryError RecoveryWriteFailed \<Rightarrow> ''local_hermes_unavailable''
      | _ \<Rightarrow> ''protocol_violation'')"

definition feed_ciphertext ::
  "'c noise_lib \<Rightarrow> 'r validator \<Rightarrow> submit_env \<Rightarrow> 'c wire \<Rightarrow> bytes \<Rightarrow> (transport_error + bool) \<times> 'c wire" where
  "feed_ciphertext N validator env s ciphertext =
     (case tr_require_open s of
        (Inl e, s1) \<Rightarrow> (Inl e, s1)
      | (Inr _, (t, l)) \<Rightarrow>
          (case ch_decrypt N (tr_channel t) ciphertext of
             (Inl _, ch) \<Rightarrow> tr_fail ''protocol_violation'' (t\<lparr>tr_channel := ch\<rparr>, l)
           | (Inr rec, ch) \<Rightarrow>
               (case push (tr_reassembler t) rec of
                  (Inl _, ra) \<Rightarrow> tr_fail ''protocol_violation'' (t\<lparr>tr_channel := ch, tr_reassembler := ra\<rparr>, l)
                | (Inr None, ra) \<Rightarrow> (Inr False, (t\<lparr>tr_channel := ch, tr_reassembler := ra\<rparr>, l))
                | (Inr (Some message), ra) \<Rightarrow>
                    let t1 = t\<lparr>tr_channel := ch, tr_reassembler := ra\<rparr> in
                    (case utf8_decode message of
                       None \<Rightarrow> tr_fail ''malformed_frame'' (t1, l)
                     | Some str \<Rightarrow>
                         (case feed_text validator env (tr_attachment t) str l of
                            (Inl e, l1) \<Rightarrow> tr_fail (inbound_reason e) (t1, l1)
                          | (Inr _, l1) \<Rightarrow> (Inr True, (t1, l1)))))))"

section \<open>Sending\<close>

fun encrypt_all :: "'c noise_lib \<Rightarrow> 'c noise_channel \<Rightarrow> bytes list \<Rightarrow> (channel_error + bytes list) \<times> 'c noise_channel" where
  "encrypt_all N ch [] = (Inr [], ch)"
| "encrypt_all N ch (r # rs) =
     (case ch_encrypt N ch r of
        (Inl e, ch1) \<Rightarrow> (Inl e, ch1)
      | (Inr x, ch1) \<Rightarrow>
          (case encrypt_all N ch1 rs of
             (Inl e, ch2) \<Rightarrow> (Inl e, ch2)
           | (Inr xs, ch2) \<Rightarrow> (Inr (x # xs), ch2)))"

definition outbound_records :: "bytes \<Rightarrow> bytes \<Rightarrow> pystr \<Rightarrow> bytes list option" where
  \<comment> \<open>the records of one frame; \<open>None\<close> is a \<open>ValueError\<close> or \<open>FramingError\<close>\<close>
  "outbound_records channel_id message_id str =
     (case fixed_bytes message_id (nat MESSAGE_ID_SIZE) ''message_id'' of
        Inl _ \<Rightarrow> None
      | Inr mid \<Rightarrow>
          (case utf8_encode str of
             None \<Rightarrow> None
           | Some payload \<Rightarrow>
               (case encode_message channel_id mid payload KIND_HERMES_BYTES FLAGS_NONE of
                  Inl _ \<Rightarrow> None
                | Inr rs \<Rightarrow> Some rs)))"

definition collect_ciphertexts ::
  "'c noise_lib \<Rightarrow> bytes \<Rightarrow> 'c wire \<Rightarrow> (transport_error + bytes list option) \<times> 'c wire" where
  \<comment> \<open>the body of \<open>next_ciphertexts\<close>, from the await on; \<open>Inr None\<close> is a wait that has not ended\<close>
  "collect_ciphertexts N message_id s =
     (case s of (t, l) \<Rightarrow>
        (case next_text (tr_attachment t) l :: (unit lease_error + pystr option) \<times> lease of
           (Inl LeaseReleased, l1) \<Rightarrow> tr_fail ''lease_released'' (t, l1)
         | (Inl (SessionLeaseError reason), l1) \<Rightarrow>
             tr_fail (if reason = ''attachment_backpressure'' then ''backpressure'' else ''channel_closed'') (t, l1)
         | (Inl _, l1) \<Rightarrow> tr_fail ''channel_closed'' (t, l1)
         | (Inr None, l1) \<Rightarrow> (Inr None, (t, l1))
         | (Inr (Some str), l1) \<Rightarrow>
             (case outbound_records (tr_channel_id t) message_id str of
                None \<Rightarrow> tr_fail ''protocol_violation'' (t, l1)
              | Some rs \<Rightarrow>
                  (case encrypt_all N (tr_channel t) rs of
                     (Inl _, ch) \<Rightarrow> tr_fail ''protocol_violation'' (t\<lparr>tr_channel := ch\<rparr>, l1)
                   | (Inr xs, ch) \<Rightarrow> (Inr (Some xs), (t\<lparr>tr_channel := ch\<rparr>, l1))))))"

definition next_ciphertexts ::
  "'c noise_lib \<Rightarrow> bytes \<Rightarrow> 'c wire \<Rightarrow> (transport_error + bytes list option) \<times> 'c wire" where
  "next_ciphertexts N message_id s =
     (case tr_require_open s of
        (Inl e, s1) \<Rightarrow> (Inl e, s1)
      | (Inr _, s1) \<Rightarrow> collect_ciphertexts N message_id s1)"

section \<open>The outbound pump\<close>

definition stop_pump :: "nat \<Rightarrow> 'c wire \<Rightarrow> 'c wire" where
  \<comment> \<open>the \<open>finally\<close> clause\<close>
  "stop_pump task s = (case s of (t, l) \<Rightarrow> (t\<lparr>tr_pump := None\<rparr>, unregister_outbound (tr_attachment t) task l))"

definition pump_start :: "nat \<Rightarrow> 'c wire \<Rightarrow> (transport_error + unit) \<times> 'c wire" where
  "pump_start task s =
     (case s of (t, l) \<Rightarrow>
        (case register_outbound (tr_attachment t) task l :: (unit lease_error + unit) \<times> lease of
           (Inl _, l1) \<Rightarrow>
             (case tr_fail ''channel_closed'' (t, l1) of (r, s1) \<Rightarrow> (r, stop_pump task s1))
         | (Inr _, l1) \<Rightarrow> (Inr (), (t\<lparr>tr_pump := Some (task, [])\<rparr>, l1))))"

definition pump_next :: "'c noise_lib \<Rightarrow> bool \<Rightarrow> bytes \<Rightarrow> 'c wire \<Rightarrow> (transport_error + unit) \<times> 'c wire" where
  \<comment> \<open>\<open>next_ciphertexts\<close> in the pump; \<open>resumed\<close> when it already waits for a frame\<close>
  "pump_next N resumed message_id s =
     (case tr_pump (fst s) of
        Some (task, []) \<Rightarrow>
          (case (if resumed then collect_ciphertexts N message_id s else next_ciphertexts N message_id s) of
             (Inl e, s1) \<Rightarrow> (Inl e, stop_pump task s1)
           | (Inr None, s1) \<Rightarrow> (Inr (), s1)
           | (Inr (Some xs), (t, l)) \<Rightarrow> (Inr (), (t\<lparr>tr_pump := Some (task, xs)\<rparr>, l)))
      | _ \<Rightarrow> (Inr (), s))"

definition pump_send :: "'c wire \<Rightarrow> (transport_error + bytes option) \<times> 'c wire" where
  \<comment> \<open>the next record is handed to the socket\<close>
  "pump_send s =
     (case tr_pump (fst s) of
        Some (task, x # xs) \<Rightarrow>
          if at_detached (attached s) \<or> ls_released (snd s)
          then (case tr_fail ''channel_closed'' s of (r, s1) \<Rightarrow> (r, stop_pump task s1))
          else
            (case tr_require_open s of
               (Inl e, s1) \<Rightarrow> (Inl e, stop_pump task s1)
             | (Inr _, (t, l)) \<Rightarrow> (Inr (Some x), (t\<lparr>tr_pump := Some (task, xs)\<rparr>, l)))
      | _ \<Rightarrow> (Inr None, s))"

definition pump_cancelled :: "'c wire \<Rightarrow> (transport_error + unit) \<times> 'c wire" where
  "pump_cancelled s =
     (case tr_pump (fst s) of
        Some (task, _) \<Rightarrow>
          if at_detached (attached s) \<or> ls_released (snd s)
          then (case tr_fail (if ls_released (snd s) then ''lease_released'' else ''channel_closed'') s of
                  (r, s1) \<Rightarrow> (r, stop_pump task s1))
          else (Inl TransportCancelled, stop_pump task s)
      | None \<Rightarrow> (Inr (), s))"

definition pump_send_failed :: "'c wire \<Rightarrow> 'c wire" where
  \<comment> \<open>\<open>send\<close> raises anything else\<close>
  "pump_send_failed s = (case tr_pump (fst s) of Some (task, _) \<Rightarrow> stop_pump task s | None \<Rightarrow> s)"

section \<open>The transport as a state machine\<close>

datatype transport_event =
    TrFeed submit_env bytes
  | TrNext bytes
  | TrPumpStart nat
  | TrPumpNext bool bytes
  | TrPumpSend
  | TrPumpCancelled
  | TrPumpSendFailed
  | TrClose string

fun tr_step :: "'c noise_lib \<Rightarrow> 'r validator \<Rightarrow> transport_event \<Rightarrow> 'c wire \<Rightarrow> 'c wire" where
  "tr_step N validator (TrFeed env x) s = snd (feed_ciphertext N validator env s x)"
| "tr_step N validator (TrNext mid) s = snd (next_ciphertexts N mid s)"
| "tr_step N validator (TrPumpStart task) s = snd (pump_start task s)"
| "tr_step N validator (TrPumpNext resumed mid) s = snd (pump_next N resumed mid s)"
| "tr_step N validator TrPumpSend s = snd (pump_send s)"
| "tr_step N validator TrPumpCancelled s = snd (pump_cancelled s)"
| "tr_step N validator TrPumpSendFailed s = pump_send_failed s"
| "tr_step N validator (TrClose reason) s = tr_close reason s"

section \<open>What a transport can do to its lease\<close>

definition spared :: "lease \<Rightarrow> lease \<Rightarrow> bool" where
  \<comment> \<open>life cycle, retained frames and numbering are the same\<close>
  "spared l l' \<longleftrightarrow> life_view l' = life_view l \<and> ring_view l' = ring_view l \<and> length (ls_objects l') = length (ls_objects l)"

lemma spared_refl [simp]: "spared l l"
  by (simp add: spared_def)

lemma spared_trans: "spared l l1 \<Longrightarrow> spared l1 l2 \<Longrightarrow> spared l l2"
  by (simp add: spared_def)

lemma length_detach [simp]: "length (ls_objects (lease_detach k reason l)) = length (ls_objects l)"
  by (simp add: lease_detach_def mark_detached_eq schedule_expiry_def)

lemma spared_detach: "spared l (lease_detach k reason l)"
  by (simp add: spared_def)

lemma length_upd [simp]: "length (ls_objects (upd_attachment k f l)) = length (ls_objects l)"
  by (simp add: upd_attachment_def)

lemma spared_next: "spared l (snd (next_text k l))"
  by (auto simp: spared_def next_text_def split: prod.splits option.splits)

lemma spared_outbound: "spared l (snd (register_outbound k task l))" "spared l (unregister_outbound k task l)"
  by (simp_all add: spared_def register_outbound_def unregister_outbound_def ring_view_def life_view_def upd_attachment_def)

lemma length_deliver_local [simp]: "length (ls_objects (snd (deliver_local response k l))) = length (ls_objects l)"
  by (simp add: deliver_local_def Let_def split: option.splits)

lemma length_feed: "length (ls_objects (snd (feed_text validator env k t l))) = length (ls_objects l)"
proof -
  have "length (ls_objects (snd (submit_value validator env k v t l))) = length (ls_objects l)" for v
    by (auto simp: submit_value_def pass_through_def first_submission_def repeat_submission_def deliver_outcome_def Let_def
        split: sum.splits option.splits prod.splits)
  moreover have "length (ls_objects (snd (start_read req k l))) = length (ls_objects l)" for req by (simp add: start_read_def)
  moreover have "length (ls_objects (snd (start_mutation sha req k l))) = length (ls_objects l)" for sha req
    by (simp add: start_mutation_def repeat_mutation_def deliver_outcome_def Let_def split: option.splits)
  ultimately show ?thesis
    by (auto simp: feed_text_def submit_text_def Let_def split: option.splits json.splits)
qed

lemma spared_feed: "spared l (snd (feed_text validator env k t l))"
  by (simp add: spared_def length_feed)

text \<open>The relation every call keeps: the lease is spared, the attachment stays the same, and a
  closed transport stays closed and leaves the controller's WebSocket alone.\<close>

definition tr_keeps :: "'c wire \<Rightarrow> 'c wire \<Rightarrow> bool" where
  "tr_keeps s s' \<longleftrightarrow> spared (snd s) (snd s') \<and> tr_attachment (fst s') = tr_attachment (fst s)
     \<and> (tr_closed (fst s) \<longrightarrow> tr_closed (fst s') \<and> ls_websocket (snd s') = ls_websocket (snd s))"

lemma tr_keeps_refl [simp]: "tr_keeps s s"
  by (simp add: tr_keeps_def)

lemma tr_keeps_trans: "tr_keeps s s1 \<Longrightarrow> tr_keeps s1 s2 \<Longrightarrow> tr_keeps s s2"
  by (auto simp: tr_keeps_def intro: spared_trans)

lemma websocket_rest: "rest l' = rest l \<Longrightarrow> ls_websocket l' = ls_websocket l"
  by (drule rest_eqD) simp

lemma keeps_close: "tr_keeps s (tr_close reason s)"
  by (cases s) (simp add: tr_close_def tr_keeps_def spared_detach)

lemma keeps_fail: "tr_keeps s (snd (tr_fail reason s))"
  by (simp add: tr_fail_def keeps_close)

lemma keeps_lease:
  assumes "spared l l'" and "ls_websocket l' = ls_websocket l \<or> \<not> tr_closed t"
    and "tr_attachment t' = tr_attachment t" and "tr_closed t' = tr_closed t"
  shows "tr_keeps (t, l) (t', l')"
  using assms by (auto simp: tr_keeps_def)

lemma keeps_require: "tr_keeps s (snd (tr_require_open s))"
  by (simp add: tr_require_open_def keeps_fail)

lemma require_Inr: "tr_require_open s = (Inr u, s1) \<Longrightarrow> s1 = s \<and> \<not> tr_closed (fst s) \<and> \<not> nc_closed (tr_channel (fst s))"
  by (auto simp: tr_require_open_def tr_fail_def split: if_splits)

lemma websocket_next: "ls_websocket (snd (next_text k l)) = ls_websocket l"
  by (auto simp: next_text_def upd_attachment_def split: prod.splits option.splits)

lemma keeps_feed: "tr_keeps s (snd (feed_ciphertext N validator env s x))"
proof -
  obtain r s1 where Pair: "tr_require_open s = (r, s1)" by (metis prod.exhaust)
  show ?thesis
  proof (cases r)
    case (Inl e)
    then show ?thesis using Pair keeps_require [of s] by (simp add: feed_ciphertext_def)
  next
    case (Inr u)
    obtain t l where s: "s = (t, l)" by (cases s)
    have o: "s1 = (t, l)" "\<not> tr_closed t" using require_Inr [of s u s1] Pair Inr s by auto
    have step: "tr_keeps (t, l) (snd (tr_fail reason (t', l')))" if "tr_keeps (t, l) (t', l')" for reason t' l'
      using tr_keeps_trans [OF that keeps_fail] by blast
    have same: "tr_keeps (t, l) (t', l)" if "tr_attachment t' = tr_attachment t" "tr_closed t' = tr_closed t" for t'
      using that o by (intro keeps_lease) auto
    have fed: "tr_keeps (t, l) (t', snd (feed_text validator env k str l))"
      if "tr_attachment t' = tr_attachment t" "tr_closed t' = tr_closed t" for t' k str
      using that o by (intro keeps_lease spared_feed) auto
    have fed': "tr_keeps (t, l) (t', l1)" if "feed_text validator env k str l = (r1, l1)"
      "tr_attachment t' = tr_attachment t" "tr_closed t' = tr_closed t" for t' k str r1 l1
      using fed [of t' k str] that by simp
    show ?thesis
      using Pair Inr o s
      by (auto simp: feed_ciphertext_def Let_def intro!: step same fed' split: prod.splits sum.splits option.splits)
  qed
qed

lemma keeps_collect: "tr_keeps s (snd (collect_ciphertexts N mid s))"
proof -
  obtain t l where s: "s = (t, l)" by (cases s)
  have next': "tr_keeps (t, l) (t', l1)"
    if "(next_text (tr_attachment t) l :: (unit lease_error + pystr option) \<times> lease) = (r, l1)"
      "tr_attachment t' = tr_attachment t" "tr_closed t' = tr_closed t" for t' r l1
    using spared_next [where 'a = unit, of l "tr_attachment t"] websocket_next [where 'a = unit, of "tr_attachment t" l] that
    by (intro keeps_lease) auto
  have step: "tr_keeps (t, l) (snd (tr_fail reason (t', l1)))"
    if "(next_text (tr_attachment t) l :: (unit lease_error + pystr option) \<times> lease) = (r, l1)"
      "tr_attachment t' = tr_attachment t" "tr_closed t' = tr_closed t" for reason t' r l1
    using tr_keeps_trans [OF next' [OF that] keeps_fail] by blast
  show ?thesis
    by (auto simp: s collect_ciphertexts_def intro: step next' split: prod.splits sum.splits option.splits lease_error.splits)
qed

lemma keeps_next: "tr_keeps s (snd (next_ciphertexts N mid s))"
  using keeps_require [of s] keeps_collect [of s N mid]
  by (auto simp: next_ciphertexts_def dest: require_Inr split: prod.splits sum.splits)

lemma keeps_stop: "tr_keeps s (stop_pump task s)"
  by (cases s)
    (auto simp: stop_pump_def spared_outbound unregister_outbound_def upd_attachment_def intro!: keeps_lease
      intro: spared_outbound(2) [unfolded unregister_outbound_def upd_attachment_def])

lemma keeps_fail_stop: "tr_keeps s (stop_pump task (snd (tr_fail reason s)))"
  using tr_keeps_trans [OF keeps_fail keeps_stop] by blast

lemma keeps_pump_field: "tr_keeps s (t, l) \<Longrightarrow> tr_keeps s (t\<lparr>tr_pump := x\<rparr>, l)"
  by (simp add: tr_keeps_def)

lemma keeps_start: "tr_keeps s (snd (pump_start task s))"
proof -
  obtain t l where s: "s = (t, l)" by (cases s)
  obtain r l1 where g: "(register_outbound (tr_attachment t) task l :: (unit lease_error + unit) \<times> lease) = (r, l1)" by fastforce
  have "spared l l1" using spared_outbound(1) [where 'a = unit, of l "tr_attachment t" task] g by simp
  moreover have "ls_websocket l1 = ls_websocket l" using g by (auto simp: register_outbound_def upd_attachment_def split: if_splits)
  ultimately have k: "tr_keeps (t, l) (t, l1)" by (intro keeps_lease) auto
  then show ?thesis using g tr_keeps_trans [OF k keeps_fail_stop] keeps_pump_field [OF k]
    by (cases r) (auto simp: s pump_start_def tr_fail_def)
qed

lemma keeps_pump_next: "tr_keeps s (snd (pump_next N resumed mid s))"
proof -
  let ?r = "if resumed then collect_ciphertexts N mid s else next_ciphertexts N mid s"
  have k: "tr_keeps s (snd ?r)" by (simp add: keeps_collect keeps_next)
  obtain r t l where r: "?r = (r, (t, l))" by (metis prod.exhaust)
  then have k': "tr_keeps s (t, l)" using k by simp
  show ?thesis using r k' keeps_pump_field [OF k'] tr_keeps_trans [OF k' keeps_stop]
    unfolding pump_next_def by (auto split: option.splits list.splits sum.splits)
qed

lemma keeps_send: "tr_keeps s (snd (pump_send s))"
  using keeps_require [of s] keeps_fail_stop [of s]
  by (auto simp: pump_send_def tr_fail_def intro: tr_keeps_trans [OF _ keeps_stop] keeps_pump_field dest: require_Inr
      split: option.splits list.splits sum.splits prod.splits)

lemma keeps_cancelled: "tr_keeps s (snd (pump_cancelled s))"
  using keeps_fail_stop [of s] by (auto simp: pump_cancelled_def tr_fail_def keeps_stop split: option.splits prod.splits)

lemma keeps_send_failed: "tr_keeps s (pump_send_failed s)"
  by (simp add: pump_send_failed_def keeps_stop split: option.splits)

lemma keeps_step: "tr_keeps s (tr_step N validator ev s)"
  by (cases ev)
    (simp_all add: keeps_feed keeps_next keeps_start keeps_pump_next keeps_send keeps_cancelled keeps_send_failed keeps_close)

lemma keeps_run: "tr_keeps s (fold (tr_step N validator) es s)"
proof (induction es arbitrary: s)
  case (Cons ev es)
  show ?case using tr_keeps_trans [OF keeps_step [of s N validator ev] Cons.IH] by simp
qed simp

text \<open>A call that raises on an open transport has closed it.\<close>

definition severed :: "'c wire \<Rightarrow> bool" where
  "severed s \<longleftrightarrow> tr_closed (fst s) \<and> nc_closed (tr_channel (fst s)) \<and> at_detached (attached s)"

lemma close_severs:
  assumes "\<not> tr_closed t" and "tr_attachment t < length (ls_objects l)"
  shows "severed (tr_close reason (t, l))"
  using assms by (simp add: severed_def tr_close_def ch_close_def lease_detach_def mark_detached_eq schedule_expiry_def)

lemma fail_severs:
  assumes "tr_fail reason (t, l) = (r, s')" and "\<not> tr_closed t" and "tr_attachment t < length (ls_objects l)"
  shows "severed s'"
  using close_severs [OF assms(2,3)] assms(1) by (auto simp: tr_fail_def)

lemma require_severs:
  assumes "tr_require_open (t, l) = (Inl e, s')" and "\<not> tr_closed t" and "tr_attachment t < length (ls_objects l)"
  shows "severed s'"
  using assms fail_severs [of "''channel_closed''" t l "Inl e :: transport_error + unit" s']
  by (auto simp: tr_require_open_def split: if_splits)

lemma failed_feed_closes:
  assumes "feed_ciphertext N validator env (t, l) x = (Inl e, (t2, l2))" and "\<not> tr_closed t" and "tr_attachment t < length (ls_objects l)"
  shows "severed (t2, l2)"
proof -
  have len: "feed_text validator env (tr_attachment t) str l = (r1, l1) \<Longrightarrow> tr_attachment t < length (ls_objects l1)" for str r1 l1
    using length_feed [of validator env "tr_attachment t" str l] assms(3) by simp
  show ?thesis
    using assms require_severs [of t l] require_Inr [of "(t, l)"]
    by (auto simp: feed_ciphertext_def Let_def dest!: fail_severs dest: len split: prod.splits sum.splits option.splits)
qed

lemma failed_next_closes:
  assumes "next_ciphertexts N mid (t, l) = (Inl e, (t2, l2))" and "\<not> tr_closed t" and "tr_attachment t < length (ls_objects l)"
  shows "severed (t2, l2)"
proof -
  have len: "(next_text (tr_attachment t) l :: (unit lease_error + pystr option) \<times> lease) = (r1, l1) \<Longrightarrow> tr_attachment t < length (ls_objects l1)" for r1 l1
    using spared_next [where 'a = unit, of l "tr_attachment t"] assms(3) by (simp add: spared_def)
  have coll: "severed (t2, l2)" if "collect_ciphertexts N mid (t, l) = (Inl e, (t2, l2))"
    using that assms(2,3)
    by (auto simp: collect_ciphertexts_def dest!: fail_severs dest: len split: prod.splits sum.splits option.splits lease_error.splits)
  then show ?thesis
    using assms require_severs [of t l] require_Inr [of "(t, l)"]
    by (auto simp: next_ciphertexts_def split: prod.splits sum.splits)
qed

text \<open>
  C29. An outer failure never costs the device its session. Over every sequence of calls on a
  transport (records received, genuine or forged, frames sent, the pump started, cancelled or
  failing, the transport closed): the lease is not released and its controller not closed, no
  retained frame is lost and the numbering stays, so that a new channel can attach and replay.
  A transport that is closed stays closed, and nothing that arrives on it afterwards reaches
  the controller. And a call that raises has closed the transport, its Noise channel and its
  attachment.
\<close>

theorem outer_failure_spares_lease:
  assumes "fold (tr_step N validator) es (t, l) = (t', l')" and "tr_attachment t < length (ls_objects l)"
  shows "ls_released l' = ls_released l \<and> ls_finished l' = ls_finished l \<and> ls_close_calls l' = ls_close_calls l
    \<and> ls_ring l' = ls_ring l \<and> ls_last_seq l' = ls_last_seq l \<and> ls_trimmed_through l' = ls_trimmed_through l
    \<and> (tr_closed t \<longrightarrow> tr_closed t' \<and> ls_websocket l' = ls_websocket l)
    \<and> (feed_ciphertext N validator env (t', l') x = (Inl e, (t2, l2)) \<and> \<not> tr_closed t' \<longrightarrow>
         tr_closed t2 \<and> nc_closed (tr_channel t2) \<and> at_detached (the_attachment l2 (tr_attachment t2)) \<and> ls_released l2 = ls_released l)
    \<and> (next_ciphertexts N mid (t', l') = (Inl e, (t2, l2)) \<and> \<not> tr_closed t' \<longrightarrow>
         tr_closed t2 \<and> nc_closed (tr_channel t2) \<and> at_detached (the_attachment l2 (tr_attachment t2)) \<and> ls_released l2 = ls_released l)"
proof -
  have k: "tr_keeps (t, l) (t', l')" using keeps_run [of "(t, l)" N validator es] assms(1) by simp
  then have att: "tr_attachment t' < length (ls_objects l')" and rel: "ls_released l' = ls_released l"
    using assms(2) by (auto simp: tr_keeps_def spared_def life_view_def)
  have feed: "tr_closed t2 \<and> nc_closed (tr_channel t2) \<and> at_detached (the_attachment l2 (tr_attachment t2)) \<and> ls_released l2 = ls_released l"
    if r: "feed_ciphertext N validator env (t', l') x = (Inl e, (t2, l2))" and "\<not> tr_closed t'"
    using failed_feed_closes [OF r that(2) att, unfolded severed_def] keeps_feed [of "(t', l')" N validator env x] r rel
    by (auto simp: tr_keeps_def spared_def life_view_def)
  have next': "tr_closed t2 \<and> nc_closed (tr_channel t2) \<and> at_detached (the_attachment l2 (tr_attachment t2)) \<and> ls_released l2 = ls_released l"
    if r: "next_ciphertexts N mid (t', l') = (Inl e, (t2, l2))" and "\<not> tr_closed t'"
    using failed_next_closes [OF r that(2) att, unfolded severed_def] keeps_next [of "(t', l')" N mid] r rel
    by (auto simp: tr_keeps_def spared_def life_view_def)
  show ?thesis using k feed next' by (auto simp: tr_keeps_def spared_def life_view_def ring_view_def)
qed

section \<open>From end to end\<close>

definition tr_ready :: "'c transport \<Rightarrow> bool" where
  \<comment> \<open>open, and between two messages\<close>
  "tr_ready t \<longleftrightarrow> \<not> tr_closed t \<and> handshake_finished (tr_channel t) \<and> length (tr_channel_id t) = 16
     \<and> ra_ready (tr_channel_id t) (tr_reassembler t)"

lemma decrypt_open: "ch_decrypt N s x = (Inr p, s') \<Longrightarrow> nc_closed s' = nc_closed s"
  by (auto simp: ch_decrypt_def ch_fail_def split: sum.splits if_splits option.splits channel_error.splits)

lemma require_open_wire:
  "\<not> tr_closed t \<Longrightarrow> \<not> nc_closed (tr_channel t) \<Longrightarrow> tr_require_open (t, l) = (Inr (), (t, l))"
  by (simp add: tr_require_open_def)

text \<open>Records that do not complete a message.\<close>

lemma feed_silent:
  assumes "feed_all (ch_decrypt N) (tr_channel t) xs = (map Inr rs, ch)"
    and "feed_all push (tr_reassembler t) rs = (replicate (length rs) (Inr None), ra)"
    and "\<not> tr_closed t" and "\<not> nc_closed (tr_channel t)"
  shows "feed_all (feed_ciphertext N validator env) (t, l) xs =
      (replicate (length xs) (Inr False), (t\<lparr>tr_channel := ch, tr_reassembler := ra\<rparr>, l)) \<and> \<not> nc_closed ch"
  using assms
proof (induction xs arbitrary: t rs)
  case (Cons x xs)
  obtain r rs' where rs: "rs = r # rs'" using Cons.prems(1) by (cases rs) (auto simp: Let_def split: prod.splits)
  obtain ch1 where d: "ch_decrypt N (tr_channel t) x = (Inr r, ch1)" "feed_all (ch_decrypt N) ch1 xs = (map Inr rs', ch)"
    using Cons.prems(1) rs by (auto simp: Let_def split: prod.splits)
  obtain ra1 where p: "push (tr_reassembler t) r = (Inr None, ra1)" "feed_all push ra1 rs' = (replicate (length rs') (Inr None), ra)"
    using Cons.prems(2) rs by (auto simp: Let_def split: prod.splits)
  let ?t1 = "t\<lparr>tr_channel := ch1, tr_reassembler := ra1\<rparr>"
  have "feed_ciphertext N validator env (t, l) x = (Inr False, (?t1, l))"
    using Cons.prems(3,4) d p by (simp add: feed_ciphertext_def require_open_wire)
  moreover have "feed_all (feed_ciphertext N validator env) (?t1, l) xs =
      (replicate (length xs) (Inr False), (?t1\<lparr>tr_channel := ch, tr_reassembler := ra\<rparr>, l)) \<and> \<not> nc_closed ch"
    using Cons.IH [of ?t1 rs'] d p Cons.prems(3,4) decrypt_open [OF d(1)] by simp
  ultimately show ?case by (simp add: Let_def)
qed simp

lemma feed_all_snoc:
  assumes "feed_all f s (xs @ [y]) = (os, s')"
  shows "\<exists>os1 s1 o1. feed_all f s xs = (os1, s1) \<and> f s1 y = (o1, s') \<and> os = os1 @ [o1]"
  using assms by (auto simp: feed_all_append Let_def split: prod.splits)

lemma feed_all_snocI:
  assumes "feed_all f s xs = (os1, s1)" and "f s1 y = (o1, s')"
  shows "feed_all f s (xs @ [y]) = (os1 @ [o1], s')"
  using assms by (simp add: feed_all_append)

text \<open>
  C7. From the device to the lease. When the device splits a frame of at most 16 MiB into
  records and encrypts them, and the host feeds the ciphertexts in order, every record but the
  last is taken in silence, and the last one hands to the lease exactly the frame the device
  sent. If the lease accepts it the transport is ready for the next frame; if the lease
  raises, the transport reports the reason and closes.
\<close>

theorem device_frame_reaches_lease:
  assumes "noise_transport N R" and "tr_ready t" and "handshake_finished d"
    and "nc_connection d = Some c" and "nc_connection (tr_channel t) = Some c'" and "R c c'"
    and "utf8_encode str = Some payload" and "length payload \<le> 16777216" and "length mid = 16"
    and "feed_text validator env (tr_attachment t) str l = (r, l')"
  shows "\<exists>rs xs d' t'. encode_message (tr_channel_id t) mid payload KIND_HERMES_BYTES FLAGS_NONE = Inr rs
    \<and> feed_all (ch_encrypt N) d rs = (map Inr xs, d')
    \<and> feed_all (feed_ciphertext N validator env) (t, l) xs =
        (case r of
           Inr _ \<Rightarrow> (replicate (length rs - 1) (Inr False) @ [Inr True], (t', l'))
         | Inl e \<Rightarrow> (replicate (length rs - 1) (Inr False) @ [Inl (ControllerTransportError (inbound_reason e))],
                     tr_close (inbound_reason e) (t', l')))
    \<and> tr_ready t' \<and> tr_attachment t' = tr_attachment t"
proof -
  let ?cid = "tr_channel_id t"
  have rdy: "\<not> tr_closed t" "handshake_finished (tr_channel t)" "length ?cid = 16" "ra_ready ?cid (tr_reassembler t)"
    using assms(2) by (auto simp: tr_ready_def)
  have open': "\<not> nc_closed (tr_channel t)" using rdy(2) by (simp add: handshake_finished_def)
  have "message_ok ?cid (mid, payload)" using rdy(3) assms(8,9) by (simp add: message_ok_iff)
  then obtain rs where enc: "encode_message ?cid mid payload KIND_HERMES_BYTES FLAGS_NONE = Inr rs"
    by (auto simp: message_ok_def is_ok_iff)
  note shape = encode_message_shape [OF enc]
  obtain xs cd ce where xs: "feed_all (ch_encrypt N) d rs = (map Inr xs, d\<lparr>nc_connection := Some cd\<rparr>)"
    "feed_all (ch_decrypt N) (tr_channel t) xs = (map Inr rs, (tr_channel t)\<lparr>nc_connection := Some ce\<rparr>)" "length xs = length rs"
    using records_roundtrip [OF assms(1,3) rdy(2) assms(4,5,6)] shape by blast
  have asm: "feed_all push (tr_reassembler t) rs = (replicate (length rs - 1) (Inr None) @ [Inr (Some payload)], tr_reassembler t)"
    by (rule reassemble_encoded [OF rdy(4) enc])
  obtain qs q where rq: "rs = qs @ [q]" using shape by (cases rs rule: rev_cases) auto
  obtain ys y where xy: "xs = ys @ [y]" using xs(3) rq by (cases xs rule: rev_cases) auto
  have len: "length ys = length qs" using xs(3) rq xy by simp
  obtain ch1 where d: "feed_all (ch_decrypt N) (tr_channel t) ys = (map Inr qs, ch1)"
    "ch_decrypt N ch1 y = (Inr q, (tr_channel t)\<lparr>nc_connection := Some ce\<rparr>)"
    using feed_all_snoc [OF xs(2) [unfolded xy]] rq by auto
  obtain ra1 where p: "feed_all push (tr_reassembler t) qs = (replicate (length qs) (Inr None), ra1)"
    "push ra1 q = (Inr (Some payload), tr_reassembler t)"
    using feed_all_snoc [OF asm [unfolded rq]] by auto
  let ?t1 = "t\<lparr>tr_channel := ch1, tr_reassembler := ra1\<rparr>"
  let ?t' = "t\<lparr>tr_channel := (tr_channel t)\<lparr>nc_connection := Some ce\<rparr>\<rparr>"
  note silent = feed_silent [OF d(1) p(1) rdy(1) open', of validator env l]
  have last: "feed_ciphertext N validator env (?t1, l) y =
      (case r of Inr _ \<Rightarrow> (Inr True, (?t', l'))
       | Inl e \<Rightarrow> (Inl (ControllerTransportError (inbound_reason e)), tr_close (inbound_reason e) (?t', l')))"
    using rdy(1) silent d(2) p(2) assms(10) utf8_decode_encode [OF assms(7)]
    by (cases r) (simp_all add: feed_ciphertext_def require_open_wire tr_fail_def)
  have "feed_all (feed_ciphertext N validator env) (t, l) xs =
      (case r of
         Inr _ \<Rightarrow> (replicate (length rs - 1) (Inr False) @ [Inr True], (?t', l'))
       | Inl e \<Rightarrow> (replicate (length rs - 1) (Inr False) @ [Inl (ControllerTransportError (inbound_reason e))],
                   tr_close (inbound_reason e) (?t', l')))"
    using silent last len unfolding xy rq by (cases r) (auto intro: feed_all_snocI)
  moreover have "tr_ready ?t'" using rdy by (simp add: tr_ready_def handshake_finished_def)
  ultimately show ?thesis using enc xs(1) by (intro exI [of _ rs] exI [of _ xs] exI [of _ "d\<lparr>nc_connection := Some cd\<rparr>"] exI [of _ ?t']) simp
qed

lemma encrypt_all_feed: "feed_all (ch_encrypt N) s ps = (map Inr xs, s') \<Longrightarrow> encrypt_all N s ps = (Inr xs, s')"
proof (induction ps arbitrary: s xs)
  case (Cons p ps)
  obtain x xs' s1 where "xs = x # xs'" "ch_encrypt N s p = (Inr x, s1)" "feed_all (ch_encrypt N) s1 ps = (map Inr xs', s')"
    using Cons.prems by (cases xs) (auto simp: Let_def split: prod.splits)
  then show ?case using Cons.IH [of s1 xs'] by simp
qed simp

text \<open>
  C8. From the lease to the device. When the lease has a frame of at most 16 MiB for the
  attachment, \<open>next_ciphertexts\<close> takes exactly that frame and returns its records encrypted;
  the device that decrypts them in order and pushes them into a reassembler of the same
  channel gets, with the last record, exactly the bytes of that frame, and nothing before.
\<close>

theorem lease_frame_reaches_device:
  assumes "noise_transport N R" and "tr_ready t" and "handshake_finished d"
    and "nc_connection d = Some c" and "nc_connection (tr_channel t) = Some c'" and "R c' c"
    and "(next_text (tr_attachment t) l :: (unit lease_error + pystr option) \<times> lease) = (Inr (Some str), l')"
    and "utf8_encode str = Some payload" and "length payload \<le> 16777216" and "length mid = 16"
    and "ra_ready (tr_channel_id t) ra"
  shows "\<exists>xs rs t' d'. next_ciphertexts N mid (t, l) = (Inr (Some xs), (t', l'))
    \<and> feed_all (ch_decrypt N) d xs = (map Inr rs, d')
    \<and> feed_all push ra rs = (replicate (length rs - 1) (Inr None) @ [Inr (Some payload)], ra)
    \<and> utf8_decode payload = Some str \<and> tr_ready t' \<and> tr_attachment t' = tr_attachment t"
proof -
  let ?cid = "tr_channel_id t"
  have rdy: "\<not> tr_closed t" "handshake_finished (tr_channel t)" "length ?cid = 16" "ra_ready ?cid (tr_reassembler t)"
    using assms(2) by (auto simp: tr_ready_def)
  have open': "\<not> nc_closed (tr_channel t)" using rdy(2) by (simp add: handshake_finished_def)
  have "message_ok ?cid (mid, payload)" using rdy(3) assms(9,10) by (simp add: message_ok_iff)
  then obtain rs where enc: "encode_message ?cid mid payload KIND_HERMES_BYTES FLAGS_NONE = Inr rs"
    by (auto simp: message_ok_def is_ok_iff)
  have recs: "outbound_records ?cid mid str = Some rs"
    using enc assms(8,10) by (simp add: outbound_records_def fixed_bytes_def)
  obtain xs ce cd where xs: "feed_all (ch_encrypt N) (tr_channel t) rs = (map Inr xs, (tr_channel t)\<lparr>nc_connection := Some ce\<rparr>)"
    "feed_all (ch_decrypt N) d xs = (map Inr rs, d\<lparr>nc_connection := Some cd\<rparr>)"
    using records_roundtrip [OF assms(1) rdy(2) assms(3,5,4,6)] encode_message_shape [OF enc] by blast
  let ?t' = "t\<lparr>tr_channel := (tr_channel t)\<lparr>nc_connection := Some ce\<rparr>\<rparr>"
  have "next_ciphertexts N mid (t, l) = (Inr (Some xs), (?t', l'))"
    using rdy open' assms(7) recs encrypt_all_feed [OF xs(1)]
    by (simp add: next_ciphertexts_def require_open_wire collect_ciphertexts_def)
  moreover have "tr_ready ?t'" using rdy by (simp add: tr_ready_def handshake_finished_def)
  ultimately show ?thesis
    using xs(2) reassemble_encoded [OF assms(11) enc] utf8_decode_encode [OF assms(8)]
    by (intro exI [of _ xs] exI [of _ rs] exI [of _ ?t'] exI [of _ "d\<lparr>nc_connection := Some cd\<rparr>"]) simp
qed

section \<open>An instance\<close>

text \<open>A lease with one attachment, a host channel bound to it and the device's channel, over the
  transparent Noise library.\<close>

definition wire_socket :: vws where
  "wire_socket = (case new_vws 256 16777216 8388608 of Inr w \<Rightarrow> w | Inl _ \<Rightarrow> undefined)"

definition wire_new_lease :: lease where
  "wire_new_lease = (case new_lease (lit ''dev'') [] (lit ''p'') (lit ''id'') default_limits True (new_projection (lit ''p'') []) wire_socket
     of Inr l \<Rightarrow> l | Inl _ \<Rightarrow> undefined)"

definition wire_attach :: attach_env where
  "wire_attach = \<lparr>ae_clock = 1, ae_wall = 1, ae_authorizer = (\<lambda>_. True), ae_relay_token = None, ae_capabilities = None\<rparr>"

definition wire_lease :: lease where
  "wire_lease = fst (fold (lease_step (None :: unit validator)) [EvStart, EvAttach wire_attach 0 False False False] (wire_new_lease, None))"

definition wire_env :: submit_env where
  "wire_env = \<lparr>sv_limit = 9, sv_sha256 = (\<lambda>_. []), sv_authorizer = (\<lambda>_. True)\<rparr>"

definition wire_channel :: "bool \<Rightarrow> nat noise_channel" where
  "wire_channel initiator = \<lparr>nc_connection = Some 0, nc_is_initiator = initiator, nc_closed = False, nc_admitted = \<not> initiator,
     nc_transport_bound = False, nc_next_action = Complete, nc_channel_binding = Some [], nc_remote_static_public = Some [],
     nc_configured_remote_static = None\<rparr>"

definition wire_transport :: "nat transport" where
  "wire_transport = (case fst (new_transport (wire_channel False) 0 (replicate 16 0)) of Inr t \<Rightarrow> t | Inl _ \<Rightarrow> undefined)"

lemma plain_noise_transport: "noise_transport plain_noise (\<lambda>_ _. True)"
  by (simp add: noise_transport_def plain_noise_def)

lemma wire_transport_eq:
  "wire_transport = \<lparr>tr_channel = (wire_channel False)\<lparr>nc_transport_bound := True\<rparr>, tr_attachment = 0, tr_channel_id = replicate 16 0,
     tr_reassembler = (case new_reassembler (Some (replicate 16 0)) 1 0 of Inr ra \<Rightarrow> ra | Inl _ \<Rightarrow> undefined),
     tr_closed = False, tr_pump = None\<rparr>"
  by (simp add: wire_transport_def new_transport_def wire_channel_def handshake_finished_def fixed_bytes_def mark_transport_bound_def
      require_open_def new_reassembler_def view_sized_def validate_kind_flags_def)

lemma wire_reassembler: "ra_ready (replicate 16 0) (tr_reassembler wire_transport)"
proof -
  obtain ra where "new_reassembler (Some (replicate 16 0)) 1 0 = Inr ra"
    by (simp add: new_reassembler_def view_sized_def validate_kind_flags_def)
  then show ?thesis using new_reassembler_ready by (simp add: wire_transport_eq)
qed

lemma wire_ready: "tr_ready wire_transport" "tr_attachment wire_transport = 0" "nc_connection (tr_channel wire_transport) = Some 0"
  using wire_reassembler by (simp_all add: tr_ready_def wire_transport_eq wire_channel_def handshake_finished_def)

lemma wire_device: "handshake_finished (wire_channel True)" "nc_connection (wire_channel True) = Some 0"
  by (simp_all add: wire_channel_def handshake_finished_def)

lemma wire_text: "utf8_encode (lit ''x'') = Some [120]"
  by code_simp

theorem device_frame_reaches_lease_witness:
  "\<exists>rs xs d' t' l'. encode_message (replicate 16 0) (replicate 16 1) [120] KIND_HERMES_BYTES FLAGS_NONE = Inr rs
     \<and> feed_all (ch_encrypt plain_noise) (wire_channel True) rs = (map Inr xs, d')
     \<and> feed_all (feed_ciphertext plain_noise (None :: unit validator) wire_env) (wire_transport, wire_lease) xs
         = (replicate (length rs - 1) (Inr False) @ [Inr True], (t', l'))
     \<and> vw_inbound (ls_websocket l') = [VText (lit ''x'')]"
proof -
  let ?f = "feed_text (None :: unit validator) wire_env 0 (lit ''x'') wire_lease"
  have "fst ?f = Inr ()" "vw_inbound (ls_websocket (snd ?f)) = [VText (lit ''x'')]" by code_simp+
  moreover from this have "?f = (Inr (), snd ?f)" by (metis prod.collapse)
  moreover have "tr_channel_id wire_transport = replicate 16 0" by (simp add: wire_transport_eq)
  ultimately show ?thesis
    using device_frame_reaches_lease [OF plain_noise_transport wire_ready(1) wire_device wire_ready(3) TrueI wire_text,
        of "replicate 16 1" "None :: unit validator" wire_env wire_lease "Inr ()" "snd ?f"] wire_ready(2)
    by simp blast
qed

theorem lease_frame_reaches_device_witness:
  "\<exists>xs rs t' l' d' str payload. next_ciphertexts plain_noise (replicate 16 1) (wire_transport, wire_lease) = (Inr (Some xs), (t', l'))
     \<and> feed_all (ch_decrypt plain_noise) (wire_channel True) xs = (map Inr rs, d')
     \<and> delivered (fst (feed_all push (tr_reassembler wire_transport) rs)) = [payload] \<and> utf8_decode payload = Some str
     \<and> at_preamble (the_attachment wire_lease 0) = Some str"
proof -
  let ?n = "next_text 0 wire_lease :: (unit lease_error + pystr option) \<times> lease"
  define str where "str = the (at_preamble (the_attachment wire_lease 0))"
  define payload where "payload = the (utf8_encode str)"
  have c: "at_preamble (the_attachment wire_lease 0) = Some str" unfolding str_def by code_simp
  have "fst ?n = Inr (Some str)" unfolding str_def by code_simp
  then have n: "?n = (Inr (Some str), snd ?n)" by (metis prod.collapse)
  have u: "utf8_encode str = Some payload" unfolding payload_def str_def by code_simp
  have len: "length payload \<le> 16777216" unfolding payload_def str_def by code_simp
  have cid: "tr_channel_id wire_transport = replicate 16 0" by (simp add: wire_transport_eq)
  have "\<exists>xs rs t' d'. next_ciphertexts plain_noise (replicate 16 1) (wire_transport, wire_lease) = (Inr (Some xs), (t', snd ?n))
      \<and> feed_all (ch_decrypt plain_noise) (wire_channel True) xs = (map Inr rs, d')
      \<and> feed_all push (tr_reassembler wire_transport) rs
          = (replicate (length rs - 1) (Inr None) @ [Inr (Some payload)], tr_reassembler wire_transport)
      \<and> utf8_decode payload = Some str \<and> tr_ready t' \<and> tr_attachment t' = tr_attachment wire_transport"
    by (rule lease_frame_reaches_device [OF plain_noise_transport wire_ready(1) wire_device wire_ready(3) TrueI])
      (use n u len wire_ready(2) wire_reassembler cid in simp_all)
  then obtain xs rs t' d' where "next_ciphertexts plain_noise (replicate 16 1) (wire_transport, wire_lease) = (Inr (Some xs), (t', snd ?n))"
      "feed_all (ch_decrypt plain_noise) (wire_channel True) xs = (map Inr rs, d')"
      "delivered (fst (feed_all push (tr_reassembler wire_transport) rs)) = [payload]" "utf8_decode payload = Some str"
    by auto
  then show ?thesis using c by blast
qed

theorem outer_failure_spares_lease_witness:
  "\<exists>t' l'. fold (tr_step plain_noise (None :: unit validator)) [TrFeed wire_env [], TrFeed wire_env (replicate 40 7), TrClose ''gone'']
        (wire_transport, wire_lease) = (t', l') \<and> tr_closed t'
     \<and> \<not> ls_released l' \<and> ls_close_calls l' = ls_close_calls wire_lease \<and> ls_ring l' = ls_ring wire_lease"
proof -
  let ?es = "[TrFeed wire_env [], TrFeed wire_env (replicate 40 7), TrClose ''gone'']"
  obtain t' l' where run: "fold (tr_step plain_noise (None :: unit validator)) ?es (wire_transport, wire_lease) = (t', l')" by fastforce
  have c: "\<not> ls_released wire_lease" "length (ls_objects wire_lease) = 1" by code_simp+
  have k: "tr_attachment wire_transport < length (ls_objects wire_lease)" using c wire_ready(2) by simp
  have "tr_closed t'" using run by (auto simp: tr_close_def split: prod.splits if_splits)
  then show ?thesis using outer_failure_spares_lease [OF run k] run c by blast
qed

end
