(* ===== verification/Hermes_Bridge.thy ===== *)
theory Hermes_Bridge
  imports Virtual_WS
begin

text \<open>
  One invocation of the Hermes handler, \<open>HermesSessionBridge\<close> of \<^verbatim>\<open>hermes_compat.py\<close>. Hermes
  itself is a parameter: whether the loader finds a valid handler, and when and how the
  handler's task ends, are arguments of the events. A method that awaits is split there;
  the calls that are waiting are listed in the state, with the task each of them waits for.
\<close>

section \<open>State\<close>

definition UNSUPPORTED_STATUS :: string where "UNSUPPORTED_STATUS = ''unsupported_hermes_contract''"

datatype bridge_error =
    HermesContractUnavailable
  | BridgeFailed                  \<comment> \<open>\<open>RuntimeError("hermes_session_bridge_failed")\<close>\<close>
  | BridgeAttributeError          \<comment> \<open>\<open>self._task\<close> was reset while \<open>start\<close> waited\<close>

datatype task_end = HandlerReturned | HandlerRaised | HandlerCancelled

record bridge =
  br_websocket :: vws
  br_status :: string
  br_task :: "nat option"
  br_done :: "bool list"          \<comment> \<open>for every task ever created, whether it has ended\<close>
  br_starting :: nat              \<comment> \<open>calls of \<open>start\<close> at \<open>sleep(0)\<close>\<close>
  br_failing :: nat               \<comment> \<open>calls of \<open>start\<close> that join a task that has ended\<close>
  br_closing :: "nat list"        \<comment> \<open>calls of \<open>close\<close>, each with the task it joins\<close>

definition new_bridge :: "int \<Rightarrow> vws \<Rightarrow> string + bridge" where
  "new_bridge close_timeout websocket =
     (if close_timeout \<le> 0 then Inl ''close_timeout must be positive''
      else Inr \<lparr>br_websocket = websocket, br_status = ''stopped'', br_task = None, br_done = [],
                br_starting = 0, br_failing = 0, br_closing = []\<rparr>)"

definition br_running :: "bridge \<Rightarrow> bool" where
  "br_running b = (case br_task b of None \<Rightarrow> False | Some i \<Rightarrow> \<not> br_done b ! i)"

text \<open>\<open>probe_hermes_contract\<close>: the status it reports and whether the contract is supported.\<close>

definition probe_hermes_contract :: "bool \<Rightarrow> string \<times> bool" where
  "probe_hermes_contract handler_ok = (if handler_ok then (''ready'', True) else (UNSUPPORTED_STATUS, False))"

section \<open>Operations\<close>

definition br_start :: "bool \<Rightarrow> bridge \<Rightarrow> (bridge_error + unit) \<times> bridge" where
  \<comment> \<open>up to \<open>sleep(0)\<close>\<close>
  "br_start handler_ok b =
     (if br_running b then (Inr (), b)
      else if \<not> handler_ok then (Inl HermesContractUnavailable, b\<lparr>br_status := UNSUPPORTED_STATUS\<rparr>)
      else (Inr (), b\<lparr>br_status := ''starting'', br_task := Some (length (br_done b)),
                      br_done := br_done b @ [False], br_starting := br_starting b + 1\<rparr>))"

definition br_started :: "bridge \<Rightarrow> (bridge_error + unit) \<times> bridge" where
  \<comment> \<open>\<open>start\<close> goes on after \<open>sleep(0)\<close>\<close>
  "br_started b =
     (if br_starting b = 0 then (Inr (), b)
      else let b1 = b\<lparr>br_starting := br_starting b - 1\<rparr> in
        (case br_task b1 of
           None \<Rightarrow> (Inl BridgeAttributeError, b1)
         | Some i \<Rightarrow> if br_done b1 ! i then (Inr (), b1\<lparr>br_failing := br_failing b1 + 1\<rparr>)
                     else (Inr (), b1\<lparr>br_status := ''running''\<rparr>)))"

definition br_start_failed :: "bridge \<Rightarrow> (bridge_error + unit) \<times> bridge" where
  \<comment> \<open>the task has been joined\<close>
  "br_start_failed b =
     (if br_failing b = 0 then (Inr (), b)
      else (Inl BridgeFailed,
            b\<lparr>br_failing := br_failing b - 1, br_task := None,
              br_status := (if br_status b \<in> {UNSUPPORTED_STATUS, ''failed''} then br_status b else ''failed'')\<rparr>))"

definition br_exit :: "nat \<Rightarrow> task_end \<Rightarrow> bridge \<Rightarrow> bridge" where
  \<comment> \<open>the end of \<open>run\<close>\<close>
  "br_exit i how b =
     (if i \<ge> length (br_done b) \<or> br_done b ! i then b
      else
        let b1 = (if how = HandlerRaised then b\<lparr>br_status := ''failed''\<rparr> else b);
            b2 = (if br_status b1 \<in> {UNSUPPORTED_STATUS, ''failed''} then b1 else b1\<lparr>br_status := ''stopped''\<rparr>)
        in b2\<lparr>br_websocket := vws_close (br_websocket b2) 1011 (lit ''bridge_exit''),
              br_done := (br_done b2)[i := True]\<rparr>)"

definition br_close :: "bridge \<Rightarrow> bridge" where
  \<comment> \<open>\<open>close\<close>, up to the wait for the task\<close>
  "br_close b =
     (case br_task b of
        None \<Rightarrow> b\<lparr>br_status := ''stopped'', br_websocket := vws_close (br_websocket b) 1000 []\<rparr>
      | Some i \<Rightarrow> b\<lparr>br_websocket := vws_close (br_websocket b) 1000 (lit ''bridge_closed''),
                    br_closing := br_closing b @ [i]\<rparr>)"

definition br_join :: "bool \<Rightarrow> nat \<Rightarrow> bridge \<Rightarrow> bridge" where
  \<comment> \<open>the \<open>finally\<close> clause of the \<open>j\<close>th waiting \<open>close\<close>: its task has ended, by itself or
     cancelled after the timeout, or the call was cancelled\<close>
  "br_join cancelled j b =
     (if j < length (br_closing b) \<and> (cancelled \<or> br_done b ! (br_closing b ! j))
      then b\<lparr>br_closing := take j (br_closing b) @ drop (Suc j) (br_closing b), br_task := None, br_status := ''stopped''\<rparr>
      else b)"

section \<open>The bridge as a state machine\<close>

datatype bridge_event =
    BrStart bool
  | BrStarted
  | BrStartFailed
  | BrExit nat task_end
  | BrClose
  | BrJoin bool nat
  | BrSocket vws_event              \<comment> \<open>the handler or the lease uses the socket\<close>

fun br_step :: "'r validator \<Rightarrow> bridge_event \<Rightarrow> bridge \<Rightarrow> bridge" where
  "br_step validator (BrStart handler_ok) b = snd (br_start handler_ok b)"
| "br_step validator BrStarted b = snd (br_started b)"
| "br_step validator BrStartFailed b = snd (br_start_failed b)"
| "br_step validator (BrExit i how) b = br_exit i how b"
| "br_step validator BrClose b = br_close b"
| "br_step validator (BrJoin cancelled j) b = br_join cancelled j b"
| "br_step validator (BrSocket ev) b = b\<lparr>br_websocket := vws_step validator ev (br_websocket b)\<rparr>"

text \<open>
  The socket is valid, the tasks that are referred to exist, and once a task has ended or a
  \<open>close\<close> is waiting the socket is closed.
\<close>

definition br_inv :: "bridge \<Rightarrow> bool" where
  "br_inv b \<longleftrightarrow> vws_inv (br_websocket b)
     \<and> (\<forall>i. br_task b = Some i \<longrightarrow> i < length (br_done b))
     \<and> (\<forall>i \<in> set (br_closing b). i < length (br_done b))
     \<and> (True \<in> set (br_done b) \<or> br_closing b \<noteq> [] \<longrightarrow> vw_closed (br_websocket b))"

lemma vw_closed_step: "vw_closed s \<Longrightarrow> vw_closed (vws_step v e s)"
  by (cases e) (auto simp: vws_feed_text_def vws_send_text_def vws_receive_text_def vws_next_text_def vws_accept_def
      vws_close_def close_now_def signal_close_def Let_def split: list.splits vws_item.splits sum.splits option.splits)

lemma vw_closed_close [simp]: "vw_closed (vws_close s code reason)"
  by (simp add: vws_close_def close_now_def signal_close_def Let_def)

lemma vws_inv_close [simp]: "vws_inv s \<Longrightarrow> vws_inv (vws_close s code reason)"
  by (simp add: vws_close_def close_now_inv(1))

lemma br_inv_step: "br_inv b \<Longrightarrow> br_inv (br_step validator ev b)"
proof (cases ev)
  case (BrJoin cancelled j)
  assume inv: "br_inv b"
  have "set (take j (br_closing b) @ drop (Suc j) (br_closing b)) \<subseteq> set (br_closing b)"
    by (auto dest: in_set_takeD in_set_dropD)
  then show ?thesis using inv by (auto simp: BrJoin br_join_def br_inv_def)
next
  case (BrSocket e)
  assume "br_inv b"
  then show ?thesis by (auto simp: BrSocket br_inv_def vws_step_inv vw_closed_step)
qed (auto simp: br_inv_def br_start_def br_started_def br_start_failed_def br_exit_def br_close_def Let_def less_Suc_eq
    split: option.splits if_splits)

definition fresh_bridge :: "bridge \<Rightarrow> bool" where
  "fresh_bridge b \<longleftrightarrow> (\<exists>n ws. new_bridge n ws = Inr b \<and> vws_inv ws)"

interpretation bridge: invariant_component fresh_bridge "br_step validator" br_inv for validator
proof
  fix b
  assume "fresh_bridge b"
  then show "br_inv b" by (auto simp: fresh_bridge_def new_bridge_def br_inv_def split: if_splits)
qed (rule br_inv_step)

section \<open>Properties\<close>

definition demo_bridge :: bridge where
  "demo_bridge = (case new_vws 256 16777216 8388608 of
     Inr ws \<Rightarrow> (case new_bridge 5 ws of Inr b \<Rightarrow> b | Inl _ \<Rightarrow> undefined) | Inl _ \<Rightarrow> undefined)"

definition demo_bridge_run :: "bridge_event list" where
  \<comment> \<open>the handler accepts the socket and returns while \<open>start\<close> yields to it\<close>
  "demo_bridge_run = [BrStart True, BrSocket (VAccept None), BrExit 0 HandlerReturned, BrStarted]"

text \<open>
  C30. The end of the handler is never missed. When an invocation of the handler ends, however
  it ends, the virtual socket is closed: the next read of an outgoing frame raises the close
  at once instead of waiting for a handler that is gone. The socket stays closed in every
  later state, also once a \<open>close\<close> has begun to wait: nothing more can be sent or fed. A
  \<open>start\<close> that finds its handler ended goes on to fail.
\<close>

theorem bridge_exit_closes_socket:
  assumes "fresh_bridge b0" and "b = fold (br_step (validator :: 'r validator)) es b0"
  shows "(br_running b \<longrightarrow> br_task b = Some i \<longrightarrow>
      fst (vws_next_text (br_websocket (br_exit i how b))) = Inl VwsClosed \<and> \<not> br_running (br_exit i how b))
    \<and> (True \<in> set (br_done b) \<or> br_closing b \<noteq> [] \<longrightarrow> vw_closed (br_websocket b)
        \<and> \<not> is_ok (fst (vws_send_text (br_websocket b) t))
        \<and> \<not> is_ok (fst (vws_feed_text validator (br_websocket b) t)))
    \<and> (br_task b = Some i \<longrightarrow> br_done b ! i \<longrightarrow> br_starting b > 0 \<longrightarrow>
         fst (br_start_failed (snd (br_started b))) = Inl BridgeFailed)"
proof -
  have inv: "br_inv b" using bridge.inv_reachable [OF assms(1), of validator es] assms(2) by simp
  have "fst (vws_next_text (vws_close s code reason)) = Inl VwsClosed" for s code reason
    by (simp add: vws_next_text_def vws_close_def close_now_def signal_close_def Let_def)
  then show ?thesis using inv
    by (auto simp: br_inv_def br_running_def br_exit_def vws_send_text_def vws_feed_text_def br_started_def
        br_start_failed_def Let_def)
qed

theorem bridge_exit_closes_socket_witness:
  "fst (vws_next_text (br_websocket (br_exit 0 HandlerReturned (fold (br_step (None :: unit validator)) (take 2 demo_bridge_run) demo_bridge))))
      = Inl VwsClosed
   \<and> vw_closed (br_websocket (fold (br_step (None :: unit validator)) demo_bridge_run demo_bridge))
   \<and> fst (br_start_failed (fold (br_step (None :: unit validator)) demo_bridge_run demo_bridge)) = Inl BridgeFailed"
proof -
  let ?v = "None :: unit validator"
  obtain ws where ws: "new_vws 256 16777216 8388608 = Inr ws" by (simp add: new_vws_def)
  then have d: "new_bridge 5 ws = Inr demo_bridge" by (simp add: demo_bridge_def new_bridge_def)
  have fresh: "fresh_bridge demo_bridge" using d new_vws_Inr(1) [OF ws] unfolding fresh_bridge_def by blast
  have run: "br_running (fold (br_step ?v) (take 2 demo_bridge_run) demo_bridge)"
    "br_task (fold (br_step ?v) (take 2 demo_bridge_run) demo_bridge) = Some 0"
    "True \<in> set (br_done (fold (br_step ?v) demo_bridge_run demo_bridge))"
    "br_task (fold (br_step ?v) (take 3 demo_bridge_run) demo_bridge) = Some 0"
    "br_done (fold (br_step ?v) (take 3 demo_bridge_run) demo_bridge) ! 0"
    "br_starting (fold (br_step ?v) (take 3 demo_bridge_run) demo_bridge) > 0" by code_simp+
  have "fold (br_step ?v) (take 3 demo_bridge_run @ [BrStarted]) demo_bridge
      = snd (br_started (fold (br_step ?v) (take 3 demo_bridge_run) demo_bridge))"
    unfolding fold_append by simp
  moreover have "take 3 demo_bridge_run @ [BrStarted] = demo_bridge_run" by (simp add: demo_bridge_run_def)
  ultimately have last: "snd (br_started (fold (br_step ?v) (take 3 demo_bridge_run) demo_bridge))
      = fold (br_step ?v) demo_bridge_run demo_bridge" by argo
  note th = bridge_exit_closes_socket [OF fresh refl, of ?v _ 0 HandlerReturned "[]"]
  have "fst (br_start_failed (fold (br_step ?v) demo_bridge_run demo_bridge)) = Inl BridgeFailed"
    using th [of "take 3 demo_bridge_run"] run(4-6) last by metis
  then show ?thesis using th [of "take 2 demo_bridge_run"] th [of demo_bridge_run] run(1-3) by blast
qed

end
