(* ===== verification/Relay_Runtime.thy ===== *)
theory Relay_Runtime
  imports Hermes_Bridge Method_Policy "HOL-Library.Multiset"
begin

text \<open>
  The owner of the in-process Hermes controllers, \<open>RelayRuntime\<close> of \<^verbatim>\<open>runtime.py\<close>. The
  bridge of a controller is an object of the protocol \<open>_Bridge\<close>: it is named by its number,
  and the runtime's calls of \<open>close\<close> are recorded. \<open>asyncio.Lock\<close> is the field \<open>rt_lock\<close>: who
  holds it across an await. A call that needs the lock while it is held has to wait, so its
  step does nothing then.
\<close>

section \<open>State\<close>

definition DEFAULT_MAX_CONTROLLERS :: int where "DEFAULT_MAX_CONTROLLERS = 8"

datatype runtime_error =
    RuntimeUnavailable string
  | ControllerLimitReached
  | ControllerIdUnavailable
  | ProfileNotAvailable
  | RuntimeValueError string
  | BridgeStartFailed              \<comment> \<open>whatever \<open>bridge.start()\<close> raised\<close>
  | BridgeFactoryFailed

record controller_handle =
  hn_profile :: pystr
  hn_bridge :: nat                 \<comment> \<open>the bridge, and the virtual WebSocket made for it\<close>

datatype lock_state =
    LockFree
  | Starting pystr controller_handle   \<comment> \<open>\<open>open_controller\<close> waits for \<open>bridge.start()\<close>\<close>
  | Aborting                           \<comment> \<open>it waits for \<open>close\<close> of a bridge that failed to start\<close>

record runtime =
  rt_max_controllers :: int
  rt_state :: string
  rt_contract :: "string \<times> bool"
  rt_controllers :: "(pystr, controller_handle) odict"
  rt_lock :: lock_state
  rt_bridges :: nat                \<comment> \<open>how many bridges have been made\<close>
  rt_closes :: "nat list"          \<comment> \<open>calls of \<open>bridge.close()\<close>, in order\<close>
  rt_closers :: nat                \<comment> \<open>calls of \<open>close\<close> that wait for their bridges\<close>

record open_env =
  oe_authorizer :: "pystr \<Rightarrow> bool"       \<comment> \<open>returns \<open>True\<close>; an exception counts as no\<close>
  oe_ids :: "nat \<Rightarrow> pystr"               \<comment> \<open>the draws of the id factory\<close>
  oe_factory_ok :: bool                  \<comment> \<open>the bridge factory does not raise\<close>

definition new_runtime :: "int \<Rightarrow> runtime_error + runtime" where
  "new_runtime max_controllers =
     (if max_controllers < 1 \<or> max_controllers > 64
      then Inl (RuntimeValueError ''max_controllers is outside the supported range'')
      else Inr \<lparr>rt_max_controllers = max_controllers, rt_state = ''stopped'', rt_contract = (''not_checked'', False),
                rt_controllers = [], rt_lock = LockFree, rt_bridges = 0, rt_closes = [], rt_closers = 0\<rparr>)"

section \<open>Operations\<close>

definition rt_start :: "bool \<Rightarrow> runtime \<Rightarrow> (runtime_error + unit) \<times> runtime" where
  "rt_start handler_ok r =
     (if rt_state r = ''ready'' \<or> rt_state r = UNSUPPORTED_STATUS then (Inr (), r)
      else if rt_state r = ''closing'' then (Inl (RuntimeUnavailable ''runtime_closing''), r)
      else let contract = probe_hermes_contract handler_ok in
           (Inr (), r\<lparr>rt_contract := contract, rt_state := fst contract\<rparr>))"

definition new_controller_id :: "(nat \<Rightarrow> pystr) \<Rightarrow> runtime \<Rightarrow> runtime_error + pystr" where
  "new_controller_id ids r =
     (case find (\<lambda>cid. 1 \<le> length cid \<and> length cid \<le> 128 \<and> cid \<notin> set (map fst (rt_controllers r))) (map ids [0..<8]) of
        None \<Rightarrow> Inl ControllerIdUnavailable
      | Some cid \<Rightarrow> Inr cid)"

definition open_begin :: "open_env \<Rightarrow> pystr \<Rightarrow> runtime \<Rightarrow> (runtime_error + unit) \<times> runtime" where
  \<comment> \<open>\<open>open_controller\<close> up to the wait for \<open>bridge.start()\<close>\<close>
  "open_begin env profile r =
     (if rt_state r \<noteq> ''ready'' then (Inl (RuntimeUnavailable ''runtime_not_ready''), r)
      else if int (length (rt_controllers r)) \<ge> rt_max_controllers r then (Inl ControllerLimitReached, r)
      else if \<not> oe_authorizer env profile then (Inl ProfileNotAvailable, r)
      else (case new_method_policy profile ALLOWED_V1_METHODS (Some (oe_authorizer env)) of
              Inl e \<Rightarrow> (Inl (RuntimeValueError e), r)
            | Inr policy \<Rightarrow>
                (case new_controller_id (oe_ids env) r of
                   Inl e \<Rightarrow> (Inl e, r)
                 | Inr cid \<Rightarrow>
                     if \<not> oe_factory_ok env then (Inl BridgeFactoryFailed, r)
                     else (Inr (), r\<lparr>rt_bridges := rt_bridges r + 1,
                             rt_lock := Starting cid \<lparr>hn_profile = profile, hn_bridge = rt_bridges r\<rparr>\<rparr>))))"

definition open_started :: "bool \<Rightarrow> runtime \<Rightarrow> (pystr \<times> controller_handle) option \<times> runtime" where
  \<comment> \<open>\<open>bridge.start()\<close> has returned or raised\<close>
  "open_started started r =
     (case rt_lock r of
        Starting cid handle \<Rightarrow>
          if started
          then (Some (cid, handle),
                r\<lparr>rt_lock := LockFree, rt_controllers := AList.update cid handle (rt_controllers r)\<rparr>)
          else (None, r\<lparr>rt_lock := Aborting, rt_closes := rt_closes r @ [hn_bridge handle]\<rparr>)
      | _ \<Rightarrow> (None, r))"

definition open_aborted :: "runtime \<Rightarrow> (runtime_error + unit) \<times> runtime" where
  \<comment> \<open>the bridge that failed to start is closed; the exception is raised again\<close>
  "open_aborted r =
     (if rt_lock r = Aborting then (Inl BridgeStartFailed, r\<lparr>rt_lock := LockFree\<rparr>) else (Inr (), r))"

definition rt_close_controller :: "pystr \<Rightarrow> runtime \<Rightarrow> bool \<times> runtime" where
  \<comment> \<open>up to the wait for the bridge; that wait changes nothing\<close>
  "rt_close_controller cid r =
     (case map_of (rt_controllers r) cid of
        None \<Rightarrow> (False, r)
      | Some handle \<Rightarrow> (True, r\<lparr>rt_controllers := AList.delete cid (rt_controllers r),
                                rt_closes := rt_closes r @ [hn_bridge handle]\<rparr>))"

definition rt_close :: "runtime \<Rightarrow> runtime" where
  \<comment> \<open>\<open>close\<close> up to the wait for the bridges\<close>
  "rt_close r =
     (if rt_state r = ''stopped'' \<and> rt_controllers r = [] then r
      else r\<lparr>rt_state := ''closing'', rt_closes := rt_closes r @ map (hn_bridge \<circ> snd) (rt_controllers r),
             rt_controllers := [], rt_closers := rt_closers r + 1\<rparr>)"

definition rt_closed :: "runtime \<Rightarrow> runtime" where
  \<comment> \<open>the \<open>finally\<close> clause of a \<open>close\<close>\<close>
  "rt_closed r = (if rt_closers r = 0 then r else r\<lparr>rt_state := ''stopped'', rt_closers := rt_closers r - 1\<rparr>)"

section \<open>The runtime as a state machine\<close>

datatype runtime_event =
    RtStart bool
  | RtOpen open_env pystr
  | RtStarted bool
  | RtAborted
  | RtCloseController pystr
  | RtClose
  | RtClosed

definition with_lock :: "(runtime \<Rightarrow> runtime) \<Rightarrow> runtime \<Rightarrow> runtime" where
  "with_lock f r = (if rt_lock r = LockFree then f r else r)"

fun rt_step :: "runtime_event \<Rightarrow> runtime \<Rightarrow> runtime" where
  "rt_step (RtStart handler_ok) r = with_lock (\<lambda>r. snd (rt_start handler_ok r)) r"
| "rt_step (RtOpen env profile) r = with_lock (\<lambda>r. snd (open_begin env profile r)) r"
| "rt_step (RtStarted started) r = snd (open_started started r)"
| "rt_step RtAborted r = snd (open_aborted r)"
| "rt_step (RtCloseController cid) r = with_lock (\<lambda>r. snd (rt_close_controller cid r)) r"
| "rt_step RtClose r = with_lock rt_close r"
| "rt_step RtClosed r = with_lock rt_closed r"

section \<open>Every bridge has one owner\<close>

definition in_start :: "runtime \<Rightarrow> (pystr \<times> controller_handle) list" where
  "in_start r = (case rt_lock r of Starting cid handle \<Rightarrow> [(cid, handle)] | _ \<Rightarrow> [])"

definition held :: "runtime \<Rightarrow> (pystr \<times> controller_handle) list" where
  \<comment> \<open>registered controllers, and the one that is being started\<close>
  "held r = rt_controllers r @ in_start r"

definition rt_inv :: "runtime \<Rightarrow> bool" where
  "rt_inv r \<longleftrightarrow> 1 \<le> rt_max_controllers r \<and> rt_max_controllers r \<le> 64
     \<and> int (length (held r)) \<le> rt_max_controllers r
     \<and> distinct (map fst (held r)) \<and> list_all (\<lambda>(cid, h). cid \<noteq> [] \<and> length cid \<le> 128 \<and> hn_profile h \<noteq> []) (held r)
     \<and> mset (map (hn_bridge \<circ> snd) (held r)) + mset (rt_closes r) = mset [0..<rt_bridges r]"

lemma new_controller_id_Inr:
  assumes "new_controller_id ids r = Inr cid"
  shows "cid \<noteq> []" "length cid \<le> 128" "cid \<notin> set (map fst (rt_controllers r))"
  using assms by (auto simp: new_controller_id_def find_Some_iff split: option.splits)

lemma alist_update_new: "k \<notin> set (map fst xs) \<Longrightarrow> AList.update k v xs = xs @ [(k, v)]"
  by (induction xs) auto

lemma mset_delete:
  "distinct (map fst xs) \<Longrightarrow> map_of xs k = Some v \<Longrightarrow> mset (map f xs) = add_mset (f (k, v)) (mset (map f (AList.delete k xs)))"
proof (induction xs)
  case (Cons x xs)
  show ?case
  proof (cases "fst x = k")
    case True
    then have "AList.delete k (x # xs) = xs" using Cons.prems(1) by (cases x) (auto simp: AList.delete_eq filter_id_conv image_iff; force)
    moreover have "x = (k, v)" using Cons.prems(2) True by (cases x) simp
    ultimately show ?thesis by simp
  next
    case False
    then show ?thesis using Cons by (cases x) (simp add: AList.delete_eq)
  qed
qed simp

lemma rt_inv_open:
  assumes inv: "rt_inv r" and free: "rt_lock r = LockFree"
  shows "rt_inv (snd (open_begin env profile r))"
proof (cases "\<exists>cid. open_begin env profile r = (Inr (), r\<lparr>rt_bridges := rt_bridges r + 1,
    rt_lock := Starting cid \<lparr>hn_profile = profile, hn_bridge = rt_bridges r\<rparr>\<rparr>) \<and> new_controller_id (oe_ids env) r = Inr cid
    \<and> profile \<noteq> [] \<and> int (length (rt_controllers r)) < rt_max_controllers r")
  case True
  then obtain cid where cid: "snd (open_begin env profile r) = r\<lparr>rt_bridges := rt_bridges r + 1,
      rt_lock := Starting cid \<lparr>hn_profile = profile, hn_bridge = rt_bridges r\<rparr>\<rparr>"
    "new_controller_id (oe_ids env) r = Inr cid" "profile \<noteq> []" "int (length (rt_controllers r)) < rt_max_controllers r" by auto
  show ?thesis using inv free cid(3,4) new_controller_id_Inr [OF cid(2)] unfolding cid(1)
    by (simp add: rt_inv_def held_def in_start_def atLeast0_lessThan_Suc)
next
  case False
  then have "snd (open_begin env profile r) = r" by (auto simp: open_begin_def new_method_policy_def split: sum.splits if_splits)
  then show ?thesis using inv by simp
qed

lemma rt_inv_started: "rt_inv r \<Longrightarrow> rt_inv (snd (open_started started r))"
  by (auto simp: open_started_def rt_inv_def held_def in_start_def alist_update_new split: lock_state.splits)

lemma rt_inv_close_controller:
  assumes inv: "rt_inv r" and free: "rt_lock r = LockFree"
  shows "rt_inv (snd (rt_close_controller cid r))"
proof (cases "map_of (rt_controllers r) cid")
  case (Some h)
  let ?c = "AList.delete cid (rt_controllers r)"
  have d: "distinct (map fst (rt_controllers r))" using inv by (simp add: rt_inv_def held_def)
  have "mset (map (hn_bridge \<circ> snd) (rt_controllers r)) = add_mset (hn_bridge h) (mset (map (hn_bridge \<circ> snd) ?c))"
    using mset_delete [OF d Some, of "hn_bridge \<circ> snd"] by simp
  moreover have "distinct (map fst ?c)" "length ?c \<le> length (rt_controllers r)" "set ?c \<subseteq> set (rt_controllers r)"
    using d by (auto simp: AList.delete_eq distinct_map_filter)
  ultimately show ?thesis using inv free Some
    by (auto simp: rt_close_controller_def rt_inv_def held_def in_start_def list_all_iff)
qed (use inv in \<open>simp add: rt_close_controller_def\<close>)

lemma rt_inv_step: "rt_inv r \<Longrightarrow> rt_inv (rt_step ev r)"
proof (cases ev)
  case RtClose
  assume "rt_inv r"
  then show ?thesis by (auto simp: RtClose with_lock_def rt_close_def rt_inv_def held_def in_start_def ac_simps)
qed (auto simp: with_lock_def rt_inv_open rt_inv_started rt_inv_close_controller,
    auto simp: rt_start_def open_aborted_def rt_closed_def Let_def rt_inv_def held_def in_start_def)

definition fresh_runtime :: "runtime \<Rightarrow> bool" where
  "fresh_runtime r \<longleftrightarrow> (\<exists>n. new_runtime n = Inr r)"

interpretation runtime: invariant_component fresh_runtime rt_step rt_inv
proof
  fix r
  assume "fresh_runtime r"
  then show "rt_inv r" by (auto simp: fresh_runtime_def new_runtime_def rt_inv_def held_def in_start_def split: if_splits)
qed (rule rt_inv_step)

section \<open>Properties\<close>

definition demo_open :: open_env where
  "demo_open = \<lparr>oe_authorizer = (\<lambda>_. True), oe_ids = (\<lambda>i. [97 + i]), oe_factory_ok = True\<rparr>"

definition demo_runtime_run :: "runtime_event list" where
  \<comment> \<open>two controllers are opened, one more fails to start, one is closed\<close>
  "demo_runtime_run = [RtStart True, RtOpen demo_open (lit ''p''), RtStarted True, RtOpen demo_open (lit ''p''), RtStarted True,
     RtOpen demo_open (lit ''p''), RtStarted False, RtAborted, RtCloseController [97]]"

definition demo_runtime :: runtime where
  "demo_runtime = (case new_runtime 8 of Inr r \<Rightarrow> r | Inl _ \<Rightarrow> undefined)"

lemma demo_runtime_new: "new_runtime 8 = Inr demo_runtime"
  by (simp add: demo_runtime_def new_runtime_def)

lemma held_or_closed:
  assumes "mset xs + mset ys = mset [0..<n]"
  shows "(k < n \<longrightarrow> (k \<in> set xs \<longleftrightarrow> k \<notin> set ys)) \<and> distinct xs \<and> distinct ys \<and> set xs \<union> set ys = {..<n}"
proof -
  have m: "mset (xs @ ys) = mset [0..<n]" using assms by simp
  have "distinct (xs @ ys)" using mset_eq_imp_distinct_iff [OF m] by simp
  moreover have "set (xs @ ys) = {..<n}" using mset_eq_setD [OF m] by (simp add: lessThan_atLeast0)
  ultimately show ?thesis by auto
qed

text \<open>
  C11. No Hermes controller is lost. Over every run of a runtime, each bridge that was ever
  made is in exactly one place: it belongs to exactly one registered controller, or to the
  call that is starting it, or its \<open>close\<close> has been called, and that exactly once. There are
  never more than \<open>max_controllers\<close>, which is between 1 and 64, counting the one that is
  starting; the identifiers are distinct, non-empty and at most 128 characters long.
\<close>

theorem runtime_owns_bridges:
  assumes "new_runtime n = Inr r0" and "r = fold rt_step es r0"
  shows "int (length (held r)) \<le> n \<and> 1 \<le> n \<and> n \<le> 64
    \<and> distinct (map (hn_bridge \<circ> snd) (held r)) \<and> distinct (rt_closes r)
    \<and> (k < rt_bridges r \<longrightarrow> (k \<in> (hn_bridge \<circ> snd) ` set (held r) \<longleftrightarrow> k \<notin> set (rt_closes r)))
    \<and> distinct (map fst (rt_controllers r))
    \<and> list_all (\<lambda>(cid, h). cid \<noteq> [] \<and> length cid \<le> 128) (rt_controllers r)"
proof -
  have inv: "rt_inv r" using runtime.inv_reachable [of r0 es] assms by (auto simp: fresh_runtime_def)
  have lim: "rt_max_controllers (rt_step ev x) = rt_max_controllers x" for ev x
    by (cases ev) (auto simp: with_lock_def rt_start_def open_begin_def open_started_def open_aborted_def
        rt_close_controller_def rt_close_def rt_closed_def Let_def split: sum.splits option.splits lock_state.splits)
  have "rt_max_controllers (fold rt_step es x) = rt_max_controllers x" for x
    by (induction es arbitrary: x) (simp_all add: lim)
  then have n: "rt_max_controllers r = n" using assms by (auto simp: new_runtime_def split: if_splits)
  have "mset (map (hn_bridge \<circ> snd) (held r)) + mset (rt_closes r) = mset [0..<rt_bridges r]" using inv by (simp add: rt_inv_def)
  note owner = held_or_closed [OF this, of k]
  have "list_all (\<lambda>(cid, h). cid \<noteq> [] \<and> length cid \<le> 128) (rt_controllers r)"
    using inv by (auto simp: rt_inv_def held_def elim!: list.pred_mono_strong)
  moreover have "distinct (map fst (rt_controllers r))" "int (length (held r)) \<le> n" "1 \<le> n" "n \<le> 64"
    using inv n by (simp_all add: rt_inv_def held_def)
  ultimately show ?thesis using owner by simp
qed

theorem runtime_owns_bridges_witness:
  "map fst (rt_controllers (fold rt_step demo_runtime_run demo_runtime)) = [[98]]
   \<and> rt_closes (fold rt_step demo_runtime_run demo_runtime) = [2, 0]
   \<and> int (length (held (fold rt_step demo_runtime_run demo_runtime))) \<le> 8"
proof -
  have "map fst (rt_controllers (fold rt_step demo_runtime_run demo_runtime)) = [[98]]"
    "rt_closes (fold rt_step demo_runtime_run demo_runtime) = [2, 0]" by code_simp+
  then show ?thesis using runtime_owns_bridges [OF demo_runtime_new refl, of demo_runtime_run] by blast
qed

definition rt_quiet :: "runtime \<Rightarrow> bool" where
  "rt_quiet r \<longleftrightarrow> rt_state r \<in> {''closing'', ''stopped''} \<and> rt_controllers r = [] \<and> rt_lock r = LockFree"

fun no_start :: "runtime_event \<Rightarrow> bool" where
  "no_start (RtStart _) = False"
| "no_start _ = True"

interpretation quiet_runtime: guarded_component rt_quiet rt_step no_start rt_quiet
proof
  fix r ev
  assume "rt_quiet r" "no_start ev"
  then show "rt_quiet (rt_step ev r)"
    by (cases ev) (auto simp: rt_quiet_def with_lock_def open_begin_def open_started_def open_aborted_def
        rt_close_controller_def rt_close_def rt_closed_def)
qed

text \<open>
  Closing the runtime is complete and lasts until it is started again. After \<open>close\<close> has
  got the lock every bridge ever made has been told to close, and in every later state, as
  long as \<open>start\<close> is not called, no controller is registered and a request for one is refused.
\<close>

theorem runtime_close_is_final:
  assumes "new_runtime n = Inr r0" and "rt_lock (fold rt_step es r0) = LockFree"
    and "r = fold rt_step es' (rt_close (fold rt_step es r0))" and "list_all no_start es'"
  shows "rt_controllers r = [] \<and> set (rt_closes r) = {..<rt_bridges r}
    \<and> open_begin env profile r = (Inl (RuntimeUnavailable ''runtime_not_ready''), r)"
proof -
  have inv: "rt_inv (fold rt_step es r0)" using runtime.inv_reachable [of r0 es] assms(1) by (auto simp: fresh_runtime_def)
  have "rt_inv (rt_close (fold rt_step es r0))" using rt_inv_step [OF inv, of RtClose] assms(2) by (simp add: with_lock_def)
  then have inv': "rt_inv r" unfolding assms(3) by (rule runtime.inv_run)
  have "rt_quiet (rt_close (fold rt_step es r0))" using assms(2) by (auto simp: rt_quiet_def rt_close_def)
  then have q: "rt_quiet r" unfolding assms(3) using assms(4) by (intro quiet_runtime.ginv_run) (simp_all add: list_all_iff)
  then have "held r = []" by (simp add: rt_quiet_def held_def in_start_def)
  then have "mset [] + mset (rt_closes r) = mset [0..<rt_bridges r]" using inv' by (simp add: rt_inv_def)
  from held_or_closed [OF this] q show ?thesis by (auto simp: rt_quiet_def open_begin_def)
qed

theorem runtime_close_is_final_witness:
  "rt_bridges (rt_close (fold rt_step demo_runtime_run demo_runtime)) = 3
   \<and> rt_controllers (fold rt_step [RtOpen demo_open (lit ''p''), RtStarted True, RtClosed]
        (rt_close (fold rt_step demo_runtime_run demo_runtime))) = []
   \<and> set (rt_closes (rt_close (fold rt_step demo_runtime_run demo_runtime))) = {..<3}"
proof -
  have c: "rt_lock (fold rt_step demo_runtime_run demo_runtime) = LockFree"
    "rt_bridges (rt_close (fold rt_step demo_runtime_run demo_runtime)) = 3"
    "list_all no_start [RtOpen demo_open (lit ''p''), RtStarted True, RtClosed]" by code_simp+
  from runtime_close_is_final [OF demo_runtime_new c(1) refl c(3)]
    runtime_close_is_final [OF demo_runtime_new c(1), of "rt_close (fold rt_step demo_runtime_run demo_runtime)" "[]"] c(2)
  show ?thesis by auto
qed

text \<open>
  Two overlapping calls of \<open>close\<close>: the second returns while the first still waits for its
  bridges, the runtime is started again and opens a controller, and then the end of the first
  \<open>close\<close> declares the runtime stopped.
\<close>

lemma late_close_stops_new_runtime:
  "let r = fold rt_step [RtStart True, RtOpen demo_open (lit ''p''), RtStarted True, RtClose, RtClose, RtClosed,
        RtStart True, RtOpen demo_open (lit ''p''), RtStarted True, RtClosed] demo_runtime in
   rt_state r = ''stopped'' \<and> length (rt_controllers r) = 1"
  by code_simp

end
