(* ===== verification/Admission_Envelope.thy ===== *)
theory Admission_Envelope
  imports Json_Text Authorization Method_Policy Session_Lease
begin

text \<open>
  The authorization envelope a device sends as the first encrypted record of a channel: the
  writer \<open>controller_auth_payload\<close> and the reader \<open>_parse_controller_auth\<close> of
  \<^verbatim>\<open>admission.py\<close>.
\<close>

section \<open>Definitions\<close>

definition AUTH_ENVELOPE_TYPE :: pystr where "AUTH_ENVELOPE_TYPE = lit ''controller.open''"
definition MAX_AUTH_ENVELOPE_BYTES :: int where "MAX_AUTH_ENVELOPE_BYTES = 512"
definition MAX_CHANNEL_CHARS :: nat where "MAX_CHANNEL_CHARS = 64"
definition DEFAULT_CHANNEL :: pystr where "DEFAULT_CHANNEL = []"

definition channel_char :: "nat \<Rightarrow> bool" where
  "channel_char c \<longleftrightarrow> is_alnum_ascii c \<or> c = 95 \<or> c = 45"

definition channel_text :: "pystr \<Rightarrow> bool" where
  \<comment> \<open>\<open>_CHANNEL_RE.fullmatch\<close>\<close>
  "channel_text t \<longleftrightarrow> t \<noteq> [] \<and> length t \<le> 64 \<and> list_all channel_char t"

definition validate_channel :: "json \<Rightarrow> string + pystr" where
  "validate_channel v =
     (case v of
        JNull \<Rightarrow> Inr DEFAULT_CHANNEL
      | JStr t \<Rightarrow> if channel_text t then Inr t else Inl ''invalid lease channel''
      | _ \<Rightarrow> Inl ''invalid lease channel'')"

record auth_envelope =
  en_device_id :: pystr
  en_profile :: pystr
  en_resume_cursor :: "int option"
  en_recovery_version :: "int option"
  en_channel :: pystr
  en_device_name :: "pystr option"

text \<open>The optional members, each with its check, in the order of the code.\<close>

definition opt_member :: "string \<Rightarrow> 'a option \<Rightarrow> ('a \<Rightarrow> string + json) \<Rightarrow> string + dict" where
  "opt_member key v check =
     (case v of None \<Rightarrow> Inr [] | Some x \<Rightarrow> res_bind (check x) (\<lambda>j. Inr [(lit key, j)]))"

definition controller_auth_payload ::
  "pystr \<Rightarrow> pystr \<Rightarrow> int option \<Rightarrow> int option \<Rightarrow> pystr option \<Rightarrow> pystr option \<Rightarrow> string + bytes" where
  "controller_auth_payload device_id profile resume_cursor recovery_version channel device_name =
     (if \<not> (1 \<le> length device_id \<and> length device_id \<le> 128) then Inl ''invalid device identifier''
      else
        res_bind (validate_profile_id profile) (\<lambda>_.
        res_bind (opt_member ''channel'' channel (\<lambda>t. res_bind (validate_channel (JStr t)) (\<lambda>t. Inr (JStr t)))) (\<lambda>m1.
        res_bind (opt_member ''device_name'' device_name (\<lambda>t.
          if 1 \<le> length t \<and> length t \<le> MAX_DEVICE_NAME_CHARS then Inr (JStr t) else Inl ''invalid device name'')) (\<lambda>m2.
        res_bind (opt_member ''resume_cursor'' resume_cursor (\<lambda>n.
          if 0 \<le> n \<and> n \<le> MAX_CURSOR then Inr (JInt n) else Inl ''invalid resume cursor'')) (\<lambda>m3.
        res_bind (opt_member ''recovery_version'' recovery_version (\<lambda>n.
          if n = 1 then Inr (JInt n) else Inl ''invalid recovery version'')) (\<lambda>m4.
        Inr (ascii_encode (dumps_ascii_compact (sort_keys (JObj
          ([(lit ''type'', JStr AUTH_ENVELOPE_TYPE), (lit ''device_id'', JStr device_id), (lit ''profile'', JStr profile)]
           @ m1 @ m2 @ m3 @ m4)))))))))))"

definition ENVELOPE_FIELDS :: "pystr list" where
  "ENVELOPE_FIELDS = map lit [''type'', ''device_id'', ''profile'', ''resume_cursor'', ''recovery_version'', ''channel'', ''device_name'']"

text \<open>The readers of the optional members; \<open>None\<close> is the rejection.\<close>

definition read_cursor :: "dict \<Rightarrow> int option option" where
  "read_cursor d =
     (case map_of d (lit ''resume_cursor'') of
        None \<Rightarrow> Some None
      | Some (JInt n) \<Rightarrow> if 0 \<le> n \<and> n \<le> MAX_CURSOR then Some (Some n) else None
      | Some _ \<Rightarrow> None)"

definition read_version :: "dict \<Rightarrow> int option option" where
  "read_version d =
     (case map_of d (lit ''recovery_version'') of
        None \<Rightarrow> Some None
      | Some (JInt n) \<Rightarrow> if n = 1 then Some (Some n) else None
      | Some _ \<Rightarrow> None)"

definition read_channel :: "dict \<Rightarrow> pystr option" where
  "read_channel d =
     (case map_of d (lit ''channel'') of
        None \<Rightarrow> Some DEFAULT_CHANNEL
      | Some v \<Rightarrow> (case validate_channel v of
                     Inl _ \<Rightarrow> None
                   | Inr t \<Rightarrow> if t = DEFAULT_CHANNEL then None else Some t))"

definition read_name :: "dict \<Rightarrow> pystr option option" where
  "read_name d =
     (case map_of d (lit ''device_name'') of
        None \<Rightarrow> Some None
      | Some (JStr t) \<Rightarrow> if length t > 4 * MAX_DEVICE_NAME_CHARS then None else Some (Some t)
      | Some _ \<Rightarrow> None)"

definition read_envelope :: "dict \<Rightarrow> auth_envelope option" where
  "read_envelope d =
     (if \<not> (jhas d ''type'' \<and> jhas d ''device_id'' \<and> jhas d ''profile'') then None
      else if \<not> list_all (\<lambda>(k, _). k \<in> set ENVELOPE_FIELDS) d then None
      else if jget d ''type'' \<noteq> JStr AUTH_ENVELOPE_TYPE then None
      else (case (jget d ''device_id'', jget d ''profile'') of
              (JStr device_id, JStr profile) \<Rightarrow>
                if \<not> (1 \<le> length device_id \<and> length device_id \<le> 128) \<or> \<not> is_ok (validate_profile_id profile) then None
                else (case (read_cursor d, read_version d, read_channel d, read_name d) of
                        (Some cursor, Some version, Some channel, Some name) \<Rightarrow>
                          Some \<lparr>en_device_id = device_id, en_profile = profile, en_resume_cursor = cursor,
                                en_recovery_version = version, en_channel = channel, en_device_name = name\<rparr>
                      | _ \<Rightarrow> None)
            | _ \<Rightarrow> None))"

definition parse_controller_auth :: "nat \<Rightarrow> bytes \<Rightarrow> auth_envelope option" where
  \<comment> \<open>every rejection has the one reason \<open>invalid_auth_envelope\<close>\<close>
  "parse_controller_auth recursion_limit plaintext =
     (if int (length plaintext) > MAX_AUTH_ENVELOPE_BYTES then None
      else (case utf8_decode plaintext of
              None \<Rightarrow> None
            | Some t \<Rightarrow> (case loads_strict recursion_limit t of
                           Some (JObj d) \<Rightarrow> read_envelope d
                         | _ \<Rightarrow> None)))"

lemmas envelope_defs = read_cursor_def read_version_def read_channel_def read_name_def AUTH_ENVELOPE_TYPE_def
  DEFAULT_CHANNEL_def ENVELOPE_FIELDS_def MAX_DEVICE_NAME_CHARS_def

section \<open>What an accepted envelope is\<close>

definition envelope_ok :: "auth_envelope \<Rightarrow> bool" where
  "envelope_ok e \<longleftrightarrow> 1 \<le> length (en_device_id e) \<and> length (en_device_id e) \<le> 128
     \<and> validate_profile_id (en_profile e) = Inr (en_profile e)
     \<and> (case en_resume_cursor e of None \<Rightarrow> True | Some n \<Rightarrow> 0 \<le> n \<and> n \<le> MAX_CURSOR)
     \<and> (en_recovery_version e = None \<or> en_recovery_version e = Some 1)
     \<and> (en_channel e = [] \<or> channel_text (en_channel e))
     \<and> (case en_device_name e of None \<Rightarrow> True | Some t \<Rightarrow> length t \<le> 256)"

lemma validate_profile_Inr: "is_ok (validate_profile_id p) \<Longrightarrow> validate_profile_id p = Inr p"
  by (auto simp: validate_profile_id_def split: list.splits if_splits)

lemma reader_ok:
  "read_cursor d = Some c \<Longrightarrow> case c of None \<Rightarrow> True | Some n \<Rightarrow> 0 \<le> n \<and> n \<le> MAX_CURSOR"
  "read_version d = Some v \<Longrightarrow> v = None \<or> v = Some 1"
  "read_channel d = Some ch \<Longrightarrow> ch = [] \<or> channel_text ch"
  "read_name d = Some nm \<Longrightarrow> case nm of None \<Rightarrow> True | Some t \<Rightarrow> length t \<le> 256"
  by (auto simp: read_cursor_def read_version_def read_channel_def read_name_def validate_channel_def
      DEFAULT_CHANNEL_def MAX_DEVICE_NAME_CHARS_def split: option.splits json.splits if_splits)

lemma read_envelope_Some:
  assumes "read_envelope d = Some e"
  shows "jget d ''device_id'' = JStr (en_device_id e)" "jget d ''profile'' = JStr (en_profile e)"
    "1 \<le> length (en_device_id e)" "length (en_device_id e) \<le> 128" "is_ok (validate_profile_id (en_profile e))"
    "read_cursor d = Some (en_resume_cursor e)" "read_version d = Some (en_recovery_version e)"
    "read_channel d = Some (en_channel e)" "read_name d = Some (en_device_name e)"
proof -
  from assms obtain i p where ip: "jget d ''device_id'' = JStr i" "jget d ''profile'' = JStr p"
    by (auto simp: read_envelope_def split: if_splits json.splits)
  from assms ip obtain c v ch nm where r: "read_cursor d = Some c" "read_version d = Some v" "read_channel d = Some ch" "read_name d = Some nm"
    by (auto simp: read_envelope_def split: if_splits option.splits)
  show "jget d ''device_id'' = JStr (en_device_id e)" "jget d ''profile'' = JStr (en_profile e)"
    "1 \<le> length (en_device_id e)" "length (en_device_id e) \<le> 128" "is_ok (validate_profile_id (en_profile e))"
    "read_cursor d = Some (en_resume_cursor e)" "read_version d = Some (en_recovery_version e)"
    "read_channel d = Some (en_channel e)" "read_name d = Some (en_device_name e)"
    using assms ip r by (auto simp: read_envelope_def split: if_splits)
qed

lemma read_envelope_ok: "read_envelope d = Some e \<Longrightarrow> envelope_ok e"
  using read_envelope_Some [of d e] reader_ok [of d] by (simp add: envelope_ok_def validate_profile_Inr)

lemma parse_controller_auth_ok: "parse_controller_auth limit raw = Some e \<Longrightarrow> envelope_ok e"
  by (auto simp: parse_controller_auth_def split: if_splits option.splits json.splits dest: read_envelope_ok)

section \<open>Round trip\<close>

lemma map_of_sort_key:
  assumes d: "distinct (map fst xs)"
  shows "map_of (sort_key fst xs) = map_of (xs :: (pystr \<times> 'v) list)"
proof -
  have "distinct (map fst (sort_key fst xs))" using d by (simp add: distinct_map)
  then show ?thesis using d by (simp add: map_of_inject_set)
qed

definition opt_str :: "string \<Rightarrow> pystr option \<Rightarrow> dict" where
  "opt_str key v = (case v of None \<Rightarrow> [] | Some t \<Rightarrow> [(lit key, JStr t)])"

definition opt_int :: "string \<Rightarrow> int option \<Rightarrow> dict" where
  "opt_int key v = (case v of None \<Rightarrow> [] | Some n \<Rightarrow> [(lit key, JInt n)])"

definition envelope_dict :: "pystr \<Rightarrow> pystr \<Rightarrow> int option \<Rightarrow> int option \<Rightarrow> pystr option \<Rightarrow> pystr option \<Rightarrow> dict" where
  "envelope_dict device_id profile cursor version channel name =
     [(lit ''type'', JStr AUTH_ENVELOPE_TYPE), (lit ''device_id'', JStr device_id), (lit ''profile'', JStr profile)]
     @ opt_str ''channel'' channel @ opt_str ''device_name'' name
     @ opt_int ''resume_cursor'' cursor @ opt_int ''recovery_version'' version"

lemma payload_Inr:
  assumes "controller_auth_payload i p cursor version channel name = Inr raw"
  shows "raw = ascii_encode (dumps_ascii_compact (sort_keys (JObj (envelope_dict i p cursor version channel name))))"
    "1 \<le> length i" "length i \<le> 128" "is_ok (validate_profile_id p)"
    "\<And>c. channel = Some c \<Longrightarrow> channel_text c" "\<And>t. name = Some t \<Longrightarrow> 1 \<le> length t \<and> length t \<le> 64"
    "\<And>n. cursor = Some n \<Longrightarrow> 0 \<le> n \<and> n \<le> MAX_CURSOR" "\<And>n. version = Some n \<Longrightarrow> n = 1"
proof -
  let ?m1 = "opt_member ''channel'' channel (\<lambda>t. res_bind (validate_channel (JStr t)) (\<lambda>t. Inr (JStr t)))"
  have m1: "?m1 = Inr m \<Longrightarrow> m = opt_str ''channel'' channel \<and> (\<forall>c. channel = Some c \<longrightarrow> channel_text c)" for m
    by (auto simp: opt_member_def opt_str_def validate_channel_def split: option.splits if_splits)
  let ?m2 = "opt_member ''device_name'' name (\<lambda>t. if 1 \<le> length t \<and> length t \<le> MAX_DEVICE_NAME_CHARS then Inr (JStr t) else Inl ''invalid device name'')"
  have m2: "?m2 = Inr m \<Longrightarrow> m = opt_str ''device_name'' name \<and> (\<forall>t. name = Some t \<longrightarrow> 1 \<le> length t \<and> length t \<le> 64)" for m
    by (auto simp: opt_member_def opt_str_def MAX_DEVICE_NAME_CHARS_def split: option.splits if_splits)
  let ?m3 = "opt_member ''resume_cursor'' cursor (\<lambda>n. if 0 \<le> n \<and> n \<le> MAX_CURSOR then Inr (JInt n) else Inl ''invalid resume cursor'')"
  have m3: "?m3 = Inr m \<Longrightarrow> m = opt_int ''resume_cursor'' cursor \<and> (\<forall>n. cursor = Some n \<longrightarrow> 0 \<le> n \<and> n \<le> MAX_CURSOR)" for m
    by (auto simp: opt_member_def opt_int_def split: option.splits if_splits)
  let ?m4 = "opt_member ''recovery_version'' version (\<lambda>n. if n = 1 then Inr (JInt n) else Inl ''invalid recovery version'')"
  have m4: "?m4 = Inr m \<Longrightarrow> m = opt_int ''recovery_version'' version \<and> (\<forall>n. version = Some n \<longrightarrow> n = 1)" for m
    by (auto simp: opt_member_def opt_int_def split: option.splits if_splits)
  from assms obtain p' a1 a2 a3 a4 where a: "1 \<le> length i" "length i \<le> 128" "validate_profile_id p = Inr p'"
    "?m1 = Inr a1" "?m2 = Inr a2" "?m3 = Inr a3" "?m4 = Inr a4"
    "raw = ascii_encode (dumps_ascii_compact (sort_keys (JObj
       ([(lit ''type'', JStr AUTH_ENVELOPE_TYPE), (lit ''device_id'', JStr i), (lit ''profile'', JStr p)] @ a1 @ a2 @ a3 @ a4))))"
    unfolding controller_auth_payload_def by (auto split: if_splits simp del: length_greater_0_conv)
  show "raw = ascii_encode (dumps_ascii_compact (sort_keys (JObj (envelope_dict i p cursor version channel name))))"
    using a(8) m1 [OF a(4)] m2 [OF a(5)] m3 [OF a(6)] m4 [OF a(7)] by (simp add: envelope_dict_def)
  show "1 \<le> length i" "length i \<le> 128" "is_ok (validate_profile_id p)" using a by simp_all
  show "\<And>c. channel = Some c \<Longrightarrow> channel_text c" "\<And>t. name = Some t \<Longrightarrow> 1 \<le> length t \<and> length t \<le> 64"
    "\<And>n. cursor = Some n \<Longrightarrow> 0 \<le> n \<and> n \<le> MAX_CURSOR" "\<And>n. version = Some n \<Longrightarrow> n = 1"
    using m1 [OF a(4)] m2 [OF a(5)] m3 [OF a(6)] m4 [OF a(7)] by blast+
qed

text \<open>The written members are plain JSON, and reading them back finds each one.\<close>

lemma envelope_dict_keys: "distinct (map fst (envelope_dict i p cursor version channel name))"
  by (simp add: envelope_dict_def opt_str_def opt_int_def split: option.splits)

lemma envelope_dict_fields: "list_all (\<lambda>(k, v). k \<in> set ENVELOPE_FIELDS) (envelope_dict i p cursor version channel name)"
  by (simp add: envelope_dict_def opt_str_def opt_int_def ENVELOPE_FIELDS_def split: option.splits)

lemma envelope_dict_get:
  "map_of (envelope_dict i p cursor version channel name) (lit k) =
     (if k = ''type'' then Some (JStr AUTH_ENVELOPE_TYPE) else if k = ''device_id'' then Some (JStr i)
      else if k = ''profile'' then Some (JStr p) else if k = ''channel'' then map_option JStr channel
      else if k = ''device_name'' then map_option JStr name else if k = ''resume_cursor'' then map_option JInt cursor
      else if k = ''recovery_version'' then map_option JInt version else None)"
  by (auto simp: envelope_dict_def opt_str_def opt_int_def split: option.splits)

lemma cursor_plain: "0 \<le> n \<Longrightarrow> n \<le> MAX_CURSOR \<Longrightarrow> plain (JInt n)"
proof -
  assume "0 \<le> n" "n \<le> MAX_CURSOR"
  then have "nat \<bar>n\<bar> < 10 ^ Suc 18" by (simp add: MAX_CURSOR_def)
  from length_nat_digits [OF this] show ?thesis by (simp add: INT_MAX_STR_DIGITS_def)
qed

lemma envelope_dict_json:
  assumes "ascii_ok i" "ascii_ok p" "\<And>c. channel = Some c \<Longrightarrow> ascii_ok c" "\<And>t. name = Some t \<Longrightarrow> ascii_ok t"
    and "\<And>n. cursor = Some n \<Longrightarrow> 0 \<le> n \<and> n \<le> MAX_CURSOR" "\<And>n. version = Some n \<Longrightarrow> n = 1"
  shows "(k, v) \<in> set (envelope_dict i p cursor version channel name) \<Longrightarrow>
    plain v \<and> ascii_ok k \<and> clean_json ascii_ok v \<and> jdepth v = 0 \<and> sort_keys v = v"
proof -
  have one: "plain (JInt 1)" by (rule cursor_plain) (simp_all add: MAX_CURSOR_def)
  assume "(k, v) \<in> set (envelope_dict i p cursor version channel name)"
  then show ?thesis using assms cursor_plain one
    by (auto simp: envelope_dict_def opt_str_def opt_int_def AUTH_ENVELOPE_TYPE_def ascii_ok_lit simp del: plain.simps(3) split: option.splits)
qed

lemma channel_text_ascii: "channel_text c \<Longrightarrow> ascii_ok c"
  by (rule small_ascii_ok) (auto simp: channel_text_def channel_char_def list_all_iff is_alnum_ascii_def is_digit_def is_upper_def is_lower_def)

lemma profile_ascii: "is_ok (validate_profile_id p) \<Longrightarrow> ascii_ok p"
  by (rule small_ascii_ok) (auto simp: validate_profile_id_def list_all_iff profile_char_def is_digit_def is_lower_def
      split: list.splits if_splits)

lemma read_written:
  assumes get: "map_of d = map_of (envelope_dict i p cursor version channel name)" and fields: "list_all (\<lambda>(k, v). k \<in> set ENVELOPE_FIELDS) d"
    and ok: "1 \<le> length i" "length i \<le> 128" "is_ok (validate_profile_id p)"
      "\<And>c. channel = Some c \<Longrightarrow> channel_text c" "\<And>t. name = Some t \<Longrightarrow> length t \<le> 64"
      "\<And>n. cursor = Some n \<Longrightarrow> 0 \<le> n \<and> n \<le> MAX_CURSOR" "\<And>n. version = Some n \<Longrightarrow> n = 1"
  shows "read_envelope d = Some \<lparr>en_device_id = i, en_profile = p, en_resume_cursor = cursor, en_recovery_version = version,
    en_channel = (case channel of None \<Rightarrow> [] | Some c \<Rightarrow> c), en_device_name = name\<rparr>"
proof -
  have r: "read_cursor d = Some cursor" "read_version d = Some version"
    using ok(6,7) by (auto simp: read_cursor_def read_version_def get envelope_dict_get split: option.splits)
  have "read_channel d = Some (case channel of None \<Rightarrow> [] | Some c \<Rightarrow> c)"
    using ok(4) by (auto simp: read_channel_def get envelope_dict_get validate_channel_def DEFAULT_CHANNEL_def channel_text_def split: option.splits)
  moreover have "read_name d = Some name"
    using ok(5) by (fastforce simp: read_name_def get envelope_dict_get MAX_DEVICE_NAME_CHARS_def split: option.splits)
  moreover have "jget d ''type'' = JStr AUTH_ENVELOPE_TYPE" "jget d ''device_id'' = JStr i" "jget d ''profile'' = JStr p"
    "jhas d ''type''" "jhas d ''device_id''" "jhas d ''profile''"
    by (simp_all add: jget_def jhas_def get envelope_dict_get)
  ultimately show ?thesis using r fields ok(1-3) by (simp add: read_envelope_def)
qed

section \<open>Properties\<close>

text \<open>
  The host reads what a device writes. An envelope that the writer produces and that is
  within the limit of 512 bytes is read back with exactly the given device, profile, cursor,
  version, channel (the default channel when none is given) and name, whatever characters
  the identifier and the name have, as long as no surrogates in them happen to form a pair.
\<close>

theorem envelope_roundtrip:
  assumes "controller_auth_payload i p cursor version channel name = Inr raw"
    and "int (length raw) \<le> 512" and "ascii_ok i" and "\<forall>t. name = Some t \<longrightarrow> ascii_ok t" and "0 < limit"
  shows "parse_controller_auth limit raw = Some \<lparr>en_device_id = i, en_profile = p, en_resume_cursor = cursor,
    en_recovery_version = version, en_channel = (case channel of None \<Rightarrow> [] | Some c \<Rightarrow> c), en_device_name = name\<rparr>"
proof -
  note P = payload_Inr [OF assms(1)]
  let ?kvs = "envelope_dict i p cursor version channel name"
  let ?d = "sort_key fst ?kvs"
  note J = envelope_dict_json [OF assms(3) profile_ascii [OF P(4)] channel_text_ascii [OF P(5)] _ P(7,8), of channel name]
  have J: "plain v \<and> ascii_ok k \<and> clean_json ascii_ok v \<and> jdepth v = 0 \<and> sort_keys v = v" if "(k, v) \<in> set ?kvs" for k v
    by (rule J [OF _ _ _ _ that]) (use assms(4) in auto)
  have "map (map_prod id sort_keys) ?kvs = ?kvs" using J by (intro map_idI) auto
  then have sorted: "sort_keys (JObj ?kvs) = JObj ?d" by simp
  have "distinct (map fst ?d)" using envelope_dict_keys by (simp add: distinct_map)
  then have v: "plain (JObj ?d)" "clean_json ascii_ok (JObj ?d)" "jdepth (JObj ?d) \<le> Suc 0"
    unfolding plain_member clean_member jdepth_member using J by fastforce+
  have small: "\<forall>c \<in> set (dumps_ascii_compact (JObj ?d)). c < 128" by (rule ascii_compact_small [OF v(1)])
  have "loads_strict limit (dumps_ascii_compact (JObj ?d)) = Some (JObj ?d)"
    by (rule loads_strict_ascii_compact [OF v(1,2)]) (use v(3) assms(5) in linarith)
  moreover have "read_envelope ?d = Some \<lparr>en_device_id = i, en_profile = p, en_resume_cursor = cursor,
      en_recovery_version = version, en_channel = (case channel of None \<Rightarrow> [] | Some c \<Rightarrow> c), en_device_name = name\<rparr>"
    by (rule read_written [OF map_of_sort_key [OF envelope_dict_keys] _ P(2-5) _ P(7,8)])
      (use envelope_dict_fields P(6) in \<open>auto simp: list_all_iff\<close>)
  ultimately show ?thesis using P(1) sorted assms(2) utf8_decode_ascii [OF small]
    by (simp add: parse_controller_auth_def MAX_AUTH_ENVELOPE_BYTES_def)
qed

definition demo_payload :: bytes where
  "demo_payload = (case controller_auth_payload (lit ''dev-1'') (lit ''default'') (Some 7) (Some 1) (Some (lit ''a'')) (Some (lit ''Ann'')) of
     Inr raw \<Rightarrow> raw | Inl _ \<Rightarrow> [])"

theorem envelope_roundtrip_witness:
  "length demo_payload = 139 \<and> parse_controller_auth 100 demo_payload
     = Some \<lparr>en_device_id = lit ''dev-1'', en_profile = lit ''default'', en_resume_cursor = Some 7,
         en_recovery_version = Some 1, en_channel = lit ''a'', en_device_name = Some (lit ''Ann'')\<rparr>"
proof -
  have p: "controller_auth_payload (lit ''dev-1'') (lit ''default'') (Some 7) (Some 1) (Some (lit ''a'')) (Some (lit ''Ann''))
      = Inr demo_payload" by code_simp
  moreover have "length demo_payload = 139" by code_simp
  ultimately show ?thesis using envelope_roundtrip [OF p, of 100] ascii_ok_lit by simp
qed

text \<open>
  C31. The type of an accepted envelope. Whatever bytes a peer sends, the reader either rejects
  them or returns a device identifier of 1 to 128 characters, a valid profile identifier, a
  cursor in the range of a 64-bit signed integer, a recovery version that is absent or 1,
  a channel that is the default one or matches the channel pattern, and a name of at most
  256 characters; more than 512 bytes are always rejected.
\<close>

theorem envelope_type:
  "case parse_controller_auth limit raw of
     None \<Rightarrow> True
   | Some e \<Rightarrow> length raw \<le> 512 \<and> length (en_device_id e) \<in> {1..128}
       \<and> is_ok (validate_profile_id (en_profile e))
       \<and> (case en_resume_cursor e of None \<Rightarrow> True | Some n \<Rightarrow> n \<in> {0..<2 ^ 63})
       \<and> en_recovery_version e \<in> {None, Some 1}
       \<and> length (en_channel e) \<le> 64 \<and> list_all channel_char (en_channel e)
       \<and> (case en_device_name e of None \<Rightarrow> True | Some t \<Rightarrow> length t \<le> 256)"
proof (cases "parse_controller_auth limit raw")
  case (Some e)
  then have "envelope_ok e" "length raw \<le> 512"
    by (auto simp: parse_controller_auth_ok) (auto simp: parse_controller_auth_def MAX_AUTH_ENVELOPE_BYTES_def split: if_splits)
  then show ?thesis using Some
    by (auto simp: envelope_ok_def channel_text_def MAX_CURSOR_def split: option.splits)
qed simp

text \<open>
  A name of 64 characters outside the basic plane is written as 64 escaped pairs, 768 bytes,
  which the reader's limit rejects.
\<close>

lemma long_name_is_unreadable:
  "case controller_auth_payload (lit ''dev-1'') (lit ''default'') None None None (Some (replicate 64 0x1F600)) of
     Inl _ \<Rightarrow> False
   | Inr raw \<Rightarrow> parse_controller_auth limit raw = None"
proof -
  have "(case controller_auth_payload (lit ''dev-1'') (lit ''default'') None None None (Some (replicate 64 0x1F600)) of
     Inl _ \<Rightarrow> 0 | Inr raw \<Rightarrow> int (length raw)) = 851" by code_simp
  then show ?thesis
    by (auto simp: parse_controller_auth_def MAX_AUTH_ENVELOPE_BYTES_def split: sum.splits)
qed

end
