(* ===== verification/Admission.thy ===== *)
theory Admission
  imports Admission_Envelope Relay_Runtime Lease_Manager Controller_Transport Authorization_Props
begin

text \<open>
  The admission of devices, \<open>DeviceAdmissionService\<close> of \<^verbatim>\<open>admission.py\<close>, on top of the
  authorization repository, the Noise channels, the lease manager, the recovery store and
  the runtime. \<open>open_controller\<close> runs under one lock and is split at its awaits: the field
  \<open>sv_admission\<close> says who holds the lock and what it waits for. Code between two awaits is one
  step, so whatever else happens in the plugin happens between the steps. What the rest of
  the world answers in a step (clocks, random draws, the profile authorizer, files) is in its
  environment. Push bridge, metrics and journal are not part of the model; their calls
  are guarded by \<open>suppress(Exception)\<close>.
\<close>

section \<open>State\<close>

record admit_env =
  ad_limit :: nat                    \<comment> \<open>recursion limit of the JSON reader\<close>
  ad_auth :: auth_env
  ad_auth_again :: auth_env          \<comment> \<open>for the second check\<close>
  ad_profile :: "bool option"        \<comment> \<open>answer of \<open>profile_authorizer\<close>; \<open>None\<close>: it raises\<close>
  ad_profile_again :: "bool option"
  ad_attach :: attach_env
  ad_persist :: "nat \<Rightarrow> put_env"
  ad_store_file :: "bytes option"    \<comment> \<open>content of \<open>lease-recovery.json\<close>\<close>
  ad_store_now :: int
  ad_open :: open_env
  ad_lease_id :: pystr
  ad_websocket :: vws                \<comment> \<open>the controller's socket as the handler has left it\<close>

record lease_info =
  li_epoch :: int                    \<comment> \<open>\<open>lease.authorization_epoch\<close>\<close>
  li_controller :: pystr             \<comment> \<open>\<open>lease.controller_id\<close>\<close>
  li_key :: bytes                    \<comment> \<open>the key the lease's dispatcher is bound to\<close>
  li_recovery :: bool                \<comment> \<open>the projection has the store\<close>

record admission_request =
  rq_channel :: nat
  rq_key :: bytes                    \<comment> \<open>the key that opened the request\<close>
  rq_envelope :: auth_envelope
  rq_epoch :: int

datatype admission_wait =
    WaitStale "nat list"                   \<comment> \<open>leases of an old epoch\<close>
  | WaitSuperseded nat bool bool           \<comment> \<open>the retained lease; \<open>recovery\<close> and \<open>recovery_reset\<close>\<close>
  | WaitController projection bool bool    \<comment> \<open>\<open>runtime.open_controller\<close>\<close>
  | WaitAborted
  | WaitCleanup nat                        \<comment> \<open>a lease that could not be registered or attached\<close>
  | WaitDenied "nat list" string           \<comment> \<open>the second check failed\<close>

record admitted =
  am_device_id :: pystr
  am_channel :: nat
  am_lease :: nat
  am_attachment :: nat
  am_lease_channel :: pystr

datatype outcome = Rejected nat string | CancelledAdmission nat | Admitted admitted

record 'c service =
  sv_auth :: auth_state
  sv_runtime :: runtime
  sv_leases :: manager
  sv_info :: "lease_info list"       \<comment> \<open>parallel to the manager's lease objects\<close>
  sv_limits :: lease_limits
  sv_store :: store_ref
  sv_channels :: "'c noise_channel list"   \<comment> \<open>every host channel made\<close>
  sv_admission :: "(admission_request \<times> admission_wait) option"
  sv_revoking :: "(pystr \<times> nat list) list"  \<comment> \<open>calls of \<open>revoke_device\<close> that wait\<close>
  sv_outcomes :: "outcome list"      \<comment> \<open>results of \<open>open_controller\<close>, in order\<close>
  sv_closed :: bool

definition new_service :: "auth_state \<Rightarrow> runtime \<Rightarrow> lease_limits \<Rightarrow> string + 'c service" where
  \<comment> \<open>with the default lease manager\<close>
  "new_service st rt limits =
     res_bind (new_manager (rt_max_controllers rt)) (\<lambda>m.
       Inr \<lparr>sv_auth = st, sv_runtime = rt, sv_leases = m, sv_info = [], sv_limits = limits, sv_store = None,
            sv_channels = [], sv_admission = None, sv_revoking = [], sv_outcomes = [], sv_closed = False\<rparr>)"

section \<open>Small helpers\<close>

definition put_channel :: "nat \<Rightarrow> 'c noise_channel \<Rightarrow> 'c service \<Rightarrow> 'c service" where
  "put_channel c ch s = s\<lparr>sv_channels := (sv_channels s)[c := ch]\<rparr>"

definition reject :: "nat \<Rightarrow> string \<Rightarrow> 'c service \<Rightarrow> 'c service" where
  \<comment> \<open>\<open>channel.close()\<close>, and the exception leaves \<open>open_controller\<close>\<close>
  "reject c reason s =
     (put_channel c (ch_close (sv_channels s ! c)) s)
       \<lparr>sv_admission := None, sv_outcomes := sv_outcomes s @ [Rejected c reason]\<rparr>"

definition cancel_admission :: "nat \<Rightarrow> 'c service \<Rightarrow> 'c service" where
  "cancel_admission c s =
     (put_channel c (ch_close (sv_channels s ! c)) s)
       \<lparr>sv_admission := None, sv_outcomes := sv_outcomes s @ [CancelledAdmission c]\<rparr>"

definition wait_for :: "admission_request \<Rightarrow> admission_wait \<Rightarrow> 'c service \<Rightarrow> 'c service" where
  "wait_for rq w s = s\<lparr>sv_admission := Some (rq, w)\<rparr>"

definition lease_store :: "nat \<Rightarrow> 'c service \<Rightarrow> store_ref" where
  \<comment> \<open>\<open>lease.recovery_projection.store\<close>\<close>
  "lease_store k s = (if li_recovery (sv_info s ! k) then sv_store s else None)"

definition put_lease :: "nat \<Rightarrow> lease \<Rightarrow> store_ref \<Rightarrow> 'c service \<Rightarrow> 'c service" where
  "put_lease k l store s =
     s\<lparr>sv_leases := upd_lease k l (sv_leases s),
       sv_store := (if li_recovery (sv_info s ! k) then store else sv_store s)\<rparr>"

definition lease_done :: "'c service \<Rightarrow> nat \<Rightarrow> bool" where
  "lease_done s k \<longleftrightarrow> ls_finished (the_lease (sv_leases s) k)"

definition lease_failed :: "'c service \<Rightarrow> nat \<Rightarrow> bool" where
  \<comment> \<open>\<open>lease.release\<close> raises \<open>controller_release_failed\<close>\<close>
  "lease_failed s k \<longleftrightarrow> \<not> ls_release_succeeded (the_lease (sv_leases s) k)"

definition device_epoch :: "auth_env \<Rightarrow> pystr \<Rightarrow> auth_state \<Rightarrow> (string + int) \<times> auth_state" where
  \<comment> \<open>\<open>_epoch\<close>, with the reason that is reported when it raises\<close>
  "device_epoch env device_id st =
     (case list_devices env st of
        (Inl _, st1) \<Rightarrow> (Inl ''runtime_unavailable'', st1)
      | (Inr ds, st1) \<Rightarrow>
          (case find (\<lambda>d. ds_device_id d = device_id \<and> ds_status d = DAuthorized) ds of
             None \<Rightarrow> (Inl ''device_not_authorized'', st1)
           | Some d \<Rightarrow> (Inr (ds_epoch d), st1)))"

definition service_store :: "admit_env \<Rightarrow> 'c service \<Rightarrow> (recovery_error + unit) \<times> 'c service" where
  \<comment> \<open>\<open>_store\<close>\<close>
  "service_store env s =
     (case sv_store s of
        Some _ \<Rightarrow> (Inr (), s)
      | None \<Rightarrow>
          (case new_recovery_store (ad_limit env) (int MAX_STORE_ROWS) 604800 (ad_store_now env) (ad_store_file env) of
             Inl e \<Rightarrow> (Inl e, s)
           | Inr st \<Rightarrow> (Inr (), s\<lparr>sv_store := Some st\<rparr>)))"

definition unclaimed :: "'c noise_channel \<Rightarrow> string option" where
  \<comment> \<open>\<open>_require_unclaimed_host_channel\<close>: the reason of the rejection\<close>
  "unclaimed ch =
     (if nc_is_initiator ch \<or> \<not> handshake_finished ch then Some ''invalid_channel''
      else if nc_admitted ch then Some ''channel_already_admitted''
      else None)"

section \<open>Pairing\<close>

definition new_host_channel :: "'c noise_lib \<Rightarrow> auth_env \<Rightarrow> 'c service \<Rightarrow> 'c service" where
  "new_host_channel N env s =
     (case load_or_create_identity env (sv_auth s) of
        Inl _ \<Rightarrow> s
      | Inr (i, st) \<Rightarrow>
          (case channel_responder N (hi_private_key i) (hi_installation_id i) of
             Inl _ \<Rightarrow> s\<lparr>sv_auth := st\<rparr>
           | Inr ch \<Rightarrow> s\<lparr>sv_auth := st, sv_channels := sv_channels s @ [ch]\<rparr>))"

definition complete_pairing ::
  "auth_env \<Rightarrow> nat \<Rightarrow> bytes \<Rightarrow> 'c service \<Rightarrow> (string + device_summary) \<times> 'c service" where
  "complete_pairing env c payload s =
     (let ch = sv_channels s ! c; closed = put_channel c (ch_close ch) in
      case unclaimed ch of
        Some reason \<Rightarrow> (Inl reason, s)
      | None \<Rightarrow>
          (case (remote_static_public ch, channel_binding ch) of
             (Inr key, Inr binding) \<Rightarrow>
               (case consume_offer env payload key binding (sv_auth s) of
                  (Inl (IdentityError _), st) \<Rightarrow> (Inl ''pairing_rejected'', closed (s\<lparr>sv_auth := st\<rparr>))
                | (Inl PairingRejected, st) \<Rightarrow> (Inl ''PairingRejected'', closed (s\<lparr>sv_auth := st\<rparr>))
                | (Inl (AuthorizationError _), st) \<Rightarrow> (Inl ''pairing_unavailable'', closed (s\<lparr>sv_auth := st\<rparr>))
                | (Inr summary, st) \<Rightarrow>
                    (case mark_admitted ch of
                       (Inl _, _) \<Rightarrow> (Inl ''pairing_unavailable'', closed (s\<lparr>sv_auth := st\<rparr>))
                     | (Inr _, ch1) \<Rightarrow> (Inr summary, put_channel c ch1 (s\<lparr>sv_auth := st\<rparr>))))
           | _ \<Rightarrow> (Inl ''pairing_unavailable'', closed s)))"

section \<open>The end of an admission\<close>

definition deny_admission :: "admission_request \<Rightarrow> string \<Rightarrow> string \<Rightarrow> 'c service \<Rightarrow> 'c service" where
  \<comment> \<open>release every lease of the device, then reject\<close>
  "deny_admission rq why reason s =
     (let device = en_device_id (rq_envelope rq); ks = leases_for device (sv_leases s) in
      wait_for rq (WaitDenied ks reason) (s\<lparr>sv_leases := mg_release_device device why (sv_leases s)\<rparr>))"

definition mark_admission :: "admission_request \<Rightarrow> nat \<Rightarrow> nat \<Rightarrow> 'c service \<Rightarrow> 'c service" where
  "mark_admission rq k a s =
     (let c = rq_channel rq in
      case mark_admitted (sv_channels s ! c) of
        (Inl _, ch) \<Rightarrow>
          reject c ''channel_already_admitted''
            (put_lease k (lease_detach a ''admission_failed'' (the_lease (sv_leases s) k)) (lease_store k s) (put_channel c ch s))
      | (Inr _, ch) \<Rightarrow>
          (put_channel c ch s)
            \<lparr>sv_admission := None,
             sv_outcomes := sv_outcomes s @
               [Admitted \<lparr>am_device_id = en_device_id (rq_envelope rq), am_channel = c, am_lease = k, am_attachment = a,
                          am_lease_channel = en_channel (rq_envelope rq)\<rparr>]\<rparr>)"

definition admit_finish :: "admit_env \<Rightarrow> admission_request \<Rightarrow> nat \<Rightarrow> nat \<Rightarrow> 'c service \<Rightarrow> 'c service" where
  \<comment> \<open>the second check, once the lease is attached\<close>
  "admit_finish env rq k a s =
     (let c = rq_channel rq; device = en_device_id (rq_envelope rq) in
      case remote_static_public (sv_channels s ! c) of
        Inl _ \<Rightarrow> reject c ''runtime_unavailable'' s
      | Inr key \<Rightarrow>
          (case is_authorized device key (sv_auth s) of
             Inl _ \<Rightarrow> reject c ''runtime_unavailable'' s
           | Inr False \<Rightarrow> deny_admission rq ''authorization_changed'' ''device_not_authorized'' s
           | Inr True \<Rightarrow>
               (case device_epoch (ad_auth_again env) device (sv_auth s) of
                  (Inl reason, st) \<Rightarrow> reject c reason (s\<lparr>sv_auth := st\<rparr>)
                | (Inr epoch, st) \<Rightarrow>
                    let s1 = s\<lparr>sv_auth := st\<rparr> in
                    if epoch \<noteq> rq_epoch rq then deny_admission rq ''authorization_changed'' ''device_not_authorized'' s1
                    else (case ad_profile_again env of
                            None \<Rightarrow> reject c ''runtime_unavailable'' s1
                          | Some False \<Rightarrow> deny_admission rq ''profile_not_available'' ''profile_not_available'' s1
                          | Some True \<Rightarrow> mark_admission rq k a s1))))"

section \<open>Attaching again to a retained lease\<close>

fun persist_all ::
  "(pystr \<Rightarrow> bool) \<Rightarrow> (nat \<Rightarrow> put_env) \<Rightarrow> projection \<Rightarrow> ('k \<times> dict) list \<Rightarrow> store_ref
     \<Rightarrow> (recovery_error + unit) \<times> ('k \<times> dict) list \<times> store_ref" where
  \<comment> \<open>the loop over \<open>tasks.values()\<close>; a raise ends it\<close>
  "persist_all authorizer envs pj [] store = (Inr (), [], store)"
| "persist_all authorizer envs pj ((key, event) # tasks) store =
     (case pj_persist authorizer (envs 0) pj event store of
        (Inl err, event', store') \<Rightarrow> (Inl err, (key, event') # tasks, store')
      | (Inr _, event', store') \<Rightarrow>
          (case persist_all authorizer (envs \<circ> Suc) pj tasks store' of
             (res, tasks', store'') \<Rightarrow> (res, (key, event') # tasks', store'')))"

definition upgrade_lease :: "admit_env \<Rightarrow> nat \<Rightarrow> 'c service \<Rightarrow> (recovery_error + unit) \<times> 'c service" where
  \<comment> \<open>a lease without a store gets one, and its observations are written\<close>
  "upgrade_lease env k s =
     (case service_store env s of
        (Inl e, s1) \<Rightarrow> (Inl e, s1)
      | (Inr _, s1) \<Rightarrow>
          let l = the_lease (sv_leases s1) k; pj = ls_projection l in
          (case persist_all (ae_authorizer (ad_attach env)) (ad_persist env) pj (pj_tasks pj) (sv_store s1) of
             (res, tasks, store) \<Rightarrow>
               (res, put_lease k (l\<lparr>ls_projection := pj\<lparr>pj_tasks := tasks\<rparr>\<rparr>) store
                       (s1\<lparr>sv_info := (sv_info s1)[k := (sv_info s1 ! k)\<lparr>li_recovery := True\<rparr>]\<rparr>))))"

definition reattach_lease ::
  "admit_env \<Rightarrow> admission_request \<Rightarrow> int \<Rightarrow> bool \<Rightarrow> bool \<Rightarrow> 'c service \<Rightarrow> (string + nat \<times> nat) \<times> 'c service" where
  "reattach_lease env rq cursor recovery replace_attached s =
     (let e = rq_envelope rq in
      case mg_get (en_device_id e) (en_channel e) (sv_leases s) of
        (None, m) \<Rightarrow> (Inl ''lease_not_available'', s\<lparr>sv_leases := m\<rparr>)
      | (Some k, m) \<Rightarrow>
          let s1 = s\<lparr>sv_leases := m\<rparr> in
          if ls_profile (the_lease m k) \<noteq> en_profile e then (Inl ''lease_not_available'', s1)
          else
            (case (if recovery \<and> \<not> li_recovery (sv_info s1 ! k) then upgrade_lease env k s1 else (Inr (), s1)) of
               (Inl _, s2) \<Rightarrow> (Inl ''runtime_unavailable'', s2)
             | (Inr _, s2) \<Rightarrow>
                 (case lease_attach (ad_attach env) cursor recovery False replace_attached (the_lease (sv_leases s2) k) (lease_store k s2)
                         :: (unit lease_error + nat) \<times> lease \<times> store_ref of
                    (Inr a, l, store) \<Rightarrow> (Inr (k, a), put_lease k l store s2)
                  | (Inl LeaseReleased, l, store) \<Rightarrow> (Inl ''lease_not_available'', put_lease k l store s2)
                  | (Inl (LeaseAttachRejected _), l, store) \<Rightarrow> (Inl ''lease_not_available'', put_lease k l store s2)
                  | (Inl _, l, store) \<Rightarrow> (Inl ''runtime_unavailable'', put_lease k l store s2))))"

section \<open>Opening a new lease\<close>

definition open_runtime :: "admit_env \<Rightarrow> admission_request \<Rightarrow> bool \<Rightarrow> bool \<Rightarrow> 'c service \<Rightarrow> 'c service" where
  \<comment> \<open>the projection, and the request for a controller. The runtime's lock is free: only
     admissions hold it across an await\<close>
  "open_runtime env rq recovery reset s =
     (let c = rq_channel rq; e = rq_envelope rq in
      case (if recovery then service_store env s else (Inr (), s)) of
        (Inl _, s1) \<Rightarrow> reject c ''runtime_unavailable'' s1
      | (Inr _, s1) \<Rightarrow>
          (case load_or_create_identity (ad_auth env) (sv_auth s1) of
             Inl _ \<Rightarrow> reject c ''runtime_unavailable'' s1
           | Inr (i, st) \<Rightarrow>
               let s2 = s1\<lparr>sv_auth := st\<rparr>;
                   pj = new_projection (en_profile e)
                          [JStr (hex_bytes (hi_installation_id i)),
                           JStr (recovery_scope_device (en_device_id e) (en_channel e)), JInt (rq_epoch rq)]
               in (case open_begin (ad_open env) (en_profile e) (sv_runtime s2) of
                     (Inl ProfileNotAvailable, rt) \<Rightarrow> reject c ''profile_not_available'' (s2\<lparr>sv_runtime := rt\<rparr>)
                   | (Inl _, rt) \<Rightarrow> reject c ''runtime_unavailable'' (s2\<lparr>sv_runtime := rt\<rparr>)
                   | (Inr _, rt) \<Rightarrow> wait_for rq (WaitController pj recovery reset) (s2\<lparr>sv_runtime := rt\<rparr>))))"

definition open_lease :: "admit_env \<Rightarrow> admission_request \<Rightarrow> bool \<Rightarrow> bool \<Rightarrow> 'c service \<Rightarrow> 'c service" where
  "open_lease env rq recovery reset s =
     (let c = rq_channel rq; e = rq_envelope rq in
      case remote_static_public (sv_channels s ! c) of
        Inl _ \<Rightarrow> reject c ''runtime_unavailable'' s
      | Inr _ \<Rightarrow>
          (case mg_get (en_device_id e) (en_channel e) (sv_leases s) of
             (None, m) \<Rightarrow> open_runtime env rq recovery reset (s\<lparr>sv_leases := m\<rparr>)
           | (Some k, m) \<Rightarrow>
               wait_for rq (WaitSuperseded k recovery reset)
                 (s\<lparr>sv_leases := snd (mg_release_lease (en_device_id e) (en_channel e) ''superseded'' m)\<rparr>)))"

definition abandon_lease :: "admission_request \<Rightarrow> nat \<Rightarrow> 'c service \<Rightarrow> 'c service" where
  \<comment> \<open>registration or attaching has failed\<close>
  "abandon_lease rq k s =
     (let e = rq_envelope rq in
      case mg_get (en_device_id e) (en_channel e) (sv_leases s) of (owner, m) \<Rightarrow>
        wait_for rq (WaitCleanup k)
          (s\<lparr>sv_leases :=
               (if owner = Some k then snd (mg_release_lease (en_device_id e) (en_channel e) ''admission_failed'' m)
                else upd_lease k (snd (lease_release ''admission_failed'' (the_lease m k))) m)\<rparr>))"

definition install_lease ::
  "admit_env \<Rightarrow> admission_request \<Rightarrow> pystr \<Rightarrow> projection \<Rightarrow> bool \<Rightarrow> bool \<Rightarrow> 'c service \<Rightarrow> 'c service" where
  \<comment> \<open>\<open>_open_lease\<close> once the controller runs\<close>
  "install_lease env rq cid pj recovery reset s =
     (let c = rq_channel rq; e = rq_envelope rq; m = sv_leases s; k = length (mg_objects m) in
      case new_lease (en_device_id e) (en_channel e) (en_profile e) (ad_lease_id env) (sv_limits s) True pj (ad_websocket env) of
        Inl _ \<Rightarrow> reject c ''runtime_unavailable'' s
      | Inr l \<Rightarrow>
          let s1 = s\<lparr>sv_info := sv_info s @ [\<lparr>li_epoch = rq_epoch rq, li_controller = cid, li_key = rq_key rq, li_recovery = recovery\<rparr>]\<rparr> in
          (case mg_register k (m\<lparr>mg_objects := mg_objects m @ [l]\<rparr>) of
             (Inl _, m1) \<Rightarrow> abandon_lease rq k (s1\<lparr>sv_leases := m1\<rparr>)
           | (Inr _, m1) \<Rightarrow>
               let s2 = s1\<lparr>sv_leases := m1\<rparr> in
               (case lease_attach (ad_attach env) 0 recovery reset False (the_lease m1 k) (lease_store k s2)
                       :: (unit lease_error + nat) \<times> lease \<times> store_ref of
                  (Inl _, l1, store) \<Rightarrow> abandon_lease rq k (put_lease k l1 store s2)
                | (Inr a, l1, store) \<Rightarrow> admit_finish env rq k a (put_lease k l1 store s2))))"

section \<open>The beginning of an admission\<close>

definition admit_select :: "admit_env \<Rightarrow> admission_request \<Rightarrow> bool \<Rightarrow> 'c service \<Rightarrow> 'c service" where
  \<comment> \<open>\<open>existing\<close>: a lease of the current epoch was found\<close>
  "admit_select env rq existing s =
     (let cursor = en_resume_cursor (rq_envelope rq); recovery = (en_recovery_version (rq_envelope rq) = Some 1) in
      if recovery \<and> \<not> existing then open_lease env rq True (cursor \<noteq> None) s
      else if cursor \<noteq> None \<or> recovery
      then (case reattach_lease env rq (case cursor of None \<Rightarrow> 0 | Some n \<Rightarrow> n) recovery (recovery \<and> cursor \<noteq> None) s of
              (Inl reason, s1) \<Rightarrow> reject (rq_channel rq) reason s1
            | (Inr (k, a), s1) \<Rightarrow> admit_finish env rq k a s1)
      else open_lease env rq False False s)"

definition admit_device :: "admit_env \<Rightarrow> nat \<Rightarrow> bytes \<Rightarrow> auth_envelope \<Rightarrow> 'c service \<Rightarrow> 'c service" where
  \<comment> \<open>from the profile check on\<close>
  "admit_device env c key e s =
     (case ad_profile env of
        None \<Rightarrow> reject c ''runtime_unavailable'' s
      | Some False \<Rightarrow> reject c ''profile_not_available'' s
      | Some True \<Rightarrow>
          (case device_epoch (ad_auth env) (en_device_id e) (sv_auth s) of
             (Inl reason, st) \<Rightarrow> reject c reason (s\<lparr>sv_auth := st\<rparr>)
           | (Inr epoch, st) \<Rightarrow>
               let rq = \<lparr>rq_channel = c, rq_key = key, rq_envelope = e, rq_epoch = epoch\<rparr> in
               (case mg_get (en_device_id e) (en_channel e) (sv_leases s) of
                  (None, m) \<Rightarrow> admit_select env rq False (s\<lparr>sv_auth := st, sv_leases := m\<rparr>)
                | (Some k, m) \<Rightarrow>
                    if li_epoch (sv_info s ! k) = epoch then admit_select env rq True (s\<lparr>sv_auth := st, sv_leases := m\<rparr>)
                    else wait_for rq (WaitStale (leases_for (en_device_id e) m))
                           (s\<lparr>sv_auth := st, sv_leases := mg_release_device (en_device_id e) ''authorization_changed'' m\<rparr>))))"

definition admit_begin :: "'c noise_lib \<Rightarrow> admit_env \<Rightarrow> nat \<Rightarrow> bytes \<Rightarrow> 'c service \<Rightarrow> 'c service" where
  "admit_begin N env c envelope s =
     (case unclaimed (sv_channels s ! c) of
        Some reason \<Rightarrow> s\<lparr>sv_outcomes := sv_outcomes s @ [Rejected c reason]\<rparr>
      | None \<Rightarrow>
          (case ch_decrypt N (sv_channels s ! c) envelope of
             (Inl _, ch) \<Rightarrow> reject c ''device_not_authorized'' (put_channel c ch s)
           | (Inr plaintext, ch) \<Rightarrow>
               let s1 = put_channel c ch s in
               (case parse_controller_auth (ad_limit env) plaintext of
                  None \<Rightarrow> reject c ''invalid_auth_envelope'' s1
                | Some e \<Rightarrow>
                    (case remote_static_public ch of
                       Inl _ \<Rightarrow> reject c ''device_not_authorized'' s1
                     | Inr key \<Rightarrow>
                         let s2 = (case en_device_name e of
                                     None \<Rightarrow> s1
                                   | Some name \<Rightarrow> s1\<lparr>sv_auth := snd (note_device_name (ad_auth env) (en_device_id e) key name (sv_auth s1))\<rparr>)
                         in (case is_authorized (en_device_id e) key (sv_auth s2) of
                               Inl (IdentityError _) \<Rightarrow> reject c ''invalid_auth_envelope'' s2
                             | Inl _ \<Rightarrow> reject c ''device_not_authorized'' s2
                             | Inr False \<Rightarrow> reject c ''device_not_authorized'' s2
                             | Inr True \<Rightarrow> admit_device env c key e s2)))))"

section \<open>Going on after a wait\<close>

definition admit_resume :: "admit_env \<Rightarrow> bool \<Rightarrow> 'c service \<Rightarrow> 'c service" where
  \<comment> \<open>the releases the admission waits for have ended; \<open>cancelled\<close>: the caller was cancelled meanwhile,
     which is raised after them, unless one of them failed\<close>
  "admit_resume env cancelled s =
     (case sv_admission s of
        Some (rq, WaitStale ks) \<Rightarrow>
          if \<not> list_all (lease_done s) ks then s
          else if list_ex (lease_failed s) ks then reject (rq_channel rq) ''runtime_unavailable'' s
          else if cancelled then cancel_admission (rq_channel rq) s
          else admit_select env rq False s
      | Some (rq, WaitSuperseded k recovery reset) \<Rightarrow>
          if \<not> lease_done s k then s
          else if lease_failed s k then reject (rq_channel rq) ''runtime_unavailable'' s
          else if cancelled then cancel_admission (rq_channel rq) s
          else open_runtime env rq recovery reset s
      | Some (rq, WaitCleanup k) \<Rightarrow>
          if \<not> lease_done s k then s
          else if cancelled \<and> \<not> lease_failed s k then cancel_admission (rq_channel rq) s
          else reject (rq_channel rq) ''runtime_unavailable'' s
      | Some (rq, WaitDenied ks reason) \<Rightarrow>
          if \<not> list_all (lease_done s) ks then s
          else if list_ex (lease_failed s) ks then reject (rq_channel rq) ''runtime_unavailable'' s
          else if cancelled then cancel_admission (rq_channel rq) s
          else reject (rq_channel rq) reason s
      | _ \<Rightarrow> s)"

definition admit_opened :: "admit_env \<Rightarrow> bool \<Rightarrow> 'c service \<Rightarrow> 'c service" where
  \<comment> \<open>\<open>bridge.start()\<close> has returned or raised\<close>
  "admit_opened env started s =
     (case sv_admission s of
        Some (rq, WaitController pj recovery reset) \<Rightarrow>
          (case open_started started (sv_runtime s) of
             (None, rt) \<Rightarrow> wait_for rq WaitAborted (s\<lparr>sv_runtime := rt\<rparr>)
           | (Some (cid, handle), rt) \<Rightarrow> install_lease env rq cid pj recovery reset (s\<lparr>sv_runtime := rt\<rparr>))
      | _ \<Rightarrow> s)"

definition admit_aborted :: "bool \<Rightarrow> 'c service \<Rightarrow> 'c service" where
  \<comment> \<open>the bridge that did not start is closed\<close>
  "admit_aborted cancelled s =
     (case sv_admission s of
        Some (rq, WaitAborted) \<Rightarrow>
          let s1 = s\<lparr>sv_runtime := snd (open_aborted (sv_runtime s))\<rparr> in
          if cancelled then cancel_admission (rq_channel rq) s1 else reject (rq_channel rq) ''runtime_unavailable'' s1
      | _ \<Rightarrow> s)"

section \<open>Reads, revocation and the end\<close>

definition read_allowed :: "auth_env \<Rightarrow> pystr \<Rightarrow> lease_info \<Rightarrow> auth_state \<Rightarrow> bool \<times> auth_state" where
  \<comment> \<open>\<open>require_authorized\<close> of a lease's dispatcher\<close>
  "read_allowed env device_id info st =
     (if is_authorized device_id (li_key info) st \<noteq> Inr True then (False, st)
      else (case device_epoch env device_id st of (r, st1) \<Rightarrow> (r = Inr (li_epoch info), st1)))"

definition finish_read :: "auth_env \<Rightarrow> nat \<Rightarrow> nat \<Rightarrow> dispatch_result \<Rightarrow> 'c service \<Rightarrow> 'c service" where
  \<comment> \<open>\<open>authorized_read\<close> after the dispatch, and the end of the lease's local task\<close>
  "finish_read env k i result s =
     (let l = the_lease (sv_leases s) k in
      case read_allowed env (ls_device_id l) (sv_info s ! k) (sv_auth s) of (allowed, st) \<Rightarrow>
        s\<lparr>sv_auth := st,
          sv_leases := upd_lease k (finish_task i (if allowed then result else DispatchError (lit ''device_not_authorized'')) l) (sv_leases s)\<rparr>)"

definition revoke_device :: "auth_env \<Rightarrow> pystr \<Rightarrow> 'c service \<Rightarrow> (auth_error + device_summary option) \<times> 'c service" where
  \<comment> \<open>up to the wait for the leases\<close>
  "revoke_device env device_id s =
     (case revoke env device_id (sv_auth s) of
        (Inl e, st) \<Rightarrow> (Inl e, s\<lparr>sv_auth := st\<rparr>)
      | (Inr summary, st) \<Rightarrow>
          (Inr summary,
           s\<lparr>sv_auth := st, sv_leases := mg_release_device device_id ''revoked'' (sv_leases s),
             sv_revoking := sv_revoking s @ [(device_id, leases_for device_id (sv_leases s))]\<rparr>))"

definition revoke_finish :: "auth_env \<Rightarrow> int \<Rightarrow> bool \<Rightarrow> nat \<Rightarrow> 'c service \<Rightarrow> 'c service" where
  \<comment> \<open>the \<open>i\<close>th waiting call goes on: the recovery rows of the device are dropped\<close>
  "revoke_finish env now write_ok i s =
     (if i \<ge> length (sv_revoking s) \<or> \<not> list_all (lease_done s) (snd (sv_revoking s ! i)) then s
      else
        let (device_id, ks) = sv_revoking s ! i;
            s1 = s\<lparr>sv_revoking := take i (sv_revoking s) @ drop (i + 1) (sv_revoking s)\<rparr>
        in if list_ex (lease_failed s) ks then s1
           else (case sv_store s1 of
                   None \<Rightarrow> s1
                 | Some store \<Rightarrow>
                     (case load_or_create_identity env (sv_auth s1) of
                        Inl _ \<Rightarrow> s1
                      | Inr (ident, st) \<Rightarrow>
                          s1\<lparr>sv_auth := st,
                             sv_store := Some (snd (store_revoke now write_ok (hex_bytes (hi_installation_id ident)) device_id store))\<rparr>)))"

definition close_service :: "'c service \<Rightarrow> 'c service" where
  "close_service s = (if sv_closed s then s else s\<lparr>sv_closed := True, sv_leases := mg_close (sv_leases s)\<rparr>)"

definition bind_controller :: "admitted \<Rightarrow> bytes \<Rightarrow> 'c service \<Rightarrow> (transport_error + 'c transport) \<times> 'c service" where
  "bind_controller am channel_id s =
     (case new_transport (sv_channels s ! am_channel am) (am_attachment am) channel_id of
        (r, ch) \<Rightarrow> (r, put_channel (am_channel am) ch s))"

section \<open>The service as a state machine\<close>

datatype sv_event =
    SvChannel auth_env
  | SvChannelOp nat ch_event               \<comment> \<open>handshake and traffic on a channel, or its end\<close>
  | SvPair auth_env nat bytes
  | SvBegin admit_env nat bytes
  | SvResume admit_env bool
  | SvOpened admit_env bool
  | SvAborted bool
  | SvRead auth_env nat nat dispatch_result
  | SvLease nat lease_event                \<comment> \<open>what a lease does by itself or for its transport\<close>
  | SvRuntime runtime_event                \<comment> \<open>start and end of the runtime\<close>
  | SvRevoke auth_env pystr
  | SvRevoked auth_env int bool nat
  | SvAuth auth_event                      \<comment> \<open>other calls of the repository, as by the dashboard\<close>
  | SvBind admitted bytes
  | SvClose

fun channel_op :: "ch_event \<Rightarrow> bool" where
  \<comment> \<open>only the service admits and binds\<close>
  "channel_op ChAdmit = False" | "channel_op ChBind = False" | "channel_op _ = True"

fun lease_op :: "lease_event \<Rightarrow> bool" where
  \<comment> \<open>starting, attaching, releasing and finishing a read is up to the service\<close>
  "lease_op EvStart = False" | "lease_op (EvAttach _ _ _ _ _) = False" | "lease_op (EvRelease _) = False"
| "lease_op (EvTaskDone _ _) = False" | "lease_op (EvStore _) = False" | "lease_op _ = True"

fun runtime_op :: "runtime_event \<Rightarrow> bool" where
  "runtime_op (RtStart _) = True" | "runtime_op RtClose = True" | "runtime_op RtClosed = True" | "runtime_op _ = False"

fun ends_release :: "lease_event \<Rightarrow> bool" where
  "ends_release (EvFinish _) = True" | "ends_release _ = False"

definition close_lease_controller :: "nat \<Rightarrow> lease_event \<Rightarrow> 'c service \<Rightarrow> runtime" where
  \<comment> \<open>\<open>close_controller\<close> at the end of a release\<close>
  "close_lease_controller k ev s =
     (if ends_release ev \<and> ls_released (the_lease (sv_leases s) k) \<and> \<not> ls_finished (the_lease (sv_leases s) k)
      then snd (rt_close_controller (li_controller (sv_info s ! k)) (sv_runtime s)) else sv_runtime s)"

definition lease_does :: "'r validator \<Rightarrow> nat \<Rightarrow> lease_event \<Rightarrow> 'c service \<Rightarrow> 'c service" where
  \<comment> \<open>the end of a release waits for the runtime's lock\<close>
  "lease_does validator k ev s =
     (if k \<ge> length (mg_objects (sv_leases s)) \<or> \<not> lease_op ev
        \<or> ends_release ev \<and> rt_lock (sv_runtime s) \<noteq> LockFree then s
      else (case lease_step validator ev (the_lease (sv_leases s) k, lease_store k s) of
              (l, store) \<Rightarrow> (put_lease k l store s)\<lparr>sv_runtime := close_lease_controller k ev s\<rparr>))"

fun sv_step :: "'c noise_lib \<Rightarrow> 'r validator \<Rightarrow> sv_event \<Rightarrow> 'c service \<Rightarrow> 'c service" where
  "sv_step N validator (SvChannel env) s = new_host_channel N env s"
| "sv_step N validator (SvChannelOp c ev) s =
     (if c < length (sv_channels s) \<and> channel_op ev then put_channel c (ch_step N ev (sv_channels s ! c)) s else s)"
| "sv_step N validator (SvPair env c payload) s =
     (if c < length (sv_channels s) then snd (complete_pairing env c payload s) else s)"
| "sv_step N validator (SvBegin env c envelope) s =
     (if c < length (sv_channels s) \<and> sv_admission s = None then admit_begin N env c envelope s else s)"
| "sv_step N validator (SvResume env cancelled) s = admit_resume env cancelled s"
| "sv_step N validator (SvOpened env started) s = admit_opened env started s"
| "sv_step N validator (SvAborted cancelled) s = admit_aborted cancelled s"
| "sv_step N validator (SvRead env k i result) s =
     (if k < length (mg_objects (sv_leases s)) then finish_read env k i result s else s)"
| "sv_step N validator (SvLease k ev) s = lease_does validator k ev s"
| "sv_step N validator (SvRuntime ev) s = (if runtime_op ev then s\<lparr>sv_runtime := rt_step ev (sv_runtime s)\<rparr> else s)"
| "sv_step N validator (SvRevoke env device_id) s = snd (revoke_device env device_id s)"
| "sv_step N validator (SvRevoked env now write_ok i) s = revoke_finish env now write_ok i s"
| "sv_step N validator (SvAuth ev) s = s\<lparr>sv_auth := auth_step ev (sv_auth s)\<rparr>"
| "sv_step N validator (SvBind am channel_id) s =
     (if am_channel am < length (sv_channels s) \<and> Admitted am \<in> set (sv_outcomes s) then snd (bind_controller am channel_id s) else s)"
| "sv_step N validator SvClose s = close_service s"

end
