(* ===== verification/Admission_Inv.thy ===== *)
theory Admission_Inv
  imports Admission
begin

text \<open>
  What every step of the admission service does to the parts it is composed of: the
  authorization state changes by repository calls only, the lease manager by its own
  operations, and no lease loses a release that was started or scheduled.
\<close>

section \<open>The authorization state\<close>

inductive auth_moves :: "(auth_env \<Rightarrow> bool) \<Rightarrow> auth_state \<Rightarrow> auth_state \<Rightarrow> bool" for ok where
  stay: "auth_moves ok st st"
| event: "auth_moves ok st st' \<Longrightarrow> ok (event_env e) \<Longrightarrow> auth_moves ok st (auth_step e st')"
| identity: "auth_moves ok st st' \<Longrightarrow> load_or_create_identity env st' = Inr (i, st'') \<Longrightarrow> auth_moves ok st st''"

lemma auth_moves_trans: "auth_moves ok st st' \<Longrightarrow> auth_moves ok st' st'' \<Longrightarrow> auth_moves ok st st''"
proof (rotate_tac, induction rule: auth_moves.induct)
  case (stay st)
  then show ?case by simp
next
  case (event st st' e)
  then show ?case using auth_moves.event by blast
next
  case (identity st st' env i st'')
  then show ?case using auth_moves.identity by blast
qed

lemma auth_moves_event: "ok (event_env e) \<Longrightarrow> auth_moves ok st (auth_step e st)"
  by (rule auth_moves.event [OF auth_moves.stay])

lemma auth_moves_identity: "load_or_create_identity env st = Inr (i, st') \<Longrightarrow> auth_moves ok st st'"
  by (rule auth_moves.identity [OF auth_moves.stay])

lemma auth_moves_list: "ok env \<Longrightarrow> auth_moves ok st (snd (list_devices env st))"
  using auth_moves_event [of ok "EList env" st] by simp

lemma snd_device_epoch: "snd (device_epoch env did st) = snd (list_devices env st)"
  by (simp add: device_epoch_def split: prod.splits sum.splits option.splits)

lemma auth_moves_epoch: "device_epoch env did st = (r, st') \<Longrightarrow> ok env \<Longrightarrow> auth_moves ok st st'"
  using snd_device_epoch [of env did st] auth_moves_list [of ok env st] by simp

lemma auth_moves_valid: "auth_moves ok st st' \<Longrightarrow> validate_auth_state st \<Longrightarrow> validate_auth_state st'"
proof (induction rule: auth_moves.induct)
  case (event st st' e)
  then show ?case using auth_step_valid by blast
next
  case (identity st st' env i st'')
  then show ?case using load_or_create_identity_Inr [of env st' i st'']
    by (auto simp: validate_auth_state_def evidence_of_def)
qed

lemma auth_moves_revoked:
  "auth_moves ok st st' \<Longrightarrow> (\<And>env. ok env \<Longrightarrow> ae_sha256 env = sha) \<Longrightarrow> revoked_for_good sha did key st
     \<Longrightarrow> revoked_for_good sha did key st'"
proof (induction rule: auth_moves.induct)
  case (event st st' e)
  have "list_all (\<lambda>e. ae_sha256 (event_env e) = sha) [e]" using event by simp
  from revoked.P_run [OF this, of did key st'] show ?case using event by simp
next
  case (identity st st' env i st'')
  then show ?case using load_or_create_identity_Inr [of env st' i st''] revoked.P_identity [of sha did key st' "Some i"] by auto
qed simp

section \<open>The lease manager\<close>

definition mg_ok :: "manager \<Rightarrow> bool" where
  "mg_ok m \<longleftrightarrow> (\<exists>regs. mg_inv ((m, None), regs))"

lemma mg_ok_iff: "mg_ok m \<longleftrightarrow> (\<exists>regs. mg_inv ((m, store), regs))"
  by (simp add: mg_ok_def mg_inv_def)

definition mg_move :: "manager \<Rightarrow> manager \<Rightarrow> bool" where
  \<comment> \<open>from a good manager to a good one, with the same leases, possibly moved on, and new ones\<close>
  "mg_move m m' \<longleftrightarrow> (mg_ok m \<longrightarrow> mg_ok m' \<and> length (mg_objects m) \<le> length (mg_objects m')
     \<and> (\<forall>k < length (mg_objects m). progressed (the_lease m k) (the_lease m' k)))"

lemma mg_move_refl [simp]: "mg_move m m"
  by (simp add: mg_move_def progressed_same)

lemma mg_ok_life: "mg_ok m \<Longrightarrow> k < length (mg_objects m) \<Longrightarrow> inv_life (the_lease m k)"
  by (auto simp: mg_ok_def dest: mg_invD(3) [of _ _ _ "the_lease m k"])

lemma mg_move_trans:
  assumes "mg_move m m1" and "mg_move m1 m2"
  shows "mg_move m m2"
  unfolding mg_move_def
proof (intro impI conjI allI)
  assume ok: "mg_ok m"
  then have 1: "mg_ok m1" "length (mg_objects m) \<le> length (mg_objects m1)"
    "\<And>k. k < length (mg_objects m) \<Longrightarrow> progressed (the_lease m k) (the_lease m1 k)"
    using assms(1) by (auto simp: mg_move_def)
  then have 2: "mg_ok m2" "length (mg_objects m1) \<le> length (mg_objects m2)"
    "\<And>k. k < length (mg_objects m1) \<Longrightarrow> progressed (the_lease m1 k) (the_lease m2 k)"
    using assms(2) by (auto simp: mg_move_def)
  show "mg_ok m2" "length (mg_objects m) \<le> length (mg_objects m2)" using 1 2 by auto
  fix k assume k: "k < length (mg_objects m)"
  have "inv_life (the_lease m1 k)" using mg_ok_life [OF 1(1)] k 1(2) by simp
  then show "progressed (the_lease m k) (the_lease m2 k)"
    using 1(3) [OF k] 2(3) [of k] k 1(2) by (auto simp: progressed_def)
qed

lemma mg_move_upd:
  assumes "k < length (mg_objects m)" and "progressed (the_lease m k) l"
    and "inv_life (the_lease m k) \<Longrightarrow> inv_life l"
  shows "mg_move m (upd_lease k l m)"
  using assms mg_inv_upd [of m None _ k l None] mg_ok_life [of m k]
  by (auto simp: mg_move_def mg_ok_def upd_lease_def nth_list_update progressed_same)

lemma mg_move_get: "mg_get device channel m = (r, m') \<Longrightarrow> mg_move m m'"
  using mg_inv_get [of m None _ device channel r m'] mg_get_cases(1) [of device channel m r m']
  by (auto simp: mg_move_def mg_ok_def progressed_same)

lemma mg_move_objects: "mg_ok m \<Longrightarrow> mg_ok m' \<Longrightarrow> mg_objects m' = mg_objects m \<Longrightarrow> mg_move m m'"
  by (simp add: mg_move_def progressed_same)

lemma mg_move_release_all:
  assumes "list_all (\<lambda>k. k < length (mg_objects m)) ks"
  shows "mg_move m (mg_release_all ks reason m)"
  using assms unfolding mg_release_all_def
proof (induction ks arbitrary: m)
  case (Cons k ks)
  let ?m = "schedule_release reason k m"
  have "mg_move m ?m" unfolding schedule_release_def
    by (rule mg_move_upd) (use Cons.prems in \<open>auto simp: progressed_schedule inv_life_def\<close>)
  moreover have "mg_move ?m (fold (schedule_release reason) ks ?m)" using Cons by simp
  ultimately show ?case using mg_move_trans by auto
qed simp

lemma leases_for_bound: "mg_ok m \<Longrightarrow> list_all (\<lambda>k. k < length (mg_objects m)) (leases_for device m)"
  using distinct_values(2) [of m None] by (fastforce simp: mg_ok_def leases_for_def list_all_iff)

lemma mg_move_release_device: "mg_move m (mg_release_device device reason m)"
proof (cases "mg_ok m")
  case True
  then show ?thesis unfolding mg_release_device_def by (intro mg_move_release_all leases_for_bound)
qed (simp add: mg_move_def)

lemma mg_move_close: "mg_move m (mg_close m)"
proof (cases "mg_ok m")
  case True
  then obtain regs where inv: "mg_inv ((m, None), regs)" by (auto simp: mg_ok_def)
  let ?m = "mg_release_all (map snd (mg_leases m)) ''plugin_shutdown'' m"
  have "mg_move m ?m" by (rule mg_move_release_all [OF distinct_values(2) [OF inv]])
  moreover have "mg_ok (mg_close m)" using mg_inv_close [OF inv] by (auto simp: mg_ok_def)
  then have "mg_move ?m (mg_close m)" using close_objects [OF inv] by (simp add: mg_move_def progressed_same)
  ultimately show ?thesis by (rule mg_move_trans)
qed (simp add: mg_move_def)

lemma life_release: "inv_life l \<Longrightarrow> inv_life (snd (lease_release reason l))"
  using life_view_release [of reason l] by (auto simp: inv_life_def life_view_def)

lemma mg_move_release_lease: "mg_move m (snd (mg_release_lease device channel reason m))"
proof -
  obtain r m1 where g: "mg_get device channel m = (r, m1)" by fastforce
  show ?thesis
  proof (cases r)
    case None
    then show ?thesis using g mg_move_get [OF g] by (simp add: mg_release_lease_def)
  next
    case (Some k)
    obtain first l where rel: "lease_release reason (the_lease m1 k) = (first, l)" by fastforce
    have eq: "snd (mg_release_lease device channel reason m) = upd_lease k l m1" using g Some rel by (simp add: mg_release_lease_def)
    show ?thesis
    proof (cases "mg_ok m")
      case True
      then have "k < length (mg_objects m1)" using mg_get_cases(2) [OF g Some] by (auto simp: mg_ok_def dest: mg_invD(4))
      moreover have "progressed (the_lease m1 k) l" using progressed_release [of "the_lease m1 k" "the_lease m1 k" reason] rel by simp
      moreover have "inv_life (the_lease m1 k) \<Longrightarrow> inv_life l" using life_release [of "the_lease m1 k" reason] rel by simp
      ultimately have "mg_move m1 (upd_lease k l m1)" by (rule mg_move_upd)
      then show ?thesis unfolding eq by (rule mg_move_trans [OF mg_move_get [OF g]])
    qed (simp add: mg_move_def)
  qed
qed

lemma mg_move_create:
  assumes "new_lease device channel profile lease_id limits has_dispatcher pj ws = Inr l"
  shows "mg_move m (m\<lparr>mg_objects := mg_objects m @ [l]\<rparr>)"
  using mg_inv_create [OF _ assms, of m None] by (auto simp: mg_move_def mg_ok_def nth_append progressed_same)

lemma life_start: "inv_life l \<Longrightarrow> inv_life (lease_start l)"
  using inv_life_cong [of "lease_start l" l] by (simp add: lease_start_def schedule_expiry_def)

lemma register_objects:
  assumes "mg_register k m = (r, m')" and "k < length (mg_objects m)"
  shows "mg_objects m' = (if is_ok r then (mg_objects m)[k := lease_start (the_lease m k)] else mg_objects m)"
    and "is_ok r \<Longrightarrow> map_of (mg_leases m') (lease_key_of (the_lease m k)) = Some k"
proof -
  obtain o1 m1 where g: "mg_get (ls_device_id (the_lease m k)) (ls_channel (the_lease m k)) m = (o1, m1)" by fastforce
  have m1: "mg_objects m1 = mg_objects m" using mg_get_cases(1) [OF g] by auto
  show "mg_objects m' = (if is_ok r then (mg_objects m)[k := lease_start (the_lease m k)] else mg_objects m)"
    "is_ok r \<Longrightarrow> map_of (mg_leases m') (lease_key_of (the_lease m k)) = Some k"
    using assms g m1 by (auto simp: mg_register_def Let_def upd_lease_def update_conv' split: if_splits)
qed

lemma mg_move_register:
  assumes "k < length (mg_objects m)" and "mg_register k m = (r, m')"
  shows "mg_move m m'"
proof (cases "mg_ok m")
  case True
  then have "mg_ok m'" using mg_inv_register [OF _ assms, of None] by (auto simp: mg_ok_def)
  moreover have "progressed (the_lease m j) ((mg_objects m)[k := lease_start (the_lease m k)] ! j)" for j
    using assms(1) by (cases "j = k") (simp_all add: progressed_same)
  ultimately show ?thesis using register_objects(1) [OF assms(2,1)]
    by (simp add: mg_move_def progressed_same)
qed (simp add: mg_move_def)

section \<open>The service\<close>

definition sv_wf :: "'c service \<Rightarrow> bool" where
  "sv_wf s \<longleftrightarrow> mg_ok (sv_leases s) \<and> length (sv_info s) = length (mg_objects (sv_leases s))"

definition sv_moves :: "(auth_env \<Rightarrow> bool) \<Rightarrow> 'c service \<Rightarrow> 'c service \<Rightarrow> bool" where
  "sv_moves ok s s' \<longleftrightarrow> (sv_wf s \<longrightarrow> sv_wf s' \<and> auth_moves ok (sv_auth s) (sv_auth s') \<and> mg_move (sv_leases s) (sv_leases s')
     \<and> (\<forall>k < length (sv_info s). li_epoch (sv_info s' ! k) = li_epoch (sv_info s ! k))
     \<and> length (sv_channels s) \<le> length (sv_channels s')
     \<and> (\<forall>c < length (sv_channels s). nc_admitted (sv_channels s ! c) \<longrightarrow> nc_admitted (sv_channels s' ! c)))"

lemma sv_moves_refl [simp]: "sv_moves ok s s"
  by (simp add: sv_moves_def auth_moves.stay)

lemma sv_wf_length: "sv_moves ok s s' \<Longrightarrow> sv_wf s \<Longrightarrow> length (sv_info s) \<le> length (sv_info s')"
  by (auto simp: sv_moves_def mg_move_def sv_wf_def)

lemma sv_moves_trans:
  assumes "sv_moves ok s s1" and "sv_moves ok s1 s2"
  shows "sv_moves ok s s2"
proof (cases "sv_wf s")
  case True
  note 1 = assms(1) [unfolded sv_moves_def, rule_format, OF True]
  then have wf1: "sv_wf s1" by simp
  note 2 = assms(2) [unfolded sv_moves_def, rule_format, OF wf1]
  have "length (sv_info s) \<le> length (sv_info s1)" by (rule sv_wf_length [OF assms(1) True])
  then show ?thesis unfolding sv_moves_def
    using 1 2 auth_moves_trans [of ok "sv_auth s" "sv_auth s1" "sv_auth s2"] mg_move_trans [of "sv_leases s" "sv_leases s1" "sv_leases s2"]
    by auto
qed (simp add: sv_moves_def)

lemma sv_moves_frame:
  "sv_moves ok s s1 \<Longrightarrow> sv_auth s' = sv_auth s1 \<Longrightarrow> sv_leases s' = sv_leases s1 \<Longrightarrow> sv_info s' = sv_info s1
     \<Longrightarrow> sv_channels s' = sv_channels s1 \<Longrightarrow> sv_moves ok s s'"
  by (simp add: sv_moves_def sv_wf_def)

lemma sv_moves_auth: "auth_moves ok (sv_auth s) st \<Longrightarrow> sv_moves ok s (s\<lparr>sv_auth := st\<rparr>)"
  by (simp add: sv_moves_def sv_wf_def)

lemma sv_moves_leases: "mg_move (sv_leases s) m \<Longrightarrow> length (mg_objects m) = length (mg_objects (sv_leases s))
  \<Longrightarrow> sv_moves ok s (s\<lparr>sv_leases := m\<rparr>)"
  by (auto simp: sv_moves_def sv_wf_def auth_moves.stay mg_move_def)

lemma sv_moves_channel: "nc_admitted (sv_channels s ! c) \<longrightarrow> nc_admitted ch \<Longrightarrow> sv_moves ok s (put_channel c ch s)"
proof -
  assume a: "nc_admitted (sv_channels s ! c) \<longrightarrow> nc_admitted ch"
  have "nc_admitted (sv_channels s ! i) \<Longrightarrow> i < length (sv_channels s) \<Longrightarrow> nc_admitted ((sv_channels s)[c := ch] ! i)" for i
    using a by (cases "i = c") simp_all
  then show ?thesis by (simp add: sv_moves_def sv_wf_def auth_moves.stay put_channel_def)
qed

lemma admitted_close [simp]: "nc_admitted (ch_close ch) = nc_admitted ch"
  by (simp add: ch_close_def)

lemma sv_moves_reject: "sv_moves ok s s1 \<Longrightarrow> sv_moves ok s (reject c reason s1)"
  by (rule sv_moves_trans [of ok s s1], assumption, rule sv_moves_frame [OF sv_moves_channel [of s1 c "ch_close (sv_channels s1 ! c)"]])
    (simp_all add: reject_def)

lemma sv_moves_cancel: "sv_moves ok s s1 \<Longrightarrow> sv_moves ok s (cancel_admission c s1)"
  by (rule sv_moves_trans [of ok s s1], assumption, rule sv_moves_frame [OF sv_moves_channel [of s1 c "ch_close (sv_channels s1 ! c)"]])
    (simp_all add: cancel_admission_def)

lemma sv_moves_wait: "sv_moves ok s s1 \<Longrightarrow> sv_moves ok s (wait_for rq w s1)"
  by (erule sv_moves_frame) (simp_all add: wait_for_def)

lemma sv_moves_lease:
  assumes "sv_wf s \<Longrightarrow> k < length (mg_objects (sv_leases s))"
    and "progressed (the_lease (sv_leases s) k) l" and "inv_life (the_lease (sv_leases s) k) \<Longrightarrow> inv_life l"
  shows "sv_moves ok s (put_lease k l store s)"
proof (cases "sv_wf s")
  case True
  have "mg_move (sv_leases s) (upd_lease k l (sv_leases s))" by (rule mg_move_upd [OF assms(1) [OF True] assms(2,3)])
  then have "sv_moves ok s (s\<lparr>sv_leases := upd_lease k l (sv_leases s)\<rparr>)"
    by (rule sv_moves_leases) (simp add: upd_lease_def)
  then show ?thesis by (rule sv_moves_frame) (simp_all add: put_lease_def)
qed (simp add: sv_moves_def)

lemma length_get: "mg_get device channel m = (r, m') \<Longrightarrow> mg_objects m' = mg_objects m"
  using mg_get_cases(1) [of device channel m r m'] by auto

lemma length_release_device [simp]: "length (mg_objects (mg_release_device device reason m)) = length (mg_objects m)"
proof -
  have "length (mg_objects (mg_release_all ks reason m)) = length (mg_objects m)" for ks
    unfolding mg_release_all_def by (induction ks arbitrary: m) simp_all
  then show ?thesis by (simp add: mg_release_device_def)
qed

lemma length_release_lease [simp]: "length (mg_objects (snd (mg_release_lease device channel reason m))) = length (mg_objects m)"
proof -
  obtain r m1 where g: "mg_get device channel m = (r, m1)" by fastforce
  show ?thesis using length_get [OF g] g
    by (cases r) (simp_all add: mg_release_lease_def upd_lease_def case_prod_beta)
qed

lemma sv_moves_get: "mg_get device channel (sv_leases s) = (r, m) \<Longrightarrow> sv_moves ok s (s\<lparr>sv_leases := m\<rparr>)"
  by (rule sv_moves_leases) (simp_all add: mg_move_get length_get)

lemma sv_moves_release_device: "sv_moves ok s (s\<lparr>sv_leases := mg_release_device device reason (sv_leases s)\<rparr>)"
  by (rule sv_moves_leases) (simp_all add: mg_move_release_device)

lemma sv_moves_release_lease: "sv_moves ok s (s\<lparr>sv_leases := snd (mg_release_lease device channel reason (sv_leases s))\<rparr>)"
  by (rule sv_moves_leases) (simp_all add: mg_move_release_lease)

lemma sv_moves_store: "service_store env s = (r, s') \<Longrightarrow> sv_moves ok s s'"
  by (auto simp: service_store_def intro: sv_moves_frame [OF sv_moves_refl] split: option.splits sum.splits)

lemma attach_progress:
  assumes "(lease_attach env cursor recovery reset rep l store :: (unit lease_error + nat) \<times> lease \<times> store_ref) = (r, l', store')"
  shows "progressed l l'" "inv_life l \<Longrightarrow> inv_life l'"
  using progressed_step [of l "None :: unit validator" "EvAttach env cursor recovery reset rep" store]
    inv_life_step [of l "None :: unit validator" "EvAttach env cursor recovery reset rep" store] assms by simp_all

lemma sv_moves_finish:
  assumes ok: "ok (ad_auth_again env)" and k: "sv_wf s \<Longrightarrow> k < length (mg_objects (sv_leases s))"
  shows "sv_moves ok s (admit_finish env rq k a s)"
proof -
  have deny: "sv_moves ok s (deny_admission rq why reason s1)" if "sv_moves ok s s1" for why reason and s1 :: "'a service"
    unfolding deny_admission_def Let_def
    by (rule sv_moves_wait, rule sv_moves_trans [OF that sv_moves_release_device])
  have mark: "sv_moves ok s (mark_admission rq k a s1)"
    if m: "sv_moves ok s s1" and l: "sv_leases s1 = sv_leases s" for s1 :: "'a service"
  proof -
    let ?c = "rq_channel rq"
    obtain r ch where ma: "mark_admitted (sv_channels s1 ! ?c) = (r, ch)" by fastforce
    have adm: "nc_admitted (sv_channels s1 ! ?c) \<longrightarrow> nc_admitted ch"
      using ma by (auto simp: mark_admitted_def split: sum.splits if_splits)
    have mc: "sv_moves ok s (put_channel ?c ch s1)" by (rule sv_moves_trans [OF m sv_moves_channel [OF adm]])
    let ?s2 = "put_channel ?c ch s1" and ?l = "lease_detach a ''admission_failed'' (the_lease (sv_leases s1) k)"
    have s2: "sv_leases ?s2 = sv_leases s" using l by (simp add: put_channel_def)
    have "sv_moves ok s (put_lease k ?l store ?s2)" for store
    proof (cases "sv_wf s")
      case True
      have "sv_moves ok ?s2 (put_lease k ?l store ?s2)"
      proof (rule sv_moves_lease)
        show "k < length (mg_objects (sv_leases ?s2))" using k [OF True] s2 by simp
        show "progressed (the_lease (sv_leases ?s2) k) ?l" using s2 l by (simp add: progressed_same)
        show "inv_life ?l" if "inv_life (the_lease (sv_leases ?s2) k)"
          using that s2 l inv_life_cong [of ?l "the_lease (sv_leases s) k"] by simp
      qed
      then show ?thesis by (rule sv_moves_trans [OF mc])
    qed (simp add: sv_moves_def)
    then have "sv_moves ok s (reject ?c reason (put_lease k ?l store ?s2))" for reason store by (rule sv_moves_reject)
    moreover have "sv_moves ok s (?s2\<lparr>sv_admission := None, sv_outcomes := os\<rparr>)" for os
      by (rule sv_moves_frame [OF mc]) simp_all
    ultimately show ?thesis using ma by (cases r) (simp_all add: mark_admission_def Let_def)
  qed
  let ?dev = "en_device_id (rq_envelope rq)"
  obtain r st where e: "device_epoch (ad_auth_again env) ?dev (sv_auth s) = (r, st)" by fastforce
  have m1: "sv_moves ok s (s\<lparr>sv_auth := st\<rparr>)" by (rule sv_moves_auth [OF auth_moves_epoch [where ok = ok, OF e ok]])
  note all = sv_moves_reject [OF sv_moves_refl] sv_moves_reject [OF m1] deny [OF sv_moves_refl] deny [OF m1] mark [OF m1]
  show ?thesis
  proof (cases "remote_static_public (sv_channels s ! rq_channel rq)")
    case key: (Inr key)
    show ?thesis
    proof (cases "is_authorized ?dev key (sv_auth s)")
      case auth: (Inr b)
      show ?thesis
      proof (cases r)
        case (Inr epoch)
        show ?thesis
        proof (cases "ad_profile_again env")
          case (Some p)
          then show ?thesis using all key auth e Inr by (cases b; cases p) (simp_all add: admit_finish_def Let_def)
        qed (use all key auth e Inr in \<open>cases b; simp add: admit_finish_def Let_def\<close>)
      qed (use all key auth e in \<open>cases b; simp add: admit_finish_def\<close>)
    qed (use all key in \<open>simp add: admit_finish_def\<close>)
  qed (use all in \<open>simp add: admit_finish_def\<close>)
qed

lemma sv_moves_upgrade:
  assumes "upgrade_lease env k s = (r, s')" and "sv_wf s \<Longrightarrow> k < length (mg_objects (sv_leases s))"
  shows "sv_moves ok s s'"
proof -
  obtain r1 s1 where st: "service_store env s = (r1, s1)" by fastforce
  have m1: "sv_moves ok s s1" by (rule sv_moves_store [OF st])
  have same: "sv_leases s1 = sv_leases s" "sv_info s1 = sv_info s" "sv_auth s1 = sv_auth s" "sv_channels s1 = sv_channels s"
    using st by (auto simp: service_store_def split: option.splits sum.splits)
  let ?l = "the_lease (sv_leases s1) k"
  let ?pj = "ls_projection ?l"
  obtain res tasks store where p: "persist_all (ae_authorizer (ad_attach env)) (ad_persist env) ?pj (pj_tasks ?pj) (sv_store s1) = (res, tasks, store)"
    by (metis prod.exhaust)
  let ?s2 = "s1\<lparr>sv_info := (sv_info s1)[k := (sv_info s1 ! k)\<lparr>li_recovery := True\<rparr>]\<rparr>"
  have epoch: "li_epoch ((sv_info s1)[k := (sv_info s1 ! k)\<lparr>li_recovery := True\<rparr>] ! j) = li_epoch (sv_info s1 ! j)"
    if "j < length (sv_info s1)" for j using that by (cases "j = k") simp_all
  have m2: "sv_moves ok s1 ?s2" using epoch by (simp add: sv_moves_def sv_wf_def auth_moves.stay)
  have "sv_moves ok ?s2 (put_lease k (?l\<lparr>ls_projection := pj\<rparr>) store ?s2)" for pj
    by (rule sv_moves_lease) (use assms(2) same in \<open>auto simp: sv_wf_def progressed_same inv_life_def\<close>)
  from sv_moves_trans [OF sv_moves_trans [OF m1 m2] this] show ?thesis
    using assms(1) st m1 p by (cases r1) (auto simp: upgrade_lease_def Let_def)
qed

lemma upgrade_length:
  assumes "upgrade_lease env k s = (r, s')"
  shows "length (mg_objects (sv_leases s')) = length (mg_objects (sv_leases s))"
  using assms by (auto simp: upgrade_lease_def service_store_def Let_def put_lease_def upd_lease_def
      split: prod.splits sum.splits option.splits)

lemma get_bound: "mg_get device channel m = (Some k, m') \<Longrightarrow> mg_ok m \<Longrightarrow> k < length (mg_objects m)"
  using mg_get_cases(2) [of device channel m "Some k" m' k] by (auto simp: mg_ok_def dest: mg_invD(4))

lemma sv_moves_reattach:
  assumes "reattach_lease env rq cursor recovery rep s = (r, s')"
  shows "sv_moves ok s s'" and "r = Inr (k, a) \<Longrightarrow> sv_wf s \<Longrightarrow> k < length (mg_objects (sv_leases s'))"
proof -
  let ?d = "en_device_id (rq_envelope rq)" and ?c = "en_channel (rq_envelope rq)"
  obtain o1 m where g: "mg_get ?d ?c (sv_leases s) = (o1, m)" by fastforce
  let ?s1 = "s\<lparr>sv_leases := m\<rparr>"
  have m1: "sv_moves ok s ?s1" by (rule sv_moves_get [OF g])
  have both: "sv_moves ok s s' \<and> (\<forall>k a. r = Inr (k, a) \<longrightarrow> sv_wf s \<longrightarrow> k < length (mg_objects (sv_leases s')))"
  proof (cases o1)
    case None
    then show ?thesis using assms g m1 by (auto simp: reattach_lease_def)
  next
    case (Some j)
    have j: "sv_wf s \<Longrightarrow> j < length (mg_objects m)" using get_bound [of ?d ?c "sv_leases s" j m] g Some length_get [OF g]
      by (simp add: sv_wf_def)
    have wfs: "sv_wf ?s1 = sv_wf s" if "sv_wf s" using m1 that by (simp add: sv_moves_def)
    show ?thesis
    proof (cases "ls_profile (the_lease m j) \<noteq> en_profile (rq_envelope rq)")
      case True
      then show ?thesis using assms g Some m1 by (auto simp: reattach_lease_def Let_def)
    next
      case prof: False
      obtain r2 s2 where u: "(if recovery \<and> \<not> li_recovery (sv_info ?s1 ! j) then upgrade_lease env j ?s1 else (Inr (), ?s1)) = (r2, s2)" by fastforce
      have "sv_moves ok ?s1 s2 \<and> length (mg_objects (sv_leases s2)) = length (mg_objects m)" if wf: "sv_wf s"
        using u sv_moves_upgrade [of env j ?s1 r2 s2 ok] upgrade_length [of env j ?s1 r2 s2] j [OF wf] by (auto split: if_splits)
      then have m2: "sv_moves ok s s2" and l2: "sv_wf s \<Longrightarrow> length (mg_objects (sv_leases s2)) = length (mg_objects m)"
        using sv_moves_trans [OF m1, of s2] by (auto simp: sv_moves_def)
      show ?thesis
      proof (cases r2)
        case (Inl e)
        then show ?thesis using assms g Some prof u m2 by (auto simp: reattach_lease_def Let_def)
      next
        case (Inr x)
        obtain r3 l store where at: "(lease_attach (ad_attach env) cursor recovery False rep (the_lease (sv_leases s2) j) (lease_store j s2)
            :: (unit lease_error + nat) \<times> lease \<times> store_ref) = (r3, l, store)" by (metis prod.exhaust)
        have m3: "sv_moves ok s (put_lease j l store s2)"
        proof (cases "sv_wf s")
          case wf: True
          have "sv_moves ok s2 (put_lease j l store s2)"
            by (rule sv_moves_lease [OF _ attach_progress [OF at]]) (simp add: j [OF wf] l2 [OF wf])
          then show ?thesis by (rule sv_moves_trans [OF m2])
        qed (simp add: sv_moves_def)
        have "length (mg_objects (sv_leases (put_lease j l store s2))) = length (mg_objects (sv_leases s2))"
          by (simp add: put_lease_def upd_lease_def)
        moreover have "s' = put_lease j l store s2 \<and> (\<forall>k a. r = Inr (k, a) \<longrightarrow> k = j)"
        proof (cases r3)
          case (Inl e)
          then show ?thesis using assms g Some prof u Inr at by (cases e) (auto simp: reattach_lease_def)
        next
          case r3: (Inr b)
          show ?thesis using assms g Some prof u Inr at unfolding r3 by (auto simp: reattach_lease_def)
        qed
        ultimately show ?thesis using j l2 m3 by auto
      qed
    qed
  qed
  then show "sv_moves ok s s'" and "r = Inr (k, a) \<Longrightarrow> sv_wf s \<Longrightarrow> k < length (mg_objects (sv_leases s'))" by blast+
qed

lemma sv_moves_identity: "load_or_create_identity env (sv_auth s) = Inr (i, st) \<Longrightarrow> sv_moves ok s (s\<lparr>sv_auth := st\<rparr>)"
  by (rule sv_moves_auth, rule auth_moves_identity)

lemma sv_moves_runtime [simp]: "sv_moves ok s (s1\<lparr>sv_runtime := rt\<rparr>) = sv_moves ok s s1"
  by (simp add: sv_moves_def sv_wf_def)

lemma sv_moves_open_runtime: "sv_moves ok s (open_runtime env rq recovery reset s)"
proof -
  obtain r1 s1 where st: "(if recovery then service_store env s else (Inr (), s)) = (r1, s1)" by fastforce
  have m1: "sv_moves ok s s1" using st sv_moves_store [of env s r1 s1] by (auto split: if_splits)
  show ?thesis
  proof (cases r1)
    case (Inl e)
    then show ?thesis using st sv_moves_reject [OF m1] by (simp add: open_runtime_def)
  next
    case (Inr u)
    show ?thesis
    proof (cases "load_or_create_identity (ad_auth env) (sv_auth s1)")
      case (Inl e)
      then show ?thesis using st Inr sv_moves_reject [OF m1] by (simp add: open_runtime_def)
    next
      case id: (Inr x)
      obtain i ast where x: "x = (i, ast)" by (cases x)
      have m2: "sv_moves ok s (s1\<lparr>sv_auth := ast\<rparr>)" by (rule sv_moves_trans [OF m1 sv_moves_identity [OF id [unfolded x]]])
      obtain r3 rt where o: "open_begin (ad_open env) (en_profile (rq_envelope rq)) (sv_runtime s1) = (r3, rt)" by fastforce
      have m3: "sv_moves ok s (s1\<lparr>sv_auth := ast, sv_runtime := rt\<rparr>)" using m2 by simp
      show ?thesis
      proof (cases r3)
        case (Inl e)
        then show ?thesis using st Inr id x o sv_moves_reject [OF m3] by (cases e) (simp_all add: open_runtime_def Let_def)
      qed (use st Inr id x o sv_moves_wait [OF m3] in \<open>simp add: open_runtime_def Let_def\<close>)
    qed
  qed
qed

lemma sv_moves_open_lease: "sv_moves ok s (open_lease env rq recovery reset s)"
proof (cases "remote_static_public (sv_channels s ! rq_channel rq)")
  case (Inl e)
  then show ?thesis by (simp add: open_lease_def Let_def sv_moves_reject)
next
  case (Inr key)
  let ?d = "en_device_id (rq_envelope rq)" and ?c = "en_channel (rq_envelope rq)"
  obtain o1 m where g: "mg_get ?d ?c (sv_leases s) = (o1, m)" by fastforce
  have m1: "sv_moves ok s (s\<lparr>sv_leases := m\<rparr>)" by (rule sv_moves_get [OF g])
  show ?thesis
  proof (cases o1)
    case None
    then show ?thesis using Inr g sv_moves_trans [OF m1 sv_moves_open_runtime] by (simp add: open_lease_def Let_def)
  next
    case (Some k)
    have "sv_moves ok s (s\<lparr>sv_leases := snd (mg_release_lease ?d ?c ''superseded'' m)\<rparr>)"
      using sv_moves_trans [OF m1 sv_moves_release_lease [of ok "s\<lparr>sv_leases := m\<rparr>" ?d ?c "''superseded''"]] by simp
    then show ?thesis using Inr g Some by (simp add: open_lease_def Let_def sv_moves_wait)
  qed
qed

lemma sv_moves_abandon:
  assumes "sv_wf s \<Longrightarrow> k < length (mg_objects (sv_leases s))"
  shows "sv_moves ok s (abandon_lease rq k s)"
proof (cases "sv_wf s")
  case True
  let ?d = "en_device_id (rq_envelope rq)" and ?c = "en_channel (rq_envelope rq)"
  obtain o1 m where g: "mg_get ?d ?c (sv_leases s) = (o1, m)" by fastforce
  have m1: "sv_moves ok s (s\<lparr>sv_leases := m\<rparr>)" by (rule sv_moves_get [OF g])
  let ?l = "snd (lease_release ''admission_failed'' (the_lease m k))"
  have k: "k < length (mg_objects m)" using assms [OF True] length_get [OF g] by simp
  have "mg_move m (upd_lease k ?l m)"
    by (rule mg_move_upd [OF k]) (simp_all add: progressed_release life_release)
  then have "sv_moves ok (s\<lparr>sv_leases := m\<rparr>) (s\<lparr>sv_leases := upd_lease k ?l m\<rparr>)"
    using sv_moves_leases [of "s\<lparr>sv_leases := m\<rparr>" "upd_lease k ?l m" ok] by (simp add: upd_lease_def)
  from sv_moves_trans [OF m1 this]
    sv_moves_trans [OF m1 sv_moves_release_lease [of ok "s\<lparr>sv_leases := m\<rparr>" ?d ?c "''admission_failed''"]]
  show ?thesis using g by (simp add: abandon_lease_def Let_def sv_moves_wait)
qed (simp add: sv_moves_def)

lemma sv_moves_install:
  assumes "ok (ad_auth_again env)"
  shows "sv_moves ok s (install_lease env rq cid pj recovery reset s)"
proof (cases "sv_wf s")
  case wf: True
  let ?e = "rq_envelope rq" and ?m = "sv_leases s"
  let ?k = "length (mg_objects ?m)"
  let ?new = "new_lease (en_device_id ?e) (en_channel ?e) (en_profile ?e) (ad_lease_id env) (sv_limits s) True pj (ad_websocket env)"
  show ?thesis
  proof (cases ?new)
    case (Inl e)
    then show ?thesis by (simp add: install_lease_def Let_def sv_moves_reject)
  next
    case (Inr l)
    let ?info = "sv_info s @ [\<lparr>li_epoch = rq_epoch rq, li_controller = cid, li_key = rq_key rq, li_recovery = recovery\<rparr>]"
    let ?mc = "?m\<lparr>mg_objects := mg_objects ?m @ [l]\<rparr>"
    obtain r m1 where reg: "mg_register ?k ?mc = (r, m1)" by fastforce
    have len: "length (mg_objects m1) = Suc ?k"
      using register_objects(1) [OF reg] by simp
    have "mg_move ?mc m1" by (rule mg_move_register [OF _ reg]) simp
    then have mv: "mg_move ?m m1" by (rule mg_move_trans [OF mg_move_create [OF Inr]])
    define s2 where "s2 = s\<lparr>sv_info := ?info, sv_leases := m1\<rparr>"
    have s2': "sv_leases s2 = m1" by (simp add: s2_def)
    have m2: "sv_moves ok s s2"
      using mv wf len by (auto simp: s2_def sv_moves_def sv_wf_def auth_moves.stay mg_move_def nth_append)
    have ab: "sv_moves ok s (abandon_lease rq ?k s3)" if "sv_moves ok s s3" "length (mg_objects (sv_leases s3)) = Suc ?k" for s3 :: "'a service"
      by (rule sv_moves_trans [OF that(1) sv_moves_abandon]) (simp add: that(2))
    show ?thesis
    proof (cases r)
      case (Inl e)
      then show ?thesis using Inr reg ab [OF m2] len by (simp add: install_lease_def Let_def s2_def)
    next
      case r: (Inr u)
      obtain r3 l1 store where at: "(lease_attach (ad_attach env) 0 recovery reset False (the_lease m1 ?k) (lease_store ?k s2)
            :: (unit lease_error + nat) \<times> lease \<times> store_ref) = (r3, l1, store)" by (metis prod.exhaust)
      have at': "(lease_attach (ad_attach env) 0 recovery reset False (the_lease (sv_leases s2) ?k) (lease_store ?k s2)
            :: (unit lease_error + nat) \<times> lease \<times> store_ref) = (r3, l1, store)" using at by (simp add: s2')
      have "sv_moves ok s2 (put_lease ?k l1 store s2)"
        by (rule sv_moves_lease [OF _ attach_progress [OF at']]) (simp add: s2' len)
      then have m3: "sv_moves ok s (put_lease ?k l1 store s2)" by (rule sv_moves_trans [OF m2])
      have len3: "length (mg_objects (sv_leases (put_lease ?k l1 store s2))) = Suc ?k"
        by (simp add: put_lease_def upd_lease_def s2' len)
      have fin: "sv_moves ok s (admit_finish env rq ?k a (put_lease ?k l1 store s2))" for a
        by (rule sv_moves_trans [OF m3 sv_moves_finish [where ok = ok, OF assms]]) (simp add: len3)
      have "install_lease env rq cid pj recovery reset s =
          (case r3 of Inl _ \<Rightarrow> abandon_lease rq ?k (put_lease ?k l1 store s2) | Inr a \<Rightarrow> admit_finish env rq ?k a (put_lease ?k l1 store s2))"
        unfolding install_lease_def Let_def using Inr reg r at by (simp add: s2_def split: sum.split)
      then show ?thesis using ab [OF m3 len3] fin by (cases r3) simp_all
    qed
  qed
qed (simp add: sv_moves_def)

lemma sv_moves_select:
  assumes "ok (ad_auth_again env)"
  shows "sv_moves ok s (admit_select env rq existing s)"
proof -
  let ?cur = "en_resume_cursor (rq_envelope rq)" and ?rec = "en_recovery_version (rq_envelope rq) = Some 1"
  let ?n = "case ?cur of None \<Rightarrow> 0 | Some n \<Rightarrow> n"
  obtain r s1 where re: "reattach_lease env rq ?n ?rec (?rec \<and> ?cur \<noteq> None) s = (r, s1)" by fastforce
  have m1: "sv_moves ok s s1" by (rule sv_moves_reattach(1) [OF re])
  have "sv_moves ok s (case r of Inl reason \<Rightarrow> reject (rq_channel rq) reason s1 | Inr (k, a) \<Rightarrow> admit_finish env rq k a s1)"
  proof (cases r)
    case (Inr ka)
    obtain k a where ka: "ka = (k, a)" by (cases ka)
    show ?thesis
    proof (cases "sv_wf s")
      case True
      have "sv_moves ok s1 (admit_finish env rq k a s1)"
        by (rule sv_moves_finish [where ok = ok, OF assms]) (use sv_moves_reattach(2) [OF re _ True] Inr ka in blast)
      from sv_moves_trans [OF m1 this] show ?thesis using Inr ka by simp
    qed (simp add: sv_moves_def)
  qed (use sv_moves_reject [OF m1] in simp)
  then show ?thesis using re by (simp add: admit_select_def Let_def sv_moves_open_lease)
qed

lemma sv_moves_device:
  assumes ok: "ok (ad_auth env)" "ok (ad_auth_again env)"
  shows "sv_moves ok s (admit_device env c key e s)"
proof -
  obtain r st where ep: "device_epoch (ad_auth env) (en_device_id e) (sv_auth s) = (r, st)" by fastforce
  have m1: "sv_moves ok s (s\<lparr>sv_auth := st\<rparr>)" by (rule sv_moves_auth [OF auth_moves_epoch [where ok = ok, OF ep ok(1)]])
  obtain o1 m where g: "mg_get (en_device_id e) (en_channel e) (sv_leases s) = (o1, m)" by fastforce
  have m2: "sv_moves ok s (s\<lparr>sv_auth := st, sv_leases := m\<rparr>)"
    using sv_moves_trans [OF m1 sv_moves_get [of _ _ "s\<lparr>sv_auth := st\<rparr>"]] g by simp
  have m3: "sv_moves ok s (s\<lparr>sv_auth := st, sv_leases := mg_release_device (en_device_id e) why m\<rparr>)" for why
    using sv_moves_trans [OF m2 sv_moves_release_device [of ok _ "en_device_id e" why]] by simp
  note sel = sv_moves_trans [OF m2 sv_moves_select [where ok = ok, OF ok(2)]]
  show ?thesis
  proof (cases "ad_profile env")
    case (Some p)
    show ?thesis
    proof (cases r)
      case (Inr epoch)
      then show ?thesis using Some ep g sel sv_moves_wait [OF m3]
        by (cases p; cases o1) (simp_all add: admit_device_def Let_def sv_moves_reject)
    qed (use Some ep sv_moves_reject [OF m1] in \<open>cases p; simp add: admit_device_def sv_moves_reject\<close>)
  qed (simp add: admit_device_def sv_moves_reject)
qed

lemma decrypt_admitted: "nc_admitted (snd (ch_decrypt N ch x)) = nc_admitted ch"
  by (auto simp: ch_decrypt_def ch_fail_def Let_def split: sum.split channel_error.split option.split prod.split)

lemma sv_moves_begin:
  assumes ok: "ok (ad_auth env)" "ok (ad_auth_again env)"
  shows "sv_moves ok s (admit_begin N env c x s)"
proof (cases "unclaimed (sv_channels s ! c)")
  case (Some reason)
  then show ?thesis by (simp add: admit_begin_def sv_moves_frame [OF sv_moves_refl])
next
  case None
  obtain r ch where d: "ch_decrypt N (sv_channels s ! c) x = (r, ch)" by fastforce
  have "nc_admitted ch = nc_admitted (sv_channels s ! c)" using decrypt_admitted [of N "sv_channels s ! c" x] d by simp
  then have m1: "sv_moves ok s (put_channel c ch s)" by (intro sv_moves_channel) simp
  note rej = sv_moves_reject [OF m1]
  show ?thesis
  proof (cases r)
    case (Inl e)
    then show ?thesis using None d rej by (simp add: admit_begin_def)
  next
    case r: (Inr plain)
    show ?thesis
    proof (cases "parse_controller_auth (ad_limit env) plain")
      case None
      then show ?thesis using \<open>unclaimed _ = None\<close> d r rej by (simp add: admit_begin_def Let_def)
    next
      case e: (Some e)
      show ?thesis
      proof (cases "remote_static_public ch")
        case (Inl err)
        then show ?thesis using None d r e rej by (simp add: admit_begin_def Let_def)
      next
        case key: (Inr key)
        define s2 where "s2 = (case en_device_name e of None \<Rightarrow> put_channel c ch s
          | Some name \<Rightarrow> (put_channel c ch s)\<lparr>sv_auth := snd (note_device_name (ad_auth env) (en_device_id e) key name (sv_auth (put_channel c ch s)))\<rparr>)"
        have "sv_moves ok (put_channel c ch s) s2"
        proof (cases "en_device_name e")
          case (Some name)
          show ?thesis unfolding s2_def Some option.case
            by (rule sv_moves_auth) (use auth_moves_event [of ok "EName (ad_auth env) (en_device_id e) key name"] ok(1) in simp)
        qed (simp add: s2_def)
        then have m2: "sv_moves ok s s2" by (rule sv_moves_trans [OF m1])
        have "admit_begin N env c x s =
            (case is_authorized (en_device_id e) key (sv_auth s2) of
               Inl (IdentityError _) \<Rightarrow> reject c ''invalid_auth_envelope'' s2
             | Inl _ \<Rightarrow> reject c ''device_not_authorized'' s2
             | Inr False \<Rightarrow> reject c ''device_not_authorized'' s2
             | Inr True \<Rightarrow> admit_device env c key e s2)"
          unfolding admit_begin_def Let_def None option.case d r e key s2_def prod.case sum.case ..
        moreover note sv_moves_reject [OF m2] sv_moves_trans [OF m2 sv_moves_device [where ok = ok, OF ok]]
        ultimately show ?thesis
          by (simp split: sum.split auth_error.split bool.split)
      qed
    qed
  qed
qed

lemma sv_moves_resume:
  assumes "ok (ad_auth_again env)"
  shows "sv_moves ok s (admit_resume env cancelled s)"
  using sv_moves_select [where ok = ok, OF assms, of s] sv_moves_open_runtime [of ok s env] sv_moves_reject [OF sv_moves_refl, of ok s]
    sv_moves_cancel [OF sv_moves_refl, of ok s]
  by (simp add: admit_resume_def split: option.split admission_wait.split)

lemma sv_moves_opened:
  assumes "ok (ad_auth_again env)"
  shows "sv_moves ok s (admit_opened env started s)"
proof -
  have "sv_moves ok s (install_lease env rq cid pj recovery reset (s\<lparr>sv_runtime := rt\<rparr>))" for rq cid pj recovery reset rt
    by (rule sv_moves_trans [OF _ sv_moves_install [where ok = ok, OF assms]]) simp
  moreover have "sv_moves ok s (wait_for rq w (s\<lparr>sv_runtime := rt\<rparr>))" for rq w rt by (rule sv_moves_wait) simp
  ultimately show ?thesis
    by (simp add: admit_opened_def split: option.split admission_wait.split prod.split)
qed

lemma sv_moves_aborted: "sv_moves ok s (admit_aborted cancelled s)"
  by (simp add: admit_aborted_def Let_def sv_moves_reject sv_moves_cancel split: option.split admission_wait.split)

lemma admitted_channel_step: "nc_admitted ch \<Longrightarrow> nc_admitted (ch_step N ev ch)"
  using ch_step_move [of ch N ev]
  by (cases rule: ch_move.cases) (auto simp: advanced_def broken_def)

lemma sv_moves_pairing:
  assumes "ok env"
  shows "sv_moves ok s (snd (complete_pairing env c payload s))"
proof -
  have m: "sv_moves ok s (put_channel c ch' (s\<lparr>sv_auth := st\<rparr>))"
    if "consume_offer env payload key binding (sv_auth s) = (r, st)" "nc_admitted (sv_channels s ! c) \<longrightarrow> nc_admitted ch'" for key binding r st ch'
  proof -
    have "auth_moves ok (sv_auth s) st" using auth_moves_event [of ok "EConsume env payload key binding" "sv_auth s"] assms that(1) by simp
    then have "sv_moves ok s (s\<lparr>sv_auth := st\<rparr>)" by (rule sv_moves_auth)
    moreover have "sv_moves ok (s\<lparr>sv_auth := st\<rparr>) (put_channel c ch' (s\<lparr>sv_auth := st\<rparr>))" by (rule sv_moves_channel) (simp add: that(2))
    ultimately show ?thesis by (rule sv_moves_trans)
  qed
  have closed: "sv_moves ok s (put_channel c (ch_close (sv_channels s ! c)) s)" by (rule sv_moves_channel) simp
  obtain r1 ch1 where ma: "mark_admitted (sv_channels s ! c) = (r1, ch1)" by fastforce
  have adm: "nc_admitted (sv_channels s ! c) \<longrightarrow> nc_admitted ch1" using ma by (auto simp: mark_admitted_def split: sum.splits if_splits)
  show ?thesis
    using m closed ma adm
    by (simp add: complete_pairing_def Let_def split: option.split sum.split prod.split auth_error.split)
qed

lemma sv_moves_read:
  assumes "ok env" and "k < length (mg_objects (sv_leases s))"
  shows "sv_moves ok s (finish_read env k i result s)"
proof -
  let ?l = "the_lease (sv_leases s) k"
  obtain allowed st where al: "read_allowed env (ls_device_id ?l) (sv_info s ! k) (sv_auth s) = (allowed, st)" by fastforce
  have "auth_moves ok (sv_auth s) st"
    using al auth_moves_epoch [of env "ls_device_id ?l" "sv_auth s" _ st ok] assms(1)
    by (auto simp: read_allowed_def auth_moves.stay split: if_splits prod.splits)
  then have m1: "sv_moves ok s (s\<lparr>sv_auth := st\<rparr>)" by (rule sv_moves_auth)
  let ?r = "if allowed then result else DispatchError (lit ''device_not_authorized'')"
  have "mg_move (sv_leases s) (upd_lease k (finish_task i ?r ?l) (sv_leases s))"
    by (rule mg_move_upd [OF assms(2)])
      (use inv_life_step [of ?l "None :: unit validator" "EvTaskDone i ?r" None] in \<open>simp_all add: progressed_same\<close>)
  then have "sv_moves ok (s\<lparr>sv_auth := st\<rparr>) (s\<lparr>sv_auth := st, sv_leases := upd_lease k (finish_task i ?r ?l) (sv_leases s)\<rparr>)"
    using sv_moves_leases [of "s\<lparr>sv_auth := st\<rparr>"] by (simp add: upd_lease_def)
  from sv_moves_trans [OF m1 this] show ?thesis using al by (simp add: finish_read_def Let_def)
qed

lemma sv_moves_lease_does: "sv_moves ok s (lease_does validator k ev s)"
proof (cases "k < length (mg_objects (sv_leases s))")
  case True
  obtain l store where st: "lease_step validator ev (the_lease (sv_leases s) k, lease_store k s) = (l, store)" by fastforce
  have "sv_moves ok s (put_lease k l store s)"
    using progressed_step [of "the_lease (sv_leases s) k" validator ev "lease_store k s"]
      inv_life_step [of "the_lease (sv_leases s) k" validator ev "lease_store k s"] st True
    by (intro sv_moves_lease) simp_all
  then show ?thesis using st by (simp add: lease_does_def)
qed (simp add: lease_does_def)

lemma sv_moves_revoke:
  assumes "ok env"
  shows "sv_moves ok s (snd (revoke_device env did s))"
proof -
  obtain r st where rv: "revoke env did (sv_auth s) = (r, st)" by fastforce
  have m1: "sv_moves ok s (s\<lparr>sv_auth := st\<rparr>)"
    using auth_moves_event [of ok "ERevoke env did" "sv_auth s"] assms rv by (intro sv_moves_auth) simp
  have "sv_moves ok s (s\<lparr>sv_auth := st, sv_leases := mg_release_device did ''revoked'' (sv_leases s)\<rparr>)"
    using sv_moves_trans [OF m1 sv_moves_release_device [of ok _ did "''revoked''"]] by simp
  then have "sv_moves ok s (s\<lparr>sv_auth := st, sv_leases := mg_release_device did ''revoked'' (sv_leases s), sv_revoking := xs\<rparr>)" for xs
    by (rule sv_moves_frame) simp_all
  then show ?thesis using rv m1 by (cases r) (simp_all add: revoke_device_def)
qed

lemma sv_moves_revoke_finish: "sv_moves ok s (revoke_finish env now write_ok i s)"
proof -
  have m: "sv_moves ok s (s\<lparr>sv_revoking := xs, sv_auth := st, sv_store := store\<rparr>)"
    if "load_or_create_identity env (sv_auth s) = Inr (ident, st)" for xs st store ident
    by (rule sv_moves_frame [OF sv_moves_identity [OF that]]) simp_all
  have "sv_moves ok s (s\<lparr>sv_revoking := xs\<rparr>)" for xs by (rule sv_moves_frame [OF sv_moves_refl]) simp_all
  then show ?thesis using m
    by (simp add: revoke_finish_def Let_def split: prod.split option.split sum.split)
qed

fun event_ok :: "(auth_env \<Rightarrow> bool) \<Rightarrow> sv_event \<Rightarrow> bool" where
  \<comment> \<open>a condition on every environment of the repository in an event\<close>
  "event_ok ok (SvPair env _ _) = ok env"
| "event_ok ok (SvBegin env _ _) = (ok (ad_auth env) \<and> ok (ad_auth_again env))"
| "event_ok ok (SvResume env _) = ok (ad_auth_again env)"
| "event_ok ok (SvOpened env _) = ok (ad_auth_again env)"
| "event_ok ok (SvRead env _ _ _) = ok env"
| "event_ok ok (SvRevoke env _) = ok env"
| "event_ok ok (SvAuth ev) = ok (event_env ev)"
| "event_ok ok _ = True"

lemma sv_moves_step:
  assumes "event_ok ok ev"
  shows "sv_moves ok s (sv_step N validator ev s)"
proof (cases ev)
  case (SvChannel env)
  have "sv_moves ok s (s\<lparr>sv_auth := st, sv_channels := sv_channels s @ [ch]\<rparr>)" if "auth_moves ok (sv_auth s) st" for st ch
    using that by (simp add: sv_moves_def sv_wf_def nth_append)
  then show ?thesis using auth_moves_identity [of env "sv_auth s" _ _ ok]
    by (auto simp: SvChannel new_host_channel_def intro: sv_moves_auth split: sum.split)
next
  case (SvChannelOp c e)
  have "sv_moves ok s (put_channel c (ch_step N e (sv_channels s ! c)) s)"
    by (rule sv_moves_channel) (simp add: admitted_channel_step)
  then show ?thesis by (simp add: SvChannelOp)
next
  case (SvPair env c payload)
  then show ?thesis using assms by (simp add: sv_moves_pairing)
next
  case (SvBegin env c x)
  then show ?thesis using assms by (simp add: sv_moves_begin)
next
  case (SvResume env cancelled)
  then show ?thesis using assms by (simp add: sv_moves_resume)
next
  case (SvOpened env started)
  then show ?thesis using assms by (simp add: sv_moves_opened)
next
  case (SvAborted cancelled)
  then show ?thesis by (simp add: sv_moves_aborted)
next
  case (SvRead env k i result)
  then show ?thesis using assms by (simp add: sv_moves_read)
next
  case (SvLease k e)
  then show ?thesis by (simp add: sv_moves_lease_does)
next
  case (SvRuntime e)
  then show ?thesis by simp
next
  case (SvRevoke env did)
  then show ?thesis using assms by (simp add: sv_moves_revoke)
next
  case (SvRevoked env now write_ok i)
  then show ?thesis by (simp add: sv_moves_revoke_finish)
next
  case (SvAuth e)
  then show ?thesis using assms auth_moves_event [of ok e] by (simp add: sv_moves_auth)
next
  case (SvBind am cid)
  obtain r ch where t: "(new_transport (sv_channels s ! am_channel am) (am_attachment am) cid :: (transport_error + 'a transport) \<times> 'a noise_channel) = (r, ch)"
    by fastforce
  have "nc_admitted (sv_channels s ! am_channel am) \<longrightarrow> nc_admitted ch"
    using t by (auto simp: new_transport_def mark_transport_bound_def split: sum.splits if_splits)
  then have "sv_moves ok s (put_channel (am_channel am) ch s)" by (rule sv_moves_channel)
  then show ?thesis using t by (simp add: SvBind bind_controller_def)
next
  case SvClose
  have "length (mg_objects (mg_close m)) = length (mg_objects m)" for m
  proof -
    have "length (mg_objects (mg_release_all ks reason x)) = length (mg_objects x)" for ks reason x
      unfolding mg_release_all_def by (induction ks arbitrary: x) simp_all
    then show ?thesis by (simp add: mg_close_def)
  qed
  then have "sv_moves ok s (s\<lparr>sv_leases := mg_close (sv_leases s)\<rparr>)" by (intro sv_moves_leases) (simp_all add: mg_move_close)
  then have "sv_moves ok s (s\<lparr>sv_closed := True, sv_leases := mg_close (sv_leases s)\<rparr>)" by (rule sv_moves_frame) simp_all
  then show ?thesis by (simp add: SvClose close_service_def)
qed

lemma sv_moves_run: "list_all (event_ok ok) es \<Longrightarrow> sv_moves ok s (fold (sv_step N validator) es s)"
proof (induction es arbitrary: s)
  case (Cons ev es)
  then show ?case using sv_moves_trans [OF sv_moves_step [of ok ev s N validator]] by simp
qed simp

end
