(* ===== verification/Admission_Outcome.thy ===== *)
theory Admission_Outcome
  imports Admission_Inv
begin

text \<open>
  What an admission yields: the results it adds and the state at that moment. The walk
  through \<open>open_controller\<close>, one lemma per part, ends in \<open>outcome_step\<close>.
\<close>

section \<open>The second check\<close>

lemma find_device_expired:
  assumes v: "validate_auth_state st" and v': "validate_auth_state (snd (expire_pending_in_state now age st))"
    and f: "find_device (snd (expire_pending_in_state now age st)) did = Some d" and a: "dv_status d = DAuthorized"
  shows "find_device st did = Some d"
proof -
  have "d \<in> set (as_devices (snd (expire_pending_in_state now age st)))" "dv_device_id d = did"
    using find_device_Some [OF f] by auto
  then show ?thesis using expired_authorized [OF _ a] find_device_iff [OF valid_distinct [OF v]] by blast
qed

lemma device_epoch_Inr:
  assumes "device_epoch env did st = (Inr ep, st')" and v: "validate_auth_state st"
  shows "\<exists>d. find_device st' did = Some d \<and> dv_status d = DAuthorized \<and> dv_epoch d = ep \<and> find_device st did = Some d"
    and "validate_auth_state st'"
proof -
  from assms(1) obtain ds where l: "list_devices env st = (Inr ds, st')"
    and f: "\<exists>x. find (\<lambda>d. ds_device_id d = did \<and> ds_status d = DAuthorized) ds = Some x \<and> ds_epoch x = ep"
    by (auto simp: device_epoch_def split: prod.splits sum.splits option.splits)
  from l have ld: "load_expired env MAX_TTL_SECONDS st = Inr st'" and ds: "ds = map summary_of (as_devices st')"
    by (auto simp: list_devices_def split: sum.splits)
  note st' = load_expired_Inr [OF ld]
  show "validate_auth_state st'" by (rule st'(3))
  from f obtain x where fx: "find (\<lambda>d. ds_device_id d = did \<and> ds_status d = DAuthorized) ds = Some x" and ep: "ds_epoch x = ep" by blast
  from fx have x: "x \<in> set ds" "ds_device_id x = did" "ds_status x = DAuthorized" by (auto simp: find_Some_iff)
  then obtain d where d: "d \<in> set (as_devices st')" "dv_device_id d = did" "dv_status d = DAuthorized" "dv_epoch d = ep"
    using ds ep by (auto simp: summary_of_def)
  then have "find_device st' did = Some d" using find_device_iff [OF valid_distinct [OF st'(3)]] by blast
  moreover from find_device_expired [OF v _ _ d(3)] this have "find_device st did = Some d" using st' by simp
  ultimately show "\<exists>d. find_device st' did = Some d \<and> dv_status d = DAuthorized \<and> dv_epoch d = ep \<and> find_device st did = Some d"
    using d by blast
qed

lemma epoch_keeps_authorized:
  assumes "device_epoch env did st = (Inr ep, st')" and "validate_auth_state st" and "is_authorized did key st = Inr True"
  shows "is_authorized did key st' = Inr True"
  using device_epoch_Inr [OF assms(1,2)] assms(3)
  by (auto simp: is_authorized_iff assms(2))

definition ready :: "admission_request \<Rightarrow> nat \<Rightarrow> nat \<Rightarrow> 'c service \<Rightarrow> bool" where
  \<comment> \<open>the attached lease is the registered one of the request, of the epoch the request has proven\<close>
  "ready rq k a s \<longleftrightarrow> (let l = the_lease (sv_leases s) k in
     k < length (mg_objects (sv_leases s)) \<and> lease_key_of l = (en_device_id (rq_envelope rq), en_channel (rq_envelope rq))
     \<and> ls_profile l = en_profile (rq_envelope rq)
     \<and> li_epoch (sv_info s ! k) = rq_epoch rq \<and> \<not> ls_released l \<and> ls_attachment l = Some a
     \<and> map_of (mg_leases (sv_leases s)) (en_device_id (rq_envelope rq), en_channel (rq_envelope rq)) = Some k)"

definition channel_key :: "'c service \<Rightarrow> nat \<Rightarrow> bytes option" where
  "channel_key s c = (case remote_static_public (sv_channels s ! c) of Inl _ \<Rightarrow> None | Inr key \<Rightarrow> Some key)"

definition admission_good :: "'c service \<Rightarrow> admitted \<Rightarrow> bool" where
  "admission_good s am \<longleftrightarrow>
     (let k = am_lease am; l = the_lease (sv_leases s) k; device = am_device_id am in
      (case channel_key s (am_channel am) of None \<Rightarrow> False | Some key \<Rightarrow> is_authorized device key (sv_auth s) = Inr True)
      \<and> nc_admitted (sv_channels s ! am_channel am)
      \<and> (case find_device (sv_auth s) device of None \<Rightarrow> False | Some d \<Rightarrow> dv_epoch d = li_epoch (sv_info s ! k))
      \<and> ls_device_id l = device \<and> ls_channel l = am_lease_channel am
      \<and> \<not> ls_released l \<and> ls_attachment l = Some (am_attachment am)
      \<and> map_of (mg_leases (sv_leases s)) (device, am_lease_channel am) = Some k)"

definition quiet_wait :: "(admission_request \<times> admission_wait) option \<Rightarrow> bool" where
  "quiet_wait w \<longleftrightarrow> (case w of Some (_, WaitStale _) \<Rightarrow> False | _ \<Rightarrow> True)"

definition yields :: "bool option \<Rightarrow> 'c service \<Rightarrow> 'c service \<Rightarrow> bool" where
  \<comment> \<open>every admission among the new results is a good one, and the profile was confirmed\<close>
  "yields answer s s' \<longleftrightarrow> quiet_wait (sv_admission s')
     \<and> (\<forall>rq w. sv_admission s' = Some (rq, w) \<longrightarrow> rq_channel rq < length (sv_channels s))
     \<and> (\<exists>new. sv_outcomes s' = sv_outcomes s @ new
          \<and> (\<forall>am. Admitted am \<in> set new \<longrightarrow> admission_good s' am \<and> answer = Some True \<and> am_channel am < length (sv_channels s)
               \<and> \<not> nc_admitted (sv_channels s ! am_channel am) \<and> new = [Admitted am]))"

lemma yields_frame:
  assumes "yields answer s1 s'" and "sv_outcomes s1 = sv_outcomes s" and "length (sv_channels s1) = length (sv_channels s)"
    and "\<And>c. c < length (sv_channels s) \<Longrightarrow> nc_admitted (sv_channels s ! c) \<Longrightarrow> nc_admitted (sv_channels s1 ! c)"
  shows "yields answer s s'"
  using assms unfolding yields_def by metis

lemma yields_none: "quiet_wait (sv_admission s') \<Longrightarrow> sv_outcomes s' = sv_outcomes s \<Longrightarrow>
    (case sv_admission s' of None \<Rightarrow> True | Some (rq, w) \<Rightarrow> rq_channel rq < length (sv_channels s)) \<Longrightarrow> yields answer s s'"
  by (auto simp: yields_def)

lemma yields_reject: "sv_outcomes s1 = sv_outcomes s \<Longrightarrow> yields answer s (reject c reason s1)"
  by (simp add: yields_def reject_def quiet_wait_def put_channel_def)

lemma yields_cancel: "sv_outcomes s1 = sv_outcomes s \<Longrightarrow> yields answer s (cancel_admission c s1)"
  by (simp add: yields_def cancel_admission_def quiet_wait_def put_channel_def)

lemma yields_deny: "sv_outcomes s1 = sv_outcomes s \<Longrightarrow> rq_channel rq < length (sv_channels s) \<Longrightarrow> yields answer s (deny_admission rq why reason s1)"
  by (simp add: deny_admission_def Let_def yields_none wait_for_def quiet_wait_def)

lemma mark_admitted_Inr:
  assumes "mark_admitted ch = (Inr u, ch')"
  shows "ch' = ch\<lparr>nc_admitted := True\<rparr>" "\<not> nc_admitted ch" "remote_static_public ch' = remote_static_public ch"
  using assms by (auto simp: mark_admitted_def remote_static_public_def handshake_finished_def split: sum.splits if_splits option.split)

lemma yields_mark:
  assumes s1: "s1 = s\<lparr>sv_auth := st\<rparr>" and r: "ready rq k a s" and c: "rq_channel rq < length (sv_channels s)"
    and key: "remote_static_public (sv_channels s ! rq_channel rq) = Inr key"
    and auth: "is_authorized (en_device_id (rq_envelope rq)) key st = Inr True"
    and epoch: "find_device st (en_device_id (rq_envelope rq)) = Some d" "dv_epoch d = rq_epoch rq"
  shows "yields (Some True) s (mark_admission rq k a s1)"
proof -
  let ?c = "rq_channel rq"
  obtain r1 ch where ma: "mark_admitted (sv_channels s1 ! ?c) = (r1, ch)" by fastforce
  show ?thesis
  proof (cases r1)
    case (Inl e)
    have "sv_outcomes (put_lease k l store (put_channel ?c ch s1)) = sv_outcomes s" for l store
      by (simp add: put_lease_def put_channel_def s1)
    then show ?thesis using ma Inl by (simp add: mark_admission_def Let_def yields_reject)
  next
    case (Inr u)
    note m = mark_admitted_Inr [OF ma [unfolded Inr]]
    let ?am = "\<lparr>am_device_id = en_device_id (rq_envelope rq), am_channel = ?c, am_lease = k, am_attachment = a,
                am_lease_channel = en_channel (rq_envelope rq)\<rparr>"
    let ?s' = "(put_channel ?c ch s1)\<lparr>sv_admission := None, sv_outcomes := sv_outcomes s1 @ [Admitted ?am]\<rparr>"
    have ch: "sv_channels ?s' ! ?c = ch" using c by (simp add: put_channel_def s1)
    have rest: "sv_auth ?s' = st" "sv_leases ?s' = sv_leases s" "sv_info ?s' = sv_info s" by (simp_all add: put_channel_def s1)
    have "channel_key ?s' ?c = Some key" using m(3) key unfolding channel_key_def ch by (simp add: s1)
    then have "admission_good ?s' ?am"
      using r auth epoch m(1) ch unfolding admission_good_def Let_def rest ready_def
      by (simp add: lease_key_of_def)
    moreover have "mark_admission rq k a s1 = ?s'" using ma Inr by (simp add: mark_admission_def Let_def)
    moreover have "sv_outcomes ?s' = sv_outcomes s @ [Admitted ?am]" by (simp add: s1)
    moreover have "\<not> nc_admitted (sv_channels s ! ?c)" using m(2) by (simp add: s1)
    ultimately show ?thesis using c by (auto simp: yields_def quiet_wait_def)
  qed
qed

lemma yields_finish:
  assumes v: "validate_auth_state (sv_auth s)" and r: "ready rq k a s" and c: "rq_channel rq < length (sv_channels s)"
  shows "yields (ad_profile_again env) s (admit_finish env rq k a s)"
proof (cases "remote_static_public (sv_channels s ! rq_channel rq)")
  case (Inl e)
  then show ?thesis by (simp add: admit_finish_def yields_reject)
next
  case key: (Inr key)
  let ?dev = "en_device_id (rq_envelope rq)"
  show ?thesis
  proof (cases "is_authorized ?dev key (sv_auth s)")
    case (Inl e)
    then show ?thesis using key by (simp add: admit_finish_def yields_reject)
  next
    case auth: (Inr b)
    obtain r1 st where e: "device_epoch (ad_auth_again env) ?dev (sv_auth s) = (r1, st)" by fastforce
    show ?thesis
    proof (cases r1)
      case (Inl e')
      then show ?thesis using key auth e by (cases b) (simp_all add: admit_finish_def yields_reject yields_deny c)
    next
      case (Inr ep)
      note ee = e [unfolded Inr]
      have mk: "yields (Some True) s (mark_admission rq k a (s\<lparr>sv_auth := st\<rparr>))" if ep: "ep = rq_epoch rq" and b: b
      proof -
        obtain d where d: "find_device st ?dev = Some d" "dv_epoch d = ep" using device_epoch_Inr(1) [OF ee v] by blast
        have "is_authorized ?dev key st = Inr True" by (rule epoch_keeps_authorized [OF ee v]) (use auth b in simp)
        then show ?thesis by (rule yields_mark [OF refl r c key]) (use d ep in auto)
      qed
      show ?thesis
      proof (cases "ad_profile_again env")
        case None
        then show ?thesis using key auth e Inr by (cases b) (simp_all add: admit_finish_def Let_def yields_reject yields_deny c)
      next
        case (Some p)
        then show ?thesis using key auth e Inr mk
          by (cases b; cases p) (simp_all add: admit_finish_def Let_def yields_reject yields_deny c)
      qed
    qed
  qed
qed

section \<open>Leases and attachments\<close>

lemma admission_attach_Inr:
  assumes "(lease_attach env cursor recovery reset rep l store :: (unit lease_error + nat) \<times> lease \<times> store_ref) = (Inr a, l', store')"
  shows "\<not> ls_released l'" "ls_attachment l' = Some a" "lease_key_of l' = lease_key_of l" "ls_profile l' = ls_profile l"
proof -
  let ?l1 = "snd (lease_trim (ae_clock env) l)"
  from assms obtain att where l': "l' = publish_attachment att recovery ?l1" and a: "a = length (ls_objects ?l1)" and rel: "\<not> ls_released l"
    by (auto simp: lease_attach_def Let_def case_prod_beta split: if_splits)
  have t: "ls_released ?l1 = ls_released l" "lease_key_of ?l1 = lease_key_of l" "ls_profile ?l1 = ls_profile l"
    by (simp_all add: lease_trim_def lease_key_of_def case_prod_beta)
  show "\<not> ls_released l'" "ls_attachment l' = Some a" "lease_key_of l' = lease_key_of l" "ls_profile l' = ls_profile l"
    using rel t unfolding l' a
    by (simp_all add: publish_attachment_def Let_def cancel_expiry_def mark_detached_eq lease_key_of_def split: option.split)
qed

lemma put_lease_simps [simp]:
  "sv_auth (put_lease k l store s) = sv_auth s" "sv_info (put_lease k l store s) = sv_info s"
  "sv_outcomes (put_lease k l store s) = sv_outcomes s" "sv_channels (put_lease k l store s) = sv_channels s"
  "sv_admission (put_lease k l store s) = sv_admission s" "sv_runtime (put_lease k l store s) = sv_runtime s"
  "mg_leases (sv_leases (put_lease k l store s)) = mg_leases (sv_leases s)"
  by (simp_all add: put_lease_def upd_lease_def)

lemma put_lease_nth [simp]:
  "k < length (mg_objects (sv_leases s)) \<Longrightarrow> the_lease (sv_leases (put_lease k l store s)) k = l"
  by (simp add: put_lease_def upd_lease_def)

lemma put_lease_length [simp]: "length (mg_objects (sv_leases (put_lease k l store s))) = length (mg_objects (sv_leases s))"
  by (simp add: put_lease_def upd_lease_def)

lemma upgrade_frame:
  assumes "upgrade_lease env k s = (r, s')"
  shows "sv_auth s' = sv_auth s" "sv_outcomes s' = sv_outcomes s" "sv_channels s' = sv_channels s" "sv_admission s' = sv_admission s"
    "mg_leases (sv_leases s') = mg_leases (sv_leases s)" "length (mg_objects (sv_leases s')) = length (mg_objects (sv_leases s))"
    "k < length (sv_info s) \<Longrightarrow> li_epoch (sv_info s' ! k) = li_epoch (sv_info s ! k)"
    "k < length (mg_objects (sv_leases s)) \<Longrightarrow> lease_key_of (the_lease (sv_leases s') k) = lease_key_of (the_lease (sv_leases s) k)
       \<and> ls_profile (the_lease (sv_leases s') k) = ls_profile (the_lease (sv_leases s) k)"
proof -
  obtain r1 s1 where st: "service_store env s = (r1, s1)" by fastforce
  have same: "sv_leases s1 = sv_leases s" "sv_info s1 = sv_info s" "sv_auth s1 = sv_auth s" "sv_channels s1 = sv_channels s"
    "sv_outcomes s1 = sv_outcomes s" "sv_admission s1 = sv_admission s"
    using st by (auto simp: service_store_def split: option.splits sum.splits)
  let ?l = "the_lease (sv_leases s1) k"
  let ?pj = "ls_projection ?l"
  obtain res tasks store where p: "persist_all (ae_authorizer (ad_attach env)) (ad_persist env) ?pj (pj_tasks ?pj) (sv_store s1) = (res, tasks, store)"
    by (metis prod.exhaust)
  let ?s2 = "s1\<lparr>sv_info := (sv_info s1)[k := (sv_info s1 ! k)\<lparr>li_recovery := True\<rparr>]\<rparr>"
  have s': "s' = s1 \<or> s' = put_lease k (?l\<lparr>ls_projection := ?pj\<lparr>pj_tasks := tasks\<rparr>\<rparr>) store ?s2"
    using assms st p by (cases r1) (auto simp: upgrade_lease_def Let_def)
  show "sv_auth s' = sv_auth s" "sv_outcomes s' = sv_outcomes s" "sv_channels s' = sv_channels s" "sv_admission s' = sv_admission s"
    "mg_leases (sv_leases s') = mg_leases (sv_leases s)" "length (mg_objects (sv_leases s')) = length (mg_objects (sv_leases s))"
    using s' same by (elim disjE; simp)+
  show "k < length (sv_info s) \<Longrightarrow> li_epoch (sv_info s' ! k) = li_epoch (sv_info s ! k)"
    using s' same by (elim disjE) simp_all
  show "k < length (mg_objects (sv_leases s)) \<Longrightarrow> lease_key_of (the_lease (sv_leases s') k) = lease_key_of (the_lease (sv_leases s) k)
       \<and> ls_profile (the_lease (sv_leases s') k) = ls_profile (the_lease (sv_leases s) k)"
    using s' same by (elim disjE) (simp_all add: lease_key_of_def)
qed

lemma reattach_frame:
  assumes "reattach_lease env rq cursor recovery rep s = (r, s')"
  shows "sv_auth s' = sv_auth s \<and> sv_outcomes s' = sv_outcomes s \<and> sv_channels s' = sv_channels s"
proof -
  let ?d = "en_device_id (rq_envelope rq)" and ?c = "en_channel (rq_envelope rq)"
  obtain o1 m where g: "mg_get ?d ?c (sv_leases s) = (o1, m)" by fastforce
  let ?s1 = "s\<lparr>sv_leases := m\<rparr>"
  show ?thesis
  proof (cases o1)
    case (Some j)
    obtain r2 s2 where u: "(if recovery \<and> \<not> li_recovery (sv_info ?s1 ! j) then upgrade_lease env j ?s1 else (Inr (), ?s1)) = (r2, s2)" by fastforce
    have f: "sv_auth s2 = sv_auth s" "sv_outcomes s2 = sv_outcomes s" "sv_channels s2 = sv_channels s"
      using u upgrade_frame(1-3) [of env j ?s1 r2 s2] by (auto split: if_splits)
    obtain r3 l store where at: "(lease_attach (ad_attach env) cursor recovery False rep (the_lease (sv_leases s2) j) (lease_store j s2)
        :: (unit lease_error + nat) \<times> lease \<times> store_ref) = (r3, l, store)" by (metis prod.exhaust)
    have "s' = ?s1 \<or> s' = s2 \<or> s' = put_lease j l store s2"
    proof (cases r3)
      case (Inl e)
      then show ?thesis using assms g Some u at by (cases e; cases r2) (auto simp: reattach_lease_def Let_def split: if_splits)
    next
      case (Inr b)
      then show ?thesis using assms g Some u at by (cases r2) (auto simp: reattach_lease_def Let_def split: if_splits)
    qed
    then show ?thesis using f by auto
  qed (use assms g in \<open>auto simp: reattach_lease_def Let_def\<close>)
qed

lemma reattach_ready:
  assumes re: "reattach_lease env rq cursor recovery rep s = (Inr (k, a), s')" and wf: "sv_wf s"
    and epoch: "\<And>j m. mg_get (en_device_id (rq_envelope rq)) (en_channel (rq_envelope rq)) (sv_leases s) = (Some j, m) \<Longrightarrow>
      li_epoch (sv_info s ! j) = rq_epoch rq"
  shows "ready rq k a s'"
proof -
  let ?d = "en_device_id (rq_envelope rq)" and ?c = "en_channel (rq_envelope rq)"
  obtain o1 m where g: "mg_get ?d ?c (sv_leases s) = (o1, m)" by fastforce
  let ?s1 = "s\<lparr>sv_leases := m\<rparr>"
  from re g obtain j where j: "o1 = Some j" by (cases o1) (auto simp: reattach_lease_def Let_def)
  have bound: "j < length (mg_objects m)" using get_bound [of ?d ?c "sv_leases s" j m] g j wf length_get [OF g] by (simp add: sv_wf_def)
  have map': "map_of (mg_leases m) (?d, ?c) = Some j" using mg_get_cases(2) [OF g j] by simp
  have key: "lease_key_of (the_lease m j) = (?d, ?c)"
    using mg_get_cases(2) [OF g j] wf by (auto simp: sv_wf_def mg_ok_def dest: mg_invD(4))
  have ep: "li_epoch (sv_info s ! j) = rq_epoch rq" using epoch g j by blast
  have prof: "ls_profile (the_lease m j) = en_profile (rq_envelope rq)"
    using re g j by (auto simp: reattach_lease_def Let_def split: if_splits)
  obtain r2 s2 where u: "(if recovery \<and> \<not> li_recovery (sv_info ?s1 ! j) then upgrade_lease env j ?s1 else (Inr (), ?s1)) = (r2, s2)" by fastforce
  have info: "j < length (sv_info s)" using bound wf length_get [OF g] by (simp add: sv_wf_def)
  have f: "mg_leases (sv_leases s2) = mg_leases m" "length (mg_objects (sv_leases s2)) = length (mg_objects m)"
    "li_epoch (sv_info s2 ! j) = li_epoch (sv_info s ! j)" "lease_key_of (the_lease (sv_leases s2) j) = lease_key_of (the_lease m j)"
    "ls_profile (the_lease (sv_leases s2) j) = ls_profile (the_lease m j)"
    using u upgrade_frame(5-8) [of env j ?s1 r2 s2] bound info by (auto split: if_splits)
  obtain r3 l store where at: "(lease_attach (ad_attach env) cursor recovery False rep (the_lease (sv_leases s2) j) (lease_store j s2)
      :: (unit lease_error + nat) \<times> lease \<times> store_ref) = (r3, l, store)" by (metis prod.exhaust)
  have r2: "r2 = Inr ()" using re g j prof u by (cases r2) (auto simp: reattach_lease_def Let_def)
  have "r3 = Inr a \<and> k = j \<and> s' = put_lease j l store s2"
  proof (cases r3)
    case (Inl e)
    then show ?thesis using re g j prof u r2 at by (cases e) (auto simp: reattach_lease_def Let_def)
  next
    case (Inr b)
    then show ?thesis using re g j prof u r2 at by (auto simp: reattach_lease_def Let_def)
  qed
  then have at': "(lease_attach (ad_attach env) cursor recovery False rep (the_lease (sv_leases s2) j) (lease_store j s2)
      :: (unit lease_error + nat) \<times> lease \<times> store_ref) = (Inr a, l, store)" "k = j" "s' = put_lease j l store s2" using at by auto
  note ai = admission_attach_Inr [OF at'(1)]
  show ?thesis
    using ai f bound map' key ep prof by (simp add: ready_def at'(2,3) del: map_of_eq_Some_iff)
qed

lemma yields_open_runtime:
  assumes c: "rq_channel rq < length (sv_channels s)"
  shows "yields answer s (open_runtime env rq recovery reset s)"
proof -
  obtain r1 s1 where st: "(if recovery then service_store env s else (Inr (), s)) = (r1, s1)" by fastforce
  have o1: "sv_outcomes s1 = sv_outcomes s"
    using st by (auto simp: service_store_def split: if_splits option.splits sum.splits)
  obtain r3 rt where o: "open_begin (ad_open env) (en_profile (rq_envelope rq)) (sv_runtime s1) = (r3, rt)" by fastforce
  have w: "yields answer s (wait_for rq (WaitController pj x y) s2)" if "sv_outcomes s2 = sv_outcomes s" for pj x y and s2 :: "'a service"
    using that c by (simp add: yields_none wait_for_def quiet_wait_def)
  show ?thesis
  proof (cases r1)
    case (Inl e)
    then show ?thesis using st o1 by (simp add: open_runtime_def yields_reject)
  next
    case (Inr u)
    show ?thesis
    proof (cases "load_or_create_identity (ad_auth env) (sv_auth s1)")
      case (Inl e)
      then show ?thesis using st Inr o1 by (simp add: open_runtime_def yields_reject)
    next
      case id: (Inr x)
      obtain i ast where x: "x = (i, ast)" by (cases x)
      show ?thesis
      proof (cases r3)
        case (Inl e)
        then show ?thesis using st Inr id x o o1 by (cases e) (simp_all add: open_runtime_def Let_def yields_reject)
      qed (use st Inr id x o o1 w in \<open>simp add: open_runtime_def Let_def\<close>)
    qed
  qed
qed

lemma yields_open_lease:
  assumes c: "rq_channel rq < length (sv_channels s)"
  shows "yields answer s (open_lease env rq recovery reset s)"
proof (cases "remote_static_public (sv_channels s ! rq_channel rq)")
  case (Inl e)
  then show ?thesis by (simp add: open_lease_def Let_def yields_reject)
next
  case (Inr key)
  obtain o1 m where g: "mg_get (en_device_id (rq_envelope rq)) (en_channel (rq_envelope rq)) (sv_leases s) = (o1, m)" by fastforce
  have "yields answer s (open_runtime env rq recovery reset (s\<lparr>sv_leases := m\<rparr>))"
    by (rule yields_frame [OF yields_open_runtime]) (simp_all add: c)
  then show ?thesis using Inr g c
    by (cases o1) (simp_all add: open_lease_def Let_def yields_none wait_for_def quiet_wait_def)
qed

lemma yields_abandon: "sv_outcomes s1 = sv_outcomes s \<Longrightarrow> rq_channel rq < length (sv_channels s) \<Longrightarrow> yields answer s (abandon_lease rq k s1)"
  by (simp add: abandon_lease_def Let_def case_prod_beta yields_none wait_for_def quiet_wait_def)

lemma yields_install:
  assumes v: "validate_auth_state (sv_auth s)" and wf: "sv_wf s" and c: "rq_channel rq < length (sv_channels s)"
  shows "yields (ad_profile_again env) s (install_lease env rq cid pj recovery reset s)"
proof -
  let ?e = "rq_envelope rq" and ?m = "sv_leases s"
  let ?k = "length (mg_objects ?m)"
  let ?new = "new_lease (en_device_id ?e) (en_channel ?e) (en_profile ?e) (ad_lease_id env) (sv_limits s) True pj (ad_websocket env)"
  show ?thesis
  proof (cases ?new)
    case (Inl e)
    then show ?thesis by (simp add: install_lease_def Let_def yields_reject)
  next
    case (Inr l)
    have l: "lease_key_of l = (en_device_id ?e, en_channel ?e)" "ls_profile l = en_profile ?e"
      using Inr by (auto simp: new_lease_def lease_key_of_def split: if_splits)
    let ?info = "sv_info s @ [\<lparr>li_epoch = rq_epoch rq, li_controller = cid, li_key = rq_key rq, li_recovery = recovery\<rparr>]"
    let ?mc = "?m\<lparr>mg_objects := mg_objects ?m @ [l]\<rparr>"
    obtain r m1 where reg: "mg_register ?k ?mc = (r, m1)" by fastforce
    define s2 where "s2 = s\<lparr>sv_info := ?info, sv_leases := m1\<rparr>"
    have s2': "sv_leases s2 = m1" "sv_outcomes s2 = sv_outcomes s" "sv_channels s2 = sv_channels s" "sv_auth s2 = sv_auth s"
      "li_epoch (sv_info s2 ! ?k) = rq_epoch rq" using wf by (simp_all add: s2_def sv_wf_def nth_append)
    show ?thesis
    proof (cases r)
      case (Inl e)
      then show ?thesis using Inr reg by (simp add: install_lease_def Let_def yields_abandon c)
    next
      case r: (Inr u)
      obtain r3 l1 store where at: "(lease_attach (ad_attach env) 0 recovery reset False (the_lease m1 ?k) (lease_store ?k s2)
            :: (unit lease_error + nat) \<times> lease \<times> store_ref) = (r3, l1, store)" by (metis prod.exhaust)
      have len: "length (mg_objects m1) = Suc ?k" using register_objects(1) [OF reg] by simp
      have obj: "the_lease m1 ?k = lease_start l" using register_objects(1) [OF reg] r by (simp add: nth_append)
      have map': "map_of (mg_leases m1) (en_device_id ?e, en_channel ?e) = Some ?k"
        using register_objects(2) [OF reg] r l by (simp add: nth_append del: map_of_eq_Some_iff)
      have eq: "install_lease env rq cid pj recovery reset s =
          (case r3 of Inl _ \<Rightarrow> abandon_lease rq ?k (put_lease ?k l1 store s2) | Inr a \<Rightarrow> admit_finish env rq ?k a (put_lease ?k l1 store s2))"
        unfolding install_lease_def Let_def using Inr reg r at by (simp add: s2_def split: sum.split)
      show ?thesis
      proof (cases r3)
        case (Inl e)
        then show ?thesis unfolding eq by (simp add: yields_abandon c s2')
      next
        case r3: (Inr a)
        note ai = admission_attach_Inr [OF at [unfolded r3]]
        have start: "lease_key_of (lease_start l) = lease_key_of l" "ls_profile (lease_start l) = ls_profile l"
          by (simp_all add: lease_start_def schedule_expiry_def lease_key_of_def)
        have "ready rq ?k a (put_lease ?k l1 store s2)"
          using ai len map' l s2' start unfolding obj ready_def Let_def
          by (simp del: map_of_eq_Some_iff)
        then have "yields (ad_profile_again env) (put_lease ?k l1 store s2) (admit_finish env rq ?k a (put_lease ?k l1 store s2))"
          by (intro yields_finish) (use v c s2' in simp_all)
        from yields_frame [OF this, of s] show ?thesis unfolding eq r3 by (simp add: s2')
      qed
    qed
  qed
qed

section \<open>The walk through \<open>open_controller\<close>\<close>

lemma yields_select:
  assumes v: "validate_auth_state (sv_auth s)" and wf: "sv_wf s" and c: "rq_channel rq < length (sv_channels s)"
    and epoch: "\<And>j m. mg_get (en_device_id (rq_envelope rq)) (en_channel (rq_envelope rq)) (sv_leases s) = (Some j, m) \<Longrightarrow>
      li_epoch (sv_info s ! j) = rq_epoch rq"
  shows "yields (ad_profile_again env) s (admit_select env rq existing s)"
proof -
  let ?cur = "en_resume_cursor (rq_envelope rq)" and ?rec = "en_recovery_version (rq_envelope rq) = Some 1"
  let ?n = "case ?cur of None \<Rightarrow> 0 | Some n \<Rightarrow> n"
  obtain r s1 where re: "reattach_lease env rq ?n ?rec (?rec \<and> ?cur \<noteq> None) s = (r, s1)" by fastforce
  note f = reattach_frame [OF re]
  have "yields (ad_profile_again env) s (case r of Inl reason \<Rightarrow> reject (rq_channel rq) reason s1 | Inr (k, a) \<Rightarrow> admit_finish env rq k a s1)"
  proof (cases r)
    case (Inr ka)
    obtain k a where ka: "ka = (k, a)" by (cases ka)
    have "ready rq k a s1" by (rule reattach_ready [OF re [unfolded Inr ka] wf epoch])
    then have "yields (ad_profile_again env) s1 (admit_finish env rq k a s1)"
      by (intro yields_finish) (use f v c in simp_all)
    from yields_frame [OF this, of s] show ?thesis using f Inr ka by simp
  qed (use f in \<open>simp add: yields_reject\<close>)
  then show ?thesis using re c by (simp add: admit_select_def Let_def yields_open_lease)
qed

lemma get_again:
  assumes "mg_get device channel m = (r, m1)"
  shows "mg_get device channel m1 = (r, m1)"
proof (cases r)
  case None
  then show ?thesis using mg_get_cases(3) [OF assms] by (simp add: mg_get_def del: map_of_eq_None_iff)
next
  case (Some k)
  then show ?thesis using mg_get_cases(2) [OF assms] by (simp add: mg_get_def del: map_of_eq_Some_iff)
qed

lemma mg_ok_get: "mg_ok m \<Longrightarrow> mg_get device channel m = (r, m1) \<Longrightarrow> mg_ok m1"
  using mg_move_get [of device channel m r m1] by (simp add: mg_move_def)

definition stale_covered :: "'c service \<Rightarrow> admission_request \<Rightarrow> nat list \<Rightarrow> bool" where
  \<comment> \<open>every retained lease of the device is among those that are waited for\<close>
  "stale_covered s rq ks \<longleftrightarrow> (\<forall>channel k. map_of (mg_leases (sv_leases s)) (en_device_id (rq_envelope rq), channel) = Some k
     \<longrightarrow> k \<in> set ks \<or> ls_release_succeeded (the_lease (sv_leases s) k))"

definition pending_ok :: "'c service \<Rightarrow> bool" where
  "pending_ok s \<longleftrightarrow> (case sv_admission s of
       None \<Rightarrow> True
     | Some (rq, w) \<Rightarrow> rq_channel rq < length (sv_channels s)
         \<and> (case w of WaitStale ks \<Rightarrow> stale_covered s rq ks | _ \<Rightarrow> True))"

lemma leases_for_covers:
  assumes "map_of (mg_leases m) (device, channel) = Some k" and "\<not> ls_release_succeeded (the_lease m k)"
  shows "k \<in> set (leases_for device m)"
  using map_of_SomeD [OF assms(1)] assms(2) by (force simp: leases_for_def)

definition yields_new :: "bool option \<Rightarrow> 'c service \<Rightarrow> 'c service \<Rightarrow> bool" where
  \<comment> \<open>as \<open>yields\<close>, for a step that may also begin to wait for stale leases\<close>
  "yields_new answer s s' \<longleftrightarrow> yields answer s s'
     \<or> sv_outcomes s' = sv_outcomes s \<and> (\<exists>rq ks. sv_admission s' = Some (rq, WaitStale ks) \<and> stale_covered s' rq ks
          \<and> rq_channel rq < length (sv_channels s))"

lemma release_device_frame: "mg_leases (mg_release_device device why m) = mg_leases m"
proof -
  have "mg_leases (mg_release_all ks why m) = mg_leases m" for ks
    unfolding mg_release_all_def by (induction ks arbitrary: m) (simp_all add: schedule_release_def upd_lease_def)
  then show ?thesis by (simp add: mg_release_device_def)
qed

lemma yields_device:
  assumes v: "validate_auth_state (sv_auth s)" and wf: "sv_wf s" and c: "c < length (sv_channels s)"
  shows "yields_new (ad_profile_again env) s (admit_device env c key e s)"
proof -
  let ?d = "en_device_id e" and ?ans = "ad_profile_again env"
  obtain r st where ep: "device_epoch (ad_auth env) ?d (sv_auth s) = (r, st)" by fastforce
  obtain o1 m where g: "mg_get ?d (en_channel e) (sv_leases s) = (o1, m)" by fastforce
  show ?thesis
  proof (cases "ad_profile env")
    case (Some p)
    show ?thesis
    proof (cases r)
      case (Inr epoch)
      let ?rq = "\<lparr>rq_channel = c, rq_key = key, rq_envelope = e, rq_epoch = epoch\<rparr>"
      let ?s1 = "s\<lparr>sv_auth := st, sv_leases := m\<rparr>"
      have wf1: "sv_wf ?s1" using wf mg_ok_get [OF _ g] length_get [OF g] by (simp add: sv_wf_def)
      have v1: "validate_auth_state st" using device_epoch_Inr(2) [OF ep [unfolded Inr] v] .
      have sel: "yields ?ans s (admit_select env ?rq existing ?s1)"
        if "\<And>j. o1 = Some j \<Longrightarrow> li_epoch (sv_info s ! j) = epoch" for existing
      proof -
        have "yields ?ans ?s1 (admit_select env ?rq existing ?s1)"
          by (rule yields_select) (use v1 wf1 c that get_again [OF g] in auto)
        from yields_frame [OF this, of s] show ?thesis by simp
      qed
      show ?thesis
      proof (cases o1)
        case None
        then show ?thesis using Some ep Inr g sel by (cases p) (simp_all add: admit_device_def Let_def yields_new_def yields_reject)
      next
        case o1: (Some k)
        let ?w = "wait_for ?rq (WaitStale (leases_for ?d m)) (s\<lparr>sv_auth := st, sv_leases := mg_release_device ?d ''authorization_changed'' m\<rparr>)"
        have "stale_covered ?w ?rq (leases_for ?d m)"
          unfolding stale_covered_def
        proof (intro allI impI)
          fix ch j assume "map_of (mg_leases (sv_leases ?w)) (en_device_id (rq_envelope ?rq), ch) = Some j"
          then have j: "map_of (mg_leases m) (?d, ch) = Some j" by (simp add: wait_for_def release_device_frame del: map_of_eq_Some_iff)
          have ok: "mg_ok m" using wf1 by (simp add: sv_wf_def)
          then have bound: "j < length (mg_objects m)" using j by (auto simp: mg_ok_def dest: mg_invD(4))
          have mv: "mg_move m (mg_release_device ?d ''authorization_changed'' m)" by (rule mg_move_release_device)
          have "progressed (the_lease m j) (the_lease (mg_release_device ?d ''authorization_changed'' m) j)"
            using mv ok bound by (simp add: mg_move_def)
          then have "ls_release_succeeded (the_lease m j) \<Longrightarrow> ls_release_succeeded (the_lease (sv_leases ?w) j)"
            using mg_ok_life [OF ok bound] by (simp add: progressed_def wait_for_def)
          then show "j \<in> set (leases_for ?d m) \<or> ls_release_succeeded (the_lease (sv_leases ?w) j)"
            using leases_for_covers [OF j] by blast
        qed
        then have "yields_new ?ans s ?w" using c by (auto simp: yields_new_def wait_for_def)
        then show ?thesis using Some ep Inr g o1 sel
          by (cases p) (simp_all add: admit_device_def Let_def yields_new_def yields_reject)
      qed
    qed (use Some ep in \<open>cases p; simp add: admit_device_def yields_new_def yields_reject\<close>)
  qed (simp add: admit_device_def yields_new_def yields_reject)
qed

lemma yields_new_frame:
  assumes "yields_new answer s1 s'" and "sv_outcomes s1 = sv_outcomes s" and "length (sv_channels s1) = length (sv_channels s)"
    and "\<And>c. c < length (sv_channels s) \<Longrightarrow> nc_admitted (sv_channels s ! c) \<Longrightarrow> nc_admitted (sv_channels s1 ! c)"
  shows "yields_new answer s s'"
  using assms yields_frame [of answer s1 s' s] unfolding yields_new_def by metis

lemma yields_begin:
  assumes v: "validate_auth_state (sv_auth s)" and wf: "sv_wf s" and c: "c < length (sv_channels s)"
    and free: "sv_admission s = None"
  shows "yields_new (ad_profile_again env) s (admit_begin N env c x s)"
proof (cases "unclaimed (sv_channels s ! c)")
  case (Some reason)
  then show ?thesis using free by (simp add: admit_begin_def yields_new_def yields_def quiet_wait_def)
next
  case None
  obtain r ch where d: "ch_decrypt N (sv_channels s ! c) x = (r, ch)" by fastforce
  have adm: "nc_admitted ch = nc_admitted (sv_channels s ! c)" using decrypt_admitted [of N "sv_channels s ! c" x] d by simp
  let ?s1 = "put_channel c ch s"
  have rej: "yields_new ans s (reject c reason s2)" if "sv_outcomes s2 = sv_outcomes s" for ans reason and s2 :: "'a service"
    using that by (simp add: yields_new_def yields_reject)
  have o1: "sv_outcomes ?s1 = sv_outcomes s" by (simp add: put_channel_def)
  show ?thesis
  proof (cases r)
    case (Inl e)
    then show ?thesis using None d rej o1 by (simp add: admit_begin_def)
  next
    case r: (Inr plain)
    show ?thesis
    proof (cases "parse_controller_auth (ad_limit env) plain")
      case None
      then show ?thesis using \<open>unclaimed _ = None\<close> d r rej o1 by (simp add: admit_begin_def Let_def)
    next
      case e: (Some e)
      show ?thesis
      proof (cases "remote_static_public ch")
        case (Inl err)
        then show ?thesis using None d r e rej o1 by (simp add: admit_begin_def Let_def)
      next
        case key: (Inr key)
        define s2 where "s2 = (case en_device_name e of None \<Rightarrow> ?s1
          | Some name \<Rightarrow> ?s1\<lparr>sv_auth := snd (note_device_name (ad_auth env) (en_device_id e) key name (sv_auth ?s1))\<rparr>)"
        have s2: "sv_outcomes s2 = sv_outcomes s" "sv_channels s2 = (sv_channels s)[c := ch]" "sv_leases s2 = sv_leases s" "sv_info s2 = sv_info s"
          by (simp_all add: s2_def put_channel_def split: option.split)
        have v2: "validate_auth_state (sv_auth s2)"
          using v auth_step_valid [OF v, of "EName (ad_auth env) (en_device_id e) key name" for name]
          by (simp add: s2_def put_channel_def split: option.split)
        have dev2: "yields_new (ad_profile_again env) s2 (admit_device env c key e s2)"
          by (rule yields_device [OF v2]) (use wf s2 c in \<open>simp_all add: sv_wf_def\<close>)
        have adm2: "nc_admitted (sv_channels s ! i) \<Longrightarrow> nc_admitted (sv_channels s2 ! i)" if "i < length (sv_channels s)" for i
          using that adm s2(2) by (cases "i = c") simp_all
        have dev: "yields_new (ad_profile_again env) s (admit_device env c key e s2)"
          by (rule yields_new_frame [OF dev2]) (simp_all add: s2 adm2 [unfolded s2(2)])
        have "admit_begin N env c x s =
            (case is_authorized (en_device_id e) key (sv_auth s2) of
               Inl (IdentityError _) \<Rightarrow> reject c ''invalid_auth_envelope'' s2
             | Inl _ \<Rightarrow> reject c ''device_not_authorized'' s2
             | Inr False \<Rightarrow> reject c ''device_not_authorized'' s2
             | Inr True \<Rightarrow> admit_device env c key e s2)"
          unfolding admit_begin_def Let_def None option.case d r e key s2_def prod.case sum.case ..
        then show ?thesis using dev rej [OF s2(1)]
          by (simp split: sum.split auth_error.split bool.split)
      qed
    qed
  qed
qed

lemma stale_gone:
  assumes "stale_covered s rq ks" and "\<not> list_ex (lease_failed s) ks"
  shows "mg_get (en_device_id (rq_envelope rq)) channel (sv_leases s) \<noteq> (Some j, m)"
proof
  assume g: "mg_get (en_device_id (rq_envelope rq)) channel (sv_leases s) = (Some j, m)"
  from mg_get_cases(2) [OF g refl] have "j \<in> set ks" "\<not> ls_release_succeeded (the_lease (sv_leases s) j)"
    using assms(1) unfolding stale_covered_def by blast+
  then show False using assms(2) by (auto simp: list_ex_iff lease_failed_def)
qed

lemma yields_resume:
  assumes v: "validate_auth_state (sv_auth s)" and wf: "sv_wf s" and p: "pending_ok s"
  shows "admit_resume env cancelled s = s \<or> yields (ad_profile_again env) s (admit_resume env cancelled s)"
proof (cases "sv_admission s")
  case None
  then show ?thesis by (simp add: admit_resume_def)
next
  case (Some w)
  obtain rq w' where w: "w = (rq, w')" by (cases w)
  note P = p [unfolded pending_ok_def Some w option.case prod.case]
  show ?thesis
  proof (cases w')
    case (WaitStale ks)
    then have "stale_covered s rq ks" using P by simp
    then have "yields (ad_profile_again env) s (admit_select env rq False s)" if "\<not> list_ex (lease_failed s) ks"
      using stale_gone [OF _ that] P by (intro yields_select [OF v wf]) auto
    then show ?thesis using Some w WaitStale by (simp add: admit_resume_def yields_reject yields_cancel)
  next
    case (WaitSuperseded k recovery reset)
    then show ?thesis using Some w P by (simp add: admit_resume_def yields_reject yields_cancel yields_open_runtime)
  qed (use Some w in \<open>simp_all add: admit_resume_def yields_reject yields_cancel\<close>)
qed

lemma yields_opened:
  assumes v: "validate_auth_state (sv_auth s)" and wf: "sv_wf s" and p: "pending_ok s"
  shows "admit_opened env started s = s \<or> yields (ad_profile_again env) s (admit_opened env started s)"
proof (cases "\<exists>rq pj recovery reset. sv_admission s = Some (rq, WaitController pj recovery reset)")
  case True
  then obtain rq pj recovery reset where w: "sv_admission s = Some (rq, WaitController pj recovery reset)" by blast
  obtain r rt where o: "open_started started (sv_runtime s) = (r, rt)" by fastforce
  have c: "rq_channel rq < length (sv_channels s)" using p w by (simp add: pending_ok_def)
  show ?thesis
  proof (cases r)
    case None
    then show ?thesis using w o c by (simp add: admit_opened_def wait_for_def yields_none quiet_wait_def)
  next
    case (Some h)
    obtain cid handle where h: "h = (cid, handle)" by (cases h)
    have "yields (ad_profile_again env) (s\<lparr>sv_runtime := rt\<rparr>) (install_lease env rq cid pj recovery reset (s\<lparr>sv_runtime := rt\<rparr>))"
      by (rule yields_install) (use v wf c in \<open>simp_all add: sv_wf_def\<close>)
    from yields_frame [OF this, of s] show ?thesis using w o Some h by (simp add: admit_opened_def)
  qed
qed (auto simp: admit_opened_def split: option.split admission_wait.split)

lemma yields_aborted: "admit_aborted cancelled s = s \<or> yields answer s (admit_aborted cancelled s)"
  by (auto simp: admit_aborted_def Let_def yields_reject yields_cancel split: option.split admission_wait.split)

section \<open>The invariant\<close>

definition sv_inv :: "'c service \<Rightarrow> bool" where
  "sv_inv s \<longleftrightarrow> validate_auth_state (sv_auth s) \<and> sv_wf s \<and> pending_ok s"

fun profile_answer :: "sv_event \<Rightarrow> bool option" where
  \<comment> \<open>the last answer of the profile authorizer in an event\<close>
  "profile_answer (SvBegin env _ _) = ad_profile_again env"
| "profile_answer (SvResume env _) = ad_profile_again env"
| "profile_answer (SvOpened env _) = ad_profile_again env"
| "profile_answer _ = None"

definition admission_event :: "sv_event \<Rightarrow> bool" where
  "admission_event ev \<longleftrightarrow> (case ev of SvBegin _ _ _ \<Rightarrow> True | SvResume _ _ \<Rightarrow> True | SvOpened _ _ \<Rightarrow> True | SvAborted _ \<Rightarrow> True | _ \<Rightarrow> False)"

lemma other_frame:
  assumes "\<not> admission_event ev"
  shows "sv_outcomes (sv_step N validator ev s) = sv_outcomes s \<and> sv_admission (sv_step N validator ev s) = sv_admission s
    \<and> mg_leases (sv_leases (sv_step N validator ev s)) = mg_leases (sv_leases s)"
proof (cases ev)
  case (SvLease k e)
  then show ?thesis by (simp add: lease_does_def case_prod_beta)
next
  case (SvPair env c payload)
  then show ?thesis by (simp add: complete_pairing_def Let_def put_channel_def split: option.split sum.split prod.split auth_error.split)
next
  case SvClose
  have "mg_leases (mg_close m) = mg_leases m" for m
  proof -
    have "mg_leases (mg_release_all ks why x) = mg_leases x" for ks why x
      unfolding mg_release_all_def by (induction ks arbitrary: x) (simp_all add: schedule_release_def upd_lease_def)
    then show ?thesis by (simp add: mg_close_def)
  qed
  then show ?thesis by (simp add: SvClose close_service_def)
qed (use assms in \<open>simp_all add: admission_event_def new_host_channel_def put_channel_def finish_read_def Let_def upd_lease_def
    revoke_device_def release_device_frame revoke_finish_def bind_controller_def case_prod_beta split: sum.split option.split\<close>)

lemma sv_moves_pieces:
  "sv_wf s \<Longrightarrow> sv_wf (sv_step N validator ev s)"
  "sv_wf s \<Longrightarrow> validate_auth_state (sv_auth s) \<Longrightarrow> validate_auth_state (sv_auth (sv_step N validator ev s))"
  "sv_wf s \<Longrightarrow> length (sv_channels s) \<le> length (sv_channels (sv_step N validator ev s))"
  "sv_wf s \<Longrightarrow> c < length (sv_channels s) \<Longrightarrow> nc_admitted (sv_channels s ! c) \<Longrightarrow> nc_admitted (sv_channels (sv_step N validator ev s) ! c)"
  "sv_wf s \<Longrightarrow> mg_move (sv_leases s) (sv_leases (sv_step N validator ev s))"
  using sv_moves_step [of "\<lambda>_. True" ev s N validator] auth_moves_valid [of "\<lambda>_. True" "sv_auth s"]
  by (cases ev; simp add: sv_moves_def)+

lemma stale_keeps:
  assumes "stale_covered s rq ks" and wf: "sv_wf s"
    and same: "mg_leases (sv_leases s') = mg_leases (sv_leases s)" and mv: "mg_move (sv_leases s) (sv_leases s')"
  shows "stale_covered s' rq ks"
  unfolding stale_covered_def
proof (intro allI impI)
  fix ch k assume "map_of (mg_leases (sv_leases s')) (en_device_id (rq_envelope rq), ch) = Some k"
  then have k: "map_of (mg_leases (sv_leases s)) (en_device_id (rq_envelope rq), ch) = Some k" using same by simp
  have ok: "mg_ok (sv_leases s)" using wf by (simp add: sv_wf_def)
  have bound: "k < length (mg_objects (sv_leases s))" using ok k by (auto simp: mg_ok_def dest: mg_invD(4))
  have "progressed (the_lease (sv_leases s) k) (the_lease (sv_leases s') k)" using mv ok bound by (simp add: mg_move_def)
  then have "ls_release_succeeded (the_lease (sv_leases s) k) \<Longrightarrow> ls_release_succeeded (the_lease (sv_leases s') k)"
    using mg_ok_life [OF ok bound] by (simp add: progressed_def)
  moreover have "k \<in> set ks \<or> ls_release_succeeded (the_lease (sv_leases s) k)" using assms(1) k unfolding stale_covered_def by blast
  ultimately show "k \<in> set ks \<or> ls_release_succeeded (the_lease (sv_leases s') k)" by blast
qed

lemma outcome_step:
  assumes inv: "sv_inv s"
  shows "sv_step N validator ev s = s \<or> \<not> admission_event ev \<or> yields_new (profile_answer ev) s (sv_step N validator ev s)"
proof -
  have v: "validate_auth_state (sv_auth s)" and wf: "sv_wf s" and p: "pending_ok s" using inv by (simp_all add: sv_inv_def)
  show ?thesis
  proof (cases ev)
    case (SvBegin env c x)
    then show ?thesis using yields_begin [OF v wf, of c env N x] by auto
  next
    case (SvResume env cancelled)
    then show ?thesis using yields_resume [OF v wf p, of env cancelled] by (auto simp: yields_new_def)
  next
    case (SvOpened env started)
    then show ?thesis using yields_opened [OF v wf p, of env started] by (auto simp: yields_new_def)
  next
    case (SvAborted cancelled)
    then show ?thesis using yields_aborted [of cancelled s None] by (auto simp: yields_new_def)
  qed (simp_all add: admission_event_def)
qed

lemma sv_inv_step:
  assumes inv: "sv_inv s"
  shows "sv_inv (sv_step N validator ev s)"
proof -
  let ?s' = "sv_step N validator ev s"
  have v: "validate_auth_state (sv_auth s)" and wf: "sv_wf s" and p: "pending_ok s" using inv by (simp_all add: sv_inv_def)
  note pieces = sv_moves_pieces [where N = N and validator = validator and ev = ev, OF wf]
  have "pending_ok ?s'"
  proof (cases "admission_event ev")
    case False
    note f = other_frame [OF False, of N validator s]
    show ?thesis using p f pieces(3) stale_keeps [OF _ wf, of _ _ ?s'] sv_moves_pieces(5) [OF wf, of N validator ev]
      by (auto simp: pending_ok_def split: option.splits admission_wait.splits intro: less_le_trans [OF _ pieces(3)])
  next
    case True
    then consider "?s' = s" | "yields (profile_answer ev) s ?s'"
      | rq ks where "sv_admission ?s' = Some (rq, WaitStale ks)" "stale_covered ?s' rq ks" "rq_channel rq < length (sv_channels s)"
      using outcome_step [OF inv, of N validator ev] unfolding yields_new_def by blast
    then show ?thesis
    proof cases
      case 2
      then show ?thesis using pieces(3)
        by (fastforce simp: yields_def pending_ok_def quiet_wait_def split: option.splits admission_wait.splits)
    qed (use p pieces(3) in \<open>simp_all add: pending_ok_def\<close>)
  qed
  then show ?thesis using pieces(1) sv_moves_pieces(2) [OF wf v] by (simp add: sv_inv_def)
qed

definition fresh_service :: "'c service \<Rightarrow> bool" where
  "fresh_service s \<longleftrightarrow> (\<exists>st rt limits. new_service st rt limits = Inr s \<and> validate_auth_state st)"

interpretation service: invariant_component fresh_service "sv_step N validator" sv_inv for N validator
proof
  fix s :: "'a service"
  assume "fresh_service s"
  then obtain st rt limits where new: "new_service st rt limits = Inr s" and st: "validate_auth_state st"
    by (auto simp: fresh_service_def)
  from new obtain m where m: "new_manager (rt_max_controllers rt) = Inr m" by (auto simp: new_service_def)
  have s: "sv_auth s = st" "sv_leases s = m" "sv_info s = []" "sv_admission s = None"
    using new m by (auto simp: new_service_def)
  have "fresh_manager ((m, None), [])" using m by (auto simp: fresh_manager_def)
  then have "mg_inv ((m, None), [])" by (rule manager.inv_init)
  then have "mg_ok m" by (auto simp: mg_ok_def)
  moreover have "mg_objects m = []" using m by (auto simp: new_manager_def split: if_splits)
  ultimately show "sv_inv s" using s st by (simp add: sv_inv_def sv_wf_def pending_ok_def)
qed (rule sv_inv_step)

end
