(* ===== verification/Admission_Props.thy ===== *)
theory Admission_Props
  imports Admission_Outcome
begin

text \<open>
  The properties of the admission service: who is admitted, what revocation ends, that a
  channel is admitted once, and a lease that no admission owns. The witnesses run one
  admission over a fixed Noise library.
\<close>

section \<open>New results\<close>

definition new_outcomes :: "'c service \<Rightarrow> 'c service \<Rightarrow> outcome list" where
  "new_outcomes s s' = drop (length (sv_outcomes s)) (sv_outcomes s')"

lemma new_admission:
  assumes inv: "sv_inv s" and new: "Admitted am \<in> set (new_outcomes s (sv_step N validator ev s))"
  shows "admission_good (sv_step N validator ev s) am \<and> profile_answer ev = Some True
    \<and> am_channel am < length (sv_channels s) \<and> \<not> nc_admitted (sv_channels s ! am_channel am)
    \<and> sv_outcomes (sv_step N validator ev s) = sv_outcomes s @ [Admitted am]"
proof -
  let ?s' = "sv_step N validator ev s"
  have ne: "?s' \<noteq> s" using new by (auto simp: new_outcomes_def)
  have "admission_event ev"
  proof (rule ccontr)
    assume "\<not> admission_event ev"
    from other_frame [OF this, of N validator s] new show False by (simp add: new_outcomes_def)
  qed
  then have "yields_new (profile_answer ev) s ?s'" using outcome_step [OF inv, of N validator ev] ne by blast
  moreover have "sv_outcomes ?s' \<noteq> sv_outcomes s" using new by (auto simp: new_outcomes_def)
  ultimately have "yields (profile_answer ev) s ?s'" unfolding yields_new_def by blast
  then obtain os where os: "sv_outcomes ?s' = sv_outcomes s @ os"
    and "\<forall>am. Admitted am \<in> set os \<longrightarrow> admission_good ?s' am \<and> profile_answer ev = Some True
      \<and> am_channel am < length (sv_channels s) \<and> \<not> nc_admitted (sv_channels s ! am_channel am) \<and> os = [Admitted am]"
    unfolding yields_def by blast
  moreover have "Admitted am \<in> set os" using new os by (simp add: new_outcomes_def)
  ultimately show ?thesis by simp
qed

definition admitted_channels :: "'c service \<Rightarrow> nat list" where
  "admitted_channels s = concat (map (\<lambda>r. case r of Admitted am \<Rightarrow> [am_channel am] | _ \<Rightarrow> []) (sv_outcomes s))"

lemma outcomes_grow:
  assumes inv: "sv_inv s"
  shows "\<exists>os. sv_outcomes (sv_step N validator ev s) = sv_outcomes s @ os"
proof -
  let ?s' = "sv_step N validator ev s"
  consider "?s' = s" | "\<not> admission_event ev" | "yields_new (profile_answer ev) s ?s'" using outcome_step [OF inv, of N validator ev] by blast
  then show ?thesis
  proof cases
    case 2
    from other_frame [OF this, of N validator s] show ?thesis by simp
  next
    case 3
    then show ?thesis unfolding yields_new_def yields_def by force
  qed simp
qed

section \<open>One admission, concretely\<close>

lemma hex_bytes_code [code]:
  "hex_bytes bs = concat (map (\<lambda>b. if unat b < 16 then [nibble 0, nibble (unat b)] else [nibble (unat b div 16), nibble (unat b mod 16)]) bs)"
  unfolding hex_bytes_def by (intro arg_cong [where f = concat] map_cong) simp_all

lemma identifier_draws_code [code]:
  "identifier_draws n sz draws existing =
     (if n = 0 then Inl (AuthorizationError ''random generation failed'')
      else (case draws of
              Some r # ds \<Rightarrow>
                if length r \<noteq> sz then Inl (AuthorizationError ''random generation failed'')
                else if b64url_encode r \<notin> set existing then Inr (b64url_encode r)
                else identifier_draws (n - 1) sz ds existing
            | _ \<Rightarrow> Inl (AuthorizationError ''random generation failed'')))"
  by (cases n; cases draws) (simp_all split: option.split)

definition echo_noise :: "nat noise_lib" where
  \<comment> \<open>three messages, a sixteen byte tag, no secrecy\<close>
  "echo_noise = \<lparr>ns_start = (\<lambda>_ _ _ _ _ _. Some 0), ns_write_message = (\<lambda>c p. Some (replicate 48 0 @ p, c)),
     ns_read_message = (\<lambda>c m. Some ([], c)), ns_encrypt = (\<lambda>c x. Some (replicate 16 0 @ x, c)), ns_decrypt = (\<lambda>c x. Some (drop 16 x, c)),
     ns_handshake_hash = (\<lambda>_. Some (replicate 32 9)), ns_peer_static = (\<lambda>_. Some (replicate 32 7))\<rparr>"

lemma demo_id_code [code]: "demo_id = [65, 81, 69, 66, 65, 81, 69, 66, 65, 81, 69, 66, 65, 81, 69, 66, 65, 81, 69, 66, 65, 81]"
  unfolding demo_id_def by code_simp

definition paired_device :: device where
  "paired_device = \<lparr>dv_device_id = demo_id, dv_public_key = replicate 32 7, dv_binding_digest = replicate 32 6, dv_status = DAuthorized,
     dv_created_at = 101, dv_updated_at = 101, dv_epoch = 0, dv_capabilities = [lit ''client''], dv_device_name = None, dv_label = None\<rparr>"

definition paired_state :: auth_state where
  "paired_state = default_state\<lparr>as_devices := [paired_device]\<rparr>"

definition admit_demo_env :: admit_env where
  "admit_demo_env = \<lparr>ad_limit = 9, ad_auth = demo_env 200, ad_auth_again = demo_env 200, ad_profile = Some True, ad_profile_again = Some True,
     ad_attach = wire_attach,
     ad_persist = (\<lambda>_. undefined), ad_store_file = None, ad_store_now = 5,
     ad_open = \<lparr>oe_authorizer = (\<lambda>_. True), oe_ids = (\<lambda>_. lit ''c1''), oe_factory_ok = True\<rparr>,
     ad_lease_id = lit ''lease'', ad_websocket = wire_socket\<rparr>"

definition demo_service :: "nat service" where
  "demo_service = (case new_runtime 8 of
     Inr rt \<Rightarrow> (case new_service paired_state (snd (rt_start True rt)) default_limits of Inr s \<Rightarrow> s | Inl _ \<Rightarrow> undefined)
   | Inl _ \<Rightarrow> undefined)"

definition demo_request :: bytes where
  "demo_request = (case controller_auth_payload demo_id (lit ''p'') None None None None of Inr x \<Rightarrow> x | Inl _ \<Rightarrow> undefined)"

definition demo_arrival :: "sv_event list" where
  \<comment> \<open>a host channel, its handshake, and the envelope of the device: the runtime starts a controller\<close>
  "demo_arrival = [SvChannel (demo_env 200), SvChannelOp 0 (ChRead (replicate 32 0)), SvChannelOp 0 (ChWrite []),
     SvChannelOp 0 (ChRead (replicate 32 0)), SvBegin admit_demo_env 0 (replicate 16 0 @ demo_request)]"

lemma demo_service_fresh: "fresh_service demo_service"
proof -
  obtain rt where rt: "new_runtime 8 = Inr rt" by (simp add: new_runtime_def)
  have "\<exists>s. new_service paired_state (snd (rt_start True rt)) default_limits = (Inr s :: string + nat service)"
    using rt by (auto simp: new_service_def new_manager_def new_runtime_def rt_start_def Let_def)
  then obtain s :: "nat service" where s: "new_service paired_state (snd (rt_start True rt)) default_limits = Inr s" by blast
  then have "demo_service = s" using rt by (simp add: demo_service_def)
  moreover have "validate_auth_state paired_state" by code_simp
  ultimately show ?thesis using s by (auto simp: fresh_service_def)
qed

definition demo_admitted :: admitted where
  "demo_admitted = \<lparr>am_device_id = demo_id, am_channel = 0, am_lease = 0, am_attachment = 0, am_lease_channel = []\<rparr>"

abbreviation demo_run :: "sv_event list \<Rightarrow> nat service \<Rightarrow> nat service" where
  "demo_run \<equiv> fold (sv_step echo_noise (None :: unit validator))"

lemma demo_admission:
  "sv_outcomes (demo_run demo_arrival demo_service) = []"
  "sv_outcomes (sv_step echo_noise (None :: unit validator) (SvOpened admit_demo_env True) (demo_run demo_arrival demo_service))
     = [Admitted demo_admitted]"
  by code_simp+


section \<open>Properties\<close>

text \<open>
  C1. Whatever the service, the leases, the runtime and the repository did before, and whatever
  happened while the admission waited: when \<open>open_controller\<close> returns a controller, then at
  that very moment the device is authorized with the key that opened this Noise channel, its
  authorization epoch is the one the lease was opened under, the lease is the registered,
  unreleased lease of this device and channel with the returned attachment as its current
  one, the channel was unclaimed and is now admitted, and the profile authorizer has just
  said yes.
\<close>

theorem admitted_is_authorized:
  assumes "fresh_service s0" and "s = fold (sv_step N validator) es s0" and "s' = sv_step N validator ev s"
    and "Admitted am \<in> set (new_outcomes s s')"
  shows "(\<exists>key d. channel_key s' (am_channel am) = Some key
       \<and> is_authorized (am_device_id am) key (sv_auth s') = Inr True
       \<and> find_device (sv_auth s') (am_device_id am) = Some d \<and> dv_epoch d = li_epoch (sv_info s' ! am_lease am))
     \<and> \<not> nc_admitted (sv_channels s ! am_channel am) \<and> nc_admitted (sv_channels s' ! am_channel am)
     \<and> map_of (mg_leases (sv_leases s')) (am_device_id am, am_lease_channel am) = Some (am_lease am)
     \<and> \<not> ls_released (the_lease (sv_leases s') (am_lease am))
     \<and> ls_attachment (the_lease (sv_leases s') (am_lease am)) = Some (am_attachment am)
     \<and> profile_answer ev = Some True"
proof -
  have "sv_inv s" unfolding assms(2) by (rule service.inv_reachable [OF assms(1)])
  then show ?thesis using new_admission [of s am N validator ev] assms(3,4)
    by (auto simp: admission_good_def Let_def split: option.splits)
qed

theorem admitted_is_authorized_witness:
  "\<exists>s'. s' = sv_step echo_noise (None :: unit validator) (SvOpened admit_demo_env True) (demo_run demo_arrival demo_service)
     \<and> sv_outcomes s' = [Admitted demo_admitted] \<and> nc_admitted (sv_channels s' ! 0)
     \<and> map_of (mg_leases (sv_leases s')) (demo_id, []) = Some 0"
proof -
  have "Admitted demo_admitted \<in> set (new_outcomes (demo_run demo_arrival demo_service)
      (sv_step echo_noise (None :: unit validator) (SvOpened admit_demo_env True) (demo_run demo_arrival demo_service)))"
    by (simp add: new_outcomes_def demo_admission del: sv_step.simps)
  from admitted_is_authorized [OF demo_service_fresh refl refl this] show ?thesis
    by (simp add: demo_admitted_def demo_admission(2) [unfolded demo_admitted_def] del: sv_step.simps)
qed









text \<open>
  A channel is admitted at most once: in every run of the service, the channels of the
  returned controllers are pairwise distinct.
\<close>

theorem channel_admits_once:
  assumes "fresh_service s0"
  shows "distinct (admitted_channels (fold (sv_step N validator) es s0))
    \<and> (\<forall>c \<in> set (admitted_channels (fold (sv_step N validator) es s0)).
         c < length (sv_channels (fold (sv_step N validator) es s0))
         \<and> nc_admitted (sv_channels (fold (sv_step N validator) es s0) ! c))"
proof (induction es rule: rev_induct)
  case Nil
  show ?case using assms by (auto simp: fresh_service_def new_service_def admitted_channels_def)
next
  case (snoc ev es)
  let ?s = "fold (sv_step N validator) es s0"
  let ?s' = "sv_step N validator ev ?s"
  have inv: "sv_inv ?s" by (rule service.inv_reachable [OF assms])
  then have wf: "sv_wf ?s" by (simp add: sv_inv_def)
  have old: "c < length (sv_channels ?s') \<and> nc_admitted (sv_channels ?s' ! c)" if "c \<in> set (admitted_channels ?s)" for c
    using snoc.IH that sv_moves_pieces(3) [OF wf, of N validator ev] sv_moves_pieces(4) [where N = N and validator = validator and ev = ev, OF wf]
    by (meson less_le_trans)
  show ?case
  proof (cases "\<exists>am. Admitted am \<in> set (new_outcomes ?s ?s')")
    case True
    then obtain am where am: "Admitted am \<in> set (new_outcomes ?s ?s')" by blast
    from new_admission [OF inv this] show ?thesis
      using old snoc.IH sv_moves_pieces(3) [OF wf, of N validator ev]
      by (auto simp: admitted_channels_def admission_good_def Let_def)
  next
    case False
    then have "admitted_channels ?s' = admitted_channels ?s"
      using outcomes_grow [OF inv, of N validator ev] by (auto simp: admitted_channels_def new_outcomes_def split: outcome.split)
    then show ?thesis using snoc.IH old by simp
  qed
qed

theorem channel_admits_once_witness:
  "admitted_channels (demo_run (demo_arrival @ [SvOpened admit_demo_env True]) demo_service) = [0]
     \<and> distinct (admitted_channels (demo_run (demo_arrival @ [SvOpened admit_demo_env True]) demo_service))"
proof -
  have "distinct (admitted_channels (demo_run (demo_arrival @ [SvOpened admit_demo_env True]) demo_service))"
    using channel_admits_once [OF demo_service_fresh] by blast
  then show ?thesis using demo_admission(2) by (simp add: admitted_channels_def demo_admitted_def del: sv_step.simps)
qed

section \<open>A lease without an owner\<close>

text \<open>
  When the second check raises (here the profile authorizer; a read of the repository or of
  the channel's key would do as well), the caller gets \<open>runtime_unavailable\<close> and the channel
  is closed, but the new lease stays registered and attached: nobody holds the attachment, so
  nobody will detach it, and no expiry is armed.
\<close>

lemma orphaned_lease:
  "let s = sv_step echo_noise (None :: unit validator) (SvOpened (admit_demo_env\<lparr>ad_profile_again := None\<rparr>) True)
             (demo_run demo_arrival demo_service);
       l = the_lease (sv_leases s) 0 in
     sv_outcomes s = [Rejected 0 ''runtime_unavailable''] \<and> nc_closed (sv_channels s ! 0)
     \<and> map_of (mg_leases (sv_leases s)) (demo_id, []) = Some 0
     \<and> \<not> ls_released l \<and> ls_scheduled l = [] \<and> ls_attachment l = Some 0 \<and> \<not> ls_expiry_armed l
     \<and> length (rt_controllers (sv_runtime s)) = 1"
  by code_simp

end
