(* ===== verification/Json_Loads.thy ===== *)
theory Json_Loads
  imports Json_Text
begin

text \<open>
  The standard library's \<open>json.loads\<close> without hooks, as the code uses it for texts it does not
  read strictly: a repeated key keeps its first place and its last value, and \<open>NaN\<close> and the
  infinities are floats. Bytes are decoded first, in the encoding that \<open>json.detect_encoding\<close>
  finds, with surrogates passed through. A raised \<open>ValueError\<close> is \<open>None\<close>. The depth bound is
  the length of the text, which no nesting exceeds.
\<close>

section \<open>Text\<close>

definition scan_constant :: "pystr \<Rightarrow> (json \<times> pystr) option" where
  "scan_constant s =
     (if take 3 s = lit ''NaN'' then Some (JFloat (lit ''NaN''), drop 3 s)
      else if take 8 s = lit ''Infinity'' then Some (JFloat (lit ''Infinity''), drop 8 s)
      else if take 9 s = lit ''-Infinity'' then Some (JFloat (lit ''-Infinity''), drop 9 s)
      else scan_literal s)"

definition last_wins :: "(pystr \<times> json) list \<Rightarrow> json" where
  "last_wins kvs = JObj (fold (\<lambda>(k, v). AList.update k v) kvs [])"

definition plain_container :: "(pystr \<Rightarrow> (json \<times> pystr) option) \<Rightarrow> nat \<Rightarrow> pystr \<Rightarrow> (json \<times> pystr) option" where
  "plain_container val opener r =
     (let r1 = skip_ws r in
      if opener = 91
      then (case r1 of
              [] \<Rightarrow> None
            | c # r2 \<Rightarrow> if c = 93 then Some (JArr [], r2)
                        else map_option (\<lambda>(vs, r3). (JArr vs, r3)) (scan_elems (length r1) val r1))
      else (case r1 of
              [] \<Rightarrow> None
            | c # r2 \<Rightarrow>
                if c = 125 then Some (JObj [], r2)
                else map_option (\<lambda>(kvs, r3). (last_wins kvs, r3)) (scan_members (length r1) val r1)))"

primrec plain_value :: "nat \<Rightarrow> pystr \<Rightarrow> (json \<times> pystr) option" where
  "plain_value 0 s =
     (case s of
        [] \<Rightarrow> None
      | c # r \<Rightarrow> if c = 34 then map_option (\<lambda>(t, r2). (JStr t, r2)) (scan_string r)
                  else if c = 91 \<or> c = 123 then None
                  else scan_constant s)"
| "plain_value (Suc d) s =
     (case s of
        [] \<Rightarrow> None
      | c # r \<Rightarrow> if c = 34 then map_option (\<lambda>(t, r2). (JStr t, r2)) (scan_string r)
                  else if c = 91 \<or> c = 123 then plain_container (plain_value d) c r
                  else scan_constant s)"

definition loads_text :: "pystr \<Rightarrow> json option" where
  \<comment> \<open>what follows the check for a byte order mark\<close>
  "loads_text s =
     (case plain_value (length s) (skip_ws s) of
        None \<Rightarrow> None
      | Some (v, r) \<Rightarrow> if skip_ws r = [] then Some v else None)"

definition json_loads :: "pystr \<Rightarrow> json option" where
  "json_loads s = (if take 1 s = [0xFEFF] then None else loads_text s)"

section \<open>Bytes\<close>

datatype text_encoding = Utf8 | Utf8Sig | Utf16 bool | Utf32 bool   \<comment> \<open>\<open>True\<close>: big endian\<close>

definition utf8_pass_one :: "nat list \<Rightarrow> (nat \<times> nat list) option" where
  \<comment> \<open>\<open>surrogatepass\<close>: the three bytes of a surrogate are accepted\<close>
  "utf8_pass_one bs =
     (case bs of [] \<Rightarrow> None
      | b # _ \<Rightarrow>
        (case utf8_lead b of None \<Rightarrow> None
         | Some (n, v) \<Rightarrow>
             let c = foldl (\<lambda>a x. a * 64 + (x - 0x80)) v (take (n - 1) (tl bs)) in
             if c < 0x110000 \<and> utf8_bytes c = take n bs then Some (c, drop n bs) else None))"

lemma utf8_pass_one_shrinks: "utf8_pass_one bs = Some (c, rest) \<Longrightarrow> length rest < length bs"
  by (auto simp: utf8_pass_one_def utf8_lead_def Let_def split: list.splits option.splits if_splits)

function utf8_pass :: "nat list \<Rightarrow> pystr option" where
  "utf8_pass bs =
     (if bs = [] then Some []
      else case utf8_pass_one bs of
             None \<Rightarrow> None
           | Some (c, rest) \<Rightarrow> map_option (Cons c) (utf8_pass rest))"
  by pat_completeness auto
termination
  by (relation "measure length") (auto dest: utf8_pass_one_shrinks)

declare utf8_pass.simps [simp del]

fun utf16_units :: "bool \<Rightarrow> nat list \<Rightarrow> nat list option" where
  "utf16_units big [] = Some []"
| "utf16_units big [a] = None"
| "utf16_units big (a # b # r) =
     map_option (Cons (if big then a * 256 + b else b * 256 + a)) (utf16_units big r)"

fun join_units :: "nat list \<Rightarrow> pystr" where
  "join_units [] = []"
| "join_units [u] = [u]"
| "join_units (u # v # r) =
     (if is_high u \<and> is_low v then (0x10000 + (u - 0xD800) * 1024 + (v - 0xDC00)) # join_units r
      else u # join_units (v # r))"

fun utf32_units :: "bool \<Rightarrow> nat list \<Rightarrow> pystr option" where
  "utf32_units big [] = Some []"
| "utf32_units big (a # b # c # d # r) =
     (let u = (if big then ((a * 256 + b) * 256 + c) * 256 + d else ((d * 256 + c) * 256 + b) * 256 + a) in
      if u < 0x110000 then map_option (Cons u) (utf32_units big r) else None)"
| "utf32_units big bs = None"

definition detect_encoding :: "nat list \<Rightarrow> text_encoding \<times> nat list" where
  \<comment> \<open>\<open>json.detect_encoding\<close>; a byte order mark is dropped by the codec it selects\<close>
  "detect_encoding b =
     (if take 4 b = [0, 0, 0xFE, 0xFF] then (Utf32 True, drop 4 b)
      else if take 4 b = [0xFF, 0xFE, 0, 0] then (Utf32 False, drop 4 b)
      else if take 2 b = [0xFE, 0xFF] then (Utf16 True, drop 2 b)
      else if take 2 b = [0xFF, 0xFE] then (Utf16 False, drop 2 b)
      else if take 3 b = [0xEF, 0xBB, 0xBF] then (Utf8Sig, drop 3 b)
      else (case b of
              w # x # y # z # _ \<Rightarrow>
                if w = 0 then (if x \<noteq> 0 then Utf16 True else Utf32 True, b)
                else if x = 0 then (if y \<noteq> 0 \<or> z \<noteq> 0 then Utf16 False else Utf32 False, b)
                else (Utf8, b)
            | [w, x] \<Rightarrow> if w = 0 then (Utf16 True, b) else if x = 0 then (Utf16 False, b) else (Utf8, b)
            | _ \<Rightarrow> (Utf8, b)))"

definition decode_json :: "bytes \<Rightarrow> pystr option" where
  "decode_json raw =
     (case detect_encoding (map unat raw) of
        (Utf16 big, b) \<Rightarrow> map_option join_units (utf16_units big b)
      | (Utf32 big, b) \<Rightarrow> utf32_units big b
      | (_, b) \<Rightarrow> utf8_pass b)"

definition json_loads_bytes :: "bytes \<Rightarrow> json option" where
  "json_loads_bytes raw = Option.bind (decode_json raw) loads_text"

section \<open>Agreement with the strict reader\<close>

lemma scan_elems_mono:
  "(\<And>t x. val t = Some x \<Longrightarrow> val' t = Some x) \<Longrightarrow> scan_elems n val s = Some x \<Longrightarrow> scan_elems n val' s = Some x"
proof (induction n arbitrary: s x)
  case (Suc n)
  then obtain v r where v: "val s = Some (v, r)" by (auto split: option.splits)
  then have "val' s = Some (v, r)" by (rule Suc.prems(1))
  then show ?case using Suc v by (fastforce split: list.splits if_splits)
qed simp

lemma scan_members_mono:
  "(\<And>t x. val t = Some x \<Longrightarrow> val' t = Some x) \<Longrightarrow> scan_members n val s = Some x \<Longrightarrow> scan_members n val' s = Some x"
proof (induction n arbitrary: s x)
  case (Suc n)
  then obtain k r where k: "scan_key s = Some (k, r)" by (auto split: option.splits)
  with Suc.prems(2) obtain v r2 where v: "val r = Some (v, r2)" by (auto split: option.splits)
  then have "val' r = Some (v, r2)" by (rule Suc.prems(1))
  then show ?case using Suc k v by (fastforce split: list.splits if_splits)
qed simp

lemma fold_update_distinct:
  "distinct (map fst (acc @ kvs)) \<Longrightarrow> fold (\<lambda>(k, v). AList.update k v) kvs acc = acc @ kvs"
proof (induction kvs arbitrary: acc)
  case (Cons p kvs)
  obtain k v where p: "p = (k, v)" by (cases p)
  have "k \<notin> set (map fst acc)" using Cons.prems p by auto
  then have "AList.update k v acc = acc @ [(k, v)]" by (induction acc) auto
  then show ?case using Cons p by simp
qed simp

lemma last_wins_distinct: "distinct (map fst kvs) \<Longrightarrow> last_wins kvs = JObj kvs"
  using fold_update_distinct [of "[]" kvs] by (simp add: last_wins_def)

lemma take_Cons_eq: "take n s = x # y \<Longrightarrow> \<exists>t. s = x # t"
  by (cases s; cases n) auto

lemma scan_literal_letter: "is_upper c \<Longrightarrow> scan_literal (c # t) = None" "is_upper c \<Longrightarrow> scan_literal (45 # c # t) = None"
  by (auto simp: scan_literal_def scan_number_def int_digits_def is_digit_def is_upper_def lit_def Let_def)

lemma scan_literal_constant: "scan_literal s = Some x \<Longrightarrow> scan_constant s = Some x"
proof -
  assume x: "scan_literal s = Some x"
  have "take 3 s \<noteq> lit ''NaN''" "take 8 s \<noteq> lit ''Infinity''"
    using x take_Cons_eq [of _ s] scan_literal_letter(1) by (force simp: lit_def is_upper_def)+
  moreover have "take 9 s \<noteq> lit ''-Infinity''"
  proof
    assume t: "take 9 s = lit ''-Infinity''"
    then obtain u where u: "s = 45 # u" using take_Cons_eq [of 9 s] by (auto simp: lit_def)
    with t obtain v where "u = 73 # v" using take_Cons_eq [of 8 u] by (auto simp: lit_def)
    then show False using x u scan_literal_letter(2) [of 73 v] by (simp add: is_upper_def)
  qed
  ultimately show ?thesis using x by (simp add: scan_constant_def)
qed

lemma container_plain:
  assumes "\<And>t x. val t = Some x \<Longrightarrow> val' t = Some x" and "scan_container val c r = Some x"
  shows "plain_container val' c r = Some x"
proof -
  let ?r = "skip_ws r"
  have e: "scan_elems n val t = Some y \<Longrightarrow> scan_elems n val' t = Some y" for n t y by (rule scan_elems_mono [OF assms(1)])
  have m: "scan_members n val t = Some y \<Longrightarrow> scan_members n val' t = Some y" for n t y by (rule scan_members_mono [OF assms(1)])
  show ?thesis
  proof (cases ?r)
    case (Cons d r2)
    show ?thesis
    proof (cases "c = 91")
      case True
      then show ?thesis using assms(2) Cons e
        by (auto simp: scan_container_def plain_container_def Let_def simp del: scan_elems.simps split: if_splits)
    next
      case False
      show ?thesis
      proof (cases "d = 125")
        case True
        then show ?thesis using assms(2) Cons False by (simp add: scan_container_def plain_container_def)
      next
        case nd: False
        then obtain kvs r3 v where sm: "scan_members (length ?r) val ?r = Some (kvs, r3)" "reject_duplicate_keys [] kvs = Some v" "x = (v, r3)"
          using assms(2) Cons False by (auto simp: scan_container_def Let_def simp del: scan_members.simps split: option.splits)
        then have "v = JObj kvs" "distinct (map fst kvs)" using reject_duplicate_keys_iff [of "[]" kvs v] by auto
        then show ?thesis using m [OF sm(1)] sm(3) Cons False nd
          by (simp add: plain_container_def last_wins_distinct del: scan_members.simps)
      qed
    qed
  qed (use assms(2) in \<open>simp add: scan_container_def split: if_splits\<close>)
qed

lemma strict_plain_value: "scan_value d s = Some x \<Longrightarrow> plain_value d s = Some x"
proof (induction d arbitrary: s x)
  case 0
  then show ?case by (auto intro: scan_literal_constant split: list.splits if_splits)
next
  case (Suc d)
  show ?case
  proof (cases s)
    case (Cons c r)
    have "scan_container (scan_value d) c r = Some x \<Longrightarrow> plain_container (plain_value d) c r = Some x"
      by (rule container_plain [OF Suc.IH])
    then show ?thesis using Suc.prems Cons by (auto intro: scan_literal_constant split: if_splits)
  qed (use Suc.prems in simp)
qed

lemma loads_strict_text: "loads_strict (length s) s = Some v \<Longrightarrow> loads_text s = Some v \<and> json_loads s = Some v"
  by (auto simp: loads_strict_def json_loads_def loads_text_def dest: strict_plain_value split: if_splits option.splits)

lemma utf8_pass_ascii: "\<forall>c \<in> set s. c < 128 \<Longrightarrow> utf8_pass s = Some s"
proof (induction s)
  case (Cons c s)
  then have "utf8_pass_one (c # s) = Some (c, s)"
    by (simp add: utf8_pass_one_def utf8_lead_def utf8_bytes_def)
  then show ?case using Cons by (subst utf8_pass.simps) simp
qed (simp add: utf8_pass.simps)

lemma decode_json_ascii:
  assumes "\<forall>c \<in> set s. c < 128" and "\<forall>c \<in> set s. c \<noteq> 0"
  shows "decode_json (ascii_encode s) = Some s"
proof -
  have m: "map unat (ascii_encode s) = s" using assms(1)
    by (simp add: ascii_encode_def unat_of_nat) (rule map_idI, fastforce)
  have nb: "take n s \<noteq> x # y" if "x \<ge> 128" for n x y
  proof
    assume "take n s = x # y"
    then have "x \<in> set s" by (metis in_set_takeD list.set_intros(1))
    then show False using assms(1) that by auto
  qed
  have nz: "take n s \<noteq> 0 # y" for n y
  proof
    assume "take n s = 0 # y"
    then have "0 \<in> set s" by (metis in_set_takeD list.set_intros(1))
    then show False using assms(2) by auto
  qed
  have "detect_encoding s = (Utf8, s)"
    using assms(2) nb nz by (auto simp: detect_encoding_def split: list.split)
  then show ?thesis using utf8_pass_ascii [OF assms(1)] m by (simp add: decode_json_def)
qed

text \<open>What the compact ASCII writer writes is read back, from text and from bytes.\<close>

lemma json_loads_ascii_compact:
  assumes "plain v" and "clean_json ascii_ok v" and "jdepth v \<le> length (dumps_ascii_compact v)"
  shows "json_loads_bytes (ascii_encode (dumps_ascii_compact v)) = Some v"
  using loads_strict_text [OF loads_strict_ascii_compact [OF assms(1-3)]]
    decode_json_ascii [OF ascii_compact_small [OF assms(1)]] dumps_with_ascii [of "[44]" "[58]" v] assms(1)
  by (force simp: json_loads_bytes_def dumps_ascii_compact_def)

end
