(* ===== verification/Routing_Auth.thy ===== *)
theory Routing_Auth
  imports Json_Loads Base64
begin

text \<open>
  The routing-admission tokens of \<^verbatim>\<open>routing_auth.py\<close>: machine identifiers with their check
  character, the issuer that mints tokens, the reference verifier, and the store of the issuer
  key. Ed25519 and SHA-256 are parameters; so are the clock and the random draws.
\<close>

section \<open>Constants and parameters\<close>

record ed25519 =
  ed_public :: "bytes \<Rightarrow> bytes option"           \<comment> \<open>\<open>None\<close>: the private key is refused\<close>
  ed_sign :: "bytes \<Rightarrow> bytes \<Rightarrow> bytes"
  ed_verify :: "bytes \<Rightarrow> bytes \<Rightarrow> bytes \<Rightarrow> bool"  \<comment> \<open>key, message, signature; a bad key counts as no\<close>

definition ed25519_ok :: "ed25519 \<Rightarrow> bool" where
  \<comment> \<open>what the code relies on: signatures have 64 bytes and verify under the public key\<close>
  "ed25519_ok L \<longleftrightarrow> (\<forall>key public m. ed_public L key = Some public \<longrightarrow>
     length public = 32 \<and> length (ed_sign L key m) = 64 \<and> ed_verify L public m (ed_sign L key m))"

definition TOKEN_AUDIENCE :: pystr where "TOKEN_AUDIENCE = lit ''mercury-relay''"
definition ROLE_HOST :: pystr where "ROLE_HOST = lit ''host''"
definition ROLE_PAIRING_DEVICE :: pystr where "ROLE_PAIRING_DEVICE = lit ''pairing_device''"
definition ROLE_AUTHORIZED_DEVICE :: pystr where "ROLE_AUTHORIZED_DEVICE = lit ''authorized_device''"
definition ROLES :: "pystr list" where "ROLES = [ROLE_HOST, ROLE_PAIRING_DEVICE, ROLE_AUTHORIZED_DEVICE]"
definition HOST_TOKEN_TTL_SECONDS :: int where "HOST_TOKEN_TTL_SECONDS = 600"
definition AUTHORIZED_DEVICE_TOKEN_TTL_SECONDS :: int where "AUTHORIZED_DEVICE_TOKEN_TTL_SECONDS = 30 * 24 * 3600"
definition MAX_TOKEN_CHARS :: nat where "MAX_TOKEN_CHARS = 1024"
definition MAX_JTI_CHARS :: nat where "MAX_JTI_CHARS = 64"
definition JTI_BYTES :: nat where "JTI_BYTES = 16"
definition MACHINE_ID_DOMAIN :: pystr where "MACHINE_ID_DOMAIN = lit ''mercury-relay-machine-id/v1''"
definition MACHINE_ID_BYTES :: nat where "MACHINE_ID_BYTES = 15"
definition MACHINE_ID_ALPHABET :: pystr where "MACHINE_ID_ALPHABET = lit ''ABCDEFGHIJKLMNOPQRSTUVWXYZ234567''"
definition MACHINE_ID_CHECK_MODULUS :: nat where "MACHINE_ID_CHECK_MODULUS = 31"
definition PUBLIC_KEY_B64URL_CHARS :: nat where "PUBLIC_KEY_B64URL_CHARS = 43"

definition HEADER_B64 :: pystr where
  "HEADER_B64 = b64url_encode (ascii_encode (lit ''{\"alg\":\"EdDSA\",\"typ\":\"mrt1\"}''))"

definition MAX_TOKEN_LIFETIME_SECONDS :: "(pystr \<times> int) list" where
  "MAX_TOKEN_LIFETIME_SECONDS =
     [(ROLE_HOST, 3600), (ROLE_PAIRING_DEVICE, 900), (ROLE_AUTHORIZED_DEVICE, 45 * 24 * 3600)]"

datatype token_error =
    RoutingTokenError string
  | TokenTypeError                 \<comment> \<open>a \<open>TypeError\<close> that nothing catches\<close>
  | TokenIdentityError             \<comment> \<open>the random source fails\<close>

section \<open>Machine identifiers\<close>

definition quintet :: "bool \<Rightarrow> bool \<Rightarrow> bool \<Rightarrow> bool \<Rightarrow> bool \<Rightarrow> nat" where
  "quintet a b c d e =
     MACHINE_ID_ALPHABET ! (16 * of_bool a + 8 * of_bool b + 4 * of_bool c + 2 * of_bool d + of_bool e)"

fun bits5 :: "bool list \<Rightarrow> pystr" where
  \<comment> \<open>the characters of \<open>b32encode\<close> for a string of bits, without padding\<close>
  "bits5 [] = []"
| "bits5 [a] = [quintet a False False False False]"
| "bits5 [a, b] = [quintet a b False False False]"
| "bits5 [a, b, c] = [quintet a b c False False]"
| "bits5 [a, b, c, d] = [quintet a b c d False]"
| "bits5 (a # b # c # d # e # r) = quintet a b c d e # bits5 r"

definition byte_bits :: "byte \<Rightarrow> bool list" where
  "byte_bits b = map (\<lambda>i. (unat b div 2 ^ i) mod 2 = 1) [7, 6, 5, 4, 3, 2, 1, 0]"

definition b32encode :: "bytes \<Rightarrow> pystr" where
  \<comment> \<open>\<open>base64.b32encode(...).rstrip("=")\<close>\<close>
  "b32encode bs = bits5 (concat (map byte_bits bs))"

fun chunks :: "nat \<Rightarrow> pystr \<Rightarrow> pystr list" where
  \<comment> \<open>\<open>[raw[i : i + n] for i in range(0, len(raw), n)]\<close>\<close>
  "chunks n s = (if s = [] \<or> n = 0 then [] else take n s # chunks n (drop n s))"

definition dashed :: "pystr list \<Rightarrow> pystr" where
  "dashed gs = lit ''MR-'' @ sep_join (lit ''-'') gs"

definition machine_id :: "(bytes \<Rightarrow> bytes) \<Rightarrow> bytes \<Rightarrow> bytes \<Rightarrow> token_error + pystr" where
  "machine_id sha256 installation_id public_key =
     (if length installation_id \<noteq> 32 then Inl (RoutingTokenError ''invalid_installation_id'')
      else if length public_key \<noteq> 32 then Inl (RoutingTokenError ''invalid_issuer_key'')
      else
        let route = b64url_encode installation_id; pk = b64url_encode public_key;
            digest = sha256 (ascii_encode (MACHINE_ID_DOMAIN @ route @ pk))
        in Inr (dashed (chunks 4 (b32encode (take MACHINE_ID_BYTES digest)))))"

definition alphabet_index :: "nat \<Rightarrow> nat" where
  \<comment> \<open>\<open>MACHINE_ID_ALPHABET.index(c)\<close>\<close>
  "alphabet_index c = length (takeWhile (\<lambda>x. x \<noteq> c) MACHINE_ID_ALPHABET)"

definition check_total :: "pystr \<Rightarrow> nat" where
  "check_total body = sum_list (map (\<lambda>i. (i + 1) * alphabet_index (body ! i)) [0..<length body])"

definition machine_id_check_char :: "pystr \<Rightarrow> token_error + nat" where
  "machine_id_check_char body =
     (if length body \<noteq> 24 \<or> \<not> list_all (\<lambda>c. c \<in> set MACHINE_ID_ALPHABET) body
      then Inl (RoutingTokenError ''invalid_machine_id'')
      else Inr (MACHINE_ID_ALPHABET ! (check_total body mod MACHINE_ID_CHECK_MODULUS)))"

definition machine_id_display :: "(bytes \<Rightarrow> bytes) \<Rightarrow> bytes \<Rightarrow> bytes \<Rightarrow> token_error + pystr" where
  "machine_id_display sha256 installation_id public_key =
     res_bind (machine_id sha256 installation_id public_key) (\<lambda>mid.
       let body = filter (\<lambda>c. c \<noteq> 45) (drop 3 mid) in
       res_bind (machine_id_check_char body) (\<lambda>c.
       let checked = body @ [c] in
       Inr (dashed (map (\<lambda>i. take 5 (drop i checked)) [0, 5, 10, 15, 20]))))"

section \<open>The issuer\<close>

record issuer =
  is_key :: bytes
  is_public :: bytes

definition new_issuer :: "ed25519 \<Rightarrow> bytes \<Rightarrow> token_error + issuer" where
  "new_issuer L private_key =
     (if length private_key \<noteq> 32 then Inl (RoutingTokenError ''invalid_issuer_key'')
      else (case ed_public L private_key of
              None \<Rightarrow> Inl (RoutingTokenError ''invalid_issuer_key'')
            | Some public \<Rightarrow> Inr \<lparr>is_key = private_key, is_public = public\<rparr>))"

definition token_claims :: "issuer \<Rightarrow> pystr \<Rightarrow> bytes \<Rightarrow> int \<Rightarrow> int \<Rightarrow> bytes \<Rightarrow> json" where
  "token_claims I role installation_id ttl_seconds now jti =
     JObj [(lit ''aud'', JStr TOKEN_AUDIENCE), (lit ''role'', JStr role), (lit ''inst'', JStr (b64url_encode installation_id)),
           (lit ''iat'', JInt now), (lit ''exp'', JInt (now + ttl_seconds)), (lit ''jti'', JStr (b64url_encode jti)),
           (lit ''pk'', JStr (b64url_encode (is_public I)))]"

definition mint ::
  "ed25519 \<Rightarrow> int \<Rightarrow> bytes option \<Rightarrow> issuer \<Rightarrow> pystr \<Rightarrow> bytes \<Rightarrow> int \<Rightarrow> token_error + pystr" where
  \<comment> \<open>\<open>now\<close> is \<open>int(self._clock())\<close>, \<open>draw\<close> what the random source returns\<close>
  "mint L now draw I role installation_id ttl_seconds =
     (if role \<notin> set ROLES then Inl (RoutingTokenError ''invalid_role'')
      else if length installation_id \<noteq> 32 then Inl (RoutingTokenError ''invalid_installation_id'')
      else if ttl_seconds < 1 then Inl (RoutingTokenError ''invalid_ttl'')
      else (case draw of
              None \<Rightarrow> Inl TokenIdentityError
            | Some jti \<Rightarrow>
                if length jti \<noteq> JTI_BYTES then Inl TokenIdentityError
                else
                  let claims = token_claims I role installation_id ttl_seconds now jti;
                      claims_b64 = b64url_encode (ascii_encode (dumps_ascii_compact (sort_keys claims)));
                      signing_input = HEADER_B64 @ lit ''.'' @ claims_b64;
                      signature = ed_sign L (is_key I) (ascii_encode signing_input);
                      token = signing_input @ lit ''.'' @ b64url_encode signature
                  in if length token > MAX_TOKEN_CHARS then Inl (RoutingTokenError ''token_too_large'') else Inr token))"

definition mint_host_token :: "ed25519 \<Rightarrow> int \<Rightarrow> bytes option \<Rightarrow> issuer \<Rightarrow> bytes \<Rightarrow> token_error + pystr" where
  "mint_host_token L now draw I installation_id = mint L now draw I ROLE_HOST installation_id HOST_TOKEN_TTL_SECONDS"

section \<open>The reference verifier\<close>

definition is_jint :: "json \<Rightarrow> bool" where
  "is_jint v = (case v of JInt _ \<Rightarrow> True | _ \<Rightarrow> False)"

definition is_jstr :: "json \<Rightarrow> bool" where
  "is_jstr v = (case v of JStr _ \<Rightarrow> True | _ \<Rightarrow> False)"

definition jint :: "json \<Rightarrow> int" where
  "jint v = (case v of JInt i \<Rightarrow> i | _ \<Rightarrow> 0)"

definition role_known :: "json \<Rightarrow> token_error + bool" where
  \<comment> \<open>\<open>role in ROLES\<close>: hashing a list or an object raises\<close>
  "role_known v =
     (case v of JStr r \<Rightarrow> Inr (r \<in> set ROLES) | JArr _ \<Rightarrow> Inl TokenTypeError | JObj _ \<Rightarrow> Inl TokenTypeError | _ \<Rightarrow> Inr False)"

definition check_pk :: "dict \<Rightarrow> bytes \<Rightarrow> token_error + unit" where
  "check_pk claims public_key =
     (case map_of claims (lit ''pk'') of
        None \<Rightarrow> Inr ()
      | Some (JStr pk) \<Rightarrow>
          if length pk \<noteq> PUBLIC_KEY_B64URL_CHARS then Inl (RoutingTokenError ''invalid_claims'')
          else (case b64url_decode_loose pk of
                  None \<Rightarrow> Inl (RoutingTokenError ''invalid_token'')
                | Some key \<Rightarrow> if key \<noteq> public_key then Inl (RoutingTokenError ''invalid_signature'') else Inr ())
      | Some _ \<Rightarrow> Inl (RoutingTokenError ''invalid_claims''))"

definition check_lifetime :: "dict \<Rightarrow> int \<Rightarrow> int \<Rightarrow> token_error + unit" where
  "check_lifetime claims moment skew_seconds =
     (let iat = jint (jget claims ''iat''); exp' = jint (jget claims ''exp''); lifetime = exp' - iat;
          cap = (case jget claims ''role'' of JStr r \<Rightarrow> map_of MAX_TOKEN_LIFETIME_SECONDS r | _ \<Rightarrow> None)
      in if lifetime < 1 \<or> (case cap of None \<Rightarrow> True | Some m \<Rightarrow> lifetime > m) then Inl (RoutingTokenError ''invalid_claims'')
         else if moment < iat - skew_seconds \<or> moment \<ge> exp' then Inl (RoutingTokenError ''token_expired'')
         else Inr ())"

definition check_claims :: "json \<Rightarrow> bytes \<Rightarrow> pystr option \<Rightarrow> int \<Rightarrow> int \<Rightarrow> token_error + dict" where
  "check_claims v public_key installation moment skew_seconds =
     (case v of
        JObj claims \<Rightarrow>
          if jget claims ''aud'' \<noteq> JStr TOKEN_AUDIENCE then Inl (RoutingTokenError ''invalid_claims'')
          else
            res_bind (role_known (jget claims ''role'')) (\<lambda>known.
            if \<not> known \<or> \<not> is_jstr (jget claims ''inst'') \<or> \<not> is_jint (jget claims ''iat'') \<or> \<not> is_jint (jget claims ''exp'')
               \<or> (case jget claims ''jti'' of JStr t \<Rightarrow> \<not> (1 \<le> length t \<and> length t \<le> MAX_JTI_CHARS) | _ \<Rightarrow> True)
            then Inl (RoutingTokenError ''invalid_claims'')
            else if (case installation of None \<Rightarrow> False | Some route \<Rightarrow> jget claims ''inst'' \<noteq> JStr route)
            then Inl (RoutingTokenError ''invalid_claims'')
            else res_bind (check_pk claims public_key) (\<lambda>_.
                 res_bind (check_lifetime claims moment skew_seconds) (\<lambda>_. Inr claims)))
      | _ \<Rightarrow> Inl (RoutingTokenError ''invalid_claims''))"

definition verify_routing_token ::
  "ed25519 \<Rightarrow> pystr \<Rightarrow> bytes \<Rightarrow> pystr option \<Rightarrow> int \<Rightarrow> int \<Rightarrow> token_error + dict" where
  "verify_routing_token L token public_key installation moment skew_seconds =
     (if \<not> (1 \<le> length token \<and> length token \<le> MAX_TOKEN_CHARS) then Inl (RoutingTokenError ''invalid_token'')
      else (case split_on (cp CHR ''.'') token of
              [header_b64, claims_b64, signature_b64] \<Rightarrow>
                if header_b64 \<noteq> HEADER_B64 then Inl (RoutingTokenError ''invalid_token'')
                else (case (b64url_decode_loose claims_b64, b64url_decode_loose signature_b64) of
                        (Some claims_raw, Some signature) \<Rightarrow>
                          if length signature \<noteq> 64 then Inl (RoutingTokenError ''invalid_token'')
                          else if \<not> ed_verify L public_key (ascii_encode (header_b64 @ lit ''.'' @ claims_b64)) signature
                          then Inl (RoutingTokenError ''invalid_signature'')
                          else (case json_loads_bytes claims_raw of
                                  None \<Rightarrow> Inl (RoutingTokenError ''invalid_token'')
                                | Some v \<Rightarrow> check_claims v public_key installation moment skew_seconds)
                      | _ \<Rightarrow> Inl (RoutingTokenError ''invalid_token''))
            | _ \<Rightarrow> Inl (RoutingTokenError ''invalid_token'')))"

section \<open>The store of the issuer key\<close>

text \<open>\<open>None\<close> stands for a state whose \<open>load\<close> raises, otherwise the value of the field.\<close>

definition issuer_record :: "issuer \<Rightarrow> json" where
  "issuer_record I = JObj [(lit ''private_key'', JStr (b64encode (is_key I))), (lit ''public_key'', JStr (b64encode (is_public I)))]"

definition read_key :: "dict \<Rightarrow> string \<Rightarrow> bytes option" where
  "read_key d field = (case map_of d (lit field) of Some (JStr t) \<Rightarrow> b64decode_exact t 32 | _ \<Rightarrow> None)"

definition load_issuer :: "ed25519 \<Rightarrow> json \<Rightarrow> token_error + issuer" where
  "load_issuer L v =
     (case v of
        JObj d \<Rightarrow>
          (case read_key d ''private_key'' of
             None \<Rightarrow> Inl (RoutingTokenError ''issuer_state_invalid'')
           | Some private_key \<Rightarrow>
               (case (new_issuer L private_key, read_key d ''public_key'') of
                  (Inr I, Some expected_public) \<Rightarrow>
                    if is_public I \<noteq> expected_public then Inl (RoutingTokenError ''issuer_state_invalid'') else Inr I
                | _ \<Rightarrow> Inl (RoutingTokenError ''issuer_state_invalid'')))
      | _ \<Rightarrow> Inl (RoutingTokenError ''issuer_state_invalid''))"

definition load_or_create_issuer ::
  "ed25519 \<Rightarrow> bytes option \<Rightarrow> bool \<Rightarrow> json option \<Rightarrow> (token_error + issuer) \<times> json option" where
  \<comment> \<open>\<open>draw\<close>: the new private key; \<open>write_ok\<close>: the state can be written\<close>
  "load_or_create_issuer L draw write_ok state =
     (case state of
        None \<Rightarrow> (Inl (RoutingTokenError ''issuer_state_invalid''), state)
      | Some v \<Rightarrow>
          if v \<noteq> JNull then (load_issuer L v, state)
          else (case draw of
                  None \<Rightarrow> (Inl TokenIdentityError, state)
                | Some private_key \<Rightarrow>
                    if length private_key \<noteq> 32 then (Inl TokenIdentityError, state)
                    else (case new_issuer L private_key of
                            Inl e \<Rightarrow> (Inl e, state)
                          | Inr I \<Rightarrow> if write_ok then (Inr I, Some (issuer_record I))
                                     else (Inl (RoutingTokenError ''issuer_persistence_failed''), state))))"

end
