(* ===== verification/Routing_Auth_Props.thy ===== *)
theory Routing_Auth_Props
  imports Routing_Auth
begin

text \<open>
  Properties of the routing tokens: minted tokens verify, verified tokens are what the issuer
  signed and in force, and which slips the check character of a machine identifier catches.
\<close>

declare chunks.simps [simp del]

section \<open>The check character\<close>

lemma alphabet_length [simp]: "length MACHINE_ID_ALPHABET = 32"
  by (simp add: MACHINE_ID_ALPHABET_def)

lemma alphabet_distinct: "distinct MACHINE_ID_ALPHABET"
  unfolding MACHINE_ID_ALPHABET_def by code_simp

lemma index_in: "c \<in> set xs \<Longrightarrow> length (takeWhile (\<lambda>x. x \<noteq> c) xs) < length xs \<and> xs ! length (takeWhile (\<lambda>x. x \<noteq> c) xs) = c"
  by (induction xs) auto

lemma alphabet_index_less: "c \<in> set MACHINE_ID_ALPHABET \<Longrightarrow> alphabet_index c < 32"
  using index_in [of c MACHINE_ID_ALPHABET] by (simp add: alphabet_index_def)

lemma alphabet_index_nth: "c \<in> set MACHINE_ID_ALPHABET \<Longrightarrow> MACHINE_ID_ALPHABET ! alphabet_index c = c"
  using index_in [of c MACHINE_ID_ALPHABET] by (simp add: alphabet_index_def)

lemma alphabet_ends: "alphabet_index 65 = 0" "alphabet_index 55 = 31" "MACHINE_ID_ALPHABET ! 0 = 65" "MACHINE_ID_ALPHABET ! 31 = 55"
  by code_simp+

lemma index_difference:
  assumes "x \<in> set MACHINE_ID_ALPHABET" and "y \<in> set MACHINE_ID_ALPHABET"
  shows "31 dvd int (alphabet_index x) - int (alphabet_index y) \<longleftrightarrow> x = y \<or> {x, y} = {65, 55}"
proof
  let ?i = "alphabet_index x" and ?j = "alphabet_index y"
  assume "31 dvd int ?i - int ?j"
  then obtain k where k: "int ?i - int ?j = 31 * k" by (auto simp: dvd_def)
  have "?i < 32" "?j < 32" using assms by (simp_all add: alphabet_index_less)
  then have "31 * k < 62" "- 62 < 31 * k" using k by linarith+
  then have "k < 2" "- 2 < k" by linarith+
  then have "k = 0 \<or> k = 1 \<or> k = - 1" by linarith
  then consider "?i = ?j" | "?i = 31" "?j = 0" | "?i = 0" "?j = 31"
  proof cases
    assume "k \<noteq> 0"
    then have "int ?i = int ?j + 31 \<or> int ?j = int ?i + 31" using \<open>k = 0 \<or> k = 1 \<or> k = - 1\<close> k by auto
    then have "?i = 31 \<and> ?j = 0 \<or> ?i = 0 \<and> ?j = 31" using \<open>?i < 32\<close> \<open>?j < 32\<close> by linarith
    then show ?thesis using that(2,3) by blast
  qed (use k that(1) in simp)
  then show "x = y \<or> {x, y} = {65, 55}"
  proof cases
    case 1
    then show ?thesis using alphabet_index_nth [OF assms(1)] alphabet_index_nth [OF assms(2)] by metis
  next
    case 2
    then have "x = 55" "y = 65"
      using alphabet_index_nth [OF assms(1)] alphabet_index_nth [OF assms(2)] alphabet_ends(3,4) by metis+
    then show ?thesis by auto
  next
    case 3
    then have "x = 65" "y = 55"
      using alphabet_index_nth [OF assms(1)] alphabet_index_nth [OF assms(2)] alphabet_ends(3,4) by metis+
    then show ?thesis by auto
  qed
next
  assume "x = y \<or> {x, y} = {65, 55}"
  then show "31 dvd int (alphabet_index x) - int (alphabet_index y)"
    using alphabet_ends by (auto simp: doubleton_eq_iff)
qed

lemma coprime_31: "1 \<le> k \<Longrightarrow> k \<le> 24 \<Longrightarrow> coprime (31 :: int) k"
proof -
  assume k: "1 \<le> k" "k \<le> 24"
  have "\<forall>k \<in> set [1..24]. coprime (31 :: int) k" by (simp add: upto.simps coprime_iff_gcd_eq_1 gcd_non_0_int)
  then show ?thesis using k by simp
qed

lemma check_total_sum: "int (check_total body) = (\<Sum>i < length body. int (i + 1) * int (alphabet_index (body ! i)))"
  by (simp add: check_total_def interv_sum_list_conv_sum_set_nat atLeast0LessThan algebra_simps)

lemma mod_31: "(a :: nat) mod 31 = b mod 31 \<longleftrightarrow> (31 :: int) dvd int b - int a"
proof -
  have "a mod 31 = b mod 31 \<longleftrightarrow> int b mod 31 = int a mod 31" by (metis of_nat_eq_iff of_nat_numeral zmod_int)
  also have "\<dots> \<longleftrightarrow> 31 dvd int b - int a" by (rule mod_eq_dvd_iff)
  finally show ?thesis .
qed

lemma check_char_eq:
  assumes "machine_id_check_char body = Inr c" and "machine_id_check_char body' = Inr c'"
  shows "c = c' \<longleftrightarrow> 31 dvd int (check_total body') - int (check_total body)"
proof -
  let ?m = "\<lambda>b. check_total b mod 31"
  have lt: "?m b < length MACHINE_ID_ALPHABET" for b using mod_less_divisor [of 31 "check_total b"] by simp
  have "c = MACHINE_ID_ALPHABET ! ?m body" "c' = MACHINE_ID_ALPHABET ! ?m body'"
    using assms by (auto simp: machine_id_check_char_def MACHINE_ID_CHECK_MODULUS_def split: if_splits)
  then have "c = c' \<longleftrightarrow> ?m body = ?m body'" using nth_eq_iff_index_eq [OF alphabet_distinct lt lt] by simp
  also have "\<dots> \<longleftrightarrow> 31 dvd int (check_total body') - int (check_total body)"
    by (rule mod_31)
  finally show ?thesis .
qed

text \<open>
  What the check character of a machine identifier catches. Replacing one character of the
  24 by another one of the alphabet changes it, and so does swapping two neighbours, with one
  exception in either case: an A and a 7 are the same to it. It is never a 7.
\<close>

theorem check_char_catches:
  assumes "machine_id_check_char body = Inr c"
  shows "(\<forall>i < 24. \<forall>x \<in> set MACHINE_ID_ALPHABET.
            machine_id_check_char (body[i := x]) = Inr c \<longleftrightarrow> x = body ! i \<or> {x, body ! i} = {cp CHR ''A'', cp CHR ''7''})
       \<and> (\<forall>i < 23. machine_id_check_char (body[i := body ! Suc i, Suc i := body ! i]) = Inr c
            \<longleftrightarrow> body ! i = body ! Suc i \<or> {body ! i, body ! Suc i} = {cp CHR ''A'', cp CHR ''7''})
       \<and> c \<in> set MACHINE_ID_ALPHABET \<and> c \<noteq> cp CHR ''7''"
proof -
  have cp: "cp CHR ''A'' = 65" "cp CHR ''7'' = 55" by (simp_all add: cp_def)
  have body: "length body = 24" "list_all (\<lambda>c. c \<in> set MACHINE_ID_ALPHABET) body"
    and c: "c = MACHINE_ID_ALPHABET ! (check_total body mod 31)"
    using assms by (auto simp: machine_id_check_char_def MACHINE_ID_CHECK_MODULUS_def split: if_splits)
  have lt: "check_total body mod 31 < 31" by simp
  have char: "body ! i \<in> set MACHINE_ID_ALPHABET" if "i < 24" for i using body that by (simp add: list_all_length)
  have ok: "\<exists>c'. machine_id_check_char b = Inr c'" if "length b = 24" "\<And>x. x \<in> set b \<Longrightarrow> x \<in> set MACHINE_ID_ALPHABET" for b
    using that by (auto simp: machine_id_check_char_def list_all_iff)
  have same: "machine_id_check_char b = Inr c \<longleftrightarrow> 31 dvd int (check_total b) - int (check_total body)"
    if l: "length b = 24" "\<And>x. x \<in> set b \<Longrightarrow> x \<in> set MACHINE_ID_ALPHABET" for b
  proof -
    obtain c' where "machine_id_check_char b = Inr c'" using ok [OF l] by blast
    then show ?thesis using check_char_eq [OF assms] by auto
  qed
  let ?x = "\<lambda>i. int (alphabet_index (body ! i))"
  have 1: "machine_id_check_char (body[i := x]) = Inr c \<longleftrightarrow> x = body ! i \<or> {x, body ! i} = {65, 55}"
    if i: "i < 24" and x: "x \<in> set MACHINE_ID_ALPHABET" for i x
  proof -
    have mem: "\<And>y. y \<in> set (body[i := x]) \<Longrightarrow> y \<in> set MACHINE_ID_ALPHABET"
      using body(2) x set_update_subset_insert [of body i x] by (auto simp: list_all_iff)
    have "int (check_total (body[i := x])) - int (check_total body) = int (i + 1) * (int (alphabet_index x) - ?x i)"
      using i body(1) by (simp add: check_total_sum sum.remove [of "{..<24}" i] nth_list_update algebra_simps)
    moreover have "coprime 31 (int (i + 1))" using i by (intro coprime_31) simp_all
    ultimately show ?thesis
      using same [of "body[i := x]"] mem body(1) index_difference [OF x char [OF i]] by (simp add: coprime_dvd_mult_right_iff)
  qed
  have 2: "machine_id_check_char (body[i := body ! Suc i, Suc i := body ! i]) = Inr c
      \<longleftrightarrow> body ! i = body ! Suc i \<or> {body ! i, body ! Suc i} = {65, 55}" if i: "i < 23" for i
  proof -
    let ?b = "body[i := body ! Suc i, Suc i := body ! i]"
    have sub: "set ?b \<subseteq> set body"
      using i body(1) by (intro set_update_subsetI) (auto intro!: set_update_subsetI nth_mem)
    have "{..<24} - {i} - {Suc i} = {..<24} - {i, Suc i}" by auto
    then have "int (check_total ?b) - int (check_total body) = ?x i - ?x (Suc i)"
      using i body(1)
      by (simp add: check_total_sum sum.remove [of "{..<24}" i] sum.remove [of "{..<24} - {i}" "Suc i"] nth_list_update algebra_simps)
    then show ?thesis
      using same [of ?b] sub body index_difference [OF char char, of i "Suc i"] i by (auto simp: list_all_iff subset_iff)
  qed
  have 3: "c \<noteq> 55"
  proof
    assume "c = 55"
    moreover have "(55 :: nat) = MACHINE_ID_ALPHABET ! 31" by (simp add: alphabet_ends(4))
    ultimately have "check_total body mod 31 = 31"
      using c nth_eq_iff_index_eq [OF alphabet_distinct, of "check_total body mod 31" 31] lt by simp
    then show False using lt by simp
  qed
  have "c \<in> set MACHINE_ID_ALPHABET" unfolding c using lt by (intro nth_mem) simp
  with 1 2 3 show ?thesis by (simp add: cp)
qed

theorem check_char_catches_witness:
  "machine_id_check_char (replicate 24 (cp CHR ''A'')) = Inr (cp CHR ''A'')
     \<and> machine_id_check_char ((replicate 24 (cp CHR ''A''))[3 := cp CHR ''B'']) \<noteq> Inr (cp CHR ''A'')
     \<and> machine_id_check_char ((replicate 24 (cp CHR ''A''))[3 := cp CHR ''7'']) = Inr (cp CHR ''A'')"
proof -
  have c: "machine_id_check_char (replicate 24 (cp CHR ''A'')) = Inr (cp CHR ''A'')" by code_simp
  have m: "cp CHR ''B'' \<in> set MACHINE_ID_ALPHABET" "cp CHR ''7'' \<in> set MACHINE_ID_ALPHABET" by code_simp+
  note th = check_char_catches [OF c, THEN conjunct1, rule_format, of 3]
  show ?thesis using c th [OF _ m(1)] th [OF _ m(2)] by (simp add: cp_def doubleton_eq_iff insert_commute)
qed

section \<open>Tokens\<close>

lemma split_on_join: "split_on sep s = [a, b, c] \<Longrightarrow> s = a @ sep # b @ sep # c"
proof -
  have "s = sep_join [sep] (split_on sep s) \<and> split_on sep s \<noteq> []" for s
  proof (induction s)
    case (Cons x s)
    then obtain g gs where g: "split_on sep s = g # gs" by (cases "split_on sep s") auto
    then show ?case using Cons by (cases gs) auto
  qed simp
  moreover assume "split_on sep s = [a, b, c]"
  ultimately show ?thesis by (metis append_Cons append_Nil append_assoc sep_join.simps)
qed

lemma b64url_char_range: "v < 64 \<Longrightarrow> b64url_char v < 128 \<and> b64url_char v \<noteq> 46"
  by (auto simp: b64url_char_def b64_char_def)

lemma b64url_text: "c \<in> set (b64url_encode bs) \<Longrightarrow> c < 128 \<and> c \<noteq> 46"
  using sextets_less [OF bytes_less_256, of bs] b64url_char_range by (auto simp: b64url_encode_def)

lemma b64url_ascii_ok: "ascii_ok (b64url_encode bs)"
  using b64url_text [of _ bs] by (intro small_ascii_ok) fastforce

definition sorted_claims :: "issuer \<Rightarrow> pystr \<Rightarrow> bytes \<Rightarrow> int \<Rightarrow> int \<Rightarrow> bytes \<Rightarrow> dict" where
  "sorted_claims I role installation_id ttl now jti =
     [(lit ''aud'', JStr TOKEN_AUDIENCE), (lit ''exp'', JInt (now + ttl)), (lit ''iat'', JInt now),
      (lit ''inst'', JStr (b64url_encode installation_id)), (lit ''jti'', JStr (b64url_encode jti)),
      (lit ''pk'', JStr (b64url_encode (is_public I))), (lit ''role'', JStr role)]"

lemma sort_token_claims: "sort_keys (token_claims I role inst ttl now jti) = JObj (sorted_claims I role inst ttl now jti)"
  by (simp add: token_claims_def sorted_claims_def sort_key_def lit_def)

lemma role_ascii: "role \<in> set ROLES \<Longrightarrow> ascii_ok role \<and> (\<exists>cap. map_of MAX_TOKEN_LIFETIME_SECONDS role = Some cap)"
  using ascii_ok_lit
  by (auto simp: ROLES_def ROLE_HOST_def ROLE_PAIRING_DEVICE_def ROLE_AUTHORIZED_DEVICE_def MAX_TOKEN_LIFETIME_SECONDS_def)

definition time_ok :: "int \<Rightarrow> bool" where
  "time_ok t \<longleftrightarrow> \<bar>t\<bar> < 10 ^ 19"

lemma time_plain: "time_ok t \<Longrightarrow> plain (JInt t)"
proof -
  assume "time_ok t"
  then have "nat \<bar>t\<bar> < 10 ^ Suc 18" by (simp add: time_ok_def nat_less_iff)
  from length_nat_digits [OF this] show ?thesis by (simp add: INT_MAX_STR_DIGITS_def)
qed

lemma claims_read_back:
  assumes "role \<in> set ROLES" and "time_ok now" and "time_ok (now + ttl)"
  shows "json_loads_bytes (ascii_encode (dumps_ascii_compact (JObj (sorted_claims I role inst ttl now jti))))
    = Some (JObj (sorted_claims I role inst ttl now jti))"
proof (rule json_loads_ascii_compact)
  let ?c = "sorted_claims I role inst ttl now jti"
  show "plain (JObj ?c)" unfolding plain_member sorted_claims_def
    using time_plain [OF assms(2)] time_plain [OF assms(3)] by (simp add: lit_def del: plain.simps(3))
  show "clean_json ascii_ok (JObj ?c)" unfolding clean_member sorted_claims_def
    using role_ascii [OF assms(1)] by (simp add: ascii_ok_lit b64url_ascii_ok TOKEN_AUDIENCE_def)
  show "jdepth (JObj ?c) \<le> length (dumps_ascii_compact (JObj ?c))"
    by (simp add: sorted_claims_def dumps_ascii_compact_def)
qed

lemma claim_fields:
  "jget (sorted_claims I role inst ttl now jti) ''aud'' = JStr TOKEN_AUDIENCE"
  "jget (sorted_claims I role inst ttl now jti) ''exp'' = JInt (now + ttl)"
  "jget (sorted_claims I role inst ttl now jti) ''iat'' = JInt now"
  "jget (sorted_claims I role inst ttl now jti) ''inst'' = JStr (b64url_encode inst)"
  "jget (sorted_claims I role inst ttl now jti) ''jti'' = JStr (b64url_encode jti)"
  "jget (sorted_claims I role inst ttl now jti) ''role'' = JStr role"
  "map_of (sorted_claims I role inst ttl now jti) (lit ''pk'') = Some (JStr (b64url_encode (is_public I)))"
  by (simp_all add: sorted_claims_def jget_def lit_def)

lemma new_issuer_Inr:
  "new_issuer L key = Inr I \<Longrightarrow> length key = 32 \<and> ed_public L key = Some (is_public I) \<and> is_key I = key"
  by (auto simp: new_issuer_def split: if_splits option.splits)

lemma minted_token_verifies:
  assumes "ed25519_ok L" and "new_issuer L key = Inr I" and "mint L now draw I role inst ttl = Inr token"
    and "map_of MAX_TOKEN_LIFETIME_SECONDS role = Some cap" and "ttl \<le> cap" and "time_ok now" and "time_ok (now + ttl)"
    and "now - skew \<le> moment" and "moment < now + ttl" and "0 \<le> skew"
  shows "(\<exists>claims. verify_routing_token L token (is_public I) (Some (b64url_encode inst)) moment skew = Inr claims
        \<and> jget claims ''role'' = JStr role \<and> jget claims ''inst'' = JStr (b64url_encode inst)
        \<and> jget claims ''iat'' = JInt now \<and> jget claims ''exp'' = JInt (now + ttl))
     \<and> verify_routing_token L token (is_public I) (Some (b64url_encode inst)) (now + ttl) skew = Inl (RoutingTokenError ''token_expired'')"
proof -
  note I = new_issuer_Inr [OF assms(2)]
  have pub: "length (is_public I) = 32" "\<And>m. length (ed_sign L (is_key I) m) = 64"
    "\<And>m. ed_verify L (is_public I) m (ed_sign L (is_key I) m)"
    using assms(1) I by (auto simp: ed25519_ok_def)
  obtain jti where draw: "draw = Some jti" "length jti = JTI_BYTES" and role: "role \<in> set ROLES" and ttl: "1 \<le> ttl" and inst: "length inst = 32"
    using assms(3) by (auto simp: mint_def Let_def split: if_splits option.splits)
  let ?c = "sorted_claims I role inst ttl now jti"
  let ?b = "b64url_encode (ascii_encode (dumps_ascii_compact (JObj ?c)))"
  let ?in = "HEADER_B64 @ lit ''.'' @ ?b"
  let ?sig = "ed_sign L (is_key I) (ascii_encode ?in)"
  have token: "token = ?in @ lit ''.'' @ b64url_encode ?sig" and len: "length token \<le> MAX_TOKEN_CHARS"
    using assms(3) draw by (auto simp: mint_def Let_def sort_token_claims split: if_splits)
  have dot: "cp CHR ''.'' \<notin> set (b64url_encode x)" for x using b64url_text [of "cp CHR ''.''" x] by (auto simp: cp_def)
  have hdot: "cp CHR ''.'' \<notin> set HEADER_B64" unfolding HEADER_B64_def by (rule dot)
  have "token = HEADER_B64 @ cp CHR ''.'' # ?b @ cp CHR ''.'' # b64url_encode ?sig" by (simp add: token lit_def cp_def)
  then have split: "split_on (cp CHR ''.'') token = [HEADER_B64, ?b, b64url_encode ?sig]"
    using hdot dot by (simp add: split_on_sep)
  have "dumps_ascii_compact (JObj ?c) \<noteq> []" by (simp add: dumps_ascii_compact_def)
  then have raw: "b64url_decode_loose ?b = Some (ascii_encode (dumps_ascii_compact (JObj ?c)))"
    by (intro b64url_loose_encode) (simp add: ascii_encode_def)
  have "?sig \<noteq> []" using pub(2) [of "ascii_encode ?in"] by force
  then have sg: "b64url_decode_loose (b64url_encode ?sig) = Some ?sig" by (rule b64url_loose_encode)
  have "is_public I \<noteq> []" using pub(1) by force
  then have pk: "check_pk ?c (is_public I) = Inr ()"
    using pub(1) by (simp add: check_pk_def claim_fields b64url_loose_encode length_b64url_encode PUBLIC_KEY_B64URL_CHARS_def)
  have jti: "1 \<le> length (b64url_encode jti) \<and> length (b64url_encode jti) \<le> MAX_JTI_CHARS"
    using draw(2) by (simp add: length_b64url_encode JTI_BYTES_def MAX_JTI_CHARS_def)
  have claims: "check_claims (JObj ?c) (is_public I) (Some (b64url_encode inst)) m skew
      = res_bind (check_lifetime ?c m skew) (\<lambda>_. Inr ?c)" for m
    using role jti pk by (simp add: check_claims_def claim_fields role_known_def is_jstr_def is_jint_def)
  have life: "check_lifetime ?c m skew = (if m < now - skew \<or> m \<ge> now + ttl then Inl (RoutingTokenError ''token_expired'') else Inr ())" for m
    using ttl assms(4,5) by (simp add: check_lifetime_def claim_fields jint_def Let_def)
  have "token \<noteq> []" by (simp add: token lit_def)
  then have v: "verify_routing_token L token (is_public I) (Some (b64url_encode inst)) m skew
      = check_claims (JObj ?c) (is_public I) (Some (b64url_encode inst)) m skew" for m
    using split raw sg pub len claims_read_back [OF role assms(6,7), of I inst jti]
    by (simp add: verify_routing_token_def Suc_le_eq)
  show ?thesis using assms(8-10) ttl by (simp add: v claims life claim_fields)
qed

definition demo_ed25519 :: ed25519 where
  \<comment> \<open>an instance of the parameter for evaluation: every signature is 64 zero bytes\<close>
  "demo_ed25519 = \<lparr>ed_public = \<lambda>k. if length k = 32 then Some k else None,
     ed_sign = \<lambda>_ _. replicate 64 0, ed_verify = \<lambda>_ _ sig. sig = replicate 64 0\<rparr>"

definition demo_issuer :: issuer where
  "demo_issuer = \<lparr>is_key = replicate 32 7, is_public = replicate 32 7\<rparr>"

lemma demo_ed25519_ok: "ed25519_ok demo_ed25519"
  by (auto simp: ed25519_ok_def demo_ed25519_def split: if_splits)

definition demo_token :: "token_error + pystr" where
  "demo_token = mint demo_ed25519 1000 (Some (replicate 16 1)) demo_issuer ROLE_PAIRING_DEVICE (replicate 32 0) 300"

lemma demo_token_minted: "case demo_token of Inr token \<Rightarrow> True | Inl _ \<Rightarrow> False"
  by code_simp

definition demo_text :: pystr where
  "demo_text = (case demo_token of Inr token \<Rightarrow> token | Inl _ \<Rightarrow> [])"

lemma demo_minted:
  "\<exists>token. mint demo_ed25519 1000 (Some (replicate 16 1)) demo_issuer ROLE_PAIRING_DEVICE (replicate 32 0) 300 = Inr token
     \<and> demo_text = token"
  using demo_token_minted unfolding demo_token_def demo_text_def by (auto split: sum.splits)

lemma demo_new_issuer: "new_issuer demo_ed25519 (replicate 32 7) = Inr demo_issuer"
  by (simp add: new_issuer_def demo_ed25519_def demo_issuer_def)

lemma demo_cap: "map_of MAX_TOKEN_LIFETIME_SECONDS ROLE_PAIRING_DEVICE = Some 900"
  by code_simp



lemma res_bind_Inr_D: "res_bind r f = Inr y \<Longrightarrow> \<exists>x. r = Inr x \<and> f x = Inr y"
  by (cases r) auto

lemma check_pk_same:
  "check_pk claims public_key = Inr u \<Longrightarrow> map_of claims (lit ''pk'') = Some v \<Longrightarrow> \<exists>pk. v = JStr pk \<and> b64url_decode_loose pk = Some public_key"
  by (auto simp: check_pk_def split: json.splits if_splits option.splits)

lemma check_lifetime_D:
  "check_lifetime claims moment skew = Inr u \<Longrightarrow>
     \<exists>role cap. jget claims ''role'' = JStr role \<and> map_of MAX_TOKEN_LIFETIME_SECONDS role = Some cap
       \<and> jint (jget claims ''iat'') < jint (jget claims ''exp'') \<and> jint (jget claims ''exp'') \<le> jint (jget claims ''iat'') + cap
       \<and> jint (jget claims ''iat'') - skew \<le> moment \<and> moment < jint (jget claims ''exp'')"
  by (auto simp: check_lifetime_def Let_def split: json.splits if_splits option.splits)

text \<open>
  C10. What an accepted token promises. When the verifier returns claims, the token is the fixed
  header, a claims segment and a signature segment joined by dots, the signature verifies over
  the first two under the key the verifier was given, and the claims are the JSON object the
  claims segment encodes. They are for this audience, carry one of the three roles, name the
  installation the verifier asked for and no other key, last at most what their role may last,
  and the moment is no earlier than the skew before they were issued and earlier than their end.
\<close>

theorem verified_token_is_signed_and_current:
  assumes "verify_routing_token L token public_key installation moment skew = Inr claims"
  shows "\<exists>c s raw sig role cap iat ex.
       token = HEADER_B64 @ cp CHR ''.'' # c @ cp CHR ''.'' # s
     \<and> b64url_decode_loose c = Some raw \<and> b64url_decode_loose s = Some sig \<and> length sig = 64
     \<and> ed_verify L public_key (ascii_encode (HEADER_B64 @ lit ''.'' @ c)) sig
     \<and> json_loads_bytes raw = Some (JObj claims)
     \<and> jget claims ''aud'' = JStr TOKEN_AUDIENCE
     \<and> jget claims ''role'' = JStr role \<and> role \<in> set ROLES
     \<and> (case installation of None \<Rightarrow> True | Some route \<Rightarrow> jget claims ''inst'' = JStr route)
     \<and> (case map_of claims (lit ''pk'') of None \<Rightarrow> True | Some v \<Rightarrow> \<exists>pk. v = JStr pk \<and> b64url_decode_loose pk = Some public_key)
     \<and> jget claims ''iat'' = JInt iat \<and> jget claims ''exp'' = JInt ex
     \<and> map_of MAX_TOKEN_LIFETIME_SECONDS role = Some cap
     \<and> iat < ex \<and> ex \<le> iat + cap \<and> iat - skew \<le> moment \<and> moment < ex"
proof -
  obtain c s raw sig v where split: "split_on (cp CHR ''.'') token = [HEADER_B64, c, s]"
    and dec: "b64url_decode_loose c = Some raw" "b64url_decode_loose s = Some sig" "length sig = 64"
    and sig: "ed_verify L public_key (ascii_encode (HEADER_B64 @ lit ''.'' @ c)) sig"
    and v: "json_loads_bytes raw = Some v" "check_claims v public_key installation moment skew = Inr claims"
    using assms by (auto simp: verify_routing_token_def split: if_splits list.splits option.splits)
  have JObj: "v = JObj claims" and aud: "jget claims ''aud'' = JStr TOKEN_AUDIENCE"
    and known: "role_known (jget claims ''role'') = Inr True"
    and ints: "is_jint (jget claims ''iat'')" "is_jint (jget claims ''exp'')"
    and inst: "case installation of None \<Rightarrow> True | Some route \<Rightarrow> jget claims ''inst'' = JStr route"
    and pk: "check_pk claims public_key = Inr ()" and life: "check_lifetime claims moment skew = Inr ()"
    using v(2) by (auto simp: check_claims_def split: json.splits if_splits option.splits dest!: res_bind_Inr_D)
  obtain iat ex where t: "jget claims ''iat'' = JInt iat" "jget claims ''exp'' = JInt ex"
    using ints by (auto simp: is_jint_def split: json.splits)
  obtain role cap where role: "jget claims ''role'' = JStr role" "map_of MAX_TOKEN_LIFETIME_SECONDS role = Some cap"
    and window: "iat < ex" "ex \<le> iat + cap" "iat - skew \<le> moment" "moment < ex"
    using check_lifetime_D [OF life] t by (auto simp: jint_def)
  have "role \<in> set ROLES" using known role(1) by (simp add: role_known_def)
  moreover have "case map_of claims (lit ''pk'') of None \<Rightarrow> True | Some v \<Rightarrow> \<exists>pk. v = JStr pk \<and> b64url_decode_loose pk = Some public_key"
    using check_pk_same [OF pk] by (auto split: option.split)
  ultimately show ?thesis
    using split_on_join [OF split] dec sig v(1) [unfolded JObj] aud role inst t window by blast
qed

theorem verified_token_is_signed_and_current_witness:
  "\<exists>claims c s sig. verify_routing_token demo_ed25519 demo_text (replicate 32 7) (Some (b64url_encode (replicate 32 0))) 1100 120 = Inr claims
     \<and> demo_text = HEADER_B64 @ cp CHR ''.'' # c @ cp CHR ''.'' # s
     \<and> ed_verify demo_ed25519 (replicate 32 7) (ascii_encode (HEADER_B64 @ lit ''.'' @ c)) sig"
proof -
  obtain token where t: "mint demo_ed25519 1000 (Some (replicate 16 1)) demo_issuer ROLE_PAIRING_DEVICE (replicate 32 0) 300 = Inr token"
    and eq: "demo_text = token" using demo_minted by blast
  have pub: "is_public demo_issuer = replicate 32 7" by (simp add: demo_issuer_def)
  have "\<exists>claims. verify_routing_token demo_ed25519 token (replicate 32 7) (Some (b64url_encode (replicate 32 0))) 1100 120 = Inr claims"
    using minted_token_verifies [OF demo_ed25519_ok demo_new_issuer t demo_cap, of 120 1100, unfolded pub]
    by (auto simp: time_ok_def)
  then obtain claims where v: "verify_routing_token demo_ed25519 demo_text (replicate 32 7) (Some (b64url_encode (replicate 32 0))) 1100 120 = Inr claims"
    using eq by blast
  show ?thesis using verified_token_is_signed_and_current [OF v] v by blast
qed

section \<open>The issuer key and its store\<close>

lemma loose_decoding_is_not_canonical: "b64url_decode_loose (lit ''AA'') = b64url_decode_loose (lit ''AB'')"
  by code_simp

lemma b64_exact_32: "length bs = 32 \<Longrightarrow> b64decode_exact (b64encode bs) 32 = Some bs"
proof -
  assume len: "length bs = 32"
  then have "length (b64encode bs) \<le> MAX_B64_TEXT"
    by (simp add: b64encode_def Let_def pad_def length_sextets MAX_B64_TEXT_def)
  moreover have "bs \<noteq> []" using len by force
  ultimately show "b64decode_exact (b64encode bs) 32 = Some bs" using b64_exact_encode [of bs] len by simp
qed

lemma read_key_record:
  assumes "length (is_key I) = 32" and "length (is_public I) = 32" and "issuer_record I = JObj d"
  shows "read_key d ''private_key'' = Some (is_key I) \<and> read_key d ''public_key'' = Some (is_public I)"
  using assms by (auto simp: issuer_record_def read_key_def lit_def b64_exact_32)

text \<open>
  The issuer is stable. Once the store has returned an issuer, whatever the random source
  and the disk do later, every later load returns the same issuer and leaves the state as it is.
\<close>

theorem issuer_is_stable:
  assumes "ed25519_ok L" and "load_or_create_issuer L draw write_ok state = (Inr I, state')"
  shows "load_or_create_issuer L draw' write_ok' state' = (Inr I, state')"
proof -
  obtain v where v: "state = Some v" using assms(2) by (auto simp: load_or_create_issuer_def split: option.splits)
  show ?thesis
  proof (cases "v = JNull")
    case False
    then show ?thesis using assms(2) v by (auto simp: load_or_create_issuer_def)
  next
    case True
    then obtain key where new: "new_issuer L key = Inr I" and state: "state' = Some (issuer_record I)"
      using assms(2) v by (auto simp: load_or_create_issuer_def split: option.splits if_splits sum.splits)
    note I = new_issuer_Inr [OF new]
    have "length (is_public I) = 32" using assms(1) I by (auto simp: ed25519_ok_def)
    moreover obtain d where d: "issuer_record I = JObj d" by (simp add: issuer_record_def)
    ultimately show ?thesis
      using read_key_record [OF _ _ d] I new by (simp add: state load_or_create_issuer_def load_issuer_def d)
  qed
qed

theorem issuer_is_stable_witness:
  "fst (load_or_create_issuer demo_ed25519 None False (Some (issuer_record demo_issuer))) = Inr demo_issuer"
proof -
  have "load_or_create_issuer demo_ed25519 (Some (replicate 32 7)) True (Some JNull) = (Inr demo_issuer, Some (issuer_record demo_issuer))"
    by (simp add: load_or_create_issuer_def new_issuer_def demo_ed25519_def demo_issuer_def)
  from issuer_is_stable [OF demo_ed25519_ok this, of None False] show ?thesis by simp
qed

end
