(* ===== verification/Push_Preview.thy ===== *)
theory Push_Preview
  imports Json_Text Base64
begin

text \<open>
  Encrypted push previews, \<^verbatim>\<open>push_preview.py\<close>: the text policy for titles and excerpts, the
  plaintext with its size limit, and the associated data of the cipher. ChaCha20-Poly1305 and the
  Unicode table of general categories are parameters. \<open>None\<close> stands for a raised \<open>ValueError\<close>.
\<close>

section \<open>Constants\<close>

definition MAX_PLAINTEXT_BYTES :: nat where "MAX_PLAINTEXT_BYTES = 1280"
definition MAX_TITLE_BYTES :: nat where "MAX_TITLE_BYTES = 160"
definition MAX_BODY_BYTES :: nat where "MAX_BODY_BYTES = 640"
definition MAX_ROUTE_SESSION_BYTES :: nat where "MAX_ROUTE_SESSION_BYTES = 128"
definition MAX_ROUTE_PROFILE_BYTES :: nat where "MAX_ROUTE_PROFILE_BYTES = 64"
definition MAX_TITLE_CHARS :: nat where "MAX_TITLE_CHARS = 120"
definition MAX_BODY_CHARS :: nat where "MAX_BODY_CHARS = 240"
definition PREVIEW_TTL_SECONDS :: int where "PREVIEW_TTL_SECONDS = 120"
definition AAD_DOMAIN :: pystr where "AAD_DOMAIN = lit ''mercury.push-preview.v1''"
definition ALGORITHM :: pystr where "ALGORITHM = lit ''C20P''"
definition INTERRUPT_PREFIX :: pystr where
  "INTERRUPT_PREFIX = lit ''Operation interrupted: waiting for model response (''"

definition ATTENTION_TEXT :: "(pystr \<times> pystr \<times> pystr) list" where
  "ATTENTION_TEXT =
     (let secure = (lit ''Hermes needs secure input'', lit ''Secure input is required to continue'') in
      [(lit ''approval.request'', lit ''Hermes needs approval'', lit ''Authorization is required to continue''),
       (lit ''clarify.request'', lit ''Hermes needs your input'', lit ''Clarification is required to continue''),
       (lit ''secret.request'', secure), (lit ''sudo.request'', secure),
       (lit ''vault.unlock.request'', secure), (lit ''vault.save_login.request'', secure)])"

section \<open>Encoding and encryption\<close>

definition PREVIEW_CAPABILITY :: json where
  "PREVIEW_CAPABILITY = JObj [(lit ''version'', JInt 1), (lit ''register_method'', JStr (lit ''relay.push.preview.register'')),
     (lit ''unregister_method'', JStr (lit ''relay.push.unregister'')), (lit ''aead'', JStr (lit ''CHACHA20-POLY1305'')),
     (lit ''max_plaintext_bytes'', JInt 1280), (lit ''max_title_utf8_bytes'', JInt 160), (lit ''max_body_utf8_bytes'', JInt 640)]"

definition canonical_b64url :: "bytes \<Rightarrow> pystr" where
  "canonical_b64url bs = b64url_encode bs"

definition decode_canonical_b64url :: "json \<Rightarrow> nat \<Rightarrow> bytes option" where
  \<comment> \<open>a character outside the alphabet, which the library's decoder skips, cannot survive the
      comparison with the canonical spelling\<close>
  "decode_canonical_b64url v expected =
     (case v of
        JStr t \<Rightarrow>
          (case decode_with b64url_val t of
             None \<Rightarrow> None
           | Some decoded \<Rightarrow> if length decoded \<noteq> expected \<or> canonical_b64url decoded \<noteq> t then None else Some decoded)
      | _ \<Rightarrow> None)"

definition length_prefixed :: "pystr \<Rightarrow> bytes option" where
  "length_prefixed v =
     (case utf8_encode v of
        None \<Rightarrow> None
      | Some encoded \<Rightarrow> if length encoded < 2 ^ 32 then Some (be_enc 4 (length encoded) @ encoded) else None)"

definition aad_for_preview :: "pystr \<Rightarrow> pystr \<Rightarrow> pystr \<Rightarrow> pystr \<Rightarrow> bytes option" where
  "aad_for_preview environment wake_handle event_id key_id =
     map_option concat (all_some (map length_prefixed
       [AAD_DOMAIN, lit ''1'', ALGORITHM, environment, wake_handle, event_id, key_id]))"

type_synonym aead = "bytes \<Rightarrow> bytes \<Rightarrow> bytes \<Rightarrow> bytes \<Rightarrow> bytes"
  \<comment> \<open>key, nonce, plaintext, associated data\<close>

definition encrypt_preview ::
  "aead \<Rightarrow> bytes \<Rightarrow> bytes \<Rightarrow> bytes \<Rightarrow> pystr \<Rightarrow> pystr \<Rightarrow> pystr \<Rightarrow> pystr \<Rightarrow> pystr option" where
  "encrypt_preview chacha key nonce plaintext environment wake_handle event_id key_id =
     (if length key \<noteq> 32 \<or> length nonce \<noteq> 12 \<or> length plaintext > MAX_PLAINTEXT_BYTES then None
      else map_option (\<lambda>aad. canonical_b64url (chacha key nonce plaintext aad))
             (aad_for_preview environment wake_handle event_id key_id))"

section \<open>Text policy\<close>

text \<open>\<open>other c\<close>: the general category of \<open>c\<close> starts with C (controls, surrogates, unassigned).\<close>

definition other_ok :: "(nat \<Rightarrow> bool) \<Rightarrow> bool" where
  "other_ok other \<longleftrightarrow> (\<forall>c. c < 32 \<or> is_surrogate c \<or> c \<ge> 0x110000 \<longrightarrow> other c)"

fun newlines :: "pystr \<Rightarrow> pystr" where
  \<comment> \<open>\<open>value.replace("\r\n", "\n").replace("\r", "\n")\<close>\<close>
  "newlines (c # d # s) =
     (if c = 13 \<and> d = 10 then 10 # newlines s else (if c = 13 then 10 else c) # newlines (d # s))"
| "newlines [c] = [if c = 13 then 10 else c]"
| "newlines [] = []"

definition without_controls :: "(nat \<Rightarrow> bool) \<Rightarrow> bool \<Rightarrow> pystr \<Rightarrow> pystr" where
  "without_controls other keep_newlines v =
     filter (\<lambda>c. keep_newlines \<and> c = 10 \<or> \<not> other c) (newlines v)"

function utf8_good :: "nat list \<Rightarrow> nat" where
  \<comment> \<open>\<open>error.start\<close>: how many bytes a decoder accepts before it stops\<close>
  "utf8_good bs =
     (if bs = [] then 0
      else case utf8_decode_one bs of
             None \<Rightarrow> 0
           | Some (c, rest) \<Rightarrow> (length bs - length rest) + utf8_good rest)"
  by pat_completeness auto
termination
  by (relation "measure length") (auto dest: utf8_decode_one_shrinks)

declare utf8_good.simps [simp del]

lemma utf8_good_short: "utf8_decode_nats bs = None \<Longrightarrow> utf8_good bs < length bs"
proof (induction bs rule: utf8_good.induct)
  case (1 bs)
  show ?case
  proof (cases "bs = []")
    case True
    then show ?thesis using "1.prems" by (simp add: utf8_decode_nats.simps)
  next
    case False
    show ?thesis
    proof (cases "utf8_decode_one bs")
      case None
      then show ?thesis using False by (simp add: utf8_good.simps)
    next
      case (Some a)
      then obtain c rest where d: "utf8_decode_one bs = Some (c, rest)" by (cases a) auto
      then have "utf8_decode_nats rest = None"
        using "1.prems" False by (subst (asm) utf8_decode_nats.simps) simp
      from "1.IH" [OF False d refl this] utf8_decode_one_shrinks [OF d] False d
      show ?thesis by (subst utf8_good.simps) simp
    qed
  qed
qed

function truncate_loop :: "nat list \<Rightarrow> pystr" where
  "truncate_loop encoded =
     (case utf8_decode_nats encoded of
        Some s \<Rightarrow> s
      | None \<Rightarrow> truncate_loop (take (utf8_good encoded) encoded))"
  by pat_completeness auto
termination
  by (relation "measure length") (auto dest: utf8_good_short)

declare truncate_loop.simps [simp del]

definition truncate_utf8 :: "pystr \<Rightarrow> nat \<Rightarrow> pystr option" where
  "truncate_utf8 v byte_limit =
     (case utf8_encode v of
        None \<Rightarrow> None
      | Some bs \<Rightarrow> if length bs \<le> byte_limit then Some v else Some (truncate_loop (map unat (take byte_limit bs))))"

fun remove_pair :: "nat \<Rightarrow> pystr \<Rightarrow> pystr" where
  \<comment> \<open>\<open>s.replace("cc", "")\<close>\<close>
  "remove_pair c (a # b # s) = (if a = c \<and> b = c then remove_pair c s else a # remove_pair c (b # s))"
| "remove_pair c s = s"

definition remove_marks :: "pystr \<Rightarrow> pystr" where
  \<comment> \<open>\<open>.replace("**", "").replace("__", "").replace("`", "").strip()\<close>\<close>
  "remove_marks line = py_strip (filter (\<lambda>c. c \<noteq> 96) (remove_pair 95 (remove_pair 42 line)))"

definition heading_mark :: "pystr \<Rightarrow> pystr option" where
  \<comment> \<open>what follows a match of \<open>#{1,6}\s\<close> at the start, from that space on\<close>
  "heading_mark line =
     (let marks = takeWhile (\<lambda>c. c = 35) line; r = dropWhile (\<lambda>c. c = 35) line in
      if 1 \<le> length marks \<and> length marks \<le> 6 \<and> r \<noteq> [] \<and> py_isspace (hd r) then Some r else None)"

definition is_heading :: "pystr \<Rightarrow> bool" where
  \<comment> \<open>\<open>_HEADING.fullmatch(line)\<close>, for a line without newline\<close>
  "is_heading line = (case heading_mark line of None \<Rightarrow> False | Some r \<Rightarrow> length r \<ge> 2)"

definition clean_line :: "pystr \<Rightarrow> pystr option" where
  "clean_line raw = (let line = py_strip raw in if is_heading line then None else Some (remove_marks line))"

definition starts_with :: "pystr \<Rightarrow> pystr \<Rightarrow> bool" where
  "starts_with p s \<longleftrightarrow> take (length p) s = p"

definition excerpt_lines :: "pystr \<Rightarrow> pystr list" where
  \<comment> \<open>the first three lines that are neither headings nor empty\<close>
  "excerpt_lines cleaned =
     take 3 (filter (\<lambda>l. l \<noteq> []) (concat (map (\<lambda>raw. case clean_line raw of None \<Rightarrow> [] | Some l \<Rightarrow> [l]) (split_on 10 cleaned))))"

definition completion_excerpt :: "(nat \<Rightarrow> bool) \<Rightarrow> pystr option \<Rightarrow> pystr option option" where
  \<comment> \<open>the outer \<open>None\<close>: a \<open>UnicodeEncodeError\<close>\<close>
  "completion_excerpt other v =
     (case v of
        None \<Rightarrow> Some None
      | Some s \<Rightarrow>
          let cleaned = py_strip (without_controls other True s) in
          if cleaned = [] then Some None
          else if starts_with INTERRUPT_PREFIX cleaned then Some (Some (lit ''Response completed''))
          else let lines = excerpt_lines cleaned in
               if lines = [] then Some (Some (lit ''Response completed''))
               else map_option (\<lambda>t. let r = py_rstrip t in if r = [] then None else Some r)
                      (truncate_utf8 (take MAX_BODY_CHARS (sep_join [10] lines)) MAX_BODY_BYTES))"

definition title_line :: "pystr \<Rightarrow> pystr" where
  \<comment> \<open>one turn of the loop: \<open>re.sub\<close> at the start of the line, then the marks\<close>
  "title_line raw =
     (let line = py_strip raw; line1 = (case heading_mark line of None \<Rightarrow> line | Some r \<Rightarrow> py_lstrip r)
      in remove_marks line1)"

definition first_line :: "pystr list \<Rightarrow> pystr" where
  "first_line raws = (case filter (\<lambda>l. l \<noteq> []) (map title_line raws) of [] \<Rightarrow> [] | l # _ \<Rightarrow> l)"

definition normalize_title :: "(nat \<Rightarrow> bool) \<Rightarrow> pystr option \<Rightarrow> pystr option option" where
  "normalize_title other v =
     (case v of
        None \<Rightarrow> Some None
      | Some s \<Rightarrow>
          let first = first_line (split_on 10 (without_controls other True s)) in
          map_option (\<lambda>t. let r = py_strip t in if r = [] then None else Some r)
            (truncate_utf8 (take MAX_TITLE_CHARS first) MAX_TITLE_BYTES))"

section \<open>The plaintext\<close>

definition text_within :: "pystr \<Rightarrow> nat \<Rightarrow> bool option" where
  \<comment> \<open>\<open>1 <= len(s.encode("utf-8")) <= limit\<close>\<close>
  "text_within s limit = map_option (\<lambda>n. 1 \<le> n \<and> n \<le> limit) (utf8_size s)"

definition valid_route :: "(nat \<Rightarrow> bool) \<Rightarrow> json \<Rightarrow> (pystr \<times> pystr) option option" where
  "valid_route other v =
     (case v of
        JObj d \<Rightarrow>
          if set (map fst d) \<noteq> {lit ''durable_session_id'', lit ''profile''} then Some None
          else (case jget d ''durable_session_id'' of
                  JStr sid \<Rightarrow>
                    (case text_within sid MAX_ROUTE_SESSION_BYTES of
                       None \<Rightarrow> None
                     | Some False \<Rightarrow> Some None
                     | Some True \<Rightarrow>
                         (case jget d ''profile'' of
                            JStr profile \<Rightarrow>
                              (case text_within profile MAX_ROUTE_PROFILE_BYTES of
                                 None \<Rightarrow> None
                               | Some False \<Rightarrow> Some None
                               | Some True \<Rightarrow> Some (if list_ex other (sid @ profile) then None else Some (sid, profile)))
                          | _ \<Rightarrow> Some None))
                | _ \<Rightarrow> Some None)
      | _ \<Rightarrow> Some None)"

definition opt_field :: "string \<Rightarrow> json option \<Rightarrow> dict" where
  "opt_field k v = (case v of None \<Rightarrow> [] | Some j \<Rightarrow> [(lit k, j)])"

definition route_json :: "pystr \<times> pystr \<Rightarrow> json" where
  "route_json r = JObj [(lit ''sid'', JStr (fst r)), (lit ''profile'', JStr (snd r))]"

definition preview_json :: "pystr \<Rightarrow> pystr option \<Rightarrow> pystr option \<Rightarrow> (pystr \<times> pystr) option \<Rightarrow> int \<Rightarrow> json" where
  "preview_json kind title body route now =
     JObj ([(lit ''v'', JInt 1), (lit ''kind'', JStr kind)]
       @ opt_field ''title'' (map_option JStr title) @ opt_field ''body'' (map_option JStr body)
       @ opt_field ''route'' (map_option route_json route)
       @ [(lit ''iat'', JInt now), (lit ''exp'', JInt (now + PREVIEW_TTL_SECONDS))])"

definition serialize :: "json \<Rightarrow> bytes option" where
  \<comment> \<open>\<open>json.dumps(value, ensure_ascii=False, separators=(",", ":")).encode("utf-8")\<close>\<close>
  "serialize v = utf8_encode (dumps v)"

definition drop_last :: "pystr \<Rightarrow> pystr option" where
  \<comment> \<open>\<open>value[field] = value[field][:-1]\<close>, deleted when empty\<close>
  "drop_last s = (if length s \<le> 1 then None else Some (butlast s))"

function shrink :: "(pystr option \<Rightarrow> bytes option) \<Rightarrow> pystr option \<Rightarrow> pystr option option" where
  \<comment> \<open>the \<open>while\<close> loop for one field; \<open>ser\<close> serializes the value with that field\<close>
  "shrink ser t =
     (case ser t of
        None \<Rightarrow> None
      | Some result \<Rightarrow>
          (case t of
             None \<Rightarrow> Some t
           | Some s \<Rightarrow> if length result > MAX_PLAINTEXT_BYTES \<and> s \<noteq> [] then shrink ser (drop_last s) else Some t))"
  by pat_completeness auto
termination
  by (relation "measure (\<lambda>(ser, t). case t of None \<Rightarrow> 0 | Some s \<Rightarrow> length s)")
    (auto simp: drop_last_def)

declare shrink.simps [simp del]

definition fit_preview ::
  "pystr \<Rightarrow> pystr option \<Rightarrow> pystr option \<Rightarrow> (pystr \<times> pystr) option \<Rightarrow> int \<Rightarrow> bytes option" where
  "fit_preview kind title body route now =
     (case shrink (\<lambda>b. serialize (preview_json kind title b route now)) body of
        None \<Rightarrow> None
      | Some body1 \<Rightarrow>
          (case shrink (\<lambda>t. serialize (preview_json kind t body1 route now)) title of
             None \<Rightarrow> None
           | Some title1 \<Rightarrow>
               (case serialize (preview_json kind title1 body1 route now) of
                  None \<Rightarrow> None
                | Some result \<Rightarrow>
                    if length result \<le> MAX_PLAINTEXT_BYTES then Some result
                    else (case serialize (preview_json kind title1 body1 None now) of
                            None \<Rightarrow> None
                          | Some result1 \<Rightarrow> if length result1 > MAX_PLAINTEXT_BYTES then None else Some result1))))"

definition build_preview_plaintext ::
  "(nat \<Rightarrow> bool) \<Rightarrow> pystr \<Rightarrow> pystr \<Rightarrow> pystr option \<Rightarrow> pystr option \<Rightarrow> bool \<Rightarrow> bool \<Rightarrow> json \<Rightarrow> int \<Rightarrow> bytes option" where
  "build_preview_plaintext other kind attention_kind response_text title include_title include_response_excerpt route now =
     (if kind \<notin> {lit ''completion'', lit ''attention''} \<or> now < 0 then None
      else
        (case (if kind = lit ''attention''
               then map_option (\<lambda>(t, b). (Some t, Some b)) (map_of ATTENTION_TEXT attention_kind)
               else (case (if include_title then normalize_title other title else Some None) of
                       None \<Rightarrow> None
                     | Some t \<Rightarrow> map_option (Pair t) (if include_response_excerpt then completion_excerpt other response_text else Some None))) of
           None \<Rightarrow> None
         | Some (t, b) \<Rightarrow>
             (case valid_route other route of
                None \<Rightarrow> None
              | Some r \<Rightarrow> fit_preview kind t b r now)))"

end
