(* ===== verification/Push_Preview_Props.thy ===== *)
theory Push_Preview_Props
  imports Push_Preview
begin

text \<open>
  Properties of the preview codec: truncation keeps the longest prefix that fits, the associated
  data determines every field it is built from, and a plaintext always fits, with its route.
\<close>

section \<open>Truncation\<close>

fun fitting :: "nat \<Rightarrow> pystr \<Rightarrow> pystr" where
  \<comment> \<open>the longest prefix whose UTF-8 has at most \<open>n\<close> bytes\<close>
  "fitting n [] = []"
| "fitting n (c # s) = (if length (utf8_bytes c) \<le> n then c # fitting (n - length (utf8_bytes c)) s else [])"

lemma utf8_lead_bytes: "encodable c \<Longrightarrow> \<exists>v. utf8_lead (hd (utf8_bytes c)) = Some (length (utf8_bytes c), v)"
  by (auto simp: utf8_bytes_def utf8_lead_def encodable_def)

lemma utf8_cut_undecodable:
  assumes "encodable c" and "m < length (utf8_bytes c)"
  shows "utf8_decode_one (take m (utf8_bytes c)) = None"
proof (rule ccontr)
  assume "utf8_decode_one (take m (utf8_bytes c)) \<noteq> None"
  then obtain c' rest where d: "utf8_decode_one (take m (utf8_bytes c)) = Some (c', rest)" by auto
  from utf8_decode_one_Some [OF d] have c': "encodable c'" "take m (utf8_bytes c) = utf8_bytes c' @ rest" by auto
  then have "m \<noteq> 0" by (cases m) auto
  then have "hd (utf8_bytes c') = hd (utf8_bytes c)"
    using c'(2) by (metis hd_append2 hd_take neq0_conv utf8_bytes_nonempty)
  then have "length (utf8_bytes c') = length (utf8_bytes c)"
    using utf8_lead_bytes [OF c'(1)] utf8_lead_bytes [OF assms(1)] by auto
  moreover have "length (take m (utf8_bytes c)) = length (utf8_bytes c' @ rest)" using c'(2) by simp
  ultimately show False using assms(2) by simp
qed

lemma utf8_good_take:
  "list_all encodable s \<Longrightarrow> utf8_good (take n (concat (map utf8_bytes s))) = length (concat (map utf8_bytes (fitting n s)))"
proof (induction s arbitrary: n)
  case Nil
  then show ?case by (simp add: utf8_good.simps)
next
  case (Cons c s)
  show ?case
  proof (cases "length (utf8_bytes c) \<le> n")
    case True
    let ?r = "take (n - length (utf8_bytes c)) (concat (map utf8_bytes s))"
    have "utf8_decode_one (utf8_bytes c @ ?r) = Some (c, ?r)" using Cons.prems by (intro decode_one_utf8_bytes) simp
    then have "utf8_good (utf8_bytes c @ ?r) = length (utf8_bytes c) + utf8_good ?r"
      by (subst utf8_good.simps) simp
    then show ?thesis using True Cons by simp
  next
    case False
    then have "utf8_decode_one (take n (utf8_bytes c)) = None" using Cons.prems by (intro utf8_cut_undecodable) simp_all
    then have "utf8_good (take n (utf8_bytes c)) = 0" by (subst utf8_good.simps) simp
    then show ?thesis using False by simp
  qed
qed

lemma take_fitting: "take (length (concat (map utf8_bytes (fitting n s)))) (concat (map utf8_bytes s)) = concat (map utf8_bytes (fitting n s))"
  by (induction n s rule: fitting.induct) auto

lemma fitting_length: "length (concat (map utf8_bytes (fitting n s))) \<le> n"
  by (induction n s rule: fitting.induct) auto

lemma fitting_encodable: "list_all encodable s \<Longrightarrow> list_all encodable (fitting n s)"
  by (induction n s rule: fitting.induct) auto

lemma fitting_all: "length (concat (map utf8_bytes s)) \<le> n \<Longrightarrow> fitting n s = s"
  by (induction n s rule: fitting.induct) auto

lemma fitting_take: "\<exists>k. fitting n s = take k s \<and> (k < length s \<longrightarrow> length (concat (map utf8_bytes (take (Suc k) s))) > n)"
proof (induction n s rule: fitting.induct)
  case (2 n c s)
  show ?case
  proof (cases "length (utf8_bytes c) \<le> n")
    case True
    then obtain k where "fitting (n - length (utf8_bytes c)) s = take k s"
      "k < length s \<longrightarrow> length (concat (map utf8_bytes (take (Suc k) s))) > n - length (utf8_bytes c)" using 2 by blast
    then show ?thesis using True by (intro exI [of _ "Suc k"]) auto
  qed (intro exI [of _ 0], simp)
qed simp

lemma truncate_loop_fitting:
  assumes "list_all encodable s"
  shows "truncate_loop (take n (concat (map utf8_bytes s))) = fitting n s"
proof -
  let ?e = "take n (concat (map utf8_bytes s))"
  let ?f = "concat (map utf8_bytes (fitting n s))"
  have f: "utf8_decode_nats ?f = Some (fitting n s)" by (rule decode_nats_concat [OF fitting_encodable [OF assms]])
  have cut: "take (utf8_good ?e) ?e = ?f"
    using utf8_good_take [OF assms, of n] take_fitting [of n s] fitting_length [of n s] by (simp add: min_def)
  show ?thesis
  proof (cases "utf8_decode_nats ?e")
    case None
    have "truncate_loop ?f = fitting n s" by (subst truncate_loop.simps) (simp add: f)
    then show ?thesis by (subst truncate_loop.simps) (simp add: None cut del: take_take)
  next
    case (Some t)
    then have "list_all encodable t" and e: "?e = concat (map utf8_bytes t)" using decode_nats_Some by blast+
    then have "utf8_good ?e = length ?e"
      using utf8_good_take [of t "length ?e"] fitting_all [of t "length ?e"] by simp
    then have "?e = ?f" using cut by (metis order_refl take_all)
    then show ?thesis using Some f by (subst truncate_loop.simps) simp
  qed
qed

lemma length_utf8_encode: "utf8_encode s = Some bs \<Longrightarrow> length bs = length (concat (map utf8_bytes s))"
  using utf8_encode_nats(2) [of s bs] by (metis length_map)

text \<open>
  C34. Truncation to a number of UTF-8 bytes loses no more than it must. For every encodable text
  the loop that cuts the encoding where the decoder objects ends, and what it returns is the
  prefix of the text that fits and cannot be extended by the next character. Only a text that
  cannot be encoded at all makes it raise.
\<close>

theorem truncation_is_longest_prefix:
  "case truncate_utf8 v limit of
     None \<Rightarrow> utf8_encode v = None
   | Some r \<Rightarrow> (\<exists>k n. r = take k v \<and> utf8_size r = Some n \<and> n \<le> limit
       \<and> (k < length v \<longrightarrow> (\<exists>m. utf8_size (take (Suc k) v) = Some m \<and> limit < m)))"
proof (cases "utf8_encode v")
  case None
  then show ?thesis by (simp add: truncate_utf8_def)
next
  case (Some bs)
  then have enc: "list_all encodable v" and bs: "map unat bs = concat (map utf8_bytes v)" by (rule utf8_encode_nats)+
  have size: "utf8_size t = Some (length (concat (map utf8_bytes t)))" if "list_all encodable t" for t
    using that by (auto simp: utf8_size_def utf8_encode_def length_concat o_def)
  have "truncate_utf8 v limit = Some (fitting limit v)"
  proof (cases "length bs \<le> limit")
    case True
    then show ?thesis using Some fitting_all [of v limit] length_utf8_encode [OF Some] by (simp add: truncate_utf8_def)
  next
    case False
    then show ?thesis using Some truncate_loop_fitting [OF enc, of limit] bs by (simp add: truncate_utf8_def take_map [symmetric])
  qed
  moreover obtain k where k: "fitting limit v = take k v"
    "k < length v \<longrightarrow> length (concat (map utf8_bytes (take (Suc k) v))) > limit" using fitting_take by blast
  moreover have "list_all encodable (take m v)" for m using enc by (meson list_all_iff in_set_takeD)
  ultimately show ?thesis
    using size [of "take k v"] size [of "take (Suc k) v"] fitting_length [of limit v] by auto
qed

theorem truncation_is_longest_prefix_witness:
  "truncate_utf8 [8364, 65, 8364] 5 = Some [8364, 65]
     \<and> (\<exists>k n. [8364, 65] = take k [8364, 65, 8364::nat] \<and> utf8_size [8364, 65] = Some n \<and> n \<le> 5)"
proof -
  have t: "truncate_utf8 [8364, 65, 8364] 5 = Some [8364, 65]" by code_simp
  then show ?thesis using truncation_is_longest_prefix [of "[8364, 65, 8364]" 5] by (simp only: option.case simp_thms) blast
qed

section \<open>Associated data\<close>

lemma length_prefixed_inject:
  assumes "length_prefixed v = Some p" and "length_prefixed w = Some q" and "p @ r = q @ t"
  shows "v = w \<and> r = t"
proof -
  obtain a b where a: "utf8_encode v = Some a" "length a < 2 ^ 32" "p = be_enc 4 (length a) @ a"
    and b: "utf8_encode w = Some b" "length b < 2 ^ 32" "q = be_enc 4 (length b) @ b"
    using assms(1,2) by (auto simp: length_prefixed_def split: option.splits if_splits)
  have "be_enc 4 (length a) @ (a @ r) = be_enc 4 (length b) @ (b @ t)"
    using assms(3) by (simp only: a(3) b(3) append_assoc)
  then have "be_enc 4 (length a) = be_enc 4 (length b) \<and> a @ r = b @ t"
    by (subst (asm) append_eq_append_conv) simp_all
  then have eq: "be_enc 4 (length a) = be_enc 4 (length b)" "a @ r = b @ t" by blast+
  have "length a = length b"
    using be_dec_be_enc [of "length a" 4] be_dec_be_enc [of "length b" 4] a(2) b(2)
    by (simp only: eq(1)) simp
  then have "a = b" "r = t" using eq(2) by auto
  then show ?thesis using utf8_encode_inject [OF a(1)] b(1) by simp
qed

lemma all_some_iff: "all_some xs = Some ys \<longleftrightarrow> xs = map Some ys"
  by (induction xs arbitrary: ys rule: all_some.induct) auto

text \<open>
  C35. The associated data binds a ciphertext to its place. Whenever it can be built it
  determines the environment, the wake handle, the event and the key it was built from.
\<close>

theorem aad_binds_fields:
  assumes "aad_for_preview environment wake_handle event_id key_id = Some aad"
    and "aad_for_preview environment' wake_handle' event_id' key_id' = Some aad"
  shows "environment = environment' \<and> wake_handle = wake_handle' \<and> event_id = event_id' \<and> key_id = key_id'"
proof -
  have parts: "\<exists>d o1 a p q r s. length_prefixed AAD_DOMAIN = Some d \<and> length_prefixed (lit ''1'') = Some o1
      \<and> length_prefixed ALGORITHM = Some a \<and> length_prefixed e = Some p \<and> length_prefixed w = Some q
      \<and> length_prefixed v = Some r \<and> length_prefixed k = Some s \<and> aad = d @ o1 @ a @ p @ q @ r @ s"
    if "aad_for_preview e w v k = Some aad" for e w v k
    using that by (auto simp: aad_for_preview_def all_some_iff simp del: all_some.simps)
  obtain d o1 a where const: "length_prefixed AAD_DOMAIN = Some d" "length_prefixed (lit ''1'') = Some o1" "length_prefixed ALGORITHM = Some a"
    using parts [OF assms(1)] by blast
  obtain p q r s where l: "length_prefixed environment = Some p" "length_prefixed wake_handle = Some q"
    "length_prefixed event_id = Some r" "length_prefixed key_id = Some s" "aad = d @ o1 @ a @ p @ q @ r @ s"
    using parts [OF assms(1)] const by auto
  obtain p' q' r' s' where m: "length_prefixed environment' = Some p'" "length_prefixed wake_handle' = Some q'"
    "length_prefixed event_id' = Some r'" "length_prefixed key_id' = Some s'" "aad = d @ o1 @ a @ p' @ q' @ r' @ s'"
    using parts [OF assms(2)] const by auto
  have "p @ q @ r @ s = p' @ q' @ r' @ s'" using l(5) m(5) by simp
  from length_prefixed_inject [OF l(1) m(1) this] have 1: "environment = environment'" "q @ r @ s = q' @ r' @ s'" by simp_all
  from length_prefixed_inject [OF l(2) m(2) this(2)] have 2: "wake_handle = wake_handle'" "r @ s = r' @ s'" by simp_all
  from length_prefixed_inject [OF l(3) m(3) this(2)] have 3: "event_id = event_id'" "s @ [] = s' @ []" by simp_all
  from length_prefixed_inject [OF l(4) m(4) this(2)] show ?thesis using 1 2 3 by simp
qed

theorem aad_binds_fields_witness:
  "\<exists>aad. aad_for_preview (lit ''sandbox'') (lit ''h'') (lit ''e'') (lit ''k'') = Some aad
     \<and> aad_for_preview (lit ''sandbox'') (lit ''he'') [] (lit ''k'') \<noteq> Some aad"
proof -
  have "aad_for_preview (lit ''sandbox'') (lit ''h'') (lit ''e'') (lit ''k'') \<noteq> None" by code_simp
  then obtain aad where a: "aad_for_preview (lit ''sandbox'') (lit ''h'') (lit ''e'') (lit ''k'') = Some aad" by blast
  show ?thesis using a aad_binds_fields [OF a, of "lit ''sandbox''" "lit ''he''" "[]" "lit ''k''"] by (auto simp: lit_def)
qed

section \<open>The plaintext\<close>

abbreviation wsize :: "pystr \<Rightarrow> nat" where
  "wsize s \<equiv> length (concat (map utf8_bytes s))"

definition optional_part :: "pystr option \<Rightarrow> pystr option \<Rightarrow> bool" where
  \<comment> \<open>a field that was shortened from the end, or left out\<close>
  "optional_part t full \<longleftrightarrow> t = None \<or> (\<exists>n s. full = Some s \<and> t = Some (take n s))"

definition clean_text :: "pystr option \<Rightarrow> bool" where
  "clean_text t \<longleftrightarrow> (case t of None \<Rightarrow> True | Some s \<Rightarrow> list_all encodable s)"

lemma optional_part_refl [simp]: "optional_part t t"
  by (cases t) (auto simp: optional_part_def intro: exI [where x = "length (the t)"])

lemma optional_part_drop: "optional_part t (drop_last s) \<Longrightarrow> optional_part t (Some s)"
  by (auto simp: optional_part_def drop_last_def butlast_conv_take min_def split: if_splits)

lemma shrink_ends:
  assumes "\<And>t'. optional_part t' t \<Longrightarrow> ser t' \<noteq> None"
  shows "\<exists>t' result. shrink ser t = Some t' \<and> optional_part t' t \<and> ser t' = Some result
     \<and> (length result \<le> MAX_PLAINTEXT_BYTES \<or> t' = None \<or> t' = Some [])"
  using assms
proof (induction ser t rule: shrink.induct)
  case (1 ser t)
  obtain result where r: "ser t = Some result" using "1.prems" [of t] by auto
  show ?case
  proof (cases t)
    case None
    then show ?thesis using r by (subst shrink.simps) (simp add: optional_part_def)
  next
    case (Some s)
    show ?thesis
    proof (cases "length result > MAX_PLAINTEXT_BYTES \<and> s \<noteq> []")
      case True
      then have eq: "shrink ser t = shrink ser (drop_last s)"
        using r Some by (subst shrink.simps) simp
      have "\<And>t'. optional_part t' (drop_last s) \<Longrightarrow> ser t' \<noteq> None"
        using "1.prems" Some optional_part_drop by blast
      from "1.IH" [OF r Some True this] show ?thesis
        unfolding eq using optional_part_drop Some by blast
    next
      case False
      then show ?thesis using r Some by (subst shrink.simps) auto
    qed
  qed
qed

lemma escape_encodable: "encodable c \<Longrightarrow> list_all encodable (escape_out c)"
  by (auto simp: escape_out_def hex_digit_def)

lemma dumps_str_encodable: "list_all encodable s \<Longrightarrow> list_all encodable (dumps_str s)"
  using escape_encodable by (auto simp: dumps_str_def list_all_iff)

lemma ascii_list: "\<forall>c \<in> set s. c < 128 \<Longrightarrow> list_all encodable s" "\<forall>c \<in> set s. c < 128 \<Longrightarrow> wsize s = length s"
  by (induction s) (auto simp: utf8_bytes_def)

lemma dumps_int_ascii: "\<forall>c \<in> set (dumps_int i). c < 128"
  using nat_digits_ascii [of "nat i"] nat_digits_ascii [of "nat (- i)"] by (auto simp: dumps_int_def)

lemma wsize_dumps_str: "\<forall>c \<in> set s. 32 \<le> c \<Longrightarrow> wsize (dumps_str s) \<le> 2 + 2 * wsize s"
proof -
  assume a: "\<forall>c \<in> set s. 32 \<le> c"
  have "wsize (escape_out c) \<le> 2 * length (utf8_bytes c)" if "32 \<le> c" for c
    using that by (auto simp: escape_out_def utf8_bytes_def)
  then have "wsize (concat (map escape_out s)) \<le> 2 * wsize s"
    using a by (induction s) (fastforce simp: Suc_le_eq)+
  then show ?thesis by (simp add: dumps_str_def utf8_bytes_def)
qed

lemma encodable_comma_join: "\<forall>x \<in> set xs. list_all encodable x \<Longrightarrow> list_all encodable (comma_join xs)"
  by (induction xs rule: comma_join.induct) auto

lemma dumps_encodable: "plain v \<Longrightarrow> clean_json (list_all encodable) v \<Longrightarrow> list_all encodable (dumps v)"
proof (induction v)
  case (JArr vs)
  then show ?case by (auto simp: plain_elem clean_elem simp del: plain.simps clean_json.simps intro!: encodable_comma_join)
next
  case (JObj kvs)
  have "list_all encodable (dumps_str k @ 58 # dumps w)" if "(k, w) \<in> set kvs" for k w
    using JObj that dumps_str_encodable [of k] by (fastforce simp: plain_member clean_member simp del: plain.simps clean_json.simps)
  then show ?case by (auto intro!: encodable_comma_join)
qed (auto simp: lit_def dumps_str_encodable ascii_list dumps_int_ascii)

definition valid_preview_route :: "(pystr \<times> pystr) option \<Rightarrow> bool" where
  "valid_preview_route r \<longleftrightarrow> (case r of None \<Rightarrow> True
     | Some (sid, profile) \<Rightarrow> list_all encodable sid \<and> list_all encodable profile \<and> (\<forall>c \<in> set (sid @ profile). 32 \<le> c)
         \<and> wsize sid \<le> 128 \<and> wsize profile \<le> 64)"

lemma text_within_encodable: "text_within s n = Some True \<Longrightarrow> list_all encodable s \<and> wsize s \<le> n"
  using length_utf8_encode [of s] utf8_encode_nats(1) [of s] by (auto simp: text_within_def utf8_size_def)

lemma valid_route_ok: "other_ok other \<Longrightarrow> valid_route other v = Some r \<Longrightarrow> valid_preview_route r"
proof -
  assume o: "other_ok other" and v: "valid_route other v = Some r"
  show ?thesis
  proof (cases r)
    case (Some sp)
    then obtain sid profile where r: "r = Some (sid, profile)" by (cases sp) auto
    have "text_within sid MAX_ROUTE_SESSION_BYTES = Some True" "text_within profile MAX_ROUTE_PROFILE_BYTES = Some True"
      "\<not> list_ex other (sid @ profile)"
      using v r by (auto simp: valid_route_def split: json.splits if_splits option.splits bool.splits)
    moreover have "\<forall>c \<in> set (sid @ profile). 32 \<le> c"
      using o calculation(3) by (force simp: other_ok_def list_ex_iff not_less [symmetric])
    ultimately show ?thesis
      using text_within_encodable [of sid] text_within_encodable [of profile]
      by (simp add: r valid_preview_route_def MAX_ROUTE_SESSION_BYTES_def MAX_ROUTE_PROFILE_BYTES_def)
  qed (simp add: valid_preview_route_def)
qed

definition now_ok :: "int \<Rightarrow> bool" where
  \<comment> \<open>seconds since 1970, up to the year 33658\<close>
  "now_ok now \<longleftrightarrow> 0 \<le> now \<and> now < 10 ^ 12"

lemma now_digits: "0 \<le> t \<Longrightarrow> t < 10 ^ 13 \<Longrightarrow> length (nat_digits (nat \<bar>t\<bar>)) \<le> 13 \<and> wsize (dumps_int t) \<le> 13"
proof -
  assume "0 \<le> t" "t < 10 ^ 13"
  then have "nat \<bar>t\<bar> < 10 ^ Suc 12" by (simp add: nat_less_iff)
  moreover have "dumps_int t = nat_digits (nat \<bar>t\<bar>)" using \<open>0 \<le> t\<close> by (simp add: dumps_int_def)
  ultimately show ?thesis using length_nat_digits [of "nat \<bar>t\<bar>" 12] ascii_list(2) [OF dumps_int_ascii, of t] by simp
qed

lemma preview_json_ok:
  assumes "now_ok now" and "valid_preview_route r" and "clean_text title" and "clean_text body" and "list_all encodable kind"
  shows "plain (preview_json kind title body r now)" and "clean_json (list_all encodable) (preview_json kind title body r now)"
    and "jdepth (preview_json kind title body r now) \<le> 2"
proof -
  let ?ttl = "now + PREVIEW_TTL_SECONDS"
  have d: "length (nat_digits (nat \<bar>now\<bar>)) \<le> 13" "length (nat_digits (nat \<bar>?ttl\<bar>)) \<le> 13" "length (nat_digits 1) \<le> 13"
    using assms(1) now_digits [of now] now_digits [of ?ttl] now_digits [of 1] by (auto simp: now_ok_def PREVIEW_TTL_SECONDS_def)
  have r: "case r of None \<Rightarrow> True | Some x \<Rightarrow> plain (route_json x)"
    by (auto simp: route_json_def lit_def split: option.split)
  show "plain (preview_json kind title body r now)"
    unfolding preview_json_def plain_member using d r
    by (auto simp: opt_field_def lit_def INT_MAX_STR_DIGITS_def simp del: plain.simps(7) split: option.splits)
  show "clean_json (list_all encodable) (preview_json kind title body r now)"
    unfolding preview_json_def clean_member using assms
    by (auto simp: opt_field_def route_json_def clean_text_def valid_preview_route_def lit_def split: option.splits)
  show "jdepth (preview_json kind title body r now) \<le> 2"
    unfolding preview_json_def
    by (auto simp: opt_field_def route_json_def foldr_max_le split: option.splits)
qed

lemma serialize_some:
  assumes "now_ok now" and "valid_preview_route r" and "clean_text title" and "clean_text body" and "list_all encodable kind"
  shows "\<exists>bs. serialize (preview_json kind title body r now) = Some bs
    \<and> length bs = wsize (dumps (preview_json kind title body r now))"
proof -
  have "list_all encodable (dumps (preview_json kind title body r now))"
    using preview_json_ok [OF assms] by (intro dumps_encodable)
  then obtain bs where "serialize (preview_json kind title body r now) = Some bs" by (simp add: serialize_def utf8_encode_def)
  then show ?thesis using length_utf8_encode by (simp add: serialize_def)
qed

lemma wsize_dumps_lit: "\<forall>c \<in> set (lit k). 32 \<le> c \<and> c < 128 \<Longrightarrow> wsize (dumps_str (lit k)) \<le> 2 + 2 * length k"
  using wsize_dumps_str [of "lit k"] ascii_list(2) [of "lit k"] by simp

lemma wsize_keys:
  "wsize (dumps_str (lit ''v'')) \<le> 4" "wsize (dumps_str (lit ''kind'')) \<le> 10" "wsize (dumps_str (lit ''route'')) \<le> 12"
  "wsize (dumps_str (lit ''sid'')) \<le> 8" "wsize (dumps_str (lit ''profile'')) \<le> 16"
  "wsize (dumps_str (lit ''iat'')) \<le> 8" "wsize (dumps_str (lit ''exp'')) \<le> 8"
  by (rule order_trans [OF wsize_dumps_lit]; simp add: lit_def)+

lemma bare_preview_small:
  assumes "now_ok now" and "valid_preview_route r" and "wsize (dumps_str kind) \<le> 30"
  shows "wsize (dumps (preview_json kind None None r now)) \<le> MAX_PLAINTEXT_BYTES"
proof -
  have d: "wsize (dumps_int now) \<le> 13" "wsize (dumps_int (now + PREVIEW_TTL_SECONDS)) \<le> 13" "wsize (dumps_int 1) \<le> 13"
    using assms(1) now_digits [of now] now_digits [of "now + PREVIEW_TTL_SECONDS"] now_digits [of 1]
    by (auto simp: now_ok_def PREVIEW_TTL_SECONDS_def)
  show ?thesis
  proof (cases r)
    case None
    show ?thesis using d wsize_keys assms(3)
      by (simp add: preview_json_def opt_field_def None MAX_PLAINTEXT_BYTES_def utf8_bytes_def del: length_concat)
  next
    case (Some sp)
    then obtain sid profile where r: "r = Some (sid, profile)" by (cases sp) auto
    then have "wsize (dumps_str sid) \<le> 258" "wsize (dumps_str profile) \<le> 130"
      using assms(2) wsize_dumps_str [of sid] wsize_dumps_str [of profile] by (auto simp: valid_preview_route_def)
    then show ?thesis using d wsize_keys assms(3)
      by (simp add: preview_json_def opt_field_def route_json_def r MAX_PLAINTEXT_BYTES_def utf8_bytes_def del: length_concat)
  qed
qed

lemma clean_optional: "clean_text t \<Longrightarrow> optional_part t' t \<Longrightarrow> clean_text t'"
  by (auto simp: clean_text_def optional_part_def list_all_iff dest: in_set_takeD split: option.splits)

lemma drop_last_nonempty: "drop_last s \<noteq> Some []"
  by (cases s rule: rev_cases) (auto simp: drop_last_def)

lemma shrink_nonempty: "shrink f t = Some t' \<Longrightarrow> t \<noteq> Some [] \<Longrightarrow> t' \<noteq> Some []"
proof (induction f t rule: shrink.induct)
  case (1 f t)
  then show ?case
    by (subst (asm) (2) shrink.simps) (auto simp: drop_last_nonempty split: option.splits if_splits)
qed

lemma fit_preview_fits:
  assumes "now_ok now" and "valid_preview_route r" and "clean_text title" and "clean_text body"
    and "list_all encodable kind" and "wsize (dumps_str kind) \<le> 30" and "title \<noteq> Some []" and "body \<noteq> Some []"
  shows "\<exists>bs title' body'. fit_preview kind title body r now = Some bs \<and> length bs \<le> MAX_PLAINTEXT_BYTES
     \<and> serialize (preview_json kind title' body' r now) = Some bs \<and> optional_part title' title \<and> optional_part body' body"
proof -
  let ?ser = "\<lambda>t b. serialize (preview_json kind t b r now)"
  have ser: "?ser t b \<noteq> None" if "optional_part t title" "optional_part b body" for t b
    using serialize_some [OF assms(1,2) clean_optional [OF assms(3) that(1)] clean_optional [OF assms(4) that(2)] assms(5)] by auto
  note ns = shrink_nonempty
  obtain b where b: "shrink (\<lambda>b. ?ser title b) body = Some b" "optional_part b body"
    using shrink_ends [of body "\<lambda>b. ?ser title b"] ser [of title] by auto
  obtain t result where t: "shrink (\<lambda>t. ?ser t b) title = Some t" "optional_part t title" "?ser t b = Some result"
    "length result \<le> MAX_PLAINTEXT_BYTES \<or> t = None \<or> t = Some []"
    using shrink_ends [of title "\<lambda>t. ?ser t b"] ser [OF _ b(2)] by auto
  have "length result \<le> MAX_PLAINTEXT_BYTES"
  proof (rule ccontr)
    assume big: "\<not> ?thesis"
    then have "t = None" using t(4) ns [OF t(1) assms(7)] by auto
    obtain b2 result2 where b2: "shrink (\<lambda>b. ?ser title b) body = Some b2" "?ser title b2 = Some result2"
      "length result2 \<le> MAX_PLAINTEXT_BYTES \<or> b2 = None \<or> b2 = Some []"
      using shrink_ends [of body "\<lambda>b. ?ser title b"] ser [of title] by auto
    then have "b2 = b" using b(1) by simp
    show False
    proof (cases "b = None")
      case True
      then have "wsize (dumps (preview_json kind t b r now)) \<le> MAX_PLAINTEXT_BYTES"
        using bare_preview_small [OF assms(1,2,6)] \<open>t = None\<close> by simp
      moreover have "length result = wsize (dumps (preview_json kind t b r now))"
        using t(3) by (intro length_utf8_encode) (simp add: serialize_def)
      ultimately show False using big by simp
    next
      case False
      then have "b \<noteq> Some []" "length result2 \<le> MAX_PLAINTEXT_BYTES" using b2(3) ns [OF b(1) assms(8)] \<open>b2 = b\<close> by auto
      then have "shrink (\<lambda>t. ?ser t b) title = Some title"
        using b2(2) \<open>b2 = b\<close> by (subst shrink.simps) (auto split: option.split)
      then have "t = title" using t(1) by simp
      then have "result = result2" using t(3) b2(2) \<open>b2 = b\<close> by simp
      then show False using big \<open>length result2 \<le> MAX_PLAINTEXT_BYTES\<close> by simp
    qed
  qed
  then show ?thesis using b t by (auto simp: fit_preview_def)
qed

lemma without_controls_encodable: "other_ok other \<Longrightarrow> list_all encodable (without_controls other True s)"
  by (auto simp: without_controls_def list_all_iff other_ok_def encodable_def is_surrogate_def not_less [symmetric])

lemma set_strip: "set (py_lstrip s) \<subseteq> set s" "set (py_rstrip s) \<subseteq> set s" "set (py_strip s) \<subseteq> set s"
proof -
  show l: "set (py_lstrip s) \<subseteq> set s" for s by (auto simp: py_lstrip_def dest: set_dropWhileD)
  show r: "set (py_rstrip s) \<subseteq> set s" for s by (auto simp: py_rstrip_def dest: set_dropWhileD)
  show "set (py_strip s) \<subseteq> set s" unfolding py_strip_def using l r by blast
qed

lemma set_remove_pair: "set (remove_pair c s) \<subseteq> set s"
  by (induction c s rule: remove_pair.induct) auto

lemma set_remove_marks: "set (remove_marks s) \<subseteq> set s"
proof -
  have "set (remove_pair 95 (remove_pair 42 s)) \<subseteq> set s" using set_remove_pair by blast
  then show ?thesis using set_strip(3) unfolding remove_marks_def by fastforce
qed

lemma set_heading_mark: "heading_mark s = Some r \<Longrightarrow> set r \<subseteq> set s"
  by (auto simp: heading_mark_def Let_def dest: set_dropWhileD split: if_splits)

lemma set_title_line: "set (title_line s) \<subseteq> set s"
proof -
  let ?l = "py_strip s"
  have "set (case heading_mark ?l of None \<Rightarrow> ?l | Some r \<Rightarrow> py_lstrip r) \<subseteq> set ?l"
    using set_heading_mark [of ?l] set_strip(1) by (auto split: option.split)
  then show ?thesis using set_remove_marks set_strip(3) [of s] unfolding title_line_def Let_def by blast
qed

lemma set_clean_line: "clean_line s = Some l \<Longrightarrow> set l \<subseteq> set s"
  using set_remove_marks set_strip(3) by (fastforce simp: clean_line_def Let_def split: if_splits)

lemma set_split_on: "g \<in> set (split_on sep s) \<Longrightarrow> set g \<subseteq> set s"
proof (induction sep s arbitrary: g rule: split_on.induct)
  case (2 sep c s)
  have "split_on sep s \<noteq> []" by (cases s) (auto split: list.split)
  then obtain h hs where "split_on sep s = h # hs" by (cases "split_on sep s") auto
  then show ?case using 2 by (fastforce split: if_splits)
qed simp

lemma set_first_line: "set (first_line raws) \<subseteq> \<Union> (set ` set raws)"
proof (cases "filter (\<lambda>l. l \<noteq> []) (map title_line raws)")
  case (Cons l ls)
  then have "l \<in> set (map title_line raws)" by (metis filter_is_subset list.set_intros(1) subsetD)
  then show ?thesis using set_title_line Cons by (fastforce simp: first_line_def)
qed (simp add: first_line_def)

lemma set_excerpt_lines: "l \<in> set (excerpt_lines s) \<Longrightarrow> set l \<subseteq> set s"
proof -
  assume "l \<in> set (excerpt_lines s)"
  then obtain raw where "raw \<in> set (split_on 10 s)" "clean_line raw = Some l"
    by (auto simp: excerpt_lines_def dest!: in_set_takeD split: option.splits)
  then show "set l \<subseteq> set s" using set_clean_line set_split_on by blast
qed

lemma truncate_some: "list_all encodable s \<Longrightarrow> \<exists>k. truncate_utf8 s n = Some (take k s)"
proof -
  assume enc: "list_all encodable s"
  then obtain bs where "utf8_encode s = Some bs" by (simp add: utf8_encode_def)
  then show ?thesis
    using truncate_loop_fitting [OF enc, of n] utf8_encode_nats(2) [of s bs] fitting_take [of n s]
    by (auto simp: truncate_utf8_def take_map [symmetric] intro: exI [of _ "length s"])
qed

lemma clean_take: "list_all P s \<Longrightarrow> list_all P (take k s)"
  by (auto simp: list_all_iff dest: in_set_takeD)

lemma clean_strip: "list_all P s \<Longrightarrow> list_all P (py_rstrip s)" "list_all P s \<Longrightarrow> list_all P (py_strip s)"
  using set_strip(2,3) [of s] by (auto simp: list_all_iff)

lemma title_ok:
  assumes "other_ok other"
  shows "\<exists>t. normalize_title other v = Some t \<and> clean_text t \<and> t \<noteq> Some []"
proof (cases v)
  case (Some s)
  let ?c = "without_controls other True s"
  have "set (first_line (split_on 10 ?c)) \<subseteq> set ?c" using set_first_line set_split_on by blast
  then have f: "list_all encodable (take MAX_TITLE_CHARS (first_line (split_on 10 ?c)))"
    using without_controls_encodable [OF assms, of s] by (auto simp: list_all_iff dest: in_set_takeD)
  then obtain k where "truncate_utf8 (take MAX_TITLE_CHARS (first_line (split_on 10 ?c))) MAX_TITLE_BYTES
      = Some (take k (take MAX_TITLE_CHARS (first_line (split_on 10 ?c))))" using truncate_some by blast
  moreover have "list_all encodable (py_strip (take k (take MAX_TITLE_CHARS (first_line (split_on 10 ?c)))))"
    using clean_strip(2) clean_take f by blast
  ultimately show ?thesis by (auto simp: normalize_title_def Some Let_def clean_text_def)
qed (simp add: normalize_title_def clean_text_def)

lemma excerpt_ok:
  assumes "other_ok other"
  shows "\<exists>t. completion_excerpt other v = Some t \<and> clean_text t \<and> t \<noteq> Some []"
proof (cases v)
  case (Some s)
  let ?c = "py_strip (without_controls other True s)"
  let ?t = "take MAX_BODY_CHARS (sep_join [10] (excerpt_lines ?c))"
  have "set ?c \<subseteq> {c. encodable c}" using set_strip(3) without_controls_encodable [OF assms, of s] by (auto simp: list_all_iff)
  then have "\<Union> (set ` set (excerpt_lines ?c)) \<subseteq> {c. encodable c}" using set_excerpt_lines by blast
  then have "list_all encodable (sep_join [10] (excerpt_lines ?c))"
    using sep_join_set [of "[10]" "excerpt_lines ?c"] by (fastforce simp: list_all_iff)
  then have f: "list_all encodable ?t" by (auto simp: list_all_iff dest: in_set_takeD)
  then obtain k where k: "truncate_utf8 ?t MAX_BODY_BYTES = Some (take k ?t)" using truncate_some by blast
  have "list_all encodable (py_rstrip (take k ?t))"
    using clean_strip(1) clean_take f by blast
  moreover have "list_all encodable (lit ''Response completed'')" by (simp add: lit_def)
  ultimately show ?thesis unfolding completion_excerpt_def Some
    by (simp add: Let_def k clean_text_def) (simp add: lit_def)
qed (simp add: completion_excerpt_def clean_text_def)

definition preview_sources ::
  "(nat \<Rightarrow> bool) \<Rightarrow> pystr \<Rightarrow> pystr \<Rightarrow> pystr option \<Rightarrow> pystr option \<Rightarrow> bool \<Rightarrow> bool \<Rightarrow> pystr option \<Rightarrow> pystr option \<Rightarrow> bool" where
  \<comment> \<open>where the display text of a preview may come from\<close>
  "preview_sources other kind attention_kind response_text title include_title include_excerpt t b \<longleftrightarrow>
     (if kind = lit ''attention''
      then \<exists>x y. map_of ATTENTION_TEXT attention_kind = Some (x, y) \<and> optional_part t (Some x) \<and> optional_part b (Some y)
      else (\<exists>x. optional_part t x \<and> (if include_title then normalize_title other title = Some x else x = None))
         \<and> (\<exists>y. optional_part b y \<and> (if include_excerpt then completion_excerpt other response_text = Some y else y = None)))"

lemma attention_text_ok:
  assumes "map_of ATTENTION_TEXT k = Some (x, y)"
  shows "clean_text (Some x) \<and> clean_text (Some y) \<and> x \<noteq> [] \<and> y \<noteq> []"
proof -
  have "\<forall>(k, x, y) \<in> set ATTENTION_TEXT. list_all encodable x \<and> list_all encodable y \<and> x \<noteq> [] \<and> y \<noteq> []"
    by (simp add: ATTENTION_TEXT_def Let_def lit_def)
  then show ?thesis using map_of_SomeD [OF assms] by (auto simp: clean_text_def)
qed

lemma kind_ok:
  assumes "kind \<in> {lit ''completion'', lit ''attention''}"
  shows "list_all encodable kind \<and> wsize (dumps_str kind) \<le> 30"
proof -
  have k: "list_all encodable (lit s) \<and> wsize (dumps_str (lit s)) \<le> 30"
    if "s \<in> {''completion'', ''attention''}" for s
  proof -
    have "\<forall>c \<in> set (lit s). 32 \<le> c \<and> c < 128" using that by (auto simp: lit_def)
    then show ?thesis using wsize_dumps_lit [of s] ascii_list(1) [of "lit s"] that by auto
  qed
  then show ?thesis using assms by auto
qed

text \<open>
  C33. A preview can always be built and always fits. For either kind, with a known reason for
  attention and a route that does not make the check raise, the plaintext is at most 1280 bytes of
  UTF-8 and reads back as a JSON object with exactly the kind, the two times 120 seconds apart and
  the route; only the title and the body may have been shortened from the end or dropped. So the
  code never gives up the route and never raises for size. The displayed texts come from the fixed
  attention table, or from title and response when the device asked for them.
\<close>

theorem preview_always_fits:
  assumes "other_ok other" and "now_ok now" and "valid_route other route = Some r"
    and "kind = lit ''completion'' \<or> kind = lit ''attention'' \<and> map_of ATTENTION_TEXT attention_kind \<noteq> None"
  shows "\<exists>bs s t b. build_preview_plaintext other kind attention_kind response_text title include_title include_excerpt route now = Some bs
     \<and> length bs \<le> 1280 \<and> utf8_decode bs = Some s \<and> loads_strict 2 s = Some (preview_json kind t b r now)
     \<and> preview_sources other kind attention_kind response_text title include_title include_excerpt t b"
proof -
  have kind: "kind \<in> {lit ''completion'', lit ''attention''}" using assms(4) by blast
  have r: "valid_preview_route r" by (rule valid_route_ok [OF assms(1,3)])
  obtain t b where tb: "(if kind = lit ''attention''
       then map_option (\<lambda>(t, b). (Some t, Some b)) (map_of ATTENTION_TEXT attention_kind)
       else (case (if include_title then normalize_title other title else Some None) of
               None \<Rightarrow> None
             | Some t \<Rightarrow> map_option (Pair t) (if include_excerpt then completion_excerpt other response_text else Some None))) = Some (t, b)"
    and ok: "clean_text t" "clean_text b" "t \<noteq> Some []" "b \<noteq> Some []"
  proof (cases "kind = lit ''attention''")
    case True
    then obtain x y where xy: "map_of ATTENTION_TEXT attention_kind = Some (x, y)" using assms(4) by auto
    show ?thesis by (rule that [of "Some x" "Some y"]) (use True xy attention_text_ok [OF xy] in simp_all)
  next
    case False
    have none: "clean_text None" by (simp add: clean_text_def)
    obtain x where x: "(if include_title then normalize_title other title else Some None) = Some x" "clean_text x" "x \<noteq> Some []"
      using title_ok [OF assms(1), of title] none by (cases include_title) auto
    obtain y where y: "(if include_excerpt then completion_excerpt other response_text else Some None) = Some y" "clean_text y" "y \<noteq> Some []"
      using excerpt_ok [OF assms(1), of response_text] none by (cases include_excerpt) auto
    show ?thesis by (rule that [of x y]) (use False x y in simp_all)
  qed
  obtain bs t' b' where fit: "fit_preview kind t b r now = Some bs" "length bs \<le> MAX_PLAINTEXT_BYTES"
    "serialize (preview_json kind t' b' r now) = Some bs" "optional_part t' t" "optional_part b' b"
    using fit_preview_fits [OF assms(2) r ok(1,2) conjunct1 [OF kind_ok [OF kind]] conjunct2 [OF kind_ok [OF kind]] ok(3,4)] by blast
  have build: "build_preview_plaintext other kind attention_kind response_text title include_title include_excerpt route now = Some bs"
    using kind assms(2,3) tb fit(1) by (simp add: build_preview_plaintext_def now_ok_def)
  have dec: "utf8_decode bs = Some (dumps (preview_json kind t' b' r now))"
    using fit(3) by (intro utf8_decode_encode) (simp add: serialize_def)
  note json = preview_json_ok [OF assms(2) r clean_optional [OF ok(1) fit(4)] clean_optional [OF ok(2) fit(5)] conjunct1 [OF kind_ok [OF kind]]]
  have "loads_strict 2 (dumps (preview_json kind t' b' r now)) = Some (preview_json kind t' b' r now)"
    by (rule loads_strict_dumps [OF json(1,3)])
  moreover have "preview_sources other kind attention_kind response_text title include_title include_excerpt t' b'"
    using tb fit(4,5) by (auto simp: preview_sources_def split: if_splits option.splits)
  ultimately show ?thesis using build dec fit(2) by (auto simp: MAX_PLAINTEXT_BYTES_def)
qed

definition plain_other :: "nat \<Rightarrow> bool" where
  \<comment> \<open>an instance of the table for evaluation\<close>
  "plain_other c \<longleftrightarrow> c < 32 \<or> 127 \<le> c \<and> c < 160 \<or> is_surrogate c \<or> c \<ge> 0x110000"

definition demo_route :: json where
  "demo_route = JObj [(lit ''durable_session_id'', JStr (lit ''s1'')), (lit ''profile'', JStr (lit ''default''))]"

theorem preview_always_fits_witness:
  "\<exists>bs s t b. build_preview_plaintext plain_other (lit ''completion'') [] (Some (replicate 2000 97)) None True True demo_route 1000 = Some bs
     \<and> length bs \<le> 1280 \<and> utf8_decode bs = Some s
     \<and> loads_strict 2 s = Some (preview_json (lit ''completion'') t b (Some (lit ''s1'', lit ''default'')) 1000)"
proof -
  have o: "other_ok plain_other" by (simp add: other_ok_def plain_other_def)
  have n: "now_ok 1000" by (simp add: now_ok_def)
  have r: "valid_route plain_other demo_route = Some (Some (lit ''s1'', lit ''default''))" by code_simp
  show ?thesis using preview_always_fits [OF o n r disjI1 [OF refl], of "[]" "Some (replicate 2000 97)" None True True] by blast
qed

end
