(* ===== verification/Relay_Origin.thy ===== *)
theory Relay_Origin
  imports Json_Text
begin

text \<open>
  The relay origin: \<open>canonicalize_relay_origin\<close> of \<^verbatim>\<open>config.py\<close> with what it uses of
  \<open>urllib.parse.urlsplit\<close>, and \<open>_push_origin\<close> of \<^verbatim>\<open>push.py\<close>. Parameters are what the library
  reads from Unicode tables and the syntax of bracketed hosts. \<open>None\<close> stands for the raised error.
\<close>

section \<open>The URL library\<close>

record url_lib =
  ul_lower :: "pystr \<Rightarrow> pystr"          \<comment> \<open>\<open>str.lower\<close>\<close>
  ul_netloc_ok :: "pystr \<Rightarrow> bool"       \<comment> \<open>\<open>_checknetloc\<close> on a netloc that is not ASCII\<close>
  ul_brackets_ok :: "pystr \<Rightarrow> bool"     \<comment> \<open>\<open>_check_bracketed_netloc\<close>\<close>

definition ascii_lower :: "pystr \<Rightarrow> pystr" where
  "ascii_lower s = map (\<lambda>c. if is_upper c then c + 32 else c) s"

definition is_ascii :: "pystr \<Rightarrow> bool" where
  "is_ascii s \<longleftrightarrow> list_all (\<lambda>c. c < 128) s"

definition url_lib_ok :: "url_lib \<Rightarrow> bool" where
  "url_lib_ok U \<longleftrightarrow> (\<forall>s. is_ascii s \<longrightarrow> ul_lower U s = ascii_lower s)"

record split_result =
  su_scheme :: pystr
  su_netloc :: pystr
  su_path :: pystr
  su_query :: pystr
  su_fragment :: pystr

definition cut_at :: "nat \<Rightarrow> pystr \<Rightarrow> pystr \<times> pystr option" where
  \<comment> \<open>\<open>s.partition(c)\<close>; the second part is \<open>None\<close> when \<open>c\<close> does not occur\<close>
  "cut_at c s =
     (case dropWhile (\<lambda>x. x \<noteq> c) s of [] \<Rightarrow> (s, None) | _ # r \<Rightarrow> (takeWhile (\<lambda>x. x \<noteq> c) s, Some r))"

definition scheme_char :: "nat \<Rightarrow> bool" where
  "scheme_char c \<longleftrightarrow> is_alnum_ascii c \<or> c \<in> {43, 45, 46}"

definition split_scheme :: "url_lib \<Rightarrow> pystr \<Rightarrow> pystr \<times> pystr" where
  "split_scheme U url =
     (case cut_at 58 url of
        (s, Some r) \<Rightarrow>
          if s \<noteq> [] \<and> (is_lower (hd s) \<or> is_upper (hd s)) \<and> list_all scheme_char s then (ul_lower U s, r) else ([], url)
      | (s, None) \<Rightarrow> ([], url))"

definition split_netloc :: "pystr \<Rightarrow> pystr \<times> pystr" where
  \<comment> \<open>up to the first of \<open>/?#\<close>\<close>
  "split_netloc url = (takeWhile (\<lambda>c. c \<notin> {47, 63, 35}) url, dropWhile (\<lambda>c. c \<notin> {47, 63, 35}) url)"

definition urlsplit :: "url_lib \<Rightarrow> pystr \<Rightarrow> split_result option" where
  \<comment> \<open>of a text without whitespace, so that no tab or line break has to be removed\<close>
  "urlsplit U origin =
     (case split_scheme U (dropWhile (\<lambda>c. c \<le> 32) origin) of
        (scheme, url) \<Rightarrow>
          (case (if take 2 url = [47, 47] then split_netloc (drop 2 url) else ([], url)) of
             (netloc, url1) \<Rightarrow>
               let opened = 91 \<in> set netloc; closed = 93 \<in> set netloc in
               if opened \<noteq> closed \<or> opened \<and> \<not> ul_brackets_ok U netloc then None
               else
                 (case cut_at 35 url1 of
                    (url2, fragment) \<Rightarrow>
                      (case cut_at 63 url2 of
                         (path, query) \<Rightarrow>
                           if \<not> is_ascii netloc \<and> \<not> ul_netloc_ok U netloc then None
                           else Some \<lparr>su_scheme = scheme, su_netloc = netloc, su_path = path,
                                      su_query = (case query of None \<Rightarrow> [] | Some q \<Rightarrow> q),
                                      su_fragment = (case fragment of None \<Rightarrow> [] | Some f \<Rightarrow> f)\<rparr>))))"

definition hostinfo :: "pystr \<Rightarrow> pystr \<times> pystr option" where
  \<comment> \<open>\<open>_hostinfo\<close> of a netloc, and its port text\<close>
  "hostinfo netloc =
     (let host = (if 64 \<in> set netloc then rev (takeWhile (\<lambda>c. c \<noteq> 64) (rev netloc)) else netloc) in
      case cut_at 91 host of
        (_, Some bracketed) \<Rightarrow>
          (case cut_at 93 bracketed of
             (name, r) \<Rightarrow> (name, case r of None \<Rightarrow> None | Some r \<Rightarrow> (case snd (cut_at 58 r) of Some p \<Rightarrow> if p = [] then None else Some p | None \<Rightarrow> None)))
      | (_, None) \<Rightarrow>
          (case cut_at 58 host of
             (name, p) \<Rightarrow> (name, case p of Some p \<Rightarrow> if p = [] then None else Some p | None \<Rightarrow> None)))"

definition url_hostname :: "url_lib \<Rightarrow> pystr \<Rightarrow> pystr" where
  \<comment> \<open>the zone of a scoped address keeps its case; empty for \<open>None\<close>\<close>
  "url_hostname U netloc =
     (case cut_at 37 (fst (hostinfo netloc)) of
        (name, None) \<Rightarrow> ul_lower U name
      | (name, Some zone) \<Rightarrow> ul_lower U name @ [37] @ zone)"

definition url_port :: "pystr \<Rightarrow> int option option" where
  "url_port netloc =
     (case snd (hostinfo netloc) of
        None \<Rightarrow> Some None
      | Some p \<Rightarrow> if list_all is_digit p \<and> digits_val p \<le> 65535 then Some (Some (int (digits_val p))) else None)"

section \<open>The origin\<close>

definition MAX_RELAY_ORIGIN_CHARS :: nat where "MAX_RELAY_ORIGIN_CHARS = 256"

definition rstrip_slash :: "pystr \<Rightarrow> pystr" where
  "rstrip_slash s = rev (dropWhile (\<lambda>c. c = 47) (rev s))"

definition authority_text :: "pystr \<Rightarrow> int option \<Rightarrow> pystr" where
  "authority_text hostname port =
     (let host = (if 58 \<in> set hostname then [91] @ hostname @ [93] else hostname)
      in case port of None \<Rightarrow> host | Some p \<Rightarrow> host @ [58] @ dumps_int p)"

definition canonicalize_relay_origin :: "url_lib \<Rightarrow> pystr \<Rightarrow> pystr option" where
  "canonicalize_relay_origin U origin =
     (if \<not> (1 \<le> length origin \<and> length origin \<le> MAX_RELAY_ORIGIN_CHARS) \<or> list_ex (\<lambda>c. py_isspace c \<or> c = 0) origin then None
      else
        (case urlsplit U origin of
           None \<Rightarrow> None
         | Some parts \<Rightarrow>
             (case url_port (su_netloc parts) of
                None \<Rightarrow> None
              | Some port \<Rightarrow>
                  let hostname = url_hostname U (su_netloc parts) in
                  if su_scheme parts \<notin> {lit ''https'', lit ''wss''} \<or> fst (hostinfo (su_netloc parts)) = []
                     \<or> port = Some 0 \<or> 64 \<in> set (su_netloc parts) \<or> su_path parts \<notin> {[], [47]}
                     \<or> su_query parts \<noteq> [] \<or> su_fragment parts \<noteq> [] then None
                  else
                    let canonical = su_scheme parts @ lit ''://'' @ authority_text hostname port in
                    if ul_lower U (rstrip_slash origin) \<noteq> canonical then None else Some canonical)))"

definition push_origin :: "url_lib \<Rightarrow> pystr \<Rightarrow> pystr option" where
  \<comment> \<open>\<open>_push_origin\<close>: the origin over HTTPS, without the default port\<close>
  "push_origin U v =
     (case canonicalize_relay_origin U v of
        None \<Rightarrow> None
      | Some origin \<Rightarrow>
          let authority = drop 3 (dropWhile (\<lambda>c. c \<noteq> 58) origin) in
          let n = length authority - 4 in
          Some (lit ''https://'' @ (if drop n authority = lit '':443'' then take n authority else authority)))"

section \<open>Properties\<close>

lemma cut_at_parts: "cut_at c s = (a, Some r) \<Longrightarrow> s = a @ c # r \<and> c \<notin> set a" "cut_at c s = (a, None) \<Longrightarrow> a = s \<and> c \<notin> set s"
proof -
  show "cut_at c s = (a, Some r) \<Longrightarrow> s = a @ c # r \<and> c \<notin> set a"
  proof -
    assume h: "cut_at c s = (a, Some r)"
    then obtain x where x: "dropWhile (\<lambda>x. x \<noteq> c) s = x # r" "a = takeWhile (\<lambda>x. x \<noteq> c) s"
      by (auto simp: cut_at_def split: list.splits)
    then have "x = c" by (metis (mono_tags, lifting) hd_dropWhile list.distinct(1) list.sel(1))
    then show ?thesis using x by (metis (mono_tags, lifting) set_takeWhileD takeWhile_dropWhile_id)
  qed
  show "cut_at c s = (a, None) \<Longrightarrow> a = s \<and> c \<notin> set s"
    by (auto simp: cut_at_def split: list.splits)
qed

definition tails :: "pystr set" where
  \<comment> \<open>what may follow the netloc when path, query and fragment are empty or a slash\<close>
  "tails = {[], [47], [63], [35], [47, 63], [47, 35], [63, 35], [47, 63, 35]}"

lemma urlsplit_parts:
  assumes "urlsplit U origin = Some parts" and "su_scheme parts \<noteq> []" and "su_netloc parts \<noteq> []"
    and "su_path parts \<in> {[], [47]}" and "su_query parts = []" and "su_fragment parts = []"
  shows "\<exists>sch rest. dropWhile (\<lambda>c. c \<le> 32) origin = sch @ lit ''://'' @ su_netloc parts @ rest
     \<and> ul_lower U sch = su_scheme parts \<and> rest \<in> tails \<and> set (su_netloc parts) \<inter> {47, 63, 35} = {}"
proof -
  let ?o = "dropWhile (\<lambda>c. c \<le> 32) origin"
  let ?n = "\<lambda>url. if take 2 url = [47, 47] then split_netloc (drop 2 url) else ([], url)"
  obtain url where sc: "split_scheme U ?o = (su_scheme parts, url)"
    and net: "fst (?n url) = su_netloc parts"
    and f: "\<exists>url2 fr q. cut_at 35 (snd (?n url)) = (url2, fr) \<and> cut_at 63 url2 = (su_path parts, q)
        \<and> (case q of None \<Rightarrow> [] | Some q \<Rightarrow> q) = [] \<and> (case fr of None \<Rightarrow> [] | Some f \<Rightarrow> f) = []"
    using assms(1,5,6) unfolding urlsplit_def Let_def
    by (auto split: prod.splits if_splits)
  obtain sch where sch: "cut_at 58 ?o = (sch, Some url)" "ul_lower U sch = su_scheme parts"
    using sc assms(2) by (auto simp: split_scheme_def split: prod.splits option.splits if_splits)
  have two: "take 2 url = [47, 47]" using net assms(3) by (auto split: if_splits)
  let ?r = "dropWhile (\<lambda>c. c \<notin> {47, 63, 35}) (drop 2 url)"
  have nl: "su_netloc parts = takeWhile (\<lambda>c. c \<notin> {47, 63, 35}) (drop 2 url)" and r: "snd (?n url) = ?r"
    using net two by (auto simp: split_netloc_def)
  obtain url2 fr q where c: "cut_at 35 ?r = (url2, fr)" "cut_at 63 url2 = (su_path parts, q)"
    "(case q of None \<Rightarrow> [] | Some q \<Rightarrow> q) = []" "(case fr of None \<Rightarrow> [] | Some f \<Rightarrow> f) = []"
    using f unfolding r by blast
  have "?r = su_path parts @ (if q = None then [] else [63]) @ (if fr = None then [] else [35])"
    using c cut_at_parts [of 35 ?r url2] cut_at_parts [of 63 url2 "su_path parts"] by (cases fr; cases q) auto
  then have "?r \<in> tails" using assms(4) by (auto simp: tails_def)
  moreover have "?o = sch @ lit ''://'' @ su_netloc parts @ ?r"
  proof -
    have "url = [47, 47] @ drop 2 url" using two by (metis append_take_drop_id)
    then have "url = [47, 47] @ su_netloc parts @ ?r" using nl takeWhile_dropWhile_id [of _ "drop 2 url"] by metis
    then show ?thesis using cut_at_parts(1) [OF sch(1)] by (simp add: lit_def)
  qed
  moreover have "set (su_netloc parts) \<inter> {47, 63, 35} = {}"
    using nl by (auto dest: set_takeWhileD)
  ultimately show ?thesis using sch(2) by blast
qed

lemma ascii_lower_append: "ascii_lower (a @ b) = ascii_lower a @ ascii_lower b"
  by (simp add: ascii_lower_def)

lemma ascii_lower_keeps: "c < 65 \<Longrightarrow> c \<in> set (ascii_lower s) \<longleftrightarrow> c \<in> set s"
  by (auto simp: ascii_lower_def is_upper_def)

lemma is_ascii_append: "is_ascii (a @ b) \<longleftrightarrow> is_ascii a \<and> is_ascii b"
  by (simp add: is_ascii_def)

lemma hostinfo_subset: "set (fst (hostinfo netloc)) \<subseteq> set netloc"
proof -
  have cut: "set (fst (cut_at c s)) \<subseteq> set s" "snd (cut_at c s) = Some r \<Longrightarrow> set r \<subseteq> set s" for c s r
    using cut_at_parts [of c s] by (cases "cut_at c s"; cases "snd (cut_at c s)"; force)+
  let ?h = "if 64 \<in> set netloc then rev (takeWhile (\<lambda>c. c \<noteq> 64) (rev netloc)) else netloc"
  have h: "set ?h \<subseteq> set netloc" by (auto dest: set_takeWhileD)
  have "set (fst (hostinfo netloc)) \<subseteq> set ?h"
    using cut(1) [of 93] cut(1) [of 58 ?h] cut(2) [of 91 ?h]
    by (fastforce simp: hostinfo_def Let_def split: prod.splits option.splits)
  then show ?thesis using h by blast
qed

lemma hostname_no_marks:
  assumes "url_lib_ok U" and "is_ascii netloc" and "set netloc \<inter> {47, 63, 35} = {}"
  shows "set (authority_text (url_hostname U netloc) port) \<inter> {63, 35} = {}"
proof -
  let ?h = "fst (hostinfo netloc)"
  have asc: "is_ascii ?h" using assms(2) hostinfo_subset by (fastforce simp: is_ascii_def list_all_iff)
  obtain name z where c: "cut_at 37 ?h = (name, z)" by (cases "cut_at 37 ?h")
  then have n: "set name \<subseteq> set ?h" "case z of None \<Rightarrow> True | Some z \<Rightarrow> set z \<subseteq> set ?h"
    using cut_at_parts [of 37 ?h name] by (cases z; auto)+
  then have "is_ascii name" using asc by (auto simp: is_ascii_def list_all_iff)
  then have "ul_lower U name = ascii_lower name" using assms(1) by (simp add: url_lib_ok_def)
  then have "set (url_hostname U netloc) \<inter> {63, 35} = {}"
    using n c assms(3) hostinfo_subset [of netloc] ascii_lower_keeps [of 63 name] ascii_lower_keeps [of 35 name]
    by (auto simp: url_hostname_def split: option.splits)
  moreover have "set (dumps_int p) \<inter> {63, 35} = {}" for p
    using nat_digits_props [of "nat p"] nat_digits_props [of "nat (- p)"]
    by (auto simp: dumps_int_def list_all_iff is_digit_def)
  ultimately show ?thesis by (auto simp: authority_text_def Let_def split: option.splits)
qed

lemma rstrip_slash_end: "x \<noteq> 47 \<Longrightarrow> rstrip_slash (s @ [x]) = s @ [x]" "rstrip_slash (s @ [47]) = rstrip_slash s"
  by (simp_all add: rstrip_slash_def)

lemma accepted_origin:
  assumes "canonicalize_relay_origin U origin = Some c"
  obtains parts port where "urlsplit U origin = Some parts" and "url_port (su_netloc parts) = Some port"
    and "su_scheme parts \<in> {lit ''https'', lit ''wss''}" and "fst (hostinfo (su_netloc parts)) \<noteq> []"
    and "port \<noteq> Some 0" and "64 \<notin> set (su_netloc parts)" and "su_path parts \<in> {[], [47]}"
    and "su_query parts = []" and "su_fragment parts = []"
    and "c = su_scheme parts @ lit ''://'' @ authority_text (url_hostname U (su_netloc parts)) port"
    and "ul_lower U (rstrip_slash origin) = c"
  using assms by (auto simp: canonicalize_relay_origin_def Let_def split: if_splits option.splits)

lemma no_leading_control:
  assumes "ascii_lower (takeWhile (\<lambda>c. c \<le> 32) origin @ s) = c" and "hd c > 32"
  shows "takeWhile (\<lambda>c. c \<le> 32) origin = []"
proof (rule ccontr)
  assume "takeWhile (\<lambda>c. c \<le> 32) origin \<noteq> []"
  then obtain y ys where y: "takeWhile (\<lambda>c. c \<le> 32) origin = y # ys" by (cases "takeWhile (\<lambda>c. c \<le> 32) origin") auto
  then have "y \<le> 32" by (metis (mono_tags, lifting) list.set_intros(1) set_takeWhileD)
  then have "hd c = y" using y assms(1) by (auto simp: ascii_lower_def is_upper_def)
  then show False using \<open>y \<le> 32\<close> assms(2) by simp
qed

lemma no_hidden_tail:
  assumes "rest \<in> tails" and "origin = s @ rest" and "63 \<notin> set (ascii_lower (rstrip_slash origin))" and "35 \<notin> set (ascii_lower (rstrip_slash origin))"
  shows "rest \<in> {[], [47]}"
proof (rule ccontr)
  assume "rest \<notin> {[], [47]}"
  then obtain t x where t: "rest = t @ [x]" "x \<in> {63, 35}" using assms(1) by (auto simp: tails_def)
  then have "rstrip_slash origin = origin" using assms(2) rstrip_slash_end(1) [of x "s @ t"] by auto
  moreover have "x \<in> set origin" using t assms(2) by simp
  ultimately have "x \<in> set (ascii_lower (rstrip_slash origin))" using t(2) ascii_lower_keeps [of x origin] by auto
  then show False using assms(3,4) t(2) by auto
qed

text \<open>
  C36. What a configured relay origin can be. When an ASCII text is accepted it is nothing but a
  scheme, \<open>://\<close> and an authority, with at most one slash after it, and the canonical origin is that
  text in lower case: the scheme is \<open>https\<close> or \<open>wss\<close>, the authority has no user information and
  nothing that starts a path, query or fragment, and it is the host the URL library found with the
  port in plain decimal, between 1 and 65535, if there is one.
\<close>

theorem canonical_origin_exact:
  assumes "url_lib_ok U" and "is_ascii origin" and "canonicalize_relay_origin U origin = Some c"
  shows "\<exists>scheme netloc rest port. origin = scheme @ lit ''://'' @ netloc @ rest \<and> rest \<in> {[], [47]}
     \<and> c = ascii_lower (scheme @ lit ''://'' @ netloc)
     \<and> ascii_lower scheme \<in> {lit ''https'', lit ''wss''} \<and> set netloc \<inter> {47, 63, 35, 64} = {}
     \<and> ascii_lower netloc = authority_text (url_hostname U netloc) port
     \<and> url_port netloc = Some port \<and> (\<forall>p. port = Some p \<longrightarrow> 1 \<le> p \<and> p \<le> 65535)"
proof -
  from accepted_origin [OF assms(3)] obtain parts port where parts: "urlsplit U origin = Some parts"
    and port: "url_port (su_netloc parts) = Some port"
    and scheme: "su_scheme parts \<in> {lit ''https'', lit ''wss''}" and host: "fst (hostinfo (su_netloc parts)) \<noteq> []"
    and p0: "port \<noteq> Some 0" and user: "64 \<notin> set (su_netloc parts)" and path: "su_path parts \<in> {[], [47]}"
    and qf: "su_query parts = []" "su_fragment parts = []"
    and c: "c = su_scheme parts @ lit ''://'' @ authority_text (url_hostname U (su_netloc parts)) port"
    and eq: "ul_lower U (rstrip_slash origin) = c" .
  let ?net = "su_netloc parts"
  have nonempty: "su_scheme parts \<noteq> []" "?net \<noteq> []" using scheme host by (auto simp: lit_def hostinfo_def cut_at_def)
  obtain sch rest where o: "dropWhile (\<lambda>c. c \<le> 32) origin = sch @ lit ''://'' @ ?net @ rest"
    and sch: "ul_lower U sch = su_scheme parts" and rest: "rest \<in> tails" and marks: "set ?net \<inter> {47, 63, 35} = {}"
    using urlsplit_parts [OF parts nonempty path qf] by blast
  let ?ctl = "takeWhile (\<lambda>c. c \<le> 32) origin"
  have full: "origin = ?ctl @ sch @ lit ''://'' @ ?net @ rest" using o by (metis takeWhile_dropWhile_id)
  have asc: "is_ascii sch" "is_ascii ?net" "is_ascii (rstrip_slash origin)"
    using assms(2) full is_ascii_append by (metis, metis)
      (use assms(2) in \<open>auto simp: is_ascii_def list_all_iff rstrip_slash_def dest: set_dropWhileD\<close>)
  have low: "ascii_lower sch = su_scheme parts" "ascii_lower (rstrip_slash origin) = c"
    using assms(1) asc sch eq by (simp_all add: url_lib_ok_def)
  have no: "63 \<notin> set c" "35 \<notin> set c"
    using hostname_no_marks [OF assms(1) asc(2) marks, of port] scheme unfolding c by (auto simp: lit_def)
  have last: "\<exists>n x. ?net = n @ [x] \<and> x \<noteq> 47" using nonempty(2) marks by (cases ?net rule: rev_cases) auto
  then have strip: "rstrip_slash (p @ ?net) = p @ ?net" "rstrip_slash (p @ ?net @ [47]) = p @ ?net" for p
    using rstrip_slash_end(1) [of _ "p @ _"] rstrip_slash_end(2) [of "p @ ?net"] by (auto simp flip: append_assoc)
  have r: "rest \<in> {[], [47]}"
    by (rule no_hidden_tail [OF rest, of origin "?ctl @ sch @ lit ''://'' @ ?net"]) (use full low(2) no in simp_all)
  then have stripped: "rstrip_slash origin = ?ctl @ sch @ lit ''://'' @ ?net"
    using full strip [of "?ctl @ sch @ lit ''://''"] by auto
  have "hd c > 32" using scheme unfolding c by (auto simp: lit_def)
  then have ctl: "?ctl = []" by (rule no_leading_control [rotated]) (use low(2) stripped in simp)
  have lower_c: "c = ascii_lower (sch @ lit ''://'' @ ?net)" using low(2) stripped ctl by simp
  then have "ascii_lower ?net = authority_text (url_hostname U ?net) port"
    using c low(1) by (simp add: ascii_lower_append) (simp add: lit_def ascii_lower_def is_upper_def)
  moreover have "\<forall>p. port = Some p \<longrightarrow> 1 \<le> p \<and> p \<le> 65535"
    using port p0 by (auto simp: url_port_def split: option.splits if_splits)
  moreover have "set ?net \<inter> {47, 63, 35, 64} = {}" using marks user by blast
  moreover have "origin = sch @ lit ''://'' @ ?net @ rest" using full ctl by simp
  ultimately show ?thesis using scheme low(1) lower_c r port by metis
qed

definition ascii_urls :: url_lib where
  \<comment> \<open>an instance of the library for ASCII texts without brackets\<close>
  "ascii_urls = \<lparr>ul_lower = ascii_lower, ul_netloc_ok = \<lambda>_. False, ul_brackets_ok = \<lambda>_. False\<rparr>"

theorem canonical_origin_exact_witness:
  "canonicalize_relay_origin ascii_urls (lit ''WSS://Relay.Example:8443/'') = Some (lit ''wss://relay.example:8443'')
     \<and> (\<exists>scheme netloc rest. lit ''WSS://Relay.Example:8443/'' = scheme @ lit ''://'' @ netloc @ rest
          \<and> lit ''wss://relay.example:8443'' = ascii_lower (scheme @ lit ''://'' @ netloc))"
proof -
  have u: "url_lib_ok ascii_urls" by (simp add: url_lib_ok_def ascii_urls_def)
  have a: "is_ascii (lit ''WSS://Relay.Example:8443/'')" by code_simp
  have c: "canonicalize_relay_origin ascii_urls (lit ''WSS://Relay.Example:8443/'') = Some (lit ''wss://relay.example:8443'')" by code_simp
  from canonical_origin_exact [OF u a c] obtain scheme netloc rest where
    "lit ''WSS://Relay.Example:8443/'' = scheme @ lit ''://'' @ netloc @ rest"
    "lit ''wss://relay.example:8443'' = ascii_lower (scheme @ lit ''://'' @ netloc)"
    by (elim exE conjE)
  then show ?thesis using c by (intro conjI exI)
qed

end
