(* ===== verification/Push_Rows.thy ===== *)
theory Push_Rows
  imports Relay_Origin Push_Preview
begin

text \<open>
  The rows of the push bridge (\<^verbatim>\<open>push.py\<close>): one per wake handle, with the device it belongs to, its
  status, the origin and route it was registered at and the preview key. This theory holds their
  validation, the state file in its three versions, and what is written back.
\<close>

section \<open>Constants\<close>

definition MAX_ROWS_PUSH :: nat where "MAX_ROWS_PUSH = 64"
definition MAX_PUSH_STATE_BYTES :: nat where "MAX_PUSH_STATE_BYTES = 128 * 1024"
definition MAX_PUSH_BODY_BYTES :: nat where "MAX_PUSH_BODY_BYTES = 3072"
definition QUEUE_SIZE :: nat where "QUEUE_SIZE = 64"
definition PENDING_ROUTE_TTL :: rat where "PENDING_ROUTE_TTL = 300"
definition MAX_PENDING_ROUTES :: nat where "MAX_PENDING_ROUTES = MAX_ROWS_PUSH"

definition handle_text :: "pystr \<Rightarrow> bool" where
  \<comment> \<open>\<open>_HANDLE.fullmatch\<close>\<close>
  "handle_text s \<longleftrightarrow> length s = 43 \<and> list_all (\<lambda>c. is_alnum_ascii c \<or> c = 95 \<or> c = 45) s"

definition token_text :: "pystr \<Rightarrow> bool" where
  \<comment> \<open>\<open>_validate_token\<close>\<close>
  "token_text s \<longleftrightarrow> 32 \<le> length s \<and> length s \<le> 200 \<and> list_all (\<lambda>c. is_digit c \<or> 97 \<le> c \<and> c \<le> 102) s \<and> length s mod 2 = 0"

definition PREVIEW_FIELDS :: "pystr set" where
  "PREVIEW_FIELDS = lit ` {''version'', ''key_id'', ''key'', ''completion'', ''attention'', ''include_title'', ''include_response_excerpt''}"

definition ROW_V3_FIELDS :: "pystr set" where
  "ROW_V3_FIELDS = lit ` {''device'', ''epoch'', ''status'', ''origin'', ''route'', ''mode'', ''environment'', ''preview''}"

section \<open>Rows\<close>

datatype push_status = RowActive | RowPending | RowDebt
datatype push_mode = GenericMode | PreviewMode
datatype push_environment = Sandbox | Production

record preview_record =
  pv_key_id :: pystr
  pv_key :: pystr
  pv_completion :: bool
  pv_attention :: bool
  pv_include_title :: bool
  pv_include_excerpt :: bool

record push_row =
  pr_device :: pystr
  pr_epoch :: int
  pr_status :: push_status
  pr_origin :: "pystr option"
  pr_route :: "pystr option"
  pr_mode :: push_mode
  pr_environment :: push_environment
  pr_preview :: "preview_record option"

definition status_text :: "push_status \<Rightarrow> string" where
  "status_text s = (case s of RowActive \<Rightarrow> ''active'' | RowPending \<Rightarrow> ''pending'' | RowDebt \<Rightarrow> ''debt'')"

definition mode_text :: "push_mode \<Rightarrow> string" where
  "mode_text m = (case m of GenericMode \<Rightarrow> ''generic'' | PreviewMode \<Rightarrow> ''preview'')"

definition environment_text :: "push_environment \<Rightarrow> string" where
  "environment_text e = (case e of Sandbox \<Rightarrow> ''sandbox'' | Production \<Rightarrow> ''production'')"

definition parse_with :: "('a \<Rightarrow> string) \<Rightarrow> 'a list \<Rightarrow> json \<Rightarrow> 'a option" where
  \<comment> \<open>a string out of a closed vocabulary\<close>
  "parse_with f xs v = (case v of JStr s \<Rightarrow> List.find (\<lambda>x. lit (f x) = s) xs | _ \<Rightarrow> None)"

definition status_of :: "json \<Rightarrow> push_status option" where
  "status_of = parse_with status_text [RowActive, RowPending, RowDebt]"

definition mode_of :: "json \<Rightarrow> push_mode option" where
  "mode_of = parse_with mode_text [GenericMode, PreviewMode]"

definition environment_of :: "json \<Rightarrow> push_environment option" where
  "environment_of = parse_with environment_text [Sandbox, Production]"

definition preview_of :: "json \<Rightarrow> preview_record option" where
  \<comment> \<open>\<open>_preview_record_valid\<close> with the values it lets through\<close>
  "preview_of v =
     (case v of
        JObj d \<Rightarrow>
          if set (map fst d) \<noteq> PREVIEW_FIELDS
             \<or> decode_canonical_b64url (jget d ''key_id'') 16 = None \<or> decode_canonical_b64url (jget d ''key'') 32 = None
             \<or> jget d ''version'' \<noteq> JInt 1 then None
          else (case (jget d ''key_id'', jget d ''key'', jget d ''completion'', jget d ''attention'', jget d ''include_title'', jget d ''include_response_excerpt'') of
                  (JStr i, JStr k, JBool c, JBool a, JBool t, JBool e) \<Rightarrow>
                    Some \<lparr>pv_key_id = i, pv_key = k, pv_completion = c, pv_attention = a, pv_include_title = t, pv_include_excerpt = e\<rparr>
                | _ \<Rightarrow> None)
      | _ \<Rightarrow> None)"

definition opt_text :: "json \<Rightarrow> pystr option option" where
  "opt_text v = (case v of JNull \<Rightarrow> Some None | JStr s \<Rightarrow> Some (Some s) | _ \<Rightarrow> None)"

definition row_v3 :: "json \<Rightarrow> push_row option" where
  \<comment> \<open>\<open>_row_v3_valid\<close> with the row it lets through; the binding is checked apart\<close>
  "row_v3 v =
     (case v of
        JObj d \<Rightarrow>
          if set (map fst d) \<noteq> ROW_V3_FIELDS then None
          else
            (case (jget d ''device'', jget d ''epoch'', status_of (jget d ''status''), mode_of (jget d ''mode''), environment_of (jget d ''environment''),
                   opt_text (jget d ''origin''), opt_text (jget d ''route'')) of
               (JStr dev, JInt ep, Some st, Some m, Some en, Some orig, Some rt) \<Rightarrow>
                 if \<not> (1 \<le> length dev \<and> length dev \<le> 128) \<or> \<not> (0 \<le> ep \<and> ep \<le> 2 ^ 31 - 1) then None
                 else
                   let base = \<lparr>pr_device = dev, pr_epoch = ep, pr_status = st, pr_origin = orig, pr_route = rt, pr_mode = m,
                               pr_environment = en, pr_preview = None\<rparr>
                   in if m = GenericMode \<or> st = RowDebt then (if jget d ''preview'' = JNull then Some base else None)
                      else map_option (\<lambda>p. base\<lparr>pr_preview := Some p\<rparr>) (preview_of (jget d ''preview''))
             | _ \<Rightarrow> None)
      | _ \<Rightarrow> None)"

definition binding_valid :: "url_lib \<Rightarrow> push_row \<Rightarrow> bool" where
  "binding_valid U row \<longleftrightarrow>
     (case (pr_origin row, pr_route row) of
        (Some origin, Some route) \<Rightarrow>
          handle_text route
          \<and> map_option canonical_b64url (decode_canonical_b64url (JStr route) 32) = Some route
          \<and> push_origin U origin = Some origin
      | (o1, r1) \<Rightarrow> o1 = None \<and> r1 = None \<and> pr_status row = RowDebt)"

section \<open>The state file\<close>

definition legacy_row :: "dict \<Rightarrow> push_status \<Rightarrow> json \<Rightarrow> json \<Rightarrow> json" where
  "legacy_row source st origin route =
     JObj [(lit ''device'', jget source ''device''), (lit ''epoch'', jget source ''epoch''), (lit ''status'', JStr (lit (status_text st))),
           (lit ''origin'', origin), (lit ''route'', route), (lit ''mode'', JStr (lit ''generic'')),
           (lit ''environment'', JStr (lit ''sandbox'')), (lit ''preview'', JNull)]"

definition is_jbool :: "json \<Rightarrow> bool" where
  "is_jbool v = (case v of JBool _ \<Rightarrow> True | _ \<Rightarrow> False)"

definition migrate_row :: "int \<Rightarrow> json \<Rightarrow> json option" where
  "migrate_row version v =
     (case v of
        JObj source \<Rightarrow>
          if version = 1 then
            (if set (map fst source) \<noteq> lit ` {''device'', ''epoch'', ''active''} \<or> \<not> is_jbool (jget source ''active'') then None
             else Some (legacy_row source RowDebt JNull JNull))
          else if version = 2 then
            (if set (map fst source) \<noteq> lit ` {''device'', ''epoch'', ''active'', ''origin'', ''route''} \<or> \<not> is_jbool (jget source ''active'') then None
             else Some (legacy_row source (if jget source ''active'' = JBool True then RowActive else RowDebt) (jget source ''origin'') (jget source ''route'')))
          else Some (JObj source)
      | _ \<Rightarrow> None)"

definition load_row :: "url_lib \<Rightarrow> int \<Rightarrow> pystr \<times> json \<Rightarrow> (pystr \<times> push_row) option" where
  "load_row U version hv =
     (if \<not> handle_text (fst hv) then None
      else (case migrate_row version (snd hv) of
              None \<Rightarrow> None
            | Some v \<Rightarrow> (case row_v3 v of
                          None \<Rightarrow> None
                        | Some row \<Rightarrow> if binding_valid U row then Some (fst hv, row) else None)))"

definition load_rows :: "url_lib \<Rightarrow> json \<Rightarrow> (int \<times> (pystr \<times> push_row) list) option" where
  "load_rows U data =
     (case data of
        JObj d \<Rightarrow>
          if set (map fst d) \<noteq> lit ` {''version'', ''rows''} then None
          else (case (jget d ''version'', jget d ''rows'') of
                  (JInt version, JObj rows) \<Rightarrow>
                    if version \<notin> {1, 2, 3} \<or> length rows > MAX_ROWS_PUSH then None
                    else map_option (Pair version) (all_some (map (load_row U version) rows))
                | _ \<Rightarrow> None)
      | _ \<Rightarrow> None)"

definition read_push_file :: "url_lib \<Rightarrow> nat \<Rightarrow> bytes option \<Rightarrow> (int \<times> (pystr \<times> push_row) list) option" where
  \<comment> \<open>\<open>None\<close> as the file: it does not exist\<close>
  "read_push_file U recursion_limit file =
     (case file of
        None \<Rightarrow> Some (3, [])
      | Some raw \<Rightarrow>
          if length raw > MAX_PUSH_STATE_BYTES then None
          else (case utf8_decode raw of
                  None \<Rightarrow> None
                | Some s \<Rightarrow> (case loads_strict recursion_limit s of None \<Rightarrow> None | Some v \<Rightarrow> load_rows U v)))"

definition preview_json_of :: "preview_record \<Rightarrow> json" where
  "preview_json_of p =
     JObj [(lit ''version'', JInt 1), (lit ''key_id'', JStr (pv_key_id p)), (lit ''key'', JStr (pv_key p)),
           (lit ''completion'', JBool (pv_completion p)), (lit ''attention'', JBool (pv_attention p)),
           (lit ''include_title'', JBool (pv_include_title p)), (lit ''include_response_excerpt'', JBool (pv_include_excerpt p))]"

definition opt_json :: "pystr option \<Rightarrow> json" where
  "opt_json t = (case t of None \<Rightarrow> JNull | Some s \<Rightarrow> JStr s)"

definition row_json :: "push_row \<Rightarrow> json" where
  "row_json r =
     JObj [(lit ''device'', JStr (pr_device r)), (lit ''epoch'', JInt (pr_epoch r)), (lit ''status'', JStr (lit (status_text (pr_status r)))),
           (lit ''origin'', opt_json (pr_origin r)), (lit ''route'', opt_json (pr_route r)), (lit ''mode'', JStr (lit (mode_text (pr_mode r)))),
           (lit ''environment'', JStr (lit (environment_text (pr_environment r)))),
           (lit ''preview'', case pr_preview r of None \<Rightarrow> JNull | Some p \<Rightarrow> preview_json_of p)]"

definition state_json :: "(pystr \<times> push_row) list \<Rightarrow> json" where
  "state_json rows = JObj [(lit ''version'', JInt 3), (lit ''rows'', JObj (map (map_prod id row_json) rows))]"

definition state_payload :: "(pystr \<times> push_row) list \<Rightarrow> bytes" where
  \<comment> \<open>the payload of \<open>_save\<close>\<close>
  "state_payload rows = ascii_encode (dumps_ascii_compact (sort_keys (state_json rows)))"

end
