(* ===== verification/Push_Bridge.thy ===== *)
theory Push_Bridge
  imports Push_Rows
begin

text \<open>
  \<open>PushBridge\<close> of \<^verbatim>\<open>push.py\<close>: registrations, wakes, revocation and the one worker that sends. The
  stretches between two awaits are the functions below; \<open>push_step\<close> is the bridge as a state machine
  whose events choose the order. Authorization, clocks, random draws and the outcome of writes and
  requests are arguments; an authorization callback that raises counts as no, as in the code. Clock
  readings are exact numbers, the rounding of the two float additions is left out.
\<close>

section \<open>State\<close>

datatype push_error =
    PushUnavailable | InvalidParams | RateLimited    \<comment> \<open>\<open>SessionReadsError\<close>\<close>
  | PushTypeError                                    \<comment> \<open>an unhashable environment\<close>

datatype push_action = ARegister | AWake | AUnregister | AClose

record push_job =
  jb_action :: push_action
  jb_handle :: pystr
  jb_fields :: dict
  jb_expires_at :: "int option"        \<comment> \<open>\<open>_preview_expires_at\<close>, which never leaves the host\<close>
  jb_future :: "nat option"
  jb_generation :: nat

datatype push_future = FuturePending | FutureDone | FutureFailed | FutureCancelled

datatype http_phase = HttpCreated | HttpSent | HttpFinished bool

datatype push_worker =
    NoWorker
  | WorkerIdle                                     \<comment> \<open>waits for a job\<close>
  | WorkerPosting push_job http_phase bool         \<comment> \<open>the flag: cancelled\<close>
  | WorkerEnded

record arrival =
  ar_event_id :: pystr
  ar_device :: pystr
  ar_epoch :: int
  ar_session :: pystr
  ar_profile :: pystr
  ar_expires_at :: rat

record registration =
  rg_device :: pystr
  rg_epoch :: int
  rg_token :: pystr
  rg_environment :: push_environment
  rg_mode :: push_mode
  rg_preview :: "preview_record option"
  rg_versioned :: bool

record push_request =
  \<comment> \<open>what the HTTP client is handed, with the device and the epoch of the row\<close>
  pq_action :: push_action
  pq_handle :: pystr
  pq_payload :: bytes
  pq_device :: pystr
  pq_epoch :: int

record push_bridge =
  pb_origin :: pystr
  pb_route :: pystr
  pb_preview_enabled :: bool
  pb_production_enabled :: bool
  pb_rows :: "(pystr, push_row) odict"
  pb_closed :: bool
  pb_failed :: bool
  pb_queue :: "push_job list"
  pb_worker :: push_worker
  pb_seen :: "(pystr \<times> int \<times> bytes) list"
  pb_generation :: "(pystr, nat) odict"
  pb_pending :: "(pystr, arrival) odict"
  pb_arrivals :: "(pystr \<times> pystr, arrival) odict"
  pb_futures :: "push_future list"
  pb_lock :: "(registration \<times> pystr \<times> nat) option"   \<comment> \<open>who awaits its future under the lock\<close>
  pb_waiting :: "registration list"
  pb_sent :: "push_request list"
  pb_disk :: "bytes option"

type_synonym authorizer = "pystr \<Rightarrow> int \<Rightarrow> bool"

section \<open>Queries on the state\<close>

definition pb_available :: "push_bridge \<Rightarrow> bool" where
  "pb_available p \<longleftrightarrow> \<not> pb_closed p \<and> \<not> pb_failed p"

definition preview_available :: "push_bridge \<Rightarrow> bool" where
  "preview_available p \<longleftrightarrow> pb_available p \<and> pb_preview_enabled p"

definition push_capabilities :: "push_bridge \<Rightarrow> json" where
  "push_capabilities p =
     JObj ([(lit ''push_notifications_v1'', JBool True), (lit ''push_notifications_v2'', JBool True),
            (lit ''push_notification_routes'', JObj [(lit ''version'', JInt 1), (lit ''inspect_method'', JStr (lit ''relay.push.inspect''))])]
       @ (if pb_production_enabled p
          then [(lit ''push_environments'', JObj [(lit ''version'', JInt 1),
                   (lit ''environments'', JArr [JStr (lit ''sandbox''), JStr (lit ''production'')]), (lit ''generic_register_version'', JInt 2)])]
          else [])
       @ (if preview_available p then [(lit ''push_previews'', PREVIEW_CAPABILITY)] else []))"

definition push_authorized :: "authorizer \<Rightarrow> pystr \<Rightarrow> int \<Rightarrow> push_bridge \<Rightarrow> bool" where
  "push_authorized auth device ep p \<longleftrightarrow> pb_available p \<and> auth device ep"

definition row_bound :: "push_bridge \<Rightarrow> push_row \<Rightarrow> bool" where
  "row_bound p row \<longleftrightarrow> pr_origin row = Some (pb_origin p) \<and> pr_route row = Some (pb_route p)"

definition valid_scope :: "authorizer \<Rightarrow> push_bridge \<Rightarrow> push_row \<Rightarrow> bool" where
  "valid_scope auth p row \<longleftrightarrow> row_bound p row \<and> push_authorized auth (pr_device row) (pr_epoch row) p"

definition valid_handle :: "authorizer \<Rightarrow> push_bridge \<Rightarrow> pystr \<Rightarrow> bool" where
  "valid_handle auth p handle \<longleftrightarrow>
     (case map_of (pb_rows p) handle of None \<Rightarrow> False | Some row \<Rightarrow> pr_status row = RowActive \<and> valid_scope auth p row)"

definition generation_of :: "push_bridge \<Rightarrow> pystr \<Rightarrow> nat" where
  "generation_of p handle = (case map_of (pb_generation p) handle of None \<Rightarrow> 0 | Some g \<Rightarrow> g)"

definition set_row :: "pystr \<Rightarrow> push_row \<Rightarrow> push_bridge \<Rightarrow> push_bridge" where
  "set_row handle row p = p\<lparr>pb_rows := AList.update handle row (pb_rows p)\<rparr>"

section \<open>Small steps\<close>

definition push_save :: "bool \<Rightarrow> push_bridge \<Rightarrow> (push_error + unit) \<times> push_bridge" where
  "push_save write_ok p =
     (let payload = state_payload (pb_rows p) in
      if length payload > MAX_PUSH_STATE_BYTES \<or> \<not> write_ok then (Inl PushUnavailable, p\<lparr>pb_failed := True\<rparr>)
      else (Inr (), p\<lparr>pb_disk := Some payload\<rparr>))"

definition clear_pending :: "pystr \<Rightarrow> pystr option \<Rightarrow> push_bridge \<Rightarrow> push_bridge" where
  "clear_pending handle event_id p =
     (case map_of (pb_pending p) handle of
        None \<Rightarrow> p
      | Some a \<Rightarrow> if event_id = None \<or> event_id = Some (ar_event_id a) then p\<lparr>pb_pending := AList.delete handle (pb_pending p)\<rparr> else p)"

definition clear_arrival :: "pystr \<Rightarrow> pystr option \<Rightarrow> push_bridge \<Rightarrow> push_bridge" where
  "clear_arrival handle event_id p =
     p\<lparr>pb_arrivals := filter (\<lambda>((h, e), _). \<not> (h = handle \<and> (event_id = None \<or> event_id = Some e))) (pb_arrivals p)\<rparr>"

definition make_debt :: "pystr \<Rightarrow> push_bridge \<Rightarrow> push_bridge" where
  "make_debt handle p =
     (case map_of (pb_rows p) handle of
        None \<Rightarrow> p      \<comment> \<open>never called for a missing row\<close>
      | Some row \<Rightarrow>
          clear_arrival handle None (clear_pending handle None
            ((set_row handle (row\<lparr>pr_status := RowDebt, pr_preview := None\<rparr>) p)
               \<lparr>pb_generation := AList.update handle (Suc (generation_of p handle)) (pb_generation p)\<rparr>)))"

definition put_job :: "push_job \<Rightarrow> push_bridge \<Rightarrow> bool \<times> push_bridge" where
  "put_job job p =
     (if length (pb_queue p) < QUEUE_SIZE then (True, p\<lparr>pb_queue := pb_queue p @ [job]\<rparr>) else (False, p))"

definition new_job :: "push_action \<Rightarrow> pystr \<Rightarrow> dict \<Rightarrow> int option \<Rightarrow> nat option \<Rightarrow> push_bridge \<Rightarrow> push_job" where
  "new_job action handle body expires_at future p =
     \<lparr>jb_action = action, jb_handle = handle, jb_fields = body, jb_expires_at = expires_at, jb_future = future,
      jb_generation = generation_of p handle\<rparr>"

definition put_unregister :: "pystr \<Rightarrow> push_bridge \<Rightarrow> push_bridge" where
  "put_unregister handle p = snd (put_job (new_job AUnregister handle [] None None p) p)"

definition collect_debts :: "push_bridge \<Rightarrow> push_bridge" where
  \<comment> \<open>\<open>for handle, row in self.rows.items(): if row is a bound debt, enqueue an unregister\<close>\<close>
  "collect_debts p =
     fold put_unregister (map fst (filter (\<lambda>(h, row). pr_status row = RowDebt \<and> row_bound p row) (pb_rows p))) p"

definition push_start :: "push_bridge \<Rightarrow> push_bridge" where
  "push_start p =
     (if pb_worker p = NoWorker \<and> \<not> pb_closed p then collect_debts (p\<lparr>pb_worker := WorkerIdle\<rparr>) else p)"

definition enqueue :: "push_action \<Rightarrow> pystr \<Rightarrow> dict \<Rightarrow> int option \<Rightarrow> nat option \<Rightarrow> push_bridge \<Rightarrow> bool \<times> push_bridge" where
  "enqueue action handle body expires_at future p =
     (let p1 = push_start p in put_job (new_job action handle body expires_at future p1) p1)"

definition enqueue_unregister :: "pystr \<Rightarrow> push_bridge \<Rightarrow> push_bridge" where
  "enqueue_unregister handle p = snd (enqueue AUnregister handle [] None None p)"

definition settle_future :: "push_future \<Rightarrow> nat option \<Rightarrow> push_bridge \<Rightarrow> push_bridge" where
  \<comment> \<open>\<open>if future is not None and not future.done()\<close>\<close>
  "settle_future outcome future p =
     (case future of
        None \<Rightarrow> p
      | Some i \<Rightarrow> if i < length (pb_futures p) \<and> pb_futures p ! i = FuturePending then p\<lparr>pb_futures := (pb_futures p)[i := outcome]\<rparr> else p)"

definition drop_queued :: "pystr \<Rightarrow> push_bridge \<Rightarrow> push_bridge" where
  "drop_queued handle p =
     fold (\<lambda>job. settle_future FutureFailed (jb_future job)) (filter (\<lambda>job. jb_handle job = handle) (pb_queue p))
       (p\<lparr>pb_queue := filter (\<lambda>job. jb_handle job \<noteq> handle) (pb_queue p)\<rparr>)"

definition cancel_http :: "pystr \<Rightarrow> push_bridge \<Rightarrow> push_bridge" where
  \<comment> \<open>cancelling a task that is done has no effect\<close>
  "cancel_http handle p =
     (case pb_worker p of
        WorkerPosting job phase cancelled \<Rightarrow>
          if jb_handle job = handle then
            (case phase of HttpFinished _ \<Rightarrow> p | _ \<Rightarrow> p\<lparr>pb_worker := WorkerPosting job phase True\<rparr>)
          else p
      | _ \<Rightarrow> p)"

definition retire :: "pystr \<Rightarrow> push_bridge \<Rightarrow> push_bridge" where
  \<comment> \<open>the common body of \<open>revoke\<close> and \<open>_retire_others\<close>\<close>
  "retire handle p = cancel_http handle (make_debt handle (drop_queued handle p))"

definition prune_pending :: "rat \<Rightarrow> push_bridge \<Rightarrow> push_bridge" where
  "prune_pending now p =
     p\<lparr>pb_pending := filter (\<lambda>(_, a). \<not> ar_expires_at a \<le> now) (pb_pending p),
       pb_arrivals := filter (\<lambda>(_, a). \<not> ar_expires_at a \<le> now) (pb_arrivals p)\<rparr>"

section \<open>Construction\<close>

definition blank_bridge :: "pystr \<Rightarrow> pystr \<Rightarrow> bool \<Rightarrow> bool \<Rightarrow> bytes option \<Rightarrow> push_bridge" where
  "blank_bridge origin route preview_enabled production_enabled file =
     \<lparr>pb_origin = origin, pb_route = route, pb_preview_enabled = preview_enabled, pb_production_enabled = production_enabled,
      pb_rows = [], pb_closed = False, pb_failed = False, pb_queue = [], pb_worker = NoWorker, pb_seen = [], pb_generation = [],
      pb_pending = [], pb_arrivals = [], pb_futures = [], pb_lock = None, pb_waiting = [], pb_sent = [], pb_disk = file\<rparr>"

definition stale_row :: "authorizer \<Rightarrow> push_bridge \<Rightarrow> push_row \<Rightarrow> bool" where
  \<comment> \<open>an active or pending row that may not be kept as such after a restart\<close>
  "stale_row auth p row \<longleftrightarrow>
     pr_status row \<in> {RowActive, RowPending}
     \<and> (\<not> valid_scope auth p row
        \<or> pr_mode row = PreviewMode \<and> \<not> pb_preview_enabled p
        \<or> pr_mode row = GenericMode \<and> pr_environment row = Production \<and> \<not> pb_production_enabled p
        \<or> pr_status row = RowPending \<and> pr_mode row = GenericMode)"

definition adopt_row :: "authorizer \<Rightarrow> pystr \<times> push_row \<Rightarrow> push_bridge \<Rightarrow> push_bridge" where
  "adopt_row auth hr p =
     (let p1 = (set_row (fst hr) (snd hr) p)\<lparr>pb_generation := AList.update (fst hr) 0 (pb_generation p)\<rparr>
      in if stale_row auth p1 (snd hr) then make_debt (fst hr) p1 else p1)"

definition new_push_bridge ::
  "url_lib \<Rightarrow> nat \<Rightarrow> authorizer \<Rightarrow> bool \<Rightarrow> pystr \<Rightarrow> bytes \<Rightarrow> bool \<Rightarrow> bool \<Rightarrow> bytes option \<Rightarrow> push_bridge option" where
  \<comment> \<open>\<open>None\<close>: the constructor raises\<close>
  "new_push_bridge U recursion_limit auth write_ok relay_origin installation_id preview_enabled production_enabled file =
     (if length installation_id \<noteq> 32 then None
      else (case push_origin U relay_origin of
              None \<Rightarrow> None
            | Some origin \<Rightarrow>
                (case read_push_file U recursion_limit file of
                   None \<Rightarrow> None
                 | Some (version, rows) \<Rightarrow>
                     let p0 = blank_bridge origin (canonical_b64url installation_id) preview_enabled production_enabled file;
                         p1 = fold (adopt_row auth) rows p0;
                         dirty = (rows \<noteq> [] \<and> version \<noteq> 3 \<or> list_ex (stale_row auth p0 \<circ> snd) rows)
                     in if dirty then (case push_save write_ok p1 of (Inl _, _) \<Rightarrow> None | (Inr _, p2) \<Rightarrow> Some p2) else Some p1)))"

section \<open>Reads\<close>

definition unresolved :: json where
  "unresolved = JObj [(lit ''resolved'', JBool False)]"

definition resolved :: "arrival \<Rightarrow> json" where
  "resolved a = JObj [(lit ''resolved'', JBool True), (lit ''durable_session_id'', JStr (ar_session a)), (lit ''profile'', JStr (ar_profile a))]"

definition scoped_to :: "pystr \<Rightarrow> int \<Rightarrow> pystr \<Rightarrow> arrival \<Rightarrow> push_bridge \<Rightarrow> bool" where
  "scoped_to device ep handle a p \<longleftrightarrow>
     (case map_of (pb_rows p) handle of None \<Rightarrow> False | Some row \<Rightarrow> pr_device row = device \<and> pr_epoch row = ep)
     \<and> ar_device a = device \<and> ar_epoch a = ep"

definition push_inspect :: "authorizer \<Rightarrow> rat \<Rightarrow> pystr \<Rightarrow> int \<Rightarrow> pystr \<Rightarrow> pystr \<Rightarrow> push_bridge \<Rightarrow> json \<times> push_bridge" where
  "push_inspect auth now device ep handle event_id p =
     (let p1 = prune_pending now p in
      case map_of (pb_arrivals p1) (handle, event_id) of
        None \<Rightarrow> (unresolved, p1)
      | Some a \<Rightarrow>
          if \<not> push_authorized auth device ep p1 \<or> \<not> valid_handle auth p1 handle \<or> \<not> scoped_to device ep handle a p1
          then (unresolved, p1) else (resolved a, p1))"

definition push_resolve :: "authorizer \<Rightarrow> rat \<Rightarrow> pystr \<Rightarrow> int \<Rightarrow> pystr \<Rightarrow> push_bridge \<Rightarrow> json \<times> push_bridge" where
  "push_resolve auth now device ep handle p =
     (let p1 = prune_pending now p in
      if \<not> push_authorized auth device ep p1 then (unresolved, p1)
      else (case map_of (pb_pending p1) handle of
              None \<Rightarrow> (unresolved, p1)
            | Some a \<Rightarrow>
                if \<not> valid_handle auth p1 handle \<or> \<not> scoped_to device ep handle a p1 then (unresolved, p1)
                else (resolved a, p1\<lparr>pb_pending := AList.delete handle (pb_pending p1)\<rparr>)))"

section \<open>Revocation\<close>

definition device_handles :: "pystr \<Rightarrow> int option \<Rightarrow> push_bridge \<Rightarrow> pystr list" where
  "device_handles device ep p =
     map fst (filter (\<lambda>(h, row). pr_device row = device \<and> (ep = None \<or> ep = Some (pr_epoch row))) (pb_rows p))"

definition push_revoke :: "bool \<Rightarrow> pystr \<Rightarrow> int option \<Rightarrow> push_bridge \<Rightarrow> (push_error + unit) \<times> push_bridge" where
  "push_revoke write_ok device ep p =
     (let handles = device_handles device ep p; p1 = fold retire handles p in
      if handles = [] then (Inr (), p1)
      else (case push_save write_ok p1 of
              (Inl e, p2) \<Rightarrow> (Inl e, p2)
            | (Inr _, p2) \<Rightarrow> (Inr (), fold enqueue_unregister handles p2)))"

end
