(* ===== verification/Push_Machine.thy ===== *)
theory Push_Machine
  imports Push_Bridge
begin

text \<open>
  The rest of \<open>PushBridge\<close>: the requests of a phone, wakes, the worker with its HTTP task, closing,
  and the events of a run.
\<close>

section \<open>Requests of a phone\<close>

definition environment_param :: "json \<Rightarrow> push_error + push_environment" where
  \<comment> \<open>\<open>environment in {"sandbox", "production"}\<close>\<close>
  "environment_param v =
     (case v of JArr _ \<Rightarrow> Inl PushTypeError | JObj _ \<Rightarrow> Inl PushTypeError
      | _ \<Rightarrow> (case environment_of v of None \<Rightarrow> Inl InvalidParams | Some e \<Rightarrow> Inr e))"

definition token_param :: "json \<Rightarrow> push_error + pystr" where
  "token_param v = (case v of JStr t \<Rightarrow> if token_text t then Inr t else Inl InvalidParams | _ \<Rightarrow> Inl InvalidParams)"

definition params_are :: "string set \<Rightarrow> dict \<Rightarrow> bool" where
  "params_are ks d \<longleftrightarrow> set (map fst d) = lit ` ks"

definition parse_preview_register :: "pystr \<Rightarrow> int \<Rightarrow> dict \<Rightarrow> push_bridge \<Rightarrow> push_error + registration" where
  "parse_preview_register device ep params p =
     (if \<not> preview_available p then Inl PushUnavailable
      else if \<not> params_are {''device_token'', ''environment'', ''preview''} params then Inl InvalidParams
      else
        res_bind (token_param (jget params ''device_token'')) (\<lambda>token.
        res_bind (environment_param (jget params ''environment'')) (\<lambda>environment.
          (case preview_of (jget params ''preview'') of
             None \<Rightarrow> Inl InvalidParams
           | Some preview \<Rightarrow>
               Inr \<lparr>rg_device = device, rg_epoch = ep, rg_token = token, rg_environment = environment,
                    rg_mode = PreviewMode, rg_preview = Some preview, rg_versioned = False\<rparr>))))"

definition parse_register :: "pystr \<Rightarrow> int \<Rightarrow> dict \<Rightarrow> push_bridge \<Rightarrow> push_error + registration" where
  "parse_register device ep params p =
     (let legacy = params_are {''device_token'', ''environment''} params;
          versioned = params_are {''version'', ''device_token'', ''environment''} params
      in if \<not> legacy \<and> \<not> versioned then Inl InvalidParams
         else
           res_bind (token_param (jget params ''device_token'')) (\<lambda>token.
           res_bind (environment_param (jget params ''environment'')) (\<lambda>environment.
             if legacy \<and> environment \<noteq> Sandbox \<or> versioned \<and> jget params ''version'' \<noteq> JInt 2 then Inl InvalidParams
             else if environment = Production \<and> \<not> pb_production_enabled p then Inl PushUnavailable
             else Inr \<lparr>rg_device = device, rg_epoch = ep, rg_token = token, rg_environment = environment,
                       rg_mode = GenericMode, rg_preview = None, rg_versioned = versioned\<rparr>)))"

fun idempotent_handle :: "registration \<Rightarrow> preview_record \<Rightarrow> (pystr \<times> push_row) list \<Rightarrow> push_error + pystr option" where
  \<comment> \<open>\<open>_find_idempotent_preview\<close>\<close>
  "idempotent_handle rg preview [] = Inr None"
| "idempotent_handle rg preview ((handle, row) # rows) =
     (if pr_device row = rg_device rg \<and> pr_epoch row = rg_epoch rg \<and> pr_mode row = PreviewMode \<and> pr_status row \<noteq> RowDebt
      then (case pr_preview row of
              None \<Rightarrow> Inl PushTypeError
            | Some held \<Rightarrow>
                if pv_key_id held \<noteq> pv_key_id preview then idempotent_handle rg preview rows
                else if pr_environment row \<noteq> rg_environment rg \<or> pv_key held \<noteq> pv_key preview then Inl InvalidParams
                else Inr (Some handle))
      else idempotent_handle rg preview rows)"

definition find_handle :: "registration \<Rightarrow> push_bridge \<Rightarrow> push_error + pystr option" where
  "find_handle rg p = (case rg_preview rg of None \<Rightarrow> Inr None | Some preview \<Rightarrow> idempotent_handle rg preview (pb_rows p))"

definition pending_row :: "registration \<Rightarrow> push_bridge \<Rightarrow> push_row" where
  "pending_row rg p =
     \<lparr>pr_device = rg_device rg, pr_epoch = rg_epoch rg, pr_status = RowPending, pr_origin = Some (pb_origin p),
      pr_route = Some (pb_route p), pr_mode = rg_mode rg, pr_environment = rg_environment rg, pr_preview = rg_preview rg\<rparr>"

definition register_fields :: "registration \<Rightarrow> dict" where
  "register_fields rg =
     [(lit ''device_token'', JStr (rg_token rg)), (lit ''environment'', JStr (lit (environment_text (rg_environment rg))))]
     @ (case rg_preview rg of
          Some preview \<Rightarrow> [(lit ''preview'', JObj [(lit ''version'', JInt 1), (lit ''key_id'', JStr (pv_key_id preview))])]
        | None \<Rightarrow> if rg_versioned rg then [(lit ''version'', JInt 2)] else [])"

datatype push_reply =
    PushAnswer json
  | PushRaise push_error
  | PushAwaits              \<comment> \<open>for the lock, or under the lock for its future\<close>
  | PushCancelled

definition register_row :: "bool \<Rightarrow> pystr \<Rightarrow> registration \<Rightarrow> push_bridge \<Rightarrow> (push_error + pystr) \<times> push_bridge" where
  \<comment> \<open>under the lock: the handle to register, with a new pending row unless there is one\<close>
  "register_row write_ok draw rg p =
     (case find_handle rg p of
        Inl e \<Rightarrow> (Inl e, p)
      | Inr (Some handle) \<Rightarrow> (Inr handle, p)
      | Inr None \<Rightarrow>
          if QUEUE_SIZE \<le> length (pb_queue p) \<or> MAX_ROWS_PUSH \<le> length (pb_rows p) then (Inl RateLimited, p)
          else
            (case push_save write_ok ((set_row draw (pending_row rg p) p)\<lparr>pb_generation := AList.update draw 0 (pb_generation p)\<rparr>) of
               (Inl e, p1) \<Rightarrow> (Inl e, p1)
             | (Inr _, p1) \<Rightarrow> (Inr draw, p1)))"

definition register_refused :: "bool \<Rightarrow> pystr \<Rightarrow> push_bridge \<Rightarrow> push_reply \<times> push_bridge" where
  \<comment> \<open>the queue is full\<close>
  "register_refused write_ok handle p =
     (case map_of (pb_rows p) handle of
        Some row \<Rightarrow>
          if pr_status row = RowPending then
            (case push_save write_ok (make_debt handle p) of
               (Inl e, p1) \<Rightarrow> (PushRaise e, p1) | (Inr _, p1) \<Rightarrow> (PushRaise RateLimited, p1))
          else (PushRaise RateLimited, p)
      | None \<Rightarrow> (PushRaise RateLimited, p))"

definition register_locked :: "bool \<Rightarrow> pystr \<Rightarrow> registration \<Rightarrow> push_bridge \<Rightarrow> push_reply \<times> push_bridge" where
  \<comment> \<open>from the lock to \<open>await future\<close>; leaving by an exception releases the lock\<close>
  "register_locked write_ok draw rg p =
     (case register_row write_ok draw rg (push_start p) of
        (Inl e, p1) \<Rightarrow> (PushRaise e, p1)
      | (Inr handle, p1) \<Rightarrow>
          let future = length (pb_futures p1);
              p2 = p1\<lparr>pb_futures := pb_futures p1 @ [FuturePending]\<rparr>
          in case enqueue ARegister handle (register_fields rg) None (Some future) p2 of
               (False, p3) \<Rightarrow> register_refused write_ok handle p3
             | (True, p3) \<Rightarrow> (PushAwaits, p3\<lparr>pb_lock := Some (rg, handle, future)\<rparr>))"

definition register_call :: "bool \<Rightarrow> pystr \<Rightarrow> registration \<Rightarrow> push_bridge \<Rightarrow> push_reply \<times> push_bridge" where
  \<comment> \<open>the lock is fair: who finds it taken or others waiting, waits\<close>
  "register_call write_ok draw rg p =
     (if pb_lock p = None \<and> pb_waiting p = [] then register_locked write_ok draw rg p
      else (PushAwaits, p\<lparr>pb_waiting := pb_waiting p @ [rg]\<rparr>))"

definition register_next :: "bool \<Rightarrow> pystr \<Rightarrow> push_bridge \<Rightarrow> push_reply \<times> push_bridge" where
  \<comment> \<open>the first one waiting gets the lock\<close>
  "register_next write_ok draw p =
     (case (pb_lock p, pb_waiting p) of
        (None, rg # rest) \<Rightarrow> register_locked write_ok draw rg (p\<lparr>pb_waiting := rest\<rparr>)
      | _ \<Rightarrow> (PushAwaits, p))"

definition registered_answer :: "registration \<Rightarrow> pystr \<Rightarrow> json" where
  "registered_answer rg handle =
     JObj ([(lit ''registered'', JBool True), (lit ''wake_handle'', JStr handle)]
       @ (case rg_preview rg of
            None \<Rightarrow> []
          | Some preview \<Rightarrow> [(lit ''preview'', JObj [(lit ''version'', JInt 1), (lit ''key_id'', JStr (pv_key_id preview))])]))"

definition register_done :: "authorizer \<Rightarrow> bool \<Rightarrow> registration \<Rightarrow> pystr \<Rightarrow> push_bridge \<Rightarrow> push_reply \<times> push_bridge" where
  \<comment> \<open>after the future has succeeded\<close>
  "register_done auth write_ok rg handle p =
     (if \<not> valid_handle auth p handle then (PushRaise PushUnavailable, p)
      else (case map_of (pb_rows p) handle of
              None \<Rightarrow> (PushRaise PushUnavailable, p)
            | Some row \<Rightarrow>
                if rg_mode rg = PreviewMode \<and> pr_preview row \<noteq> rg_preview rg then
                  (case push_save write_ok (set_row handle (row\<lparr>pr_preview := rg_preview rg\<rparr>) p) of
                     (Inl e, p1) \<Rightarrow> (PushRaise e, p1) | (Inr _, p1) \<Rightarrow> (PushAnswer (registered_answer rg handle), p1))
                else (PushAnswer (registered_answer rg handle), p)))"

definition register_resume :: "authorizer \<Rightarrow> bool \<Rightarrow> push_bridge \<Rightarrow> push_reply \<times> push_bridge" where
  "register_resume auth write_ok p =
     (case pb_lock p of
        None \<Rightarrow> (PushAwaits, p)
      | Some (rg, handle, future) \<Rightarrow>
          let p1 = p\<lparr>pb_lock := None\<rparr> in
          (case pb_futures p ! future of
             FuturePending \<Rightarrow> (PushAwaits, p)
           | FutureFailed \<Rightarrow> (PushRaise PushUnavailable, p1)
           | FutureCancelled \<Rightarrow> (PushCancelled, p1)
           | FutureDone \<Rightarrow> register_done auth write_ok rg handle p1))"

definition register_cancelled :: "push_bridge \<Rightarrow> push_bridge" where
  \<comment> \<open>the caller is cancelled while it awaits the future\<close>
  "register_cancelled p =
     (case pb_lock p of
        None \<Rightarrow> p
      | Some (rg, handle, future) \<Rightarrow> settle_future FutureCancelled (Some future) (p\<lparr>pb_lock := None\<rparr>))"

definition handle_param :: "dict \<Rightarrow> string \<Rightarrow> pystr option" where
  "handle_param params k = (case jget params k of JStr h \<Rightarrow> if handle_text h then Some h else None | _ \<Rightarrow> None)"

definition push_dispatch ::
  "authorizer \<Rightarrow> bool \<Rightarrow> rat \<Rightarrow> pystr \<Rightarrow> pystr \<Rightarrow> int \<Rightarrow> pystr \<Rightarrow> dict \<Rightarrow> push_bridge \<Rightarrow> push_reply \<times> push_bridge" where
  "push_dispatch auth write_ok now draw device ep meth params p =
     (if meth = lit ''relay.push.inspect'' then
        (case (params_are {''wake_handle'', ''event_id''} params, handle_param params ''wake_handle'', handle_param params ''event_id'') of
           (True, Some h, Some e) \<Rightarrow> (case push_inspect auth now device ep h e p of (v, p1) \<Rightarrow> (PushAnswer v, p1))
         | _ \<Rightarrow> (PushRaise InvalidParams, p))
      else if meth = lit ''relay.push.resolve'' then
        (case (params_are {''wake_handle''} params, handle_param params ''wake_handle'') of
           (True, Some h) \<Rightarrow> (case push_resolve auth now device ep h p of (v, p1) \<Rightarrow> (PushAnswer v, p1))
         | _ \<Rightarrow> (PushRaise InvalidParams, p))
      else if \<not> push_authorized auth device ep p then (PushRaise PushUnavailable, p)
      else if meth = lit ''relay.push.unregister'' then
        (if params \<noteq> [] then (PushRaise InvalidParams, p)
         else (case push_revoke write_ok device (Some ep) p of
                 (Inl e, p1) \<Rightarrow> (PushRaise e, p1)
               | (Inr _, p1) \<Rightarrow> (PushAnswer (JObj [(lit ''registered'', JBool False)]), p1)))
      else if meth = lit ''relay.push.preview.register'' then
        (case parse_preview_register device ep params p of
           Inl e \<Rightarrow> (PushRaise e, p) | Inr rg \<Rightarrow> register_call write_ok draw rg p)
      else if meth = lit ''relay.push.register'' then
        (case parse_register device ep params p of
           Inl e \<Rightarrow> (PushRaise e, p) | Inr rg \<Rightarrow> register_call write_ok draw rg p)
      else (PushRaise InvalidParams, p))"

section \<open>Wakes\<close>

datatype wake_data =
    NoData
  | CompletionData pystr "pystr option"     \<comment> \<open>response text and title\<close>
  | AttentionData pystr                     \<comment> \<open>the event that asks\<close>

definition push_route :: "json \<Rightarrow> (pystr \<times> pystr) option option" where
  \<comment> \<open>\<open>_route_valid\<close> with the route it lets through; the outer \<open>None\<close>: a \<open>UnicodeEncodeError\<close>\<close>
  "push_route v = valid_route (\<lambda>c. c < 32 \<or> 127 \<le> c \<and> c \<le> 159) v"

definition int_of_float :: "rat \<Rightarrow> int" where
  \<comment> \<open>\<open>int(x)\<close>\<close>
  "int_of_float r = (if r \<ge> 0 then \<lfloor>r\<rfloor> else \<lceil>r\<rceil>)"

definition wanted :: "wake_data \<Rightarrow> preview_record \<Rightarrow> bool" where
  "wanted d record =
     (case d of NoData \<Rightarrow> False | CompletionData _ _ \<Rightarrow> pv_completion record | AttentionData _ \<Rightarrow> pv_attention record)"

definition data_plaintext :: "(nat \<Rightarrow> bool) \<Rightarrow> wake_data \<Rightarrow> preview_record \<Rightarrow> json \<Rightarrow> int \<Rightarrow> bytes option" where
  "data_plaintext other d record route issued_at =
     (case d of
        NoData \<Rightarrow> None
      | CompletionData t title \<Rightarrow>
          build_preview_plaintext other (lit ''completion'') [] (Some t) title (pv_include_title record) (pv_include_excerpt record) route issued_at
      | AttentionData k \<Rightarrow>
          build_preview_plaintext other (lit ''attention'') k None None (pv_include_title record) (pv_include_excerpt record) route issued_at)"

definition sealed_preview ::
  "(nat \<Rightarrow> bool) \<Rightarrow> aead \<Rightarrow> rat \<Rightarrow> wake_data \<Rightarrow> json \<Rightarrow> pystr \<Rightarrow> pystr \<Rightarrow> bytes \<Rightarrow> push_row \<Rightarrow> preview_record \<Rightarrow> (json \<times> int) option" where
  \<comment> \<open>the body of the \<open>try\<close>: the preview member and when it expires\<close>
  "sealed_preview other chacha wall d route handle event_id nonce row record =
     (let issued_at = int_of_float wall in
      case data_plaintext other d record route issued_at of
        None \<Rightarrow> None
      | Some plaintext \<Rightarrow>
          (case decode_canonical_b64url (JStr (pv_key record)) 32 of
             None \<Rightarrow> None
           | Some key \<Rightarrow>
               (case encrypt_preview chacha key nonce plaintext (lit (environment_text (pr_environment row))) handle event_id (pv_key_id record) of
                  None \<Rightarrow> None
                | Some ciphertext \<Rightarrow>
                    Some (JObj [(lit ''version'', JInt 1), (lit ''alg'', JStr (lit ''C20P'')), (lit ''key_id'', JStr (pv_key_id record)),
                                (lit ''nonce'', JStr (canonical_b64url nonce)), (lit ''ciphertext'', JStr ciphertext)],
                          issued_at + PREVIEW_TTL_SECONDS))))"

definition wake_fields ::
  "(nat \<Rightarrow> bool) \<Rightarrow> aead \<Rightarrow> rat \<Rightarrow> wake_data \<Rightarrow> json \<Rightarrow> pystr \<Rightarrow> pystr \<Rightarrow> bytes \<Rightarrow> push_row \<Rightarrow> (dict \<times> int option) option" where
  \<comment> \<open>\<open>None\<close>: this handle is not woken\<close>
  "wake_fields other chacha wall d route handle event_id nonce row =
     (let base = [(lit ''event_id'', JStr event_id)] in
      case pr_mode row of
        GenericMode \<Rightarrow> Some (base, None)
      | PreviewMode \<Rightarrow>
          (case pr_preview row of
             None \<Rightarrow> None
           | Some record \<Rightarrow>
               if \<not> wanted d record then None
               else map_option (\<lambda>(preview, expires). (base @ [(lit ''preview'', preview)], Some expires))
                      (sealed_preview other chacha wall d route handle event_id nonce row record)))"

definition remember_route :: "rat \<Rightarrow> pystr \<Rightarrow> arrival \<Rightarrow> push_bridge \<Rightarrow> push_bridge" where
  "remember_route now handle a p =
     (let p1 = prune_pending now (p\<lparr>pb_pending := od_move_to_end handle (AList.update handle a (pb_pending p))\<rparr>) in
      p1\<lparr>pb_arrivals := od_trim MAX_PENDING_ROUTES (AList.update (handle, ar_event_id a) a (pb_arrivals p1)),
         pb_pending := od_trim MAX_PENDING_ROUTES (pb_pending p1)\<rparr>)"

definition wake_one ::
  "(nat \<Rightarrow> bool) \<Rightarrow> aead \<Rightarrow> rat \<Rightarrow> rat \<Rightarrow> (pystr \<Rightarrow> pystr \<times> bytes) \<Rightarrow> pystr \<Rightarrow> int \<Rightarrow> json \<Rightarrow> wake_data \<Rightarrow> pystr \<Rightarrow> push_bridge \<Rightarrow> push_bridge" where
  \<comment> \<open>one turn of the loop; \<open>draws\<close> gives the event identifier and the nonce\<close>
  "wake_one other chacha now wall draws device ep route d handle p =
     (case map_of (pb_rows p) handle of
        None \<Rightarrow> p
      | Some row \<Rightarrow>
          let (event_id, nonce) = draws handle in
          (case wake_fields other chacha wall d route handle event_id nonce row of
             None \<Rightarrow> p
           | Some (body, expires_at) \<Rightarrow>
               (case enqueue AWake handle body expires_at None p of
                  (False, p1) \<Rightarrow> p1
                | (True, p1) \<Rightarrow>
                    let p2 = clear_pending handle None p1 in
                    (case push_route route of
                       Some (Some (session, profile)) \<Rightarrow>
                         remember_route now handle
                           \<lparr>ar_event_id = event_id, ar_device = device, ar_epoch = ep, ar_session = session, ar_profile = profile,
                            ar_expires_at = now + PENDING_ROUTE_TTL\<rparr> p2
                     | _ \<Rightarrow> p2))))"

definition push_wake ::
  "(nat \<Rightarrow> bool) \<Rightarrow> aead \<Rightarrow> authorizer \<Rightarrow> rat \<Rightarrow> rat \<Rightarrow> (pystr \<Rightarrow> pystr \<times> bytes) \<Rightarrow> pystr \<Rightarrow> int \<Rightarrow> bytes \<Rightarrow> json \<Rightarrow> wake_data \<Rightarrow> push_bridge \<Rightarrow> push_bridge" where
  \<comment> \<open>a route that is not valid counts as none; one that cannot be encoded raises\<close>
  "push_wake other chacha auth now wall draws device ep identity route d p =
     (let handles = filter (valid_handle auth p) (device_handles device (Some ep) p) in
      if \<not> push_authorized auth device ep p \<or> handles = [] \<or> (device, ep, identity) \<in> set (pb_seen p) then p
      else
        let p1 = p\<lparr>pb_seen := last_n 256 (pb_seen p @ [(device, ep, identity)])\<rparr> in
        (case push_route route of
           None \<Rightarrow> p1
         | Some r \<Rightarrow> fold (wake_one other chacha now wall draws device ep (if r = None then JNull else route) d) handles p1))"

section \<open>The worker\<close>

definition finish_job :: "authorizer \<Rightarrow> push_job \<Rightarrow> bool \<Rightarrow> pystr list \<Rightarrow> push_bridge \<Rightarrow> push_bridge" where
  \<comment> \<open>the \<open>finally\<close> clause\<close>
  "finish_job auth job success retired p =
     (let event_id = (case jget (jb_fields job) ''event_id'' of JStr e \<Rightarrow> Some e | _ \<Rightarrow> None);
          p1 = (if jb_action job = AWake \<and> \<not> success
                then clear_arrival (jb_handle job) event_id (clear_pending (jb_handle job) event_id p) else p);
          p2 = fold enqueue_unregister retired (p1\<lparr>pb_worker := WorkerIdle\<rparr>)
      in settle_future (if success \<and> valid_handle auth p2 (jb_handle job) then FutureDone else FutureFailed) (jb_future job) p2)"

definition job_current :: "push_job \<Rightarrow> push_bridge \<Rightarrow> bool" where
  "job_current job p \<longleftrightarrow>
     map_of (pb_rows p) (jb_handle job) \<noteq> None \<and> map_of (pb_generation p) (jb_handle job) = Some (jb_generation job)"

definition job_allowed :: "authorizer \<Rightarrow> push_job \<Rightarrow> push_bridge \<Rightarrow> bool" where
  "job_allowed auth job p \<longleftrightarrow>
     (case map_of (pb_rows p) (jb_handle job) of
        None \<Rightarrow> False
      | Some row \<Rightarrow>
          job_current job p
          \<and> (case jb_action job of
               AUnregister \<Rightarrow> pr_status row = RowDebt
             | ARegister \<Rightarrow> pr_status row \<in> {RowActive, RowPending} \<and> valid_scope auth p row
             | _ \<Rightarrow> valid_handle auth p (jb_handle job)))"

definition worker_take :: "authorizer \<Rightarrow> push_bridge \<Rightarrow> push_bridge" where
  \<comment> \<open>from \<open>queue.get\<close> to the creation of the HTTP task\<close>
  "worker_take auth p =
     (case (pb_worker p, pb_queue p) of
        (WorkerIdle, job # rest) \<Rightarrow>
          let p1 = p\<lparr>pb_queue := rest\<rparr> in
          if jb_action job = AClose then p1\<lparr>pb_worker := WorkerEnded\<rparr>
          else if job_allowed auth job p1 then p1\<lparr>pb_worker := WorkerPosting job HttpCreated False\<rparr>
          else finish_job auth job False [] p1
      | _ \<Rightarrow> p)"

definition request_payload :: "push_job \<Rightarrow> bytes" where
  "request_payload job = ascii_encode (dumps_ascii_compact (JObj ((lit ''wake_handle'', JStr (jb_handle job)) # jb_fields job)))"

definition post_start :: "rat \<Rightarrow> rat \<Rightarrow> bool \<Rightarrow> push_bridge \<Rightarrow> push_bridge" where
  \<comment> \<open>\<open>_post\<close> up to the request; a task that was cancelled before never runs\<close>
  "post_start wall timeout token_ok p =
     (case pb_worker p of
        WorkerPosting job HttpCreated False \<Rightarrow>
          (case map_of (pb_rows p) (jb_handle job) of
             None \<Rightarrow> p\<lparr>pb_worker := WorkerPosting job (HttpFinished False) False\<rparr>
           | Some row \<Rightarrow>
               if \<not> row_bound p row
                  \<or> (case jb_expires_at job of None \<Rightarrow> False | Some t \<Rightarrow> wall + timeout \<ge> of_int t)
                  \<or> length (request_payload job) > MAX_PUSH_BODY_BYTES \<or> \<not> token_ok
               then p\<lparr>pb_worker := WorkerPosting job (HttpFinished False) False\<rparr>
               else p\<lparr>pb_worker := WorkerPosting job HttpSent False,
                      pb_sent := pb_sent p @ [\<lparr>pq_action = jb_action job, pq_handle = jb_handle job,
                                              pq_payload = request_payload job, pq_device = pr_device row, pq_epoch = pr_epoch row\<rparr>]\<rparr>)
      | _ \<Rightarrow> p)"

definition post_end :: "bool \<Rightarrow> push_bridge \<Rightarrow> push_bridge" where
  \<comment> \<open>the response: a status from 200 to 299 or anything else\<close>
  "post_end ok p =
     (case pb_worker p of
        WorkerPosting job HttpSent False \<Rightarrow> p\<lparr>pb_worker := WorkerPosting job (HttpFinished ok) False\<rparr>
      | _ \<Rightarrow> p)"

definition other_rows :: "pystr \<Rightarrow> push_bridge \<Rightarrow> pystr list" where
  \<comment> \<open>the other rows of the device of this one\<close>
  "other_rows handle p =
     (case map_of (pb_rows p) handle of
        None \<Rightarrow> []
      | Some current \<Rightarrow> map fst (filter (\<lambda>(other, row). other \<noteq> handle \<and> pr_device row = pr_device current) (pb_rows p)))"

definition settle_unregister :: "authorizer \<Rightarrow> bool \<Rightarrow> push_job \<Rightarrow> push_bridge \<Rightarrow> push_bridge" where
  "settle_unregister auth write_ok job p =
     (case push_save write_ok (p\<lparr>pb_rows := AList.delete (jb_handle job) (pb_rows p),
                                 pb_generation := AList.delete (jb_handle job) (pb_generation p)\<rparr>) of
        (Inl _, p1) \<Rightarrow> finish_job auth job False [] p1
      | (Inr _, p1) \<Rightarrow> finish_job auth job True [] p1)"

definition settle_register :: "authorizer \<Rightarrow> bool \<Rightarrow> push_job \<Rightarrow> bool \<Rightarrow> push_bridge \<Rightarrow> push_bridge" where
  "settle_register auth write_ok job success p =
     (case map_of (pb_rows p) (jb_handle job) of
        None \<Rightarrow> finish_job auth job success [] p
      | Some row \<Rightarrow>
          if success \<and> valid_scope auth p row then
            (if pr_status row = RowPending then
               let p1 = set_row (jb_handle job) (row\<lparr>pr_status := RowActive\<rparr>) p; retired = other_rows (jb_handle job) p1;
                   p2 = fold retire retired p1
               in (case push_save write_ok p2 of
                     (Inl _, p3) \<Rightarrow> finish_job auth job False retired p3
                   | (Inr _, p3) \<Rightarrow> finish_job auth job True retired p3)
             else finish_job auth job True [] p)
          else if pr_status row = RowPending then
            (case push_save write_ok (make_debt (jb_handle job) p) of
               (Inl _, p1) \<Rightarrow> finish_job auth job False [] p1
             | (Inr _, p1) \<Rightarrow> finish_job auth job success [] (enqueue_unregister (jb_handle job) p1))
          else finish_job auth job success [] p)"

definition worker_settle :: "authorizer \<Rightarrow> bool \<Rightarrow> push_job \<Rightarrow> bool \<Rightarrow> push_bridge \<Rightarrow> push_bridge" where
  "worker_settle auth write_ok job success p =
     (let same = (map_of (pb_generation p) (jb_handle job) = Some (jb_generation job)) in
      if jb_action job = AUnregister \<and> success \<and> same then settle_unregister auth write_ok job p
      else if jb_action job = ARegister \<and> same then settle_register auth write_ok job success p
      else finish_job auth job success [] p)"

definition worker_resume :: "authorizer \<Rightarrow> bool \<Rightarrow> bool \<Rightarrow> push_bridge \<Rightarrow> push_bridge" where
  \<comment> \<open>after \<open>wait_for\<close>: the task is done, was cancelled, or has taken too long\<close>
  "worker_resume auth write_ok timed_out p =
     (case pb_worker p of
        WorkerPosting job phase cancelled \<Rightarrow>
          (case phase of
             HttpFinished ok \<Rightarrow> worker_settle auth write_ok job ok p
           | _ \<Rightarrow> if cancelled \<or> timed_out then worker_settle auth write_ok job False p else p)
      | _ \<Rightarrow> p)"

definition worker_idle :: "push_bridge \<Rightarrow> push_bridge" where
  \<comment> \<open>a minute without a job\<close>
  "worker_idle p = (if pb_worker p = WorkerIdle \<and> pb_queue p = [] then collect_debts p else p)"

section \<open>Closing\<close>

definition close_job :: push_job where
  "close_job = \<lparr>jb_action = AClose, jb_handle = [], jb_fields = [], jb_expires_at = None, jb_future = None, jb_generation = 0\<rparr>"

definition push_close :: "push_bridge \<Rightarrow> push_bridge" where
  \<comment> \<open>up to the wait for the worker\<close>
  "push_close p =
     (let p1 = p\<lparr>pb_closed := True\<rparr>;
          p2 = (case pb_worker p1 of WorkerPosting job _ _ \<Rightarrow> cancel_http (jb_handle job) p1 | _ \<Rightarrow> p1);
          p3 = fold (\<lambda>job. settle_future FutureCancelled (jb_future job)) (pb_queue p2) (p2\<lparr>pb_queue := []\<rparr>)
      in if pb_worker p3 \<in> {NoWorker, WorkerEnded} then p3 else p3\<lparr>pb_queue := [close_job]\<rparr>)"

definition push_closed :: "push_bridge \<Rightarrow> push_bridge" where
  \<comment> \<open>after the worker has ended\<close>
  "push_closed p =
     (if pb_closed p \<and> pb_worker p \<in> {NoWorker, WorkerEnded} then
        p\<lparr>pb_pending := [], pb_arrivals := [],
          pb_rows := map (\<lambda>(h, row). (h, if pr_status row = RowActive then row else row\<lparr>pr_preview := None\<rparr>)) (pb_rows p)\<rparr>
      else p)"

section \<open>Runs\<close>

datatype push_event =
    EStart
  | EDispatch authorizer bool rat pystr pystr int pystr dict
      \<comment> \<open>authorization, outcome of a write, clock, drawn handle, device, epoch, method, params\<close>
  | ENext bool pystr
  | ERegistered authorizer bool
  | ERegisterCancelled
  | EWaiterCancelled nat
  | ERevoke bool pystr "int option"
  | EWake "nat \<Rightarrow> bool" aead authorizer rat rat "pystr \<Rightarrow> pystr \<times> bytes" pystr int bytes json wake_data
  | ETake authorizer
  | EPost rat rat bool
  | EPostEnd bool
  | EResume authorizer bool bool
  | EIdle
  | EClose
  | EClosed

definition push_step :: "push_event \<Rightarrow> push_bridge \<Rightarrow> push_bridge" where
  "push_step e p =
     (case e of
        EStart \<Rightarrow> push_start p
      | EDispatch auth write_ok now draw device ep meth params \<Rightarrow> snd (push_dispatch auth write_ok now draw device ep meth params p)
      | ENext write_ok draw \<Rightarrow> snd (register_next write_ok draw p)
      | ERegistered auth write_ok \<Rightarrow> snd (register_resume auth write_ok p)
      | ERegisterCancelled \<Rightarrow> register_cancelled p
      | EWaiterCancelled i \<Rightarrow> p\<lparr>pb_waiting := take i (pb_waiting p) @ drop (Suc i) (pb_waiting p)\<rparr>
      | ERevoke write_ok device ep \<Rightarrow> snd (push_revoke write_ok device ep p)
      | EWake other chacha auth now wall draws device ep identity route d \<Rightarrow>
          push_wake other chacha auth now wall draws device ep identity route d p
      | ETake auth \<Rightarrow> worker_take auth p
      | EPost wall timeout token_ok \<Rightarrow> post_start wall timeout token_ok p
      | EPostEnd ok \<Rightarrow> post_end ok p
      | EResume auth write_ok timed_out \<Rightarrow> worker_resume auth write_ok timed_out p
      | EIdle \<Rightarrow> worker_idle p
      | EClose \<Rightarrow> push_close p
      | EClosed \<Rightarrow> push_closed p)"

definition push_run :: "push_event list \<Rightarrow> push_bridge \<Rightarrow> push_bridge" where
  "push_run es p = fold push_step es p"

end
