(* ===== verification/Push_Inv.thy ===== *)
theory Push_Inv
  imports Push_Machine
begin

text \<open>
  Invariants of the push bridge: rows are well formed and their number is bounded, a debt holds no
  key, routes are kept for active rows only, and a wake the worker is about to send is still
  wanted. Each small step of the bridge is shown to change nothing but its own fields.
\<close>

declare map_of_eq_Some_iff [simp del] Some_eq_map_of_iff [simp del]

section \<open>What the small steps change\<close>

named_theorems push_frame \<open>fields of the bridge an operation leaves alone\<close>

lemma set_row_frame [push_frame]:
  "pb_origin (set_row h r p) = pb_origin p" "pb_route (set_row h r p) = pb_route p" "pb_rows (set_row h r p) = AList.update h r (pb_rows p)"
  "pb_closed (set_row h r p) = pb_closed p" "pb_failed (set_row h r p) = pb_failed p" "pb_queue (set_row h r p) = pb_queue p"
  "pb_worker (set_row h r p) = pb_worker p" "pb_seen (set_row h r p) = pb_seen p" "pb_generation (set_row h r p) = pb_generation p"
  "pb_pending (set_row h r p) = pb_pending p" "pb_arrivals (set_row h r p) = pb_arrivals p" "pb_futures (set_row h r p) = pb_futures p"
  "pb_lock (set_row h r p) = pb_lock p" "pb_waiting (set_row h r p) = pb_waiting p" "pb_sent (set_row h r p) = pb_sent p"
  by (simp_all add: set_row_def)

lemma clear_frame [push_frame]:
  "pb_origin (clear_pending h e p) = pb_origin p" "pb_route (clear_pending h e p) = pb_route p" "pb_rows (clear_pending h e p) = pb_rows p"
  "pb_closed (clear_pending h e p) = pb_closed p" "pb_failed (clear_pending h e p) = pb_failed p" "pb_queue (clear_pending h e p) = pb_queue p"
  "pb_worker (clear_pending h e p) = pb_worker p" "pb_seen (clear_pending h e p) = pb_seen p" "pb_generation (clear_pending h e p) = pb_generation p"
  "pb_arrivals (clear_pending h e p) = pb_arrivals p" "pb_futures (clear_pending h e p) = pb_futures p"
  "pb_lock (clear_pending h e p) = pb_lock p" "pb_waiting (clear_pending h e p) = pb_waiting p" "pb_sent (clear_pending h e p) = pb_sent p"
  "pb_origin (clear_arrival h e p) = pb_origin p" "pb_route (clear_arrival h e p) = pb_route p" "pb_rows (clear_arrival h e p) = pb_rows p"
  "pb_closed (clear_arrival h e p) = pb_closed p" "pb_failed (clear_arrival h e p) = pb_failed p" "pb_queue (clear_arrival h e p) = pb_queue p"
  "pb_worker (clear_arrival h e p) = pb_worker p" "pb_seen (clear_arrival h e p) = pb_seen p" "pb_generation (clear_arrival h e p) = pb_generation p"
  "pb_pending (clear_arrival h e p) = pb_pending p" "pb_futures (clear_arrival h e p) = pb_futures p"
  "pb_lock (clear_arrival h e p) = pb_lock p" "pb_waiting (clear_arrival h e p) = pb_waiting p" "pb_sent (clear_arrival h e p) = pb_sent p"
  by (simp_all add: clear_pending_def clear_arrival_def split: option.split)

lemma set_clear:
  "set (pb_pending (clear_pending h e p)) \<subseteq> set (pb_pending p)" "set (pb_arrivals (clear_arrival h e p)) \<subseteq> set (pb_arrivals p)"
  "length (pb_pending (clear_pending h e p)) \<le> length (pb_pending p)" "length (pb_arrivals (clear_arrival h e p)) \<le> length (pb_arrivals p)"
  using set_delete_subset [of h "pb_pending p"] length_delete_le [of h "pb_pending p"]
  by (auto simp: clear_pending_def clear_arrival_def split: option.split)

lemma clear_all:
  "h \<notin> fst ` set (pb_pending (clear_pending h None p))"
  "h \<notin> (fst \<circ> fst) ` set (pb_arrivals (clear_arrival h None p))"
  by (auto simp: clear_pending_def clear_arrival_def map_of_eq_None_iff AList.delete_eq split: option.split)

lemma make_debt_frame [push_frame]:
  "pb_origin (make_debt h p) = pb_origin p" "pb_route (make_debt h p) = pb_route p"
  "pb_closed (make_debt h p) = pb_closed p" "pb_failed (make_debt h p) = pb_failed p" "pb_queue (make_debt h p) = pb_queue p"
  "pb_worker (make_debt h p) = pb_worker p" "pb_seen (make_debt h p) = pb_seen p"
  "pb_futures (make_debt h p) = pb_futures p"
  "pb_lock (make_debt h p) = pb_lock p" "pb_waiting (make_debt h p) = pb_waiting p" "pb_sent (make_debt h p) = pb_sent p"
  by (simp_all add: make_debt_def push_frame split: option.split)

lemma make_debt_none: "map_of (pb_rows p) h = None \<Longrightarrow> make_debt h p = p"
  by (simp only: make_debt_def option.case)

lemma make_debt_some:
  "map_of (pb_rows p) h = Some row \<Longrightarrow> make_debt h p = clear_arrival h None (clear_pending h None
     ((set_row h (row\<lparr>pr_status := RowDebt, pr_preview := None\<rparr>) p)
        \<lparr>pb_generation := AList.update h (Suc (generation_of p h)) (pb_generation p)\<rparr>))"
  by (simp only: make_debt_def option.case)

definition debt_of :: "push_row \<Rightarrow> push_row" where
  "debt_of row = row\<lparr>pr_status := RowDebt, pr_preview := None\<rparr>"

lemma make_debt_rows:
  "map_of (pb_rows (make_debt h p)) = (\<lambda>k. if k = h then map_option debt_of (map_of (pb_rows p) h) else map_of (pb_rows p) k)"
  "map fst (pb_rows (make_debt h p)) = map fst (pb_rows p)"
proof (atomize (full), cases "map_of (pb_rows p) h")
  case None
  show "map_of (pb_rows (make_debt h p)) = (\<lambda>k. if k = h then map_option debt_of (map_of (pb_rows p) h) else map_of (pb_rows p) k)
      \<and> map fst (pb_rows (make_debt h p)) = map fst (pb_rows p)"
    unfolding make_debt_none [OF None] None by (auto simp: None fun_eq_iff simp del: map_of_eq_None_iff)
next
  case (Some row)
  have "h \<in> fst ` set (pb_rows p)" using map_of_SomeD [OF Some] by force
  then show "map_of (pb_rows (make_debt h p)) = (\<lambda>k. if k = h then map_option debt_of (map_of (pb_rows p) h) else map_of (pb_rows p) k)
      \<and> map fst (pb_rows (make_debt h p)) = map fst (pb_rows p)"
    unfolding make_debt_some [OF Some] by (simp add: push_frame debt_of_def update_conv' update_keys Some fun_eq_iff)
qed

lemma put_job_frame [push_frame]:
  "pb_origin (snd (put_job j p)) = pb_origin p" "pb_route (snd (put_job j p)) = pb_route p" "pb_rows (snd (put_job j p)) = pb_rows p"
  "pb_closed (snd (put_job j p)) = pb_closed p" "pb_failed (snd (put_job j p)) = pb_failed p"
  "pb_worker (snd (put_job j p)) = pb_worker p" "pb_seen (snd (put_job j p)) = pb_seen p" "pb_generation (snd (put_job j p)) = pb_generation p"
  "pb_pending (snd (put_job j p)) = pb_pending p" "pb_arrivals (snd (put_job j p)) = pb_arrivals p" "pb_futures (snd (put_job j p)) = pb_futures p"
  "pb_lock (snd (put_job j p)) = pb_lock p" "pb_waiting (snd (put_job j p)) = pb_waiting p" "pb_sent (snd (put_job j p)) = pb_sent p"
  by (simp_all add: put_job_def)

text \<open>What queueing changes: the queue, and the worker when it is started by it.\<close>

definition queue_step :: "push_bridge \<Rightarrow> push_bridge \<Rightarrow> bool" where
  "queue_step p q \<longleftrightarrow>
     (\<exists>jobs w. q = p\<lparr>pb_queue := pb_queue p @ jobs, pb_worker := w\<rparr> \<and> (w = pb_worker p \<or> pb_worker p = NoWorker \<and> w = WorkerIdle))
     \<and> (length (pb_queue p) \<le> QUEUE_SIZE \<longrightarrow> length (pb_queue q) \<le> QUEUE_SIZE)"

lemma queue_stepI:
  assumes "q = p\<lparr>pb_queue := pb_queue p @ jobs, pb_worker := w\<rparr>" and "w = pb_worker p \<or> pb_worker p = NoWorker \<and> w = WorkerIdle"
    and "length (pb_queue p) \<le> QUEUE_SIZE \<longrightarrow> length (pb_queue q) \<le> QUEUE_SIZE"
  shows "queue_step p q"
  using assms unfolding queue_step_def by blast

lemma queue_step_refl [simp]: "queue_step p p"
  by (rule queue_stepI [where jobs = "[]" and w = "pb_worker p"]) simp_all

lemma queue_step_trans: "queue_step p q \<Longrightarrow> queue_step q r \<Longrightarrow> queue_step p r"
proof -
  assume a: "queue_step p q" "queue_step q r"
  then obtain js w ks v where q: "q = p\<lparr>pb_queue := pb_queue p @ js, pb_worker := w\<rparr>" "w = pb_worker p \<or> pb_worker p = NoWorker \<and> w = WorkerIdle"
    and r: "r = q\<lparr>pb_queue := pb_queue q @ ks, pb_worker := v\<rparr>" "v = pb_worker q \<or> pb_worker q = NoWorker \<and> v = WorkerIdle"
    unfolding queue_step_def by blast
  show ?thesis
    by (rule queue_stepI [where jobs = "js @ ks" and w = v]) (use q r a in \<open>auto simp: queue_step_def\<close>)
qed

lemma queue_step_put: "queue_step p (snd (put_job j p))"
  by (cases "length (pb_queue p) < QUEUE_SIZE")
    (auto simp: put_job_def intro: queue_stepI [where jobs = "[j]" and w = "pb_worker p"])

lemma queue_step_fold: "(\<And>x q. queue_step q (f x q)) \<Longrightarrow> queue_step p (fold f xs p)"
  by (induction xs arbitrary: p) (auto intro: queue_step_trans)

lemma queue_step_collect: "queue_step p (collect_debts p)"
  unfolding collect_debts_def put_unregister_def by (intro queue_step_fold queue_step_put)

lemma queue_step_start: "queue_step p (push_start p)"
proof (cases "pb_worker p = NoWorker \<and> \<not> pb_closed p")
  case True
  have "queue_step p (p\<lparr>pb_worker := WorkerIdle\<rparr>)"
    by (rule queue_stepI [where jobs = "[]" and w = WorkerIdle]) (use True in simp_all)
  then show ?thesis using queue_step_trans [OF _ queue_step_collect] True by (simp add: push_start_def)
qed (auto simp: push_start_def)

lemma queue_step_enqueue: "queue_step p (snd (enqueue a h b x f p))"
  unfolding enqueue_def Let_def by (rule queue_step_trans [OF queue_step_start queue_step_put])

lemma queue_step_unregister: "queue_step p (enqueue_unregister h p)"
  unfolding enqueue_unregister_def by (rule queue_step_enqueue)

lemma queue_step_frame:
  assumes "queue_step p q"
  shows "pb_origin q = pb_origin p" "pb_route q = pb_route p" "pb_rows q = pb_rows p" "pb_closed q = pb_closed p" "pb_failed q = pb_failed p"
    "pb_seen q = pb_seen p" "pb_generation q = pb_generation p" "pb_pending q = pb_pending p" "pb_arrivals q = pb_arrivals p"
    "pb_futures q = pb_futures p" "pb_lock q = pb_lock p" "pb_waiting q = pb_waiting p" "pb_sent q = pb_sent p"
    "pb_worker q = pb_worker p \<or> pb_worker p = NoWorker \<and> pb_worker q = WorkerIdle"
  using assms unfolding queue_step_def by auto

lemma settle_frame [push_frame]:
  "pb_origin (settle_future x f p) = pb_origin p" "pb_route (settle_future x f p) = pb_route p" "pb_rows (settle_future x f p) = pb_rows p"
  "pb_closed (settle_future x f p) = pb_closed p" "pb_failed (settle_future x f p) = pb_failed p" "pb_queue (settle_future x f p) = pb_queue p"
  "pb_worker (settle_future x f p) = pb_worker p" "pb_seen (settle_future x f p) = pb_seen p" "pb_generation (settle_future x f p) = pb_generation p"
  "pb_pending (settle_future x f p) = pb_pending p" "pb_arrivals (settle_future x f p) = pb_arrivals p"
  "pb_lock (settle_future x f p) = pb_lock p" "pb_waiting (settle_future x f p) = pb_waiting p" "pb_sent (settle_future x f p) = pb_sent p"
  by (simp_all add: settle_future_def split: option.split)

lemma settle_fold_frame:
  "fold (\<lambda>job. settle_future x (jb_future job)) js p = p\<lparr>pb_futures := pb_futures (fold (\<lambda>job. settle_future x (jb_future job)) js p)\<rparr>"
proof (induction js arbitrary: p)
  case (Cons j js)
  let ?q = "settle_future x (jb_future j) p"
  have "?q = p\<lparr>pb_futures := pb_futures ?q\<rparr>" by (simp add: settle_future_def split: option.split)
  moreover have "p\<lparr>pb_futures := a, pb_futures := b\<rparr> = p\<lparr>pb_futures := b\<rparr>" for a b by simp
  ultimately show ?case using Cons [of ?q] by (metis fold_simps(2))
qed simp

lemma drop_queued_eq:
  "\<exists>fs. drop_queued h p = p\<lparr>pb_queue := filter (\<lambda>job. jb_handle job \<noteq> h) (pb_queue p), pb_futures := fs\<rparr>"
  unfolding drop_queued_def by (subst settle_fold_frame) auto

lemma drop_queued_frame [push_frame]:
  "pb_origin (drop_queued h p) = pb_origin p" "pb_route (drop_queued h p) = pb_route p" "pb_rows (drop_queued h p) = pb_rows p"
  "pb_closed (drop_queued h p) = pb_closed p" "pb_failed (drop_queued h p) = pb_failed p"
  "pb_worker (drop_queued h p) = pb_worker p" "pb_seen (drop_queued h p) = pb_seen p" "pb_generation (drop_queued h p) = pb_generation p"
  "pb_pending (drop_queued h p) = pb_pending p" "pb_arrivals (drop_queued h p) = pb_arrivals p"
  "pb_lock (drop_queued h p) = pb_lock p" "pb_waiting (drop_queued h p) = pb_waiting p" "pb_sent (drop_queued h p) = pb_sent p"
  "pb_queue (drop_queued h p) = filter (\<lambda>job. jb_handle job \<noteq> h) (pb_queue p)"
  using drop_queued_eq [of h p] by auto

lemma cancel_http_frame [push_frame]:
  "pb_origin (cancel_http h p) = pb_origin p" "pb_route (cancel_http h p) = pb_route p" "pb_rows (cancel_http h p) = pb_rows p"
  "pb_closed (cancel_http h p) = pb_closed p" "pb_failed (cancel_http h p) = pb_failed p" "pb_queue (cancel_http h p) = pb_queue p"
  "pb_seen (cancel_http h p) = pb_seen p" "pb_generation (cancel_http h p) = pb_generation p"
  "pb_pending (cancel_http h p) = pb_pending p" "pb_arrivals (cancel_http h p) = pb_arrivals p" "pb_futures (cancel_http h p) = pb_futures p"
  "pb_lock (cancel_http h p) = pb_lock p" "pb_waiting (cancel_http h p) = pb_waiting p" "pb_sent (cancel_http h p) = pb_sent p"
  by (auto simp: cancel_http_def split: push_worker.split http_phase.split)

lemma save_frame [push_frame]:
  "pb_origin (snd (push_save w p)) = pb_origin p" "pb_route (snd (push_save w p)) = pb_route p" "pb_rows (snd (push_save w p)) = pb_rows p"
  "pb_closed (snd (push_save w p)) = pb_closed p" "pb_queue (snd (push_save w p)) = pb_queue p"
  "pb_worker (snd (push_save w p)) = pb_worker p" "pb_seen (snd (push_save w p)) = pb_seen p" "pb_generation (snd (push_save w p)) = pb_generation p"
  "pb_pending (snd (push_save w p)) = pb_pending p" "pb_arrivals (snd (push_save w p)) = pb_arrivals p" "pb_futures (snd (push_save w p)) = pb_futures p"
  "pb_lock (snd (push_save w p)) = pb_lock p" "pb_waiting (snd (push_save w p)) = pb_waiting p" "pb_sent (snd (push_save w p)) = pb_sent p"
  by (simp_all add: push_save_def Let_def)

section \<open>Well-formed states\<close>

definition preview_ok :: "preview_record \<Rightarrow> bool" where
  "preview_ok r \<longleftrightarrow> decode_canonical_b64url (JStr (pv_key_id r)) 16 \<noteq> None \<and> decode_canonical_b64url (JStr (pv_key r)) 32 \<noteq> None"

definition row_shape :: "push_row \<Rightarrow> bool" where
  \<comment> \<open>only a row in preview mode that is not a debt holds a key; before closing, every such row does\<close>
  "row_shape row \<longleftrightarrow>
     (case pr_preview row of None \<Rightarrow> True | Some r \<Rightarrow> preview_ok r \<and> pr_mode row = PreviewMode \<and> pr_status row \<noteq> RowDebt)"

definition reg_ok :: "registration \<Rightarrow> bool" where
  "reg_ok rg \<longleftrightarrow> (case rg_preview rg of None \<Rightarrow> True | Some r \<Rightarrow> preview_ok r \<and> rg_mode rg = PreviewMode)"

definition routed :: "push_bridge \<Rightarrow> pystr \<Rightarrow> arrival \<Rightarrow> bool" where
  \<comment> \<open>the row a kept route belongs to\<close>
  "routed p h a \<longleftrightarrow> (\<exists>row. map_of (pb_rows p) h = Some row \<and> pr_status row = RowActive \<and> pr_device row = ar_device a \<and> pr_epoch row = ar_epoch a)"

definition rows_inv :: "push_bridge \<Rightarrow> bool" where
  "rows_inv p \<longleftrightarrow>
     od_wf (pb_rows p) \<and> length (pb_rows p) \<le> MAX_ROWS_PUSH
     \<and> (\<forall>h row. map_of (pb_rows p) h = Some row \<longrightarrow> row_shape row)
     \<and> (\<forall>h. map_of (pb_generation p) h = None \<longleftrightarrow> map_of (pb_rows p) h = None)
     \<and> (\<forall>(h, a) \<in> set (pb_pending p). routed p h a) \<and> (\<forall>((h, e), a) \<in> set (pb_arrivals p). routed p h a)"

definition lock_inv :: "push_bridge \<Rightarrow> bool" where
  "lock_inv p \<longleftrightarrow>
     (\<forall>rg \<in> set (pb_waiting p). reg_ok rg)
     \<and> (\<forall>rg h f. pb_lock p = Some (rg, h, f) \<longrightarrow>
          reg_ok rg \<and> f < length (pb_futures p) \<and> (\<forall>row. map_of (pb_rows p) h = Some row \<longrightarrow> pr_mode row = rg_mode rg))"

definition unfinished :: "http_phase \<Rightarrow> bool" where
  "unfinished phase \<longleftrightarrow> (case phase of HttpFinished _ \<Rightarrow> False | _ \<Rightarrow> True)"

lemma unfinished_simps [simp]: "unfinished HttpCreated" "unfinished HttpSent" "\<not> unfinished (HttpFinished b)"
  by (simp_all add: unfinished_def)

definition fence_inv :: "push_bridge \<Rightarrow> bool" where
  \<comment> \<open>what holds of the job the worker is sending\<close>
  "fence_inv p \<longleftrightarrow>
     (\<forall>job phase cancelled. pb_worker p = WorkerPosting job phase cancelled \<longrightarrow>
        (\<exists>row. map_of (pb_rows p) (jb_handle job) = Some row
           \<and> (jb_action job = AUnregister \<longrightarrow> map_of (pb_generation p) (jb_handle job) = Some (jb_generation job) \<longrightarrow> pr_status row = RowDebt)
           \<and> (jb_action job = AWake \<longrightarrow> \<not> cancelled \<longrightarrow> \<not> unfinished phase \<or> pr_status row = RowActive \<and> row_bound p row)))"

definition bounds_inv :: "push_bridge \<Rightarrow> bool" where
  "bounds_inv p \<longleftrightarrow>
     length (pb_queue p) \<le> QUEUE_SIZE \<and> length (pb_pending p) \<le> MAX_PENDING_ROUTES
     \<and> length (pb_arrivals p) \<le> MAX_PENDING_ROUTES \<and> length (pb_seen p) \<le> 256"

definition push_inv :: "push_bridge \<Rightarrow> bool" where
  "push_inv p \<longleftrightarrow> rows_inv p \<and> lock_inv p \<and> fence_inv p \<and> bounds_inv p"

lemma fence_idle: "(\<forall>job ph c. pb_worker p \<noteq> WorkerPosting job ph c) \<Longrightarrow> fence_inv p"
  by (simp add: fence_inv_def)

text \<open>The invariant reads only these fields.\<close>

lemma push_inv_cong:
  assumes "pb_rows q = pb_rows p" and "pb_generation q = pb_generation p" and "pb_pending q = pb_pending p" and "pb_arrivals q = pb_arrivals p"
    and "pb_lock q = pb_lock p" and "pb_waiting q = pb_waiting p" and "length (pb_futures q) = length (pb_futures p)"
    and "pb_origin q = pb_origin p" and "pb_route q = pb_route p" and "pb_seen q = pb_seen p"
    and "pb_worker q = pb_worker p \<or> (\<forall>job ph c. pb_worker q \<noteq> WorkerPosting job ph c)"
    and "length (pb_queue q) \<le> QUEUE_SIZE" and "push_inv p"
  shows "push_inv q"
proof -
  have "row_bound q = row_bound p" using assms(8,9) by (simp add: row_bound_def fun_eq_iff)
  moreover have "routed q = routed p" using assms(1) by (simp add: routed_def fun_eq_iff)
  moreover have "fence_inv q"
  proof (cases "pb_worker q = pb_worker p")
    case True
    then show ?thesis using assms(13) calculation by (simp add: push_inv_def fence_inv_def assms(1,2))
  qed (use assms(11) fence_idle in blast)
  ultimately show ?thesis using assms(12,13) unfolding push_inv_def rows_inv_def lock_inv_def bounds_inv_def
    by (simp add: assms(1-7,10))
qed

lemma queue_step_inv:
  assumes "queue_step p q" and "push_inv p"
  shows "push_inv q"
proof (rule push_inv_cong [of q p])
  note f = queue_step_frame [OF assms(1)]
  show "pb_worker q = pb_worker p \<or> (\<forall>job ph c. pb_worker q \<noteq> WorkerPosting job ph c)" using f(14) by auto
  show "length (pb_queue q) \<le> QUEUE_SIZE" using assms by (auto simp: queue_step_def push_inv_def bounds_inv_def)
qed (use assms queue_step_frame [OF assms(1)] in simp_all)

lemma save_inv: "push_inv (snd (push_save w p)) \<longleftrightarrow> push_inv p"
proof
  have "length (pb_queue p) \<le> QUEUE_SIZE" if "push_inv q" "pb_queue q = pb_queue p" for q
    using that by (simp add: push_inv_def bounds_inv_def)
  then show "push_inv p \<Longrightarrow> push_inv (snd (push_save w p))" "push_inv (snd (push_save w p)) \<Longrightarrow> push_inv p"
    using push_inv_cong [of "snd (push_save w p)" p] push_inv_cong [of p "snd (push_save w p)"] by (auto simp: push_frame)
qed

lemma settle_inv: "push_inv p \<Longrightarrow> push_inv (settle_future x f p)"
proof (rule push_inv_cong [of _ p])
  show "length (pb_futures (settle_future x f p)) = length (pb_futures p)"
    by (simp add: settle_future_def split: option.split)
qed (auto simp: push_frame push_inv_def bounds_inv_def)

lemma settle_fold_inv: "push_inv p \<Longrightarrow> push_inv (fold (\<lambda>job. settle_future x (jb_future job)) js p)"
  by (induction js arbitrary: p) (auto intro: settle_inv)

lemma push_inv_queue: "push_inv p \<Longrightarrow> length js \<le> QUEUE_SIZE \<Longrightarrow> push_inv (p\<lparr>pb_queue := js\<rparr>)"
  by (rule push_inv_cong [of _ p]) simp_all

lemma drop_queued_inv: "push_inv p \<Longrightarrow> push_inv (drop_queued h p)"
  unfolding drop_queued_def
  by (intro settle_fold_inv push_inv_queue) (auto simp: push_inv_def bounds_inv_def intro: order_trans [OF length_filter_le])

lemma make_debt_routes:
  assumes "map_of (pb_rows p) h = Some row"
  shows "set (pb_pending (make_debt h p)) = {(k, a) \<in> set (pb_pending p). k \<noteq> h}"
    and "set (pb_arrivals (make_debt h p)) = {((k, e), a) \<in> set (pb_arrivals p). k \<noteq> h}"
    and "length (pb_pending (make_debt h p)) \<le> length (pb_pending p)" and "length (pb_arrivals (make_debt h p)) \<le> length (pb_arrivals p)"
  unfolding make_debt_some [OF assms] using length_delete_le [of h "pb_pending p"]
  by (auto simp: push_frame clear_pending_def clear_arrival_def AList.delete_eq map_of_eq_None_iff image_iff split: option.splits)

lemma make_debt_generation:
  "map_of (pb_rows p) h = Some row \<Longrightarrow>
     map_of (pb_generation (make_debt h p)) k = (if k = h then Some (Suc (generation_of p h)) else map_of (pb_generation p) k)"
  by (simp add: make_debt_some push_frame update_conv')

lemma make_debt_rows_inv: "rows_inv p \<Longrightarrow> rows_inv (make_debt h p)"
proof (cases "map_of (pb_rows p) h")
  case None
  then show "rows_inv p \<Longrightarrow> ?thesis" by (simp only: make_debt_none)
next
  case (Some row)
  assume inv: "rows_inv p"
  have len: "length (pb_rows (make_debt h p)) = length (pb_rows p)" using make_debt_rows(2) [of h p] by (metis length_map)
  have r: "routed (make_debt h p) k a" if "routed p k a" "k \<noteq> h" for k a
    using that by (auto simp: routed_def make_debt_rows)
  have "\<forall>(k, a) \<in> set (pb_pending (make_debt h p)). routed (make_debt h p) k a"
    using inv r unfolding make_debt_routes(1) [OF Some] rows_inv_def by blast
  moreover have "\<forall>((k, e), a) \<in> set (pb_arrivals (make_debt h p)). routed (make_debt h p) k a"
    using inv r unfolding make_debt_routes(2) [OF Some] rows_inv_def by blast
  moreover have "row_shape (debt_of row)" by (simp add: row_shape_def debt_of_def)
  moreover have "\<forall>k. map_of (pb_generation (make_debt h p)) k = None \<longleftrightarrow> map_of (pb_rows (make_debt h p)) k = None"
    using inv Some unfolding rows_inv_def make_debt_rows make_debt_generation [OF Some] by simp
  ultimately show ?thesis
    using inv Some unfolding rows_inv_def make_debt_rows len by simp
qed

lemma make_debt_lock_inv: "lock_inv p \<Longrightarrow> lock_inv (make_debt h p)"
  by (auto simp: lock_inv_def push_frame make_debt_rows debt_of_def split: option.splits)

lemma make_debt_bounds_inv: "bounds_inv p \<Longrightarrow> bounds_inv (make_debt h p)"
proof (cases "map_of (pb_rows p) h")
  case None
  then show "bounds_inv p \<Longrightarrow> ?thesis" by (simp only: make_debt_none)
next
  case (Some row)
  show "bounds_inv p \<Longrightarrow> ?thesis" using make_debt_routes(3,4) [OF Some] by (simp add: bounds_inv_def push_frame)
qed

lemma make_debt_bound: "row_bound (make_debt h p) = row_bound p"
  by (simp add: row_bound_def push_frame fun_eq_iff)

lemma make_debt_inv:
  assumes inv: "push_inv p" and row: "map_of (pb_rows p) h = Some row"
    and ok: "pr_status row = RowPending \<or> (\<forall>job ph. pb_worker p = WorkerPosting job ph False \<longrightarrow> jb_handle job = h \<longrightarrow> jb_action job \<noteq> AWake)"
  shows "push_inv (make_debt h p)"
proof -
  let ?q = "make_debt h p"
  have "fence_inv ?q" unfolding fence_inv_def push_frame
  proof (intro allI impI)
    fix job ph c assume w: "pb_worker p = WorkerPosting job ph c"
    from inv w obtain r where r: "map_of (pb_rows p) (jb_handle job) = Some r"
      "jb_action job = AUnregister \<longrightarrow> map_of (pb_generation p) (jb_handle job) = Some (jb_generation job) \<longrightarrow> pr_status r = RowDebt"
      "jb_action job = AWake \<longrightarrow> \<not> c \<longrightarrow> \<not> unfinished ph \<or> pr_status r = RowActive \<and> row_bound p r"
      unfolding push_inv_def fence_inv_def by blast
    show "\<exists>r'. map_of (pb_rows ?q) (jb_handle job) = Some r'
        \<and> (jb_action job = AUnregister \<longrightarrow> map_of (pb_generation ?q) (jb_handle job) = Some (jb_generation job) \<longrightarrow> pr_status r' = RowDebt)
        \<and> (jb_action job = AWake \<longrightarrow> \<not> c \<longrightarrow> \<not> unfinished ph \<or> pr_status r' = RowActive \<and> row_bound ?q r')"
    proof (cases "jb_handle job = h")
      case True
      then have "jb_action job = AWake \<longrightarrow> \<not> c \<longrightarrow> \<not> unfinished ph" using ok r row w by auto
      then show ?thesis using True r by (simp add: make_debt_rows debt_of_def)
    next
      case False
      then show ?thesis using r by (simp add: make_debt_rows make_debt_bound make_debt_generation [OF row])
    qed
  qed
  then show ?thesis
    using inv make_debt_rows_inv make_debt_lock_inv make_debt_bounds_inv by (simp add: push_inv_def)
qed

lemma rows_inv_cong:
  "pb_rows q = pb_rows p \<Longrightarrow> pb_generation q = pb_generation p \<Longrightarrow> pb_pending q = pb_pending p \<Longrightarrow> pb_arrivals q = pb_arrivals p
     \<Longrightarrow> rows_inv q \<longleftrightarrow> rows_inv p"
  unfolding rows_inv_def routed_def by simp

lemma lock_inv_cong:
  "pb_rows q = pb_rows p \<Longrightarrow> pb_lock q = pb_lock p \<Longrightarrow> pb_waiting q = pb_waiting p \<Longrightarrow> length (pb_futures q) = length (pb_futures p)
     \<Longrightarrow> lock_inv q \<longleftrightarrow> lock_inv p"
  unfolding lock_inv_def by simp

lemma bounds_inv_cong:
  "pb_queue q = pb_queue p \<Longrightarrow> pb_pending q = pb_pending p \<Longrightarrow> pb_arrivals q = pb_arrivals p \<Longrightarrow> pb_seen q = pb_seen p
     \<Longrightarrow> bounds_inv q \<longleftrightarrow> bounds_inv p"
  unfolding bounds_inv_def by simp

lemma cancel_worker_eq:
  "pb_worker (cancel_http h p) =
     (case pb_worker p of
        WorkerPosting job ph c \<Rightarrow> WorkerPosting job ph (c \<or> jb_handle job = h \<and> unfinished ph)
      | w \<Rightarrow> w)"
proof (cases "pb_worker p")
  case (WorkerPosting job ph c)
  then show ?thesis by (cases ph) (simp_all add: cancel_http_def)
qed (simp_all add: cancel_http_def)

lemma cancel_worker:
  assumes "pb_worker (cancel_http h p) = WorkerPosting job ph c"
  shows "\<exists>c'. pb_worker p = WorkerPosting job ph c' \<and> c = (c' \<or> jb_handle job = h \<and> unfinished ph)"
  using assms unfolding cancel_worker_eq by (cases "pb_worker p") auto

lemma cancel_http_inv: "push_inv p \<Longrightarrow> push_inv (cancel_http h p)"
proof -
  assume inv: "push_inv p"
  have b: "row_bound (cancel_http h p) = row_bound p" by (simp add: row_bound_def push_frame fun_eq_iff)
  have "fence_inv (cancel_http h p)" unfolding fence_inv_def push_frame b
  proof (intro allI impI)
    fix job ph c assume "pb_worker (cancel_http h p) = WorkerPosting job ph c"
    then obtain c' where w: "pb_worker p = WorkerPosting job ph c'" "c' \<longrightarrow> c" using cancel_worker [of h p job ph c] by blast
    obtain r where "map_of (pb_rows p) (jb_handle job) = Some r"
      "jb_action job = AUnregister \<longrightarrow> map_of (pb_generation p) (jb_handle job) = Some (jb_generation job) \<longrightarrow> pr_status r = RowDebt"
      "jb_action job = AWake \<longrightarrow> \<not> c' \<longrightarrow> \<not> unfinished ph \<or> pr_status r = RowActive \<and> row_bound p r"
      using inv w(1) unfolding push_inv_def fence_inv_def by blast
    then show "\<exists>row. map_of (pb_rows p) (jb_handle job) = Some row
        \<and> (jb_action job = AUnregister \<longrightarrow> map_of (pb_generation p) (jb_handle job) = Some (jb_generation job) \<longrightarrow> pr_status row = RowDebt)
        \<and> (jb_action job = AWake \<longrightarrow> \<not> c \<longrightarrow> \<not> unfinished ph \<or> pr_status row = RowActive \<and> row_bound p row)"
      using w(2) by auto
  qed
  then show ?thesis using inv rows_inv_cong [of "cancel_http h p" p] lock_inv_cong [of "cancel_http h p" p] bounds_inv_cong [of "cancel_http h p" p]
    by (simp add: push_inv_def push_frame)
qed

lemma retire_inv:
  assumes "push_inv p"
  shows "push_inv (retire h p)"
proof -
  let ?q = "drop_queued h p"
  let ?d = "make_debt h ?q"
  have q: "push_inv ?q" by (rule drop_queued_inv [OF assms])
  show ?thesis
  proof (cases "map_of (pb_rows ?q) h")
    case None
    show ?thesis unfolding retire_def make_debt_none [OF None] by (rule cancel_http_inv [OF q])
  next
    case (Some row)
    have b: "row_bound (cancel_http h ?d) = row_bound ?q" by (simp add: row_bound_def push_frame fun_eq_iff)
    have "fence_inv (cancel_http h ?d)" unfolding fence_inv_def b push_frame
    proof (intro allI impI)
      fix job ph c assume w: "pb_worker (cancel_http h ?d) = WorkerPosting job ph c"
      obtain c' where w': "pb_worker ?q = WorkerPosting job ph c'" "c = (c' \<or> jb_handle job = h \<and> unfinished ph)"
        using cancel_worker [OF w] by (auto simp: push_frame)
      obtain r where r: "map_of (pb_rows ?q) (jb_handle job) = Some r"
        "jb_action job = AUnregister \<longrightarrow> map_of (pb_generation ?q) (jb_handle job) = Some (jb_generation job) \<longrightarrow> pr_status r = RowDebt"
        "jb_action job = AWake \<longrightarrow> \<not> c' \<longrightarrow> \<not> unfinished ph \<or> pr_status r = RowActive \<and> row_bound ?q r"
        using q w'(1) unfolding push_inv_def fence_inv_def by blast
      show "\<exists>r'. map_of (pb_rows ?d) (jb_handle job) = Some r'
          \<and> (jb_action job = AUnregister \<longrightarrow> map_of (pb_generation ?d) (jb_handle job) = Some (jb_generation job) \<longrightarrow> pr_status r' = RowDebt)
          \<and> (jb_action job = AWake \<longrightarrow> \<not> c \<longrightarrow> \<not> unfinished ph \<or> pr_status r' = RowActive \<and> row_bound ?q r')"
      proof (cases "jb_handle job = h")
        case True
        then have "\<not> c \<longrightarrow> \<not> unfinished ph" using w'(2) by blast
        then show ?thesis using True r by (simp add: make_debt_rows debt_of_def)
      next
        case False
        then show ?thesis using r w'(2) by (auto simp: make_debt_rows make_debt_generation [OF Some])
      qed
    qed
    moreover have "rows_inv ?d" "lock_inv ?d" "bounds_inv ?d"
      using q make_debt_rows_inv make_debt_lock_inv make_debt_bounds_inv by (auto simp: push_inv_def)
    ultimately show ?thesis
      using rows_inv_cong [of "cancel_http h ?d" ?d] lock_inv_cong [of "cancel_http h ?d" ?d] bounds_inv_cong [of "cancel_http h ?d" ?d]
      by (simp add: retire_def push_inv_def push_frame)
  qed
qed

lemma push_fold_inv: "(\<And>x q. push_inv q \<Longrightarrow> push_inv (f x q)) \<Longrightarrow> push_inv p \<Longrightarrow> push_inv (fold f xs p)"
  by (induction xs arbitrary: p) auto

lemma routes_inv:
  assumes inv: "push_inv p" and "\<forall>(h, a) \<in> set P. routed p h a" and "\<forall>((h, e), a) \<in> set A. routed p h a"
    and "length P \<le> MAX_PENDING_ROUTES" and "length A \<le> MAX_PENDING_ROUTES"
  shows "push_inv (p\<lparr>pb_pending := P, pb_arrivals := A\<rparr>)"
proof -
  let ?q = "p\<lparr>pb_pending := P, pb_arrivals := A\<rparr>"
  have "routed ?q = routed p" "row_bound ?q = row_bound p" by (simp_all add: routed_def row_bound_def fun_eq_iff)
  then show ?thesis
    using assms unfolding push_inv_def rows_inv_def lock_inv_def fence_inv_def bounds_inv_def by simp
qed

lemma inv_routes:
  "push_inv p \<Longrightarrow> \<forall>(h, a) \<in> set (pb_pending p). routed p h a" "push_inv p \<Longrightarrow> \<forall>((h, e), a) \<in> set (pb_arrivals p). routed p h a"
  "push_inv p \<Longrightarrow> length (pb_pending p) \<le> MAX_PENDING_ROUTES" "push_inv p \<Longrightarrow> length (pb_arrivals p) \<le> MAX_PENDING_ROUTES"
  by (simp_all add: push_inv_def rows_inv_def bounds_inv_def)

lemma fewer_routes_inv:
  assumes "push_inv p" and "set P \<subseteq> set (pb_pending p)" and "set A \<subseteq> set (pb_arrivals p)"
    and "length P \<le> length (pb_pending p)" and "length A \<le> length (pb_arrivals p)"
  shows "push_inv (p\<lparr>pb_pending := P, pb_arrivals := A\<rparr>)"
  by (rule routes_inv) (use assms inv_routes [OF assms(1)] in \<open>auto dest!: subsetD\<close>)

lemma prune_inv: "push_inv p \<Longrightarrow> push_inv (prune_pending now p)"
  unfolding prune_pending_def by (rule fewer_routes_inv) auto

lemma set_row_inv:
  assumes inv: "push_inv p" and old: "map_of (pb_rows p) h = Some old" and shape: "row_shape new"
    and same: "pr_device new = pr_device old" "pr_epoch new = pr_epoch old" "pr_mode new = pr_mode old"
      "pr_origin new = pr_origin old" "pr_route new = pr_route old"
    and status: "pr_status old = RowActive \<longrightarrow> pr_status new = RowActive" "pr_status old = RowDebt \<longrightarrow> pr_status new = RowDebt"
  shows "push_inv (set_row h new p)"
proof -
  let ?q = "set_row h new p"
  have m: "map_of (pb_rows ?q) = (map_of (pb_rows p))(h \<mapsto> new)" by (simp add: push_frame update_conv')
  have b: "row_bound ?q r = row_bound p r" for r by (simp add: row_bound_def push_frame)
  have nb: "row_bound p new = row_bound p old" using same by (simp add: row_bound_def)
  have r: "routed p k a \<Longrightarrow> routed ?q k a" for k a
    using old same status by (auto simp: routed_def m)
  have ri: "rows_inv p" using inv by (simp add: push_inv_def)
  have "rows_inv ?q" unfolding rows_inv_def
  proof (intro conjI)
    show "od_wf (pb_rows ?q)" "length (pb_rows ?q) \<le> MAX_ROWS_PUSH"
      using ri by (simp_all add: rows_inv_def push_frame distinct_update length_update_old [OF old])
    show "\<forall>k row. map_of (pb_rows ?q) k = Some row \<longrightarrow> row_shape row" using ri shape unfolding m rows_inv_def by auto
    show "\<forall>k. map_of (pb_generation ?q) k = None \<longleftrightarrow> map_of (pb_rows ?q) k = None"
      using ri old unfolding rows_inv_def by (auto simp: push_frame update_conv')
    show "\<forall>(k, a) \<in> set (pb_pending ?q). routed ?q k a" "\<forall>((k, e), a) \<in> set (pb_arrivals ?q). routed ?q k a"
      using ri r unfolding push_frame rows_inv_def by blast+
  qed
  moreover have "lock_inv ?q" using inv same old unfolding push_inv_def lock_inv_def m by (auto simp: push_frame)
  moreover have "fence_inv ?q"
    using inv old status nb unfolding push_inv_def fence_inv_def m b by (auto simp: push_frame)
  moreover have "bounds_inv ?q" using inv bounds_inv_cong [of ?q p] by (simp add: push_inv_def push_frame)
  ultimately show ?thesis by (simp add: push_inv_def)
qed

section \<open>Every operation keeps the invariant\<close>

lemma queued_inv:
  "push_inv p \<Longrightarrow> push_inv (push_start p)" "push_inv p \<Longrightarrow> push_inv (snd (enqueue a h b x f p))"
  "push_inv p \<Longrightarrow> push_inv (enqueue_unregister h p)" "push_inv p \<Longrightarrow> push_inv (collect_debts p)"
  by (blast intro: queue_step_inv queue_step_start queue_step_enqueue queue_step_unregister queue_step_collect)+

lemma revoke_inv: "push_inv p \<Longrightarrow> push_inv (snd (push_revoke w device ep p))"
proof -
  assume inv: "push_inv p"
  let ?p1 = "fold retire (device_handles device ep p) p"
  have 1: "push_inv ?p1" by (rule push_fold_inv [OF retire_inv inv])
  have "push_inv (snd (push_save w ?p1))" using 1 by (simp add: save_inv)
  then show ?thesis using 1 push_fold_inv [OF queued_inv(3)]
    by (auto simp: push_revoke_def Let_def split: prod.splits sum.splits)
qed

lemma resolve_inv: "push_inv p \<Longrightarrow> push_inv (snd (push_inspect auth now d e h ev p))" "push_inv p \<Longrightarrow> push_inv (snd (push_resolve auth now d e h p))"
proof -
  assume inv: "push_inv p"
  have 1: "push_inv (prune_pending now p)" by (rule prune_inv [OF inv])
  then show "push_inv (snd (push_inspect auth now d e h ev p))" by (simp add: push_inspect_def Let_def split: option.split)
  have "push_inv (q\<lparr>pb_pending := AList.delete h (pb_pending q)\<rparr>)" if "push_inv q" for q
    using fewer_routes_inv [OF that set_delete_subset [of h "pb_pending q"] subset_refl length_delete_le order_refl] by simp
  then show "push_inv (snd (push_resolve auth now d e h p))" using 1 by (simp add: push_resolve_def Let_def split: option.split)
qed

lemma new_row_inv:
  assumes inv: "push_inv p" and fresh: "map_of (pb_rows p) h = None" and room: "length (pb_rows p) < MAX_ROWS_PUSH" and shape: "row_shape row"
    and lock: "pb_lock p = None"
  shows "push_inv ((set_row h row p)\<lparr>pb_generation := AList.update h 0 (pb_generation p)\<rparr>)"
proof -
  let ?q = "(set_row h row p)\<lparr>pb_generation := AList.update h 0 (pb_generation p)\<rparr>"
  have m: "map_of (pb_rows ?q) = (map_of (pb_rows p))(h \<mapsto> row)" "map_of (pb_generation ?q) = (map_of (pb_generation p))(h \<mapsto> 0)"
    by (simp_all add: push_frame update_conv')
  have b: "row_bound ?q r = row_bound p r" for r by (simp add: row_bound_def push_frame)
  have r: "routed p k a \<Longrightarrow> routed ?q k a" for k a using fresh by (auto simp: routed_def push_frame update_conv')
  have ri: "rows_inv p" using inv by (simp add: push_inv_def)
  have "rows_inv ?q" unfolding rows_inv_def
  proof (intro conjI)
    show "od_wf (pb_rows ?q)" "length (pb_rows ?q) \<le> MAX_ROWS_PUSH"
      using ri room by (simp_all add: rows_inv_def push_frame distinct_update length_update_new [OF fresh])
    show "\<forall>k row. map_of (pb_rows ?q) k = Some row \<longrightarrow> row_shape row" using ri shape unfolding m rows_inv_def by auto
    show "\<forall>k. map_of (pb_generation ?q) k = None \<longleftrightarrow> map_of (pb_rows ?q) k = None" using ri unfolding m rows_inv_def by auto
    have same: "pb_pending ?q = pb_pending p" "pb_arrivals ?q = pb_arrivals p" by (simp_all add: push_frame)
    show "\<forall>(k, a) \<in> set (pb_pending ?q). routed ?q k a" "\<forall>((k, e), a) \<in> set (pb_arrivals ?q). routed ?q k a"
      using ri r unfolding same rows_inv_def by blast+
  qed
  moreover have "lock_inv ?q" using inv lock unfolding push_inv_def lock_inv_def m by (simp add: push_frame)
  moreover have "fence_inv ?q"
    unfolding fence_inv_def b
  proof (intro allI impI)
    fix job ph c assume "pb_worker ?q = WorkerPosting job ph c"
    then obtain old where "map_of (pb_rows p) (jb_handle job) = Some old"
      "jb_action job = AUnregister \<longrightarrow> map_of (pb_generation p) (jb_handle job) = Some (jb_generation job) \<longrightarrow> pr_status old = RowDebt"
      "jb_action job = AWake \<longrightarrow> \<not> c \<longrightarrow> \<not> unfinished ph \<or> pr_status old = RowActive \<and> row_bound p old"
      using inv unfolding push_inv_def fence_inv_def by (auto simp: push_frame)
    moreover from this have "jb_handle job \<noteq> h" using fresh by auto
    ultimately show "\<exists>row'. map_of (pb_rows ?q) (jb_handle job) = Some row'
        \<and> (jb_action job = AUnregister \<longrightarrow> map_of (pb_generation ?q) (jb_handle job) = Some (jb_generation job) \<longrightarrow> pr_status row' = RowDebt)
        \<and> (jb_action job = AWake \<longrightarrow> \<not> c \<longrightarrow> \<not> unfinished ph \<or> pr_status row' = RowActive \<and> row_bound p row')"
      unfolding m by simp
  qed
  moreover have "bounds_inv ?q" using inv bounds_inv_cong [of ?q p] by (simp add: push_inv_def push_frame)
  ultimately show ?thesis by (simp add: push_inv_def)
qed

lemma lock_change_inv:
  assumes "push_inv p" and "\<And>rg h f. l = Some (rg, h, f) \<Longrightarrow>
      reg_ok rg \<and> f < length fs \<and> (\<forall>row. map_of (pb_rows p) h = Some row \<longrightarrow> pr_mode row = rg_mode rg)"
    and "\<And>rg. rg \<in> set ws \<Longrightarrow> reg_ok rg"
  shows "push_inv (p\<lparr>pb_lock := l, pb_waiting := ws, pb_futures := fs\<rparr>)"
proof -
  let ?q = "p\<lparr>pb_lock := l, pb_waiting := ws, pb_futures := fs\<rparr>"
  have "row_bound ?q = row_bound p" by (simp add: row_bound_def fun_eq_iff)
  then have "fence_inv ?q" using assms(1) by (simp add: push_inv_def fence_inv_def)
  moreover have "lock_inv ?q" using assms(2,3) by (auto simp: lock_inv_def)
  moreover have "rows_inv ?q" "bounds_inv ?q"
    using assms(1) rows_inv_cong [of ?q p] bounds_inv_cong [of ?q p] by (simp_all add: push_inv_def)
  ultimately show ?thesis by (simp add: push_inv_def)
qed

lemma waiting_ok: "push_inv p \<Longrightarrow> rg \<in> set (pb_waiting p) \<Longrightarrow> reg_ok rg"
  by (simp add: push_inv_def lock_inv_def)

lemma reg_row_shape: "reg_ok rg \<Longrightarrow> row_shape (pending_row rg p)"
  by (auto simp: reg_ok_def row_shape_def pending_row_def split: option.splits)

lemma idempotent_handle_row:
  "idempotent_handle rg r rows = Inr (Some h) \<Longrightarrow> \<exists>row. (h, row) \<in> set rows \<and> pr_mode row = PreviewMode"
  by (induction rg r rows rule: idempotent_handle.induct) (auto split: if_splits option.splits)

lemma register_row_inv:
  assumes inv: "push_inv p" and ok: "reg_ok rg" and fresh: "map_of (pb_rows p) draw = None" and lock: "pb_lock p = None"
  shows "push_inv (snd (register_row w draw rg p)) \<and> pb_lock (snd (register_row w draw rg p)) = None
     \<and> (\<forall>h row. fst (register_row w draw rg p) = Inr h \<longrightarrow> map_of (pb_rows (snd (register_row w draw rg p))) h = Some row \<longrightarrow> pr_mode row = rg_mode rg)"
proof (cases "find_handle rg p")
  case (Inl e)
  then show ?thesis using inv lock by (simp add: register_row_def)
next
  case (Inr r)
  show ?thesis
  proof (cases r)
    case (Some h)
    then obtain pv row where "rg_preview rg = Some pv" and row: "(h, row) \<in> set (pb_rows p)" "pr_mode row = PreviewMode"
      using Inr idempotent_handle_row by (fastforce simp: find_handle_def split: option.splits)
    moreover have "map_of (pb_rows p) h = Some row"
      using row(1) inv by (intro map_of_is_SomeI) (simp_all add: push_inv_def rows_inv_def)
    ultimately show ?thesis using Inr Some inv lock ok by (simp add: register_row_def reg_ok_def)
  next
    case None
    let ?n = "(set_row draw (pending_row rg p) p)\<lparr>pb_generation := AList.update draw 0 (pb_generation p)\<rparr>"
    have "length (pb_rows p) < MAX_ROWS_PUSH \<Longrightarrow> push_inv ?n"
      by (rule new_row_inv [OF inv fresh _ reg_row_shape [OF ok] lock])
    moreover have "map_of (pb_rows ?n) draw = Some (pending_row rg p)" by (simp add: push_frame update_conv')
    ultimately show ?thesis
      using None Inr inv lock save_inv [of w ?n]
      by (auto simp: register_row_def push_save_def Let_def pending_row_def push_frame split: if_splits)
  qed
qed

lemma register_refused_inv: "push_inv p \<Longrightarrow> push_inv (snd (register_refused w h p))"
proof (cases "map_of (pb_rows p) h")
  case (Some row)
  assume inv: "push_inv p"
  have "pr_status row = RowPending \<Longrightarrow> push_inv (make_debt h p)" by (rule make_debt_inv [OF inv Some]) simp
  then show ?thesis using inv Some save_inv [of w "make_debt h p"]
    by (auto simp: register_refused_def split: prod.splits sum.splits)
qed (simp add: register_refused_def)

lemma queued_frame:
  "pb_rows (push_start p) = pb_rows p" "pb_lock (push_start p) = pb_lock p" "pb_waiting (push_start p) = pb_waiting p"
  "pb_futures (push_start p) = pb_futures p" "pb_rows (snd (enqueue a h b x f p)) = pb_rows p"
  "pb_lock (snd (enqueue a h b x f p)) = pb_lock p" "pb_waiting (snd (enqueue a h b x f p)) = pb_waiting p"
  "pb_futures (snd (enqueue a h b x f p)) = pb_futures p"
  using queue_step_frame [OF queue_step_start [of p]] queue_step_frame [OF queue_step_enqueue [of p a h b x f]] by simp_all

lemma register_locked_inv:
  assumes inv: "push_inv p" and ok: "reg_ok rg" and fresh: "map_of (pb_rows p) draw = None" and lock: "pb_lock p = None"
  shows "push_inv (snd (register_locked w draw rg p))"
proof -
  let ?p0 = "push_start p"
  have p0: "push_inv ?p0" "map_of (pb_rows ?p0) draw = None" "pb_lock ?p0 = None"
    using queued_inv(1) [OF inv] fresh lock by (simp_all add: queued_frame)
  note r = register_row_inv [OF p0(1) ok p0(2,3), of w]
  obtain res p1 where p1: "register_row w draw rg ?p0 = (res, p1)" by (cases "register_row w draw rg ?p0")
  show ?thesis
  proof (cases res)
    case (Inl e)
    then show ?thesis using r p1 by (simp add: register_locked_def)
  next
    case (Inr h)
    let ?p2 = "p1\<lparr>pb_futures := pb_futures p1 @ [FuturePending]\<rparr>"
    have p1': "push_inv p1" "pb_lock p1 = None" "\<And>row. map_of (pb_rows p1) h = Some row \<Longrightarrow> pr_mode row = rg_mode rg"
      using r p1 Inr by auto
    have "push_inv (p1\<lparr>pb_lock := pb_lock p1, pb_waiting := pb_waiting p1, pb_futures := pb_futures p1 @ [FuturePending]\<rparr>)"
      by (rule lock_change_inv [OF p1'(1)]) (use p1'(2) waiting_ok [OF p1'(1)] in auto)
    then have p2: "push_inv ?p2" by simp
    obtain b p3 where e: "enqueue ARegister h (register_fields rg) None (Some (length (pb_futures p1))) ?p2 = (b, p3)"
      by (cases "enqueue ARegister h (register_fields rg) None (Some (length (pb_futures p1))) ?p2")
    then have "p3 = snd (enqueue ARegister h (register_fields rg) None (Some (length (pb_futures p1))) ?p2)" by simp
    then have p3: "push_inv p3" "pb_rows p3 = pb_rows p1" "pb_futures p3 = pb_futures p1 @ [FuturePending]"
      by (simp_all add: queued_inv(2) [OF p2] queued_frame)
    have "push_inv (p3\<lparr>pb_lock := Some (rg, h, length (pb_futures p1)), pb_waiting := pb_waiting p3, pb_futures := pb_futures p3\<rparr>)"
      by (rule lock_change_inv [OF p3(1)]) (use p1'(3) p3 ok waiting_ok [OF p3(1)] in auto)
    then show ?thesis
      using p1 Inr e register_refused_inv [OF p3(1), of w h] by (simp add: register_locked_def Let_def split: bool.split)
  qed
qed

definition draw_fresh :: "push_event \<Rightarrow> push_bridge \<Rightarrow> bool" where
  \<comment> \<open>32 fresh random bytes are not a handle in use\<close>
  "draw_fresh e p \<longleftrightarrow>
     (case e of EDispatch _ _ _ draw _ _ _ _ \<Rightarrow> map_of (pb_rows p) draw = None | ENext _ draw \<Rightarrow> map_of (pb_rows p) draw = None | _ \<Rightarrow> True)"

definition fresh_step :: "push_event \<Rightarrow> push_bridge \<Rightarrow> push_bridge" where
  "fresh_step e p = (if draw_fresh e p then push_step e p else p)"

lemma register_call_inv:
  assumes "push_inv p" and "reg_ok rg" and "map_of (pb_rows p) draw = None"
  shows "push_inv (snd (register_call w draw rg p))"
proof (cases "pb_lock p = None \<and> pb_waiting p = []")
  case True
  then show ?thesis using register_locked_inv [OF assms] by (simp add: register_call_def)
next
  case False
  have "push_inv (p\<lparr>pb_lock := pb_lock p, pb_waiting := pb_waiting p @ [rg], pb_futures := pb_futures p\<rparr>)"
    by (rule lock_change_inv [OF assms(1)]) (use assms in \<open>auto simp: push_inv_def lock_inv_def\<close>)
  then show ?thesis using False by (auto simp: register_call_def)
qed

lemma register_next_inv:
  assumes inv: "push_inv p" and "map_of (pb_rows p) draw = None"
  shows "push_inv (snd (register_next w draw p))"
proof (cases "pb_lock p = None \<and> pb_waiting p \<noteq> []")
  case True
  then obtain rg ws where ws: "pb_waiting p = rg # ws" by (cases "pb_waiting p") auto
  have "push_inv (p\<lparr>pb_lock := pb_lock p, pb_waiting := ws, pb_futures := pb_futures p\<rparr>)"
    by (rule lock_change_inv [OF inv]) (use True ws waiting_ok [OF inv] in auto)
  then have "push_inv (p\<lparr>pb_waiting := ws\<rparr>)" by simp
  then have "push_inv (snd (register_locked w draw rg (p\<lparr>pb_waiting := ws\<rparr>)))"
    by (rule register_locked_inv) (use True ws assms(2) waiting_ok [OF inv] in simp_all)
  then show ?thesis using True ws by (simp add: register_next_def)
qed (use inv in \<open>auto simp: register_next_def split: option.split list.split\<close>)

lemma unlock_inv: "push_inv p \<Longrightarrow> push_inv (p\<lparr>pb_lock := None\<rparr>)"
proof -
  assume inv: "push_inv p"
  have "push_inv (p\<lparr>pb_lock := None, pb_waiting := pb_waiting p, pb_futures := pb_futures p\<rparr>)"
    by (rule lock_change_inv [OF inv]) (use waiting_ok [OF inv] in auto)
  then show ?thesis by simp
qed

lemma inv_shape: "push_inv p \<Longrightarrow> map_of (pb_rows p) h = Some row \<Longrightarrow> row_shape row"
  by (simp add: push_inv_def rows_inv_def)

lemma register_done_inv:
  assumes inv: "push_inv p" and ok: "reg_ok rg" and mode: "\<And>row. map_of (pb_rows p) h = Some row \<Longrightarrow> pr_mode row = rg_mode rg"
  shows "push_inv (snd (register_done auth w rg h p))"
proof (cases "valid_handle auth p h")
  case True
  then obtain row where row: "map_of (pb_rows p) h = Some row" "pr_status row = RowActive"
    by (auto simp: valid_handle_def split: option.splits)
  let ?n = "row\<lparr>pr_preview := rg_preview rg\<rparr>"
  have "push_inv (set_row h ?n p)" if "rg_mode rg = PreviewMode"
  proof (rule set_row_inv [OF inv row(1)])
    show "row_shape ?n" using ok mode [OF row(1)] row(2) that by (auto simp: row_shape_def reg_ok_def split: option.splits)
  qed (simp_all add: row(2))
  then show ?thesis using True row inv save_inv [of w "set_row h ?n p"]
    by (auto simp: register_done_def split: prod.splits sum.splits)
qed (use inv in \<open>simp add: register_done_def\<close>)

lemma register_resume_inv: "push_inv p \<Longrightarrow> push_inv (snd (register_resume auth w p))"
proof (cases "pb_lock p")
  case (Some x)
  assume inv: "push_inv p"
  obtain rg h f where x: "x = (rg, h, f)" by (cases x)
  have l: "reg_ok rg" "\<And>row. map_of (pb_rows p) h = Some row \<Longrightarrow> pr_mode row = rg_mode rg"
    using inv Some x by (auto simp: push_inv_def lock_inv_def)
  have "push_inv (snd (register_done auth w rg h (p\<lparr>pb_lock := None\<rparr>)))"
    by (rule register_done_inv [OF unlock_inv [OF inv] l(1)]) (use l(2) in simp)
  then show ?thesis using inv unlock_inv [OF inv] Some x by (simp add: register_resume_def Let_def split: push_future.split)
qed (simp add: register_resume_def)

lemma register_cancelled_inv: "push_inv p \<Longrightarrow> push_inv (register_cancelled p)"
  by (auto simp: register_cancelled_def intro: settle_inv unlock_inv split: option.split)

lemma preview_of_ok: "preview_of v = Some r \<Longrightarrow> preview_ok r"
  by (auto simp: preview_of_def preview_ok_def split: json.splits if_splits)

lemma parse_ok:
  "parse_preview_register device ep params p = Inr rg \<Longrightarrow> reg_ok rg" "parse_register device ep params p = Inr rg \<Longrightarrow> reg_ok rg"
proof -
  show "parse_preview_register device ep params p = Inr rg \<Longrightarrow> reg_ok rg"
    using preview_of_ok [of "jget params ''preview''"]
    by (cases "preview_of (jget params ''preview'')") (auto simp: parse_preview_register_def reg_ok_def split: if_splits)
  show "parse_register device ep params p = Inr rg \<Longrightarrow> reg_ok rg"
    by (auto simp: parse_register_def Let_def reg_ok_def split: if_splits)
qed

text \<open>What the operations behind a request keep, the request keeps.\<close>

lemma dispatch_keeps:
  assumes p: "P p" and "\<And>h e. P (snd (push_inspect auth now device ep h e p))" and "\<And>h. P (snd (push_resolve auth now device ep h p))"
    and "P (snd (push_revoke w device (Some ep) p))" and "\<And>rg. reg_ok rg \<Longrightarrow> P (snd (register_call w draw rg p))"
  shows "P (snd (push_dispatch auth w now draw device ep meth params p))"
proof -
  have 1: "P (snd (case push_inspect auth now device ep h e p of (v, p1) \<Rightarrow> (PushAnswer v, p1)))" for h e
    using assms(2) by (simp add: case_prod_beta)
  have 2: "P (snd (case push_resolve auth now device ep h p of (v, p1) \<Rightarrow> (PushAnswer v, p1)))" for h
    using assms(3) by (simp add: case_prod_beta)
  have 3: "P (snd (case push_revoke w device (Some ep) p of
      (Inl e, p1) \<Rightarrow> (PushRaise e, p1) | (Inr _, p1) \<Rightarrow> (PushAnswer (JObj [(lit ''registered'', JBool False)]), p1)))"
    using assms(4) by (cases "push_revoke w device (Some ep) p") (simp split: sum.split)
  have 4: "P (snd (case parse_preview_register device ep params p of Inl e \<Rightarrow> (PushRaise e, p) | Inr rg \<Rightarrow> register_call w draw rg p))"
    using assms(5) [OF parse_ok(1)] p by (simp split: sum.split)
  have 5: "P (snd (case parse_register device ep params p of Inl e \<Rightarrow> (PushRaise e, p) | Inr rg \<Rightarrow> register_call w draw rg p))"
    using assms(5) [OF parse_ok(2)] p by (simp split: sum.split)
  have c: "P (snd (if b then x else y))" if "P (snd x)" "P (snd y)" for b and x y :: "push_reply \<times> push_bridge"
    using that by simp
  have i: "P (snd (case (b, x, y) of (True, Some h, Some e) \<Rightarrow> (case push_inspect auth now device ep h e p of (v, p1) \<Rightarrow> (PushAnswer v, p1)) | _ \<Rightarrow> (PushRaise InvalidParams, p)))" for b x y
    using 1 p by (cases b; cases x; cases y) simp_all
  have rs: "P (snd (case (b, x) of (True, Some h) \<Rightarrow> (case push_resolve auth now device ep h p of (v, p1) \<Rightarrow> (PushAnswer v, p1)) | _ \<Rightarrow> (PushRaise InvalidParams, p)))" for b x
    using 2 p by (cases b; cases x) simp_all
  have raise: "P (snd (PushRaise e, p))" for e using p by simp
  show ?thesis unfolding push_dispatch_def
    by (intro c i rs 3 4 5 raise)
qed

lemma dispatch_inv:
  assumes inv: "push_inv p" and fresh: "map_of (pb_rows p) draw = None"
  shows "push_inv (snd (push_dispatch auth w now draw device ep meth params p))"
  by (rule dispatch_keeps [where P = push_inv]) (rule inv resolve_inv revoke_inv register_call_inv fresh | assumption)+

lemma inv_lengths: "push_inv p \<Longrightarrow> length (pb_queue p) \<le> QUEUE_SIZE" "push_inv p \<Longrightarrow> length (pb_seen p) \<le> 256"
  by (simp_all add: push_inv_def bounds_inv_def)

lemma remember_inv:
  assumes inv: "push_inv p" and r: "routed p h a"
  shows "push_inv (remember_route now h a p)"
proof -
  let ?P = "od_move_to_end h (AList.update h a (pb_pending p))"
  let ?A = "AList.update (h, ar_event_id a) a (filter (\<lambda>(_, a). \<not> ar_expires_at a \<le> now) (pb_arrivals p))"
  have eq: "remember_route now h a p
      = p\<lparr>pb_pending := od_trim MAX_PENDING_ROUTES (filter (\<lambda>(_, a). \<not> ar_expires_at a \<le> now) ?P), pb_arrivals := od_trim MAX_PENDING_ROUTES ?A\<rparr>"
    by (simp add: remember_route_def prune_pending_def Let_def)
  have P: "set ?P \<subseteq> insert (h, a) (set (pb_pending p))"
    using set_move_to_end [of h "AList.update h a (pb_pending p)"] set_update_subset [of h a "pb_pending p"] by blast
  have A: "set ?A \<subseteq> insert ((h, ar_event_id a), a) (set (pb_arrivals p))"
    using set_update_subset [of "(h, ar_event_id a)" a "filter (\<lambda>(_, a). \<not> ar_expires_at a \<le> now) (pb_arrivals p)"] by auto
  show ?thesis unfolding eq
  proof (rule routes_inv [OF inv])
    show "\<forall>(k, b) \<in> set (od_trim MAX_PENDING_ROUTES (filter (\<lambda>(_, a). \<not> ar_expires_at a \<le> now) ?P)). routed p k b"
      using set_od_trim P inv_routes(1) [OF inv] r by fastforce
    show "\<forall>((k, e), b) \<in> set (od_trim MAX_PENDING_ROUTES ?A). routed p k b"
      using set_od_trim A inv_routes(2) [OF inv] r by fastforce
  qed simp_all
qed

lemma clear_inv: "push_inv p \<Longrightarrow> push_inv (clear_pending h e p)" "push_inv p \<Longrightarrow> push_inv (clear_arrival h e p)"
proof -
  assume inv: "push_inv p"
  have eq: "clear_pending h e p = p\<lparr>pb_pending := pb_pending (clear_pending h e p), pb_arrivals := pb_arrivals p\<rparr>"
    "clear_arrival h e p = p\<lparr>pb_pending := pb_pending p, pb_arrivals := pb_arrivals (clear_arrival h e p)\<rparr>"
    by (simp_all add: clear_pending_def clear_arrival_def split: option.split)
  show "push_inv (clear_pending h e p)" by (subst eq(1), rule fewer_routes_inv [OF inv]) (use set_clear in auto)
  show "push_inv (clear_arrival h e p)" by (subst eq(2), rule fewer_routes_inv [OF inv]) (use set_clear in auto)
qed

lemma wake_one_inv:
  assumes inv: "push_inv p" and row: "map_of (pb_rows p) h = Some row" "pr_status row = RowActive" "pr_device row = device" "pr_epoch row = ep"
  shows "push_inv (wake_one other chacha now wall draws device ep route d h p) \<and> pb_rows (wake_one other chacha now wall draws device ep route d h p) = pb_rows p"
proof -
  obtain ev nonce where draw: "draws h = (ev, nonce)" by (cases "draws h")
  have e: "push_inv (snd (enqueue AWake h b x None p))" "pb_rows (snd (enqueue AWake h b x None p)) = pb_rows p" for b x
    using queued_inv(2) [OF inv] by (simp_all add: queued_frame)
  have r: "push_inv (remember_route now h \<lparr>ar_event_id = ev, ar_device = device, ar_epoch = ep, ar_session = s, ar_profile = pf, ar_expires_at = t\<rparr> q)"
    "pb_rows (remember_route now h \<lparr>ar_event_id = ev, ar_device = device, ar_epoch = ep, ar_session = s, ar_profile = pf, ar_expires_at = t\<rparr> q) = pb_rows q"
    if "push_inv q" "pb_rows q = pb_rows p" for q s pf t
    using that row by (auto intro!: remember_inv simp: routed_def) (simp add: remember_route_def prune_pending_def Let_def)
  show ?thesis
  proof (cases "wake_fields other chacha wall d route h ev nonce row")
    case None
    then show ?thesis using inv row(1) draw by (simp add: wake_one_def)
  next
    case (Some bx)
    obtain b x where bx: "bx = (b, x)" by (cases bx)
    obtain ok p1 where en: "enqueue AWake h b x None p = (ok, p1)" by (cases "enqueue AWake h b x None p")
    then have p1: "push_inv p1" "pb_rows p1 = pb_rows p" using e [of b x] by simp_all
    let ?p2 = "clear_pending h None p1"
    have p2: "push_inv ?p2" "pb_rows ?p2 = pb_rows p" using clear_inv(1) [OF p1(1)] p1(2) by (simp_all add: push_frame)
    show ?thesis using Some bx en row(1) draw p1 p2 r [OF p2]
      by (simp add: wake_one_def Let_def split: bool.split option.split prod.split)
  qed
qed

lemma wake_fold_inv:
  assumes "push_inv p" and "\<And>h. h \<in> set hs \<Longrightarrow> \<exists>row. map_of (pb_rows p) h = Some row \<and> pr_status row = RowActive \<and> pr_device row = device \<and> pr_epoch row = ep"
  shows "push_inv (fold (wake_one other chacha now wall draws device ep route d) hs p)"
  using assms
proof (induction hs arbitrary: p)
  case (Cons h hs)
  then obtain row where row: "map_of (pb_rows p) h = Some row" "pr_status row = RowActive" "pr_device row = device" "pr_epoch row = ep"
    by (meson list.set_intros(1))
  note one = wake_one_inv [OF Cons.prems(1) row, of other chacha now wall draws route d]
  show ?case using Cons.IH [of "wake_one other chacha now wall draws device ep route d h p"] one Cons.prems(2) by simp
qed simp

lemma device_handles_row:
  "push_inv p \<Longrightarrow> h \<in> set (device_handles device ep p) \<Longrightarrow>
     \<exists>row. map_of (pb_rows p) h = Some row \<and> pr_device row = device \<and> (ep = None \<or> ep = Some (pr_epoch row))"
proof -
  assume inv: "push_inv p" and "h \<in> set (device_handles device ep p)"
  then obtain row where row: "(h, row) \<in> set (pb_rows p)" "pr_device row = device" "ep = None \<or> ep = Some (pr_epoch row)"
    by (auto simp: device_handles_def)
  moreover have "map_of (pb_rows p) h = Some row"
    using row(1) inv by (intro map_of_is_SomeI) (simp_all add: push_inv_def rows_inv_def)
  ultimately show ?thesis by blast
qed

lemma valid_handle_row: "valid_handle auth p h \<Longrightarrow> \<exists>row. map_of (pb_rows p) h = Some row \<and> pr_status row = RowActive \<and> valid_scope auth p row"
  by (auto simp: valid_handle_def split: option.splits)

lemma wake_inv: "push_inv p \<Longrightarrow> push_inv (push_wake other chacha auth now wall draws device ep identity route d p)"
proof -
  assume inv: "push_inv p"
  let ?hs = "filter (valid_handle auth p) (device_handles device (Some ep) p)"
  let ?p1 = "p\<lparr>pb_seen := last_n 256 (pb_seen p @ [(device, ep, identity)])\<rparr>"
  have "fence_inv ?p1" using inv by (simp add: push_inv_def fence_inv_def row_bound_def)
  moreover have "rows_inv ?p1" "lock_inv ?p1" using inv rows_inv_cong [of ?p1 p] lock_inv_cong [of ?p1 p] by (simp_all add: push_inv_def)
  moreover have "bounds_inv ?p1" using inv by (simp add: push_inv_def bounds_inv_def)
  ultimately have 1: "push_inv ?p1" by (simp add: push_inv_def)
  have "\<exists>row. map_of (pb_rows ?p1) h = Some row \<and> pr_status row = RowActive \<and> pr_device row = device \<and> pr_epoch row = ep" if "h \<in> set ?hs" for h
    using device_handles_row [OF inv, of h device "Some ep"] valid_handle_row [of auth p h] that by auto
  then have "push_inv (fold (wake_one other chacha now wall draws device ep route' d) ?hs ?p1)" for route'
    by (rule wake_fold_inv [OF 1])
  then show ?thesis using inv 1 by (simp add: push_wake_def Let_def split: option.split)
qed

text \<open>A worker that is not posting puts no condition on the state.\<close>

lemma worker_inv: "push_inv p \<Longrightarrow> (\<forall>job ph c. w \<noteq> WorkerPosting job ph c) \<Longrightarrow> push_inv (p\<lparr>pb_worker := w\<rparr>)"
  by (rule push_inv_cong [of _ p]) (simp_all add: inv_lengths)

definition idle_inv :: "push_bridge \<Rightarrow> bool" where
  \<comment> \<open>the invariant but for the job in flight\<close>
  "idle_inv p \<longleftrightarrow> push_inv (p\<lparr>pb_worker := WorkerIdle\<rparr>)"

lemma finish_job_inv: "idle_inv p \<Longrightarrow> push_inv (finish_job auth job success retired p)"
proof -
  assume inv: "idle_inv p"
  let ?e = "case jget (jb_fields job) ''event_id'' of JStr e \<Rightarrow> Some e | _ \<Rightarrow> None"
  let ?h = "jb_handle job"
  let ?p1 = "if jb_action job = AWake \<and> \<not> success then clear_arrival ?h ?e (clear_pending ?h ?e p) else p"
  have c: "clear_arrival ?h ?e (clear_pending ?h ?e (p\<lparr>pb_worker := WorkerIdle\<rparr>)) = (clear_arrival ?h ?e (clear_pending ?h ?e p))\<lparr>pb_worker := WorkerIdle\<rparr>"
    by (simp add: clear_arrival_def clear_pending_def split: option.split)
  have "push_inv (?p1\<lparr>pb_worker := WorkerIdle\<rparr>)"
    using inv clear_inv(2) [OF clear_inv(1) [OF inv [unfolded idle_inv_def], of ?h ?e], of ?h ?e] unfolding c
    by (simp add: idle_inv_def)
  then have "push_inv (fold enqueue_unregister retired (?p1\<lparr>pb_worker := WorkerIdle\<rparr>))" using push_fold_inv [of enqueue_unregister] queued_inv(3) by blast
  then show ?thesis unfolding finish_job_def Let_def by (rule settle_inv)
qed

lemma inv_idle: "push_inv p \<Longrightarrow> idle_inv p"
  unfolding idle_inv_def by (rule worker_inv) simp_all

lemma idle_save: "idle_inv (snd (push_save w p)) \<longleftrightarrow> idle_inv p"
proof -
  have "(snd (push_save w p))\<lparr>pb_worker := WorkerIdle\<rparr> = (snd (push_save w (p\<lparr>pb_worker := WorkerIdle\<rparr>)))"
    by (simp add: push_save_def Let_def)
  then show ?thesis unfolding idle_inv_def by (simp add: save_inv)
qed

lemma take_inv: "push_inv p \<Longrightarrow> push_inv (worker_take auth p)"
proof -
  assume inv: "push_inv p"
  show ?thesis
  proof (cases "pb_worker p = WorkerIdle \<and> pb_queue p \<noteq> []")
    case True
    then obtain job js where js: "pb_queue p = job # js" by (cases "pb_queue p") auto
    have p1: "push_inv (p\<lparr>pb_queue := js\<rparr>)" using inv_lengths(1) [OF inv] js by (intro push_inv_queue [OF inv]) simp
    let ?q = "p\<lparr>pb_queue := js\<rparr>"
    have "push_inv (?q\<lparr>pb_worker := WorkerPosting job HttpCreated False\<rparr>)" if ok: "job_allowed auth job ?q"
    proof -
      let ?r = "?q\<lparr>pb_worker := WorkerPosting job HttpCreated False\<rparr>"
      obtain row where row: "map_of (pb_rows p) (jb_handle job) = Some row" using ok by (auto simp: job_allowed_def split: option.splits)
      have "jb_action job = AUnregister \<longrightarrow> pr_status row = RowDebt" "jb_action job = AWake \<longrightarrow> pr_status row = RowActive \<and> row_bound p row"
        using ok row by (auto simp: job_allowed_def valid_handle_def valid_scope_def row_bound_def)
      then have "fence_inv ?r" using row by (simp add: fence_inv_def row_bound_def)
      moreover have "rows_inv ?r" "lock_inv ?r" "bounds_inv ?r"
        using p1 rows_inv_cong [of ?r ?q] lock_inv_cong [of ?r ?q] bounds_inv_cong [of ?r ?q] by (simp_all add: push_inv_def)
      ultimately show ?thesis by (simp add: push_inv_def)
    qed
    moreover have "push_inv (?q\<lparr>pb_worker := WorkerEnded\<rparr>)" by (rule worker_inv [OF p1]) simp
    moreover have "push_inv (finish_job auth job False [] ?q)" by (rule finish_job_inv [OF inv_idle [OF p1]])
    ultimately show ?thesis using True js by (simp add: worker_take_def Let_def)
  next
    case False
    then show ?thesis using inv by (auto simp: worker_take_def split: push_worker.split list.split)
  qed
qed

lemma phase_inv:
  assumes inv: "push_inv p" and w: "pb_worker p = WorkerPosting job ph c" and ph: "unfinished ph' \<longrightarrow> unfinished ph"
  shows "push_inv (p\<lparr>pb_worker := WorkerPosting job ph' c, pb_sent := reqs\<rparr>)"
proof -
  let ?q = "p\<lparr>pb_worker := WorkerPosting job ph' c, pb_sent := reqs\<rparr>"
  have "fence_inv ?q" using inv w ph by (auto simp: push_inv_def fence_inv_def row_bound_def)
  then show ?thesis
    using inv rows_inv_cong [of ?q p] lock_inv_cong [of ?q p] bounds_inv_cong [of ?q p] by (simp add: push_inv_def)
qed

lemma post_inv: "push_inv p \<Longrightarrow> push_inv (post_start wall timeout token_ok p)" "push_inv p \<Longrightarrow> push_inv (post_end ok p)"
proof -
  assume inv: "push_inv p"
  have f: "push_inv (p\<lparr>pb_worker := WorkerPosting job (HttpFinished b) c\<rparr>)" if "pb_worker p = WorkerPosting job ph c" for job ph c b
    using phase_inv [OF inv that, of "HttpFinished b" "pb_sent p"] by simp
  have s: "push_inv (p\<lparr>pb_worker := WorkerPosting job HttpSent c, pb_sent := r\<rparr>)" if "pb_worker p = WorkerPosting job HttpCreated c" for job c r
    using phase_inv [OF inv that, of HttpSent r] by simp
  show "push_inv (post_start wall timeout token_ok p)"
    using inv f s by (auto simp: post_start_def split: push_worker.split http_phase.split bool.split option.split)
  show "push_inv (post_end ok p)"
    using inv f by (auto simp: post_end_def split: push_worker.split http_phase.split bool.split)
qed

lemma delete_row_inv:
  assumes inv: "push_inv p" and row: "map_of (pb_rows p) h = Some row" and debt: "pr_status row = RowDebt"
  shows "idle_inv (p\<lparr>pb_rows := AList.delete h (pb_rows p), pb_generation := AList.delete h (pb_generation p)\<rparr>)"
proof -
  let ?q = "p\<lparr>pb_rows := AList.delete h (pb_rows p), pb_generation := AList.delete h (pb_generation p), pb_worker := WorkerIdle\<rparr>"
  have m: "map_of (pb_rows ?q) = (map_of (pb_rows p))(h := None)" "map_of (pb_generation ?q) = (map_of (pb_generation p))(h := None)"
    by (simp_all add: delete_conv')
  have r: "routed p k a \<Longrightarrow> routed ?q k a" for k a using row debt by (auto simp: routed_def delete_conv')
  have ri: "rows_inv p" using inv by (simp add: push_inv_def)
  have "rows_inv ?q" unfolding rows_inv_def
  proof (intro conjI)
    show "od_wf (pb_rows ?q)" "length (pb_rows ?q) \<le> MAX_ROWS_PUSH"
      using ri length_delete_le [of h "pb_rows p"] by (auto simp: rows_inv_def intro: distinct_delete)
    show "\<forall>k row. map_of (pb_rows ?q) k = Some row \<longrightarrow> row_shape row" using ri unfolding m rows_inv_def by auto
    show "\<forall>k. map_of (pb_generation ?q) k = None \<longleftrightarrow> map_of (pb_rows ?q) k = None" using ri unfolding m rows_inv_def by auto
    have same: "pb_pending ?q = pb_pending p" "pb_arrivals ?q = pb_arrivals p" by simp_all
    show "\<forall>(k, a) \<in> set (pb_pending ?q). routed ?q k a" "\<forall>((k, e), a) \<in> set (pb_arrivals ?q). routed ?q k a"
      using ri r unfolding same rows_inv_def by blast+
  qed
  moreover have "lock_inv ?q" using inv unfolding push_inv_def lock_inv_def m by auto
  moreover have "fence_inv ?q" by (rule fence_idle) simp
  moreover have "bounds_inv ?q" using inv bounds_inv_cong [of ?q p] by (simp add: push_inv_def)
  ultimately show ?thesis by (simp add: idle_inv_def push_inv_def)
qed

lemma settle_register_inv:
  assumes inv: "push_inv p" and w: "pb_worker p = WorkerPosting job ph c" and reg: "jb_action job = ARegister"
  shows "push_inv (settle_register auth write_ok job success p)"
proof (cases "map_of (pb_rows p) (jb_handle job)")
  case None
  then show ?thesis using finish_job_inv [OF inv_idle [OF inv]] by (simp add: settle_register_def)
next
  case (Some row)
  let ?h = "jb_handle job"
  let ?p1 = "set_row ?h (row\<lparr>pr_status := RowActive\<rparr>) p"
  have "push_inv ?p1" if "pr_status row = RowPending"
  proof (rule set_row_inv [OF inv Some])
    show "row_shape (row\<lparr>pr_status := RowActive\<rparr>)"
      using inv_shape [OF inv Some] by (auto simp: row_shape_def split: option.splits)
  qed (use that in simp_all)
  then have a: "idle_inv (snd (push_save write_ok (fold retire rs ?p1)))" if "pr_status row = RowPending" for rs
    using that push_fold_inv [of retire ?p1 rs] retire_inv by (simp add: idle_save inv_idle)
  have d: "push_inv (make_debt ?h p)" if "pr_status row = RowPending"
    by (rule make_debt_inv [OF inv Some]) (use that in simp)
  then have b: "push_inv (snd (push_save write_ok (make_debt ?h p)))" if "pr_status row = RowPending" using that by (simp add: save_inv)
  have e: "push_inv (enqueue_unregister ?h (snd (push_save write_ok (make_debt ?h p))))" if "pr_status row = RowPending"
    by (rule queued_inv(3) [OF b [OF that]])
  consider "success \<and> valid_scope auth p row" "pr_status row = RowPending" | "success \<and> valid_scope auth p row" "pr_status row \<noteq> RowPending"
    | "\<not> (success \<and> valid_scope auth p row)" "pr_status row = RowPending" | "\<not> (success \<and> valid_scope auth p row)" "pr_status row \<noteq> RowPending"
    by blast
  then show ?thesis
  proof cases
    case 1
    obtain r p3 where "push_save write_ok (fold retire (other_rows ?h ?p1) ?p1) = (r, p3)" by (cases "push_save write_ok (fold retire (other_rows ?h ?p1) ?p1)")
    then show ?thesis using a [OF 1(2), of "other_rows ?h ?p1"] 1 Some
      by (cases r) (simp_all add: settle_register_def Let_def finish_job_inv)
  next
    case 3
    obtain r p3 where r: "push_save write_ok (make_debt ?h p) = (r, p3)" by (cases "push_save write_ok (make_debt ?h p)")
    then have "push_inv p3" "push_inv (enqueue_unregister ?h p3)" using b [OF 3(2)] e [OF 3(2)] by simp_all
    then show ?thesis using r 3 Some by (cases r) (auto simp: settle_register_def finish_job_inv inv_idle)
  qed (use Some finish_job_inv [OF inv_idle [OF inv]] in \<open>auto simp: settle_register_def\<close>)
qed

lemma resume_inv: "push_inv p \<Longrightarrow> push_inv (worker_resume auth write_ok timed_out p)"
proof -
  assume inv: "push_inv p"
  have s: "push_inv (worker_settle auth write_ok job success p)" if w: "pb_worker p = WorkerPosting job ph c" for job ph c success
  proof -
    obtain row where row: "map_of (pb_rows p) (jb_handle job) = Some row"
      "jb_action job = AUnregister \<longrightarrow> map_of (pb_generation p) (jb_handle job) = Some (jb_generation job) \<longrightarrow> pr_status row = RowDebt"
      using inv w by (auto simp: push_inv_def fence_inv_def)
    let ?d = "p\<lparr>pb_rows := AList.delete (jb_handle job) (pb_rows p), pb_generation := AList.delete (jb_handle job) (pb_generation p)\<rparr>"
    have "push_inv (settle_unregister auth write_ok job p)"
      if "jb_action job = AUnregister" "map_of (pb_generation p) (jb_handle job) = Some (jb_generation job)"
    proof -
      have "idle_inv (snd (push_save write_ok ?d))" using delete_row_inv [OF inv row(1)] row(2) that by (simp add: idle_save)
      then show ?thesis
        by (cases "push_save write_ok ?d") (auto simp: settle_unregister_def intro!: finish_job_inv split: sum.split)
    qed
    then show ?thesis
      using settle_register_inv [OF inv w] finish_job_inv [OF inv_idle [OF inv]] by (simp add: worker_settle_def Let_def)
  qed
  show ?thesis
  proof (cases "pb_worker p")
    case (WorkerPosting job ph c)
    then show ?thesis using s [OF WorkerPosting] inv by (cases ph) (simp_all add: worker_resume_def)
  qed (simp_all add: worker_resume_def inv)
qed

lemma close_inv: "push_inv p \<Longrightarrow> push_inv (push_close p)"
proof -
  assume inv: "push_inv p"
  let ?p1 = "p\<lparr>pb_closed := True\<rparr>"
  let ?p2 = "case pb_worker ?p1 of WorkerPosting job _ _ \<Rightarrow> cancel_http (jb_handle job) ?p1 | _ \<Rightarrow> ?p1"
  have 1: "push_inv ?p1" by (rule push_inv_cong [OF _ _ _ _ _ _ _ _ _ _ _ _ inv]) (simp_all add: inv_lengths [OF inv])
  then have 2: "push_inv ?p2" using cancel_http_inv [OF 1] by (simp split: push_worker.split)
  have 3: "push_inv (fold (\<lambda>job. settle_future FutureCancelled (jb_future job)) (pb_queue ?p2) (?p2\<lparr>pb_queue := []\<rparr>))" (is "push_inv ?p3")
    by (rule settle_fold_inv, rule push_inv_queue [OF 2]) simp
  have "push_inv (?p3\<lparr>pb_queue := [close_job]\<rparr>)" by (rule push_inv_queue [OF 3]) (simp add: QUEUE_SIZE_def)
  then show ?thesis using 3 unfolding push_close_def Let_def by simp
qed

lemma closed_inv: "push_inv p \<Longrightarrow> push_inv (push_closed p)"
proof (cases "pb_closed p \<and> pb_worker p \<in> {NoWorker, WorkerEnded}")
  case True
  assume inv: "push_inv p"
  let ?f = "\<lambda>row. if pr_status row = RowActive then row else row\<lparr>pr_preview := None\<rparr>"
  let ?q = "push_closed p"
  have rows: "pb_rows ?q = map (\<lambda>(h, row). (h, ?f row)) (pb_rows p)" using True by (simp add: push_closed_def)
  have m: "map_of (pb_rows ?q) = map_option ?f \<circ> map_of (pb_rows p)" unfolding rows by (rule map_of_map)
  have k: "map fst (pb_rows ?q) = map fst (pb_rows p)" unfolding rows by (induction "pb_rows p") auto
  have f: "row_shape row \<Longrightarrow> row_shape (?f row)" "pr_mode (?f row) = pr_mode row" for row by (auto simp: row_shape_def)
  have ri: "rows_inv p" using inv by (simp add: push_inv_def)
  have len: "length (pb_rows ?q) = length (pb_rows p)" using k by (metis length_map)
  have "rows_inv ?q" unfolding rows_inv_def
  proof (intro conjI)
    show "od_wf (pb_rows ?q)" "length (pb_rows ?q) \<le> MAX_ROWS_PUSH" using ri unfolding k len by (simp_all add: rows_inv_def)
    show "\<forall>h row. map_of (pb_rows ?q) h = Some row \<longrightarrow> row_shape row"
    proof (intro allI impI)
      fix h row
      assume "map_of (pb_rows ?q) h = Some row"
      then obtain r where "map_of (pb_rows p) h = Some r" "row = ?f r"
        unfolding m comp_def map_option_eq_Some by blast
      then show "row_shape row" using ri f(1) [of r] by (simp only: rows_inv_def)
    qed
    have "pb_generation ?q = pb_generation p" by (simp add: push_closed_def)
    then show "\<forall>h. map_of (pb_generation ?q) h = None \<longleftrightarrow> map_of (pb_rows ?q) h = None"
      using ri unfolding m rows_inv_def by simp
    have "pb_pending ?q = []" "pb_arrivals ?q = []" using True by (simp_all add: push_closed_def)
    then show "\<forall>(h, a) \<in> set (pb_pending ?q). routed ?q h a" "\<forall>((h, e), a) \<in> set (pb_arrivals ?q). routed ?q h a" by simp_all
  qed
  moreover have "lock_inv ?q" using inv True f(2) unfolding push_inv_def lock_inv_def m by (auto simp: push_closed_def)
  moreover have "fence_inv ?q" using True by (intro fence_idle) (auto simp: push_closed_def)
  moreover have "bounds_inv ?q" using inv True by (auto simp: push_inv_def bounds_inv_def push_closed_def)
  ultimately show ?thesis by (simp add: push_inv_def)
qed (auto simp: push_closed_def)

lemma fresh_step_inv: "push_inv p \<Longrightarrow> push_inv (fresh_step e p)"
proof -
  assume inv: "push_inv p"
  have w: "push_inv (p\<lparr>pb_waiting := take i (pb_waiting p) @ drop (Suc i) (pb_waiting p)\<rparr>)" for i
  proof -
    have "push_inv (p\<lparr>pb_lock := pb_lock p, pb_waiting := take i (pb_waiting p) @ drop (Suc i) (pb_waiting p), pb_futures := pb_futures p\<rparr>)"
      by (rule lock_change_inv [OF inv])
        (use inv in \<open>auto simp: push_inv_def lock_inv_def dest: in_set_takeD in_set_dropD\<close>)
    then show ?thesis by simp
  qed
  show ?thesis
    by (cases e) (simp_all add: fresh_step_def push_step_def draw_fresh_def worker_idle_def inv w queued_inv dispatch_inv register_next_inv
      register_resume_inv register_cancelled_inv revoke_inv wake_inv take_inv post_inv resume_inv close_inv closed_inv)
qed

section \<open>Construction\<close>

lemma all_some_Some: "all_some xs = Some ys \<longleftrightarrow> xs = map Some ys"
proof (induction xs arbitrary: ys)
  case (Cons x xs)
  then show ?case by (cases x; cases ys) auto
qed auto

lemma row_v3_shape: "row_v3 v = Some row \<Longrightarrow> row_shape row"
  by (auto simp: row_v3_def row_shape_def Let_def intro: preview_of_ok push_mode.exhaust split: json.splits if_splits option.splits)

lemma load_row_shape: "load_row U version hv = Some hr \<Longrightarrow> fst hr = fst hv \<and> row_shape (snd hr)"
  by (auto simp: load_row_def dest: row_v3_shape split: if_splits option.splits)

lemma read_push_file_rows:
  assumes "read_push_file U limit stored = Some (version, rows)"
  shows "distinct (map fst rows)" and "length rows \<le> MAX_ROWS_PUSH" and "\<forall>hr \<in> set rows. row_shape (snd hr)"
proof -
  have "distinct (map fst rows) \<and> length rows \<le> MAX_ROWS_PUSH \<and> (\<forall>hr \<in> set rows. row_shape (snd hr))"
  proof (cases stored)
    case None
    then show ?thesis using assms by (simp add: read_push_file_def)
  next
    case (Some raw)
    then obtain s v where v: "loads_strict limit s = Some v" and l: "load_rows U v = Some (version, rows)"
      using assms by (auto simp: read_push_file_def split: if_splits option.splits)
    obtain d vs where d: "v = JObj d" "jget d ''rows'' = JObj vs" "length vs \<le> MAX_ROWS_PUSH" and a: "all_some (map (load_row U version) vs) = Some rows"
      using l by (auto simp: load_rows_def split: json.splits if_splits)
    have "strict (JObj vs)" using loads_strict_sound [OF v] d(1,2) strict_JObj [of d]
      by (force simp: jget_def dest: map_of_SomeD split: option.splits)
    then have "distinct (map fst vs)" by (simp add: strict_JObj)
    moreover have m: "map (load_row U version) vs = map Some rows" using a by (simp add: all_some_Some)
    then have len: "length rows = length vs" using map_eq_imp_length_eq by fastforce
    moreover have each: "fst (rows ! i) = fst (vs ! i) \<and> row_shape (snd (rows ! i))" if "i < length rows" for i
      using load_row_shape [of U version "vs ! i" "rows ! i"] arg_cong [OF m, of "\<lambda>xs. xs ! i"] that len by simp
    moreover have "map fst rows = map fst vs" using len each by (intro nth_equalityI) simp_all
    moreover have "\<forall>hr \<in> set rows. row_shape (snd hr)" using each by (metis in_set_conv_nth)
    ultimately show ?thesis using d(3) by simp
  qed
  then show "distinct (map fst rows)" "length rows \<le> MAX_ROWS_PUSH" "\<forall>hr \<in> set rows. row_shape (snd hr)" by auto
qed

lemma adopt_inv:
  assumes "push_inv p" and "map_of (pb_rows p) (fst hr) = None" and "length (pb_rows p) < MAX_ROWS_PUSH" and "row_shape (snd hr)"
    and "pb_lock p = None" and "pb_worker p = NoWorker"
  shows "push_inv (adopt_row auth hr p)"
proof -
  let ?p1 = "(set_row (fst hr) (snd hr) p)\<lparr>pb_generation := AList.update (fst hr) 0 (pb_generation p)\<rparr>"
  have 1: "push_inv ?p1" by (rule new_row_inv [OF assms(1-5)])
  have "map_of (pb_rows ?p1) (fst hr) = Some (snd hr)" by (simp add: push_frame update_conv')
  then have "push_inv (make_debt (fst hr) ?p1)" by (rule make_debt_inv [OF 1]) (simp add: push_frame assms(6))
  then show ?thesis using 1 by (simp add: adopt_row_def Let_def)
qed

lemma adopt_frame:
  "pb_lock (adopt_row auth hr p) = pb_lock p" "pb_worker (adopt_row auth hr p) = pb_worker p" "pb_sent (adopt_row auth hr p) = pb_sent p"
  "map fst (pb_rows (adopt_row auth hr p)) = map fst (AList.update (fst hr) (snd hr) (pb_rows p))"
  by (simp_all add: adopt_row_def Let_def push_frame make_debt_rows(2))

lemma adopt_fold_inv:
  assumes "push_inv p" and "distinct (map fst (pb_rows p) @ map fst rows)" and "length (pb_rows p) + length rows \<le> MAX_ROWS_PUSH"
    and "\<forall>hr \<in> set rows. row_shape (snd hr)" and "pb_lock p = None" and "pb_worker p = NoWorker"
  shows "push_inv (fold (adopt_row auth) rows p)"
  using assms
proof (induction rows arbitrary: p)
  case (Cons hr rows)
  have none: "map_of (pb_rows p) (fst hr) = None" using Cons.prems(2) by (auto simp: map_of_eq_None_iff)
  let ?q = "adopt_row auth hr p"
  have k: "map fst (pb_rows ?q) = map fst (pb_rows p) @ [fst hr]"
    using none by (simp add: adopt_frame update_keys map_of_eq_None_iff)
  then have len: "length (pb_rows ?q) = Suc (length (pb_rows p))" by (metis length_append_singleton length_map)
  have "push_inv ?q" using Cons.prems none by (intro adopt_inv) simp_all
  then have "push_inv (fold (adopt_row auth) rows ?q)"
    by (rule Cons.IH) (use Cons.prems k len in \<open>simp_all add: adopt_frame\<close>)
  then show ?case by simp
qed simp

definition bridge_built :: "push_bridge \<Rightarrow> bool" where
  \<comment> \<open>what the constructor can return\<close>
  "bridge_built p \<longleftrightarrow>
     (\<exists>U limit auth write_ok relay_origin installation_id preview production stored.
        new_push_bridge U limit auth write_ok relay_origin installation_id preview production stored = Some p)"

lemma blank_inv: "push_inv (blank_bridge origin route preview production stored)"
  by (simp add: push_inv_def rows_inv_def lock_inv_def fence_inv_def bounds_inv_def blank_bridge_def)

lemma built_cases:
  assumes "bridge_built p"
  obtains auth w rows origin route preview production stored
  where "p = fold (adopt_row auth) rows (blank_bridge origin route preview production stored)
       \<or> p = snd (push_save w (fold (adopt_row auth) rows (blank_bridge origin route preview production stored)))"
    and "distinct (map fst rows)" and "length rows \<le> MAX_ROWS_PUSH" and "\<forall>hr \<in> set rows. row_shape (snd hr)"
proof -
  from assms obtain U limit auth write_ok relay_origin installation_id preview production stored
    where p: "new_push_bridge U limit auth write_ok relay_origin installation_id preview production stored = Some p"
    unfolding bridge_built_def by blast
  then obtain origin version rows where "push_origin U relay_origin = Some origin" and r: "read_push_file U limit stored = Some (version, rows)"
    by (auto simp: new_push_bridge_def split: if_splits option.splits prod.splits)
  then have "p = fold (adopt_row auth) rows (blank_bridge origin (canonical_b64url installation_id) preview production stored)
       \<or> p = snd (push_save write_ok (fold (adopt_row auth) rows (blank_bridge origin (canonical_b64url installation_id) preview production stored)))"
    using p by (auto simp: new_push_bridge_def Let_def split: if_splits prod.splits sum.splits)
  then show ?thesis using read_push_file_rows [OF r] by (rule that)
qed

lemma built_inv: "bridge_built p \<Longrightarrow> push_inv p"
proof (erule built_cases)
  fix auth w rows origin route preview production stored
  assume eq: "p = fold (adopt_row auth) rows (blank_bridge origin route preview production stored)
       \<or> p = snd (push_save w (fold (adopt_row auth) rows (blank_bridge origin route preview production stored)))"
    and rows: "distinct (map fst rows)" "length rows \<le> MAX_ROWS_PUSH" "\<forall>hr \<in> set rows. row_shape (snd hr)"
  have "push_inv (fold (adopt_row auth) rows (blank_bridge origin route preview production stored))"
    by (rule adopt_fold_inv [OF blank_inv]) (use rows in \<open>simp_all add: blank_bridge_def\<close>)
  then show "push_inv p" using eq by (auto simp: save_inv)
qed

interpretation push: invariant_component bridge_built fresh_step push_inv
  by unfold_locales (erule built_inv, erule fresh_step_inv)

end
