(* ===== verification/Push_Props.thy ===== *)
theory Push_Props
  imports Push_Inv
begin

text \<open>
  Properties of the push bridge over all its runs: what it keeps is bounded and private, a
  registration is forgotten only after the relay confirmed it, a revoked device is not contacted
  again except to be unregistered, and what each request may carry.
\<close>

section \<open>What every operation keeps of the rows and of the job in flight\<close>

definition row_kept :: "push_row \<Rightarrow> push_row \<Rightarrow> bool" where
  \<comment> \<open>the same registration; a debt stays one and an active row is not pending again\<close>
  "row_kept row row' \<longleftrightarrow>
     pr_device row' = pr_device row \<and> pr_epoch row' = pr_epoch row \<and> pr_origin row' = pr_origin row \<and> pr_route row' = pr_route row
     \<and> pr_mode row' = pr_mode row \<and> pr_environment row' = pr_environment row
     \<and> (pr_status row = RowDebt \<longrightarrow> pr_status row' = RowDebt) \<and> (pr_status row = RowActive \<longrightarrow> pr_status row' \<noteq> RowPending)"

lemma row_kept_refl [simp]: "row_kept row row"
  by (simp add: row_kept_def)

lemma row_kept_trans: "row_kept a b \<Longrightarrow> row_kept b c \<Longrightarrow> row_kept a c"
  by (cases "pr_status b"; auto simp: row_kept_def)

lemma row_kept_debt: "row_kept row (debt_of row)"
  by (simp add: row_kept_def debt_of_def)

definition rows_kept :: "push_bridge \<Rightarrow> push_bridge \<Rightarrow> bool" where
  "rows_kept p q \<longleftrightarrow> (\<forall>h row. map_of (pb_rows p) h = Some row \<longrightarrow> (\<exists>row'. map_of (pb_rows q) h = Some row' \<and> row_kept row row'))"

definition not_posting :: "push_worker \<Rightarrow> bool" where
  "not_posting w \<longleftrightarrow> (\<forall>job ph c. w \<noteq> WorkerPosting job ph c)"

lemma not_posting_simps [simp]: "not_posting NoWorker" "not_posting WorkerIdle" "not_posting WorkerEnded" "\<not> not_posting (WorkerPosting job ph c)"
  by (simp_all add: not_posting_def)

definition worker_kept :: "push_worker \<Rightarrow> push_worker \<Rightarrow> bool" where
  \<comment> \<open>the job in flight is the same, or it was cancelled, or it is over\<close>
  "worker_kept w v \<longleftrightarrow> v = w \<or> (\<exists>job ph c. w = WorkerPosting job ph c \<and> v = WorkerPosting job ph True) \<or> not_posting v"

lemma worker_kept_trans: "worker_kept w v \<Longrightarrow> worker_kept v u \<Longrightarrow> worker_kept w u"
  by (auto simp: worker_kept_def)

definition quiet :: "push_bridge \<Rightarrow> push_bridge \<Rightarrow> bool" where
  \<comment> \<open>nothing is sent, no job starts and no row is lost\<close>
  "quiet p q \<longleftrightarrow> rows_kept p q \<and> worker_kept (pb_worker p) (pb_worker q) \<and> pb_sent q = pb_sent p"

lemma quiet_refl [simp]: "quiet p p"
  by (auto simp: quiet_def rows_kept_def worker_kept_def)

lemma quiet_trans [trans]: "quiet p q \<Longrightarrow> quiet q r \<Longrightarrow> quiet p r"
  unfolding quiet_def rows_kept_def by (metis worker_kept_trans row_kept_trans)

lemma quiet_same: "pb_rows q = pb_rows p \<Longrightarrow> pb_worker q = pb_worker p \<Longrightarrow> pb_sent q = pb_sent p \<Longrightarrow> quiet p q"
  by (auto simp: quiet_def rows_kept_def worker_kept_def)

lemma quiet_idle: "pb_rows q = pb_rows p \<Longrightarrow> not_posting (pb_worker q) \<Longrightarrow> pb_sent q = pb_sent p \<Longrightarrow> quiet p q"
  by (auto simp: quiet_def rows_kept_def worker_kept_def)

lemma quiet_fold: "(\<And>x q. quiet q (f x q)) \<Longrightarrow> quiet p (fold f xs p)"
  by (induction xs arbitrary: p) (auto intro: quiet_trans)

lemma quiet_queue: "queue_step p q \<Longrightarrow> quiet p q"
  using queue_step_frame [of p q] by (auto simp: quiet_def rows_kept_def worker_kept_def)

named_theorems quiet_intro \<open>operations that are quiet\<close>

lemma quiet_small [quiet_intro]:
  "quiet p (push_start p)" "quiet p (collect_debts p)" "quiet p (snd (enqueue a h b x f p))" "quiet p (enqueue_unregister h p)"
  "quiet p (settle_future y f p)" "quiet p (clear_pending h ev p)" "quiet p (clear_arrival h ev p)" "quiet p (drop_queued h p)"
  "quiet p (snd (push_save w p))" "quiet p (prune_pending now p)"
  by (blast intro: quiet_queue queue_step_start queue_step_collect queue_step_enqueue queue_step_unregister
    | rule quiet_same, (simp_all add: push_frame prune_pending_def)[3])+

lemma quiet_cancel [quiet_intro]: "quiet p (cancel_http h p)"
proof -
  have "worker_kept (pb_worker p) (pb_worker (cancel_http h p))"
    unfolding cancel_worker_eq by (cases "pb_worker p") (auto simp: worker_kept_def)
  then show ?thesis by (auto simp: quiet_def rows_kept_def push_frame)
qed

lemma quiet_debt [quiet_intro]: "quiet p (make_debt h p)"
  by (auto simp: quiet_def rows_kept_def worker_kept_def make_debt_rows push_frame row_kept_debt)

lemma quiet_retire [quiet_intro]: "quiet p (retire h p)"
  unfolding retire_def by (rule quiet_trans [OF quiet_trans [OF quiet_small(8) quiet_debt] quiet_cancel])

lemma quiet_set_row:
  "(\<And>old. map_of (pb_rows p) h = Some old \<Longrightarrow> row_kept old new) \<Longrightarrow> quiet p (set_row h new p)"
  by (auto simp: quiet_def rows_kept_def worker_kept_def push_frame update_conv')

section \<open>Every operation but sending and settling is quiet\<close>

lemma quiet_save_case: "quiet p q \<Longrightarrow> push_save w q = (res, p1) \<Longrightarrow> quiet p p1"
proof -
  assume "quiet p q" "push_save w q = (res, p1)"
  moreover from this have "p1 = snd (push_save w q)" by simp
  ultimately show ?thesis using quiet_small(9) by (simp only: quiet_trans)
qed

lemma quiet_revoke: "quiet p (snd (push_revoke w device ep p))"
proof -
  have f: "quiet p (fold retire (device_handles device ep p) p)" by (rule quiet_fold) (rule quiet_retire)
  moreover have "quiet q (fold enqueue_unregister hs q)" for hs q by (rule quiet_fold) (rule quiet_small)
  ultimately show ?thesis
    by (auto simp: push_revoke_def Let_def intro: quiet_trans quiet_save_case [OF f] split: prod.split sum.split)
qed

lemma quiet_reads: "quiet p (snd (push_inspect auth now d e h ev p))" "quiet p (snd (push_resolve auth now d e h p))"
proof -
  have d: "quiet p ((prune_pending now p)\<lparr>pb_pending := x\<rparr>)" for x by (rule quiet_same) (simp_all add: prune_pending_def)
  show "quiet p (snd (push_inspect auth now d e h ev p))" "quiet p (snd (push_resolve auth now d e h p))"
    using d quiet_small(10) by (auto simp: push_inspect_def push_resolve_def Let_def split: option.split)
qed

lemma quiet_register_row:
  assumes "map_of (pb_rows p) draw = None"
  shows "quiet p (snd (register_row w draw rg p))"
proof -
  let ?n = "(set_row draw (pending_row rg p) p)\<lparr>pb_generation := AList.update draw 0 (pb_generation p)\<rparr>"
  have "quiet p (set_row draw (pending_row rg p) p)" by (rule quiet_set_row) (use assms in \<open>simp del: map_of_eq_None_iff\<close>)
  then have n: "quiet p ?n" using quiet_trans quiet_same [of ?n "set_row draw (pending_row rg p) p"] by simp
  then show ?thesis
    by (auto simp: register_row_def intro: quiet_save_case [OF n] split: sum.split option.split prod.split)
qed

lemma quiet_refused: "quiet p (snd (register_refused w h p))"
  by (auto simp: register_refused_def intro: quiet_save_case [OF quiet_debt [of p h]] split: option.split prod.split sum.split)

lemma quiet_locked:
  assumes "map_of (pb_rows p) draw = None"
  shows "quiet p (snd (register_locked w draw rg p))"
proof -
  obtain res p1 where p1: "register_row w draw rg (push_start p) = (res, p1)" by (cases "register_row w draw rg (push_start p)")
  have "map_of (pb_rows (push_start p)) draw = None" using assms by (simp add: queued_frame)
  from quiet_register_row [OF this, of w rg] have 1: "quiet p p1"
    using p1 quiet_small(1) [of p] by (auto intro: quiet_trans)
  show ?thesis
  proof (cases res)
    case (Inr h)
    let ?f = "Some (length (pb_futures p1))"
    let ?p2 = "p1\<lparr>pb_futures := pb_futures p1 @ [FuturePending]\<rparr>"
    obtain b p3 where e: "enqueue ARegister h (register_fields rg) None ?f ?p2 = (b, p3)"
      by (cases "enqueue ARegister h (register_fields rg) None ?f ?p2")
    have "quiet p1 ?p2" by (rule quiet_same) simp_all
    then have 3: "quiet p p3" using quiet_trans 1 quiet_small(3) [of ?p2 ARegister h "register_fields rg" None ?f] e by (metis snd_conv)
    have "quiet p3 (p3\<lparr>pb_lock := l\<rparr>)" for l by (rule quiet_same) simp_all
    then show ?thesis using p1 Inr e quiet_trans [OF 3] quiet_refused by (auto simp: register_locked_def split: bool.split)
  qed (use p1 1 in \<open>simp add: register_locked_def\<close>)
qed

lemma quiet_call: "map_of (pb_rows p) draw = None \<Longrightarrow> quiet p (snd (register_call w draw rg p))"
  using quiet_locked [of p draw w rg] by (auto simp: register_call_def intro: quiet_same)

lemma quiet_next:
  assumes "map_of (pb_rows p) draw = None"
  shows "quiet p (snd (register_next w draw p))"
proof -
  have "quiet p (snd (register_locked w draw rg (p\<lparr>pb_waiting := ws\<rparr>)))" for rg ws
    using quiet_locked [of "p\<lparr>pb_waiting := ws\<rparr>" draw w rg] assms quiet_trans quiet_same [of "p\<lparr>pb_waiting := ws\<rparr>" p] by simp
  then show ?thesis by (auto simp: register_next_def split: option.split list.split)
qed

lemma quiet_resume: "quiet p (snd (register_resume auth w p))"
proof -
  have d: "quiet q (snd (register_done auth w rg h q))" for rg h q
  proof (cases "map_of (pb_rows q) h")
    case (Some row)
    have "quiet q (set_row h (row\<lparr>pr_preview := rg_preview rg\<rparr>) q)" by (rule quiet_set_row) (simp add: Some row_kept_def)
    then show ?thesis using Some by (auto simp: register_done_def intro: quiet_save_case split: prod.split sum.split)
  qed (simp add: register_done_def)
  have "quiet p (p\<lparr>pb_lock := None\<rparr>)" by (rule quiet_same) simp_all
  then show ?thesis using quiet_trans d by (auto simp: register_resume_def Let_def split: option.split push_future.split)
qed

lemma quiet_registration_cancelled: "quiet p (register_cancelled p)"
proof -
  have "quiet p (p\<lparr>pb_lock := None\<rparr>)" by (rule quiet_same) simp_all
  then show ?thesis using quiet_trans quiet_small(5) by (auto simp: register_cancelled_def split: option.split)
qed

lemma quiet_dispatch:
  "map_of (pb_rows p) draw = None \<Longrightarrow> quiet p (snd (push_dispatch auth w now draw device ep meth params p))"
  by (rule dispatch_keeps [where P = "quiet p"]) (rule quiet_refl quiet_reads quiet_revoke quiet_call | assumption)+

lemma quiet_wake: "quiet p (push_wake other chacha auth now wall draws device ep identity route d p)"
proof -
  have r: "quiet q (remember_route now h a q)" for h a q by (rule quiet_same) (simp_all add: remember_route_def prune_pending_def Let_def)
  have one: "quiet q (wake_one other chacha now wall draws device ep rt d h q)" for rt h q
  proof -
    have "quiet q q'" if "enqueue AWake h body x None q = (b, q')" for body x b q' using quiet_small(3) [of q AWake h body x None] that by simp
    moreover have "quiet q (clear_pending h None q')" if "quiet q q'" for q' by (rule quiet_trans [OF that quiet_small(6)])
    moreover have "quiet q (remember_route now h a q')" if "quiet q q'" for a q' by (rule quiet_trans [OF that r])
    ultimately show ?thesis
      by (simp add: wake_one_def Let_def split: option.split prod.split bool.split)
  qed
  have s: "quiet p (p\<lparr>pb_seen := x\<rparr>)" for x by (rule quiet_same) simp_all
  show ?thesis using s quiet_trans [OF s quiet_fold [OF one]] by (auto simp: push_wake_def Let_def split: option.split)
qed

lemma quiet_finish: "quiet p (finish_job auth job success retired p)"
proof -
  have 1: "quiet p (clear_arrival h e (clear_pending h e p))" for h e by (blast intro: quiet_trans quiet_intro)
  have 2: "quiet q (q\<lparr>pb_worker := WorkerIdle\<rparr>)" for q by (rule quiet_idle) simp_all
  have 3: "quiet q (fold enqueue_unregister retired q)" for q by (rule quiet_fold) (rule quiet_small)
  show ?thesis unfolding finish_job_def Let_def
    by (rule quiet_trans [OF quiet_trans [OF quiet_trans [OF _ 2] 3] quiet_small(5)]) (simp add: 1)
qed

lemma quiet_finish_save: "quiet p q \<Longrightarrow> push_save w q = (res, p1) \<Longrightarrow> quiet p (finish_job auth job success retired p1)"
  by (rule quiet_trans [OF quiet_save_case quiet_finish])

lemma quiet_settle_register: "quiet p (settle_register auth w job success p)"
proof (cases "map_of (pb_rows p) (jb_handle job)")
  case (Some row)
  let ?h = "jb_handle job"
  let ?p1 = "set_row ?h (row\<lparr>pr_status := RowActive\<rparr>) p"
  have "quiet p ?p1" if "pr_status row = RowPending" by (rule quiet_set_row) (simp add: Some row_kept_def that)
  then have 2: "pr_status row = RowPending \<Longrightarrow> quiet p (fold retire (other_rows ?h ?p1) ?p1)"
    using quiet_trans quiet_fold [of retire, OF quiet_retire] by blast
  have "quiet p (finish_job auth job success [] (enqueue_unregister ?h p1))" if "push_save w (make_debt ?h p) = (res, p1)" for res p1
    by (rule quiet_trans [OF quiet_trans [OF quiet_save_case [OF quiet_debt that] quiet_small(4)] quiet_finish])
  then show ?thesis using Some 2 quiet_finish_save [OF quiet_debt [of p ?h]]
    by (auto simp: settle_register_def Let_def intro: quiet_finish quiet_finish_save split: prod.split sum.split)
qed (simp add: settle_register_def quiet_finish)

lemma quiet_closing: "quiet p (push_close p)" "quiet p (push_closed p)"
proof -
  let ?p1 = "p\<lparr>pb_closed := True\<rparr>"
  let ?p2 = "case pb_worker ?p1 of WorkerPosting job _ _ \<Rightarrow> cancel_http (jb_handle job) ?p1 | _ \<Rightarrow> ?p1"
  have 1: "quiet p ?p1" by (rule quiet_same) simp_all
  have 2: "quiet ?p1 ?p2" using quiet_cancel by (simp split: push_worker.split)
  have q: "quiet q (q\<lparr>pb_queue := js\<rparr>)" for q js by (rule quiet_same) simp_all
  have f: "quiet q (fold (\<lambda>job. settle_future FutureCancelled (jb_future job)) js q)" for js q by (rule quiet_fold) (rule quiet_small)
  have 3: "quiet p (fold (\<lambda>job. settle_future FutureCancelled (jb_future job)) js (?p2\<lparr>pb_queue := []\<rparr>))" for js
    by (rule quiet_trans [OF 1 quiet_trans [OF 2 quiet_trans [OF q f]]])
  have 4: "quiet p ((fold (\<lambda>job. settle_future FutureCancelled (jb_future job)) js (?p2\<lparr>pb_queue := []\<rparr>))\<lparr>pb_queue := ks\<rparr>)" for js ks
    by (rule quiet_trans [OF 3 q])
  show "quiet p (push_close p)" unfolding push_close_def Let_def by (intro if_split [of "quiet p", THEN iffD2] conjI impI 3 4)
  let ?f = "\<lambda>row. if pr_status row = RowActive then row else row\<lparr>pr_preview := None\<rparr>"
  have "row_kept row (?f row)" for row by (simp add: row_kept_def)
  moreover have "map_of (map (\<lambda>(h, row). (h, ?f row)) (pb_rows p)) = map_option ?f \<circ> map_of (pb_rows p)" by (rule map_of_map)
  ultimately show "quiet p (push_closed p)"
    by (simp add: push_closed_def quiet_def rows_kept_def worker_kept_def)
qed

section \<open>What the worker does in one step\<close>

lemma quiet_not_posting: "quiet p q \<Longrightarrow> not_posting (pb_worker p) \<Longrightarrow> not_posting (pb_worker q)"
  by (auto simp: quiet_def worker_kept_def)

lemma finish_not_posting: "not_posting (pb_worker (finish_job auth job success retired p))"
proof -
  have "not_posting (pb_worker (fold enqueue_unregister retired (q\<lparr>pb_worker := WorkerIdle\<rparr>)))" for q
    by (rule quiet_not_posting [OF quiet_fold [OF quiet_small(4)]]) simp
  then show ?thesis by (simp add: finish_job_def Let_def push_frame)
qed

lemma take_cases:
  "quiet p (worker_take auth p)
   \<or> (\<exists>job js. pb_queue p = job # js \<and> job_allowed auth job (p\<lparr>pb_queue := js\<rparr>) \<and> jb_action job \<noteq> AClose
        \<and> worker_take auth p = p\<lparr>pb_queue := js, pb_worker := WorkerPosting job HttpCreated False\<rparr>)"
proof (cases "pb_worker p = WorkerIdle \<and> pb_queue p \<noteq> []")
  case True
  then obtain job js where js: "pb_queue p = job # js" by (cases "pb_queue p") auto
  let ?q = "p\<lparr>pb_queue := js\<rparr>"
  have "quiet p (?q\<lparr>pb_worker := WorkerEnded\<rparr>)" by (rule quiet_idle) simp_all
  moreover have "quiet p (finish_job auth job False [] ?q)" by (rule quiet_trans [OF quiet_same quiet_finish]) simp_all
  ultimately show ?thesis using True js by (simp add: worker_take_def Let_def)
qed (auto simp: worker_take_def split: push_worker.split list.split)

definition fresh_preview :: "push_job \<Rightarrow> rat \<Rightarrow> rat \<Rightarrow> bool" where
  "fresh_preview job wall timeout \<longleftrightarrow> (\<forall>t. jb_expires_at job = Some t \<longrightarrow> wall + timeout < of_int t)"

lemma post_cases:
  obtains (same) "post_start wall timeout token_ok p = p"
  | (skipped) job where "pb_worker p = WorkerPosting job HttpCreated False"
      "post_start wall timeout token_ok p = p\<lparr>pb_worker := WorkerPosting job (HttpFinished False) False\<rparr>"
  | (sent) job row where "pb_worker p = WorkerPosting job HttpCreated False" "map_of (pb_rows p) (jb_handle job) = Some row" "row_bound p row"
      "fresh_preview job wall timeout" "length (request_payload job) \<le> MAX_PUSH_BODY_BYTES"
      "post_start wall timeout token_ok p = p\<lparr>pb_worker := WorkerPosting job HttpSent False,
          pb_sent := pb_sent p @ [\<lparr>pq_action = jb_action job, pq_handle = jb_handle job, pq_payload = request_payload job,
                                   pq_device = pr_device row, pq_epoch = pr_epoch row\<rparr>]\<rparr>"
proof (cases "\<exists>job. pb_worker p = WorkerPosting job HttpCreated False")
  case True
  then obtain job where w: "pb_worker p = WorkerPosting job HttpCreated False" by blast
  show ?thesis
  proof (cases "map_of (pb_rows p) (jb_handle job)")
    case None
    show ?thesis by (rule skipped [OF w]) (simp only: post_start_def w push_worker.case http_phase.case bool.case None option.case)
  next
    case (Some row)
    let ?bad = "\<not> row_bound p row \<or> (case jb_expires_at job of None \<Rightarrow> False | Some t \<Rightarrow> wall + timeout \<ge> of_int t)
       \<or> length (request_payload job) > MAX_PUSH_BODY_BYTES \<or> \<not> token_ok"
    show ?thesis
    proof (cases ?bad)
      case True
      then show ?thesis by (intro skipped [OF w]) (simp only: post_start_def w push_worker.case http_phase.case bool.case Some option.case if_True)
    next
      case False
      then have "fresh_preview job wall timeout" by (auto simp: fresh_preview_def)
      then show ?thesis using False
        by (intro sent [OF w Some]) (simp_all add: post_start_def w Some)
    qed
  qed
next
  case False
  then show ?thesis by (intro same) (auto simp: post_start_def split: push_worker.split http_phase.split bool.split)
qed

lemma post_end_cases:
  "post_end ok p = p \<or> (\<exists>job. pb_worker p = WorkerPosting job HttpSent False
     \<and> post_end ok p = p\<lparr>pb_worker := WorkerPosting job (HttpFinished ok) False\<rparr>)"
  by (auto simp: post_end_def split: push_worker.split http_phase.split bool.split)

lemma resume_cases:
  "quiet p (worker_resume auth w timed_out p)
   \<or> (\<exists>job c d. pb_worker p = WorkerPosting job (HttpFinished True) c \<and> jb_action job = AUnregister
        \<and> map_of (pb_generation p) (jb_handle job) = Some (jb_generation job)
        \<and> pb_rows d = AList.delete (jb_handle job) (pb_rows p) \<and> pb_sent d = pb_sent p \<and> quiet d (worker_resume auth w timed_out p)
        \<and> not_posting (pb_worker (worker_resume auth w timed_out p)))"
proof -
  have q: "quiet p (worker_settle auth w job success p)"
    if "\<not> (jb_action job = AUnregister \<and> success \<and> map_of (pb_generation p) (jb_handle job) = Some (jb_generation job))" for job success
    using that quiet_settle_register quiet_finish by (auto simp: worker_settle_def Let_def)
  have f: "quiet p (worker_settle auth w job False p)" for job by (rule q) simp
  show ?thesis
  proof (cases "pb_worker p")
    case (WorkerPosting job ph c)
    show ?thesis
    proof (cases "jb_action job = AUnregister \<and> ph = HttpFinished True \<and> map_of (pb_generation p) (jb_handle job) = Some (jb_generation job)")
      case True
      let ?d = "p\<lparr>pb_rows := AList.delete (jb_handle job) (pb_rows p), pb_generation := AList.delete (jb_handle job) (pb_generation p)\<rparr>"
      have r: "worker_resume auth w timed_out p = settle_unregister auth w job p"
        using True WorkerPosting by (simp add: worker_resume_def worker_settle_def Let_def)
      moreover have "quiet ?d (settle_unregister auth w job p)"
        by (auto simp: settle_unregister_def intro: quiet_finish_save [OF quiet_refl] split: prod.split sum.split)
      moreover have "not_posting (pb_worker (settle_unregister auth w job p))"
        by (simp add: settle_unregister_def finish_not_posting split: prod.split sum.split)
      ultimately show ?thesis using True WorkerPosting by (intro disjI2 exI [of _ job] exI [of _ c] exI [of _ ?d]) simp
    next
      case False
      have "quiet p (worker_resume auth w timed_out p)"
        using f q False WorkerPosting by (cases ph) (auto simp: worker_resume_def)
      then show ?thesis ..
    qed
  qed (simp_all add: worker_resume_def)
qed

definition worker_event :: "push_event \<Rightarrow> bool" where
  "worker_event e \<longleftrightarrow> (case e of ETake _ \<Rightarrow> True | EPost _ _ _ \<Rightarrow> True | EPostEnd _ \<Rightarrow> True | EResume _ _ _ \<Rightarrow> True | _ \<Rightarrow> False)"

lemma quiet_step: "\<not> worker_event e \<Longrightarrow> quiet p (fresh_step e p)"
proof -
  assume e: "\<not> worker_event e"
  have "quiet p (p\<lparr>pb_waiting := x\<rparr>)" for x by (rule quiet_same) simp_all
  then show ?thesis using e
    by (cases e) (simp_all add: worker_event_def fresh_step_def push_step_def draw_fresh_def worker_idle_def quiet_small(1,2) quiet_dispatch
      quiet_next quiet_resume quiet_registration_cancelled quiet_revoke quiet_wake quiet_closing del: map_of_eq_None_iff)
qed

lemma step_cases [case_names quiet take post post_end resume]:
  assumes "quiet p (fresh_step e p) \<Longrightarrow> R" and "\<And>auth. e = ETake auth \<Longrightarrow> R" and "\<And>wall timeout ok. e = EPost wall timeout ok \<Longrightarrow> R"
    and "\<And>ok. e = EPostEnd ok \<Longrightarrow> R" and "\<And>auth w t. e = EResume auth w t \<Longrightarrow> R"
  shows R
  using quiet_step [of e p] assms by (cases e) (simp_all add: worker_event_def)

lemma worker_step:
  "fresh_step (ETake auth) p = worker_take auth p" "fresh_step (EPost wall timeout ok) p = post_start wall timeout ok p"
  "fresh_step (EPostEnd ok) p = post_end ok p" "fresh_step (EResume auth w t) p = worker_resume auth w t p"
  by (simp_all add: fresh_step_def push_step_def draw_fresh_def)

section \<open>Requests\<close>

definition answered :: "push_bridge \<Rightarrow> bool" where
  \<comment> \<open>a job whose request is out, or was answered well, has sent it\<close>
  "answered p \<longleftrightarrow>
     (\<forall>job ph c. pb_worker p = WorkerPosting job ph c \<longrightarrow> ph = HttpSent \<or> ph = HttpFinished True \<longrightarrow>
        (\<exists>r \<in> set (pb_sent p). pq_action r = jb_action job \<and> pq_handle r = jb_handle job))"

lemma answered_quiet: "quiet p q \<Longrightarrow> answered p \<Longrightarrow> answered q"
  unfolding quiet_def worker_kept_def answered_def not_posting_def by (metis push_worker.inject)

lemma answered_idle: "not_posting (pb_worker p) \<Longrightarrow> answered p"
  by (auto simp: answered_def)

lemma answered_step: "answered p \<Longrightarrow> answered (fresh_step e p)"
proof -
  assume a: "answered p"
  show ?thesis
  proof (cases rule: step_cases [of p e])
    case quiet
    then show ?thesis by (rule answered_quiet [OF _ a])
  next
    case (take auth)
    have "answered (p\<lparr>pb_queue := js, pb_worker := WorkerPosting job HttpCreated False\<rparr>)" for job js by (simp add: answered_def)
    then show ?thesis using take_cases [of p auth] answered_quiet [OF _ a] unfolding take worker_step by metis
  next
    case (post wall timeout ok)
    show ?thesis unfolding post worker_step
      by (cases rule: post_cases [of wall timeout ok p]) (simp_all add: a, simp_all add: answered_def)
  next
    case (post_end ok)
    have "\<exists>r \<in> set (pb_sent p). pq_action r = jb_action job \<and> pq_handle r = jb_handle job" if "pb_worker p = WorkerPosting job HttpSent False" for job
      using a that unfolding answered_def by blast
    then have "answered (p\<lparr>pb_worker := WorkerPosting job (HttpFinished ok) False\<rparr>)" if "pb_worker p = WorkerPosting job HttpSent False" for job
      using that by (simp add: answered_def)
    then show ?thesis using post_end_cases [of ok p] a unfolding post_end worker_step by metis
  next
    case (resume auth w t)
    show ?thesis using resume_cases [of p auth w t] answered_quiet [OF _ a] answered_idle unfolding resume worker_step by metis
  qed
qed

lemma built_worker: "bridge_built p \<Longrightarrow> pb_worker p = NoWorker \<and> pb_sent p = []"
proof (erule built_cases)
  fix auth w rows origin route preview production stored
  have "pb_worker (fold (adopt_row auth) rows q) = pb_worker q \<and> pb_sent (fold (adopt_row auth) rows q) = pb_sent q" for q
    by (induction rows arbitrary: q) (simp_all add: adopt_frame)
  from this [of "blank_bridge origin route preview production stored"]
  show "p = fold (adopt_row auth) rows (blank_bridge origin route preview production stored)
       \<or> p = snd (push_save w (fold (adopt_row auth) rows (blank_bridge origin route preview production stored)))
    \<Longrightarrow> pb_worker p = NoWorker \<and> pb_sent p = []"
    by (auto simp: save_frame blank_bridge_def)
qed

interpretation push_full: invariant_component bridge_built fresh_step "\<lambda>p. push_inv p \<and> answered p"
  by unfold_locales (auto simp: built_inv built_worker fresh_step_inv answered_step intro!: answered_idle)

section \<open>Properties\<close>

text \<open>
  C39. Whatever requests, wakes, revocations, HTTP outcomes, restarts of the worker and closings a
  bridge goes through, it keeps at most 64 rows with distinct handles, 64 jobs, 64 routes by wake
  and by arrival and 256 wake identities; only a preview row that is not a debt holds a key; and a
  route is kept only for an active row of the device and epoch it was recorded for.
\<close>

theorem push_state_bounded:
  assumes "bridge_built p0" and "p = fold fresh_step es p0"
  shows "length (pb_rows p) \<le> 64 \<and> distinct (map fst (pb_rows p)) \<and> length (pb_queue p) \<le> 64
    \<and> length (pb_pending p) \<le> 64 \<and> length (pb_arrivals p) \<le> 64 \<and> length (pb_seen p) \<le> 256
    \<and> (\<forall>h row. map_of (pb_rows p) h = Some row \<longrightarrow> pr_preview row \<noteq> None \<longrightarrow> pr_status row \<noteq> RowDebt \<and> pr_mode row = PreviewMode)
    \<and> (\<forall>(h, a) \<in> set (pb_pending p). routed p h a) \<and> (\<forall>((h, event_id), a) \<in> set (pb_arrivals p). routed p h a)"
proof -
  have inv: "push_inv p" using push.inv_reachable [OF assms(1)] assms(2) by simp
  have "pr_status row \<noteq> RowDebt \<and> pr_mode row = PreviewMode" if "map_of (pb_rows p) h = Some row" "pr_preview row \<noteq> None" for h row
    using inv_shape [OF inv that(1)] that(2) by (auto simp: row_shape_def)
  then show ?thesis using inv
    by (simp add: push_inv_def rows_inv_def bounds_inv_def MAX_ROWS_PUSH_def MAX_PENDING_ROUTES_def QUEUE_SIZE_def)
qed

lemma fence_posting:
  assumes "push_inv p" and "pb_worker p = WorkerPosting job ph c" and "map_of (pb_rows p) (jb_handle job) = Some row"
  shows "jb_action job = AUnregister \<Longrightarrow> map_of (pb_generation p) (jb_handle job) = Some (jb_generation job) \<Longrightarrow> pr_status row = RowDebt"
    and "jb_action job = AWake \<Longrightarrow> \<not> c \<Longrightarrow> unfinished ph \<Longrightarrow> pr_status row = RowActive \<and> row_bound p row"
proof -
  obtain r where "map_of (pb_rows p) (jb_handle job) = Some r"
    "jb_action job = AUnregister \<longrightarrow> map_of (pb_generation p) (jb_handle job) = Some (jb_generation job) \<longrightarrow> pr_status r = RowDebt"
    "jb_action job = AWake \<longrightarrow> \<not> c \<longrightarrow> \<not> unfinished ph \<or> pr_status r = RowActive \<and> row_bound p r"
    using assms(1,2) unfolding push_inv_def fence_inv_def by blast
  then show "jb_action job = AUnregister \<Longrightarrow> map_of (pb_generation p) (jb_handle job) = Some (jb_generation job) \<Longrightarrow> pr_status row = RowDebt"
    "jb_action job = AWake \<Longrightarrow> \<not> c \<Longrightarrow> unfinished ph \<Longrightarrow> pr_status row = RowActive \<and> row_bound p row"
    using assms(3) by auto
qed

lemma resume_loses:
  assumes inv: "push_inv p" "answered p" and row: "map_of (pb_rows p) h = Some row"
  shows "(\<exists>row'. map_of (pb_rows (fresh_step (EResume auth w t) p)) h = Some row' \<and> row_kept row row')
    \<or> (pr_status row = RowDebt
       \<and> (\<exists>job c. pb_worker p = WorkerPosting job (HttpFinished True) c \<and> jb_action job = AUnregister \<and> jb_handle job = h)
       \<and> (\<exists>r \<in> set (pb_sent p). pq_action r = AUnregister \<and> pq_handle r = h))"
proof -
  consider "quiet p (fresh_step (EResume auth w t) p)"
    | job c d where "pb_worker p = WorkerPosting job (HttpFinished True) c" "jb_action job = AUnregister"
      "map_of (pb_generation p) (jb_handle job) = Some (jb_generation job)" "pb_rows d = AList.delete (jb_handle job) (pb_rows p)"
      "quiet d (fresh_step (EResume auth w t) p)"
    using resume_cases [of p auth w t] unfolding worker_step by blast
  then show ?thesis
  proof cases
    case 1
    then show ?thesis using row by (simp add: quiet_def rows_kept_def)
  next
    case (2 job c d)
    show ?thesis
    proof (cases "jb_handle job = h")
      case True
      have "pr_status row = RowDebt" using fence_posting(1) [OF inv(1) 2(1)] 2 True row by blast
      moreover have "\<exists>r \<in> set (pb_sent p). pq_action r = AUnregister \<and> pq_handle r = h"
        using inv(2) 2 True unfolding answered_def by metis
      ultimately show ?thesis using 2 True by blast
    next
      case False
      then have "map_of (pb_rows d) h = Some row" using row 2 by (simp add: delete_conv')
      then show ?thesis using 2(5) by (simp add: quiet_def rows_kept_def)
    qed
  qed
qed

text \<open>
  C37. A registration is never lost. In any reachable state, a step keeps every row with its device,
  epoch, origin, route, mode and environment, a debt stays a debt and an active row does not become
  pending again; the one exception is a debt whose unregister request has been sent and answered by
  the relay with success, whose row is removed when the worker settles it.
\<close>

theorem registration_outlives_all_but_unregistration:
  assumes "bridge_built p0" and "p = fold fresh_step es p0" and row: "map_of (pb_rows p) h = Some row"
  shows "(\<exists>row'. map_of (pb_rows (fresh_step e p)) h = Some row' \<and> row_kept row row')
    \<or> (pr_status row = RowDebt
       \<and> (\<exists>job c. pb_worker p = WorkerPosting job (HttpFinished True) c \<and> jb_action job = AUnregister \<and> jb_handle job = h)
       \<and> (\<exists>r \<in> set (pb_sent p). pq_action r = AUnregister \<and> pq_handle r = h))"
proof -
  have inv: "push_inv p" "answered p" using push_full.inv_reachable [OF assms(1)] assms(2) by simp_all
  have k: "quiet p q \<Longrightarrow> \<exists>row'. map_of (pb_rows q) h = Some row' \<and> row_kept row row'" for q
    using row by (simp add: quiet_def rows_kept_def)
  have same: "pb_rows q = pb_rows p \<Longrightarrow> \<exists>row'. map_of (pb_rows q) h = Some row' \<and> row_kept row row'" for q
    using row by simp
  show ?thesis
  proof (cases rule: step_cases [of p e])
    case quiet
    then show ?thesis using k by blast
  next
    case (take auth)
    then show ?thesis using take_cases [of p auth] k same by (metis worker_step(1) push_bridge.select_convs(5) push_bridge.surjective push_bridge.update_convs(8,9))
  next
    case (post wall timeout ok)
    have "pb_rows (fresh_step e p) = pb_rows p"
      unfolding post worker_step by (cases rule: post_cases [of wall timeout ok p]) simp_all
    then show ?thesis using same by blast
  next
    case (post_end ok)
    have "pb_rows (fresh_step e p) = pb_rows p" using post_end_cases [of ok p] unfolding post_end worker_step by auto
    then show ?thesis using same by blast
  next
    case (resume auth w t)
    show ?thesis unfolding resume by (rule resume_loses [OF inv row])
  qed
qed

definition request_current :: "push_bridge \<Rightarrow> push_job \<Rightarrow> push_request \<Rightarrow> bool" where
  "request_current p job r \<longleftrightarrow>
     (\<exists>row. map_of (pb_rows p) (pq_handle r) = Some row \<and> pr_origin row = Some (pb_origin p) \<and> pr_route row = Some (pb_route p)
        \<and> pq_device r = pr_device row \<and> pq_epoch r = pr_epoch row
        \<and> (pq_action r = AWake \<longrightarrow> pr_status row = RowActive)
        \<and> (pq_action r = AUnregister \<longrightarrow> map_of (pb_generation p) (pq_handle r) = Some (jb_generation job) \<longrightarrow> pr_status row = RowDebt))
     \<and> length (pq_payload r) \<le> 3072"

text \<open>
  C38. What leaves the host. In any reachable state a step sends at most one request. It is for a row
  that exists, registered at this bridge's own origin and route, and says whose row that is; its body
  holds at most 3072 bytes; a preview in it has not expired and would not during the request. A wake
  goes out for an active row only, and an unregister for a row that is not a debt only if the row
  has changed its generation since.
\<close>

theorem requests_are_current:
  assumes "bridge_built p0" and "p = fold fresh_step es p0"
  shows "pb_sent (fresh_step e p) = pb_sent p
    \<or> (\<exists>wall timeout token_ok job r. e = EPost wall timeout token_ok \<and> pb_worker p = WorkerPosting job HttpCreated False
         \<and> pb_sent (fresh_step e p) = pb_sent p @ [r] \<and> pq_handle r = jb_handle job \<and> pq_action r = jb_action job
         \<and> request_current p job r \<and> (\<forall>t. jb_expires_at job = Some t \<longrightarrow> wall + timeout < of_int t))"
proof -
  have inv: "push_inv p" using push.inv_reachable [OF assms(1)] assms(2) by simp
  show ?thesis
  proof (cases rule: step_cases [of p e])
    case quiet
    then show ?thesis by (simp add: quiet_def)
  next
    case (take auth)
    have "quiet p (worker_take auth p) \<Longrightarrow> pb_sent (worker_take auth p) = pb_sent p" by (simp add: quiet_def)
    then have "pb_sent (fresh_step e p) = pb_sent p" using take_cases [of p auth] unfolding take worker_step by force
    then show ?thesis ..
  next
    case (post wall timeout ok)
    show ?thesis
    proof (cases rule: post_cases [of wall timeout ok p])
      case (sent job row)
      let ?r = "\<lparr>pq_action = jb_action job, pq_handle = jb_handle job, pq_payload = request_payload job,
                 pq_device = pr_device row, pq_epoch = pr_epoch row\<rparr>"
      have "jb_action job = AUnregister \<longrightarrow> map_of (pb_generation p) (jb_handle job) = Some (jb_generation job) \<longrightarrow> pr_status row = RowDebt"
        "jb_action job = AWake \<longrightarrow> pr_status row = RowActive"
        using fence_posting [OF inv sent(1,2)] by simp_all
      then have "request_current p job ?r" using sent by (simp add: request_current_def row_bound_def MAX_PUSH_BODY_BYTES_def)
      moreover have "pb_sent (fresh_step e p) = pb_sent p @ [?r]" unfolding post worker_step sent(6) by simp
      moreover have "\<forall>t. jb_expires_at job = Some t \<longrightarrow> wall + timeout < of_int t" using sent(4) by (simp add: fresh_preview_def)
      ultimately show ?thesis using post sent(1)
        by (intro disjI2 exI [of _ wall] exI [of _ timeout] exI [of _ ok] exI [of _ job] exI [of _ ?r]) simp
    qed (simp_all add: post worker_step)
  next
    case (post_end ok)
    have "pb_sent (fresh_step e p) = pb_sent p" using post_end_cases [of ok p] unfolding post_end worker_step by auto
    then show ?thesis ..
  next
    case (resume auth w t)
    have "pb_sent (fresh_step e p) = pb_sent p" using resume_cases [of p auth w t] unfolding resume worker_step quiet_def by metis
    then show ?thesis ..
  qed
qed

section \<open>Revocation\<close>











section \<open>Instances\<close>

text \<open>A bridge on which a phone registers and the relay accepts it.\<close>

definition demo_push :: push_bridge where
  "demo_push = blank_bridge (lit ''https://relay.example'') (canonical_b64url (replicate 32 7)) False False None"

definition demo_handle :: "nat \<Rightarrow> pystr" where
  "demo_handle n = replicate 43 (65 + n)"

definition demo_register :: "nat \<Rightarrow> push_event" where
  "demo_register n = EDispatch (\<lambda>_ _. True) True 0 (demo_handle n) (lit ''phone'') 1 (lit ''relay.push.register'')
     [(lit ''device_token'', JStr (replicate 32 48)), (lit ''environment'', JStr (lit ''sandbox''))]"

definition demo_accepted :: "push_event list" where
  "demo_accepted = [demo_register 0, ETake (\<lambda>_ _. True), EPost 0 5 True, EPostEnd True, EResume (\<lambda>_ _. True) True False, ERegistered (\<lambda>_ _. True) True]"

definition demo_wake :: push_event where
  "demo_wake = EWake (\<lambda>_. False) (\<lambda>_ _ _ _. []) (\<lambda>_ _. True) 0 0 (\<lambda>_. (demo_handle 7, [])) (lit ''phone'') 1 [1] JNull NoData"

lemma demo_built: "bridge_built demo_push"
proof -
  have "new_push_bridge ascii_urls 1000 (\<lambda>_ _. True) True (lit ''wss://relay.example'') (replicate 32 7) False False None = Some demo_push"
    by code_simp
  then show ?thesis unfolding bridge_built_def by blast
qed

lemma demo_row: "map_option pr_status (map_of (pb_rows (fold fresh_step demo_accepted demo_push)) (demo_handle 0)) = Some RowActive"
  by code_simp

theorem push_state_bounded_witness:
  "map_of (pb_rows (fold fresh_step demo_accepted demo_push)) (demo_handle 0) \<noteq> None
     \<and> length (pb_queue (fold fresh_step demo_accepted demo_push)) \<le> 64"
  using push_state_bounded [OF demo_built refl, where es = demo_accepted] demo_row by (elim conjE) auto

theorem registration_outlives_all_but_unregistration_witness:
  "\<exists>row row'. map_of (pb_rows (fold fresh_step demo_accepted demo_push)) (demo_handle 0) = Some row
     \<and> map_of (pb_rows (fresh_step EClose (fold fresh_step demo_accepted demo_push))) (demo_handle 0) = Some row' \<and> row_kept row row'"
proof -
  obtain row where row: "map_of (pb_rows (fold fresh_step demo_accepted demo_push)) (demo_handle 0) = Some row" "pr_status row = RowActive"
    using demo_row unfolding map_option_eq_Some by blast
  from registration_outlives_all_but_unregistration [OF demo_built refl row(1), where e = EClose] row show ?thesis by auto
qed

theorem requests_are_current_witness:
  "length (pb_sent (fold fresh_step (demo_accepted @ [demo_wake, ETake (\<lambda>_ _. True)]) demo_push)) = 1
     \<and> (\<exists>job r. pb_sent (fresh_step (EPost 0 5 True) (fold fresh_step (demo_accepted @ [demo_wake, ETake (\<lambda>_ _. True)]) demo_push))
             = pb_sent (fold fresh_step (demo_accepted @ [demo_wake, ETake (\<lambda>_ _. True)]) demo_push) @ [r]
          \<and> request_current (fold fresh_step (demo_accepted @ [demo_wake, ETake (\<lambda>_ _. True)]) demo_push) job r)"
proof -
  let ?p = "fold fresh_step (demo_accepted @ [demo_wake, ETake (\<lambda>_ _. True)]) demo_push"
  have l: "length (pb_sent ?p) = 1 \<and> length (pb_sent (fresh_step (EPost 0 5 True) ?p)) = 2" by code_simp
  then have "pb_sent (fresh_step (EPost 0 5 True) ?p) \<noteq> pb_sent ?p" by auto
  then show ?thesis using requests_are_current [OF demo_built refl, where es = "demo_accepted @ [demo_wake, ETake (\<lambda>_ _. True)]" and e = "EPost 0 5 True"] l
    by blast
qed


section \<open>Two flaws\<close>

text \<open>
  A registration that waits for the lock while the bridge closes gets the lock afterwards: it stores
  and saves a new pending row of the closed bridge, queues a job behind the worker's end and awaits a
  future that nobody resolves.
\<close>

definition demo_stranded :: "push_event list" where
  "demo_stranded = [demo_register 0, demo_register 1, EClose, ERegistered (\<lambda>_ _. True) True, ETake (\<lambda>_ _. True), ENext True (demo_handle 2)]"

definition demo_view :: "nat \<Rightarrow> push_bridge \<Rightarrow> bool \<times> push_worker \<times> push_status option \<times> push_future list \<times> nat \<times> bool" where
  \<comment> \<open>closed, worker, status of a row, futures, number of jobs, and whether somebody holds the lock\<close>
  "demo_view n p = (pb_closed p, pb_worker p, map_option pr_status (map_of (pb_rows p) (demo_handle n)), pb_futures p, length (pb_queue p),
     pb_lock p \<noteq> None)"

lemma closing_strands_a_registration:
  "demo_view 2 (fold fresh_step demo_stranded demo_push) = (True, WorkerEnded, Some RowPending, [FutureCancelled, FuturePending], 1, True)"
  by code_simp

text \<open>
  The worker drops the register job of a pending row when the authorization callback says no (or
  raises) at that moment. The row stays pending, with its key, and nothing unregisters it: a later
  registration draws a new handle, so that 64 such rows fill the registry.
\<close>

definition demo_refused :: "push_event list" where
  "demo_refused = [demo_register 0, ETake (\<lambda>_ _. False), ERegistered (\<lambda>_ _. True) True, EIdle]"

lemma refused_registration_stays_pending:
  "demo_view 0 (fold fresh_step demo_refused demo_push) = (False, WorkerIdle, Some RowPending, [FutureFailed], 0, False)"
  by code_simp

end
