(* ===== verification/Push_Observer.thy ===== *)
theory Push_Observer
  imports Push_Props Recovery_Projection
begin

text \<open>
  \<open>PushObserver\<close> of \<^verbatim>\<open>push.py\<close>: it reads the live output of a controller and wakes the phone when a
  turn is complete or an answer is asked for. The digest of an identity (SHA-256 of its \<open>repr\<close>) and
  of a text are parameters; an exception the code swallows is the same as returning.
\<close>

datatype observed_identity =
    TurnIdentity pystr int               \<comment> \<open>\<open>(sid, kind, "turn", number)\<close>\<close>
  | TextIdentity pystr json bytes        \<comment> \<open>\<open>(sid, kind, seq, digest of the text)\<close>\<close>
  | RequestIdentity pystr pystr pystr    \<comment> \<open>\<open>(sid, kind, request_id)\<close>\<close>

record push_observer =
  ob_turns :: "(pystr, int \<times> bool) odict"      \<comment> \<open>number of the turn and whether it was announced\<close>
  ob_titles :: "(pystr, pystr) odict"
  ob_serial :: int

record announcement =
  an_identity :: observed_identity
  an_route :: json
  an_data :: wake_data

definition new_push_observer :: push_observer where
  "new_push_observer = \<lparr>ob_turns = [], ob_titles = [], ob_serial = 0\<rparr>"

definition INPUT_EVENTS :: "pystr set" where
  "INPUT_EVENTS = lit ` {''approval.request'', ''clarify.request'', ''secret.request'', ''sudo.request'', ''vault.unlock.request'', ''vault.save_login.request''}"

definition live_event :: "nat \<Rightarrow> pystr \<Rightarrow> (pystr \<times> dict \<times> dict) option" where
  \<comment> \<open>the session, params and payload of a live event\<close>
  "live_event recursion_limit s =
     (case loads_strict recursion_limit s of
        Some (JObj v) \<Rightarrow>
          if jget v ''method'' \<noteq> JStr (lit ''event'') then None
          else (case jget_or v ''params'' (JObj []) of
                  JObj params \<Rightarrow>
                    (case jget_or params ''payload'' (JObj []) of
                       JObj payload \<Rightarrow>
                         if list_ex (\<lambda>source. list_ex (\<lambda>flag. truthy (jget source flag)) [''replay'', ''historical'', ''interim'', ''interrupted'']) [params, payload]
                         then None
                         else (case jget params ''session_id'' of
                                 JStr sid \<Rightarrow> if 1 \<le> length sid \<and> length sid \<le> 128 then Some (sid, params, payload) else None
                               | _ \<Rightarrow> None)
                     | _ \<Rightarrow> None)
                | _ \<Rightarrow> None)
      | _ \<Rightarrow> None)"

definition observe_title :: "(nat \<Rightarrow> bool) \<Rightarrow> pystr \<Rightarrow> dict \<Rightarrow> push_observer \<Rightarrow> push_observer" where
  "observe_title other sid payload ob =
     (case normalize_title other (jstr (jget payload ''title'')) of
        Some (Some title) \<Rightarrow> ob\<lparr>ob_titles := od_trim 64 (od_move_to_end sid (AList.update sid title (ob_titles ob)))\<rparr>
      | _ \<Rightarrow> ob)"

definition observe_start :: "pystr \<Rightarrow> json \<Rightarrow> push_observer \<Rightarrow> push_observer" where
  "observe_start sid seq ob =
     (let serial = ob_serial ob + 1;
          turns = AList.update sid (case seq of JInt n \<Rightarrow> n | _ \<Rightarrow> serial, False) (ob_turns ob)
      in ob\<lparr>ob_serial := serial, ob_turns := (if length turns > 64 then tl turns else turns)\<rparr>)"

definition complete_text :: "dict \<Rightarrow> pystr option" where
  \<comment> \<open>the text of a message that is worth announcing\<close>
  "complete_text payload =
     (if jget_or payload ''role'' (JStr (lit ''assistant'')) \<noteq> JStr (lit ''assistant'')
         \<or> jget_or payload ''status'' (JStr (lit ''complete'')) \<noteq> JStr (lit ''complete'') then None
      else (case jget payload ''text'' of
              JStr content \<Rightarrow>
                if py_strip content = [] \<or> starts_with (lit ''Operation interrupted:'') (py_strip content) then None else Some content
            | _ \<Rightarrow> None))"

definition complete_identity :: "(bytes \<Rightarrow> bytes) \<Rightarrow> pystr \<Rightarrow> json \<Rightarrow> pystr \<Rightarrow> push_observer \<Rightarrow> (observed_identity \<times> push_observer) option" where
  "complete_identity sha256 sid seq content ob =
     (case map_of (ob_turns ob) sid of
        Some (number, announced) \<Rightarrow>
          if announced then None
          else Some (TurnIdentity sid number, ob\<lparr>ob_turns := AList.update sid (number, True) (ob_turns ob)\<rparr>)
      | None \<Rightarrow> map_option (\<lambda>b. (TextIdentity sid seq (sha256 b), ob)) (utf8_encode content))"

definition request_of :: "dict \<Rightarrow> pystr option" where
  "request_of payload =
     (case jget payload ''request_id'' of
        JStr request \<Rightarrow> if 1 \<le> length request \<and> length request \<le> 128 \<and> jget payload ''blocking'' \<noteq> JBool False then Some request else None
      | _ \<Rightarrow> None)"

definition observed_route :: "(pystr \<Rightarrow> bool option) \<Rightarrow> pystr \<Rightarrow> projection \<Rightarrow> json" where
  "observed_route authorizer sid pj =
     (case binding_for_runtime authorizer (JStr sid) pj of
        None \<Rightarrow> JNull
      | Some binding \<Rightarrow> JObj [(lit ''durable_session_id'', jget binding ''durable_session_id''), (lit ''profile'', jget binding ''profile'')])"

definition announce :: "observed_identity \<Rightarrow> json \<Rightarrow> wake_data \<Rightarrow> announcement" where
  \<comment> \<open>without a route the title is dropped\<close>
  "announce identity route d =
     \<lparr>an_identity = identity, an_route = route,
      an_data = (case d of CompletionData t title \<Rightarrow> CompletionData t (if route = JNull then None else title) | _ \<Rightarrow> d)\<rparr>"

definition observe ::
  "(nat \<Rightarrow> bool) \<Rightarrow> (bytes \<Rightarrow> bytes) \<Rightarrow> nat \<Rightarrow> (pystr \<Rightarrow> bool option) \<Rightarrow> projection \<Rightarrow> pystr \<Rightarrow> push_observer \<Rightarrow> push_observer \<times> announcement option" where
  "observe other sha256 recursion_limit authorizer pj s ob =
     (case live_event recursion_limit s of
        None \<Rightarrow> (ob, None)
      | Some (sid, params, payload) \<Rightarrow>
          (case jget params ''type'' of
             JStr kind \<Rightarrow>
               if kind = lit ''session.title'' then (observe_title other sid payload ob, None)
               else if kind = lit ''message.start'' then (observe_start sid (jget params ''seq'') ob, None)
               else if kind = lit ''message.complete'' then
                 (case complete_text payload of
                    None \<Rightarrow> (ob, None)
                  | Some content \<Rightarrow>
                      (case complete_identity sha256 sid (jget params ''seq'') content ob of
                         None \<Rightarrow> (ob, None)
                       | Some (identity, ob1) \<Rightarrow>
                           (ob1, Some (announce identity (observed_route authorizer sid pj) (CompletionData content (map_of (ob_titles ob1) sid))))))
               else if kind \<in> INPUT_EVENTS then
                 (case request_of payload of
                    None \<Rightarrow> (ob, None)
                  | Some request \<Rightarrow> (ob, Some (announce (RequestIdentity sid kind request) (observed_route authorizer sid pj) (AttentionData kind))))
               else (ob, None)
           | _ \<Rightarrow> (ob, None)))"

definition observed_wake ::
  "(nat \<Rightarrow> bool) \<Rightarrow> aead \<Rightarrow> authorizer \<Rightarrow> rat \<Rightarrow> rat \<Rightarrow> (pystr \<Rightarrow> pystr \<times> bytes) \<Rightarrow> (observed_identity \<Rightarrow> bytes) \<Rightarrow> pystr \<Rightarrow> int
     \<Rightarrow> announcement option \<Rightarrow> push_bridge \<Rightarrow> push_bridge" where
  \<comment> \<open>the call of \<open>bridge.wake\<close>\<close>
  "observed_wake other chacha auth now wall draws digest device epoch a p =
     (case a of
        None \<Rightarrow> p
      | Some an \<Rightarrow> push_wake other chacha auth now wall draws device epoch (digest (an_identity an)) (an_route an) (an_data an) p)"

section \<open>Runs\<close>

record observed =
  \<comment> \<open>a text, and what the projection and the profile authorizer are when it passes\<close>
  oe_authorizer :: "pystr \<Rightarrow> bool option"
  oe_projection :: projection
  oe_text :: pystr



section \<open>The state of an observer\<close>







section \<open>What is announced\<close>









definition demo_projection :: projection where
  "demo_projection = new_projection (lit ''work'') []"

definition demo_text :: "string \<Rightarrow> observed" where
  "demo_text payload = \<lparr>oe_authorizer = \<lambda>_. None, oe_projection = demo_projection,
     oe_text = lit ''{\"method\":\"event\",\"params\":{\"session_id\":\"s\",\"seq\":4,'' @ lit payload @ lit ''}}''\<rparr>"


definition live_announcement :: "nat \<Rightarrow> (pystr \<Rightarrow> bool option) \<Rightarrow> projection \<Rightarrow> pystr \<Rightarrow> announcement \<Rightarrow> bool" where
  "live_announcement limit authorizer pj s a \<longleftrightarrow>
     (\<exists>v params payload sid kind.
        loads_strict limit s = Some (JObj v) \<and> jget v ''method'' = JStr (lit ''event'') \<and> jget v ''params'' = JObj params
        \<and> jget_or params ''payload'' (JObj []) = JObj payload \<and> jget params ''session_id'' = JStr sid \<and> length sid \<in> {1..128}
        \<and> jget params ''type'' = JStr kind
        \<and> (\<forall>flag \<in> {''replay'', ''historical'', ''interim'', ''interrupted''}. \<not> truthy (jget params flag) \<and> \<not> truthy (jget payload flag))
        \<and> (case an_data a of
              CompletionData content title \<Rightarrow>
                kind = lit ''message.complete'' \<and> jget payload ''text'' = JStr content \<and> py_strip content \<noteq> [] \<and> (an_route a = JNull \<longrightarrow> title = None)
            | AttentionData k \<Rightarrow>
                k = kind \<and> kind \<in> INPUT_EVENTS \<and> jget payload ''blocking'' \<noteq> JBool False
                \<and> (\<exists>request. an_identity a = RequestIdentity sid kind request \<and> length request \<in> {1..128})
            | NoData \<Rightarrow> False)
        \<and> (an_route a = JNull
           \<or> (\<exists>binding profile. binding_for_runtime authorizer (JStr sid) pj = Some binding \<and> jget binding ''live'' = JBool True
                \<and> jget binding ''profile'' = JStr profile \<and> authorizer profile = Some True
                \<and> an_route a = JObj [(lit ''durable_session_id'', jget binding ''durable_session_id''), (lit ''profile'', jget binding ''profile'')])))"

lemma live_eventD:
  assumes "live_event limit s = Some (sid, params, payload)"
  shows "\<exists>v. loads_strict limit s = Some (JObj v) \<and> jget v ''method'' = JStr (lit ''event'') \<and> jget v ''params'' = JObj params"
    and "jget_or params ''payload'' (JObj []) = JObj payload" and "jget params ''session_id'' = JStr sid" and "length sid \<in> {1..128}"
    and "\<forall>flag \<in> {''replay'', ''historical'', ''interim'', ''interrupted''}. \<not> truthy (jget params flag) \<and> \<not> truthy (jget payload flag)"
proof -
  obtain v where v: "loads_strict limit s = Some (JObj v)" "jget v ''method'' = JStr (lit ''event'')"
    and p: "jget_or v ''params'' (JObj []) = JObj params" "jget_or params ''payload'' (JObj []) = JObj payload"
    and sid: "jget params ''session_id'' = JStr sid" "length sid \<in> {1..128}"
    and f: "\<forall>flag \<in> {''replay'', ''historical'', ''interim'', ''interrupted''}. \<not> truthy (jget params flag) \<and> \<not> truthy (jget payload flag)"
    using assms by (auto simp: live_event_def split: option.splits json.splits if_splits)
  have "jget v ''params'' = JObj params"
  proof (cases "map_of v (lit ''params'')")
    case None
    then have "params = []" using p(1) by (simp add: jget_or_def)
    then show ?thesis using sid(1) by (simp add: jget_def)
  qed (use p(1) in \<open>simp add: jget_or_def jget_def\<close>)
  then show "\<exists>v. loads_strict limit s = Some (JObj v) \<and> jget v ''method'' = JStr (lit ''event'') \<and> jget v ''params'' = JObj params"
    using v by blast
  show "jget_or params ''payload'' (JObj []) = JObj payload" "jget params ''session_id'' = JStr sid" "length sid \<in> {1..128}"
    "\<forall>flag \<in> {''replay'', ''historical'', ''interim'', ''interrupted''}. \<not> truthy (jget params flag) \<and> \<not> truthy (jget payload flag)"
    using p(2) sid f by blast+
qed

lemma observed_route_live:
  "observed_route authorizer sid pj = JNull
   \<or> (\<exists>binding profile. binding_for_runtime authorizer (JStr sid) pj = Some binding \<and> jget binding ''live'' = JBool True
        \<and> jget binding ''profile'' = JStr profile \<and> authorizer profile = Some True
        \<and> observed_route authorizer sid pj = JObj [(lit ''durable_session_id'', jget binding ''durable_session_id''), (lit ''profile'', jget binding ''profile'')])"
proof (cases "binding_for_runtime authorizer (JStr sid) pj")
  case (Some binding)
  then have "jget binding ''live'' = JBool True" "\<exists>profile. identifier_of (jget binding ''profile'') = Some profile \<and> authorizer profile = Some True"
    by (auto simp: binding_for_runtime_def split: option.splits if_splits)
  moreover have "identifier_of v = Some t \<Longrightarrow> v = JStr t" for v t by (auto simp: identifier_of_def split: json.splits if_splits)
  ultimately show ?thesis using Some by (auto simp: observed_route_def)
qed (simp add: observed_route_def)

lemma announce_fields:
  "an_identity (announce i r d) = i" "an_route (announce i r d) = r"
  "an_data (announce i r d) = (case d of CompletionData t title \<Rightarrow> CompletionData t (if r = JNull then None else title) | _ \<Rightarrow> d)"
  by (simp_all add: announce_def)

text \<open>
  What is announced is live. An announcement comes from a strictly parsed event that none of its
  markers calls replayed, historical, interim or interrupted, for a session identifier of 1 to 128
  characters: a complete assistant message that is not blank and not an interruption notice, or one
  of the six requests with an identifier that is not marked as not blocking. It carries a route
  only if the projection holds a live binding of that session whose profile is authorized, and
  a title only with a route.
\<close>

theorem announcements_are_live:
  assumes "observe other sha256 limit authorizer pj s ob = (ob', Some a)"
  shows "live_announcement limit authorizer pj s a"
proof -
  obtain sid params payload where e: "live_event limit s = Some (sid, params, payload)"
    using assms by (auto simp: observe_def split: option.splits)
  obtain v where v: "loads_strict limit s = Some (JObj v)" "jget v ''method'' = JStr (lit ''event'')" "jget v ''params'' = JObj params"
    using live_eventD(1) [OF e] by blast
  obtain kind where kind: "jget params ''type'' = JStr kind"
    using assms e by (auto simp: observe_def split: json.splits)
  let ?r = "observed_route authorizer sid pj"
  consider (complete) content identity title where "kind = lit ''message.complete''" "complete_text payload = Some content"
      "a = announce identity ?r (CompletionData content title)"
    | (request) request where "kind \<in> INPUT_EVENTS" "request_of payload = Some request" "a = announce (RequestIdentity sid kind request) ?r (AttentionData kind)"
    using assms e kind by (auto simp: observe_def split: if_splits option.splits)
  then have "an_route a = ?r \<and> (case an_data a of
      CompletionData content title \<Rightarrow>
        kind = lit ''message.complete'' \<and> jget payload ''text'' = JStr content \<and> py_strip content \<noteq> [] \<and> (an_route a = JNull \<longrightarrow> title = None)
    | AttentionData k \<Rightarrow>
        k = kind \<and> kind \<in> INPUT_EVENTS \<and> jget payload ''blocking'' \<noteq> JBool False
        \<and> (\<exists>request. an_identity a = RequestIdentity sid kind request \<and> length request \<in> {1..128})
    | NoData \<Rightarrow> False)"
  proof cases
    case complete
    then have "jget payload ''text'' = JStr content \<and> py_strip content \<noteq> []"
      by (auto simp: complete_text_def split: json.splits if_splits)
    then show ?thesis using complete(1,3) by (simp add: announce_fields)
  next
    case request
    then have "jget payload ''blocking'' \<noteq> JBool False \<and> length request \<in> {1..128}"
      by (auto simp: request_of_def split: json.splits if_splits)
    then show ?thesis using request(1,3) by (simp add: announce_fields)
  qed
  then show ?thesis unfolding live_announcement_def
    using v live_eventD(2-5) [OF e] kind observed_route_live [of authorizer sid pj]
    by (intro exI [of _ v] exI [of _ params] exI [of _ payload] exI [of _ sid] exI [of _ kind]) simp
qed

theorem announcements_are_live_witness:
  "live_announcement 9 (\<lambda>_. None) demo_projection (oe_text (demo_text ''\"type\":\"message.complete\",\"payload\":{\"text\":\"ok\"}''))
     \<lparr>an_identity = TextIdentity (lit ''s'') (JInt 4) (map of_nat (lit ''ok'')), an_route = JNull, an_data = CompletionData (lit ''ok'') None\<rparr>"
proof (rule announcements_are_live)
  show "observe (\<lambda>_. False) id 9 (\<lambda>_. None) demo_projection (oe_text (demo_text ''\"type\":\"message.complete\",\"payload\":{\"text\":\"ok\"}'')) new_push_observer
    = (new_push_observer, Some \<lparr>an_identity = TextIdentity (lit ''s'') (JInt 4) (map of_nat (lit ''ok'')), an_route = JNull, an_data = CompletionData (lit ''ok'') None\<rparr>)"
    by code_simp
qed

end
