(* ===== verification/Spec2Isabelle.thy ===== *)
theory Spec2Isabelle
  imports Framing Secure_Channel Method_Policy Authorization_Props Recovery_Projection_Props Lease_Props Lease_Manager
    Controller_Transport Relay_Runtime Admission_Props Routing_Auth_Props Push_Preview_Props Push_Observer
begin

text \<open>
  Verification of the Mercury relay plugin, the Python code under
  \<^verbatim>\<open>src/src/mercury_relay_plugin\<close>.

  \<^bold>\<open>The program.\<close> The plugin runs on the host of a Hermes agent and lets a phone reach it
  through an untrusted router. A phone pairs once (a one-time capability, approved on the host),
  and from then on opens end-to-end encrypted Noise channels. Behind a channel stands a session
  lease: it owns one inner Hermes controller, keeps what the controller says in a bounded ring,
  and survives the loss of the outer connection, so that the phone can reattach and have replayed
  what it missed. Requests of the phone pass a method policy before they reach Hermes.

  \<^bold>\<open>Path of a phone.\<close> It pairs (\<open>complete_pairing\<close>, Authorization), is approved, and opens a
  controller: the service decrypts and reads its envelope (\<open>admit_begin\<close>, Admission_Envelope), checks
  its authorization, finds its lease or has the runtime start a controller (\<open>admit_select\<close>,
  \<open>open_runtime\<close>, Relay_Runtime, Hermes_Bridge) and registers a new one (\<open>install_lease\<close>,
  Lease_Manager), checks again (\<open>admit_finish\<close>), and binds the channel to a transport
  (\<open>bind_controller\<close>, Controller_Transport). Revocation (\<open>revoke_device\<close>) may come at any await.

  \<^bold>\<open>Path of a frame.\<close> Inbound: ciphertext, \<open>NoiseChannel.decrypt\<close> (Secure_Channel),
  \<open>Reassembler.push\<close> (Framing), UTF-8 (Py_Text), \<open>LeaseAttachment.feed_text\<close> and
  \<open>SessionLease.submit_text\<close> (Lease_Submit), \<open>VirtualWebSocket.feed_text\<close> (Virtual_WS) with the
  validator of Method_Policy, which reads JSON with Strict_Json. Outbound:
  \<open>VirtualWebSocket.next_text\<close>, \<open>SessionLease._retain\<close> with the recovery projection
  (Session_Lease, Recovery_Projection), \<open>LeaseAttachment.next_text\<close>, \<open>encode_message\<close>,
  \<open>NoiseChannel.encrypt\<close>. Controller_Transport composes both directions.

  \<^bold>\<open>Theories, in the order of their imports.\<close>
  \<^item> Prelude: results as sums, byte strings, slices; insertion-ordered dictionaries; and the
    interfaces the components share as locales: \<open>record_stream\<close> (splitter and consumer),
    \<open>fifo_port\<close> (one direction of a queue), \<open>invariant_component\<close> and \<open>guarded_component\<close>
    (initial states, steps and an invariant).
  \<^item> Py_Text, Strict_Json, Json_Text, Base64: Python strings as lists of code points with UTF-8;
    \<^verbatim>\<open>strict_json.py\<close> as a scanner and the writers of \<open>json.dumps\<close>; dictionary access; the
    canonical base64 codecs of \<^verbatim>\<open>identity.py\<close>. The locale \<open>json_writer\<close> gives the round trip
    for each of the escaping modes.
  \<^item> Framing: \<^verbatim>\<open>framing.py\<close>, record codec and reassembler.
  \<^item> Secure_Channel: \<^verbatim>\<open>secure_channel.py\<close>, the state machine around one Noise connection.
  \<^item> Virtual_WS: \<^verbatim>\<open>virtual_ws.py\<close>, the two bounded queues between the plugin and Hermes.
  \<^item> Method_Policy: \<^verbatim>\<open>method_policy.py\<close>, and \<open>validate_profile_id\<close> of \<^verbatim>\<open>config.py\<close>.
  \<^item> Authorization, Authorization_Props: \<^verbatim>\<open>authorization.py\<close>, every operation of the repository
    as a transaction on the persisted state.
  \<^item> Lease_Recovery, Recovery_Projection and their \<open>_Props\<close>: \<^verbatim>\<open>lease_recovery.py\<close>, the durable
    store of task evidence and the projection a lease keeps of it.
  \<^item> Session_Lease, Lease_Submit: \<^verbatim>\<open>session_lease.py\<close>, data, attachments, retention and release,
    then the ledgers and the lease as a state machine (\<open>lease_event\<close>, \<open>lease_step\<close>).
    Lease_Inv, Lease_Ring and Lease_Ledger prove its invariants, Lease_Props its properties.
  \<^item> Lease_Manager: \<open>SessionLeaseManager\<close> of \<^verbatim>\<open>session_lease.py\<close>.
  \<^item> Controller_Transport: \<^verbatim>\<open>controller_transport.py\<close>.
  \<^item> Hermes_Bridge, Relay_Runtime: \<^verbatim>\<open>hermes_compat.py\<close> and \<^verbatim>\<open>runtime.py\<close>, one invocation of the
    Hermes handler and the owner of all of them.
  \<^item> Admission_Envelope: writer and reader of the authentication envelope of \<^verbatim>\<open>admission.py\<close>.
  \<^item> Admission: \<open>DeviceAdmissionService\<close> of \<^verbatim>\<open>admission.py\<close>, which composes the repository, the
    channels, the manager, the recovery store and the runtime (\<open>sv_event\<close>, \<open>sv_step\<close>).
    Admission_Inv shows that each step moves the parts by their own operations, Admission_Outcome
    what an admission yields, Admission_Props the properties.
  \<^item> Json_Loads, Routing_Auth, Routing_Auth_Props: \<^verbatim>\<open>routing_auth.py\<close>, the tokens that admit the
    host and its phones to the router, with the plain \<open>json.loads\<close> their verifier uses.
  \<^item> Push_Preview, Push_Preview_Props: \<^verbatim>\<open>push_preview.py\<close>, what a notification may say and how it is
    cut, serialised and sealed.
  \<^item> Relay_Origin: the canonical origin of \<^verbatim>\<open>config.py\<close>.
  \<^item> Push_Rows, Push_Bridge, Push_Machine: \<open>PushBridge\<close> of \<^verbatim>\<open>push.py\<close>, the rows and their file, the
    small steps, then requests, wakes, the worker and the bridge as a state machine
    (\<open>push_event\<close>, \<open>push_step\<close>). Push_Inv proves its invariant, Push_Props its properties.
  \<^item> Push_Observer: \<open>PushObserver\<close>, which turns the output of a controller into wakes.

  \<^bold>\<open>Path of a wake.\<close> The lease shows every text it retains to the observer (\<open>observe\<close>), which asks
  the recovery projection for the route and hands an announcement to \<open>push_wake\<close> (\<open>observed_wake\<close>);
  the bridge seals a preview, queues a job, and its worker sends it (\<open>worker_take\<close>,
  \<open>post_start\<close>, \<open>worker_resume\<close>). Revocation of a device makes debts of its rows (\<open>push_revoke\<close>).
  The lease model does not carry the observer, whose exceptions it suppresses and whose result it does
  not read.

  \<^bold>\<open>How code is represented.\<close> A class is a record and a method a function from the state to a
  result and the next state. A raised exception is a left value of an error datatype, so that
  every early return is a branch. The stretch of code between two awaits is one step; an await
  that has not ended is the value \<open>None\<close> or \<open>Blocked\<close>, a created task an entry of a list in the
  state, and interleaving is the order of the events of a run. Objects that several parts keep hold
  of (attachments, leases, mutation records) are numbered entries of a list. Integers are
  unbounded as in Python, bytes are 8-bit words, and numbers of the record header are cut into
  bytes explicitly. Clock readings, random draws, SHA-256, X25519, the outcome of a disk write,
  the profile authorizer and the results of dispatched reads are arguments of the operations.
  The \<^verbatim>\<open>noise\<close> package is the record \<open>noise_lib\<close> of its calls, with the named hypotheses
  \<open>noise_matches\<close> (a conforming handshake) and \<open>noise_transport\<close> (what one side encrypts the
  other decrypts, in order), both instantiated by \<open>plain_noise\<close>. Ed25519 is the record
  \<open>ed25519\<close> with the hypothesis \<open>ed25519_ok\<close> (signatures verify under the public key). ChaCha20-Poly1305
  is a function argument without hypotheses. Tables of Unicode are arguments too: \<open>other_ok\<close> says
  that control characters and surrogates are in the category C, \<open>url_lib_ok\<close> how ASCII is lowered.

  \<^bold>\<open>What the lemmas show.\<close> Framing and the channel are exact inverses of each other end to end, and
  sound against any byte stream. Queues are bounded and first-in first-out. The policy admits
  exactly the safe requests. Authorization needs an approval, capabilities are spent once and
  revocation is final. Recovery evidence is bounded, scoped to a device, and terminal evidence is
  never overwritten. A lease replays exactly what was missed, dispatches a prompt once, stays
  within its limits, and is fenced and torn down once; the registry owns every controller
  that may still run; and no failure of an outer transport releases a lease. The runtime loses no
  controller. An admission that is granted is, at the moment it is granted, authorized for that key
  and that epoch, whatever happened while it waited, and a revoked device is cut off at once.
  Routing tokens that are minted verify, and tokens that verify were signed and are in force.
  A preview always fits, the relay origin is exactly what was configured, the push bridge forgets no
  registration before the relay has confirmed it, contacts no revoked device but to unregister it,
  and a turn is announced once.
  Each property is a theorem with its identifier in the text block before it, and one that has
  hypotheses is followed by a theorem that applies it to a concrete input.

  \<^bold>\<open>Bounds and fuel.\<close> The recursion limit of the JSON reader is a parameter; it counts nesting,
  and a text nested deeper is refused as the code does. The scanner and every loop are total
  functions with termination proofs; no definition runs on fuel.

  \<^bold>\<open>Not modelled.\<close> Operating-system work (paths, permissions, advisory locks, \<^verbatim>\<open>secure_fs.py\<close>,
  \<^verbatim>\<open>identity.py\<close> file handling); network clients and their retry loops (\<^verbatim>\<open>connector.py\<close>,
  \<^verbatim>\<open>relay_client.py\<close>, \<^verbatim>\<open>update_check.py\<close>); host reads (\<^verbatim>\<open>session_reads.py\<close>, \<^verbatim>\<open>folders.py\<close>, \<^verbatim>\<open>image_reads.py\<close>), journal, metrics, dashboard and
  management, and the vendored packages.
\<close>

end
